(* ===== verification/Prelude.thy ===== *)
theory Prelude
  imports Main "HOL-Library.Word" "HOL-Library.Signed_Division" "HOL-Library.Monad_Syntax"
begin

text \<open>
  Shared vocabulary of the development: the C integer types at their LP64 widths, character
  arrays, the C string operations the sources call, bounds-checked array access, and the generic
  facts about words, lists and the option monad on which the component theories rest.

  Conventions. A C integer is a word of its width; comparisons of signed integers use
  \<open><s\<close> and \<open>\<le>s\<close>, arithmetic wraps.  A character array is the list of all its bytes, and
  \<open>cstr\<close> is the string a C function reads in it, up to the first NUL.  \<open>None\<close> of a partial
  operation is undefined behaviour of the C code: a NULL or dangling dereference, an index
  outside an array, or a loop that does not end.
\<close>

unbundle bit_operations_syntax

section \<open>Named collections\<close>

named_theorems cstr_simps \<open>facts about C strings in character arrays\<close>
named_theorems cword_simps \<open>facts that read word arithmetic as integer arithmetic\<close>

section \<open>C integer types\<close>

type_synonym i32 = "32 word"
type_synonym u16 = "16 word"
type_synonym u32 = "32 word"
type_synonym i64 = "64 word"
type_synonym u64 = "64 word"
type_synonym byte = "8 word"
type_synonym count_t = "64 word"
type_synonym time_t = "64 word"

text \<open>C division and remainder of signed operands truncate towards zero.\<close>

definition cdiv :: "'a::len word \<Rightarrow> 'a word \<Rightarrow> 'a word" where
  "cdiv a b = word_of_int (sint a sdiv sint b)"

definition cmod :: "'a::len word \<Rightarrow> 'a word \<Rightarrow> 'a word" where
  "cmod a b = word_of_int (sint a smod sint b)"

text \<open>A value read in a C condition.\<close>

abbreviation truth :: "'a::len word \<Rightarrow> bool" where
  "truth w \<equiv> w \<noteq> 0"

section \<open>Signed word arithmetic without overflow\<close>

lemma signed_take_bit_64_id:
  "- (2 ^ 63) \<le> k \<Longrightarrow> k < 2 ^ 63 \<Longrightarrow> signed_take_bit 63 k = (k::int)"
  by (simp add: signed_take_bit_int_eq_self)

lemma sint_add_64:
  fixes a b :: "64 word"
  assumes "- (2 ^ 63) \<le> sint a + sint b" and "sint a + sint b < 2 ^ 63"
  shows "sint (a + b) = sint a + sint b"
  using assms by (simp add: sint_word_add signed_take_bit_int_eq_self)

lemma sint_diff_64:
  fixes a b :: "64 word"
  assumes "- (2 ^ 63) \<le> sint a - sint b" and "sint a - sint b < 2 ^ 63"
  shows "sint (a - b) = sint a - sint b"
  using assms by (simp add: sint_word_diff signed_take_bit_int_eq_self)

lemma sint_range_64: "- (2 ^ 63) \<le> sint (w :: 64 word)" "sint (w :: 64 word) < 2 ^ 63"
  using sint_range_size [of w] by (simp_all add: word_size)

section \<open>Character arrays\<close>

abbreviation NUL :: char where "NUL \<equiv> CHR 0x00"

type_synonym chars = "char list"

definition cstr :: "chars \<Rightarrow> string" where
  "cstr a = takeWhile (\<lambda>c. c \<noteq> NUL) a"

text \<open>\<open>name[0]\<close> tested as a truth value.\<close>

definition cnonempty :: "chars \<Rightarrow> bool" where
  "cnonempty a \<longleftrightarrow> cstr a \<noteq> []"

text \<open>\<open>strcmp(a, b) == 0\<close>.\<close>

definition streq :: "chars \<Rightarrow> chars \<Rightarrow> bool" where
  "streq a b \<longleftrightarrow> cstr a = cstr b"

text \<open>\<open>strcpy(dst, src)\<close>: the string and its NUL, then what the array held before.\<close>

definition strcpy :: "chars \<Rightarrow> chars \<Rightarrow> chars" where
  "strcpy dst src = cstr src @ [NUL] @ drop (length (cstr src) + 1) dst"

text \<open>\<open>a[0] = '\0'\<close>.\<close>

definition cclear :: "chars \<Rightarrow> chars" where
  "cclear a = NUL # tl a"

text \<open>\<open>strncpy(dst, src, n)\<close>: at most \<open>n\<close> characters, padded with NULs up to \<open>n\<close>.\<close>

definition strncpy :: "chars \<Rightarrow> chars \<Rightarrow> nat \<Rightarrow> chars" where
  "strncpy dst src n =
     (let s = take n (cstr src) in s @ replicate (n - length s) NUL @ drop n dst)"

text \<open>\<open>isspace\<close> in the C locale.\<close>

definition isspace :: "char \<Rightarrow> bool" where
  "isspace c \<longleftrightarrow> c \<in> {CHR '' '', CHR 0x09, CHR 0x0A, CHR 0x0B, CHR 0x0C, CHR 0x0D}"

lemma cstr_Nil [simp, cstr_simps]: "cstr [] = []"
  by (simp add: cstr_def)

lemma cstr_Cons [simp, cstr_simps]: "cstr (c # a) = (if c = NUL then [] else c # cstr a)"
  by (simp add: cstr_def)

lemma cstr_no_NUL [cstr_simps]: "NUL \<notin> set (cstr a)"
  by (induction a) auto

lemma cstr_append_NUL [simp, cstr_simps]: "NUL \<notin> set s \<Longrightarrow> cstr (s @ NUL # r) = s"
  by (induction s) auto

lemma cstr_id: "NUL \<notin> set s \<Longrightarrow> cstr s = s"
  by (induction s) auto

lemma cstr_replicate_NUL [simp, cstr_simps]: "cstr (replicate n NUL) = []"
  by (cases n) auto

lemma cstr_idem [simp, cstr_simps]: "cstr (cstr a) = cstr a"
  by (simp add: cstr_id cstr_no_NUL)

lemma cstr_strcpy [simp, cstr_simps]: "cstr (strcpy dst src) = cstr src"
  by (simp add: strcpy_def cstr_no_NUL)

lemma length_strcpy: "length (cstr src) < length dst \<Longrightarrow> length (strcpy dst src) = length dst"
  by (simp add: strcpy_def)

lemma cstr_cclear [simp, cstr_simps]: "cstr (cclear a) = []"
  by (simp add: cclear_def)

lemma cnonempty_cclear [simp]: "\<not> cnonempty (cclear a)"
  by (simp add: cnonempty_def)

lemma streq_refl [simp, intro]: "streq a a"
  by (simp add: streq_def)

lemma streq_sym: "streq a b \<Longrightarrow> streq b a"
  by (simp add: streq_def)

lemma cnonempty_streq: "streq a b \<Longrightarrow> cnonempty a = cnonempty b"
  by (simp add: streq_def cnonempty_def)

section \<open>Bounds-checked arrays\<close>

text \<open>Reading \<open>a[i]\<close>; outside the array the behaviour is undefined.\<close>

definition aget :: "'a list \<Rightarrow> nat \<Rightarrow> 'a option" where
  "aget xs i = (if i < length xs then Some (xs ! i) else None)"

text \<open>Updating \<open>a[i]\<close> in place.\<close>

definition aupd :: "'a list \<Rightarrow> nat \<Rightarrow> ('a \<Rightarrow> 'a) \<Rightarrow> 'a list option" where
  "aupd xs i f = (if i < length xs then Some (xs[i := f (xs ! i)]) else None)"

lemma aget_Some_iff [simp]: "aget xs i = Some x \<longleftrightarrow> i < length xs \<and> xs ! i = x"
  by (auto simp: aget_def)

lemma aget_None_iff [simp]: "aget xs i = None \<longleftrightarrow> length xs \<le> i"
  by (auto simp: aget_def)

lemma aget_eq [simp]: "i < length xs \<Longrightarrow> aget xs i = Some (xs ! i)"
  by simp

lemma aupd_Some_iff: "aupd xs i f = Some ys \<longleftrightarrow> i < length xs \<and> ys = xs[i := f (xs ! i)]"
  by (auto simp: aupd_def)

lemma aupd_eq [simp]: "i < length xs \<Longrightarrow> aupd xs i f = Some (xs[i := f (xs ! i)])"
  by (simp add: aupd_def)

lemma length_aupd: "aupd xs i f = Some ys \<Longrightarrow> length ys = length xs"
  by (auto simp: aupd_def split: if_splits)

end
