(* ===== verification/Task_Types.thy ===== *)
theory Task_Types
  imports Prelude
begin

text \<open>
  The per-task counters of the process monitor, \<open>struct tstat\<close> of
  \<^verbatim>\<open>src/Qt/FakeAtop/photoproc.h\<close>: general information, cpu, disk, memory and network statistics.
  Each nested struct is a record with the source's fields in the source's order, reserved
  fields included, because \<open>deviattask\<close> compares whole structures.  The constants ending in
  \<open>0\<close> are the structures after \<open>memset(..., 0, ...)\<close>.
\<close>

section \<open>struct tstat\<close>

record gen =
  gen_tgid :: i32
  gen_pid :: i32
  gen_ppid :: i32
  gen_ruid :: i32
  gen_euid :: i32
  gen_suid :: i32
  gen_fsuid :: i32
  gen_rgid :: i32
  gen_egid :: i32
  gen_sgid :: i32
  gen_fsgid :: i32
  gen_nthr :: i32
  gen_name :: chars
  gen_isproc :: byte
  gen_state :: byte
  gen_excode :: i32
  gen_btime :: time_t
  gen_elaps :: time_t
  gen_cmdline :: chars
  gen_nthrslpi :: i32
  gen_nthrslpu :: i32
  gen_nthrrun :: i32
  gen_ctid :: i32
  gen_vpid :: i32
  gen_wasinactive :: i32
  gen_container :: chars

record cpu =
  cpu_utime :: count_t
  cpu_stime :: count_t
  cpu_nice :: i32
  cpu_prio :: i32
  cpu_rtprio :: i32
  cpu_policy :: i32
  cpu_curcpu :: i32
  cpu_sleepavg :: i32
  cpu_ifuture :: "i32 list"
  cpu_cfuture :: "count_t list"

record dsk =
  dsk_rio :: count_t
  dsk_rsz :: count_t
  dsk_wio :: count_t
  dsk_wsz :: count_t
  dsk_cwsz :: count_t
  dsk_cfuture :: "count_t list"

record mem =
  mem_minflt :: count_t
  mem_majflt :: count_t
  mem_vexec :: count_t
  mem_vmem :: count_t
  mem_rmem :: count_t
  mem_pmem :: count_t
  mem_vgrow :: count_t
  mem_rgrow :: count_t
  mem_vdata :: count_t
  mem_vstack :: count_t
  mem_vlibs :: count_t
  mem_vswap :: count_t
  mem_cfuture :: "count_t list"

record net =
  net_tcpsnd :: count_t
  net_tcpssz :: count_t
  net_tcprcv :: count_t
  net_tcprsz :: count_t
  net_udpsnd :: count_t
  net_udpssz :: count_t
  net_udprcv :: count_t
  net_udprsz :: count_t
  net_avail1 :: count_t
  net_avail2 :: count_t
  net_cfuture :: "count_t list"

record tstat =
  t_gen :: gen
  t_cpu :: cpu
  t_dsk :: dsk
  t_mem :: mem
  t_net :: net

definition gen0 :: gen where
  "gen0 = \<lparr>gen_tgid = 0,
     gen_pid = 0,
     gen_ppid = 0,
     gen_ruid = 0,
     gen_euid = 0,
     gen_suid = 0,
     gen_fsuid = 0,
     gen_rgid = 0,
     gen_egid = 0,
     gen_sgid = 0,
     gen_fsgid = 0,
     gen_nthr = 0,
     gen_name = replicate 16 NUL,
     gen_isproc = 0,
     gen_state = 0,
     gen_excode = 0,
     gen_btime = 0,
     gen_elaps = 0,
     gen_cmdline = replicate 4097 NUL,
     gen_nthrslpi = 0,
     gen_nthrslpu = 0,
     gen_nthrrun = 0,
     gen_ctid = 0,
     gen_vpid = 0,
     gen_wasinactive = 0,
     gen_container = replicate 16 NUL\<rparr>"

definition cpu0 :: cpu where
  "cpu0 = \<lparr>cpu_utime = 0,
     cpu_stime = 0,
     cpu_nice = 0,
     cpu_prio = 0,
     cpu_rtprio = 0,
     cpu_policy = 0,
     cpu_curcpu = 0,
     cpu_sleepavg = 0,
     cpu_ifuture = replicate 4 0,
     cpu_cfuture = replicate 4 0\<rparr>"

definition dsk0 :: dsk where
  "dsk0 = \<lparr>dsk_rio = 0,
     dsk_rsz = 0,
     dsk_wio = 0,
     dsk_wsz = 0,
     dsk_cwsz = 0,
     dsk_cfuture = replicate 4 0\<rparr>"

definition mem0 :: mem where
  "mem0 = \<lparr>mem_minflt = 0,
     mem_majflt = 0,
     mem_vexec = 0,
     mem_vmem = 0,
     mem_rmem = 0,
     mem_pmem = 0,
     mem_vgrow = 0,
     mem_rgrow = 0,
     mem_vdata = 0,
     mem_vstack = 0,
     mem_vlibs = 0,
     mem_vswap = 0,
     mem_cfuture = replicate 4 0\<rparr>"

definition net0 :: net where
  "net0 = \<lparr>net_tcpsnd = 0,
     net_tcpssz = 0,
     net_tcprcv = 0,
     net_tcprsz = 0,
     net_udpsnd = 0,
     net_udpssz = 0,
     net_udprcv = 0,
     net_udprsz = 0,
     net_avail1 = 0,
     net_avail2 = 0,
     net_cfuture = replicate 4 0\<rparr>"

definition tstat0 :: tstat where
  "tstat0 = \<lparr>t_gen = gen0, t_cpu = cpu0, t_dsk = dsk0, t_mem = mem0, t_net = net0\<rparr>"

section \<open>Facts about the zeroed structures\<close>

lemma tstat0_simps [simp]:
  "gen_pid (t_gen tstat0) = 0"
  "gen_isproc (t_gen tstat0) = 0"
  "gen_wasinactive (t_gen tstat0) = 0"
  "cstr (gen_cmdline (t_gen tstat0)) = []"
  "cpu_stime (t_cpu tstat0) = 0" "cpu_utime (t_cpu tstat0) = 0"
  "dsk_rio (t_dsk tstat0) = 0" "dsk_wio (t_dsk tstat0) = 0"
  "mem_minflt (t_mem tstat0) = 0" "mem_majflt (t_mem tstat0) = 0"
  "dsk_rsz (t_dsk tstat0) = 0" "dsk_wsz (t_dsk tstat0) = 0" "dsk_cwsz (t_dsk tstat0) = 0"
  "mem_vmem (t_mem tstat0) = 0" "mem_rmem (t_mem tstat0) = 0"
  "cstr (gen_name (t_gen tstat0)) = []" "t_net tstat0 = net0"
  by (simp_all add: tstat0_def gen0_def cpu0_def dsk0_def mem0_def)

lemma net0_simps [simp]:
  "net_tcpsnd net0 = 0" "net_tcpssz net0 = 0" "net_tcprcv net0 = 0" "net_tcprsz net0 = 0"
  "net_udpsnd net0 = 0" "net_udpssz net0 = 0" "net_udprcv net0 = 0" "net_udprsz net0 = 0"
  by (simp_all add: net0_def)

end
