(* ===== verification/Procdbase.thy ===== *)
theory Procdbase
  imports Task_Types
begin

text \<open>
  The process database of \<^verbatim>\<open>src/Qt/FakeAtop/procdbase.c\<close>: 256 hash buckets of singly linked
  \<open>struct pinfo\<close> nodes, which are at the same time members of the cyclic doubly linked RESIDUE
  list anchored at the static node \<open>presidue\<close>.  The nodes live in an explicit heap, since the
  two lists share them and the code relinks one list while it walks the other.  A result
  \<open>None\<close> is a NULL or dangling dereference, or a chain that never ends.
\<close>

section \<open>Data\<close>

type_synonym addr = nat
type_synonym ptr = "addr option"

text \<open>\<open>struct pinfo\<close>.\<close>

record pinfo =
  phnext :: ptr
  prnext :: ptr
  prprev :: ptr
  p_tstat :: tstat

text \<open>The static variables of the file: the hash array, and the heap holding the nodes.\<close>

record pdb =
  pheap :: "addr \<rightharpoonup> pinfo"
  phash :: "nat \<Rightarrow> ptr"

text \<open>The address of the static anchor \<open>presidue\<close>.\<close>

definition presidue :: addr where
  "presidue = 0"

definition NPHASH :: nat where
  "NPHASH = 256"

text \<open>\<open>pid&(NPHASH-1)\<close>.\<close>

definition hashidx :: "i32 \<Rightarrow> nat" where
  "hashidx pid = unat (pid AND 255)"

abbreviation n_pid :: "pinfo \<Rightarrow> i32" where "n_pid n \<equiv> gen_pid (t_gen (p_tstat n))"
abbreviation n_isproc :: "pinfo \<Rightarrow> byte" where "n_isproc n \<equiv> gen_isproc (t_gen (p_tstat n))"
abbreviation n_btime :: "pinfo \<Rightarrow> time_t" where "n_btime n \<equiv> gen_btime (t_gen (p_tstat n))"

text \<open>Reading and writing through a pointer, and \<open>free\<close>.\<close>

definition rd :: "pdb \<Rightarrow> ptr \<Rightarrow> pinfo option" where
  "rd d p = Option.bind p (pheap d)"

definition wr :: "pdb \<Rightarrow> ptr \<Rightarrow> (pinfo \<Rightarrow> pinfo) \<Rightarrow> pdb option" where
  "wr d p f = (case p of None \<Rightarrow> None
     | Some a \<Rightarrow> (case pheap d a of None \<Rightarrow> None
         | Some n \<Rightarrow> Some (d\<lparr>pheap := (pheap d)(a \<mapsto> f n)\<rparr>)))"

definition free_node :: "pdb \<Rightarrow> ptr \<Rightarrow> pdb" where
  "free_node d p = (case p of None \<Rightarrow> d | Some a \<Rightarrow> d\<lparr>pheap := (pheap d)(a := None)\<rparr>)"

section \<open>Operations\<close>

text \<open>
  Unchaining a node from the residue list: the two assignments of \<open>pdb_gettask\<close> and of the
  second half of \<open>pdb_deltask\<close>.
\<close>

definition unchain :: "pdb \<Rightarrow> ptr \<Rightarrow> pdb option" where
  "unchain d pp = do {
     n \<leftarrow> rd d pp;
     d \<leftarrow> wr d (prnext n) (\<lambda>m. m\<lparr>prprev := prprev n\<rparr>);
     n \<leftarrow> rd d pp;
     wr d (prprev n) (\<lambda>m. m\<lparr>prnext := prnext n\<rparr>)
   }"

text \<open>The same in the order of the first half of \<open>pdb_deltask\<close>.\<close>

definition unchain_first :: "pdb \<Rightarrow> ptr \<Rightarrow> pdb option" where
  "unchain_first d pp = do {
     n \<leftarrow> rd d pp;
     d \<leftarrow> wr d (prprev n) (\<lambda>m. m\<lparr>prnext := prnext n\<rparr>);
     n \<leftarrow> rd d pp;
     wr d (prnext n) (\<lambda>m. m\<lparr>prprev := prprev n\<rparr>)
   }"

text \<open>The test on the start time: \<open>int diff\<close> is the \<open>time_t\<close> difference cut to 32 bits.\<close>

definition btime_near :: "time_t \<Rightarrow> time_t \<Rightarrow> bool" where
  "btime_near b1 b2 = (let diff = (ucast (b1 - b2) :: i32) in \<not> (1 <s diff \<or> diff <s -1))"

text \<open>The loop of \<open>pdb_gettask\<close>; \<open>None\<close> as second component is the return value 0.\<close>

partial_function (option) gettask_scan ::
    "i32 \<Rightarrow> byte \<Rightarrow> time_t \<Rightarrow> pdb \<Rightarrow> ptr \<Rightarrow> (pdb \<times> ptr) option" where
  "gettask_scan pid isproc btime d pp =
     (case pp of
        None \<Rightarrow> Some (d, None)
      | Some a \<Rightarrow> do {
          n \<leftarrow> rd d pp;
          if n_pid n = pid \<and> n_isproc n = isproc then
            if \<not> btime_near (n_btime n) btime
            then gettask_scan pid isproc btime d (phnext n)
            else do {
              d \<leftarrow> (if prnext n \<noteq> None then unchain d pp else Some d);
              d \<leftarrow> wr d pp (\<lambda>n. n\<lparr>prnext := None, prprev := None\<rparr>);
              Some (d, pp)
            }
          else gettask_scan pid isproc btime d (phnext n)
        })"

definition pdb_gettask :: "pdb \<Rightarrow> i32 \<Rightarrow> byte \<Rightarrow> time_t \<Rightarrow> (pdb \<times> ptr) option" where
  "pdb_gettask d pid isproc btime = gettask_scan pid isproc btime d (phash d (hashidx pid))"

definition pdb_addtask :: "pdb \<Rightarrow> i32 \<Rightarrow> ptr \<Rightarrow> pdb option" where
  "pdb_addtask d pid pinfop = do {
     let i = hashidx pid;
     d \<leftarrow> wr d pinfop (\<lambda>n. n\<lparr>phnext := phash d i\<rparr>);
     Some (d\<lparr>phash := (phash d)(i := pinfop)\<rparr>)
   }"

text \<open>The loop of \<open>pdb_deltask\<close> over the entries behind the first one.\<close>

partial_function (option) deltask_scan ::
    "i32 \<Rightarrow> byte \<Rightarrow> pdb \<Rightarrow> ptr \<Rightarrow> ptr \<Rightarrow> (pdb \<times> bool) option" where
  "deltask_scan pid isproc d ppp pp =
     (case pp of
        None \<Rightarrow> Some (d, False)
      | Some a \<Rightarrow> do {
          n \<leftarrow> rd d pp;
          if n_pid n = pid \<and> n_isproc n = isproc then do {
            d \<leftarrow> wr d ppp (\<lambda>m. m\<lparr>phnext := phnext n\<rparr>);
            d \<leftarrow> (if prnext n \<noteq> None then unchain d pp else Some d);
            Some (free_node d pp, True)
          }
          else deltask_scan pid isproc d pp (phnext n)
        })"

definition pdb_deltask :: "pdb \<Rightarrow> i32 \<Rightarrow> byte \<Rightarrow> (pdb \<times> bool) option" where
  "pdb_deltask d pid isproc = do {
     let pp = phash d (hashidx pid);
     n \<leftarrow> rd d pp;
     if n_pid n = pid \<and> n_isproc n = isproc then do {
       let d = d\<lparr>phash := (phash d)(hashidx pid := phnext n)\<rparr>;
       d \<leftarrow> (if prnext n \<noteq> None then unchain_first d pp else Some d);
       Some (free_node d pp, True)
     }
     else deltask_scan pid isproc d pp (phnext n)
   }"

text \<open>The inner loop of \<open>pdb_makeresidue\<close>: chain the entries of one bucket.\<close>

partial_function (option) makeresidue_chain :: "pdb \<Rightarrow> ptr \<Rightarrow> pdb option" where
  "makeresidue_chain d pp =
     (case pp of
        None \<Rightarrow> Some d
      | Some a \<Rightarrow> do {
          pr \<leftarrow> rd d (Some presidue);
          d \<leftarrow> wr d pp (\<lambda>n. n\<lparr>prnext := prnext pr\<rparr>);
          d \<leftarrow> wr d (Some presidue) (\<lambda>n. n\<lparr>prnext := pp\<rparr>);
          n \<leftarrow> rd d pp;
          m \<leftarrow> rd d (prnext n);
          d \<leftarrow> wr d pp (\<lambda>n. n\<lparr>prprev := prprev m\<rparr>);
          d \<leftarrow> wr d (prnext n) (\<lambda>m. m\<lparr>prprev := pp\<rparr>);
          n \<leftarrow> rd d pp;
          makeresidue_chain d (phnext n)
        })"

text \<open>The outer loop, over the bucket numbers still to come.\<close>

fun makeresidue_hash :: "nat list \<Rightarrow> pdb \<Rightarrow> pdb option" where
  "makeresidue_hash [] d = Some d"
| "makeresidue_hash (i # is) d =
     (if phash d i = None then makeresidue_hash is d
      else do { d \<leftarrow> makeresidue_chain d (phash d i); makeresidue_hash is d })"

definition pdb_makeresidue :: "pdb \<Rightarrow> pdb option" where
  "pdb_makeresidue d = do {
     d \<leftarrow> wr d (Some presidue) (\<lambda>n. n\<lparr>prnext := Some presidue, prprev := Some presidue\<rparr>);
     makeresidue_hash [0..<NPHASH] d
   }"

partial_function (option) cleanresidue_loop :: "pdb \<Rightarrow> ptr \<Rightarrow> pdb option" where
  "cleanresidue_loop d pr =
     (if pr = Some presidue then Some d
      else do {
        n \<leftarrow> rd d pr;
        (d, _) \<leftarrow> pdb_deltask d (n_pid n) (n_isproc n);
        cleanresidue_loop d (prnext n)
      })"

definition pdb_cleanresidue :: "pdb \<Rightarrow> pdb option" where
  "pdb_cleanresidue d = do {
     pr \<leftarrow> rd d (Some presidue);
     cleanresidue_loop d (prnext pr)
   }"

text \<open>
  \<open>pdb_srchresidue\<close>: an entry with the user, group and name of the searched task whose start
  time is the same, else the first one whose start time is a second off.
\<close>

definition srch_fits :: "tstat \<Rightarrow> pinfo \<Rightarrow> bool" where
  "srch_fits t n \<longleftrightarrow>
     gen_ruid (t_gen (p_tstat n)) = gen_ruid (t_gen t) \<and>
     gen_rgid (t_gen (p_tstat n)) = gen_rgid (t_gen t) \<and>
     streq (gen_name (t_gen (p_tstat n))) (gen_name (t_gen t))"

partial_function (option) srchresidue_loop :: "tstat \<Rightarrow> pdb \<Rightarrow> ptr \<Rightarrow> ptr \<Rightarrow> ptr option" where
  "srchresidue_loop t d prmin pr =
     (if pr = Some presidue then Some prmin
      else do {
        n \<leftarrow> rd d pr;
        if srch_fits t n then
          (let btimediff = n_btime n - gen_btime (t_gen t) in
           if btimediff = 0 then Some pr
           else if (btimediff = -1 \<or> btimediff = 1) \<and> prmin = None
                then srchresidue_loop t d pr (prnext n)
                else srchresidue_loop t d prmin (prnext n))
        else srchresidue_loop t d prmin (prnext n)
      })"

definition pdb_srchresidue :: "pdb \<Rightarrow> tstat \<Rightarrow> ptr option" where
  "pdb_srchresidue d t = do {
     pr \<leftarrow> rd d (Some presidue);
     srchresidue_loop t d None (prnext pr)
   }"

end
