(* ===== verification/Procdbase_Rep.thy ===== *)
theory Procdbase_Rep
  imports Procdbase
begin

text \<open>
  The heap of the process database against its abstraction: the list of nodes of every hash
  bucket (\<open>hash_ok\<close>) and the list of nodes of the residue (\<open>resid_ok\<close>).  For every operation of
  \<open>Procdbase\<close> a lemma states that it returns, that it keeps both well-formedness predicates, and
  which list operation it performs.
\<close>

section \<open>The abstraction: bucket lists and the residue ring\<close>

text \<open>The nodes on a hash chain.\<close>

fun chain :: "(addr \<rightharpoonup> pinfo) \<Rightarrow> ptr \<Rightarrow> addr list \<Rightarrow> bool" where
  "chain h p [] \<longleftrightarrow> p = None"
| "chain h p (a # xs) \<longleftrightarrow> p = Some a \<and> (\<exists>n. h a = Some n \<and> chain h (phnext n) xs)"

text \<open>Two nodes are neighbours in the residue list, in both directions.\<close>

definition link :: "(addr \<rightharpoonup> pinfo) \<Rightarrow> addr \<Rightarrow> addr \<Rightarrow> bool" where
  "link h a b \<longleftrightarrow>
     map_option prnext (h a) = Some (Some b) \<and> map_option prprev (h b) = Some (Some a)"

abbreviation ring :: "(addr \<rightharpoonup> pinfo) \<Rightarrow> addr list \<Rightarrow> bool" where
  "ring h rs \<equiv> successively (link h) (presidue # rs @ [presidue])"

definition nodes :: "(nat \<Rightarrow> addr list) \<Rightarrow> addr set" where
  "nodes cs = (\<Union>i<NPHASH. set (cs i))"

definition hash_ok :: "pdb \<Rightarrow> (nat \<Rightarrow> addr list) \<Rightarrow> bool" where
  "hash_ok d cs \<longleftrightarrow> presidue \<in> dom (pheap d) \<and>
     (\<forall>i<NPHASH. chain (pheap d) (phash d i) (cs i) \<and> distinct (cs i) \<and> presidue \<notin> set (cs i) \<and>
        (\<forall>a\<in>set (cs i). \<exists>n. pheap d a = Some n \<and> hashidx (n_pid n) = i))"

definition resid_ok :: "pdb \<Rightarrow> (nat \<Rightarrow> addr list) \<Rightarrow> addr list \<Rightarrow> bool" where
  "resid_ok d cs rs \<longleftrightarrow> ring (pheap d) rs \<and> distinct rs \<and> presidue \<notin> set rs \<and>
     set rs \<subseteq> nodes cs \<and>
     (\<forall>a\<in>nodes cs - set rs. map_option prnext (pheap d a) = Some None)"

text \<open>The fields the residue list does not use.\<close>

definition skel :: "(addr \<rightharpoonup> pinfo) \<Rightarrow> addr \<Rightarrow> (ptr \<times> tstat) option" where
  "skel h a = map_option (\<lambda>n. (phnext n, p_tstat n)) (h a)"

subsection \<open>Generic facts\<close>

lemma hashidx_less [simp]: "hashidx pid < NPHASH"
proof -
  have "unat (pid AND 255) \<le> unat (255 :: i32)"
    by (rule word_and_le1 [THEN word_le_nat_alt [THEN iffD1]])
  then show ?thesis by (simp add: hashidx_def NPHASH_def)
qed

lemma successively_pairs:
  assumes "successively P xs"
    and "\<And>x y. x \<in> set (butlast xs) \<Longrightarrow> y \<in> set (tl xs) \<Longrightarrow> P x y \<Longrightarrow> Q x y"
  shows "successively Q xs"
  using assms
proof (induction P xs rule: successively.induct)
  case (3 P x y xs)
  have sub: "set (butlast (y # xs)) \<subseteq> set (butlast (x # y # xs))" by auto
  have "successively Q (y # xs)"
  proof (rule "3.IH")
    show "successively P (y # xs)" using "3.prems"(1) by simp
    fix u v
    assume "u \<in> set (butlast (y # xs))" and "v \<in> set (tl (y # xs))" and "P u v"
    with sub show "Q u v" by (intro "3.prems"(2)) (blast, simp_all)
  qed
  moreover have "Q x y" using "3.prems" by (intro "3.prems"(2)) simp_all
  ultimately show ?case by simp
qed auto

lemma chain_cong:
  "(\<And>a. a \<in> set xs \<Longrightarrow> map_option phnext (h' a) = map_option phnext (h a)) \<Longrightarrow>
   chain h' p xs = chain h p xs"
proof (induction xs arbitrary: p)
  case (Cons a xs)
  from Cons.prems [of a] have a: "map_option phnext (h' a) = map_option phnext (h a)" by simp
  from Cons have IH: "\<And>p. chain h' p xs = chain h p xs" by simp
  from a show ?case by (cases "h a"; cases "h' a") (auto simp: IH)
qed simp

lemma chain_alloc: "chain h p xs \<Longrightarrow> a \<in> set xs \<Longrightarrow> a \<in> dom h"
  by (induction xs arbitrary: p) auto

lemma skel_phnext: "skel h a = skel h' a \<Longrightarrow> map_option phnext (h a) = map_option phnext (h' a)"
  by (cases "h a"; cases "h' a") (auto simp: skel_def)

lemma skel_tstat: "skel h a = skel h' a \<Longrightarrow> map_option p_tstat (h a) = map_option p_tstat (h' a)"
  by (cases "h a"; cases "h' a") (auto simp: skel_def)

lemma skel_dom: "skel h = skel h' \<Longrightarrow> dom h = dom h'"
proof -
  assume "skel h = skel h'"
  moreover have "dom g = {a. skel g a \<noteq> None}" for g
    by (auto simp: skel_def)
  ultimately show "dom h = dom h'" by simp
qed

lemma skel_Some: "skel h = skel h' \<Longrightarrow> h a = Some n \<Longrightarrow> 
   \<exists>n'. h' a = Some n' \<and> phnext n' = phnext n \<and> p_tstat n' = p_tstat n"
  by (cases "h' a") (auto simp: skel_def dest!: fun_cong [where x = a])

lemma hash_ok_skel:
  assumes "hash_ok d cs" and "skel (pheap d) = skel (pheap d')" and "phash d' = phash d"
  shows "hash_ok d' cs"
proof -
  have "chain (pheap d') p xs = chain (pheap d) p xs" for p xs
    by (rule chain_cong) (metis assms(2) skel_phnext)
  moreover have "\<exists>n'. pheap d' a = Some n' \<and> hashidx (n_pid n') = i"
    if "\<exists>n. pheap d a = Some n \<and> hashidx (n_pid n) = i" for a i
    using that skel_Some [OF assms(2)] by fastforce
  ultimately show ?thesis
    using assms skel_dom [OF assms(2)] by (auto simp: hash_ok_def)
qed

subsection \<open>Unchaining a node\<close>

text \<open>The heap in which the neighbours \<open>p\<close> and \<open>q\<close> of a removed node are joined.\<close>

definition relink :: "(addr \<rightharpoonup> pinfo) \<Rightarrow> addr \<Rightarrow> addr \<Rightarrow> addr \<rightharpoonup> pinfo" where
  "relink h p q =
     (let h1 = h(q \<mapsto> (the (h q))\<lparr>prprev := Some p\<rparr>)
      in h1(p \<mapsto> (the (h1 p))\<lparr>prnext := Some q\<rparr>))"

lemma relink_fields:
  assumes "p \<in> dom h" and "q \<in> dom h"
  shows "map_option prnext (relink h p q b) =
           (if b = p then Some (Some q) else map_option prnext (h b))"
    and "map_option prprev (relink h p q b) =
           (if b = q then Some (Some p) else map_option prprev (h b))"
    and "skel (relink h p q) = skel h"
  using assms by (auto simp: relink_def Let_def skel_def fun_eq_iff)

lemma relink_other: "b \<noteq> p \<Longrightarrow> b \<noteq> q \<Longrightarrow> relink h p q b = h b"
  by (simp add: relink_def Let_def)

lemma unchain_relink:
  assumes "link (pheap d) p a" and "link (pheap d) a q" and "a \<noteq> p" and "a \<noteq> q"
  shows "unchain d (Some a) = Some (d\<lparr>pheap := relink (pheap d) p q\<rparr>)"
    and "unchain_first d (Some a) = Some (d\<lparr>pheap := relink (pheap d) p q\<rparr>)"
proof -
  from assms obtain n np nq where h: "pheap d a = Some n" "pheap d p = Some np" "pheap d q = Some nq"
    and n: "prnext n = Some q" "prprev n = Some p"
    by (auto simp: link_def)
  with assms(3,4) show "unchain d (Some a) = Some (d\<lparr>pheap := relink (pheap d) p q\<rparr>)"
    by (simp add: unchain_def rd_def wr_def relink_def)
  from h n assms(3,4) show "unchain_first d (Some a) = Some (d\<lparr>pheap := relink (pheap d) p q\<rparr>)"
    by (cases "p = q"; cases np)
      (simp_all add: unchain_first_def rd_def wr_def relink_def fun_upd_twist)
qed

text \<open>Removing a node from the ring leaves the ring of the other nodes.\<close>

lemma ring_remove:
  assumes ring: "ring h (us @ a # vs)" and dist: "distinct (us @ a # vs)"
    and z: "presidue \<notin> set (us @ a # vs)"
  defines "p \<equiv> last (presidue # us)" and "q \<equiv> hd (vs @ [presidue])"
  shows "link h p a" "link h a q" "a \<noteq> p" "a \<noteq> q" "p \<in> dom h" "q \<in> dom h"
    and "ring (relink h p q) (us @ vs)"
proof -
  have split: "successively (link h) ((presidue # us) @ a # (vs @ [presidue]))"
    using ring by simp
  then have L: "successively (link h) (presidue # us)" and pa: "link h p a"
    and R: "successively (link h) (a # (vs @ [presidue]))"
    unfolding successively_append_iff p_def by simp_all
  from R have aq: "link h a q" and R': "successively (link h) (vs @ [presidue])"
    by (auto simp: successively_Cons q_def)
  show "link h p a" "link h a q" by fact+
  from pa aq show dom: "p \<in> dom h" "q \<in> dom h" by (auto simp: link_def)
  have p_in: "p \<in> insert presidue (set us)" by (simp add: p_def)
  have q_in: "q \<in> insert presidue (set vs)" by (cases vs) (simp_all add: q_def)
  show "a \<noteq> p" "a \<noteq> q" using p_in q_in dist z by auto
  have p_last: "p \<notin> set (butlast (presidue # us))"
  proof -
    have "distinct (butlast (presidue # us) @ [p])"
      unfolding p_def using dist z by (subst append_butlast_last_id) auto
    then show ?thesis by simp
  qed
  have q_hd: "q \<notin> set (tl (vs @ [presidue]))"
    using dist z by (cases vs) (auto simp: q_def)
  have "successively (link (relink h p q)) (presidue # us)"
    using L
  proof (rule successively_pairs)
    fix x y assume x: "x \<in> set (butlast (presidue # us))" and y: "y \<in> set (tl (presidue # us))"
      and "link h x y"
    moreover have "x \<noteq> p" using x p_last by auto
    moreover have "y \<noteq> q" using y q_in dist z by auto
    ultimately show "link (relink h p q) x y"
      by (simp add: link_def relink_fields dom)
  qed
  moreover have "successively (link (relink h p q)) (vs @ [presidue])"
    using R'
  proof (rule successively_pairs)
    fix x y assume x: "x \<in> set (butlast (vs @ [presidue]))" and y: "y \<in> set (tl (vs @ [presidue]))"
      and "link h x y"
    moreover have "x \<noteq> p" using x p_in dist z by auto
    moreover have "y \<noteq> q" using y q_hd by auto
    ultimately show "link (relink h p q) x y"
      by (simp add: link_def relink_fields dom)
  qed
  moreover have "link (relink h p q) p q"
    by (simp add: link_def relink_fields dom)
  ultimately have "successively (link (relink h p q)) ((presidue # us) @ (vs @ [presidue]))"
    unfolding successively_append_iff p_def q_def by simp
  then show "ring (relink h p q) (us @ vs)" by simp
qed


lemma resid_ok_remove:
  assumes "resid_ok d cs rs" and "a \<in> set rs"
  obtains p q where "unchain d (Some a) = Some (d\<lparr>pheap := relink (pheap d) p q\<rparr>)"
    and "unchain_first d (Some a) = Some (d\<lparr>pheap := relink (pheap d) p q\<rparr>)"
    and "ring (relink (pheap d) p q) (remove1 a rs)"
    and "p \<in> dom (pheap d)" "q \<in> dom (pheap d)" "a \<noteq> p" "a \<noteq> q"
    and "p \<in> insert presidue (set (remove1 a rs))"
proof -
  from assms(2) obtain us vs where rs: "rs = us @ a # vs" and "a \<notin> set us"
    by (meson split_list_first)
  then have rm: "remove1 a rs = us @ vs" by (simp add: remove1_append)
  from assms(1) rs have ring: "ring (pheap d) (us @ a # vs)" and dist: "distinct (us @ a # vs)"
    and z: "presidue \<notin> set (us @ a # vs)"
    by (simp_all add: resid_ok_def)
  note r = ring_remove [OF ring dist z]
  show thesis
  proof (rule that)
    show "unchain d (Some a) = Some (d\<lparr>pheap := relink (pheap d) (last (presidue # us)) (hd (vs @ [presidue]))\<rparr>)"
      "unchain_first d (Some a) = Some (d\<lparr>pheap := relink (pheap d) (last (presidue # us)) (hd (vs @ [presidue]))\<rparr>)"
      using unchain_relink [OF r(1,2,3,4)] by simp_all
    show "last (presidue # us) \<in> insert presidue (set (remove1 a rs))"
      by (simp add: rm)
  qed (use r rm in simp_all)
qed

text \<open>The \<open>prnext\<close> field tells whether a node is part of the residue list.\<close>

lemma resid_prnext:
  assumes "resid_ok d cs rs" and "a \<in> nodes cs" and n: "pheap d a = Some n"
  shows "prnext n = None \<longleftrightarrow> a \<notin> set rs"
proof (cases "a \<in> set rs")
  case True
  then obtain us vs where "rs = us @ a # vs" by (meson split_list)
  with assms(1) have "successively (link (pheap d)) ((presidue # us) @ a # (vs @ [presidue]))"
    by (simp add: resid_ok_def)
  then have "link (pheap d) a (hd (vs @ [presidue]))"
    unfolding successively_append_iff by (cases vs) simp_all
  with n True show ?thesis by (auto simp: link_def)
next
  case False
  with assms have "map_option prnext (pheap d a) = Some None"
    unfolding resid_ok_def by blast
  with n False show ?thesis by simp
qed

text \<open>Writing only the residue fields of a node outside the ring.\<close>

lemma ring_upd_other:
  assumes "ring h rs" and "a \<notin> set rs" and "a \<noteq> presidue"
  shows "ring (h(a := x)) rs"
  using assms(1)
proof (rule successively_pairs)
  fix u v assume "u \<in> set (butlast (presidue # rs @ [presidue]))"
    and "v \<in> set (tl (presidue # rs @ [presidue]))" and "link h u v"
  moreover from this have "u \<noteq> a" "v \<noteq> a"
    using assms by (auto dest: in_set_butlastD split: if_splits)
  ultimately show "link (h(a := x)) u v" by (simp add: link_def)
qed

section \<open>pdb\_gettask\<close>

text \<open>A node that the lookup accepts.\<close>

definition task_matches :: "i32 \<Rightarrow> byte \<Rightarrow> time_t \<Rightarrow> pinfo \<Rightarrow> bool" where
  "task_matches pid isproc btime n \<longleftrightarrow>
     n_pid n = pid \<and> n_isproc n = isproc \<and> btime_near (n_btime n) btime"

abbreviation at :: "(addr \<rightharpoonup> pinfo) \<Rightarrow> (pinfo \<Rightarrow> bool) \<Rightarrow> addr \<Rightarrow> bool" where
  "at h P a \<equiv> (\<exists>n. h a = Some n \<and> P n)"

text \<open>What the lookup does to the node it finds.\<close>

definition take_out :: "pdb \<Rightarrow> addr \<Rightarrow> pdb option" where
  "take_out d a = do {
     n \<leftarrow> rd d (Some a);
     d \<leftarrow> (if prnext n \<noteq> None then unchain d (Some a) else Some d);
     wr d (Some a) (\<lambda>n. n\<lparr>prnext := None, prprev := None\<rparr>)
   }"

lemma gettask_scan_find:
  "chain (pheap d) p xs \<Longrightarrow>
   gettask_scan pid isproc btime d p =
     (case List.find (at (pheap d) (task_matches pid isproc btime)) xs of
        None \<Rightarrow> Some (d, None)
      | Some a \<Rightarrow> map_option (\<lambda>d. (d, Some a)) (take_out d a))"
proof (induction xs arbitrary: p)
  case Nil
  then show ?case by (simp add: gettask_scan.simps)
next
  case (Cons a xs)
  then obtain n where p: "p = Some a" and n: "pheap d a = Some n" and ch: "chain (pheap d) (phnext n) xs"
    by auto
  show ?case
  proof (cases "task_matches pid isproc btime n")
    case True
    with p n show ?thesis
      by (subst gettask_scan.simps)
        (auto simp: task_matches_def rd_def take_out_def bind_eq_Some_conv
          split: option.split bind_split)
  next
    case False
    with p n Cons.IH [OF ch] show ?thesis
      by (subst gettask_scan.simps) (auto simp: task_matches_def rd_def)
  qed
qed

text \<open>
  Detaching a node from the residue list, whether or not it is in it, leaves the ring of the
  others; both orders of the two assignments do.
\<close>

lemma detach_ok:
  assumes res: "resid_ok d cs rs" and a: "a \<in> nodes cs" and z: "presidue \<notin> nodes cs"
    and n: "pheap d a = Some n"
  obtains d1 where "(if prnext n \<noteq> None then unchain d (Some a) else Some d) = Some d1"
    and "(if prnext n \<noteq> None then unchain_first d (Some a) else Some d) = Some d1"
    and "phash d1 = phash d" and "skel (pheap d1) = skel (pheap d)" and "pheap d1 a = Some n"
    and "ring (pheap d1) (remove1 a rs)"
    and "\<And>b. b \<in> nodes cs - set rs \<Longrightarrow> map_option prnext (pheap d1 b) = Some None"
proof (cases "a \<in> set rs")
  case True
  from resid_ok_remove [OF res True] obtain p q where
    un: "unchain d (Some a) = Some (d\<lparr>pheap := relink (pheap d) p q\<rparr>)"
      "unchain_first d (Some a) = Some (d\<lparr>pheap := relink (pheap d) p q\<rparr>)"
    and r1: "ring (relink (pheap d) p q) (remove1 a rs)"
    and pq: "p \<in> dom (pheap d)" "q \<in> dom (pheap d)" "a \<noteq> p" "a \<noteq> q"
      "p \<in> insert presidue (set (remove1 a rs))"
    by metis
  show thesis
  proof (rule that)
    show "(if prnext n \<noteq> None then unchain d (Some a) else Some d) =
        Some (d\<lparr>pheap := relink (pheap d) p q\<rparr>)"
      "(if prnext n \<noteq> None then unchain_first d (Some a) else Some d) =
        Some (d\<lparr>pheap := relink (pheap d) p q\<rparr>)"
      using resid_prnext [OF res a n] True un by auto
    show "pheap (d\<lparr>pheap := relink (pheap d) p q\<rparr>) a = Some n"
      using relink_other pq n by simp
    fix b assume b: "b \<in> nodes cs - set rs"
    then have "map_option prnext (pheap d b) = Some None"
      using res unfolding resid_ok_def by blast
    moreover have "b \<noteq> p" using b z pq(5) by (auto dest: set_remove1_subset [THEN subsetD])
    ultimately show "map_option prnext (pheap (d\<lparr>pheap := relink (pheap d) p q\<rparr>) b) = Some None"
      using relink_fields(1) [OF pq(1,2)] by simp
  qed (use r1 relink_fields(3) [OF pq(1,2)] in simp_all)
next
  case False
  then have "prnext n = None" using resid_prnext [OF res a n] by simp
  then show thesis
    using that [of d] res n False by (auto simp: resid_ok_def remove1_idem)
qed

lemma presidue_notin_nodes: "hash_ok d cs \<Longrightarrow> presidue \<notin> nodes cs"
  by (auto simp: hash_ok_def nodes_def)

lemma hash_ok_node: "hash_ok d cs \<Longrightarrow> a \<in> nodes cs \<Longrightarrow> \<exists>n. pheap d a = Some n"
  by (fastforce simp: hash_ok_def nodes_def)

lemma bucket_unique:
  assumes "hash_ok d cs" and "i < NPHASH" and "j < NPHASH" and "a \<in> set (cs i)" and "a \<in> set (cs j)"
  shows "i = j"
proof -
  have "\<exists>n. pheap d a = Some n \<and> hashidx (n_pid n) = k" if "k < NPHASH" "a \<in> set (cs k)" for k
    using assms(1) that by (auto simp: hash_ok_def)
  from this [of i] this [of j] assms(2-) show ?thesis by auto
qed

lemma in_nodes: "i < NPHASH \<Longrightarrow> a \<in> set (cs i) \<Longrightarrow> a \<in> nodes cs"
  by (auto simp: nodes_def)

text \<open>The lookup keeps the hash chains, and the ring of the nodes not found.\<close>

lemma take_out_ok:
  assumes hash: "hash_ok d cs" and res: "resid_ok d cs rs" and a: "a \<in> nodes cs"
  obtains d' where "take_out d a = Some d'" and "hash_ok d' cs" and "resid_ok d' cs (remove1 a rs)"
    and "skel (pheap d') = skel (pheap d)"
proof -
  from hash_ok_node [OF hash a] obtain n where n: "pheap d a = Some n" ..
  note z = presidue_notin_nodes [OF hash]
  from detach_ok [OF res a z n] obtain d1 where
    un: "(if prnext n \<noteq> None then unchain d (Some a) else Some d) = Some d1"
    and d1: "phash d1 = phash d" "skel (pheap d1) = skel (pheap d)" "pheap d1 a = Some n"
      "ring (pheap d1) (remove1 a rs)"
    and off: "\<And>b. b \<in> nodes cs - set rs \<Longrightarrow> map_option prnext (pheap d1 b) = Some None"
    by metis
  let ?d' = "d1\<lparr>pheap := (pheap d1)(a \<mapsto> n\<lparr>prnext := None, prprev := None\<rparr>)\<rparr>"
  have rs: "distinct rs" "presidue \<notin> set rs" "set rs \<subseteq> nodes cs"
    using res by (auto simp: resid_ok_def)
  have sk: "skel (pheap ?d') = skel (pheap d)"
    unfolding d1(2) [symmetric] using d1(3) by (auto simp: skel_def fun_eq_iff)
  show thesis
  proof (rule that)
    show "take_out d a = Some ?d'"
      using n un d1(3) by (simp add: take_out_def rd_def wr_def)
    show "hash_ok ?d' cs" using hash_ok_skel [OF hash sk [symmetric]] d1(1) by simp
    have "ring (pheap ?d') (remove1 a rs)"
      using ring_upd_other [OF d1(4)] rs a z by auto
    moreover have "map_option prnext (pheap ?d' b) = Some None"
      if "b \<in> nodes cs - set (remove1 a rs)" for b
      using that off [of b] rs by (cases "b = a") auto
    ultimately show "resid_ok ?d' cs (remove1 a rs)"
      unfolding resid_ok_def using rs by auto
  qed (rule sk)
qed

lemma pdb_gettask_find:
  fixes pid :: i32 and isproc :: byte and btime :: time_t
  assumes "hash_ok d cs" and "resid_ok d cs rs"
  defines "r \<equiv> List.find (at (pheap d) (task_matches pid isproc btime)) (cs (hashidx pid))"
  shows "\<exists>d'. pdb_gettask d pid isproc btime = Some (d', r) \<and> hash_ok d' cs \<and>
           resid_ok d' cs (case r of None \<Rightarrow> rs | Some a \<Rightarrow> remove1 a rs) \<and>
           skel (pheap d') = skel (pheap d)"
proof -
  have ch: "chain (pheap d) (phash d (hashidx pid)) (cs (hashidx pid))"
    using assms(1) by (simp add: hash_ok_def)
  note scan = gettask_scan_find [OF ch, of pid isproc btime, folded r_def pdb_gettask_def]
  show ?thesis
  proof (cases r)
    case None
    with scan assms show ?thesis by simp
  next
    case (Some a)
    then have "a \<in> set (cs (hashidx pid))" by (auto simp: r_def find_Some_iff)
    then have "a \<in> nodes cs" by (rule in_nodes [OF hashidx_less])
    from take_out_ok [OF assms(1,2) this] Some scan show ?thesis
      by (metis (no_types, lifting) option.simps(5) option.simps(9))
  qed
qed

section \<open>pdb\_addtask\<close>

lemma pdb_addtask_ok:
  fixes pid :: i32
  assumes hash: "hash_ok d cs" and res: "resid_ok d cs rs"
    and n: "pheap d a = Some n" "n_pid n = pid" "prnext n = None"
    and a: "a \<notin> nodes cs" "a \<noteq> presidue"
  defines "cs' \<equiv> cs(hashidx pid := a # cs (hashidx pid))"
  shows "\<exists>d'. pdb_addtask d pid (Some a) = Some d' \<and> hash_ok d' cs' \<and> resid_ok d' cs' rs \<and>
           (\<forall>b. map_option p_tstat (pheap d' b) = map_option p_tstat (pheap d b))"
proof -
  let ?i = "hashidx pid"
  let ?h = "(pheap d)(a \<mapsto> n\<lparr>phnext := phash d ?i\<rparr>)"
  let ?d' = "d\<lparr>pheap := ?h, phash := (phash d)(?i := Some a)\<rparr>"
  have add: "pdb_addtask d pid (Some a) = Some ?d'"
    using n by (simp add: pdb_addtask_def wr_def Let_def)
  have notin: "a \<notin> set (cs i)" if "i < NPHASH" for i using that a by (auto simp: nodes_def)
  have ch: "chain ?h p (cs i) = chain (pheap d) p (cs i)" if "i < NPHASH" for i p
    using notin [OF that] by (intro chain_cong) auto
  have nodes': "nodes cs' = insert a (nodes cs)"
    by (auto simp: nodes_def cs'_def split: if_splits intro!: bexI [of _ "hashidx pid"])
  have "hash_ok ?d' cs'"
    unfolding hash_ok_def
  proof (intro conjI allI impI)
    fix i assume i: "i < NPHASH"
    show "chain (pheap ?d') (phash ?d' i) (cs' i)" "distinct (cs' i)" "presidue \<notin> set (cs' i)"
      "\<forall>b\<in>set (cs' i). \<exists>m. pheap ?d' b = Some m \<and> hashidx (n_pid m) = i"
      using hash i n a notin [OF i] ch [OF i] by (auto simp: hash_ok_def cs'_def)
  qed (use hash in \<open>auto simp: hash_ok_def\<close>)
  moreover have "resid_ok ?d' cs' rs"
  proof -
    have "a \<notin> set rs" using res a by (auto simp: resid_ok_def)
    then show ?thesis
      using res n a ring_upd_other [of "pheap d" rs a] by (auto simp: resid_ok_def nodes')
  qed
  ultimately show ?thesis using add n by auto
qed


section \<open>pdb\_deltask\<close>

text \<open>A node with the key the deletion looks for; the start time plays no role.\<close>

definition key_matches :: "i32 \<Rightarrow> byte \<Rightarrow> pinfo \<Rightarrow> bool" where
  "key_matches pid isproc n \<longleftrightarrow> n_pid n = pid \<and> n_isproc n = isproc"

text \<open>Deleting a node that is not the first of its bucket, \<open>c\<close> being its predecessor.\<close>

definition cut_node :: "pdb \<Rightarrow> addr \<Rightarrow> addr \<Rightarrow> pdb option" where
  "cut_node d c a = do {
     n \<leftarrow> rd d (Some a);
     d \<leftarrow> wr d (Some c) (\<lambda>m. m\<lparr>phnext := phnext n\<rparr>);
     d \<leftarrow> (if prnext n \<noteq> None then unchain d (Some a) else Some d);
     Some (free_node d (Some a))
   }"

lemma deltask_scan_none:
  "chain (pheap d) p xs \<Longrightarrow> \<forall>a\<in>set xs. \<not> at (pheap d) (key_matches pid isproc) a \<Longrightarrow>
   deltask_scan pid isproc d b p = Some (d, False)"
proof (induction xs arbitrary: p b)
  case (Cons a xs)
  then show ?case by (subst deltask_scan.simps) (auto simp: rd_def key_matches_def)
qed (simp add: deltask_scan.simps)

lemma deltask_scan_some:
  "chain (pheap d) p (us @ a # vs) \<Longrightarrow>
   \<forall>x\<in>set us. \<not> at (pheap d) (key_matches pid isproc) x \<Longrightarrow>
   at (pheap d) (key_matches pid isproc) a \<Longrightarrow>
   deltask_scan pid isproc d (Some b) p =
     map_option (\<lambda>d. (d, True)) (cut_node d (last (b # us)) a)"
proof (induction us arbitrary: p b)
  case Nil
  then show ?case
    by (subst deltask_scan.simps)
      (auto simp: rd_def key_matches_def cut_node_def split: option.split bind_split)
next
  case (Cons x us)
  then show ?case by (subst deltask_scan.simps) (auto simp: rd_def key_matches_def)
qed

text \<open>Cutting a node out of a hash chain.\<close>

lemma chain_cut:
  assumes "chain h p (us @ c # a # vs)" and "distinct (us @ c # a # vs)"
    and "h a = Some n" and "h c = Some m"
  shows "chain (h(c \<mapsto> m\<lparr>phnext := phnext n\<rparr>)) p (us @ c # vs)"
proof -
  define h' where "h' = h(c \<mapsto> m\<lparr>phnext := phnext n\<rparr>)"
  have c: "h' c = Some (m\<lparr>phnext := phnext n\<rparr>)" and oth: "\<And>b. b \<noteq> c \<Longrightarrow> h' b = h b"
    by (simp_all add: h'_def)
  have "chain h' p (us @ c # vs)"
    using assms
  proof (induction us arbitrary: p)
    case Nil
    then have "chain h (phnext n) vs" by simp
    moreover have "chain h' (phnext n) vs = chain h (phnext n) vs"
    proof (rule chain_cong)
      fix b assume "b \<in> set vs"
      with Nil have "b \<noteq> c" by auto
      then show "map_option phnext (h' b) = map_option phnext (h b)" by (simp add: oth)
    qed
    ultimately show ?case using Nil c by simp
  next
    case (Cons x us)
    then show ?case using oth by auto
  qed
  then show ?thesis by (simp add: h'_def)
qed

text \<open>
  Freeing a node once it is off its hash chain: \<open>d0\<close> is the database before the deletion,
  \<open>d\<close> the one in which the chain of bucket \<open>i\<close> skips \<open>a\<close>.
\<close>

lemma free_unhashed_ok:
  assumes hash: "hash_ok d0 cs" and i: "i < NPHASH" and a: "a \<in> set (cs i)"
    and res: "resid_ok d cs rs" and n: "pheap d a = Some n"
    and ts: "\<And>b. map_option p_tstat (pheap d b) = map_option p_tstat (pheap d0 b)"
    and ch: "chain (pheap d) (phash d i) (remove1 a (cs i))"
    and others: "\<And>j. j < NPHASH \<Longrightarrow> j \<noteq> i \<Longrightarrow> chain (pheap d) (phash d j) (cs j)"
  defines "cs' \<equiv> cs(i := remove1 a (cs i))"
  shows "\<exists>d'.
    (if prnext n \<noteq> None then unchain d (Some a) else Some d) = Some d' \<and>
    (if prnext n \<noteq> None then unchain_first d (Some a) else Some d) = Some d' \<and>
    hash_ok (free_node d' (Some a)) cs' \<and>
    resid_ok (free_node d' (Some a)) cs' (remove1 a rs) \<and>
    (\<forall>b. b \<noteq> a \<longrightarrow> map_option p_tstat (pheap (free_node d' (Some a)) b) =
        map_option p_tstat (pheap d0 b))" (is "\<exists>d'. ?P d'")
proof -
  have an: "a \<in> nodes cs" using i a by (rule in_nodes)
  note z = presidue_notin_nodes [OF hash]
  from detach_ok [OF res an z n] obtain d1 where
    un: "(if prnext n \<noteq> None then unchain d (Some a) else Some d) = Some d1"
      "(if prnext n \<noteq> None then unchain_first d (Some a) else Some d) = Some d1"
    and d1: "phash d1 = phash d" "skel (pheap d1) = skel (pheap d)" "pheap d1 a = Some n"
      "ring (pheap d1) (remove1 a rs)"
    and off: "\<And>b. b \<in> nodes cs - set rs \<Longrightarrow> map_option prnext (pheap d1 b) = Some None"
    by metis
  let ?d' = "free_node d1 (Some a)"
  have rs: "distinct rs" "presidue \<notin> set rs" "set rs \<subseteq> nodes cs"
    using res by (auto simp: resid_ok_def)
  have di: "distinct (cs i)" using hash i by (simp add: hash_ok_def)
  have only: "a \<notin> set (cs j)" if "j < NPHASH" "j \<noteq> i" for j
    using bucket_unique [OF hash] that i a by blast
  have nodes': "nodes cs' = nodes cs - {a}"
    using only di i by (auto simp: nodes_def cs'_def split: if_splits)
  have ts': "map_option p_tstat (pheap ?d' b) = map_option p_tstat (pheap d0 b)" if "b \<noteq> a" for b
    using that ts [of b] skel_tstat [of "pheap d1" b "pheap d"] d1(2) by (simp add: free_node_def)
  have ch': "chain (pheap ?d') p xs" if "chain (pheap d) p xs" "a \<notin> set xs" for p xs
  proof -
    have "chain (pheap ?d') p xs = chain (pheap d) p xs"
      using that(2) d1(2) by (intro chain_cong) (auto simp: free_node_def intro!: skel_phnext)
    with that show ?thesis by simp
  qed
  have "hash_ok ?d' cs'"
    unfolding hash_ok_def
    proof (intro conjI allI impI ballI)
      have "presidue \<in> dom (pheap d1)"
        using hash ts [of presidue] skel_dom [OF d1(2)] by (force simp: hash_ok_def)
      then show "presidue \<in> dom (pheap ?d')" using z an by (auto simp: free_node_def)
    next
      fix j assume j: "j < NPHASH"
      show "chain (pheap ?d') (phash ?d' j) (cs' j)"
        using ch' ch others [OF j] only [OF j] di d1(1) by (auto simp: cs'_def free_node_def)
      show "distinct (cs' j)" "presidue \<notin> set (cs' j)"
        using hash j di by (auto simp: hash_ok_def cs'_def)
      fix b assume b: "b \<in> set (cs' j)"
      then have "b \<noteq> a" "b \<in> set (cs j)"
        using only [OF j] di by (auto simp: cs'_def split: if_splits)
      with hash j ts' [of b] show "\<exists>m. pheap ?d' b = Some m \<and> hashidx (n_pid m) = j"
        by (fastforce simp: hash_ok_def)
    qed
  moreover have "resid_ok ?d' cs' (remove1 a rs)"
  proof -
    have "ring (pheap ?d') (remove1 a rs)"
      using ring_upd_other [OF d1(4)] rs an z by (auto simp: free_node_def)
    moreover have "map_option prnext (pheap ?d' b) = Some None"
      if "b \<in> nodes cs' - set (remove1 a rs)" for b
      using that off [of b] rs by (auto simp: nodes' free_node_def)
    ultimately show ?thesis
      unfolding resid_ok_def using rs by (auto simp: nodes')
  qed
  ultimately have "?P d1" using un ts' by blast
  then show ?thesis ..
qed


text \<open>Hash updates leave the residue list alone.\<close>

lemma resid_ok_frame:
  assumes "resid_ok d cs rs"
    and "\<And>b. map_option prnext (pheap d' b) = map_option prnext (pheap d b)"
    and "\<And>b. map_option prprev (pheap d' b) = map_option prprev (pheap d b)"
  shows "resid_ok d' cs rs"
proof -
  have "link (pheap d') = link (pheap d)"
    by (simp add: link_def fun_eq_iff assms(2,3))
  with assms show ?thesis by (simp add: resid_ok_def)
qed

text \<open>
  Deleting a key: the first node of the bucket with that key disappears from the bucket and from
  the residue list, and is freed; an empty bucket is a NULL dereference.
\<close>

lemma pdb_deltask_empty:
  assumes "hash_ok d cs" and "cs (hashidx pid) = []"
  shows "pdb_deltask d pid isproc = None"
proof -
  have "chain (pheap d) (phash d (hashidx pid)) (cs (hashidx pid))"
    using assms(1) hashidx_less by (auto simp: hash_ok_def)
  with assms(2) have "phash d (hashidx pid) = None" by simp
  then show ?thesis by (simp add: pdb_deltask_def rd_def Let_def)
qed

lemma pdb_deltask_none:
  assumes "hash_ok d cs" and "cs (hashidx pid) \<noteq> []"
    and "\<forall>x\<in>set (cs (hashidx pid)). \<not> at (pheap d) (key_matches pid isproc) x"
  shows "pdb_deltask d pid isproc = Some (d, False)"
proof -
  have ch: "chain (pheap d) (phash d (hashidx pid)) (cs (hashidx pid))"
    using assms(1) by (simp add: hash_ok_def)
  obtain a xs where cs: "cs (hashidx pid) = a # xs" using assms(2) by (cases "cs (hashidx pid)") auto
  with ch obtain n where n: "phash d (hashidx pid) = Some a" "pheap d a = Some n"
    "chain (pheap d) (phnext n) xs"
    by auto
  moreover have "\<not> key_matches pid isproc n" using assms(3) cs n by auto
  ultimately show ?thesis
    using deltask_scan_none [OF n(3)] assms(3) cs
    by (auto simp: pdb_deltask_def rd_def key_matches_def)
qed

lemma pdb_deltask_first:
  assumes hash: "hash_ok d cs" and res: "resid_ok d cs rs"
    and cs: "cs (hashidx pid) = us @ a # vs"
    and us: "\<forall>x\<in>set us. \<not> at (pheap d) (key_matches pid isproc) x"
    and a: "at (pheap d) (key_matches pid isproc) a"
  shows "\<exists>d'. pdb_deltask d pid isproc = Some (d', True) \<and>
    hash_ok d' (cs(hashidx pid := us @ vs)) \<and> 
    resid_ok d' (cs(hashidx pid := us @ vs)) (remove1 a rs) \<and>
    pheap d' a = None \<and>
    (\<forall>b. b \<noteq> a \<longrightarrow> map_option p_tstat (pheap d' b) = map_option p_tstat (pheap d b))"
proof -
  let ?i = "hashidx pid"
  have i: "?i < NPHASH" by simp
  have ch: "chain (pheap d) (phash d ?i) (us @ a # vs)" and dist: "distinct (us @ a # vs)"
    using hash i by (auto simp: hash_ok_def simp flip: cs)
  have rm: "remove1 a (cs ?i) = us @ vs" using dist cs by (simp add: remove1_append)
  have a_in: "a \<in> set (cs ?i)" using cs by simp
  from a obtain n where n: "pheap d a = Some n" and key: "key_matches pid isproc n" by auto
  have other: "chain (pheap d) (phash d j) (cs j)" if "j < NPHASH" for j
    using hash that by (simp add: hash_ok_def)
  note free = free_unhashed_ok [OF hash i a_in _ _ _ _ _, unfolded rm]
  show ?thesis
  proof (cases us rule: rev_cases)
    case Nil
    let ?d = "d\<lparr>phash := (phash d)(?i := phnext n)\<rparr>"
    have res': "resid_ok ?d cs rs" using resid_ok_frame [OF res] by simp
    have "chain (pheap ?d) (phash ?d ?i) (us @ vs)" using ch n Nil by simp
    moreover have other': "chain (pheap ?d) (phash ?d j) (cs j)" if "j < NPHASH" "j \<noteq> ?i" for j
      using other that by simp
    ultimately obtain d' where d': 
      "(if prnext n \<noteq> None then unchain_first ?d (Some a) else Some ?d) = Some d'"
      "hash_ok (free_node d' (Some a)) (cs(?i := us @ vs))"
      "resid_ok (free_node d' (Some a)) (cs(?i := us @ vs)) (remove1 a rs)"
      "\<And>b. b \<noteq> a \<Longrightarrow> map_option p_tstat (pheap (free_node d' (Some a)) b) =
        map_option p_tstat (pheap d b)"
      using free [OF res' _ _ _ other', of n] n by auto
    have "phash d ?i = Some a" using ch Nil by simp
    with n key d'(1) have "pdb_deltask d pid isproc = Some (free_node d' (Some a), True)"
      by (simp add: pdb_deltask_def rd_def key_matches_def Let_def)
    with d' show ?thesis by (auto simp: free_node_def)
  next
    case (snoc ws c)
    from ch snoc obtain m where m: "pheap d c = Some m"
      using chain_alloc [OF ch, of c] by auto
    let ?d = "d\<lparr>pheap := (pheap d)(c \<mapsto> m\<lparr>phnext := phnext n\<rparr>)\<rparr>"
    have res': "resid_ok ?d cs rs" using resid_ok_frame [OF res, of ?d] m by simp
    have n': "pheap ?d a = Some n" using n dist snoc by auto
    have ts: "\<And>b. map_option p_tstat (pheap ?d b) = map_option p_tstat (pheap d b)" using m by simp
    have ch': "chain (pheap ?d) (phash ?d ?i) (us @ vs)"
      using chain_cut [of "pheap d" _ ws c a vs n m] ch dist n m snoc by simp
    have other': "chain (pheap ?d) (phash ?d j) (cs j)" if "j < NPHASH" "j \<noteq> ?i" for j
    proof -
      have "c \<notin> set (cs j)"
        using bucket_unique [OF hash, of j ?i c] that cs snoc by auto
      then have "chain (pheap ?d) (phash d j) (cs j) = chain (pheap d) (phash d j) (cs j)"
        by (intro chain_cong) auto
      with other that show ?thesis by simp
    qed
    obtain d' where d':
      "(if prnext n \<noteq> None then unchain ?d (Some a) else Some ?d) = Some d'"
      "hash_ok (free_node d' (Some a)) (cs(?i := us @ vs))"
      "resid_ok (free_node d' (Some a)) (cs(?i := us @ vs)) (remove1 a rs)"
      "\<And>b. b \<noteq> a \<Longrightarrow> map_option p_tstat (pheap (free_node d' (Some a)) b) =
        map_option p_tstat (pheap d b)"
      using free [OF res' n' ts ch' other'] by blast
    have cn: "cut_node d c a = Some (free_node d' (Some a))"
      using n m d'(1) by (simp add: cut_node_def rd_def wr_def)
    obtain x xs where us: "us = x # xs" using snoc by (metis neq_Nil_conv snoc_eq_iff_butlast)
    with ch obtain k where k: "phash d ?i = Some x" "pheap d x = Some k"
      "chain (pheap d) (phnext k) (xs @ a # vs)"
      by auto
    have last_c: "last (x # xs) = c" using us snoc by (metis last_snoc)
    have "\<not> key_matches pid isproc k" using assms(4) us k by auto
    with k have "pdb_deltask d pid isproc = deltask_scan pid isproc d (Some x) (phnext k)"
      by (auto simp: pdb_deltask_def rd_def key_matches_def)
    also have "\<dots> = Some (free_node d' (Some a), True)"
      using deltask_scan_some [OF k(3), of pid isproc x] assms(4,5) us cn last_c by simp
    finally show ?thesis using d' by (auto simp: free_node_def)
  qed
qed


section \<open>pdb\_makeresidue\<close>

text \<open>The relinking part of the loop body.\<close>

definition insert_node :: "pdb \<Rightarrow> addr \<Rightarrow> pdb option" where
  "insert_node d a = do {
     pr \<leftarrow> rd d (Some presidue);
     d \<leftarrow> wr d (Some a) (\<lambda>n. n\<lparr>prnext := prnext pr\<rparr>);
     d \<leftarrow> wr d (Some presidue) (\<lambda>n. n\<lparr>prnext := Some a\<rparr>);
     n \<leftarrow> rd d (Some a);
     m \<leftarrow> rd d (prnext n);
     d \<leftarrow> wr d (Some a) (\<lambda>n. n\<lparr>prprev := prprev m\<rparr>);
     wr d (prnext n) (\<lambda>m. m\<lparr>prprev := Some a\<rparr>)
   }"

lemma makeresidue_chain_step:
  "makeresidue_chain d (Some a) =
     do { d \<leftarrow> insert_node d a; n \<leftarrow> rd d (Some a); makeresidue_chain d (phnext n) }"
  by (subst makeresidue_chain.simps) (simp add: insert_node_def)

lemma ring_insert:
  assumes ring: "ring h rs" and rs: "distinct rs" "presidue \<notin> set rs" "a \<notin> set rs" "a \<noteq> presidue"
    and nxt: "\<And>b. map_option prnext (h' b) =
        (if b = a then Some (Some (hd (rs @ [presidue]))) else if b = presidue then Some (Some a)
         else map_option prnext (h b))"
    and prv: "\<And>b. map_option prprev (h' b) =
        (if b = a then Some (Some presidue) else if b = hd (rs @ [presidue]) then Some (Some a)
         else map_option prprev (h b))"
  shows "ring h' (a # rs)"
proof -
  have hd_ne: "hd (rs @ [presidue]) \<noteq> a" using rs by (cases rs) auto
  have "successively (link h) (rs @ [presidue])" using ring by (simp add: successively_Cons)
  then have "successively (link h') (rs @ [presidue])"
  proof (rule successively_pairs)
    fix x y assume "x \<in> set (butlast (rs @ [presidue]))" and y: "y \<in> set (tl (rs @ [presidue]))"
      and "link h x y"
    moreover from this have "x \<in> set rs" by simp
    moreover from y rs have "y \<noteq> hd (rs @ [presidue])" "y \<noteq> a" by (cases rs; auto)+
    ultimately show "link h' x y" using rs by (auto simp: link_def nxt prv)
  qed
  moreover have "link h' a (hd (rs @ [presidue]))" "link h' presidue a"
    using hd_ne rs by (auto simp: link_def nxt prv)
  ultimately show ?thesis by (auto simp: successively_Cons)
qed

lemma insert_node_ok:
  assumes ring: "ring (pheap d) rs" and rs: "distinct rs" "presidue \<notin> set rs" "a \<notin> set rs" "a \<noteq> presidue"
    and n: "pheap d a = Some n"
  shows "\<exists>d'. insert_node d a = Some d' \<and> ring (pheap d') (a # rs) \<and>
           skel (pheap d') = skel (pheap d) \<and> phash d' = phash d"
proof -
  let ?q = "hd (rs @ [presidue])"
  have "link (pheap d) presidue ?q" using ring by (cases rs) auto
  then obtain nz nq where z: "pheap d presidue = Some nz" "prnext nz = Some ?q"
    and q: "pheap d ?q = Some nq" "prprev nq = Some presidue"
    by (auto simp: link_def)
  have qa: "?q \<noteq> a" using rs by (cases rs) auto
  let ?h1 = "(pheap d)(a \<mapsto> n\<lparr>prnext := Some ?q, prprev := Some presidue\<rparr>,
                       presidue \<mapsto> nz\<lparr>prnext := Some a\<rparr>)"
  let ?h = "?h1(?q \<mapsto> (the (?h1 ?q))\<lparr>prprev := Some a\<rparr>)"
  have "insert_node d a = Some (d\<lparr>pheap := ?h\<rparr>)"
    using n z q qa rs(4) by (cases "?q = presidue")
      (auto simp: insert_node_def rd_def wr_def fun_upd_twist)
  moreover have "ring ?h (a # rs)"
    by (rule ring_insert [OF ring rs]) (use n z q qa rs(4) in auto)
  moreover have "skel ?h = skel (pheap d)"
    using n z q qa rs(4) by (auto simp: skel_def fun_eq_iff)
  ultimately show ?thesis by auto
qed

lemma makeresidue_chain_ok:
  assumes "chain (pheap d) p xs" and "ring (pheap d) rs" and "distinct (xs @ rs)"
    and "presidue \<notin> set (xs @ rs)"
  shows "\<exists>d'. makeresidue_chain d p = Some d' \<and> ring (pheap d') (rev xs @ rs) \<and>
           skel (pheap d') = skel (pheap d) \<and> phash d' = phash d"
  using assms
proof (induction xs arbitrary: d p rs)
  case Nil
  then show ?case by (simp add: makeresidue_chain.simps)
next
  case (Cons a xs)
  then obtain n where p: "p = Some a" and n: "pheap d a = Some n" and ch: "chain (pheap d) (phnext n) xs"
    by auto
  from insert_node_ok [OF Cons.prems(2) _ _ _ _ n] Cons.prems obtain d1 where
    d1: "insert_node d a = Some d1" "ring (pheap d1) (a # rs)" "skel (pheap d1) = skel (pheap d)"
      "phash d1 = phash d"
    by auto
  from skel_Some [OF d1(3) [symmetric] n] obtain n1 where
    n1: "pheap d1 a = Some n1" "phnext n1 = phnext n" by auto
  have "chain (pheap d1) (phnext n) xs"
    using ch chain_cong [of xs "pheap d1" "pheap d"] skel_phnext d1(3) by metis
  from Cons.IH [OF this d1(2)] Cons.prems obtain d' where
    "makeresidue_chain d1 (phnext n) = Some d'" "ring (pheap d') (rev xs @ a # rs)"
    "skel (pheap d') = skel (pheap d1)" "phash d' = phash d1"
    by auto
  with d1 n1 p show ?case by (auto simp: makeresidue_chain_step rd_def)
qed

lemma makeresidue_hash_ok:
  assumes "hash_ok d cs" and "set is \<subseteq> {..<NPHASH}" and "distinct is"
    and "ring (pheap d) rs" and "distinct rs" and "presidue \<notin> set rs"
    and "\<And>i. i \<in> set is \<Longrightarrow> set (cs i) \<inter> set rs = {}"
  shows "\<exists>d'. makeresidue_hash is d = Some d' \<and> ring (pheap d') (rev (concat (map cs is)) @ rs) \<and>
           skel (pheap d') = skel (pheap d) \<and> phash d' = phash d"
  using assms
proof (induction "is" arbitrary: d rs)
  case (Cons i "is")
  have i: "i < NPHASH" using Cons.prems by simp
  then have ch: "chain (pheap d) (phash d i) (cs i)" and dist: "distinct (cs i)" "presidue \<notin> set (cs i)"
    using Cons.prems(1) by (auto simp: hash_ok_def)
  have "distinct (cs i @ rs)" "presidue \<notin> set (cs i @ rs)"
    using dist Cons.prems by auto
  from makeresidue_chain_ok [OF ch Cons.prems(4) this] obtain d1 where
    d1: "makeresidue_chain d (phash d i) = Some d1" "ring (pheap d1) (rev (cs i) @ rs)"
      "skel (pheap d1) = skel (pheap d)" "phash d1 = phash d" by auto
  have step: "makeresidue_hash (i # is) d = makeresidue_hash is d1"
    using d1(1) by (cases "phash d i") (auto simp: makeresidue_chain.simps)
  have "\<exists>d'. makeresidue_hash is d1 = Some d' \<and>
      ring (pheap d') (rev (concat (map cs is)) @ rev (cs i) @ rs) \<and>
      skel (pheap d') = skel (pheap d1) \<and> phash d' = phash d1"
  proof (rule Cons.IH)
    show "hash_ok d1 cs" using hash_ok_skel [OF Cons.prems(1) d1(3) [symmetric] d1(4)] .
    fix j assume j: "j \<in> set is"
    then have "j < NPHASH" "j \<noteq> i" using Cons.prems by auto
    then have "set (cs j) \<inter> set (cs i) = {}"
      using bucket_unique [OF Cons.prems(1) _ i] by blast
    then show "set (cs j) \<inter> set (rev (cs i) @ rs) = {}" using Cons.prems(7) j by auto
  qed (use d1 dist Cons.prems in auto)
  with step d1 show ?case by simp
qed simp

lemma distinct_concat_map:
  assumes "distinct is" and "\<And>i. i \<in> set is \<Longrightarrow> distinct (f i)"
    and "\<And>i j. i \<in> set is \<Longrightarrow> j \<in> set is \<Longrightarrow> i \<noteq> j \<Longrightarrow> set (f i) \<inter> set (f j) = {}"
  shows "distinct (concat (map f is))"
  using assms
proof (induction "is")
  case (Cons i "is")
  have "set (f i) \<inter> set (concat (map f is)) = {}"
    using Cons.prems(1) Cons.prems(3) [of i] by fastforce
  with Cons show ?case by simp
qed simp

lemma pdb_makeresidue_all:
  assumes hash: "hash_ok d cs"
  shows "\<exists>d'. pdb_makeresidue d = Some d' \<and> hash_ok d' cs \<and>
           resid_ok d' cs (rev (concat (map cs [0..<NPHASH]))) \<and> skel (pheap d') = skel (pheap d)"
proof -
  from hash obtain nz where z: "pheap d presidue = Some nz" by (auto simp: hash_ok_def)
  let ?d = "d\<lparr>pheap := (pheap d)(presidue \<mapsto> nz\<lparr>prnext := Some presidue, prprev := Some presidue\<rparr>)\<rparr>"
  have sk: "skel (pheap ?d) = skel (pheap d)" using z by (auto simp: skel_def fun_eq_iff)
  then have hash1: "hash_ok ?d cs" using hash_ok_skel [OF hash, of ?d] by simp
  have ring0: "ring (pheap ?d) []" by (simp add: link_def)
  have upt: "set [0..<NPHASH] \<subseteq> {..<NPHASH}" by auto
  from makeresidue_hash_ok [OF hash1 upt _ ring0] obtain d' where
    d': "makeresidue_hash [0..<NPHASH] ?d = Some d'"
      "ring (pheap d') (rev (concat (map cs [0..<NPHASH])))"
      "skel (pheap d') = skel (pheap ?d)" "phash d' = phash ?d"
    by auto
  have "pdb_makeresidue d = Some d'" using d'(1) z by (simp add: pdb_makeresidue_def wr_def)
  moreover have "hash_ok d' cs" using hash_ok_skel [OF hash1 d'(3) [symmetric] d'(4)] .
  moreover have "distinct (concat (map cs [0..<NPHASH]))"
  proof (rule distinct_concat_map)
    show "set (cs i) \<inter> set (cs j) = {}"
      if "i \<in> set [0..<NPHASH]" "j \<in> set [0..<NPHASH]" "i \<noteq> j" for i j
      using bucket_unique [OF hash, of i j] that by auto
  qed (use hash in \<open>auto simp: hash_ok_def\<close>)
  moreover have "set (concat (map cs [0..<NPHASH])) = nodes cs"
    by (auto simp: nodes_def)
  ultimately have "resid_ok d' cs (rev (concat (map cs [0..<NPHASH])))"
    using d'(2) presidue_notin_nodes [OF hash] by (simp add: resid_ok_def)
  with \<open>pdb_makeresidue d = Some d'\<close> \<open>hash_ok d' cs\<close> d' sk show ?thesis by auto
qed

section \<open>pdb\_cleanresidue\<close>

lemma hash_ok_cong: "(\<And>i. i < NPHASH \<Longrightarrow> cs i = cs' i) \<Longrightarrow> hash_ok d cs = hash_ok d cs'"
  by (simp add: hash_ok_def)

lemma nodes_cong: "(\<And>i. i < NPHASH \<Longrightarrow> cs i = cs' i) \<Longrightarrow> nodes cs = nodes cs'"
  by (simp add: nodes_def)

lemma resid_ok_cong: "(\<And>i. i < NPHASH \<Longrightarrow> cs i = cs' i) \<Longrightarrow> resid_ok d cs rs = resid_ok d cs' rs"
  using nodes_cong [of cs cs'] by (simp add: resid_ok_def)

text \<open>The key under which \<open>pdb_deltask\<close> looks a node up.\<close>

definition node_key :: "(addr \<rightharpoonup> pinfo) \<Rightarrow> addr \<Rightarrow> (i32 \<times> byte) option" where
  "node_key h a = map_option (\<lambda>n. (n_pid n, n_isproc n)) (h a)"

definition keys_unique :: "pdb \<Rightarrow> (nat \<Rightarrow> addr list) \<Rightarrow> bool" where
  "keys_unique d cs \<longleftrightarrow> inj_on (node_key (pheap d)) (nodes cs)"

lemma node_key_tstat:
  "map_option p_tstat (h a) = map_option p_tstat (h' a) \<Longrightarrow> node_key h a = node_key h' a"
  by (cases "h a"; cases "h' a") (auto simp: node_key_def)

text \<open>With unique keys, deleting the key of a node deletes that node.\<close>

lemma pdb_deltask_node:
  assumes hash: "hash_ok d cs" and res: "resid_ok d cs rs" and uniq: "keys_unique d cs"
    and a: "a \<in> nodes cs" and n: "pheap d a = Some n"
  shows "\<exists>d' cs'. pdb_deltask d (n_pid n) (n_isproc n) = Some (d', True) \<and>
    hash_ok d' cs' \<and> resid_ok d' cs' (remove1 a rs) \<and> keys_unique d' cs' \<and>
    (\<forall>i<NPHASH. cs' i = filter (\<lambda>b. b \<noteq> a) (cs i)) \<and>
    (\<forall>b. b \<noteq> a \<longrightarrow> map_option p_tstat (pheap d' b) = map_option p_tstat (pheap d b))"
proof -
  from a obtain i where i: "i < NPHASH" "a \<in> set (cs i)" by (auto simp: nodes_def)
  then have "hashidx (n_pid n) = i" using hash n by (fastforce simp: hash_ok_def)
  with i have cs: "a \<in> set (cs (hashidx (n_pid n)))" by simp
  then obtain us vs where uv: "cs (hashidx (n_pid n)) = us @ a # vs" by (meson split_list)
  have dist: "distinct (us @ a # vs)" using hash uv by (metis hash_ok_def hashidx_less)
  have "\<not> at (pheap d) (key_matches (n_pid n) (n_isproc n)) x" if "x \<in> set us" for x
  proof
    assume "at (pheap d) (key_matches (n_pid n) (n_isproc n)) x"
    then have "node_key (pheap d) x = node_key (pheap d) a"
      using n by (auto simp: node_key_def key_matches_def)
    moreover have "x \<in> nodes cs" using that uv by (intro in_nodes [OF hashidx_less [of "n_pid n"]]) auto
    ultimately have "x = a" using uniq a by (auto simp: keys_unique_def inj_on_def)
    with that dist show False by auto
  qed
  then have us: "\<forall>x\<in>set us. \<not> at (pheap d) (key_matches (n_pid n) (n_isproc n)) x" by blast
  have "at (pheap d) (key_matches (n_pid n) (n_isproc n)) a" using n by (auto simp: key_matches_def)
  from pdb_deltask_first [OF hash res uv us this]
  obtain d' where d': "pdb_deltask d (n_pid n) (n_isproc n) = Some (d', True)"
    "hash_ok d' (cs(hashidx (n_pid n) := us @ vs))"
    "resid_ok d' (cs(hashidx (n_pid n) := us @ vs)) (remove1 a rs)"
    "\<forall>b. b \<noteq> a \<longrightarrow> map_option p_tstat (pheap d' b) = map_option p_tstat (pheap d b)"
    by auto
  let ?cs = "cs(hashidx (n_pid n) := us @ vs)"
  have drop: "filter (\<lambda>b. b \<noteq> a) xs = xs" if "a \<notin> set xs" for xs
    using that by (induction xs) auto
  have filt: "?cs j = filter (\<lambda>b. b \<noteq> a) (cs j)" if "j < NPHASH" for j
  proof (cases "j = hashidx (n_pid n)")
    case True
    have "filter (\<lambda>b. b \<noteq> a) (us @ a # vs) = us @ vs" using dist drop by simp
    with True uv show ?thesis by simp
  next
    case False
    then have "a \<notin> set (cs j)" using bucket_unique [OF hash that hashidx_less] cs by blast
    with False drop show ?thesis by simp
  qed
  have "nodes ?cs \<subseteq> nodes cs - {a}" using filt by (auto simp: nodes_def)
  moreover have "\<forall>b\<in>nodes cs - {a}. node_key (pheap d') b = node_key (pheap d) b"
    using d'(4) by (auto intro: node_key_tstat)
  moreover have "inj_on (node_key (pheap d)) (nodes cs - {a})"
    using uniq unfolding keys_unique_def by (rule inj_on_diff)
  ultimately have "keys_unique d' ?cs"
    unfolding keys_unique_def by (metis (no_types, lifting) inj_on_cong inj_on_subset)
  with d' filt show ?thesis by blast
qed

abbreviation hd_ptr :: "addr list \<Rightarrow> ptr" where
  "hd_ptr rs \<equiv> Some (hd (rs @ [presidue]))"

lemma cleanresidue_loop_ok:
  assumes "hash_ok d cs" and "resid_ok d cs rs" and "keys_unique d cs"
  shows "\<exists>d' cs'. cleanresidue_loop d (hd_ptr rs) = Some d' \<and> hash_ok d' cs' \<and> resid_ok d' cs' [] \<and>
    keys_unique d' cs' \<and> (\<forall>i<NPHASH. cs' i = filter (\<lambda>a. a \<notin> set rs) (cs i)) \<and>
    (\<forall>b. b \<notin> set rs \<longrightarrow> map_option p_tstat (pheap d' b) = map_option p_tstat (pheap d b))"
  using assms
proof (induction rs arbitrary: d cs)
  case Nil
  then show ?case by (subst cleanresidue_loop.simps) auto
next
  case (Cons r rs)
  have r: "r \<in> nodes cs" "r \<noteq> presidue" and ring: "ring (pheap d) (r # rs)"
    and dist: "r \<notin> set rs"
    using Cons.prems(2) by (auto simp: resid_ok_def)
  from hash_ok_node [OF Cons.prems(1) r(1)] obtain n where n: "pheap d r = Some n" ..
  have nxt: "prnext n = hd_ptr rs"
    using ring n by (cases rs) (auto simp: link_def)
  from pdb_deltask_node [OF Cons.prems r(1) n] obtain d1 cs1 where
    d1: "pdb_deltask d (n_pid n) (n_isproc n) = Some (d1, True)" "hash_ok d1 cs1"
      "resid_ok d1 cs1 rs" "keys_unique d1 cs1"
      "\<forall>i<NPHASH. cs1 i = filter (\<lambda>b. b \<noteq> r) (cs i)"
      "\<forall>b. b \<noteq> r \<longrightarrow> map_option p_tstat (pheap d1 b) = map_option p_tstat (pheap d b)"
    by auto
  from Cons.IH [OF d1(2,3,4)] obtain d' cs' where
    d': "cleanresidue_loop d1 (hd_ptr rs) = Some d'" "hash_ok d' cs'" "resid_ok d' cs' []"
      "keys_unique d' cs'" "\<forall>i<NPHASH. cs' i = filter (\<lambda>a. a \<notin> set rs) (cs1 i)"
      "\<forall>b. b \<notin> set rs \<longrightarrow> map_option p_tstat (pheap d' b) = map_option p_tstat (pheap d1 b)"
    by auto
  have "cleanresidue_loop d (hd_ptr (r # rs)) = Some d'"
    using r n nxt d1(1) d'(1) by (subst cleanresidue_loop.simps) (simp add: rd_def)
  moreover have "\<forall>i<NPHASH. cs' i = filter (\<lambda>a. a \<notin> set (r # rs)) (cs i)"
    using d1(5) d'(5) by (auto intro: filter_cong)
  ultimately show ?case using d' d1(6) by (intro exI [of _ d'] exI [of _ cs']) auto
qed

lemma resid_anchor: "resid_ok d cs rs \<Longrightarrow> \<exists>n. pheap d presidue = Some n \<and> prnext n = hd_ptr rs"
  by (cases rs) (auto simp: resid_ok_def link_def)

section \<open>pdb\_srchresidue\<close>

definition srch_exact :: "tstat \<Rightarrow> pinfo \<Rightarrow> bool" where
  "srch_exact t n \<longleftrightarrow> srch_fits t n \<and> n_btime n = gen_btime (t_gen t)"

definition srch_near :: "tstat \<Rightarrow> pinfo \<Rightarrow> bool" where
  "srch_near t n \<longleftrightarrow> srch_fits t n \<and>
     (n_btime n = gen_btime (t_gen t) - 1 \<or> n_btime n = gen_btime (t_gen t) + 1)"

lemma srchresidue_loop_find:
  assumes "successively (link (pheap d)) (rs @ [presidue])" and "presidue \<notin> set rs"
  shows "srchresidue_loop t d prmin (hd_ptr rs) =
    Some (case List.find (at (pheap d) (srch_exact t)) rs of
            Some a \<Rightarrow> Some a
          | None \<Rightarrow> (if prmin = None then List.find (at (pheap d) (srch_near t)) rs else prmin))"
  using assms
proof (induction rs arbitrary: prmin)
  case Nil
  then show ?case by (subst srchresidue_loop.simps) simp
next
  case (Cons r rs)
  have lk: "link (pheap d) r (hd (rs @ [presidue]))" and
    ring: "successively (link (pheap d)) (rs @ [presidue])"
    using Cons.prems(1) by (auto simp: successively_Cons)
  from lk obtain n where n: "pheap d r = Some n" "prnext n = hd_ptr rs" by (auto simp: link_def)
  note IH = Cons.IH [OF ring]
  have r: "presidue \<notin> set rs" "r \<noteq> presidue" using Cons.prems(2) by auto
  have e: "n_btime n - gen_btime (t_gen t) = 0 \<longleftrightarrow> n_btime n = gen_btime (t_gen t)"
    "n_btime n - gen_btime (t_gen t) = -1 \<longleftrightarrow> n_btime n = gen_btime (t_gen t) - 1"
    "n_btime n - gen_btime (t_gen t) = 1 \<longleftrightarrow> n_btime n = gen_btime (t_gen t) + 1"
    by (auto simp: algebra_simps)
  have step: "srchresidue_loop t d prmin (hd_ptr (r # rs)) =
      (if srch_exact t n then Some (Some r)
       else if srch_near t n \<and> prmin = None then srchresidue_loop t d (Some r) (hd_ptr rs)
       else srchresidue_loop t d prmin (hd_ptr rs))"
    using n r e by (subst srchresidue_loop.simps)
      (auto simp: rd_def Let_def srch_exact_def srch_near_def)
  show ?case
    using n IH [OF r(1)] by (simp only: step) (auto split: option.split)
qed

lemma pdb_srchresidue_find:
  assumes "resid_ok d cs rs"
  shows "pdb_srchresidue d t =
    Some (case List.find (at (pheap d) (srch_exact t)) rs of
            Some a \<Rightarrow> Some a | None \<Rightarrow> List.find (at (pheap d) (srch_near t)) rs)"
proof -
  obtain n where n: "pheap d presidue = Some n" "prnext n = hd_ptr rs"
    using resid_anchor [OF assms] by auto
  have "successively (link (pheap d)) (rs @ [presidue])" "presidue \<notin> set rs"
    using assms by (auto simp: resid_ok_def successively_Cons)
  from srchresidue_loop_find [OF this] n show ?thesis
    by (simp add: pdb_srchresidue_def rd_def)
qed

end
