(* ===== verification/Task_Database.thy ===== *)
theory Task_Database
  imports Procdbase_Rep
begin

text \<open>
  The contract of the process database towards its client, as the comments of
  \<^verbatim>\<open>procdbase.c\<close> state it: chain everything into the residue list, look the present tasks up,
  and what was not referred to can be found in the residue and removed.  The locale
  \<open>residue_protocol\<close> states the laws of the three operations and derives the effect of one whole
  sample; it is interpreted on the heap operations of \<open>Procdbase\<close>.
\<close>

section \<open>The sampling protocol\<close>

text \<open>A client that looks a list of keys up, one after the other.\<close>

fun get_all :: "('d \<Rightarrow> 'k \<Rightarrow> ('d \<times> 'a option) option) \<Rightarrow> 'd \<Rightarrow> 'k list \<Rightarrow> 'd option" where
  "get_all g d [] = Some d"
| "get_all g d (k # ks) = do { (d, _) \<leftarrow> g d k; get_all g d ks }"

locale residue_protocol =
  fixes live :: "'d \<Rightarrow> 'a set \<Rightarrow> bool"
    and sampling :: "'d \<Rightarrow> 'a set \<Rightarrow> 'a set \<Rightarrow> bool"
    and look :: "'d \<Rightarrow> 'k \<Rightarrow> 'a option"
    and peek :: "'d \<Rightarrow> 'a \<Rightarrow> 's option"
    and make :: "'d \<Rightarrow> 'd option"
    and get :: "'d \<Rightarrow> 'k \<Rightarrow> ('d \<times> 'a option) option"
    and clean :: "'d \<Rightarrow> 'd option"
  assumes make_law: "live d L \<Longrightarrow>
      \<exists>d'. make d = Some d' \<and> sampling d' L L \<and> look d' = look d \<and> peek d' = peek d"
    and get_law: "sampling d L U \<Longrightarrow>
      \<exists>d'. get d k = Some (d', look d k) \<and> sampling d' L (U - set_option (look d k)) \<and>
           look d' = look d \<and> peek d' = peek d"
    and clean_law: "sampling d L U \<Longrightarrow>
      \<exists>d'. clean d = Some d' \<and> live d' (L - U) \<and> (\<forall>a\<in>L - U. peek d' a = peek d a)"
begin

lemma get_all_law:
  "sampling d L U \<Longrightarrow>
   \<exists>d'. get_all get d ks = Some d' \<and>
        sampling d' L {a \<in> U. \<forall>k\<in>set ks. look d k \<noteq> Some a} \<and> look d' = look d \<and> peek d' = peek d"
proof (induction ks arbitrary: d U)
  case (Cons k ks)
  from get_law [OF Cons.prems, of k] obtain d1 where
    d1: "get d k = Some (d1, look d k)" "sampling d1 L (U - set_option (look d k))"
      "look d1 = look d" "peek d1 = peek d"
    by blast
  from Cons.IH [OF d1(2)] obtain d2 where
    d2: "get_all get d1 ks = Some d2"
      "sampling d2 L {a \<in> U - set_option (look d k). \<forall>k\<in>set ks. look d1 k \<noteq> Some a}"
      "look d2 = look d1" "peek d2 = peek d1"
    by blast
  have "{a \<in> U - set_option (look d k). \<forall>k\<in>set ks. look d1 k \<noteq> Some a} =
      {a \<in> U. \<forall>k'\<in>set (k # ks). look d k' \<noteq> Some a}"
    using d1(3) by (auto split: option.splits) 
  with d1 d2 show ?case by auto
qed simp

lemma sample_law:
  assumes "live d L"
  shows "\<exists>d1 d2 d3. make d = Some d1 \<and> get_all get d1 ks = Some d2 \<and> clean d2 = Some d3 \<and>
    live d3 {a \<in> L. \<exists>k\<in>set ks. look d k = Some a} \<and>
    (\<forall>a. a \<in> L \<longrightarrow> (\<exists>k\<in>set ks. look d k = Some a) \<longrightarrow> peek d3 a = peek d a)"
proof -
  from make_law [OF assms] obtain d1 where
    d1: "make d = Some d1" "sampling d1 L L" "look d1 = look d" "peek d1 = peek d" by blast
  from get_all_law [OF d1(2)] obtain d2 where d2: "get_all get d1 ks = Some d2"
    "sampling d2 L {a \<in> L. \<forall>k\<in>set ks. look d1 k \<noteq> Some a}" "peek d2 = peek d1" by blast
  from clean_law [OF d2(2)] obtain d3 where
    d3: "clean d2 = Some d3" "live d3 (L - {a \<in> L. \<forall>k\<in>set ks. look d1 k \<noteq> Some a})"
      "\<forall>a\<in>L - {a \<in> L. \<forall>k\<in>set ks. look d1 k \<noteq> Some a}. peek d3 a = peek d2 a" by blast
  have "L - {a \<in> L. \<forall>k\<in>set ks. look d1 k \<noteq> Some a} = {a \<in> L. \<exists>k\<in>set ks. look d k = Some a}"
    using d1(3) by auto
  with d1 d2 d3 show ?thesis by auto
qed

end

section \<open>The process database follows the protocol\<close>

text \<open>The nodes in the database between two samples, and during one.\<close>

definition pdb_live :: "pdb \<Rightarrow> addr set \<Rightarrow> bool" where
  "pdb_live d L \<longleftrightarrow> (\<exists>cs. hash_ok d cs \<and> keys_unique d cs \<and> nodes cs = L)"

definition pdb_sampling :: "pdb \<Rightarrow> addr set \<Rightarrow> addr set \<Rightarrow> bool" where
  "pdb_sampling d L U \<longleftrightarrow>
     (\<exists>cs rs. hash_ok d cs \<and> keys_unique d cs \<and> resid_ok d cs rs \<and> nodes cs = L \<and> set rs = U)"

text \<open>The node a lookup refers to, found without touching the residue list.\<close>

partial_function (option) look_scan :: "i32 \<Rightarrow> byte \<Rightarrow> time_t \<Rightarrow> pdb \<Rightarrow> ptr \<Rightarrow> ptr option" where
  "look_scan pid isproc btime d pp =
     (case pp of
        None \<Rightarrow> Some None
      | Some a \<Rightarrow> do {
          n \<leftarrow> rd d pp;
          if task_matches pid isproc btime n then Some pp
          else look_scan pid isproc btime d (phnext n)
        })"

definition pdb_look :: "pdb \<Rightarrow> i32 \<times> byte \<times> time_t \<Rightarrow> addr option" where
  "pdb_look d k = (case k of (pid, isproc, btime) \<Rightarrow>
     Option.bind (look_scan pid isproc btime d (phash d (hashidx pid))) (\<lambda>r. r))"

definition pdb_peek :: "pdb \<Rightarrow> addr \<Rightarrow> tstat option" where
  "pdb_peek d a = map_option p_tstat (pheap d a)"

definition pdb_get :: "pdb \<Rightarrow> i32 \<times> byte \<times> time_t \<Rightarrow> (pdb \<times> addr option) option" where
  "pdb_get d k = (case k of (pid, isproc, btime) \<Rightarrow> pdb_gettask d pid isproc btime)"

lemma task_matches_at:
  "at h (task_matches pid isproc btime) a \<longleftrightarrow>
     (\<exists>t. map_option p_tstat (h a) = Some t \<and> gen_pid (t_gen t) = pid \<and>
          gen_isproc (t_gen t) = isproc \<and> btime_near (gen_btime (t_gen t)) btime)"
  by (auto simp: task_matches_def)

lemma look_scan_find:
  "chain (pheap d) p xs \<Longrightarrow>
   look_scan pid isproc btime d p =
     Some (List.find (at (pheap d) (task_matches pid isproc btime)) xs)"
proof (induction xs arbitrary: p)
  case (Cons a xs)
  then show ?case by (subst look_scan.simps) (auto simp: rd_def)
qed (simp add: look_scan.simps)

lemma pdb_look_find:
  assumes "hash_ok d cs"
  shows "pdb_look d (pid, isproc, btime) =
    List.find (at (pheap d) (task_matches pid isproc btime)) (cs (hashidx pid))"
proof -
  have "chain (pheap d) (phash d (hashidx pid)) (cs (hashidx pid))"
    using assms by (simp add: hash_ok_def)
  then show ?thesis by (simp add: pdb_look_def look_scan_find)
qed

lemma pdb_look_skel:
  assumes "hash_ok d cs" and "hash_ok d' cs" and "skel (pheap d') = skel (pheap d)"
  shows "pdb_look d' = pdb_look d" and "pdb_peek d' = pdb_peek d"
    and "keys_unique d' cs = keys_unique d cs"
proof -
  have ts: "map_option p_tstat (pheap d' a) = map_option p_tstat (pheap d a)" for a
    using skel_tstat [of "pheap d'" a "pheap d"] assms(3) by simp
  then show "pdb_peek d' = pdb_peek d" by (simp add: pdb_peek_def fun_eq_iff)
  have "at (pheap d') (task_matches pid isproc btime) = at (pheap d) (task_matches pid isproc btime)"
    for pid isproc btime
    by (simp add: fun_eq_iff task_matches_at ts)
  then show "pdb_look d' = pdb_look d"
    using pdb_look_find [OF assms(1)] pdb_look_find [OF assms(2)] by (auto simp: fun_eq_iff)
  have "node_key (pheap d') = node_key (pheap d)" 
    by (rule ext, rule node_key_tstat, rule ts)
  then show "keys_unique d' cs = keys_unique d cs" by (simp add: keys_unique_def)
qed

lemma pdb_cleanresidue_exact:
  assumes "hash_ok d cs" and "resid_ok d cs rs" and "keys_unique d cs"
  shows "\<exists>d' cs'. pdb_cleanresidue d = Some d' \<and> hash_ok d' cs' \<and> resid_ok d' cs' [] \<and>
    keys_unique d' cs' \<and> nodes cs' = nodes cs - set rs \<and>
    (\<forall>b. b \<notin> set rs \<longrightarrow> pdb_peek d' b = pdb_peek d b)"
proof -
  obtain n where "pheap d presidue = Some n" "prnext n = hd_ptr rs"
    using resid_anchor [OF assms(2)] by auto
  moreover obtain d' cs' where d': "cleanresidue_loop d (hd_ptr rs) = Some d'" "hash_ok d' cs'"
    "resid_ok d' cs' []" "keys_unique d' cs'"
    "\<forall>i<NPHASH. cs' i = filter (\<lambda>a. a \<notin> set rs) (cs i)"
    "\<forall>b. b \<notin> set rs \<longrightarrow> map_option p_tstat (pheap d' b) = map_option p_tstat (pheap d b)"
    using cleanresidue_loop_ok [OF assms] by auto
  moreover have "nodes cs' = nodes cs - set rs" using d'(5) by (auto simp: nodes_def)
  ultimately show ?thesis
    by (intro exI [of _ d'] exI [of _ cs']) (simp add: pdb_cleanresidue_def rd_def pdb_peek_def)
qed

interpretation residue: residue_protocol pdb_live pdb_sampling pdb_look pdb_peek
  pdb_makeresidue pdb_get pdb_cleanresidue
proof
  fix d L
  assume "pdb_live d L"
  then obtain cs where cs: "hash_ok d cs" "keys_unique d cs" "nodes cs = L"
    by (auto simp: pdb_live_def)
  obtain d' where d': "pdb_makeresidue d = Some d'" "hash_ok d' cs"
    "resid_ok d' cs (rev (concat (map cs [0..<NPHASH])))" "skel (pheap d') = skel (pheap d)"
    using pdb_makeresidue_all [OF cs(1)] by blast
  have "set (rev (concat (map cs [0..<NPHASH]))) = L" using cs(3) by (auto simp: nodes_def)
  then have "pdb_sampling d' L L"
    unfolding pdb_sampling_def using d' cs pdb_look_skel(3) [OF cs(1) d'(2,4)] by blast
  then show "\<exists>d'. pdb_makeresidue d = Some d' \<and> pdb_sampling d' L L \<and> pdb_look d' = pdb_look d \<and>
      pdb_peek d' = pdb_peek d"
    using d' pdb_look_skel [OF cs(1) d'(2,4)] by blast
next
  fix d L U and k :: "i32 \<times> byte \<times> time_t"
  assume "pdb_sampling d L U"
  then obtain cs rs where cs: "hash_ok d cs" "keys_unique d cs" "resid_ok d cs rs" "nodes cs = L"
    "set rs = U"
    by (auto simp: pdb_sampling_def)
  obtain pid isproc btime where k: "k = (pid, isproc, btime)" by (cases k)
  let ?rs = "case pdb_look d k of None \<Rightarrow> rs | Some a \<Rightarrow> remove1 a rs"
  obtain d' where d': "pdb_get d k = Some (d', pdb_look d k)" "hash_ok d' cs" "resid_ok d' cs ?rs"
    "skel (pheap d') = skel (pheap d)"
    using pdb_gettask_find [OF cs(1,3), of pid isproc btime] pdb_look_find [OF cs(1)] k
    by (auto simp: pdb_get_def)
  have "set ?rs = U - set_option (pdb_look d k)"
    using cs(3,5) by (auto simp: resid_ok_def split: option.split)
  then have "pdb_sampling d' L (U - set_option (pdb_look d k))"
    unfolding pdb_sampling_def using d' cs pdb_look_skel(3) [OF cs(1) d'(2,4)] by blast
  then show "\<exists>d'. pdb_get d k = Some (d', pdb_look d k) \<and>
      pdb_sampling d' L (U - set_option (pdb_look d k)) \<and>
      pdb_look d' = pdb_look d \<and> pdb_peek d' = pdb_peek d"
    using d' pdb_look_skel [OF cs(1) d'(2,4)] by blast
next
  fix d L U
  assume "pdb_sampling d L U"
  then obtain cs rs where cs: "hash_ok d cs" "keys_unique d cs" "resid_ok d cs rs" "nodes cs = L"
    "set rs = U"
    by (auto simp: pdb_sampling_def)
  from pdb_cleanresidue_exact [OF cs(1,3,2)] cs(4,5)
  show "\<exists>d'. pdb_cleanresidue d = Some d' \<and> pdb_live d' (L - U) \<and>
      (\<forall>a\<in>L - U. pdb_peek d' a = pdb_peek d a)"
    by (force simp: pdb_live_def)
qed


section \<open>An example database\<close>

text \<open>
  Two tasks whose process ids 5 and 261 fall into the same bucket, inserted by
  \<open>pdb_addtask\<close> into the zero-initialised database of a fresh start.
\<close>

definition mk_task :: "i32 \<Rightarrow> byte \<Rightarrow> time_t \<Rightarrow> tstat" where
  "mk_task pid isproc btime =
     tstat0\<lparr>t_gen := gen0\<lparr>gen_pid := pid, gen_isproc := isproc, gen_btime := btime\<rparr>\<rparr>"

definition mk_node :: "i32 \<Rightarrow> byte \<Rightarrow> time_t \<Rightarrow> pinfo" where
  "mk_node pid isproc btime =
     \<lparr>phnext = None, prnext = None, prprev = None, p_tstat = mk_task pid isproc btime\<rparr>"

definition pdb_init :: pdb where
  "pdb_init = \<lparr>pheap = [presidue \<mapsto> mk_node 0 0 0], phash = \<lambda>_. None\<rparr>"

definition ex_pdb :: pdb where
  "ex_pdb = \<lparr>pheap = [presidue \<mapsto> mk_node 0 0 0, 1 \<mapsto> mk_node 5 1 100,
                       2 \<mapsto> (mk_node 261 1 200)\<lparr>phnext := Some 1\<rparr>],
             phash = (\<lambda>_. None)(5 := Some 2)\<rparr>"

definition ex_buckets :: "nat \<Rightarrow> addr list" where
  "ex_buckets = (\<lambda>_. [])(5 := [2, 1])"

lemma mk_node_simps [simp]:
  "n_pid (mk_node p i b) = p" "n_isproc (mk_node p i b) = i" "n_btime (mk_node p i b) = b"
  "phnext (mk_node p i b) = None" "prnext (mk_node p i b) = None" "prprev (mk_node p i b) = None"
  by (simp_all add: mk_node_def mk_task_def)

lemma btime_near_ex: "btime_near 100 101" "btime_near 50 51"
  by code_simp+

lemma hash_ok_init: "hash_ok pdb_init (\<lambda>_. [])"
  by (simp add: hash_ok_def pdb_init_def)

lemma hash_ok_ex: "hash_ok ex_pdb ex_buckets"
  by (auto simp: hash_ok_def ex_pdb_def ex_buckets_def presidue_def hashidx_def)

lemma nodes_ex: "nodes ex_buckets = {1, 2}"
  by (auto simp: nodes_def ex_buckets_def NPHASH_def)

lemma pdb_live_ex: "pdb_live ex_pdb {1, 2}"
  unfolding pdb_live_def
proof (intro exI conjI)
  show "keys_unique ex_pdb ex_buckets"
    by (simp add: keys_unique_def nodes_ex inj_on_def node_key_def ex_pdb_def presidue_def)
qed (fact hash_ok_ex nodes_ex)+

text \<open>The same two tasks during a sample in which both were looked up.\<close>

definition self_ring :: pinfo where
  "self_ring = (mk_node 0 0 0)\<lparr>prnext := Some presidue, prprev := Some presidue\<rparr>"

definition ex_sampled :: pdb where
  "ex_sampled = ex_pdb\<lparr>pheap := (pheap ex_pdb)(presidue \<mapsto> self_ring)\<rparr>"

lemma hash_ok_sampled: "hash_ok ex_sampled ex_buckets"
  by (rule hash_ok_skel [OF hash_ok_ex])
    (auto simp: ex_sampled_def ex_pdb_def self_ring_def skel_def fun_eq_iff presidue_def)

lemma resid_ok_sampled: "resid_ok ex_sampled ex_buckets []"
  by (auto simp: resid_ok_def nodes_ex ex_sampled_def ex_pdb_def self_ring_def link_def presidue_def)

text \<open>
  A process id that was reused: node 1 is the task of the previous sample, still in the residue,
  node 2 the task that now has the id 5, just added in front of it.
\<close>

definition ex_reused :: pdb where
  "ex_reused =
     \<lparr>pheap = [presidue \<mapsto> self_ring\<lparr>prnext := Some 1, prprev := Some 1\<rparr>,
               1 \<mapsto> (mk_node 5 1 100)\<lparr>prnext := Some presidue, prprev := Some presidue\<rparr>,
               2 \<mapsto> (mk_node 5 1 900)\<lparr>phnext := Some 1\<rparr>],
      phash = (\<lambda>_. None)(5 := Some 2)\<rparr>"

lemma hash_ok_reused: "hash_ok ex_reused ex_buckets"
  by (auto simp: hash_ok_def ex_reused_def ex_buckets_def presidue_def hashidx_def)

lemma resid_ok_reused: "resid_ok ex_reused ex_buckets [1]"
  by (auto simp: resid_ok_def nodes_ex ex_reused_def self_ring_def link_def presidue_def)

section \<open>Properties\<close>

text \<open>
  C21: One sample of the process database.  After \<open>pdb_makeresidue\<close>, a lookup by
  \<open>pdb_gettask\<close> of every task present, and \<open>pdb_cleanresidue\<close>, no operation having hit undefined
  behaviour, the database holds exactly the nodes that were looked up, with their statistics
  unchanged, provided process ids are unique in it.
\<close>

theorem residue_sample_exact:
  assumes "pdb_live d L"
  shows "\<exists>d1 d2 d3. pdb_makeresidue d = Some d1 \<and> get_all pdb_get d1 ks = Some d2 \<and>
    pdb_cleanresidue d2 = Some d3 \<and>
    pdb_live d3 {a \<in> L. \<exists>k\<in>set ks. pdb_look d k = Some a} \<and>
    (\<forall>a. a \<in> L \<longrightarrow> (\<exists>k\<in>set ks. pdb_look d k = Some a) \<longrightarrow> pdb_peek d3 a = pdb_peek d a)"
  using assms by (rule residue.sample_law)

theorem residue_sample_exact_witness:
  "\<exists>d1 d2 d3. pdb_makeresidue ex_pdb = Some d1 \<and> get_all pdb_get d1 [(5, 1, 101)] = Some d2 \<and>
    pdb_cleanresidue d2 = Some d3 \<and> pdb_live d3 {1}"
proof -
  have 1: "pdb_look ex_pdb (5, 1, 101) = Some 1"
    unfolding pdb_look_find [OF hash_ok_ex]
    by (simp add: ex_buckets_def hashidx_def ex_pdb_def presidue_def
        task_matches_def btime_near_ex)
  have "{a \<in> {1, 2}. \<exists>k\<in>set [(5, 1, 101)]. pdb_look ex_pdb k = Some a} = {1}"
    using 1 by auto
  then show ?thesis
    using residue_sample_exact [OF pdb_live_ex, of "[(5, 1, 101)]"] by auto
qed


text \<open>
  C22: A task added to the database by \<open>pdb_addtask\<close> is found by the next \<open>pdb_gettask\<close> with its
  pid, its level and a start time at most a second off, and its statistics are the ones stored.
\<close>

theorem pdb_add_then_get:
  assumes "hash_ok d cs" and "resid_ok d cs rs"
    and "pheap d a = Some n" and "prnext n = None" and "a \<notin> nodes cs" and "a \<noteq> presidue"
    and "btime_near (n_btime n) btime"
  shows "\<exists>d1 d2. pdb_addtask d (n_pid n) (Some a) = Some d1 \<and>
    pdb_gettask d1 (n_pid n) (n_isproc n) btime = Some (d2, Some a) \<and>
    pdb_peek d2 a = Some (p_tstat n)"
proof -
  let ?cs = "cs(hashidx (n_pid n) := a # cs (hashidx (n_pid n)))"
  obtain d1 where d1: "pdb_addtask d (n_pid n) (Some a) = Some d1" "hash_ok d1 ?cs"
    "resid_ok d1 ?cs rs" "\<forall>b. map_option p_tstat (pheap d1 b) = map_option p_tstat (pheap d b)"
    using pdb_addtask_ok [OF assms(1-3) refl assms(4-6)] by blast
  have pk: "map_option p_tstat (pheap d1 a) = Some (p_tstat n)" using d1(4) assms(3) by simp
  then have "at (pheap d1) (task_matches (n_pid n) (n_isproc n) btime) a"
    using assms(7) unfolding task_matches_at by auto
  then have "List.find (at (pheap d1) (task_matches (n_pid n) (n_isproc n) btime))
      (?cs (hashidx (n_pid n))) = Some a"
    by simp
  then obtain d2 where "pdb_gettask d1 (n_pid n) (n_isproc n) btime = Some (d2, Some a)"
    "skel (pheap d2) = skel (pheap d1)"
    using pdb_gettask_find [OF d1(2,3), of "n_pid n" "n_isproc n" btime] by auto
  then show ?thesis
    using d1(1) pk skel_tstat [of "pheap d2" a "pheap d1"] by (auto simp: pdb_peek_def)
qed

theorem pdb_add_then_get_witness:
  "\<exists>d1 d2. pdb_addtask (ex_sampled\<lparr>pheap := (pheap ex_sampled)(3 \<mapsto> mk_node 7 1 50)\<rparr>) 7 (Some 3) = Some d1 \<and>
    pdb_gettask d1 7 1 51 = Some (d2, Some 3)"
proof -
  let ?d = "ex_sampled\<lparr>pheap := (pheap ex_sampled)(3 \<mapsto> mk_node 7 1 50)\<rparr>"
  have h: "hash_ok ?d ex_buckets"
    by (auto simp: hash_ok_def ex_sampled_def ex_pdb_def ex_buckets_def presidue_def hashidx_def)
  have r: "resid_ok ?d ex_buckets []"
    by (auto simp: resid_ok_def nodes_ex ex_sampled_def ex_pdb_def self_ring_def link_def presidue_def)
  have n: "pheap ?d 3 = Some (mk_node 7 1 50)" by simp
  show ?thesis
    using pdb_add_then_get [OF h r n, of 51]
    by (simp add: nodes_ex presidue_def btime_near_ex) blast
qed

text \<open>
  C28: \<open>pdb_deltask\<close> on every branch.  In an empty bucket it dereferences a NULL pointer.  If no
  node of the bucket has the pid and level it returns 0 and changes nothing.  Otherwise it
  returns 1, having unlinked the first such node of the bucket from its hash chain and from the
  residue list and freed it, every other node keeping its statistics.
\<close>

theorem pdb_deltask_cases:
  assumes "hash_ok d cs" and "resid_ok d cs rs"
  shows "(cs (hashidx pid) = [] \<longrightarrow> pdb_deltask d pid isproc = None) \<and>
    (cs (hashidx pid) \<noteq> [] \<and> (\<forall>x\<in>set (cs (hashidx pid)). \<not> at (pheap d) (key_matches pid isproc) x)
      \<longrightarrow> pdb_deltask d pid isproc = Some (d, False)) \<and>
    (\<forall>us a vs. cs (hashidx pid) = us @ a # vs \<and>
      (\<forall>x\<in>set us. \<not> at (pheap d) (key_matches pid isproc) x) \<and> at (pheap d) (key_matches pid isproc) a
      \<longrightarrow> (\<exists>d'. pdb_deltask d pid isproc = Some (d', True) \<and>
            hash_ok d' (cs(hashidx pid := us @ vs)) \<and>
            resid_ok d' (cs(hashidx pid := us @ vs)) (remove1 a rs) \<and> pheap d' a = None \<and>
            (\<forall>b. b \<noteq> a \<longrightarrow> pdb_peek d' b = pdb_peek d b)))"
  using pdb_deltask_empty [OF assms(1)] pdb_deltask_none [OF assms(1)]
    pdb_deltask_first [OF assms]
  by (intro conjI) (simp, blast, (unfold pdb_peek_def, blast))

theorem pdb_deltask_cases_witness:
  "pdb_deltask ex_sampled 6 1 = None \<and>
   pdb_deltask ex_sampled 5 0 = Some (ex_sampled, False) \<and>
   (\<exists>d'. pdb_deltask ex_sampled 5 1 = Some (d', True) \<and> pheap d' 1 = None \<and>
     hash_ok d' (ex_buckets(5 := [2])))"
proof (intro conjI)
  have h: "hashidx 6 = 6" "hashidx 5 = 5" by (simp_all add: hashidx_def)
  note c = pdb_deltask_cases [OF hash_ok_sampled resid_ok_sampled]
  show "pdb_deltask ex_sampled 6 1 = None"
    using c [of 6 1] by (simp add: h ex_buckets_def)
  show "pdb_deltask ex_sampled 5 0 = Some (ex_sampled, False)"
    using c [of 5 0]
    by (simp add: h ex_buckets_def ex_sampled_def ex_pdb_def presidue_def key_matches_def)
  show "\<exists>d'. pdb_deltask ex_sampled 5 1 = Some (d', True) \<and> pheap d' 1 = None \<and>
     hash_ok d' (ex_buckets(5 := [2]))"
    using c [of 5 1, THEN conjunct2, THEN conjunct2, rule_format, of "[2]" 1 "[]"]
    by (auto simp: h ex_buckets_def ex_sampled_def ex_pdb_def presidue_def key_matches_def)
qed

text \<open>
  \<open>pdb_makeresidue\<close> returns with the residue list holding every node of every bucket, each
  once and well linked in both directions, whatever the residue fields held before, and changes
  neither the hash chains nor the statistics.
\<close>

theorem pdb_makeresidue_complete:
  assumes "hash_ok d cs"
  shows "\<exists>d' rs. pdb_makeresidue d = Some d' \<and> hash_ok d' cs \<and> resid_ok d' cs rs \<and>
           set rs = nodes cs \<and> pdb_peek d' = pdb_peek d"
proof -
  obtain d' where d': "pdb_makeresidue d = Some d'" "hash_ok d' cs"
    "resid_ok d' cs (rev (concat (map cs [0..<NPHASH])))" "skel (pheap d') = skel (pheap d)"
    using pdb_makeresidue_all [OF assms] by blast
  moreover have "set (rev (concat (map cs [0..<NPHASH]))) = nodes cs" by (auto simp: nodes_def)
  ultimately show ?thesis using pdb_look_skel(2) [OF assms d'(2,4)] by blast
qed

theorem pdb_makeresidue_complete_witness:
  "\<exists>d' rs. pdb_makeresidue ex_pdb = Some d' \<and> resid_ok d' ex_buckets rs \<and> set rs = {1, 2}"
  using pdb_makeresidue_complete [OF hash_ok_ex] by (auto simp: nodes_ex)

text \<open>
  \<open>pdb_srchresidue\<close> returns the first residue entry with the user, group and name of the
  task and exactly its start time; only if there is none, the first one whose start time is one
  second off; and 0 if there is none either.
\<close>

theorem pdb_srchresidue_spec:
  assumes "resid_ok d cs rs"
  shows "pdb_srchresidue d t =
    Some (case List.find (at (pheap d) (srch_exact t)) rs of
            Some a \<Rightarrow> Some a | None \<Rightarrow> List.find (at (pheap d) (srch_near t)) rs)"
  using assms by (rule pdb_srchresidue_find)

theorem pdb_srchresidue_spec_witness: "pdb_srchresidue ex_reused (mk_task 0 1 101) = Some (Some 1)"
  unfolding pdb_srchresidue_spec [OF resid_ok_reused]
  by (simp add: ex_reused_def presidue_def srch_exact_def srch_near_def srch_fits_def mk_task_def
      mk_node_def)

text \<open>
  Cleaning the residue deletes by key and not by node.  If a process id was reused, so that a
  new node \<open>a\<close> with the key of the stale node \<open>r\<close> stands before it in the bucket,
  \<open>pdb_cleanresidue\<close> frees the new node and keeps the stale one.
\<close>

theorem pdb_cleanresidue_reused:
  assumes "hash_ok d cs" and "resid_ok d cs [r]" and "pheap d r = Some n"
    and "cs (hashidx (n_pid n)) = us @ a # vs" and "r \<in> set vs"
    and "at (pheap d) (key_matches (n_pid n) (n_isproc n)) a"
    and "\<forall>x\<in>set us. \<not> at (pheap d) (key_matches (n_pid n) (n_isproc n)) x"
  shows "\<exists>d'. pdb_cleanresidue d = Some d' \<and> pheap d' a = None \<and>
           hash_ok d' (cs(hashidx (n_pid n) := us @ vs)) \<and> pdb_peek d' r = Some (p_tstat n)"
proof -
  have "distinct (us @ a # vs)" using assms(1,4) by (metis hash_ok_def hashidx_less)
  then have ra: "r \<noteq> a" using assms(5) by auto
  from pdb_deltask_first [OF assms(1,2,4,7,6)] obtain d' where
    d': "pdb_deltask d (n_pid n) (n_isproc n) = Some (d', True)"
      "hash_ok d' (cs(hashidx (n_pid n) := us @ vs))" "pheap d' a = None"
      "\<forall>b. b \<noteq> a \<longrightarrow> map_option p_tstat (pheap d' b) = map_option p_tstat (pheap d b)"
    by blast
  obtain m where m: "pheap d presidue = Some m" "prnext m = Some r"
    using resid_anchor [OF assms(2)] by auto
  have r: "r \<noteq> presidue" "prnext n = Some presidue"
    using assms(2,3) by (auto simp: resid_ok_def link_def)
  have "pdb_cleanresidue d = cleanresidue_loop d (Some r)"
    using m by (simp add: pdb_cleanresidue_def rd_def)
  also have "\<dots> = cleanresidue_loop d' (Some presidue)"
    using r d'(1) assms(3) by (subst cleanresidue_loop.simps) (simp add: rd_def)
  also have "\<dots> = Some d'" by (simp add: cleanresidue_loop.simps)
  finally show ?thesis using d' ra assms(3) by (auto simp: pdb_peek_def)
qed

theorem pdb_cleanresidue_reused_witness:
  "\<exists>d'. pdb_cleanresidue ex_reused = Some d' \<and> pheap d' 2 = None \<and>
     pdb_peek d' 1 = Some (mk_task 5 1 100)"
  using pdb_cleanresidue_reused [OF hash_ok_reused resid_ok_reused, of "(mk_node 5 1 100)\<lparr>prnext := Some presidue, prprev := Some presidue\<rparr>" "[]" 2 "[1]"]
  by (auto simp: ex_reused_def ex_buckets_def presidue_def hashidx_def key_matches_def mk_node_def mk_task_def)

end
