(* ===== verification/Task_Map.thy ===== *)
theory Task_Map
  imports Task_Database
begin

text \<open>
  The process database as its client sees it: a map from task keys (pid and level) to the
  statistics of the last sample, with the set of keys not yet referred to in this sample.  The
  relation \<open>task_abs\<close> connects it with the linked nodes of \<open>Procdbase\<close>, and every operation is
  shown to have its abstract effect.
\<close>

section \<open>Views of the node set\<close>

lemma option_bind_cong: "(\<And>x. m = Some x \<Longrightarrow> f x = g x) \<Longrightarrow> Option.bind m f = Option.bind m g"
  by (cases m) auto

datatype task_key = Task_Key i32 byte

definition tkey :: "tstat \<Rightarrow> task_key" where
  "tkey t = Task_Key (gen_pid (t_gen t)) (gen_isproc (t_gen t))"

text \<open>
  \<open>P\<close> gives the statistics of the nodes \<open>A\<close>, and \<open>N\<close> the node of each key.
\<close>

definition task_view :: "(addr \<rightharpoonup> tstat) \<Rightarrow> addr set \<Rightarrow> (task_key \<rightharpoonup> addr) \<Rightarrow> bool" where
  "task_view P A N \<longleftrightarrow> (\<forall>a\<in>A. P a \<noteq> None) \<and>
     (\<forall>k a. N k = Some a \<longleftrightarrow> a \<in> A \<and> map_option tkey (P a) = Some k)"

definition view_map :: "(addr \<rightharpoonup> tstat) \<Rightarrow> (task_key \<rightharpoonup> addr) \<Rightarrow> task_key \<rightharpoonup> tstat" where
  "view_map P N k = Option.bind (N k) P"

definition view_res :: "addr set \<Rightarrow> (task_key \<rightharpoonup> addr) \<Rightarrow> task_key set" where
  "view_res B N = {k. \<exists>a\<in>B. N k = Some a}"

lemma task_view_N: "task_view P A N \<Longrightarrow> N k = Some a \<longleftrightarrow> a \<in> A \<and> map_option tkey (P a) = Some k"
  by (simp add: task_view_def)

lemma task_view_key: "task_view P A N \<Longrightarrow> a \<in> A \<Longrightarrow> P a = Some t \<Longrightarrow> N (tkey t) = Some a"
  by (simp add: task_view_def)

lemma task_view_iff: "task_view P A N \<Longrightarrow> a \<in> A \<Longrightarrow> P a = Some t \<Longrightarrow> N k = Some a \<longleftrightarrow> k = tkey t"
  by (auto simp: task_view_def)

lemma view_map_Some:
  "task_view P A N \<Longrightarrow> view_map P N k = Some t \<longleftrightarrow> (\<exists>a\<in>A. N k = Some a \<and> P a = Some t \<and> tkey t = k)"
  by (auto simp: view_map_def task_view_N bind_eq_Some_conv)

lemma task_view_cong:
  "task_view P A N \<Longrightarrow> (\<And>a. a \<in> A \<Longrightarrow> P' a = P a) \<Longrightarrow> task_view P' A N"
  by (auto simp: task_view_def)

lemma view_map_cong:
  "task_view P A N \<Longrightarrow> (\<And>a. a \<in> A \<Longrightarrow> P' a = P a) \<Longrightarrow> view_map P' N = view_map P N"
  by (rule ext) (auto simp: view_map_def task_view_N intro!: option_bind_cong)

lemma view_res_diff:
  assumes "task_view P A N" and "a \<in> A" and "P a = Some t"
  shows "view_res (B - {a}) N = view_res B N - {tkey t}"
proof -
  have "N (tkey t) = Some a" by (rule task_view_key [OF assms])
  then show ?thesis
    by (auto simp: view_res_def dest: task_view_iff [OF assms, THEN iffD1])
qed

lemma task_view_store:
  assumes "task_view P A N" and "a \<in> A" and "P a = Some t" and "tkey t' = tkey t"
  shows "task_view (P(a \<mapsto> t')) A N" and "view_map (P(a \<mapsto> t')) N = (view_map P N)(tkey t \<mapsto> t')"
proof -
  have "map_option tkey ((P(a \<mapsto> t')) b) = map_option tkey (P b)" for b
    using assms(3,4) by simp
  then show "task_view (P(a \<mapsto> t')) A N" using assms(1) by (auto simp: task_view_def)
  have "view_map (P(a \<mapsto> t')) N k = ((view_map P N)(tkey t \<mapsto> t')) k" for k
    using task_view_iff [OF assms(1-3), of k] by (cases "N k") (auto simp: view_map_def)
  then show "view_map (P(a \<mapsto> t')) N = (view_map P N)(tkey t \<mapsto> t')" by (rule ext)
qed

lemma task_view_add:
  assumes "task_view P A N" and "a \<notin> A" and "tkey t \<notin> dom (view_map P N)"
  shows "task_view (P(a \<mapsto> t)) (insert a A) (N(tkey t \<mapsto> a))"
    and "view_map (P(a \<mapsto> t)) (N(tkey t \<mapsto> a)) = (view_map P N)(tkey t \<mapsto> t)"
    and "B \<subseteq> A \<Longrightarrow> view_res B (N(tkey t \<mapsto> a)) = view_res B N"
proof -
  have none: "N (tkey t) = None"
    using assms(1,3) by (cases "N (tkey t)") (auto simp: view_map_def task_view_def dom_def)
  have old: "N k \<noteq> Some a" for k using assms(1,2) by (simp add: task_view_N)
  show "task_view (P(a \<mapsto> t)) (insert a A) (N(tkey t \<mapsto> a))"
    unfolding task_view_def
  proof (intro conjI allI)
    fix k b
    show "(N(tkey t \<mapsto> a)) k = Some b \<longleftrightarrow> b \<in> insert a A \<and> map_option tkey ((P(a \<mapsto> t)) b) = Some k"
      using old [of k] none task_view_N [OF assms(1), of k b] by (cases "b = a") auto
  qed (use assms(1) in \<open>auto simp: task_view_def\<close>)
  show "view_map (P(a \<mapsto> t)) (N(tkey t \<mapsto> a)) = (view_map P N)(tkey t \<mapsto> t)"
    using old by (intro ext) (auto simp: view_map_def intro!: option_bind_cong)
  show "B \<subseteq> A \<Longrightarrow> view_res B (N(tkey t \<mapsto> a)) = view_res B N"
    using none assms(2) by (auto simp: view_res_def)
qed

definition cut_keys :: "addr set \<Rightarrow> (task_key \<rightharpoonup> addr) \<Rightarrow> (task_key \<rightharpoonup> addr)" where
  "cut_keys D N k = (case N k of None \<Rightarrow> None | Some a \<Rightarrow> if a \<in> D then None else Some a)"

lemma task_view_drop:
  assumes "task_view P A N" and "\<And>b. b \<in> A - D \<Longrightarrow> P' b = P b"
  shows "task_view P' (A - D) (cut_keys D N)"
    and "view_map P' (cut_keys D N) = view_map P N |` (- view_res D N)"
    and "view_res (B - D) (cut_keys D N) = view_res B N - view_res D N"
proof -
  have ck: "cut_keys D N k = Some a \<longleftrightarrow> N k = Some a \<and> a \<notin> D" for k a
    by (auto simp: cut_keys_def split: option.splits)
  show "task_view P' (A - D) (cut_keys D N)"
    using assms unfolding task_view_def ck by auto
  have "view_map P' (cut_keys D N) k = (view_map P N |` (- view_res D N)) k" for k
  proof (cases "N k")
    case (Some a)
    then have "a \<in> A" using task_view_N [OF assms(1)] by blast
    with Some assms(2) show ?thesis
      by (auto simp: view_map_def cut_keys_def restrict_map_def view_res_def)
  qed (simp add: view_map_def cut_keys_def restrict_map_def)
  then show "view_map P' (cut_keys D N) = view_map P N |` (- view_res D N)" by (rule ext)
  show "view_res (B - D) (cut_keys D N) = view_res B N - view_res D N"
    by (auto simp: view_res_def ck)
qed

lemma view_res_single: "task_view P A N \<Longrightarrow> a \<in> A \<Longrightarrow> P a = Some t \<Longrightarrow> view_res {a} N = {tkey t}"
  by (auto simp: view_res_def task_view_iff)

section \<open>The database as a map\<close>

definition task_abs :: "pdb \<Rightarrow> (task_key \<rightharpoonup> tstat) \<Rightarrow> task_key set \<Rightarrow> bool" where
  "task_abs d M R \<longleftrightarrow> finite (dom (pheap d)) \<and> (\<exists>cs rs N. hash_ok d cs \<and> resid_ok d cs rs \<and>
     task_view (pdb_peek d) (nodes cs) N \<and> M = view_map (pdb_peek d) N \<and> R = view_res (set rs) N)"

definition task_db :: "pdb \<Rightarrow> (task_key \<rightharpoonup> tstat) \<Rightarrow> bool" where
  "task_db d M \<longleftrightarrow> finite (dom (pheap d)) \<and> (\<exists>cs N. hash_ok d cs \<and> task_view (pdb_peek d) (nodes cs) N \<and>
     M = view_map (pdb_peek d) N)"

lemma finite_heap:
  assumes "finite (dom (pheap d))" and "\<And>b. b \<notin> X \<Longrightarrow> pdb_peek d' b = pdb_peek d b" and "finite X"
  shows "finite (dom (pheap d'))"
proof (rule finite_subset)
  show "dom (pheap d') \<subseteq> dom (pheap d) \<union> X"
  proof
    fix b assume b: "b \<in> dom (pheap d')"
    show "b \<in> dom (pheap d) \<union> X"
      using b assms(2) [of b] by (cases "b \<in> X"; cases "pheap d b") (auto simp: pdb_peek_def)
  qed
qed (use assms in simp)

lemma task_abs_key: "task_abs d M R \<Longrightarrow> M k = Some t \<Longrightarrow> tkey t = k"
  by (auto simp: task_abs_def view_map_Some)

lemma task_abs_db: "task_abs d M R \<Longrightarrow> task_db d M"
  by (auto simp: task_abs_def task_db_def)

lemma task_view_unique:
  assumes "hash_ok d cs" and "task_view (pdb_peek d) (nodes cs) N"
  shows "keys_unique d cs"
proof -
  have key: "tkey t = tkey u"
    if "node_key (pheap d) a = node_key (pheap d) b" "pdb_peek d a = Some t" "pdb_peek d b = Some u" for a b t u
    using that by (auto simp: node_key_def pdb_peek_def tkey_def)
  have "a = b" if "a \<in> nodes cs" "b \<in> nodes cs" "node_key (pheap d) a = node_key (pheap d) b" for a b
  proof -
    obtain t where "pdb_peek d a = Some t" using \<open>a \<in> nodes cs\<close> assms(2) by (auto simp: task_view_def)
    moreover obtain u where "pdb_peek d b = Some u" using \<open>b \<in> nodes cs\<close> assms(2) by (auto simp: task_view_def)
    ultimately show ?thesis using \<open>a \<in> nodes cs\<close> \<open>b \<in> nodes cs\<close> \<open>node_key (pheap d) a = node_key (pheap d) b\<close> key task_view_key [OF assms(2)] by (metis option.inject)
  qed
  then show ?thesis by (simp add: keys_unique_def inj_on_def)
qed

lemma makeresidue_abs:
  assumes "task_db d M"
  shows "\<exists>d'. pdb_makeresidue d = Some d' \<and> task_abs d' M (dom M)"
proof -
  obtain cs N where cs: "hash_ok d cs" "task_view (pdb_peek d) (nodes cs) N" "M = view_map (pdb_peek d) N"
    and fin: "finite (dom (pheap d))"
    using assms by (auto simp: task_db_def)
  obtain d' where d': "pdb_makeresidue d = Some d'" "hash_ok d' cs"
    "resid_ok d' cs (rev (concat (map cs [0..<NPHASH])))" "skel (pheap d') = skel (pheap d)"
    using pdb_makeresidue_all [OF cs(1)] by blast
  have s: "set (rev (concat (map cs [0..<NPHASH]))) = nodes cs" by (auto simp: nodes_def)
  have "view_res (nodes cs) N = dom M"
    using cs(2,3) by (auto simp: view_res_def view_map_def task_view_def dom_def bind_eq_Some_conv)
  then have "task_abs d' M (dom M)"
    unfolding task_abs_def using d' cs s finite_heap [OF fin, of "{}" d'] pdb_look_skel(2) [OF cs(1) d'(2,4)]
    by (intro conjI exI [of _ cs] exI [of _ "rev (concat (map cs [0..<NPHASH]))"] exI [of _ N]) simp_all
  with d'(1) show ?thesis by blast
qed


lemma find_only:
  assumes "a \<in> set xs" and "P a" and "\<And>x. P x \<Longrightarrow> x = a"
  shows "List.find P xs = Some a"
proof (cases "List.find P xs")
  case None
  with assms(1,2) show ?thesis by (auto simp: find_None_iff)
next
  case (Some x)
  then have "P x" by (auto simp: find_Some_iff)
  with Some assms(3) show ?thesis by blast
qed

lemma task_abs_find:
  assumes "hash_ok d cs" and "task_view (pdb_peek d) (nodes cs) N"
  shows "List.find (at (pheap d) (task_matches pid isproc btime)) (cs (hashidx pid)) =
    (case N (Task_Key pid isproc) of
       None \<Rightarrow> None
     | Some a \<Rightarrow> if btime_near (n_btime (the (pheap d a))) btime then Some a else None)"
proof -
  have m: "at (pheap d) (task_matches pid isproc btime) a \<longleftrightarrow>
      N (Task_Key pid isproc) = Some a \<and> btime_near (n_btime (the (pheap d a))) btime"
    if a: "a \<in> set (cs (hashidx pid))" for a
  proof -
    have "a \<in> nodes cs" using in_nodes [of "hashidx pid" a cs] a by simp
    then show ?thesis
      unfolding task_matches_at task_view_N [OF assms(2)] by (auto simp: pdb_peek_def tkey_def)
  qed
  have "a \<in> set (cs (hashidx pid))" if N: "N (Task_Key pid isproc) = Some a" for a
  proof -
    from N have "a \<in> nodes cs" "map_option tkey (pdb_peek d a) = Some (Task_Key pid isproc)"
      by (simp_all add: task_view_N [OF assms(2)])
    then show ?thesis
      using assms(1) unfolding nodes_def hash_ok_def pdb_peek_def tkey_def by fastforce
  qed
  with m have "List.find (at (pheap d) (task_matches pid isproc btime)) (cs (hashidx pid)) =
      List.find (\<lambda>a. N (Task_Key pid isproc) = Some a \<and> btime_near (n_btime (the (pheap d a))) btime)
        (cs (hashidx pid))"
    by (intro find_cong) auto
  also have "\<dots> = (case N (Task_Key pid isproc) of None \<Rightarrow> None
     | Some a \<Rightarrow> if btime_near (n_btime (the (pheap d a))) btime then Some a else None)"
    using \<open>\<And>a. N (Task_Key pid isproc) = Some a \<Longrightarrow> a \<in> set (cs (hashidx pid))\<close>
    by (auto simp: find_None_iff find_only split: option.split)
  finally show ?thesis .
qed

section \<open>The effect of the operations\<close>

lemma hash_ok_frame:
  assumes "hash_ok d cs" and "phash d' = phash d" and "dom (pheap d) \<subseteq> dom (pheap d')"
    and "\<And>a n. a \<in> nodes cs \<Longrightarrow> pheap d a = Some n \<Longrightarrow>
           \<exists>n'. pheap d' a = Some n' \<and> phnext n' = phnext n \<and> n_pid n' = n_pid n"
  shows "hash_ok d' cs"
  unfolding hash_ok_def
proof (intro conjI allI impI)
  show "presidue \<in> dom (pheap d')" using assms(1,3) by (auto simp: hash_ok_def)
  fix i assume i: "i < NPHASH"
  with assms(1) have c: "chain (pheap d) (phash d i) (cs i)" "distinct (cs i)" "presidue \<notin> set (cs i)"
    "\<forall>a\<in>set (cs i). \<exists>n. pheap d a = Some n \<and> hashidx (n_pid n) = i"
    by (auto simp: hash_ok_def)
  have in_n: "a \<in> set (cs i) \<Longrightarrow> a \<in> nodes cs" for a using i by (auto simp: nodes_def)
  have "map_option phnext (pheap d' a) = map_option phnext (pheap d a)" if "a \<in> set (cs i)" for a
    using that c(4) assms(4) [OF in_n] by fastforce
  with c(1) assms(2) show "chain (pheap d') (phash d' i) (cs i)" using chain_cong by metis
  show "distinct (cs i)" "presidue \<notin> set (cs i)" by (fact c)+
  show "\<forall>a\<in>set (cs i). \<exists>n. pheap d' a = Some n \<and> hashidx (n_pid n) = i"
    using c(4) assms(4) [OF in_n] by fastforce
qed

lemma find_SomeD: "List.find P xs = Some x \<Longrightarrow> x \<in> set xs"
  by (auto simp: find_Some_iff)

lemma resid_ok_alloc:
  assumes "resid_ok d cs rs" and "pheap d a = None"
  shows "resid_ok (d\<lparr>pheap := (pheap d)(a \<mapsto> n)\<rparr>) cs rs"
proof -
  have "b \<noteq> a \<and> c \<noteq> a" if "link (pheap d) b c" for b c
    using that assms(2) by (auto simp: link_def)
  then have "link (pheap d) b c \<Longrightarrow> link ((pheap d)(a \<mapsto> n)) b c" for b c
    by (auto simp: link_def)
  then have "ring ((pheap d)(a \<mapsto> n)) rs"
    using assms(1) unfolding resid_ok_def by (metis successively_mono)
  moreover have "\<forall>b\<in>nodes cs - set rs. map_option prnext (((pheap d)(a \<mapsto> n)) b) = Some None"
  proof
    fix b assume "b \<in> nodes cs - set rs"
    with assms(1) have "map_option prnext (pheap d b) = Some None" unfolding resid_ok_def by blast
    with assms(2) show "map_option prnext (((pheap d)(a \<mapsto> n)) b) = Some None" by auto
  qed
  ultimately show ?thesis using assms(1) unfolding resid_ok_def by simp
qed

lemma store_abs:
  assumes "hash_ok d cs" and "resid_ok d cs rs" and "task_view (pdb_peek d) (nodes cs) N"
    and "a \<in> nodes cs" and "pheap d a = Some n" and "tkey t' = tkey (p_tstat n)"
    and "finite (dom (pheap d))"
  shows "\<exists>d'. wr d (Some a) (\<lambda>n. n\<lparr>p_tstat := t'\<rparr>) = Some d' \<and>
    task_abs d' ((view_map (pdb_peek d) N)(tkey t' \<mapsto> t')) (view_res (set rs) N)"
proof -
  let ?d = "d\<lparr>pheap := (pheap d)(a \<mapsto> n\<lparr>p_tstat := t'\<rparr>)\<rparr>"
  have pk: "pdb_peek ?d = (pdb_peek d)(a \<mapsto> t')" by (auto simp: pdb_peek_def)
  have "hash_ok ?d cs"
    using assms(5,6) by (intro hash_ok_frame [OF assms(1)]) (auto simp: tkey_def)
  moreover have "resid_ok ?d cs rs"
    using assms(5) by (intro resid_ok_frame [OF assms(2)]) auto
  moreover note task_view_store [OF assms(3,4) _ assms(6)]
  ultimately have "task_abs ?d ((view_map (pdb_peek d) N)(tkey t' \<mapsto> t')) (view_res (set rs) N)"
    unfolding task_abs_def pk using assms(5-7)
    by (intro conjI exI [of _ cs] exI [of _ rs] exI [of _ N]) (simp_all add: pdb_peek_def [of d])
  then show ?thesis using assms(5) by (simp add: wr_def)
qed

text \<open>A lookup that finds its task, and what can be stored in the node found.\<close>

lemma gettask_hit:
  assumes "task_abs d M R" and "M (Task_Key pid isproc) = Some t"
    and "btime_near (gen_btime (t_gen t)) btime"
  shows "\<exists>d' a n. pdb_gettask d pid isproc btime = Some (d', Some a) \<and> pheap d' a = Some n \<and>
    p_tstat n = t \<and> task_abs d' M (R - {Task_Key pid isproc}) \<and>
    (\<forall>t'. tkey t' = Task_Key pid isproc \<longrightarrow>
       (\<exists>d''. wr d' (Some a) (\<lambda>n. n\<lparr>p_tstat := t'\<rparr>) = Some d'' \<and>
          task_abs d'' (M(Task_Key pid isproc \<mapsto> t')) (R - {Task_Key pid isproc})))"
proof -
  let ?k = "Task_Key pid isproc"
  obtain cs rs N where d: "hash_ok d cs" "resid_ok d cs rs" "task_view (pdb_peek d) (nodes cs) N"
    "M = view_map (pdb_peek d) N" "R = view_res (set rs) N"
    and fin: "finite (dom (pheap d))"
    using assms(1) by (auto simp: task_abs_def)
  obtain a where a: "a \<in> nodes cs" "N ?k = Some a" "pdb_peek d a = Some t" "tkey t = ?k"
    using assms(2) unfolding d(4) view_map_Some [OF d(3)] by blast
  have "n_btime (the (pheap d a)) = gen_btime (t_gen t)" using a(3) by (auto simp: pdb_peek_def)
  then have f: "List.find (at (pheap d) (task_matches pid isproc btime)) (cs (hashidx pid)) = Some a"
    using task_abs_find [OF d(1,3)] a(2) assms(3) by simp
  obtain d' where d': "pdb_gettask d pid isproc btime = Some (d', Some a)" "hash_ok d' cs"
    "resid_ok d' cs (remove1 a rs)" "skel (pheap d') = skel (pheap d)"
    using pdb_gettask_find [OF d(1,2), of pid isproc btime] f by auto
  have pk: "pdb_peek d' = pdb_peek d" using pdb_look_skel(2) [OF d(1) d'(2,4)] .
  then have "pdb_peek d' a = Some t" using a(3) by simp
  then obtain n where n: "pheap d' a = Some n" "p_tstat n = t"
    by (auto simp: pdb_peek_def)
  have v: "task_view (pdb_peek d') (nodes cs) N" using d(3) pk by simp
  have "distinct rs" using d(2) by (simp add: resid_ok_def)
  then have R: "view_res (set (remove1 a rs)) N = R - {?k}"
    using view_res_diff [OF d(3) a(1,3)] a(4) d(5) by simp
  have fin': "finite (dom (pheap d'))" using finite_heap [OF fin, of "{}" d'] pk by simp
  then have "task_abs d' M (R - {?k})"
    unfolding task_abs_def using d' v pk d(4) R by metis
  moreover have "\<exists>d''. wr d' (Some a) (\<lambda>n. n\<lparr>p_tstat := t'\<rparr>) = Some d'' \<and>
          task_abs d'' (M(?k \<mapsto> t')) (R - {?k})" if "tkey t' = ?k" for t'
    using store_abs [OF d'(2,3) v a(1) n(1) _ fin', of t'] that n(2) a(4) R pk d(4) by simp
  ultimately show ?thesis using d'(1) n by blast
qed

lemma gettask_miss:
  assumes "task_abs d M R"
    and "\<And>t. M (Task_Key pid isproc) = Some t \<Longrightarrow> \<not> btime_near (gen_btime (t_gen t)) btime"
  shows "\<exists>d'. pdb_gettask d pid isproc btime = Some (d', None) \<and> task_abs d' M R"
proof -
  let ?k = "Task_Key pid isproc"
  obtain cs rs N where d: "hash_ok d cs" "resid_ok d cs rs" "task_view (pdb_peek d) (nodes cs) N"
    "M = view_map (pdb_peek d) N" "R = view_res (set rs) N"
    and fin: "finite (dom (pheap d))"
    using assms(1) by (auto simp: task_abs_def)
  have "\<not> btime_near (n_btime (the (pheap d a))) btime" if "N ?k = Some a" for a
  proof -
    from that obtain t where "pdb_peek d a = Some t" "M ?k = Some t"
      using d(3,4) by (auto simp: view_map_def task_view_N)
    with assms(2) show ?thesis by (auto simp: pdb_peek_def)
  qed
  then have "List.find (at (pheap d) (task_matches pid isproc btime)) (cs (hashidx pid)) = None"
    using task_abs_find [OF d(1,3)] by (auto split: option.split)
  then obtain d' where d': "pdb_gettask d pid isproc btime = Some (d', None)" "hash_ok d' cs"
    "resid_ok d' cs rs" "skel (pheap d') = skel (pheap d)"
    using pdb_gettask_find [OF d(1,2), of pid isproc btime] by auto
  have pk: "pdb_peek d' = pdb_peek d" using pdb_look_skel(2) [OF d(1) d'(2,4)] .
  have "task_abs d' M R"
    unfolding task_abs_def using d' d(3-5) pk finite_heap [OF fin, of "{}" d'] by (metis finite.emptyI)
  with d'(1) show ?thesis by blast
qed

text \<open>A zero-initialised node that gets the statistics \<open>t\<close> and is added.\<close>

definition new_pinfo :: "tstat \<Rightarrow> pinfo" where
  "new_pinfo t = \<lparr>phnext = None, prnext = None, prprev = None, p_tstat = t\<rparr>"

lemma addtask_abs:
  assumes "task_abs d M R" and "pheap d a = None" and "tkey t \<notin> dom M"
  shows "\<exists>d'. pdb_addtask (d\<lparr>pheap := (pheap d)(a \<mapsto> new_pinfo t)\<rparr>) (gen_pid (t_gen t)) (Some a) = Some d' \<and>
    task_abs d' (M(tkey t \<mapsto> t)) R"
proof -
  let ?d = "d\<lparr>pheap := (pheap d)(a \<mapsto> new_pinfo t)\<rparr>"
  obtain cs rs N where d: "hash_ok d cs" "resid_ok d cs rs" "task_view (pdb_peek d) (nodes cs) N"
    "M = view_map (pdb_peek d) N" "R = view_res (set rs) N"
    and fin: "finite (dom (pheap d))"
    using assms(1) by (auto simp: task_abs_def)
  have a: "a \<notin> nodes cs" "a \<noteq> presidue"
    using assms(2) d(1) hash_ok_node [OF d(1), of a] by (auto simp: hash_ok_def)
  have h: "hash_ok ?d cs"
    using a(1) by (intro hash_ok_frame [OF d(1)]) auto
  have r: "resid_ok ?d cs rs"
    using resid_ok_alloc [OF d(2) assms(2)] .
  let ?cs = "cs(hashidx (gen_pid (t_gen t)) := a # cs (hashidx (gen_pid (t_gen t))))"
  obtain d' where d': "pdb_addtask ?d (gen_pid (t_gen t)) (Some a) = Some d'" "hash_ok d' ?cs"
    "resid_ok d' ?cs rs" "\<forall>b. map_option p_tstat (pheap d' b) = map_option p_tstat (pheap ?d b)"
    using pdb_addtask_ok [OF h r, of a "new_pinfo t"] a by (auto simp: new_pinfo_def)
  have pk: "pdb_peek d' = (pdb_peek d)(a \<mapsto> t)"
    using d'(4) by (auto simp: pdb_peek_def new_pinfo_def fun_eq_iff)
  have n: "nodes ?cs = insert a (nodes cs)"
    using hashidx_less [of "gen_pid (t_gen t)"] unfolding nodes_def
    by (auto split: if_splits intro!: bexI [of _ "hashidx (gen_pid (t_gen t))"])
  have "set rs \<subseteq> nodes cs" using d(2) by (simp add: resid_ok_def)
  moreover have "finite (dom (pheap d'))"
    using finite_heap [OF fin, of "{a}" d'] pk by simp
  ultimately have "task_abs d' (M(tkey t \<mapsto> t)) R"
    unfolding task_abs_def
    using d'(2,3) task_view_add [OF d(3) a(1), of t] assms(3) n pk d(4,5) by metis
  with d'(1) show ?thesis by blast
qed

lemma deltask_abs:
  assumes "task_abs d M R" and "M (Task_Key pid isproc) = Some t"
  shows "\<exists>d'. pdb_deltask d pid isproc = Some (d', True) \<and>
    task_abs d' (M(Task_Key pid isproc := None)) (R - {Task_Key pid isproc})"
proof -
  let ?k = "Task_Key pid isproc"
  obtain cs rs N where d: "hash_ok d cs" "resid_ok d cs rs" "task_view (pdb_peek d) (nodes cs) N"
    "M = view_map (pdb_peek d) N" "R = view_res (set rs) N"
    and fin: "finite (dom (pheap d))"
    using assms(1) by (auto simp: task_abs_def)
  obtain a where a: "a \<in> nodes cs" "N ?k = Some a" "pdb_peek d a = Some t" "tkey t = ?k"
    using assms(2) unfolding d(4) view_map_Some [OF d(3)] by blast
  then obtain n where n: "pheap d a = Some n" "n_pid n = pid" "n_isproc n = isproc"
    by (auto simp: pdb_peek_def tkey_def)
  obtain d' cs' where d': "pdb_deltask d pid isproc = Some (d', True)" "hash_ok d' cs'"
    "resid_ok d' cs' (remove1 a rs)" "\<forall>i<NPHASH. cs' i = filter (\<lambda>b. b \<noteq> a) (cs i)"
    "\<forall>b. b \<noteq> a \<longrightarrow> map_option p_tstat (pheap d' b) = map_option p_tstat (pheap d b)"
    using pdb_deltask_node [OF d(1,2) task_view_unique [OF d(1,3)] a(1) n(1)] n(2,3) by blast
  have nd: "nodes cs' = nodes cs - {a}" using d'(4) by (auto simp: nodes_def)
  have "distinct rs" using d(2) by (simp add: resid_ok_def)
  then have rs: "set (remove1 a rs) = set rs - {a}" by simp
  have k: "view_res {a} N = {?k}" using view_res_single [OF d(3) a(1,3)] a(4) by simp
  have "M |` (- {?k}) = M(?k := None)" by (auto simp: restrict_map_def)
  moreover have "\<And>b. b \<in> nodes cs - {a} \<Longrightarrow> pdb_peek d' b = pdb_peek d b"
    using d'(5) by (auto simp: pdb_peek_def)
  note drop = task_view_drop [OF d(3) this]
  moreover have "finite (dom (pheap d'))"
    using finite_heap [OF fin, of "{a}" d'] d'(5) by (simp add: pdb_peek_def)
  ultimately have "task_abs d' (M(?k := None)) (R - {?k})"
    unfolding task_abs_def using d'(2,3) drop(1,2) drop(3) [of "set rs"] rs nd k d(4,5) by metis
  with d'(1) show ?thesis by blast
qed

lemma srchresidue_abs:
  assumes "task_abs d M R"
  shows "pdb_srchresidue d t = Some None \<or>
    (\<exists>a n. pdb_srchresidue d t = Some (Some a) \<and> pheap d a = Some n \<and>
       tkey (p_tstat n) \<in> R \<and> M (tkey (p_tstat n)) = Some (p_tstat n))"
proof -
  obtain cs rs N where d: "hash_ok d cs" "resid_ok d cs rs" "task_view (pdb_peek d) (nodes cs) N"
    "M = view_map (pdb_peek d) N" "R = view_res (set rs) N"
    and fin: "finite (dom (pheap d))"
    using assms by (auto simp: task_abs_def)
  have rs: "set rs \<subseteq> nodes cs" using d(2) by (simp add: resid_ok_def)
  have "\<exists>n. pheap d a = Some n \<and> tkey (p_tstat n) \<in> R \<and> M (tkey (p_tstat n)) = Some (p_tstat n)"
    if "a \<in> set rs" for a
  proof -
    have a: "a \<in> nodes cs" using that rs by blast
    then obtain n where n: "pheap d a = Some n" using hash_ok_node [OF d(1)] by blast
    then have "pdb_peek d a = Some (p_tstat n)" by (simp add: pdb_peek_def)
    moreover from task_view_key [OF d(3) a this] have "N (tkey (p_tstat n)) = Some a" .
    ultimately show ?thesis using that n d(4,5) by (auto simp: view_map_def view_res_def)
  qed
  then show ?thesis
    unfolding pdb_srchresidue_find [OF d(2)]
    by (cases "List.find (at (pheap d) (srch_exact t)) rs"; cases "List.find (at (pheap d) (srch_near t)) rs")
      (auto dest!: find_SomeD)
qed

lemma cleanresidue_abs:
  assumes "task_abs d M R"
  shows "\<exists>d'. pdb_cleanresidue d = Some d' \<and> task_abs d' (M |` (- R)) {}"
proof -
  obtain cs rs N where d: "hash_ok d cs" "resid_ok d cs rs" "task_view (pdb_peek d) (nodes cs) N"
    "M = view_map (pdb_peek d) N" "R = view_res (set rs) N"
    and fin: "finite (dom (pheap d))"
    using assms by (auto simp: task_abs_def)
  obtain d' cs' where d': "pdb_cleanresidue d = Some d'" "hash_ok d' cs'" "resid_ok d' cs' []"
    "nodes cs' = nodes cs - set rs" "\<forall>b. b \<notin> set rs \<longrightarrow> pdb_peek d' b = pdb_peek d b"
    using pdb_cleanresidue_exact [OF d(1,2) task_view_unique [OF d(1,3)]] by blast
  have "\<And>b. b \<in> nodes cs - set rs \<Longrightarrow> pdb_peek d' b = pdb_peek d b" using d'(5) by blast
  note drop = task_view_drop [OF d(3) this]
  have "view_res (set []) (cut_keys (set rs) N) = {}" by (simp add: view_res_def)
  moreover have "finite (dom (pheap d'))"
    using finite_heap [OF fin, of "set rs" d'] d'(5) by simp
  ultimately have "task_abs d' (M |` (- R)) {}"
    unfolding task_abs_def using d'(2-4) drop(1,2) d(4,5) by metis
  with d'(1) show ?thesis by blast
qed

end
