(* ===== verification/Netatop.thy ===== *)
theory Netatop
  imports Task_Types
begin

text \<open>
  The interface to the netatop kernel module, \<^verbatim>\<open>src/Qt/FakeAtop/netatopif.c\<close>: the counters of a
  running task, and the store of exited tasks that is read from the exit file, hashed by pid or
  by start time and searched by \<open>deviattask\<close>.  The answers of the operating system (the results
  of \<open>getsockopt\<close>, \<open>errno\<close>, \<open>droprootprivs\<close>) are arguments, and so is zlib's \<open>uncompress\<close>
  followed by the reinterpretation of the bytes as a \<open>struct netpertask\<close>.
\<close>

section \<open>Data\<close>

text \<open>\<open>struct taskcount\<close> and \<open>struct netpertask\<close> of \<^verbatim>\<open>netatop.h\<close>.\<close>

record taskcount =
  tcpsndpacks :: u64
  tcpsndbytes :: u64
  tcprcvpacks :: u64
  tcprcvbytes :: u64
  udpsndpacks :: u64
  udpsndbytes :: u64
  udprcvpacks :: u64
  udprcvbytes :: u64

record netpertask =
  npt_id :: i32
  npt_btime :: u64
  npt_command :: chars
  npt_tc :: taskcount

definition taskcount0 :: taskcount where
  "taskcount0 = \<lparr>tcpsndpacks = 0, tcpsndbytes = 0, tcprcvpacks = 0, tcprcvbytes = 0,
     udpsndpacks = 0, udpsndbytes = 0, udprcvpacks = 0, udprcvbytes = 0\<rparr>"

definition netpertask0 :: netpertask where
  "netpertask0 = \<lparr>npt_id = 0, npt_btime = 0, npt_command = replicate 16 NUL, npt_tc = taskcount0\<rparr>"

text \<open>\<open>struct exitstore\<close>; \<open>next\<close> points into the array \<open>exitall\<close>.\<close>

record exitstore =
  es_next :: "nat option"
  es_isused :: byte
  es_npt :: netpertask

definition exitstore0 :: exitstore where
  "exitstore0 = \<lparr>es_next = None, es_isused = 0, es_npt = netpertask0\<rparr>"

definition NHASH :: nat where
  "NHASH = 1024"

definition HASHCALC :: "'a::len word \<Rightarrow> nat" where
  "HASHCALC x = unat (x AND 1023)"

text \<open>The bits of \<open>supportflags\<close> in \<^verbatim>\<open>atop.h\<close>.\<close>

definition NETATOP :: i32 where "NETATOP = 0x10"
definition NETATOPD :: i32 where "NETATOPD = 0x20"
definition IOSTAT :: i32 where "IOSTAT = 0x4"
definition DOCKSTAT :: i32 where "DOCKSTAT = 0x40"

text \<open>
  The static variables of the file and the global \<open>supportflags\<close>; \<open>exitfile\<close> is what is still to
  be read behind the seek pointer of \<open>netexitfd\<close>, and \<open>esbucket\<close> the array of \<open>NHASH\<close> pointers.
\<close>

record netatop =
  supportflags :: i32
  netsock :: i32
  lastseq :: u64
  exitfile :: "byte list"
  exitall :: "exitstore list"
  exitnum :: i32
  esbucket :: "nat \<Rightarrow> nat option"
  exithash :: char

text \<open>\<open>struct naheader\<close> of \<^verbatim>\<open>netatopd.h\<close>, mapped into memory.\<close>

record naheader =
  na_magic :: u32
  na_curseq :: u32
  na_hdrlen :: u16
  na_ntplen :: u16
  na_mypid :: i32

text \<open>\<open>errno\<close> values of Linux.\<close>

definition ENOPROTOOPT :: i32 where "ENOPROTOOPT = 92"
definition EPERM :: i32 where "EPERM = 1"

section \<open>Counters of a running task\<close>

definition tasknet :: "taskcount \<Rightarrow> net \<Rightarrow> net" where
  "tasknet tc n = n\<lparr>
     net_tcpsnd := tcpsndpacks tc, net_tcprcv := tcprcvpacks tc,
     net_tcpssz := tcpsndbytes tc, net_tcprsz := tcprcvbytes tc,
     net_udpsnd := udpsndpacks tc, net_udprcv := udprcvpacks tc,
     net_udpssz := udpsndbytes tc, net_udprsz := udprcvbytes tc\<rparr>"

text \<open>What the code does when a \<open>getsockopt\<close> failed for good.\<close>

definition sock_lost :: "i32 \<Rightarrow> netatop \<Rightarrow> netatop" where
  "sock_lost errno s =
     (if errno = ENOPROTOOPT \<or> errno = EPERM
      then s\<lparr>supportflags := supportflags s AND NOT NETATOP AND NOT NETATOPD, netsock := -1\<rparr>
      else s)"

text \<open>
  \<open>netatop_gettask\<close>: \<open>answer\<close> is what \<open>getsockopt\<close> delivers, or the \<open>errno\<close> it fails with; the
  result \<open>Inl 42\<close> is the exit of \<open>cleanstop(42)\<close>.
\<close>

definition netatop_gettask ::
    "(i32 + netpertask) \<Rightarrow> bool \<Rightarrow> netatop \<Rightarrow> tstat \<Rightarrow> int + netatop \<times> tstat" where
  "netatop_gettask answer droprootprivs s tp =
     (if supportflags s AND NETATOP = 0 then Inr (s, tp\<lparr>t_net := net0\<rparr>)
      else case answer of
        Inl errno \<Rightarrow>
          (if \<not> droprootprivs then Inl 42 else Inr (sock_lost errno s, tp\<lparr>t_net := net0\<rparr>))
      | Inr npt \<Rightarrow>
          (if \<not> droprootprivs then Inl 42
           else Inr (s, tp\<lparr>t_net := tasknet (npt_tc npt) (t_net tp)\<rparr>)))"

section \<open>Reading the exit file\<close>

text \<open>
  The \<open>while\<close> loop of \<open>netatop_exitstore\<close>.  \<open>read\<close> delivers the bytes asked for, fewer only at
  the end of the file; an error, whose -1 the unsigned \<open>sz\<close> would let pass the test of the loop, is left out.  \<open>unz old bytes\<close> is \<open>*esp\<close> after \<open>uncompress\<close> was applied to it.  \<open>None\<close> is
  a write outside of \<open>readbuf\<close> or of \<open>exitall\<close>.
\<close>

function exit_read ::
    "(netpertask \<Rightarrow> byte list \<Rightarrow> netpertask) \<Rightarrow> nat \<Rightarrow> nat \<Rightarrow> byte list \<Rightarrow> byte \<Rightarrow> nat \<Rightarrow>
     exitstore list \<Rightarrow> (byte list \<times> nat \<times> exitstore list) option" where
  "exit_read unz ntplen nexitnet file nextsize nr es =
     (let readbuf = take (unat nextsize + 1) file;
          rest = drop (unat nextsize + 1) file;
          sz = length readbuf
      in
      if sz < unat nextsize then Some (rest, nr, es)
      else if ntplen + 100 < sz \<or> length es \<le> nr then None
      else
        let es = es[nr := (es ! nr)\<lparr>es_npt := unz (es_npt (es ! nr)) (take (unat nextsize) readbuf)\<rparr>];
            nr = nr + 1
        in
        if nr = nexitnet then
          Some (if unat nextsize < sz then readbuf ! unat nextsize # rest else rest, nr, es)
        else if unat nextsize < sz then
          exit_read unz ntplen nexitnet rest (readbuf ! unat nextsize) nr es
        else Some (rest, nr, es))"
  by pat_completeness auto

termination
  by (relation "measure (\<lambda>(_, _, _, file, _). length file)") auto

text \<open>
  \<open>netatop_exitstore\<close>: \<open>gc\<close> and \<open>drained\<close> are the answers of the two \<open>getsockopt\<close> calls (the
  \<open>errno\<close> when one fails), \<open>malloc\<close> tells whether the store can be allocated.  The result is an
  exit code, or the new state and the number of records.
\<close>

definition netatop_exitstore ::
    "(netpertask \<Rightarrow> byte list \<Rightarrow> netpertask) \<Rightarrow> i32 option \<Rightarrow> i32 option \<Rightarrow> bool \<Rightarrow> bool \<Rightarrow>
     naheader \<Rightarrow> netatop \<Rightarrow> (int + netatop \<times> u32) option" where
  "netatop_exitstore unz gc drained droprootprivs malloc nahp s =
     (case gc of
        Some errno \<Rightarrow> Some (if \<not> droprootprivs then Inl 42 else Inr (sock_lost errno s, 0))
      | None \<Rightarrow>
     (case drained of
        Some errno \<Rightarrow> Some (if \<not> droprootprivs then Inl 42 else Inr (sock_lost errno s, 0))
      | None \<Rightarrow>
        if \<not> droprootprivs then Some (Inl 42)
        else
          let nexitnet = (ucast (ucast (na_curseq nahp) - lastseq s) :: u32);
              s = s\<lparr>lastseq := ucast (na_curseq nahp)\<rparr>
          in
          if \<not> malloc then Some (Inl 13)
          else
            let s = s\<lparr>exitall := replicate (unat nexitnet) exitstore0\<rparr> in
            case exitfile s of
              [] \<Rightarrow> Some (Inr (s, 0))
            | nextsize # file \<Rightarrow>
                (case exit_read unz (unat (na_ntplen nahp)) (unat nexitnet) file nextsize 0 (exitall s) of
                   None \<Rightarrow> None
                 | Some (file, nr, es) \<Rightarrow>
                     Some (Inr (s\<lparr>exitfile := file, exitall := es, exitnum := of_nat nr\<rparr>, of_nat nr)))))"

section \<open>The hash of exited tasks\<close>

definition netatop_exiterase :: "netatop \<Rightarrow> netatop" where
  "netatop_exiterase s = s\<lparr>exitall := [], esbucket := (\<lambda>_. None), exitnum := 0\<rparr>"

definition exit_hash :: "char \<Rightarrow> netpertask \<Rightarrow> nat" where
  "exit_hash hashtype npt = (if hashtype = CHR ''p'' then HASHCALC (npt_id npt) else HASHCALC (npt_btime npt))"

text \<open>The loop of \<open>netatop_exithash\<close>, over the indices still to come.\<close>

fun exithash_loop :: "char \<Rightarrow> nat list \<Rightarrow> netatop \<Rightarrow> netatop option" where
  "exithash_loop hashtype [] s = Some s"
| "exithash_loop hashtype (i # is) s =
     (if i < length (exitall s) then
        let h = exit_hash hashtype (es_npt (exitall s ! i)) in
        exithash_loop hashtype is
          (s\<lparr>exitall := (exitall s)[i := (exitall s ! i)\<lparr>es_next := esbucket s h\<rparr>],
             esbucket := (esbucket s)(h := Some i)\<rparr>)
      else None)"

definition netatop_exithash :: "char \<Rightarrow> netatop \<Rightarrow> netatop option" where
  "netatop_exithash hashtype s =
     map_option (\<lambda>s. s\<lparr>exithash := hashtype\<rparr>)
       (exithash_loop hashtype [0..<nat (sint (exitnum s))] s)"

definition fill_networkcnt :: "tstat \<Rightarrow> tstat \<Rightarrow> exitstore \<Rightarrow> tstat" where
  "fill_networkcnt dev pre esp = dev\<lparr>t_net := (t_net dev)\<lparr>
     net_tcpsnd := tcpsndpacks (npt_tc (es_npt esp)) - net_tcpsnd (t_net pre),
     net_tcpssz := tcpsndbytes (npt_tc (es_npt esp)) - net_tcpssz (t_net pre),
     net_tcprcv := tcprcvpacks (npt_tc (es_npt esp)) - net_tcprcv (t_net pre),
     net_tcprsz := tcprcvbytes (npt_tc (es_npt esp)) - net_tcprsz (t_net pre),
     net_udpsnd := udpsndpacks (npt_tc (es_npt esp)) - net_udpsnd (t_net pre),
     net_udpssz := udpsndbytes (npt_tc (es_npt esp)) - net_udpssz (t_net pre),
     net_udprcv := udprcvpacks (npt_tc (es_npt esp)) - net_udprcv (t_net pre),
     net_udprsz := udprcvbytes (npt_tc (es_npt esp)) - net_udprsz (t_net pre)\<rparr>\<rparr>"

text \<open>The additional checks of a search by start time; both operands of \<open><\<close> are unsigned.\<close>

definition counts_below :: "taskcount \<Rightarrow> net \<Rightarrow> bool" where
  "counts_below tc n \<longleftrightarrow>
     tcpsndpacks tc < net_tcpsnd n \<or> tcpsndbytes tc < net_tcpssz n \<or>
     tcprcvpacks tc < net_tcprcv n \<or> tcprcvbytes tc < net_tcprsz n \<or>
     udpsndpacks tc < net_udpsnd n \<or> udpsndbytes tc < net_udpssz n \<or>
     udprcvpacks tc < net_udprcv n \<or> udprcvbytes tc < net_udprsz n"

text \<open>
  The loop of \<open>netatop_exitfind\<close>.  The \<open>break\<close> after a hit leaves the \<open>switch\<close> only, so the walk
  goes on to the end of the chain.
\<close>

partial_function (option) exitfind_loop ::
    "u64 \<Rightarrow> tstat \<Rightarrow> netatop \<Rightarrow> tstat \<Rightarrow> nat option \<Rightarrow> (netatop \<times> tstat) option" where
  "exitfind_loop key pre s dev esp =
     (case esp of
        None \<Rightarrow> Some (s, dev)
      | Some i \<Rightarrow> do {
          e \<leftarrow> aget (exitall s) i;
          if exithash s = CHR ''p'' then
            exitfind_loop key pre s
              (if key \<noteq> scast (npt_id (es_npt e)) then dev else fill_networkcnt dev pre e) (es_next e)
          else if exithash s = CHR ''b'' then
            if es_isused e \<noteq> 0 \<or> key \<noteq> npt_btime (es_npt e)
               \<or> \<not> streq (npt_command (es_npt e)) (gen_name (t_gen pre))
               \<or> counts_below (npt_tc (es_npt e)) (t_net pre)
            then exitfind_loop key pre s dev (es_next e)
            else exitfind_loop key pre (s\<lparr>exitall := (exitall s)[i := e\<lparr>es_isused := 1\<rparr>]\<rparr>)
                   (fill_networkcnt dev pre e) (es_next e)
          else exitfind_loop key pre s dev (es_next e)
        })"

definition netatop_exitfind :: "u64 \<Rightarrow> tstat \<Rightarrow> tstat \<Rightarrow> netatop \<Rightarrow> (netatop \<times> tstat) option" where
  "netatop_exitfind key dev pre s =
     (if esbucket s (HASHCALC key) = None then Some (s, dev)
      else exitfind_loop key pre s dev (esbucket s (HASHCALC key)))"

section \<open>Records in the exit file\<close>

text \<open>A file of length-prefixed records.\<close>

definition frame :: "byte list \<Rightarrow> byte list" where
  "frame r = of_nat (length r) # r"

definition frames :: "byte list list \<Rightarrow> byte list" where
  "frames rs = concat (map frame rs)"

lemma frames_simps [simp]: "frames [] = []" "frames (r # rs) = of_nat (length r) # r @ frames rs"
  by (simp_all add: frames_def frame_def)

lemma unat_length_byte: "length r < 256 \<Longrightarrow> unat (of_nat (length r) :: byte) = length r"
  by (simp add: unat_of_nat)

definition stored :: "(netpertask \<Rightarrow> byte list \<Rightarrow> netpertask) \<Rightarrow> byte list list \<Rightarrow> exitstore list" where
  "stored unz rs = map (\<lambda>r. exitstore0\<lparr>es_npt := unz netpertask0 r\<rparr>) rs"

declare exit_read.simps [simp del]

lemma exit_read_step:
  assumes "length r < 256" and "length r < ntplen + 100" and "nr < length es"
  shows "exit_read unz ntplen n (r @ b # file) (of_nat (length r)) nr es =
    (let es' = es[nr := (es ! nr)\<lparr>es_npt := unz (es_npt (es ! nr)) r\<rparr>] in
     if nr + 1 = n then Some (b # file, nr + 1, es')
     else exit_read unz ntplen n file b (nr + 1) es')"
  using assms by (subst exit_read.simps) (simp add: unat_length_byte Let_def)

lemma exit_read_last:
  assumes "length r < 256" and "length r \<le> ntplen + 100" and "nr < length es"
  shows "exit_read unz ntplen n r (of_nat (length r)) nr es =
    Some ([], nr + 1, es[nr := (es ! nr)\<lparr>es_npt := unz (es_npt (es ! nr)) r\<rparr>])"
  using assms by (subst exit_read.simps) (simp add: unat_length_byte Let_def)

lemma exit_read_frames:
  assumes "\<forall>q\<in>set (r # rs). length q < 256 \<and> length q < ntplen + 100"
    and "n = length done + length (r # rs)"
  shows "exit_read unz ntplen n (r @ frames rs @ rest) (of_nat (length r)) (length done)
      (done @ replicate (length (r # rs)) exitstore0) =
    Some (rest, n, done @ stored unz (r # rs))"
  using assms
proof (induction rs arbitrary: r "done")
  case Nil
  show ?case
  proof (cases rest)
    case Nil
    with Nil.prems show ?thesis
      using exit_read_last [of r ntplen "length done" "done @ [exitstore0]"]
      by (simp add: stored_def exitstore0_def)
  next
    case (Cons b bs)
    with Nil.prems show ?thesis
      using exit_read_step [of r ntplen "length done" "done @ [exitstore0]"]
      by (simp add: stored_def exitstore0_def Let_def)
  qed
next
  case (Cons q qs)
  let ?done = "done @ [exitstore0\<lparr>es_npt := unz netpertask0 r\<rparr>]"
  have "exit_read unz ntplen n (r @ frames (q # qs) @ rest) (of_nat (length r)) (length done)
      (done @ replicate (length (r # q # qs)) exitstore0) =
    exit_read unz ntplen n (q @ frames qs @ rest) (of_nat (length q)) (length ?done)
      (?done @ replicate (length (q # qs)) exitstore0)"
    using exit_read_step [of r ntplen "length done" "done @ replicate (length (r # q # qs)) exitstore0"]
      Cons.prems by (simp add: Let_def list_update_append nth_append exitstore0_def)
  also have "\<dots> = Some (rest, n, ?done @ stored unz (q # qs))"
    using Cons.prems by (intro Cons.IH) auto
  finally show ?case by (simp add: stored_def)
qed

section \<open>The hash chains\<close>

fun es_chain :: "exitstore list \<Rightarrow> nat option \<Rightarrow> nat list \<Rightarrow> bool" where
  "es_chain es p [] \<longleftrightarrow> p = None"
| "es_chain es p (i # is) \<longleftrightarrow> p = Some i \<and> i < length es \<and> es_chain es (es_next (es ! i)) is"

lemma es_chain_update [simp]:
  "i \<notin> set is \<Longrightarrow> es_chain (es[i := e]) p is = es_chain es p is"
  by (induction "is" arbitrary: p) auto

lemma es_chain_next:
  "length es' = length es \<Longrightarrow> (\<And>i. i < length es \<Longrightarrow> es_next (es' ! i) = es_next (es ! i)) \<Longrightarrow>
   es_chain es' p is = es_chain es p is"
  by (induction "is" arbitrary: p) auto

lemma es_chain_bound: "es_chain es p is \<Longrightarrow> i \<in> set is \<Longrightarrow> i < length es"
  by (induction "is" arbitrary: p) auto

text \<open>The exited tasks of one bucket, in the order of the walk.\<close>

definition bucket :: "char \<Rightarrow> exitstore list \<Rightarrow> nat \<Rightarrow> nat \<Rightarrow> nat list" where
  "bucket t es n h = rev (filter (\<lambda>i. exit_hash t (es_npt (es ! i)) = h) [0..<n])"

definition hashed :: "netatop \<Rightarrow> char \<Rightarrow> nat \<Rightarrow> bool" where
  "hashed s t n \<longleftrightarrow> n \<le> length (exitall s) \<and>
     (\<forall>h. es_chain (exitall s) (esbucket s h) (bucket t (exitall s) n h))"

lemma bucket_Suc:
  "bucket t es (Suc n) h = (if exit_hash t (es_npt (es ! n)) = h then [n] else []) @ bucket t es n h"
  by (simp add: bucket_def)

lemma bucket_less: "i \<in> set (bucket t es n h) \<Longrightarrow> i < n"
  by (auto simp: bucket_def)

lemma bucket_npt:
  "length es' = length es \<Longrightarrow> (\<And>i. i < length es \<Longrightarrow> es_npt (es' ! i) = es_npt (es ! i)) \<Longrightarrow>
   n \<le> length es \<Longrightarrow> bucket t es' n h = bucket t es n h"
  unfolding bucket_def by (intro arg_cong [where f = rev] filter_cong) auto

lemma exithash_loop_append:
  "exithash_loop t (is @ js) s = Option.bind (exithash_loop t is s) (exithash_loop t js)"
  by (induction t "is" s rule: exithash_loop.induct) (auto simp: Let_def)

text \<open>Hashing changes nothing but the chains.\<close>

definition same_store :: "netatop \<Rightarrow> netatop \<Rightarrow> bool" where
  "same_store s s' \<longleftrightarrow> map es_npt (exitall s') = map es_npt (exitall s) \<and>
     map es_isused (exitall s') = map es_isused (exitall s) \<and>
     exitnum s' = exitnum s \<and> exitfile s' = exitfile s \<and> lastseq s' = lastseq s \<and>
     supportflags s' = supportflags s \<and> netsock s' = netsock s"

lemma same_store_length: "same_store s s' \<Longrightarrow> length (exitall s') = length (exitall s)"
  unfolding same_store_def by (metis length_map)

lemma map_update_same:
  "i < length es \<Longrightarrow> f e = f (es ! i) \<Longrightarrow> map f (es[i := e]) = map f es"
  by (simp add: map_update list_update_same_conv)

lemma exithash_loop_hashed:
  assumes "esbucket s = (\<lambda>_. None)" and "n \<le> length (exitall s)"
  shows "\<exists>s'. exithash_loop t [0..<n] s = Some s' \<and> hashed s' t n \<and> same_store s s'"
  using assms(2)
proof (induction n)
  case 0
  then show ?case using assms(1) by (simp add: hashed_def bucket_def same_store_def)
next
  case (Suc n)
  then obtain s1 where s1: "exithash_loop t [0..<n] s = Some s1" "hashed s1 t n" "same_store s s1"
    by auto
  have n: "n < length (exitall s1)" using Suc.prems same_store_length [OF s1(3)] by simp
  let ?h = "exit_hash t (es_npt (exitall s1 ! n))"
  let ?es = "(exitall s1)[n := (exitall s1 ! n)\<lparr>es_next := esbucket s1 ?h\<rparr>]"
  let ?s = "s1\<lparr>exitall := ?es, esbucket := (esbucket s1)(?h := Some n)\<rparr>"
  have npt: "es_npt (?es ! i) = es_npt (exitall s1 ! i)" if "i < length (exitall s1)" for i
    using that by (cases "i = n") auto
  have "n \<notin> set (bucket t (exitall s1) n h)" for h using bucket_less by blast
  then have "es_chain ?es (esbucket ?s h) (bucket t ?es (Suc n) h)" for h
    using s1(2) n npt bucket_npt [of ?es "exitall s1" n t h]
    by (auto simp: bucket_Suc hashed_def)
  then have "hashed ?s t (Suc n)" using n by (simp add: hashed_def)
  moreover have "same_store s ?s"
    using s1(3) n by (simp add: same_store_def map_update_same)
  moreover have "exithash_loop t [0..<Suc n] s = Some ?s"
    using s1(1) n by (simp add: exithash_loop_append Let_def)
  ultimately show ?case by blast
qed

lemma fill_fill [simp]: "fill_networkcnt (fill_networkcnt dev pre e) pre e' = fill_networkcnt dev pre e'"
  by (simp add: fill_networkcnt_def)

text \<open>Walking a chain in pid mode: the last hit of the chain stays.\<close>

definition id_hit :: "u64 \<Rightarrow> exitstore list \<Rightarrow> nat \<Rightarrow> bool" where
  "id_hit key es i \<longleftrightarrow> key = scast (npt_id (es_npt (es ! i)))"

lemma find_in_set: "List.find P xs = Some x \<Longrightarrow> x \<in> set xs"
  by (auto simp: find_Some_iff)

lemma scast_i32_inj: "(scast (a :: i32) :: u64) = scast b \<longleftrightarrow> a = b"
proof
  assume "(scast a :: u64) = scast b"
  then have eq: "bit (scast a :: u64) n = bit (scast b :: u64) n" for n by simp
  have "bit a n = bit b n" if "n < 32" for n
  proof -
    have "min 31 n = n" "n < 64" using that by auto
    then show ?thesis using eq [of n] by (simp add: bit_simps)
  qed
  then show "a = b" by (intro bit_word_eqI) simp
qed simp

lemma find_append:
  "List.find P (xs @ ys) = (case List.find P xs of None \<Rightarrow> List.find P ys | Some x \<Rightarrow> Some x)"
  by (induction xs) auto

lemma exitfind_loop_pid:
  assumes "exithash s = CHR ''p''" and "es_chain (exitall s) p is"
  shows "exitfind_loop key pre s dev p =
    Some (s, case List.find (id_hit key (exitall s)) (rev is) of
               None \<Rightarrow> dev | Some i \<Rightarrow> fill_networkcnt dev pre (exitall s ! i))"
  using assms(2)
proof (induction "is" arbitrary: p dev)
  case Nil
  then show ?case by (simp add: exitfind_loop.simps)
next
  case (Cons i "is")
  then have p: "p = Some i" "i < length (exitall s)" "es_chain (exitall s) (es_next (exitall s ! i)) is"
    by auto
  show ?case
    using assms(1) p(1,2) Cons.IH [OF p(3)]
    by (subst exitfind_loop.simps) (auto simp: find_append id_hit_def [of key _ i] split: option.split)
qed

lemma mask_1023: "(1023 :: 'a::len word) = mask 10"
  by (simp add: mask_eq_exp_minus_1)

lemma HASHCALC_scast: "HASHCALC (scast (w :: i32) :: u64) = HASHCALC w"
proof -
  have "(scast w :: u64) AND 1023 = ucast (w AND 1023)"
    unfolding mask_1023 by (rule bit_word_eqI) (auto simp: bit_simps min_def)
  moreover have "unat (w AND 1023) < 2 ^ 64"
    by (rule less_trans [OF unsigned_less]) simp
  ultimately show ?thesis
    by (simp add: HASHCALC_def unsigned_ucast_eq take_bit_nat_eq_self)
qed

lemma find_filter: "(\<And>x. P x \<Longrightarrow> Q x) \<Longrightarrow> List.find P (filter Q xs) = List.find P xs"
  by (induction xs) auto

lemma exitfind_pid:
  assumes "hashed s (CHR ''p'') n" and "exithash s = CHR ''p''"
  shows "netatop_exitfind key dev pre s =
    Some (s, case List.find (id_hit key (exitall s)) [0..<n] of
               None \<Rightarrow> dev | Some i \<Rightarrow> fill_networkcnt dev pre (exitall s ! i))"
proof -
  let ?is = "bucket (CHR ''p'') (exitall s) n (HASHCALC key)"
  have c: "es_chain (exitall s) (esbucket s (HASHCALC key)) ?is"
    using assms(1) by (simp add: hashed_def)
  have "List.find (id_hit key (exitall s)) (rev ?is) = List.find (id_hit key (exitall s)) [0..<n]"
    unfolding bucket_def
    by (simp only: rev_rev_ident, rule find_filter)
      (simp add: id_hit_def exit_hash_def HASHCALC_scast)
  moreover from c have "esbucket s (HASHCALC key) = None \<Longrightarrow> ?is = []"
    by (cases ?is) auto
  ultimately show ?thesis
    using exitfind_loop_pid [OF assms(2) c]
    by (auto simp: netatop_exitfind_def split: option.split)
qed

text \<open>Walking a chain in start-time mode: every record that fits is used up.\<close>

definition btime_hit :: "u64 \<Rightarrow> tstat \<Rightarrow> exitstore \<Rightarrow> bool" where
  "btime_hit key pre e \<longleftrightarrow> es_isused e = 0 \<and> key = npt_btime (es_npt e) \<and>
     streq (npt_command (es_npt e)) (gen_name (t_gen pre)) \<and>
     \<not> counts_below (npt_tc (es_npt e)) (t_net pre)"

definition use_up :: "u64 \<Rightarrow> tstat \<Rightarrow> nat set \<Rightarrow> exitstore list \<Rightarrow> exitstore list" where
  "use_up key pre I es =
     map (\<lambda>i. if i \<in> I \<and> btime_hit key pre (es ! i) then (es ! i)\<lparr>es_isused := 1\<rparr> else es ! i)
       [0..<length es]"

lemma length_use_up [simp]: "length (use_up key pre I es) = length es"
  by (simp add: use_up_def)

lemma nth_use_up:
  "i < length es \<Longrightarrow> use_up key pre I es ! i =
     (if i \<in> I \<and> btime_hit key pre (es ! i) then (es ! i)\<lparr>es_isused := 1\<rparr> else es ! i)"
  by (simp add: use_up_def)

lemma use_up_empty [simp]: "use_up key pre {} es = es"
  by (simp add: use_up_def map_nth)

lemma use_up_miss:
  "\<not> btime_hit key pre (es ! i) \<Longrightarrow> use_up key pre (insert i I) es = use_up key pre I es"
  by (auto simp: use_up_def)

lemma use_up_hit:
  "btime_hit key pre (es ! i) \<Longrightarrow> i \<notin> I \<Longrightarrow> i < length es \<Longrightarrow>
   use_up key pre (insert i I) es = use_up key pre I (es[i := (es ! i)\<lparr>es_isused := 1\<rparr>])"
  by (rule nth_equalityI) (auto simp: nth_use_up nth_list_update)

lemma exitfind_loop_btime:
  assumes "exithash s = CHR ''b''" and "es_chain (exitall s) p is" and "distinct is"
  shows "exitfind_loop key pre s dev p =
    Some (s\<lparr>exitall := use_up key pre (set is) (exitall s)\<rparr>,
          case List.find (\<lambda>i. btime_hit key pre (exitall s ! i)) (rev is) of
            None \<Rightarrow> dev | Some i \<Rightarrow> fill_networkcnt dev pre (exitall s ! i))"
  using assms
proof (induction "is" arbitrary: p s dev)
  case Nil
  then show ?case by (simp add: exitfind_loop.simps)
next
  case (Cons i "is")
  then have p: "p = Some i" "i < length (exitall s)" "i \<notin> set is" "distinct is"
    "es_chain (exitall s) (es_next (exitall s ! i)) is"
    by auto
  show ?case
  proof (cases "btime_hit key pre (exitall s ! i)")
    case False
    then show ?thesis
      using Cons.prems(1) p(1,2) Cons.IH [OF Cons.prems(1) p(5,4)]
      by (subst exitfind_loop.simps)
        (auto simp: find_append btime_hit_def [of key pre "exitall s ! i"] use_up_miss split: option.split)
  next
    case True
    let ?s = "s\<lparr>exitall := (exitall s)[i := (exitall s ! i)\<lparr>es_isused := 1\<rparr>]\<rparr>"
    have "List.find (\<lambda>j. btime_hit key pre (exitall ?s ! j)) (rev is) =
        List.find (\<lambda>j. btime_hit key pre (exitall s ! j)) (rev is)"
      using p(3) by (intro find_cong) (auto, (metis nth_list_update_neq)+)
    moreover have "exitall ?s ! j = exitall s ! j" if "List.find P (rev is) = Some j" for P j
      using find_in_set [OF that] p(3) by (cases "j = i") auto
    moreover have "exitfind_loop key pre s dev p =
        exitfind_loop key pre ?s (fill_networkcnt dev pre (exitall s ! i)) (es_next (exitall s ! i))"
      using True Cons.prems(1) p(1,2)
      by (subst exitfind_loop.simps) (simp add: btime_hit_def)
    ultimately show ?thesis
      using True p Cons.prems(1) Cons.IH [of ?s "es_next (exitall s ! i)" "fill_networkcnt dev pre (exitall s ! i)"]
      by (auto simp: find_append use_up_hit split: option.split)
  qed
qed

lemma exitfind_btime:
  assumes "hashed s (CHR ''b'') n" and "exithash s = CHR ''b''"
  shows "netatop_exitfind key dev pre s =
    Some (s\<lparr>exitall := use_up key pre {0..<n} (exitall s)\<rparr>,
          case List.find (\<lambda>i. btime_hit key pre (exitall s ! i)) [0..<n] of
            None \<Rightarrow> dev | Some i \<Rightarrow> fill_networkcnt dev pre (exitall s ! i))"
proof -
  let ?is = "bucket (CHR ''b'') (exitall s) n (HASHCALC key)"
  have c: "es_chain (exitall s) (esbucket s (HASHCALC key)) ?is" "distinct ?is" "n \<le> length (exitall s)"
    using assms(1) by (auto simp: hashed_def bucket_def)
  have "List.find (\<lambda>i. btime_hit key pre (exitall s ! i)) (rev ?is) =
      List.find (\<lambda>i. btime_hit key pre (exitall s ! i)) [0..<n]"
    unfolding bucket_def
    by (simp only: rev_rev_ident, rule find_filter) (simp add: btime_hit_def exit_hash_def)
  moreover have "use_up key pre (set ?is) (exitall s) = use_up key pre {0..<n} (exitall s)"
    by (auto simp: use_up_def bucket_def btime_hit_def exit_hash_def)
  moreover from c have "esbucket s (HASHCALC key) = None \<Longrightarrow> ?is = []"
    by (cases ?is) auto
  ultimately show ?thesis
    using exitfind_loop_btime [OF assms(2) c(1,2)]
    by (auto simp: netatop_exitfind_def split: option.split)
qed

lemma hashed_use_up: "hashed s t n \<Longrightarrow> hashed (s\<lparr>exitall := use_up key pre I (exitall s)\<rparr>) t n"
proof -
  assume "hashed s t n"
  moreover have "es_chain (use_up key pre I (exitall s)) p is = es_chain (exitall s) p is" for p "is"
    by (rule es_chain_next) (auto simp: nth_use_up)
  moreover have "n \<le> length (exitall s) \<Longrightarrow>
      bucket t (use_up key pre I (exitall s)) n h = bucket t (exitall s) n h" for h
    by (rule bucket_npt) (auto simp: nth_use_up)
  ultimately show ?thesis by (simp add: hashed_def)
qed

lemma netatop_exithash_hashed:
  assumes "esbucket s = (\<lambda>_. None)" and "nat (sint (exitnum s)) \<le> length (exitall s)"
  shows "\<exists>s'. netatop_exithash t s = Some s' \<and> hashed s' t (nat (sint (exitnum s))) \<and>
    exithash s' = t \<and> same_store s s'"
  using exithash_loop_hashed [OF assms, of t]
  by (force simp: netatop_exithash_def hashed_def same_store_def)

lemma same_store_npt:
  "same_store s s' \<Longrightarrow> i < length (exitall s) \<Longrightarrow> es_npt (exitall s' ! i) = es_npt (exitall s ! i)"
  by (metis same_store_def same_store_length nth_map)

lemma exitstore_read:
  assumes "exitfile s = frames rs @ rest" and "rs \<noteq> []"
    and "\<forall>r\<in>set rs. length r < 256 \<and> length r < unat (na_ntplen nahp) + 100"
    and "unat (ucast (ucast (na_curseq nahp) - lastseq s) :: u32) = length rs"
  shows "netatop_exitstore unz None None True True nahp s =
    Some (Inr (s\<lparr>lastseq := ucast (na_curseq nahp), exitfile := rest, exitall := stored unz rs,
                 exitnum := of_nat (length rs)\<rparr>, of_nat (length rs)))"
proof -
  obtain r qs where rs: "rs = r # qs" using assms(2) by (cases rs) auto
  have "exit_read unz (unat (na_ntplen nahp)) (length rs) (r @ frames qs @ rest) (of_nat (length r)) 0
      (replicate (length rs) exitstore0) = Some (rest, length rs, stored unz rs)"
    using exit_read_frames [of r qs "unat (na_ntplen nahp)" "length rs" "[]" unz rest] assms(3) rs
    by simp
  then show ?thesis
    using assms(1,4) rs by (simp add: netatop_exitstore_def Let_def)
qed

section \<open>Properties\<close>

text \<open>
  Reading the exit file.  If the sequence number tells that \<open>length rs > 0\<close> new records
  were written and the file holds them, each behind a byte with its length, then
  \<open>netatop_exitstore\<close> delivers every one of them decompressed, in order and unused, counts them,
  and leaves the file positioned behind the last one, whatever follows there.
\<close>

theorem exitstore_roundtrip:
  assumes "exitfile s = frames rs @ rest" and "rs \<noteq> []"
    and "\<forall>r\<in>set rs. length r < 256 \<and> length r < unat (na_ntplen nahp) + 100"
    and "unat (ucast (ucast (na_curseq nahp) - lastseq s) :: u32) = length rs"
  shows "netatop_exitstore unz None None True True nahp s =
    Some (Inr (s\<lparr>lastseq := ucast (na_curseq nahp), exitfile := rest, exitall := stored unz rs,
                 exitnum := of_nat (length rs)\<rparr>, of_nat (length rs)))"
  using assms by (rule exitstore_read)

definition ex_netatop :: netatop where
  "ex_netatop = \<lparr>supportflags = NETATOP OR NETATOPD, netsock = 3, lastseq = 7,
     exitfile = frames [[1, 2], [3]] @ [9], exitall = [], exitnum = 0, esbucket = (\<lambda>_. None),
     exithash = CHR ''p''\<rparr>"

definition ex_unz :: "netpertask \<Rightarrow> byte list \<Rightarrow> netpertask" where
  "ex_unz old bs = old\<lparr>npt_id := ucast (hd bs)\<rparr>"

definition ex_nahp :: naheader where
  "ex_nahp = \<lparr>na_magic = 0xfeedb0b0, na_curseq = 9, na_hdrlen = 16, na_ntplen = 96, na_mypid = 77\<rparr>"

theorem exitstore_roundtrip_witness:
  "\<exists>s'. netatop_exitstore ex_unz None None True True ex_nahp ex_netatop = Some (Inr (s', 2)) \<and>
     exitfile s' = [9] \<and> map (npt_id \<circ> es_npt) (exitall s') = [1, 3]"
  using exitstore_roundtrip [of ex_netatop "[[1, 2], [3]]" "[9]" ex_nahp ex_unz]
  by (simp add: ex_netatop_def ex_nahp_def ex_unz_def stored_def)

text \<open>
  Hashing by pid and searching.  After \<open>netatop_exithash('p')\<close> on erased buckets, a search
  for a pid ends without leaving the store and fills the network counters of the task with those
  of the first stored record with this pid minus the counters of the previous sample; without
  such a record the task is unchanged.
\<close>

theorem exithash_pid_find:
  assumes "esbucket s = (\<lambda>_. None)" and "nat (sint (exitnum s)) \<le> length (exitall s)"
  shows "\<exists>s'. netatop_exithash (CHR ''p'') s = Some s' \<and>
    netatop_exitfind (scast pid) dev pre s' =
      Some (s', case List.find (\<lambda>i. npt_id (es_npt (exitall s ! i)) = pid) [0..<nat (sint (exitnum s))] of
                  None \<Rightarrow> dev | Some i \<Rightarrow> fill_networkcnt dev pre (exitall s' ! i))"
proof -
  let ?n = "nat (sint (exitnum s))"
  obtain s' where s': "netatop_exithash (CHR ''p'') s = Some s'" "hashed s' (CHR ''p'') ?n"
    "exithash s' = CHR ''p''" "same_store s s'"
    using netatop_exithash_hashed [OF assms] by blast
  have "List.find (id_hit (scast pid) (exitall s')) [0..<?n] =
      List.find (\<lambda>i. npt_id (es_npt (exitall s ! i)) = pid) [0..<?n]"
    using same_store_npt [OF s'(4)] assms(2)
    by (intro find_cong) (auto simp: id_hit_def scast_i32_inj)
  then show ?thesis using s'(1) exitfind_pid [OF s'(2,3), of "scast pid" dev pre] by auto
qed

definition ex_exited :: "i32 \<Rightarrow> u64 \<Rightarrow> u64 \<Rightarrow> exitstore" where
  "ex_exited pid btime packs = exitstore0\<lparr>es_npt := netpertask0\<lparr>npt_id := pid, npt_btime := btime,
     npt_tc := taskcount0\<lparr>tcpsndpacks := packs\<rparr>\<rparr>\<rparr>"

definition ex_store :: netatop where
  "ex_store = ex_netatop\<lparr>exitall := [ex_exited 5 50 10, ex_exited 1029 50 20, ex_exited 5 60 30], exitnum := 3\<rparr>"

theorem exithash_pid_find_witness:
  "\<exists>s' dev. netatop_exithash (CHR ''p'') ex_store = Some s' \<and>
     netatop_exitfind (scast (1029 :: i32)) tstat0 tstat0 s' = Some (s', dev) \<and>
     dev = fill_networkcnt tstat0 tstat0 (exitall s' ! 1)"
  using exithash_pid_find [of ex_store 1029 tstat0 tstat0]
  by (simp add: ex_store_def ex_netatop_def ex_exited_def upt_rec)

text \<open>
  Hashing by start time and searching.  A search fills in the counters of the first record
  that is unused, has the start time and the command name and no smaller counter than the
  previous sample, but it marks every such record as used: the \<open>break\<close> in the source leaves the
  \<open>switch\<close> only, so a second exited process with the same name and start time finds nothing.
\<close>

theorem exithash_btime_find:
  assumes "esbucket s = (\<lambda>_. None)" and "nat (sint (exitnum s)) \<le> length (exitall s)"
  shows "\<exists>s1 s2. netatop_exithash (CHR ''b'') s = Some s1 \<and>
    netatop_exitfind key dev pre s1 =
      Some (s2, case List.find (\<lambda>i. btime_hit key pre (exitall s1 ! i)) [0..<nat (sint (exitnum s))] of
                  None \<Rightarrow> dev | Some i \<Rightarrow> fill_networkcnt dev pre (exitall s1 ! i)) \<and>
    (\<forall>i < nat (sint (exitnum s)). \<not> btime_hit key pre (exitall s2 ! i)) \<and>
    netatop_exitfind key dev' pre s2 = Some (s2, dev')"
proof -
  let ?n = "nat (sint (exitnum s))"
  obtain s1 where s1: "netatop_exithash (CHR ''b'') s = Some s1" "hashed s1 (CHR ''b'') ?n"
    "exithash s1 = CHR ''b''" "same_store s s1"
    using netatop_exithash_hashed [OF assms] by blast
  let ?s2 = "s1\<lparr>exitall := use_up key pre {0..<?n} (exitall s1)\<rparr>"
  have n: "?n \<le> length (exitall s1)" using assms(2) same_store_length [OF s1(4)] by simp
  then have no: "\<not> btime_hit key pre (exitall ?s2 ! i)" if "i < ?n" for i
    using that by (auto simp: nth_use_up btime_hit_def)
  then have none: "List.find (\<lambda>i. btime_hit key pre (exitall ?s2 ! i)) [0..<?n] = None"
    by (auto simp: find_None_iff)
  have "use_up key pre {0..<?n} (exitall ?s2) = exitall ?s2"
    using no n by (intro nth_equalityI) (auto simp: nth_use_up)
  then have "netatop_exitfind key dev' pre ?s2 = Some (?s2, dev')"
    using exitfind_btime [OF hashed_use_up [OF s1(2)], of key pre "{0..<?n}" key dev' pre] none s1(3)
    by simp
  with exitfind_btime [OF s1(2,3), of key dev pre] no s1(1) show ?thesis by blast
qed

theorem exithash_btime_find_witness:
  "\<exists>s1 s2. netatop_exithash (CHR ''b'') ex_store = Some s1 \<and>
    netatop_exitfind 50 tstat0 tstat0 s1 = Some (s2, fill_networkcnt tstat0 tstat0 (exitall s1 ! 0)) \<and>
    netatop_exitfind 50 tstat0 tstat0 s2 = Some (s2, tstat0)"
proof -
  obtain s1 where s1: "netatop_exithash (CHR ''b'') ex_store = Some s1"
    "btime_hit 50 tstat0 (exitall s1 ! 0)"
    by (simp add: netatop_exithash_def ex_store_def ex_netatop_def ex_exited_def upt_rec btime_hit_def
        exitstore0_def netpertask0_def taskcount0_def Let_def exit_hash_def HASHCALC_def streq_def
        counts_below_def tstat0_simps)
  then show ?thesis
    using exithash_btime_find [of ex_store 50 tstat0 tstat0 tstat0]
    by (simp add: ex_store_def ex_netatop_def upt_rec) blast
qed

end
