(* ===== verification/Deviate_Task.thy ===== *)
theory Deviate_Task
  imports Task_Map Netatop
begin

text \<open>
  The task half of \<^verbatim>\<open>src/Qt/FakeAtop/deviate.c\<close>: the subtraction of counters, the deviation of one
  task, and \<open>deviattask\<close>, which compares the tasks of the present sample with the process
  database, accounts for the exited processes, brings the database up to date and builds the
  pointer lists of all processes and of the active ones.
\<close>

section \<open>Counters\<close>

definition MAX32BITVAL :: count_t where
  "MAX32BITVAL = 0x100000000"

definition subcount :: "count_t \<Rightarrow> count_t \<Rightarrow> count_t" where
  "subcount newval oldval =
     (if oldval \<le>s newval then newval - oldval else MAX32BITVAL + newval - oldval)"

text \<open>\<open>~(INT_MAX)\<close>, the bit that marks a new task in its exit code.\<close>

definition NEWMARK :: i32 where
  "NEWMARK = 0x80000000"

section \<open>The deviation of one task\<close>

text \<open>The network counters may have been reset by a reload of the netatop module.\<close>

definition netdiff :: "count_t \<Rightarrow> count_t \<Rightarrow> count_t" where
  "netdiff cur pre = (if pre \<le>s cur then subcount cur pre else cur)"

definition calcdiff :: "tstat \<Rightarrow> tstat \<Rightarrow> tstat \<Rightarrow> bool \<Rightarrow> count_t \<Rightarrow> tstat" where
  "calcdiff devstat curstat prestat newtask totusedcpu =
     (let inactive = truth (gen_wasinactive (t_gen curstat));
          d = (if inactive then tstat0 else devstat);
          g = t_gen curstat;
          d = d\<lparr>t_gen := (if newtask then g\<lparr>gen_excode := gen_excode g OR NEWMARK\<rparr> else g),
                t_cpu := (t_cpu d)\<lparr>
                  cpu_nice := cpu_nice (t_cpu curstat),
                  cpu_prio := cpu_prio (t_cpu curstat),
                  cpu_rtprio := cpu_rtprio (t_cpu curstat),
                  cpu_policy := cpu_policy (t_cpu curstat),
                  cpu_curcpu := cpu_curcpu (t_cpu curstat),
                  cpu_sleepavg := cpu_sleepavg (t_cpu curstat)\<rparr>,
                t_mem := (t_mem d)\<lparr>
                  mem_vexec := mem_vexec (t_mem curstat),
                  mem_vmem := mem_vmem (t_mem curstat),
                  mem_rmem := mem_rmem (t_mem curstat),
                  mem_pmem := mem_pmem (t_mem curstat),
                  mem_vdata := mem_vdata (t_mem curstat),
                  mem_vstack := mem_vstack (t_mem curstat),
                  mem_vlibs := mem_vlibs (t_mem curstat),
                  mem_vswap := mem_vswap (t_mem curstat)\<rparr>\<rparr>
      in
      if inactive then d
      else
        let stime = subcount (cpu_stime (t_cpu curstat)) (cpu_stime (t_cpu prestat));
            utime = subcount (cpu_utime (t_cpu curstat)) (cpu_utime (t_cpu prestat));
            stime = (if totusedcpu <s stime then 1 else stime);
            utime = (if totusedcpu <s utime then 1 else utime)
        in
        d\<lparr>t_cpu := (t_cpu d)\<lparr>cpu_stime := stime, cpu_utime := utime\<rparr>,
          t_dsk := (t_dsk d)\<lparr>
            dsk_rio := subcount (dsk_rio (t_dsk curstat)) (dsk_rio (t_dsk prestat)),
            dsk_rsz := subcount (dsk_rsz (t_dsk curstat)) (dsk_rsz (t_dsk prestat)),
            dsk_wio := subcount (dsk_wio (t_dsk curstat)) (dsk_wio (t_dsk prestat)),
            dsk_wsz := subcount (dsk_wsz (t_dsk curstat)) (dsk_wsz (t_dsk prestat)),
            dsk_cwsz := subcount (dsk_cwsz (t_dsk curstat)) (dsk_cwsz (t_dsk prestat))\<rparr>,
          t_mem := (t_mem d)\<lparr>
            mem_vgrow := mem_vmem (t_mem curstat) - mem_vmem (t_mem prestat),
            mem_rgrow := mem_rmem (t_mem curstat) - mem_rmem (t_mem prestat),
            mem_minflt := subcount (mem_minflt (t_mem curstat)) (mem_minflt (t_mem prestat)),
            mem_majflt := subcount (mem_majflt (t_mem curstat)) (mem_majflt (t_mem prestat))\<rparr>,
          t_net := (t_net d)\<lparr>
            net_tcpsnd := netdiff (net_tcpsnd (t_net curstat)) (net_tcpsnd (t_net prestat)),
            net_tcpssz := netdiff (net_tcpssz (t_net curstat)) (net_tcpssz (t_net prestat)),
            net_tcprcv := netdiff (net_tcprcv (t_net curstat)) (net_tcprcv (t_net prestat)),
            net_tcprsz := netdiff (net_tcprsz (t_net curstat)) (net_tcprsz (t_net prestat)),
            net_udpsnd := netdiff (net_udpsnd (t_net curstat)) (net_udpsnd (t_net prestat)),
            net_udpssz := netdiff (net_udpssz (t_net curstat)) (net_udpssz (t_net prestat)),
            net_udprcv := netdiff (net_udprcv (t_net curstat)) (net_udprcv (t_net prestat)),
            net_udprsz := netdiff (net_udprsz (t_net curstat)) (net_udprsz (t_net prestat))\<rparr>\<rparr>)"

section \<open>The state of deviattask\<close>

text \<open>\<open>struct devtstat\<close>; the pointers of \<open>procall\<close> and \<open>procactive\<close> are indices into \<open>taskall\<close>.\<close>

record devtstat =
  taskall :: "tstat list"
  procall :: "nat list"
  procactive :: "nat list"
  ntaskall :: u64
  ntaskactive :: u64
  nprocall :: u64
  nprocactive :: u64
  totrun :: u64
  totslpi :: u64
  totslpu :: u64
  totzombie :: u64

definition devtstat0 :: devtstat where
  "devtstat0 = \<lparr>taskall = [], procall = [], procactive = [], ntaskall = 0, ntaskactive = 0,
     nprocall = 0, nprocactive = 0, totrun = 0, totslpi = 0, totslpu = 0, totzombie = 0\<rparr>"

text \<open>
  The memory allocator: what \<open>malloc\<close> of an array of task structures or of pointers delivers
  (contents not initialised), and the address \<open>calloc\<close> gives to a new node; \<open>None\<close> is the null
  pointer, on which \<open>ptrverify\<close> exits with code 13.
\<close>

record allocator =
  al_tasks :: "nat \<Rightarrow> tstat list option"
  al_ptrs :: "nat \<Rightarrow> nat list option"
  al_node :: "pdb \<Rightarrow> addr option"

text \<open>
  The variables of \<open>deviattask\<close> that its loops update: the present and the exited tasks, the
  database, the netatop store, the result, and the locals \<open>thisproc\<close> and \<open>prestat\<close>.
\<close>

record dtask =
  dt_pres :: "tstat list"
  dt_exit :: "tstat list"
  dt_pdb :: pdb
  dt_net :: netatop
  dt_dev :: devtstat
  dt_this :: nat
  dt_pre :: tstat

definition set_inactive :: "i32 \<Rightarrow> tstat \<Rightarrow> tstat" where
  "set_inactive w t = t\<lparr>t_gen := (t_gen t)\<lparr>gen_wasinactive := w\<rparr>\<rparr>"

section \<open>Present tasks\<close>

text \<open>The counts kept for every process.\<close>

definition count_process :: "tstat \<Rightarrow> devtstat \<Rightarrow> devtstat" where
  "count_process curstat dev =
     (let dev = dev\<lparr>nprocall := nprocall dev + 1\<rparr> in
      if gen_state (t_gen curstat) = of_char (CHR ''Z'')
      then dev\<lparr>totzombie := totzombie dev + 1\<rparr>
      else dev\<lparr>totrun := totrun dev + scast (gen_nthrrun (t_gen curstat)),
               totslpi := totslpi dev + scast (gen_nthrslpi (t_gen curstat)),
               totslpu := totslpu dev + scast (gen_nthrslpu (t_gen curstat))\<rparr>)"

text \<open>
  The counts kept for an active task: an active thread makes the process it belongs to
  active as well.
\<close>

definition count_active :: "tstat \<Rightarrow> nat \<Rightarrow> devtstat \<Rightarrow> devtstat option" where
  "count_active curstat thisproc dev =
     (let dev = dev\<lparr>ntaskactive := ntaskactive dev + 1\<rparr> in
      if truth (gen_isproc (t_gen curstat)) then Some (dev\<lparr>nprocactive := nprocactive dev + 1\<rparr>)
      else do {
        p \<leftarrow> aget (taskall dev) thisproc;
        if truth (gen_wasinactive (t_gen p))
        then Some (dev\<lparr>taskall := (taskall dev)[thisproc := set_inactive 0 p],
                       ntaskactive := ntaskactive dev + 1, nprocactive := nprocactive dev + 1\<rparr>)
        else Some dev
      })"

text \<open>
  One round of the loop over the present tasks, without the final \<open>calcdiff\<close>: the new state and
  the flag \<open>newtask\<close>, or the exit code 13.  \<open>memcmp\<close> compares all members of the two structures; the bytes of their
  padding are taken to be the same.
\<close>

definition compare_task :: "allocator \<Rightarrow> nat \<Rightarrow> dtask \<Rightarrow> (int + dtask \<times> bool) option" where
  "compare_task al c s = do {
     curstat \<leftarrow> aget (dt_pres s) c;
     let isproc = truth (gen_isproc (t_gen curstat));
     let s = (if isproc then s\<lparr>dt_this := c, dt_dev := count_process curstat (dt_dev s)\<rparr> else s);
     (d, pinfo) \<leftarrow> pdb_gettask (dt_pdb s) (gen_pid (t_gen curstat)) (gen_isproc (t_gen curstat))
                     (gen_btime (t_gen curstat));
     let s = s\<lparr>dt_pdb := d\<rparr>;
     if pinfo \<noteq> None then do {
       n \<leftarrow> rd d pinfo;
       if curstat = p_tstat n then
         Some (Inr (s\<lparr>dt_pres := (dt_pres s)[c := set_inactive 1 curstat]\<rparr>, False))
       else do {
         d \<leftarrow> wr d pinfo (\<lambda>n. n\<lparr>p_tstat := curstat\<rparr>);
         dev \<leftarrow> count_active curstat (dt_this s) (dt_dev s);
         Some (Inr (s\<lparr>dt_pre := p_tstat n, dt_pdb := d, dt_dev := dev,
                      dt_pres := (dt_pres s)[c := set_inactive 0 curstat]\<rparr>, False))
       }
     }
     else do {
       let curstat = set_inactive 0 curstat;
       dev \<leftarrow> count_active curstat (dt_this s) (dt_dev s);
       let s = s\<lparr>dt_pre := tstat0, dt_dev := dev, dt_pres := (dt_pres s)[c := curstat]\<rparr>;
       case al_node al d of
         None \<Rightarrow> Some (Inl 13)
       | Some a \<Rightarrow> do {
           d \<leftarrow> pdb_addtask (d\<lparr>pheap := (pheap d)(a \<mapsto> new_pinfo curstat)\<rparr>)
                  (gen_pid (t_gen curstat)) (Some a);
           Some (Inr (s\<lparr>dt_pdb := d\<rparr>, True))
         }
     }
   }"

definition present_task :: "allocator \<Rightarrow> count_t \<Rightarrow> nat \<Rightarrow> dtask \<Rightarrow> (int + dtask) option" where
  "present_task al totusedcpu c s = do {
     r \<leftarrow> compare_task al c s;
     case r of
       Inl e \<Rightarrow> Some (Inl e)
     | Inr (s, newtask) \<Rightarrow> do {
         curstat \<leftarrow> aget (dt_pres s) c;
         ts \<leftarrow> aupd (taskall (dt_dev s)) c
                (\<lambda>devstat. calcdiff devstat curstat (dt_pre s) newtask totusedcpu);
         Some (Inr (s\<lparr>dt_dev := (dt_dev s)\<lparr>taskall := ts\<rparr>\<rparr>))
       }
   }"

fun present_loop :: "allocator \<Rightarrow> count_t \<Rightarrow> nat list \<Rightarrow> dtask \<Rightarrow> (int + dtask) option" where
  "present_loop al totusedcpu [] s = Some (Inr s)"
| "present_loop al totusedcpu (c # cs) s = do {
     r \<leftarrow> present_task al totusedcpu c s;
     case r of Inl e \<Rightarrow> Some (Inl e) | Inr s \<Rightarrow> present_loop al totusedcpu cs s
   }"

section \<open>Exited processes\<close>

text \<open>The statistics of the previous sample of an exited process, zeroes if there are none.\<close>

definition exit_prestat :: "time_t \<Rightarrow> tstat \<Rightarrow> pdb \<Rightarrow> (pdb \<times> tstat) option" where
  "exit_prestat pretime curstat d =
     (if truth (gen_pid (t_gen curstat)) then do {
        (d, pinfo) \<leftarrow> pdb_gettask d (gen_pid (t_gen curstat)) 1 (gen_btime (t_gen curstat));
        if pinfo \<noteq> None then do { n \<leftarrow> rd d pinfo; Some (d, p_tstat n) } else Some (d, tstat0)
      }
      else if pretime <s gen_btime (t_gen curstat) then Some (d, tstat0)
      else do {
        pinfo \<leftarrow> pdb_srchresidue d curstat;
        if pinfo \<noteq> None then do { n \<leftarrow> rd d pinfo; Some (d, p_tstat n) } else Some (d, tstat0)
      })"

text \<open>A counter of an exit record, which may be smaller than the last sample.\<close>

definition exitdiff :: "count_t \<Rightarrow> count_t \<Rightarrow> count_t" where
  "exitdiff cur pre = (if pre <s cur then cur - pre else 0)"

definition exit_devstat :: "tstat \<Rightarrow> tstat \<Rightarrow> tstat" where
  "exit_devstat curstat prestat =
     (let g = t_gen curstat;
          g = (if gen_pid (t_gen curstat) = 0 then g\<lparr>gen_pid := gen_pid (t_gen prestat)\<rparr> else g);
          g = (if gen_pid (t_gen prestat) = 0 then g\<lparr>gen_excode := gen_excode g OR NEWMARK\<rparr> else g);
          g = g\<lparr>gen_cmdline := strcpy (gen_cmdline g) (gen_cmdline (t_gen prestat))\<rparr>
      in tstat0\<lparr>
        t_gen := g,
        t_cpu := cpu0\<lparr>
          cpu_stime := exitdiff (cpu_stime (t_cpu curstat)) (cpu_stime (t_cpu prestat)),
          cpu_utime := exitdiff (cpu_utime (t_cpu curstat)) (cpu_utime (t_cpu prestat))\<rparr>,
        t_mem := mem0\<lparr>
          mem_minflt := exitdiff (mem_minflt (t_mem curstat)) (mem_minflt (t_mem prestat)),
          mem_majflt := exitdiff (mem_majflt (t_mem curstat)) (mem_majflt (t_mem prestat))\<rparr>,
        t_dsk := dsk0\<lparr>
          dsk_rio := exitdiff (dsk_rio (t_dsk curstat)) (dsk_rio (t_dsk prestat) + dsk_wio (t_dsk prestat))\<rparr>\<rparr>)"

text \<open>One round of the loop over the exited processes; \<open>d\<close> is the index into \<open>taskall\<close>.\<close>

definition exited_task :: "time_t \<Rightarrow> char \<Rightarrow> nat \<Rightarrow> nat \<Rightarrow> dtask \<Rightarrow> dtask option" where
  "exited_task pretime hashtype d c s = do {
     curstat \<leftarrow> aget (dt_exit s) c;
     let curstat = set_inactive 0 curstat;
     let dev = (dt_dev s)\<lparr>nprocall := nprocall (dt_dev s) + 1,
                          nprocactive := nprocactive (dt_dev s) + 1,
                          ntaskactive := ntaskactive (dt_dev s) + 1\<rparr>;
     (db, prestat) \<leftarrow> exit_prestat pretime curstat (dt_pdb s);
     let devstat = exit_devstat curstat prestat;
     let val = (if hashtype = CHR ''p'' then scast (gen_pid (t_gen curstat))
                else gen_btime (t_gen curstat));
     (net, devstat) \<leftarrow> (if supportflags (dt_net s) AND NETATOPD \<noteq> 0
                         then netatop_exitfind val devstat prestat (dt_net s)
                         else Some (dt_net s, devstat));
     ts \<leftarrow> aupd (taskall dev) d (\<lambda>_. devstat);
     db \<leftarrow> (if 0 <s gen_pid (t_gen prestat)
            then map_option fst (pdb_deltask db (gen_pid (t_gen prestat)) (gen_isproc (t_gen prestat)))
            else Some db);
     Some (s\<lparr>dt_exit := (dt_exit s)[c := curstat], dt_dev := dev\<lparr>taskall := ts\<rparr>, dt_pdb := db,
             dt_net := net, dt_pre := prestat\<rparr>)
   }"

fun exited_loop :: "time_t \<Rightarrow> char \<Rightarrow> nat \<Rightarrow> nat list \<Rightarrow> dtask \<Rightarrow> dtask option" where
  "exited_loop pretime hashtype d [] s = Some s"
| "exited_loop pretime hashtype d (c # cs) s = do {
     s \<leftarrow> exited_task pretime hashtype d c s;
     exited_loop pretime hashtype (d + 1) cs s
   }"

text \<open>Hashing the netatop records before the first exited process is handled.\<close>

definition exit_prepare :: "dtask \<Rightarrow> (char \<times> dtask) option" where
  "exit_prepare s =
     (case dt_exit s of
        [] \<Rightarrow> Some (CHR ''p'', s)
      | t # _ \<Rightarrow>
          if supportflags (dt_net s) AND NETATOPD \<noteq> 0 then do {
            let hashtype = (if truth (gen_pid (t_gen t)) then CHR ''p'' else CHR ''b'');
            net \<leftarrow> netatop_exithash hashtype (dt_net s);
            Some (hashtype, s\<lparr>dt_net := net\<rparr>)
          }
          else Some (CHR ''p'', s))"

section \<open>The pointer lists\<close>

text \<open>The last loop: a write outside of one of the two arrays is \<open>None\<close>.\<close>

fun fill_lists :: "tstat list \<Rightarrow> nat list \<Rightarrow> nat \<Rightarrow> nat \<Rightarrow> nat list \<times> nat list \<Rightarrow> (nat list \<times> nat list) option" where
  "fill_lists ts [] pall pact ps = Some ps"
| "fill_lists ts (c # cs) pall pact (all, act) = do {
     devstat \<leftarrow> aget ts c;
     if truth (gen_isproc (t_gen devstat)) then do {
       all \<leftarrow> aupd all pall (\<lambda>_. c);
       if \<not> truth (gen_wasinactive (t_gen devstat)) then do {
         act \<leftarrow> aupd act pact (\<lambda>_. c);
         fill_lists ts cs (pall + 1) (pact + 1) (all, act)
       }
       else fill_lists ts cs (pall + 1) pact (all, act)
     }
     else fill_lists ts cs pall pact (all, act)
   }"

definition make_lists :: "allocator \<Rightarrow> devtstat \<Rightarrow> (int + devtstat) option" where
  "make_lists al dev =
     (case al_ptrs al (unat (nprocall dev)) of
        None \<Rightarrow> Some (Inl 13)
      | Some all \<Rightarrow>
     (case al_ptrs al (unat (nprocactive dev)) of
        None \<Rightarrow> Some (Inl 13)
      | Some act \<Rightarrow> do {
          (all, act) \<leftarrow> fill_lists (taskall dev) [0..<unat (ntaskall dev)] 0 0 (all, act);
          Some (Inr (dev\<lparr>procall := all, procactive := act\<rparr>))
        }))"

section \<open>deviattask\<close>

text \<open>
  The part of the function behind the loop over the present tasks: the exited processes, the
  removal of the unused entries of the database, and the pointer lists.
\<close>

definition after_present :: "allocator \<Rightarrow> time_t \<Rightarrow> nat \<Rightarrow> dtask \<Rightarrow> (int + dtask) option" where
  "after_present al pretime ntaskpres s = do {
     (hashtype, s) \<leftarrow> exit_prepare s;
     s \<leftarrow> exited_loop pretime hashtype ntaskpres [0..<length (dt_exit s)] s;
     d \<leftarrow> pdb_cleanresidue (dt_pdb s);
     let s = s\<lparr>dt_pdb := d\<rparr>;
     r \<leftarrow> make_lists al (dt_dev s);
     case r of
       Inl e \<Rightarrow> Some (Inl e)
     | Inr dev \<Rightarrow> Some (Inr (s\<lparr>dt_dev := dev\<rparr>))
   }"

text \<open>
  The whole function.  \<open>totusedcpu\<close> is the sum its first statement builds from the system-level
  deviations; \<open>junk\<close> is the uninitialised \<open>prestat\<close>.
\<close>

definition deviattask :: "allocator \<Rightarrow> time_t \<Rightarrow> count_t \<Rightarrow> tstat \<Rightarrow> tstat list \<Rightarrow> tstat list \<Rightarrow> pdb \<Rightarrow>
    netatop \<Rightarrow> (int + dtask) option" where
  "deviattask al pretime totusedcpu junk curtpres curpexit d net = do {
     d \<leftarrow> pdb_makeresidue d;
     let n = length curtpres + length curpexit;
     case al_tasks al n of
       None \<Rightarrow> Some (Inl 13)
     | Some ts \<Rightarrow> do {
         let s = \<lparr>dt_pres = curtpres, dt_exit = curpexit, dt_pdb = d, dt_net = net,
                  dt_dev = devtstat0\<lparr>taskall := ts, ntaskall := of_nat n\<rparr>, dt_this = 0,
                  dt_pre = junk\<rparr>;
         r \<leftarrow> present_loop al totusedcpu [0..<length curtpres] s;
         case r of
           Inl e \<Rightarrow> Some (Inl e)
         | Inr s \<Rightarrow> after_present al pretime (length curtpres) s
       }
   }"

end
