(* ===== verification/Deviate_Sample.thy ===== *)
theory Deviate_Sample
  imports Deviate_Task
begin

text \<open>
  What one run of \<open>deviattask\<close> does to the process database and to the deviation structure: the
  facts of \<open>Task_Map\<close> carried through the loops of the function.
\<close>

section \<open>Facts about one task\<close>

lemma set_inactive_simps [simp]:
  "tkey (set_inactive w t) = tkey t"
  "gen_isproc (t_gen (set_inactive w t)) = gen_isproc (t_gen t)"
  "gen_pid (t_gen (set_inactive w t)) = gen_pid (t_gen t)"
  "gen_btime (t_gen (set_inactive w t)) = gen_btime (t_gen t)"
  "gen_wasinactive (t_gen (set_inactive w t)) = w"
  "set_inactive w (set_inactive w' t) = set_inactive w t"
  by (simp_all add: set_inactive_def tkey_def)

lemma set_inactive_id: "gen_wasinactive (t_gen t) = w \<Longrightarrow> set_inactive w t = t"
  by (auto simp: set_inactive_def)

lemma calcdiff_gen [simp]:
  "gen_isproc (t_gen (calcdiff dev cur pre new tot)) = gen_isproc (t_gen cur)"
  "gen_wasinactive (t_gen (calcdiff dev cur pre new tot)) = gen_wasinactive (t_gen cur)"
  "gen_pid (t_gen (calcdiff dev cur pre new tot)) = gen_pid (t_gen cur)"
  by (simp_all add: calcdiff_def Let_def)

lemma calcdiff_inactive:
  "gen_wasinactive (t_gen cur) \<noteq> 0 \<Longrightarrow>
   calcdiff dev cur pre new tot = calcdiff dev' cur pre' new tot'"
  by (simp add: calcdiff_def Let_def)

lemma fill_networkcnt_gen [simp]: "t_gen (fill_networkcnt dev pre e) = t_gen dev"
  by (simp add: fill_networkcnt_def)

lemma exit_devstat_gen [simp]:
  "gen_isproc (t_gen (exit_devstat cur pre)) = gen_isproc (t_gen cur)"
  "gen_wasinactive (t_gen (exit_devstat cur pre)) = gen_wasinactive (t_gen cur)"
  by (simp_all add: exit_devstat_def Let_def)

lemma task_abs_res: "task_abs d M R \<Longrightarrow> R \<subseteq> dom M"
proof -
  assume "task_abs d M R"
  then obtain rs N cs where *: "task_view (pdb_peek d) (nodes cs) N" "M = view_map (pdb_peek d) N"
    "R = view_res (set rs) N"
    by (auto simp: task_abs_def)
  have "pdb_peek d a \<noteq> None" if "N k = Some a" for k a
    using that *(1) by (auto simp: task_view_def)
  then show ?thesis using *(2,3) by (force simp: view_res_def view_map_def)
qed

section \<open>Counting\<close>

abbreviation is_proc :: "tstat \<Rightarrow> bool" where
  "is_proc t \<equiv> truth (gen_isproc (t_gen t))"

abbreviation is_active :: "tstat \<Rightarrow> bool" where
  "is_active t \<equiv> \<not> truth (gen_wasinactive (t_gen t))"

definition bump :: "tstat \<Rightarrow> nat \<Rightarrow> devtstat \<Rightarrow> devtstat" where
  "bump t this dev =
     (let dev = dev\<lparr>ntaskactive := ntaskactive dev + 1\<rparr> in
      if is_proc t then dev\<lparr>nprocactive := nprocactive dev + 1\<rparr>
      else if is_active (taskall dev ! this) then dev
      else dev\<lparr>taskall := (taskall dev)[this := set_inactive 0 (taskall dev ! this)],
               ntaskactive := ntaskactive dev + 1, nprocactive := nprocactive dev + 1\<rparr>)"

lemma count_active_bump:
  "is_proc t \<or> this < length (taskall dev) \<Longrightarrow> count_active t this dev = Some (bump t this dev)"
  by (auto simp: count_active_def bump_def Let_def)

lemma count_process_simps [simp]:
  "taskall (count_process t dev) = taskall dev" "nprocall (count_process t dev) = nprocall dev + 1"
  "nprocactive (count_process t dev) = nprocactive dev" "ntaskactive (count_process t dev) = ntaskactive dev"
  "ntaskall (count_process t dev) = ntaskall dev"
  by (simp_all add: count_process_def Let_def)

text \<open>The effect of one task on the counters: \<open>idle\<close> tells that the task did not change.\<close>

definition dev_after :: "bool \<Rightarrow> tstat \<Rightarrow> nat \<Rightarrow> devtstat \<Rightarrow> devtstat" where
  "dev_after idle t this dev =
     (let dev = (if is_proc t then count_process t dev else dev) in if idle then dev else bump t this dev)"

abbreviation idle :: "(task_key \<rightharpoonup> tstat) \<Rightarrow> tstat \<Rightarrow> bool" where
  "idle M t \<equiv> M (tkey t) = Some t"

definition this_after :: "nat \<Rightarrow> tstat \<Rightarrow> nat \<Rightarrow> nat" where
  "this_after c t this = (if is_proc t then c else this)"

text \<open>The allocator hands out addresses that are not in use.\<close>

definition fresh_nodes :: "allocator \<Rightarrow> bool" where
  "fresh_nodes al \<longleftrightarrow> (\<forall>d a. al_node al d = Some a \<longrightarrow> pheap d a = None)"

text \<open>An allocator that never runs out of memory.\<close>

definition alloc_total :: "allocator \<Rightarrow> bool" where
  "alloc_total al \<longleftrightarrow> (\<forall>n. al_tasks al n \<noteq> None) \<and> (\<forall>n. al_ptrs al n \<noteq> None) \<and>
     (\<forall>d. finite (dom (pheap d)) \<longrightarrow> al_node al d \<noteq> None)"

text \<open>The exit for lack of memory.\<close>

abbreviation no_memory :: "allocator \<Rightarrow> (int + 'a) option \<Rightarrow> bool" where
  "no_memory al r \<equiv> r = Some (Inl 13) \<and> \<not> alloc_total al"

lemma task_abs_finite: "task_abs d M R \<Longrightarrow> finite (dom (pheap d))"
  by (simp add: task_abs_def)

lemma compare_task_ok:
  assumes t: "c < length (dt_pres s)" "dt_pres s ! c = t" "gen_wasinactive (t_gen t) = 0"
    and abs: "task_abs (dt_pdb s) M R"
    and near: "\<And>u. M (tkey t) = Some u \<Longrightarrow> btime_near (gen_btime (t_gen u)) (gen_btime (t_gen t))"
    and al: "fresh_nodes al"
    and prev: "is_proc t \<or> dt_this s < length (taskall (dt_dev s))"
  shows "no_memory al (compare_task al c s) \<or>
    (\<exists>d pre. compare_task al c s =
       Some (Inr (s\<lparr>dt_this := this_after c t (dt_this s), dt_pdb := d, dt_pre := pre,
                    dt_dev := dev_after (idle M t) t (this_after c t (dt_this s)) (dt_dev s),
                    dt_pres := (dt_pres s)[c := set_inactive (if idle M t then 1 else 0) t]\<rparr>,
                  M (tkey t) = None)) \<and>
       task_abs d (M(tkey t \<mapsto> t)) (R - {tkey t}) \<and>
       (\<not> idle M t \<longrightarrow> pre = (case M (tkey t) of None \<Rightarrow> tstat0 | Some u \<Rightarrow> u)))"
proof (cases "M (tkey t)")
  case (Some u)
  obtain d a n where g: "pdb_gettask (dt_pdb s) (gen_pid (t_gen t)) (gen_isproc (t_gen t)) (gen_btime (t_gen t)) = Some (d, Some a)"
    "pheap d a = Some n" "p_tstat n = u" "task_abs d M (R - {tkey t})"
    "\<forall>t'. tkey t' = tkey t \<longrightarrow> (\<exists>d'. wr d (Some a) (\<lambda>n. n\<lparr>p_tstat := t'\<rparr>) = Some d' \<and>
          task_abs d' (M(tkey t \<mapsto> t')) (R - {tkey t}))"
    using gettask_hit [OF abs, of "gen_pid (t_gen t)" "gen_isproc (t_gen t)" u "gen_btime (t_gen t)"]
      Some near [OF Some] by (auto simp: tkey_def)
  show ?thesis
  proof (cases "u = t")
    case True
    then have "M(tkey t \<mapsto> t) = M" using Some by auto
    with True g t Some show ?thesis
      by (auto simp: compare_task_def rd_def Let_def dev_after_def this_after_def
          intro!: exI [of _ d] exI [of _ "dt_pre s"])
  next
    case False
    obtain d' where "wr d (Some a) (\<lambda>n. n\<lparr>p_tstat := t\<rparr>) = Some d'"
      "task_abs d' (M(tkey t \<mapsto> t)) (R - {tkey t})"
      using g(5) by blast
    with False g t Some prev show ?thesis
      by (auto simp: compare_task_def rd_def Let_def dev_after_def this_after_def count_active_bump
          intro!: exI [of _ d'] exI [of _ u])
  qed
next
  case None
  obtain d where g: "pdb_gettask (dt_pdb s) (gen_pid (t_gen t)) (gen_isproc (t_gen t)) (gen_btime (t_gen t)) = Some (d, None)"
    "task_abs d M R"
    using gettask_miss [OF abs, of "gen_pid (t_gen t)" "gen_isproc (t_gen t)" "gen_btime (t_gen t)"] None
    by (auto simp: tkey_def)
  have R: "R - {tkey t} = R" using task_abs_res [OF abs] None by auto
  have t0: "set_inactive 0 t = t" using t(3) by (simp add: set_inactive_id)
  show ?thesis
  proof (cases "al_node al d")
    case None
    then have "\<not> alloc_total al" using task_abs_finite [OF g(2)] by (auto simp: alloc_total_def)
    with None g t t0 prev show ?thesis
      by (auto simp: compare_task_def Let_def count_active_bump)
  next
    case (Some a)
    then have "pheap d a = None" using al by (simp add: fresh_nodes_def)
    from addtask_abs [OF g(2) this, of t] None obtain d' where d':
      "pdb_addtask (d\<lparr>pheap := (pheap d)(a \<mapsto> new_pinfo t)\<rparr>) (gen_pid (t_gen t)) (Some a) = Some d'"
      "task_abs d' (M(tkey t \<mapsto> t)) R"
      by auto
    have "compare_task al c s = Some (Inr (s\<lparr>dt_this := this_after c t (dt_this s), dt_pdb := d',
        dt_pre := tstat0, dt_dev := dev_after (idle M t) t (this_after c t (dt_this s)) (dt_dev s),
        dt_pres := (dt_pres s)[c := set_inactive (if idle M t then 1 else 0) t]\<rparr>, M (tkey t) = None))"
      using Some None g(1) t(1,2) t0 prev d'(1)
      by (cases "is_proc t")
        (simp_all add: compare_task_def Let_def dev_after_def this_after_def count_active_bump)
    with None R d'(2) show ?thesis by auto
  qed
qed

section \<open>The loop over the present tasks\<close>

definition count_upto :: "('a \<Rightarrow> bool) \<Rightarrow> 'a list \<Rightarrow> nat \<Rightarrow> nat" where
  "count_upto P ts c = length (filter (\<lambda>i. P (ts ! i)) [0..<c])"

lemma count_upto_Suc [simp]: "count_upto P ts (Suc c) = count_upto P ts c + (if P (ts ! c) then 1 else 0)"
  by (simp add: count_upto_def)

lemma count_upto_0 [simp]: "count_upto P ts 0 = 0"
  by (simp add: count_upto_def)

lemma count_upto_cong:
  "(\<And>i. i < c \<Longrightarrow> P (ts ! i) = P (us ! i)) \<Longrightarrow> count_upto P ts c = count_upto P us c"
  by (induction c) auto

lemma count_upto_outside [simp]: "c \<le> j \<Longrightarrow> count_upto P (ts[j := x]) c = count_upto P ts c"
  by (rule count_upto_cong) auto

lemma count_upto_new:
  "j < c \<Longrightarrow> c \<le> length ts \<Longrightarrow> P x \<Longrightarrow> \<not> P (ts ! j) \<Longrightarrow>
   count_upto P (ts[j := x]) c = Suc (count_upto P ts c)"
proof (induction c)
  case (Suc c)
  then show ?case by (cases "j = c") auto
qed simp

lemma nth_upd: "xs[j := x] ! i = (if j = i \<and> j < length xs then x else xs ! i)"
  by (cases "j < length xs") (auto simp: list_update_beyond)

lemma count_upto_le: "count_upto P ts c \<le> c"
  by (induction c) auto

definition tasks :: "tstat list \<Rightarrow> task_key \<rightharpoonup> tstat" where
  "tasks ts k = List.find (\<lambda>t. tkey t = k) ts"

lemma tasks_Nil [simp]: "tasks [] = Map.empty"
  by (simp add: tasks_def fun_eq_iff)

lemma tasks_None: "tasks ts k = None \<longleftrightarrow> k \<notin> tkey ` set ts"
  by (auto simp: tasks_def find_None_iff)

lemma dom_tasks: "dom (tasks ts) = tkey ` set ts"
  using tasks_None [of ts] by (auto simp: dom_def)

lemma tasks_snoc: "tkey t \<notin> tkey ` set ts \<Longrightarrow> tasks (ts @ [t]) = (tasks ts)(tkey t \<mapsto> t)"
proof
  fix k
  assume "tkey t \<notin> tkey ` set ts"
  moreover have "tasks (ts @ [t]) k =
      (case tasks ts k of None \<Rightarrow> if tkey t = k then Some t else None | Some u \<Rightarrow> Some u)"
    by (simp add: tasks_def find_append split: option.split)
  ultimately show "tasks (ts @ [t]) k = ((tasks ts)(tkey t \<mapsto> t)) k"
    by (cases "k = tkey t"; cases "tasks ts k") (auto simp: tasks_None [of ts "tkey t", symmetric])
qed

text \<open>The deviation of a present task, given the database \<open>M\<close> of the previous sample.\<close>

definition task_dev :: "(task_key \<rightharpoonup> tstat) \<Rightarrow> count_t \<Rightarrow> tstat \<Rightarrow> tstat \<Rightarrow> tstat" where
  "task_dev M tot junk t =
     calcdiff junk (set_inactive (if idle M t then 1 else 0) t)
       (case M (tkey t) of None \<Rightarrow> tstat0 | Some u \<Rightarrow> u) (M (tkey t) = None) tot"

abbreviation active_proc :: "tstat \<Rightarrow> bool" where
  "active_proc t \<equiv> is_proc t \<and> is_active t"

definition dev_inv :: "(task_key \<rightharpoonup> tstat) \<Rightarrow> count_t \<Rightarrow> tstat list \<Rightarrow> tstat list \<Rightarrow> nat \<Rightarrow> nat \<Rightarrow> devtstat \<Rightarrow> bool" where
  "dev_inv M tot ts0 pres c this dev \<longleftrightarrow>
     length (taskall dev) = length ts0 \<and>
     (\<forall>i. c \<le> i \<longrightarrow> i < length ts0 \<longrightarrow> taskall dev ! i = ts0 ! i) \<and>
     (\<forall>i<c. set_inactive 0 (taskall dev ! i) = set_inactive 0 (task_dev M tot (ts0 ! i) (pres ! i))) \<and>
     nprocall dev = of_nat (count_upto is_proc (taskall dev) c) \<and>
     nprocactive dev = of_nat (count_upto active_proc (taskall dev) c) \<and>
     ntaskactive dev = of_nat (count_upto is_active (taskall dev) c) \<and>
     (0 < c \<longrightarrow> this < c \<and> is_proc (taskall dev ! this))"

lemma dev_after_simps:
  "taskall (dev_after b t this dev) =
     (if b \<or> is_proc t \<or> is_active (taskall dev ! this) then taskall dev
      else (taskall dev)[this := set_inactive 0 (taskall dev ! this)])"
  "nprocall (dev_after b t this dev) = (if is_proc t then nprocall dev + 1 else nprocall dev)"
  "nprocactive (dev_after b t this dev) =
     (if b \<or> \<not> is_proc t \<and> is_active (taskall dev ! this) then nprocactive dev else nprocactive dev + 1)"
  "ntaskactive (dev_after b t this dev) =
     ntaskactive dev + (if b then 0 else if is_proc t \<or> is_active (taskall dev ! this) then 1 else 2)"
  "ntaskall (dev_after b t this dev) = ntaskall dev"
  by (auto simp: dev_after_def bump_def Let_def)

lemma actives_step:
  assumes inv: "dev_inv M tot ts0 pres c this dev" and c: "c < length ts0"
    and prev: "\<not> is_proc t \<Longrightarrow> this < c \<and> is_proc (taskall dev ! this)"
    and dvp: "is_proc dv = is_proc t" "is_active dv = (\<not> idle M t)"
  shows "nprocactive (dev_after (idle M t) t (this_after c t this) dev) =
    of_nat (count_upto active_proc ((taskall (dev_after (idle M t) t (this_after c t this) dev))[c := dv]) (Suc c))"
proof -
  define dev1 where "dev1 = dev_after (idle M t) t (this_after c t this) dev"
  let ?ts = "taskall dev"
  have len: "length ?ts = length ts0" using inv by (simp add: dev_inv_def)
  then have len1: "length (taskall dev1) = length ts0"
    unfolding dev1_def by (simp add: dev_after_simps)
  have "nprocactive dev1 = of_nat (count_upto active_proc ((taskall dev1)[c := dv]) (Suc c))"
  proof (cases "idle M t \<or> is_proc t \<or> is_active (?ts ! this)")
    case True
    then have "taskall dev1 = ?ts" unfolding dev1_def by (auto simp: dev_after_simps this_after_def)
    moreover from True prev have "nprocactive dev1 = nprocactive dev + (if active_proc dv then 1 else 0)"
      using dvp unfolding dev1_def by (auto simp: dev_after_simps this_after_def)
    ultimately show ?thesis using inv c len by (auto simp: dev_inv_def)
  next
    case False
    then have ts1: "taskall dev1 = ?ts[this := set_inactive 0 (?ts ! this)]"
      and np: "nprocactive dev1 = nprocactive dev + 1"
      unfolding dev1_def by (auto simp: dev_after_simps this_after_def)
    have "count_upto active_proc (taskall dev1) c = Suc (count_upto active_proc ?ts c)"
      unfolding ts1 using False prev c len by (intro count_upto_new) auto
    then show ?thesis using False np inv c len1 dvp by (simp add: dev_inv_def)
  qed
  then show ?thesis unfolding dev1_def .
qed

lemma active_tasks_step:
  assumes inv: "dev_inv M tot ts0 pres c this dev" and c: "c < length ts0"
    and prev: "\<not> is_proc t \<Longrightarrow> this < c \<and> is_proc (taskall dev ! this)"
    and dvp: "is_active dv = (\<not> idle M t)"
  shows "ntaskactive (dev_after (idle M t) t (this_after c t this) dev) =
    of_nat (count_upto is_active ((taskall (dev_after (idle M t) t (this_after c t this) dev))[c := dv]) (Suc c))"
proof -
  define dev1 where "dev1 = dev_after (idle M t) t (this_after c t this) dev"
  let ?ts = "taskall dev"
  have len: "length ?ts = length ts0" using inv by (simp add: dev_inv_def)
  then have len1: "length (taskall dev1) = length ts0"
    unfolding dev1_def by (simp add: dev_after_simps)
  have "ntaskactive dev1 = of_nat (count_upto is_active ((taskall dev1)[c := dv]) (Suc c))"
  proof (cases "idle M t \<or> is_proc t \<or> is_active (?ts ! this)")
    case True
    then have "taskall dev1 = ?ts" unfolding dev1_def by (auto simp: dev_after_simps this_after_def)
    moreover from True prev have "ntaskactive dev1 = ntaskactive dev + (if is_active dv then 1 else 0)"
      using dvp unfolding dev1_def by (auto simp: dev_after_simps this_after_def)
    ultimately show ?thesis using inv c len by (auto simp: dev_inv_def)
  next
    case False
    then have ts1: "taskall dev1 = ?ts[this := set_inactive 0 (?ts ! this)]"
      and np: "ntaskactive dev1 = ntaskactive dev + 2"
      unfolding dev1_def by (auto simp: dev_after_simps this_after_def)
    have "count_upto is_active (taskall dev1) c = Suc (count_upto is_active ?ts c)"
      unfolding ts1 using False prev c len by (intro count_upto_new) auto
    then show ?thesis using False np inv c len1 dvp by (simp add: dev_inv_def)
  qed
  then show ?thesis unfolding dev1_def .
qed

lemma dev_inv_step:
  assumes inv: "dev_inv M tot ts0 pres c this dev"
    and c: "c < length ts0" and t: "pres ! c = t" "gen_wasinactive (t_gen t) = 0"
    and first: "c = 0 \<longrightarrow> is_proc t"
    and pre: "\<not> idle M t \<longrightarrow> pre = (case M (tkey t) of None \<Rightarrow> tstat0 | Some u \<Rightarrow> u)"
  defines "dev1 \<equiv> dev_after (idle M t) t (this_after c t this) dev"
  defines "dv \<equiv> calcdiff (taskall dev1 ! c) (set_inactive (if idle M t then 1 else 0) t) pre (M (tkey t) = None) tot"
  shows "c < length (taskall dev1)"
    and "dev_inv M tot ts0 pres (Suc c) (this_after c t this) (dev1\<lparr>taskall := (taskall dev1)[c := dv]\<rparr>)"
proof -
  let ?ts = "taskall dev" and ?th = "this_after c t this"
  have len: "length ?ts = length ts0" using inv by (simp add: dev_inv_def)
  then have len1: "length (taskall dev1) = length ts0"
    unfolding dev1_def by (simp add: dev_after_simps)
  with c show "c < length (taskall dev1)" by simp
  have prev: "\<not> is_proc t \<Longrightarrow> this < c \<and> is_proc (?ts ! this)"
    using inv first by (auto simp: dev_inv_def)
  then have c1: "taskall dev1 ! c = ts0 ! c"
    using inv c unfolding dev1_def by (auto simp: dev_after_simps this_after_def dev_inv_def)
  have old: "set_inactive 0 (taskall dev1 ! i) = set_inactive 0 (?ts ! i)"
    "is_proc (taskall dev1 ! i) = is_proc (?ts ! i)" if "i < length ts0" for i
    using that len unfolding dev1_def by (auto simp: dev_after_simps nth_upd)
  have dv: "dv = task_dev M tot (ts0 ! c) t"
  proof (cases "idle M t")
    case True
    then show ?thesis
      unfolding dv_def task_dev_def by (simp add: calcdiff_inactive [of _ _ pre _ tot "ts0 ! c" t tot] c1)
  next
    case False
    with pre show ?thesis unfolding dv_def task_dev_def by (simp add: c1)
  qed
  have dvp: "is_proc dv = is_proc t" "is_active dv = (\<not> idle M t)"
    by (simp_all add: dv_def)
  have act: "nprocactive dev1 = of_nat (count_upto active_proc ((taskall dev1)[c := dv]) (Suc c))"
    unfolding dev1_def by (rule actives_step [OF inv c prev dvp])
  have tact: "ntaskactive dev1 = of_nat (count_upto is_active ((taskall dev1)[c := dv]) (Suc c))"
    unfolding dev1_def by (rule active_tasks_step [OF inv c prev dvp(2)])
  have all: "nprocall dev1 = of_nat (count_upto is_proc ((taskall dev1)[c := dv]) (Suc c))"
  proof -
    have "count_upto is_proc (taskall dev1) c = count_upto is_proc ?ts c"
      using old(2) c by (intro count_upto_cong) auto
    then show ?thesis
      using inv c len1 dvp unfolding dev1_def by (simp add: dev_inv_def dev_after_simps)
  qed
  have "?th < Suc c \<and> is_proc ((taskall dev1)[c := dv] ! ?th)"
  proof (cases "is_proc t")
    case True
    then show ?thesis using c len1 dvp by (simp add: this_after_def)
  next
    case False
    with prev have "this < c" "is_proc (taskall dev1 ! this)" using old(2) c by auto
    with False show ?thesis by (simp add: this_after_def)
  qed
  moreover have "set_inactive 0 ((taskall dev1)[c := dv] ! i) =
      set_inactive 0 (task_dev M tot (ts0 ! i) (pres ! i))" if "i < Suc c" for i
  proof (cases "i = c")
    case True
    then show ?thesis using c len1 dv t(1) by simp
  next
    case False
    then have "i < c" using that by simp
    then show ?thesis using inv c old(1) [of i] by (simp add: dev_inv_def)
  qed
  moreover have "(taskall dev1)[c := dv] ! i = ts0 ! i" if "Suc c \<le> i" "i < length ts0" for i
    using that inv prev unfolding dev1_def
    by (auto simp: dev_inv_def dev_after_simps this_after_def)
  ultimately show "dev_inv M tot ts0 pres (Suc c) ?th (dev1\<lparr>taskall := (taskall dev1)[c := dv]\<rparr>)"
    unfolding dev_inv_def using len1 all act tact by simp
qed

text \<open>
  A sample of present tasks that fits the database \<open>M\<close>: no task twice, no task whose id was
  reused since the previous sample, no leftover activity flags, and the first task is a process.
\<close>

definition fits :: "(task_key \<rightharpoonup> tstat) \<Rightarrow> tstat list \<Rightarrow> bool" where
  "fits M pres \<longleftrightarrow> distinct (map tkey pres) \<and> (\<forall>t\<in>set pres. gen_wasinactive (t_gen t) = 0) \<and>
     (\<forall>t\<in>set pres. \<forall>u. M (tkey t) = Some u \<longrightarrow> btime_near (gen_btime (t_gen u)) (gen_btime (t_gen t))) \<and>
     (pres \<noteq> [] \<longrightarrow> is_proc (hd pres))"

definition pres_inv :: "(task_key \<rightharpoonup> tstat) \<Rightarrow> count_t \<Rightarrow> tstat list \<Rightarrow> tstat list \<Rightarrow> nat \<Rightarrow> dtask \<Rightarrow> bool" where
  "pres_inv M tot ts0 pres c s \<longleftrightarrow>
     length (dt_pres s) = length pres \<and>
     (\<forall>i. c \<le> i \<longrightarrow> i < length pres \<longrightarrow> dt_pres s ! i = pres ! i) \<and>
     task_abs (dt_pdb s) (M ++ tasks (take c pres)) (dom M - tkey ` set (take c pres)) \<and>
     dev_inv M tot ts0 pres c (dt_this s) (dt_dev s)"

text \<open>What the loop over the present tasks leaves alone.\<close>

definition same_rest :: "dtask \<Rightarrow> dtask \<Rightarrow> bool" where
  "same_rest s s' \<longleftrightarrow> dt_exit s' = dt_exit s \<and> dt_net s' = dt_net s \<and> ntaskall (dt_dev s') = ntaskall (dt_dev s)"

lemma fits_next:
  assumes "fits M pres" and "c < length pres"
  shows "tkey (pres ! c) \<notin> tkey ` set (take c pres)"
    and "(M ++ tasks (take c pres)) (tkey (pres ! c)) = M (tkey (pres ! c))"
proof -
  have "distinct (map tkey (take (Suc c) pres))"
    using assms(1) unfolding fits_def by (metis distinct_take take_map)
  then show k: "tkey (pres ! c) \<notin> tkey ` set (take c pres)"
    using assms(2) by (simp add: take_Suc_conv_app_nth)
  then show "(M ++ tasks (take c pres)) (tkey (pres ! c)) = M (tkey (pres ! c))"
    by (simp add: map_add_def tasks_None [THEN iffD2])
qed

lemma present_task_ok:
  assumes inv: "pres_inv M tot ts0 pres c s" and fit: "fits M pres" and al: "fresh_nodes al"
    and c: "c < length pres" "length pres \<le> length ts0"
  shows "no_memory al (present_task al tot c s) \<or>
    (\<exists>s'. present_task al tot c s = Some (Inr s') \<and> pres_inv M tot ts0 pres (Suc c) s' \<and> same_rest s s')"
proof -
  let ?t = "pres ! c" and ?M = "M ++ tasks (take c pres)"
  note nxt = fits_next [OF fit c(1)]
  have t: "c < length (dt_pres s)" "dt_pres s ! c = ?t" "gen_wasinactive (t_gen ?t) = 0"
    "task_abs (dt_pdb s) ?M (dom M - tkey ` set (take c pres))"
    "\<And>u. M (tkey ?t) = Some u \<Longrightarrow> btime_near (gen_btime (t_gen u)) (gen_btime (t_gen ?t))"
    using inv fit c(1) by (auto simp: pres_inv_def fits_def)
  have dev: "dev_inv M tot ts0 pres c (dt_this s) (dt_dev s)" using inv by (simp add: pres_inv_def)
  have first: "c = 0 \<longrightarrow> is_proc ?t"
    using fit c(1) by (auto simp: fits_def hd_conv_nth)
  have prev: "is_proc ?t \<or> dt_this s < length (taskall (dt_dev s))"
    using dev first c by (cases "c = 0") (auto simp: dev_inv_def)
  have abs': "?M(tkey ?t \<mapsto> ?t) = M ++ tasks (take (Suc c) pres)"
    "(dom M - tkey ` set (take c pres)) - {tkey ?t} = dom M - tkey ` set (take (Suc c) pres)"
    using c(1) nxt(1) by (auto simp: take_Suc_conv_app_nth tasks_snoc)
  from compare_task_ok [OF t(1-4) _ al prev] t(5) nxt(2) consider
      (exit) "no_memory al (compare_task al c s)"
    | (ok) d pre where "compare_task al c s =
       Some (Inr (s\<lparr>dt_this := this_after c ?t (dt_this s), dt_pdb := d, dt_pre := pre,
                    dt_dev := dev_after (idle M ?t) ?t (this_after c ?t (dt_this s)) (dt_dev s),
                    dt_pres := (dt_pres s)[c := set_inactive (if idle M ?t then 1 else 0) ?t]\<rparr>,
                  M (tkey ?t) = None))"
       "task_abs d (?M(tkey ?t \<mapsto> ?t)) ((dom M - tkey ` set (take c pres)) - {tkey ?t})"
       "\<not> idle M ?t \<longrightarrow> pre = (case M (tkey ?t) of None \<Rightarrow> tstat0 | Some u \<Rightarrow> u)"
    by auto
  then show ?thesis
  proof cases
    case exit
    then show ?thesis by (simp add: present_task_def)
  next
    case ok
    have "c < length ts0" using c by simp
    note step = dev_inv_step [OF dev this refl t(3) first ok(3)]
    then show ?thesis
      using ok(1,2) t(1) inv abs'
      by (auto simp: present_task_def pres_inv_def same_rest_def dev_after_simps)
  qed
qed

lemma present_loop_ok:
  assumes "pres_inv M tot ts0 pres c s" and "fits M pres" and "fresh_nodes al"
    and "c \<le> length pres" and "length pres \<le> length ts0"
  shows "no_memory al (present_loop al tot [c..<length pres] s) \<or>
    (\<exists>s'. present_loop al tot [c..<length pres] s = Some (Inr s') \<and>
       pres_inv M tot ts0 pres (length pres) s' \<and> same_rest s s')"
  using assms(1,4)
proof (induction "length pres - c" arbitrary: c s)
  case 0
  then show ?case by (simp add: same_rest_def)
next
  case (Suc m)
  then have c: "c < length pres" by simp
  then have upt: "[c..<length pres] = c # [Suc c..<length pres]" by (rule upt_conv_Cons)
  from present_task_ok [OF Suc.prems(1) assms(2,3) c assms(5)]
  consider (exit) "no_memory al (present_task al tot c s)"
    | (ok) s1 where "present_task al tot c s = Some (Inr s1)" "pres_inv M tot ts0 pres (Suc c) s1" "same_rest s s1"
    by blast
  then show ?case
  proof cases
    case exit
    then show ?thesis by (simp add: upt)
  next
    case ok
    from Suc.hyps(1) [OF _ ok(2)] Suc.hyps(2) c ok(1,3) show ?thesis
      by (auto simp: upt same_rest_def)
  qed
qed

section \<open>The loop over the exited processes\<close>

text \<open>
  Exit records that fit the present tasks: they are processes, and none of them is a process
  that is still present.
\<close>

definition exit_fits :: "tstat list \<Rightarrow> tstat \<Rightarrow> bool" where
  "exit_fits pres e \<longleftrightarrow> is_proc e \<and> 0 \<le>s gen_pid (t_gen e) \<and>
     (gen_pid (t_gen e) \<noteq> 0 \<longrightarrow>
        (\<forall>t\<in>set pres. tkey t = Task_Key (gen_pid (t_gen e)) 1 \<longrightarrow>
           \<not> btime_near (gen_btime (t_gen t)) (gen_btime (t_gen e))))"

text \<open>The tasks that were referred to are exactly \<open>P\<close>.\<close>

definition referred :: "pdb \<Rightarrow> (task_key \<rightharpoonup> tstat) \<Rightarrow> bool" where
  "referred d P \<longleftrightarrow> (\<exists>M R. task_abs d M R \<and> M |` (- R) = P)"

lemma referred_cut:
  assumes "task_abs d M R" and "M |` (- R) = P" and "k \<notin> dom P"
    and "task_abs d' (M(k := None)) (R - {k})"
  shows "referred d' P"
proof -
  have "M(k := None) |` (- (R - {k})) = P"
    using assms(2,3) by (auto simp: restrict_map_def fun_eq_iff dom_def split: if_splits)
  then show ?thesis using assms(4) unfolding referred_def by blast
qed

lemma sless_0_pid: "0 \<le>s (w :: i32) \<Longrightarrow> w \<noteq> 0 \<Longrightarrow> 0 <s w"
  by (simp add: word_sless_alt word_sle_eq order_less_le) (metis signed_0 signed_word_eqI)

definition forget :: "tstat \<Rightarrow> pdb \<Rightarrow> pdb option" where
  "forget prestat db =
     (if 0 <s gen_pid (t_gen prestat)
      then map_option fst (pdb_deltask db (gen_pid (t_gen prestat)) (gen_isproc (t_gen prestat)))
      else Some db)"

lemma forget_ok:
  assumes "task_abs d M R" and "M (tkey pre) = Some pre"
  shows "\<exists>d'. forget pre d = Some d' \<and>
    (if 0 <s gen_pid (t_gen pre) then task_abs d' (M(tkey pre := None)) (R - {tkey pre}) else d' = d)"
  using deltask_abs [OF assms(1), of "gen_pid (t_gen pre)" "gen_isproc (t_gen pre)" pre] assms(2)
  by (auto simp: forget_def tkey_def)

lemma forget_tstat0 [simp]: "forget tstat0 d = Some d"
  by (simp add: forget_def)

lemma exit_pid_ok:
  assumes abs: "task_abs d M R" "M |` (- R) = tasks pres" and e: "exit_fits pres e"
    and pid: "gen_pid (t_gen e) \<noteq> 0"
  shows "\<exists>d1 pre d2. exit_prestat pretime e d = Some (d1, pre) \<and> forget pre d1 = Some d2 \<and>
    referred d2 (tasks pres)"
proof (cases "\<exists>t. M (Task_Key (gen_pid (t_gen e)) 1) = Some t \<and> btime_near (gen_btime (t_gen t)) (gen_btime (t_gen e))")
  let ?k = "Task_Key (gen_pid (t_gen e)) 1" and ?bt = "gen_btime (t_gen e)"
  case True
  then obtain t where t: "M ?k = Some t" "btime_near (gen_btime (t_gen t)) ?bt" by blast
  have key: "tkey t = ?k" using task_abs_key [OF abs(1) t(1)] .
  obtain d1 a n where g: "pdb_gettask d (gen_pid (t_gen e)) 1 ?bt = Some (d1, Some a)" "pheap d1 a = Some n"
    "p_tstat n = t" "task_abs d1 M (R - {?k})"
    using gettask_hit [OF abs(1) t] by blast
  have pos: "0 <s gen_pid (t_gen t)"
    using key e pid sless_0_pid by (auto simp: tkey_def exit_fits_def)
  have "?k \<notin> dom (tasks pres)"
  proof
    assume "?k \<in> dom (tasks pres)"
    then obtain t' where "tasks pres ?k = Some t'" by auto
    moreover from this have "t' = t"
      using abs(2) t(1) by (auto simp: restrict_map_def fun_eq_iff split: if_splits dest!: spec [of _ ?k])
    ultimately have "t \<in> set pres" by (auto simp: tasks_def dest: find_SomeD)
    with e pid key t(2) show False by (auto simp: exit_fits_def)
  qed
  moreover obtain d2 where "forget t d1 = Some d2" "task_abs d2 (M(?k := None)) (R - {?k})"
    using forget_ok [OF g(4), of t] pos key t(1) by auto
  ultimately have "referred d2 (tasks pres)" using referred_cut [OF abs] by blast
  with \<open>forget t d1 = Some d2\<close> g pid show ?thesis by (simp add: exit_prestat_def rd_def)
next
  case False
  then obtain d1 where "pdb_gettask d (gen_pid (t_gen e)) 1 (gen_btime (t_gen e)) = Some (d1, None)" "task_abs d1 M R"
    using gettask_miss [OF abs(1)] by blast
  with pid abs(2) show ?thesis by (auto simp: exit_prestat_def referred_def)
qed

lemma exit_search_ok:
  assumes abs: "task_abs d M R" "M |` (- R) = tasks pres" and pid: "gen_pid (t_gen e) = 0"
  shows "\<exists>d1 pre d2. exit_prestat pretime e d = Some (d1, pre) \<and> forget pre d1 = Some d2 \<and>
    referred d2 (tasks pres)"
proof -
  have ref: "referred d (tasks pres)" using abs by (auto simp: referred_def)
  from srchresidue_abs [OF abs(1), of e] consider
      (young) "pretime <s gen_btime (t_gen e)"
    | (none) "\<not> pretime <s gen_btime (t_gen e)" "pdb_srchresidue d e = Some None"
    | (some) a n where "\<not> pretime <s gen_btime (t_gen e)" "pdb_srchresidue d e = Some (Some a)"
        "pheap d a = Some n" "tkey (p_tstat n) \<in> R" "M (tkey (p_tstat n)) = Some (p_tstat n)"
    by blast
  then show ?thesis
  proof cases
    case some
    obtain d2 where d2: "forget (p_tstat n) d = Some d2"
      "if 0 <s gen_pid (t_gen (p_tstat n)) then task_abs d2 (M(tkey (p_tstat n) := None)) (R - {tkey (p_tstat n)})
       else d2 = d"
      using forget_ok [OF abs(1) some(5)] by blast
    have "tkey (p_tstat n) \<notin> dom (tasks pres)" using some(4) by (auto simp flip: abs(2))
    then have "referred d2 (tasks pres)"
      using d2(2) ref referred_cut [OF abs] by (auto split: if_splits)
    with d2(1) some pid show ?thesis by (simp add: exit_prestat_def rd_def)
  qed (use ref pid in \<open>simp_all add: exit_prestat_def\<close>)
qed

lemma exit_db_ok:
  assumes "referred d (tasks pres)" and "exit_fits pres e"
  shows "\<exists>d1 pre d2. exit_prestat pretime e d = Some (d1, pre) \<and> forget pre d1 = Some d2 \<and>
    referred d2 (tasks pres)"
proof -
  obtain M R where abs: "task_abs d M R" "M |` (- R) = tasks pres"
    using assms(1) by (auto simp: referred_def)
  from exit_pid_ok [OF abs assms(2)] exit_search_ok [OF abs] show ?thesis
    by (cases "gen_pid (t_gen e) = 0") blast+
qed

text \<open>The netatop store during the loop.\<close>

definition net_ready :: "char \<Rightarrow> netatop \<Rightarrow> bool" where
  "net_ready ht net \<longleftrightarrow> (ht = CHR ''p'' \<or> ht = CHR ''b'') \<and>
     (supportflags net AND NETATOPD \<noteq> 0 \<longrightarrow> exithash net = ht \<and> (\<exists>n. hashed net ht n))"

lemma exitfind_ready:
  assumes "net_ready ht net" and "supportflags net AND NETATOPD \<noteq> 0"
  shows "\<exists>net' dev'. netatop_exitfind key dev pre net = Some (net', dev') \<and> net_ready ht net' \<and>
    t_gen dev' = t_gen dev"
proof -
  obtain n where n: "hashed net ht n" "exithash net = ht" "ht = CHR ''p'' \<or> ht = CHR ''b''"
    using assms by (auto simp: net_ready_def)
  show ?thesis
  proof (cases "ht = CHR ''p''")
    case True
    with n exitfind_pid [of net n key dev pre] assms show ?thesis by (auto split: option.split)
  next
    case False
    then have b: "ht = CHR ''b''" using n(3) by simp
    let ?net = "net\<lparr>exitall := use_up key pre {0..<n} (exitall net)\<rparr>"
    have "net_ready ht ?net"
      using hashed_use_up [OF n(1), of key pre "{0..<n}"] n(2,3) assms(1) by (auto simp: net_ready_def)
    with b n exitfind_btime [of net n key dev pre] show ?thesis by (auto split: option.split)
  qed
qed

lemma exitfind_maybe:
  assumes "net_ready ht net"
  shows "\<exists>net' dev'. (if supportflags net AND NETATOPD \<noteq> 0 then netatop_exitfind key dev pre net
      else Some (net, dev)) = Some (net', dev') \<and> net_ready ht net' \<and> t_gen dev' = t_gen dev"
  using exitfind_ready [OF assms, of key dev pre] assms
  by (cases "supportflags net AND NETATOPD \<noteq> 0") simp_all

text \<open>The deviations while \<open>c\<close> tasks are done; the first \<open>np\<close> entries stay as \<open>ts1\<close>.\<close>

definition exit_inv :: "tstat list \<Rightarrow> tstat list \<Rightarrow> char \<Rightarrow> tstat list \<Rightarrow> nat \<Rightarrow> dtask \<Rightarrow> bool" where
  "exit_inv pres ex ht ts1 c s \<longleftrightarrow>
     length (dt_exit s) = length ex \<and> (\<forall>i. c \<le> i \<longrightarrow> i < length ex \<longrightarrow> dt_exit s ! i = ex ! i) \<and>
     referred (dt_pdb s) (tasks pres) \<and> (ex = [] \<or> net_ready ht (dt_net s)) \<and>
     length (taskall (dt_dev s)) = length ts1 \<and>
     (\<forall>i < length pres. taskall (dt_dev s) ! i = ts1 ! i) \<and>
     ntaskall (dt_dev s) = of_nat (length ts1) \<and>
     nprocall (dt_dev s) = of_nat (count_upto is_proc (taskall (dt_dev s)) (length pres + c)) \<and>
     nprocactive (dt_dev s) = of_nat (count_upto active_proc (taskall (dt_dev s)) (length pres + c)) \<and>
     ntaskactive (dt_dev s) = of_nat (count_upto is_active (taskall (dt_dev s)) (length pres + c))"

lemma exited_task_ok:
  assumes inv: "exit_inv pres ex ht ts1 c s" and e: "exit_fits pres (ex ! c)"
    and c: "c < length ex" "length pres + length ex \<le> length ts1"
  shows "\<exists>s'. exited_task pretime ht (length pres + c) c s = Some s' \<and> exit_inv pres ex ht ts1 (Suc c) s'"
proof -
  let ?e = "set_inactive 0 (ex ! c)"
  have fit: "exit_fits pres ?e" using e by (simp add: exit_fits_def)
  have s: "c < length (dt_exit s)" "dt_exit s ! c = ex ! c" "referred (dt_pdb s) (tasks pres)"
    "net_ready ht (dt_net s)" "length pres + c < length (taskall (dt_dev s))"
    using inv c by (auto simp: exit_inv_def)
  obtain d1 pre d2 where d: "exit_prestat pretime ?e (dt_pdb s) = Some (d1, pre)" "forget pre d1 = Some d2"
    "referred d2 (tasks pres)"
    using exit_db_ok [OF s(3) fit] by blast
  let ?val = "if ht = CHR ''p'' then scast (gen_pid (t_gen ?e)) else gen_btime (t_gen ?e)"
  obtain net dv where n: "(if supportflags (dt_net s) AND NETATOPD \<noteq> 0
      then netatop_exitfind ?val (exit_devstat ?e pre) pre (dt_net s)
      else Some (dt_net s, exit_devstat ?e pre)) = Some (net, dv)"
    "net_ready ht net" "t_gen dv = t_gen (exit_devstat ?e pre)"
    using exitfind_maybe [OF s(4)] by blast
  have dv: "is_proc dv" "is_active dv" using n(3) e by (auto simp: exit_fits_def)
  let ?s = "s\<lparr>dt_exit := (dt_exit s)[c := ?e],
      dt_dev := (dt_dev s)\<lparr>nprocall := nprocall (dt_dev s) + 1, nprocactive := nprocactive (dt_dev s) + 1,
        ntaskactive := ntaskactive (dt_dev s) + 1, taskall := (taskall (dt_dev s))[length pres + c := dv]\<rparr>,
      dt_pdb := d2, dt_net := net, dt_pre := pre\<rparr>"
  have "exited_task pretime ht (length pres + c) c s = Some ?s"
    using s(1,2,5) d(1,2) n(1) by (simp add: exited_task_def Let_def forget_def)
  moreover have "exit_inv pres ex ht ts1 (Suc c) ?s"
    using inv d(3) n(2) dv s(5) by (auto simp: exit_inv_def)
  ultimately show ?thesis by blast
qed

lemma exited_loop_ok:
  assumes "exit_inv pres ex ht ts1 c s" and "\<forall>e\<in>set ex. exit_fits pres e"
    and "c \<le> length ex" and "length pres + length ex \<le> length ts1"
  shows "\<exists>s'. exited_loop pretime ht (length pres + c) [c..<length ex] s = Some s' \<and>
    exit_inv pres ex ht ts1 (length ex) s'"
  using assms(1,3)
proof (induction "length ex - c" arbitrary: c s)
  case 0
  then show ?case by simp
next
  case (Suc m)
  then have c: "c < length ex" by simp
  then have upt: "[c..<length ex] = c # [Suc c..<length ex]" by (rule upt_conv_Cons)
  obtain s1 where s1: "exited_task pretime ht (length pres + c) c s = Some s1" "exit_inv pres ex ht ts1 (Suc c) s1"
    using exited_task_ok [OF Suc.prems(1) _ c assms(4)] assms(2) c by (metis nth_mem)
  from Suc.hyps(1) [OF _ s1(2)] Suc.hyps(2) c s1(1) show ?case by (auto simp: upt)
qed

lemma exit_prepare_ok:
  assumes "supportflags (dt_net s) AND NETATOPD \<noteq> 0 \<Longrightarrow>
      esbucket (dt_net s) = (\<lambda>_. None) \<and> nat (sint (exitnum (dt_net s))) \<le> length (exitall (dt_net s))"
  shows "\<exists>ht net. exit_prepare s = Some (ht, s\<lparr>dt_net := net\<rparr>) \<and> (dt_exit s = [] \<or> net_ready ht net)"
proof (cases "supportflags (dt_net s) AND NETATOPD = 0")
  case True
  then show ?thesis
    by (cases "dt_exit s") (auto simp: exit_prepare_def net_ready_def intro!: exI [of _ "dt_net s"])
next
  case False
  show ?thesis
  proof (cases "dt_exit s")
    case Nil
    then show ?thesis by (auto simp: exit_prepare_def intro!: exI [of _ "dt_net s"])
  next
    case (Cons t es)
  let ?ht = "if truth (gen_pid (t_gen t)) then CHR ''p'' else CHR ''b''"
  obtain net where "netatop_exithash ?ht (dt_net s) = Some net" "hashed net ?ht (nat (sint (exitnum (dt_net s))))"
    "exithash net = ?ht"
    using netatop_exithash_hashed assms(1) [OF False] by blast
  with False Cons show ?thesis
    by (auto simp: exit_prepare_def net_ready_def Let_def intro!: exI [of _ net])
  qed
qed

section \<open>The pointer lists\<close>

abbreviation indices :: "('a \<Rightarrow> bool) \<Rightarrow> 'a list \<Rightarrow> nat list \<Rightarrow> nat list" where
  "indices P ts cs \<equiv> filter (\<lambda>i. P (ts ! i)) cs"

lemma fill_lists_ok:
  "(\<forall>c\<in>set cs. c < length ts) \<Longrightarrow> length all = pall + length (indices is_proc ts cs) \<Longrightarrow>
   length act = pact + length (indices active_proc ts cs) \<Longrightarrow>
   fill_lists ts cs pall pact (all, act) =
     Some (take pall all @ indices is_proc ts cs, take pact act @ indices active_proc ts cs)"
proof (induction cs arbitrary: pall pact all act)
  case (Cons c cs)
  have upd: "take (Suc n) (xs[n := c]) = take n xs @ [c]" if "n < length xs" for n and xs :: "nat list"
    using that by (simp add: take_Suc_conv_app_nth)
  show ?case
    using Cons.prems Cons.IH [of "all[pall := c]" "Suc pall" act pact]
      Cons.IH [of "all[pall := c]" "Suc pall" "act[pact := c]" "Suc pact"] Cons.IH [of all pall act pact]
    by (auto simp: upd)
qed simp

lemma make_lists_ok:
  assumes al: "\<And>n ps. al_ptrs al n = Some ps \<Longrightarrow> length ps = n"
    and n: "length (taskall dev) < 2 ^ 64" "ntaskall dev = of_nat (length (taskall dev))"
    and cnt: "nprocall dev = of_nat (count_upto is_proc (taskall dev) (length (taskall dev)))"
      "nprocactive dev = of_nat (count_upto active_proc (taskall dev) (length (taskall dev)))"
  shows "no_memory al (make_lists al dev) \<or>
    make_lists al dev = Some (Inr (dev\<lparr>
      procall := indices is_proc (taskall dev) [0..<length (taskall dev)],
      procactive := indices active_proc (taskall dev) [0..<length (taskall dev)]\<rparr>))"
proof -
  let ?ts = "taskall dev"
  have un: "unat (of_nat k :: u64) = k" if "k \<le> length ?ts" for k
    using that n(1) by (simp add: unat_of_nat)
  have "unat (nprocall dev) = length (indices is_proc ?ts [0..<length ?ts])"
    "unat (nprocactive dev) = length (indices active_proc ?ts [0..<length ?ts])"
    using cnt un [OF count_upto_le] by (simp_all add: count_upto_def)
  then show ?thesis
    using al fill_lists_ok [of "[0..<length ?ts]" ?ts _ 0 _ 0] n(2) un [of "length ?ts"]
    by (auto simp: make_lists_def alloc_total_def split: option.splits)
qed

section \<open>A whole run\<close>

text \<open>What a run leaves behind; \<open>ts0\<close> is the array \<open>taskall\<close> as \<open>malloc\<close> delivered it.\<close>

definition sampled :: "(task_key \<rightharpoonup> tstat) \<Rightarrow> count_t \<Rightarrow> tstat list \<Rightarrow> tstat list \<Rightarrow> tstat list \<Rightarrow> dtask \<Rightarrow> bool" where
  "sampled M tot ts0 pres ex s \<longleftrightarrow>
     task_abs (dt_pdb s) (tasks pres) {} \<and>
     length (taskall (dt_dev s)) = length pres + length ex \<and>
     procall (dt_dev s) = indices is_proc (taskall (dt_dev s)) [0..<length pres + length ex] \<and>
     procactive (dt_dev s) = indices active_proc (taskall (dt_dev s)) [0..<length pres + length ex] \<and>
     unat (nprocall (dt_dev s)) = length (procall (dt_dev s)) \<and>
     unat (nprocactive (dt_dev s)) = length (procactive (dt_dev s)) \<and>
     ntaskall (dt_dev s) = of_nat (length pres + length ex) \<and>
     ntaskactive (dt_dev s) = of_nat (length (indices is_active (taskall (dt_dev s)) [0..<length pres + length ex])) \<and>
     (\<forall>i < length pres. set_inactive 0 (taskall (dt_dev s) ! i) =
        set_inactive 0 (task_dev M tot (ts0 ! i) (pres ! i)))"

lemma referred_all:
  assumes "task_abs d (M ++ tasks pres) (dom M - tkey ` set pres)"
  shows "referred d (tasks pres)"
proof -
  have "(M ++ tasks pres) |` (- (dom M - tkey ` set pres)) = tasks pres"
  proof
    fix k
    show "((M ++ tasks pres) |` (- (dom M - tkey ` set pres))) k = tasks pres k"
      using tasks_None [of pres k]
      by (cases "tasks pres k") (auto simp: restrict_map_def map_add_def)
  qed
  with assms show ?thesis unfolding referred_def by blast
qed

lemma after_present_ok:
  assumes inv: "pres_inv M tot ts0 pres (length pres) s" and s: "dt_exit s = ex"
      "ntaskall (dt_dev s) = of_nat (length pres + length ex)" "length ts0 = length pres + length ex"
    and ex: "\<forall>e\<in>set ex. exit_fits pres e"
    and al: "\<And>n ps. al_ptrs al n = Some ps \<Longrightarrow> length ps = n"
    and net: "supportflags (dt_net s) AND NETATOPD \<noteq> 0 \<Longrightarrow> esbucket (dt_net s) = (\<lambda>_. None) \<and>
      nat (sint (exitnum (dt_net s))) \<le> length (exitall (dt_net s))"
    and n: "length pres + length ex < 2 ^ 64"
  shows "no_memory al (after_present al pretime (length pres) s) \<or>
    (\<exists>s'. after_present al pretime (length pres) s = Some (Inr s') \<and> sampled M tot ts0 pres ex s')"
proof -
  let ?ts1 = "taskall (dt_dev s)"
  have dev: "dev_inv M tot ts0 pres (length pres) (dt_this s) (dt_dev s)" and
    abs: "task_abs (dt_pdb s) (M ++ tasks pres) (dom M - tkey ` set pres)"
    using inv by (auto simp: pres_inv_def)
  have len: "length ?ts1 = length pres + length ex" using dev s(3) by (simp add: dev_inv_def)
  obtain ht nt where pre: "exit_prepare s = Some (ht, s\<lparr>dt_net := nt\<rparr>)" "ex = [] \<or> net_ready ht nt"
    using exit_prepare_ok net s(1) by blast
  have "exit_inv pres ex ht ?ts1 0 (s\<lparr>dt_net := nt\<rparr>)"
    using dev referred_all [OF abs] pre(2) s len by (auto simp: exit_inv_def dev_inv_def)
  from exited_loop_ok [OF this ex] len obtain s3 where
    s3: "exited_loop pretime ht (length pres) [0..<length ex] (s\<lparr>dt_net := nt\<rparr>) = Some s3"
      "exit_inv pres ex ht ?ts1 (length ex) s3"
    by auto
  obtain M' R where abs': "task_abs (dt_pdb s3) M' R" "M' |` (- R) = tasks pres"
    using s3(2) by (auto simp: exit_inv_def referred_def)
  obtain d where d: "pdb_cleanresidue (dt_pdb s3) = Some d" "task_abs d (tasks pres) {}"
    using cleanresidue_abs [OF abs'(1)] abs'(2) by auto
  let ?dev = "dt_dev s3"
  have len3: "length (taskall ?dev) = length pres + length ex" using s3(2) len by (simp add: exit_inv_def)
  have cnt: "ntaskall ?dev = of_nat (length (taskall ?dev))"
    "nprocall ?dev = of_nat (count_upto is_proc (taskall ?dev) (length (taskall ?dev)))"
    "nprocactive ?dev = of_nat (count_upto active_proc (taskall ?dev) (length (taskall ?dev)))"
    "ntaskactive ?dev = of_nat (count_upto is_active (taskall ?dev) (length (taskall ?dev)))"
    "\<forall>i < length pres. taskall ?dev ! i = ?ts1 ! i"
    using s3(2) len len3 by (auto simp: exit_inv_def)
  have un: "unat (of_nat (count_upto P (taskall ?dev) k) :: u64) = count_upto P (taskall ?dev) k"
    if "k = length pres + length ex" for P k
    using count_upto_le [of P "taskall ?dev" k] that n by (simp add: unat_of_nat)
  from make_lists_ok [OF al _ cnt(1-3)] len3 n
  consider (exit) "no_memory al (make_lists al ?dev)"
    | (ok) "make_lists al ?dev = Some (Inr (?dev\<lparr>
        procall := indices is_proc (taskall ?dev) [0..<length (taskall ?dev)],
        procactive := indices active_proc (taskall ?dev) [0..<length (taskall ?dev)]\<rparr>))"
    by auto
  then show ?thesis
  proof cases
    case exit
    then show ?thesis using pre(1) s3(1) d(1) s(1) by (simp add: after_present_def Let_def)
  next
    case ok
    then show ?thesis
      using pre(1) s3(1) d s(1) len3 cnt dev un [OF refl]
      by (auto simp: after_present_def Let_def sampled_def dev_inv_def count_upto_def)
  qed
qed

lemma deviattask_ok:
  assumes db: "task_db d M" and fit: "fits M pres" and ex: "\<forall>e\<in>set ex. exit_fits pres e"
    and al: "fresh_nodes al" "\<And>n ts. al_tasks al n = Some ts \<Longrightarrow> length ts = n"
      "\<And>n ps. al_ptrs al n = Some ps \<Longrightarrow> length ps = n"
    and net: "supportflags net AND NETATOPD \<noteq> 0 \<Longrightarrow>
      esbucket net = (\<lambda>_. None) \<and> nat (sint (exitnum net)) \<le> length (exitall net)"
    and n: "length pres + length ex < 2 ^ 64"
  shows "no_memory al (deviattask al pretime tot junk pres ex d net) \<or>
    (\<exists>s ts0. deviattask al pretime tot junk pres ex d net = Some (Inr s) \<and>
       al_tasks al (length pres + length ex) = Some ts0 \<and> sampled M tot ts0 pres ex s)"
proof -
  obtain d1 where d1: "pdb_makeresidue d = Some d1" "task_abs d1 M (dom M)"
    using makeresidue_abs [OF db] by blast
  show ?thesis
  proof (cases "al_tasks al (length pres + length ex)")
    case None
    then show ?thesis using d1(1) by (auto simp: deviattask_def alloc_total_def)
  next
    case (Some ts0)
    let ?s = "\<lparr>dt_pres = pres, dt_exit = ex, dt_pdb = d1, dt_net = net,
      dt_dev = devtstat0\<lparr>taskall := ts0, ntaskall := of_nat (length pres + length ex)\<rparr>,
      dt_this = 0, dt_pre = junk\<rparr>"
    have len: "length ts0 = length pres + length ex" using al(2) Some by simp
    have "pres_inv M tot ts0 pres 0 ?s"
      using d1(2) by (simp add: pres_inv_def dev_inv_def devtstat0_def)
    from present_loop_ok [OF this fit al(1)] len
    consider (exit) "no_memory al (present_loop al tot [0..<length pres] ?s)"
      | (ok) s1 where "present_loop al tot [0..<length pres] ?s = Some (Inr s1)"
          "pres_inv M tot ts0 pres (length pres) s1" "same_rest ?s s1"
      by auto
    then show ?thesis
    proof cases
      case exit
      then show ?thesis using d1(1) Some by (simp add: deviattask_def Let_def)
    next
      case ok
      from after_present_ok [OF ok(2) _ _ len ex al(3), of _ pretime] ok(3) net n
      have "no_memory al (after_present al pretime (length pres) s1) \<or>
        (\<exists>s'. after_present al pretime (length pres) s1 = Some (Inr s') \<and> sampled M tot ts0 pres ex s')"
        by (auto simp: same_rest_def)
      then show ?thesis using d1(1) Some ok(1) by (auto simp: deviattask_def Let_def)
    qed
  qed
qed

section \<open>Properties\<close>

text \<open>
  C29: Subtraction of counters.  A counter that did not decrease gives the exact difference, and a
  32-bit kernel counter that wrapped around gives the difference modulo 2^32; the result is never
  negative.
\<close>

theorem subcount_modular:
  assumes "0 \<le> sint newval" and "0 \<le> sint oldval"
    and "sint oldval \<le> sint newval \<or> sint oldval < 2 ^ 32"
  shows "0 \<le> sint (subcount newval oldval) \<and>
    sint (subcount newval oldval) =
      (if sint oldval \<le> sint newval then sint newval - sint oldval
       else (sint newval - sint oldval) mod 2 ^ 32)"
proof (cases "sint oldval \<le> sint newval")
  case True
  then have "sint (newval - oldval) = sint newval - sint oldval"
    using assms(1,2) sint_range_64(2) [of newval] by (intro sint_diff_64) auto
  with True show ?thesis by (simp add: subcount_def word_sle_eq)
next
  case False
  with assms have b: "sint oldval < 2 ^ 32" "sint newval < sint oldval" by auto
  have m: "sint MAX32BITVAL = 2 ^ 32" by (simp add: MAX32BITVAL_def)
  have a: "sint (MAX32BITVAL + newval) = 2 ^ 32 + sint newval"
    using b assms(1) m sint_add_64 [of MAX32BITVAL newval] by simp
  then have "sint (MAX32BITVAL + newval - oldval) = 2 ^ 32 + sint newval - sint oldval"
    using b assms(1,2) sint_diff_64 [of "MAX32BITVAL + newval" oldval] by simp
  moreover have "(sint newval - sint oldval) mod 2 ^ 32 = 2 ^ 32 + sint newval - sint oldval"
    using b assms(1,2) mod_pos_pos_trivial [of "2 ^ 32 + sint newval - sint oldval" "2 ^ 32"]
    by (smt (verit) mod_add_self2)
  ultimately show ?thesis using False b assms by (simp add: subcount_def word_sle_eq)
qed

theorem subcount_modular_witness: "sint (subcount 5 0xfffffffe) = 7"
  using subcount_modular [of 5 "0xfffffffe"] by simp

text \<open>
  The deviation of an active task.  Cpu time that exceeds what all processors consumed
  together is replaced by one tick; otherwise cpu time, page faults and disk transfers are the
  differences of the counters, memory growth is the signed difference, and network counters
  restart from zero when they have decreased.
\<close>

theorem calcdiff_active:
  assumes "gen_wasinactive (t_gen cur) = 0" and "dv = calcdiff junk cur pre new tot"
  shows "(cpu_stime (t_cpu dv) \<le>s tot \<or> cpu_stime (t_cpu dv) = 1) \<and>
    (cpu_utime (t_cpu dv) \<le>s tot \<or> cpu_utime (t_cpu dv) = 1) \<and>
    (subcount (cpu_utime (t_cpu cur)) (cpu_utime (t_cpu pre)) \<le>s tot \<longrightarrow>
       cpu_utime (t_cpu dv) = subcount (cpu_utime (t_cpu cur)) (cpu_utime (t_cpu pre))) \<and>
    dsk_wsz (t_dsk dv) = subcount (dsk_wsz (t_dsk cur)) (dsk_wsz (t_dsk pre)) \<and>
    mem_majflt (t_mem dv) = subcount (mem_majflt (t_mem cur)) (mem_majflt (t_mem pre)) \<and>
    mem_vgrow (t_mem dv) + mem_vmem (t_mem pre) = mem_vmem (t_mem dv) \<and>
    net_udprcv (t_net dv) + (if net_udprcv (t_net pre) \<le>s net_udprcv (t_net cur)
                             then net_udprcv (t_net pre) else 0) = net_udprcv (t_net cur)"
  using assms
  by (auto simp: calcdiff_def Let_def netdiff_def subcount_def word_sless_alt word_sle_eq)

theorem calcdiff_active_witness:
  "cpu_utime (t_cpu (calcdiff tstat0 (tstat0\<lparr>t_cpu := cpu0\<lparr>cpu_utime := 90\<rparr>\<rparr>) tstat0 False 100)) = 90"
  using calcdiff_active [of "tstat0\<lparr>t_cpu := cpu0\<lparr>cpu_utime := 90\<rparr>\<rparr>" _ tstat0 tstat0 False 100, OF _ refl]
  by (simp add: subcount_def word_sle_eq)

text \<open>
  The deviation of an inactive task has all its activity counters zero, whatever the array
  element held before, and keeps the identity and the sizes of the task.
\<close>

theorem calcdiff_idle:
  assumes "gen_wasinactive (t_gen cur) \<noteq> 0" and "dv = calcdiff junk cur pre False tot"
  shows "t_gen dv = t_gen cur \<and> t_dsk dv = dsk0 \<and> t_net dv = net0 \<and>
    cpu_stime (t_cpu dv) = 0 \<and> cpu_utime (t_cpu dv) = 0 \<and>
    mem_minflt (t_mem dv) = 0 \<and> mem_majflt (t_mem dv) = 0 \<and>
    mem_vgrow (t_mem dv) = 0 \<and> mem_rgrow (t_mem dv) = 0 \<and>
    mem_vmem (t_mem dv) = mem_vmem (t_mem cur) \<and> mem_rmem (t_mem dv) = mem_rmem (t_mem cur)"
  using assms by (simp add: calcdiff_def Let_def tstat0_def mem0_def cpu0_def)

theorem calcdiff_idle_witness:
  "t_net (calcdiff (tstat0\<lparr>t_net := net0\<lparr>net_tcpsnd := 3\<rparr>\<rparr>) (set_inactive 1 tstat0) tstat0 False 0) = net0"
  using calcdiff_idle [of "set_inactive 1 tstat0" _ "tstat0\<lparr>t_net := net0\<lparr>net_tcpsnd := 3\<rparr>\<rparr>" tstat0 0, OF _ refl]
  by simp

text \<open>The situation in which \<open>deviattask\<close> is called.\<close>

definition sample_ready :: "allocator \<Rightarrow> pdb \<Rightarrow> (task_key \<rightharpoonup> tstat) \<Rightarrow> tstat list \<Rightarrow> tstat list \<Rightarrow> netatop \<Rightarrow> bool" where
  "sample_ready al d M pres ex net \<longleftrightarrow> task_db d M \<and> fits M pres \<and> (\<forall>e\<in>set ex. exit_fits pres e) \<and>
     fresh_nodes al \<and> (\<forall>n ts. al_tasks al n = Some ts \<longrightarrow> length ts = n) \<and>
     (\<forall>n ps. al_ptrs al n = Some ps \<longrightarrow> length ps = n) \<and>
     (supportflags net AND NETATOPD \<noteq> 0 \<longrightarrow>
        esbucket net = (\<lambda>_. None) \<and> nat (sint (exitnum net)) \<le> length (exitall net)) \<and>
     length pres + length ex < 2 ^ 64"

lemma deviattask_sampled:
  assumes "sample_ready al d M pres ex net"
  shows "no_memory al (deviattask al pretime tot junk pres ex d net) \<or>
    (\<exists>s ts0. deviattask al pretime tot junk pres ex d net = Some (Inr s) \<and>
       al_tasks al (length pres + length ex) = Some ts0 \<and> sampled M tot ts0 pres ex s)"
  using assms unfolding sample_ready_def by (intro deviattask_ok) auto

text \<open>
  C1: The database after a sample.  \<open>deviattask\<close> meets no undefined behaviour.  It exits with code
  13 only if an allocation failed; otherwise it ends with a well-formed process database that
  holds exactly the tasks of the present sample, each under its pid and level with its current
  statistics, and what disappeared or exited is removed.  This holds if no process id was reused
  since the previous sample and no exit record belongs to a task still present.
\<close>

theorem deviattask_database:
  assumes "sample_ready al d M pres ex net"
  shows "(deviattask al pretime tot junk pres ex d net = Some (Inl 13) \<and> \<not> alloc_total al) \<or>
    (\<exists>s. deviattask al pretime tot junk pres ex d net = Some (Inr s) \<and> task_db (dt_pdb s) (tasks pres))"
  using deviattask_sampled [OF assms] task_abs_db unfolding sampled_def by blast

text \<open>An example: process 5 was active, process 261 has exited, process 7 is new.\<close>

definition ex_alloc :: allocator where
  "ex_alloc = \<lparr>al_tasks = (\<lambda>n. Some (replicate n tstat0)), al_ptrs = (\<lambda>n. Some (replicate n 0)),
     al_node = (\<lambda>d. if finite (dom (pheap d)) then Some (Suc (Max (dom (pheap d)))) else None)\<rparr>"

definition ex_pres :: "tstat list" where
  "ex_pres = [(mk_task 5 1 100)\<lparr>t_cpu := cpu0\<lparr>cpu_utime := 7\<rparr>\<rparr>, mk_task 7 1 300]"

definition ex_exit :: "tstat list" where
  "ex_exit = [mk_task 261 1 200]"

definition ex_tasks :: "task_key \<rightharpoonup> tstat" where
  "ex_tasks = [Task_Key 5 1 \<mapsto> mk_task 5 1 100, Task_Key 261 1 \<mapsto> mk_task 261 1 200]"

lemma mk_task_simps [simp]:
  "tkey (mk_task p i b) = Task_Key p i" "gen_btime (t_gen (mk_task p i b)) = b"
  "gen_pid (t_gen (mk_task p i b)) = p" "gen_isproc (t_gen (mk_task p i b)) = i"
  "gen_wasinactive (t_gen (mk_task p i b)) = 0"
  by (simp_all add: mk_task_def tkey_def gen0_def)

lemma task_db_ex: "task_db ex_pdb ex_tasks"
proof -
  let ?N = "[Task_Key 5 1 \<mapsto> 1, Task_Key 261 1 \<mapsto> 2]"
  have pk: "pdb_peek ex_pdb (Suc 0) = Some (mk_task 5 1 100)" "pdb_peek ex_pdb 2 = Some (mk_task 261 1 200)"
    by (simp_all add: pdb_peek_def ex_pdb_def mk_node_def presidue_def)
  have "task_view (pdb_peek ex_pdb) (nodes ex_buckets) ?N"
    by (auto simp: task_view_def nodes_ex pk split: if_splits)
  moreover have "ex_tasks = view_map (pdb_peek ex_pdb) ?N"
    by (auto simp: ex_tasks_def view_map_def pk fun_eq_iff)
  moreover have "finite (dom (pheap ex_pdb))" by (simp add: ex_pdb_def)
  ultimately show ?thesis unfolding task_db_def using hash_ok_ex by blast
qed

lemma alloc_ex: "alloc_total ex_alloc" "fresh_nodes ex_alloc"
proof -
  show "alloc_total ex_alloc" by (simp add: alloc_total_def ex_alloc_def)
  have "h (Suc (Max (dom h))) = None" if "finite (dom h)" for h :: "addr \<rightharpoonup> pinfo"
    using Max_ge [OF that, of "Suc (Max (dom h))"] by (cases "h (Suc (Max (dom h)))") auto
  then show "fresh_nodes ex_alloc" by (simp add: fresh_nodes_def ex_alloc_def)
qed

lemma sample_ready_ex: "sample_ready ex_alloc ex_pdb ex_tasks ex_pres ex_exit ex_netatop"
proof -
  have b: "btime_near 100 100" by (simp add: btime_near_def word_sless_alt)
  have "fits ex_tasks ex_pres"
    using b by (auto simp: fits_def ex_pres_def ex_tasks_def tkey_def mk_task_def gen0_def)
  moreover have "\<forall>e\<in>set ex_exit. exit_fits ex_pres e"
    by (auto simp: ex_exit_def exit_fits_def ex_pres_def tkey_def mk_task_def gen0_def word_sle_eq)
  ultimately show ?thesis
    using task_db_ex alloc_ex by (auto simp: sample_ready_def ex_netatop_def ex_pres_def ex_exit_def ex_alloc_def)
qed

theorem deviattask_database_witness:
  "\<exists>s. deviattask ex_alloc 0 100 tstat0 ex_pres ex_exit ex_pdb ex_netatop = Some (Inr s) \<and>
     task_db (dt_pdb s) (tasks ex_pres)"
  using deviattask_database [OF sample_ready_ex] alloc_ex(1) by blast

text \<open>
  C2: The pointer lists.  \<open>procall\<close> points to exactly the process-level entries of \<open>taskall\<close> and
  \<open>procactive\<close> to exactly the active ones among them, in order, and the counts by which the two
  arrays were allocated are their lengths: the final loop writes neither too few nor too many
  entries, although an inactive process may become active by one of its threads only.
\<close>

theorem deviattask_lists:
  assumes "sample_ready al d M pres ex net" and "alloc_total al"
  shows "\<exists>s. deviattask al pretime tot junk pres ex d net = Some (Inr s) \<and>
    procall (dt_dev s) = filter (\<lambda>i. is_proc (taskall (dt_dev s) ! i)) [0..<length pres + length ex] \<and>
    procactive (dt_dev s) =
      filter (\<lambda>i. is_proc (taskall (dt_dev s) ! i) \<and> is_active (taskall (dt_dev s) ! i))
        [0..<length pres + length ex] \<and>
    unat (nprocall (dt_dev s)) = length (procall (dt_dev s)) \<and>
    unat (nprocactive (dt_dev s)) = length (procactive (dt_dev s))"
  using deviattask_sampled [OF assms(1), of pretime tot junk] assms(2) unfolding sampled_def by blast

theorem deviattask_lists_witness:
  "\<exists>s. deviattask ex_alloc 0 100 tstat0 ex_pres ex_exit ex_pdb ex_netatop = Some (Inr s) \<and>
    procall (dt_dev s) = filter (\<lambda>i. is_proc (taskall (dt_dev s) ! i)) [0..<3]"
proof -
  have n: "length ex_pres + length ex_exit = 3" by (simp add: ex_pres_def ex_exit_def)
  show ?thesis
    using deviattask_lists [OF sample_ready_ex alloc_ex(1), of 0 100 tstat0] unfolding n by blast
qed



end
