(* ===== verification/Netatop_Probe.thy ===== *)
theory Netatop_Probe
  imports Netatop
begin

text \<open>
  The connection to the netatop module and its daemon, \<^verbatim>\<open>src/Qt/FakeAtop/netatopif.c\<close>: \<open>netatop_ipopen\<close>, \<open>netatop_probe\<close> and
  \<open>netatop_signoff\<close>.  The answers of the system calls of one probe are a record.
\<close>

section \<open>State and operations\<close>

text \<open>The remaining static variables; \<open>nahp\<close> is the mapped header, \<open>None\<close> for \<open>NULL\<close>.\<close>

record netconn =
  semid :: i32
  netexitfd :: i32
  nahp :: "naheader option"

definition netconn0 :: netconn where
  "netconn0 = \<lparr>semid = -1, netexitfd = -1, nahp = None\<rparr>"

text \<open>\<open>socket\<close> delivers a descriptor or -1.\<close>

definition netatop_ipopen :: "i32 \<Rightarrow> netatop \<Rightarrow> netatop" where
  "netatop_ipopen socket s = s\<lparr>netsock := socket\<rparr>"

text \<open>
  Results of \<open>getsockopt\<close> (0 or not), \<open>semget\<close>, \<open>semop\<close>, \<open>semctl\<close>, \<open>fstat\<close> (the number of links, or a failure),
  \<open>open\<close>, and \<open>mmap\<close> (the header, or a failure).
\<close>

record probecalls =
  p_getsockopt :: i32
  p_semget :: i32
  p_semop :: i32
  p_semctl :: i32
  p_fstat :: "u64 option"
  p_open :: i32
  p_mmap :: "naheader option"

definition clear_flags :: "i32 \<Rightarrow> netatop \<Rightarrow> netatop" where
  "clear_flags f s = s\<lparr>supportflags := supportflags s AND NOT f\<rparr>"

definition set_flags :: "i32 \<Rightarrow> netatop \<Rightarrow> netatop" where
  "set_flags f s = s\<lparr>supportflags := supportflags s OR f\<rparr>"

text \<open>The last part: open the file if needed, map its header, start behind the records that are there.\<close>

definition probe_file :: "probecalls \<Rightarrow> netatop \<times> netconn \<Rightarrow> netatop \<times> netconn" where
  "probe_file p = (\<lambda>(s, c).
     let c = (if netexitfd c = -1 then c\<lparr>netexitfd := p_open p\<rparr> else c) in
     if netexitfd c = -1 then (clear_flags NETATOPD s, c)
     else case p_mmap p of
       None \<Rightarrow> (clear_flags NETATOPD s, c\<lparr>netexitfd := -1, nahp := None\<rparr>)
     | Some h \<Rightarrow>
         (set_flags NETATOPD (s\<lparr>exitfile := [], lastseq := ucast (na_curseq h)\<rparr>), c\<lparr>nahp := Some h\<rparr>))"

text \<open>The check of a file that is open already: it is kept as long as it has a name.\<close>

definition probe_exit :: "probecalls \<Rightarrow> netatop \<times> netconn \<Rightarrow> netatop \<times> netconn" where
  "probe_exit p = (\<lambda>(s, c).
     if netexitfd c \<noteq> -1 then
       if (case p_fstat p of Some nlink \<Rightarrow> 0 < nlink | None \<Rightarrow> False) then (set_flags NETATOPD s, c)
       else probe_file p (s, c\<lparr>netexitfd := -1, nahp := None\<rparr>)
     else probe_file p (s, c))"

definition netatop_probe :: "probecalls \<Rightarrow> netatop \<times> netconn \<Rightarrow> netatop \<times> netconn" where
  "netatop_probe p = (\<lambda>(s, c).
     if netsock s = -1 then (s, c)
     else if p_getsockopt p \<noteq> 0 then (clear_flags NETATOPD (clear_flags NETATOP s), c)
     else
       let s = set_flags NETATOP s; fresh = (semid c = -1); c = (if fresh then c\<lparr>semid := p_semget p\<rparr> else c) in
       if fresh \<and> (semid c = -1 \<or> p_semop p = -1) then (clear_flags NETATOPD s, c)
       else if p_semctl p \<noteq> 1 then (clear_flags NETATOPD s, c)
       else probe_exit p (s, c))"

text \<open>\<open>netatop_signoff\<close>: the pid that gets a hangup signal; the pointers keep their values.\<close>

definition netatop_signoff :: "bool \<Rightarrow> netatop \<Rightarrow> netconn \<Rightarrow> int + i32 option" where
  "netatop_signoff droprootprivs s c =
     (case nahp c of
        None \<Rightarrow> Inr None
      | Some h \<Rightarrow>
          if netsock s = -1 then Inr None
          else if supportflags s AND NETATOPD \<noteq> 0 then (if \<not> droprootprivs then Inl 42 else Inr (Some (na_mypid h)))
          else Inr None)"

section \<open>Flags\<close>

lemma flags_simps [simp]:
  "supportflags (clear_flags f s) = supportflags s AND NOT f" "supportflags (set_flags f s) = supportflags s OR f"
  "exitfile (clear_flags f s) = exitfile s" "exitfile (set_flags f s) = exitfile s"
  "lastseq (clear_flags f s) = lastseq s" "lastseq (set_flags f s) = lastseq s"
  "netsock (clear_flags f s) = netsock s" "netsock (set_flags f s) = netsock s"
  by (simp_all add: clear_flags_def set_flags_def)

lemma flag_bits:
  "(w AND NOT NETATOPD) AND NETATOPD = 0" "(w OR NETATOPD) AND NETATOPD \<noteq> 0"
  "((w AND NOT NETATOP) AND NOT NETATOPD) AND NETATOPD = 0"
  "((w OR NETATOP) AND NOT NETATOPD) AND NETATOPD = 0"
  "((w OR NETATOP) OR NETATOPD) AND NETATOP \<noteq> 0"
proof -
  have bits: "bit (NETATOPD :: i32) n \<longleftrightarrow> n = 5" "bit (NETATOP :: i32) n \<longleftrightarrow> n = 4" for n
  proof -
    have two: "NETATOPD = 2 ^ 5" "NETATOP = 2 ^ 4"
      by (simp_all add: NETATOPD_def NETATOP_def)
    show "bit (NETATOPD :: i32) n \<longleftrightarrow> n = 5" "bit (NETATOP :: i32) n \<longleftrightarrow> n = 4"
      unfolding two by (simp_all only: bit_exp_iff possible_bit_word) auto
  qed
  show "(w AND NOT NETATOPD) AND NETATOPD = 0" "((w AND NOT NETATOP) AND NOT NETATOPD) AND NETATOPD = 0"
    "((w OR NETATOP) AND NOT NETATOPD) AND NETATOPD = 0"
    by (auto simp: bit_eq_iff bits bit_simps)
  have "bit ((w OR NETATOPD) AND NETATOPD) 5" "bit (((w OR NETATOP) OR NETATOPD) AND NETATOP) 4"
    by (simp_all add: bits bit_simps)
  then show "(w OR NETATOPD) AND NETATOPD \<noteq> 0" "((w OR NETATOP) OR NETATOPD) AND NETATOP \<noteq> 0"
    by (metis bit_0_eq bot_apply bot_bool_def)+
qed

section \<open>The connection\<close>

text \<open>The file is open exactly when its header is mapped, and the daemon's flag is up only then.\<close>

definition conn_ok :: "netatop \<times> netconn \<Rightarrow> bool" where
  "conn_ok = (\<lambda>(s, c). (netexitfd c \<noteq> -1 \<longleftrightarrow> nahp c \<noteq> None) \<and> (supportflags s AND NETATOPD \<noteq> 0 \<longrightarrow> nahp c \<noteq> None))"

lemma conn_ok_no_daemon:
  "netexitfd c \<noteq> -1 \<longleftrightarrow> nahp c \<noteq> None \<Longrightarrow> supportflags s AND NETATOPD = 0 \<Longrightarrow> conn_ok (s, c)"
  by (simp add: conn_ok_def)

lemma probe_file_ok:
  assumes "netexitfd c = -1" "nahp c = None"
  shows "conn_ok (probe_file p (s, c))"
  using assms by (auto simp: probe_file_def conn_ok_def flag_bits Let_def split: option.splits)

lemma probe_exit_ok: "conn_ok (s, c) \<Longrightarrow> conn_ok (probe_exit p (set_flags NETATOP s, c))"
proof -
  assume ok: "conn_ok (s, c)"
  show ?thesis
  proof (cases "netexitfd c \<noteq> -1 \<and> (case p_fstat p of Some nlink \<Rightarrow> 0 < nlink | None \<Rightarrow> False)")
    case True
    then show ?thesis using ok by (simp add: probe_exit_def conn_ok_def)
  next
    case False
    then show ?thesis
      using ok probe_file_ok [of "c\<lparr>netexitfd := -1, nahp := None\<rparr>" p "set_flags NETATOP s"]
        probe_file_ok [of c p "set_flags NETATOP s"]
      by (auto simp: probe_exit_def conn_ok_def)
  qed
qed

section \<open>Properties\<close>

text \<open>
  C11: The daemon's flag means a usable exit file.  The start state has no connection and every probe, whatever the system calls
  answer, keeps this invariant: the exit file is open exactly when its header is mapped, and if the flag \<open>NETATOPD\<close> is up
  then the header is mapped, so the header that \<open>netatop_exitstore\<close> and \<open>netatop_signoff\<close> dereference is there.
\<close>

theorem netatop_probe_ok:
  assumes "conn_ok (s, c)"
  shows "conn_ok (netatop_probe p (s, c))"
proof -
  let ?c = "if semid c = -1 then c\<lparr>semid := p_semget p\<rparr> else c"
  have ok: "conn_ok (s, ?c)" using assms by (simp add: conn_ok_def)
  then have off: "conn_ok (clear_flags NETATOPD s', ?c)" "conn_ok (clear_flags NETATOPD s', c)" for s'
    using assms by (auto simp: conn_ok_def flag_bits)
  show ?thesis
    using assms off probe_exit_ok [OF ok, of p]
    by (cases "semid c = -1") (simp_all add: netatop_probe_def Let_def)
qed

text \<open>A daemon that is found by the first probe.\<close>

definition probe_ex :: probecalls where
  "probe_ex = \<lparr>p_getsockopt = 0, p_semget = 7, p_semop = 0, p_semctl = 1, p_fstat = Some 0, p_open = 4, p_mmap = Some ex_nahp\<rparr>"

definition net_ex :: netatop where
  "net_ex = ex_netatop\<lparr>supportflags := 0\<rparr>"

theorem netatop_probe_ok_witness:
  "conn_ok (net_ex, netconn0) \<and> conn_ok (netatop_probe probe_ex (net_ex, netconn0)) \<and>
   supportflags (fst (netatop_probe probe_ex (net_ex, netconn0))) AND NETATOPD \<noteq> 0"
proof -
  have "conn_ok (net_ex, netconn0)"
    by (simp add: conn_ok_def netconn0_def net_ex_def)
  then show ?thesis
    using netatop_probe_ok [of net_ex netconn0 probe_ex]
    by (simp add: netatop_probe_def probe_exit_def probe_file_def probe_ex_def net_ex_def ex_netatop_def netconn0_def flag_bits Let_def NETATOPD_def)
qed

text \<open>
  C10: A restart of the daemon is noticed.  If the exit file that is open has lost its name and a new one can be opened and mapped,
  one probe connects to it; of the new file, exactly the records that are appended later are delivered by
  \<open>netatop_exitstore\<close>, in order, and none that was there before.
\<close>

theorem probe_then_exitstore:
  assumes "netsock s \<noteq> -1" "p_getsockopt p = 0" "semid c \<noteq> -1" "p_semctl p = 1" "p_fstat p = Some 0" "p_open p \<noteq> -1"
    "p_mmap p = Some h" and later: "na_curseq h' = na_curseq h + of_nat (length rs)" "length rs < 2 ^ 32 - unat (na_curseq h)"
    and rs: "rs \<noteq> []" "\<forall>r\<in>set rs. length r < 256 \<and> length r < unat (na_ntplen h') + 100"
  shows "\<exists>s' c'. netatop_probe p (s, c) = (s', c') \<and> supportflags s' AND NETATOPD \<noteq> 0 \<and> nahp c' = Some h \<and>
    (\<exists>s''. netatop_exitstore unz None None True True h' (s'\<lparr>exitfile := exitfile s' @ frames rs @ rest\<rparr>) =
             Some (Inr (s'', of_nat (length rs))) \<and> exitall s'' = stored unz rs \<and> exitfile s'' = rest)"
proof -
  let ?s = "set_flags NETATOPD ((set_flags NETATOP s)\<lparr>exitfile := [], lastseq := ucast (na_curseq h)\<rparr>)"
  obtain c' where probe: "netatop_probe p (s, c) = (?s, c')" "nahp c' = Some h"
    using assms(1-7) by (cases "netexitfd c = -1") (auto simp: netatop_probe_def probe_exit_def probe_file_def Let_def)
  have n: "length rs < 2 ^ 32" using later(2) by linarith
  have "unat (na_curseq h') = unat (na_curseq h) + length rs"
    using later(2) n unfolding later(1) by (simp add: unat_word_ariths unat_of_nat take_bit_nat_eq_self)
  moreover have "ucast a = (of_nat (unat a) :: u64)" for a :: u32 by (simp only: of_nat_unat)
  ultimately have "(ucast (na_curseq h') :: u64) - ucast (na_curseq h) = of_nat (length rs)"
    by (simp only: of_nat_add add_diff_cancel_left')
  then have "unat (ucast (ucast (na_curseq h') - lastseq ?s) :: u32) = length rs"
    using n by (simp add: unsigned_of_nat unat_of_nat take_bit_nat_eq_self)
  then have "netatop_exitstore unz None None True True h' (?s\<lparr>exitfile := exitfile ?s @ frames rs @ rest\<rparr>) =
      Some (Inr (?s\<lparr>lastseq := ucast (na_curseq h'), exitfile := rest, exitall := stored unz rs,
        exitnum := of_nat (length rs)\<rparr>, of_nat (length rs)))"
    using exitstore_read [of "?s\<lparr>exitfile := exitfile ?s @ frames rs @ rest\<rparr>" rs rest h' unz] rs by simp
  then show ?thesis
    using probe by (intro exI [of _ ?s] exI [of _ c']) (simp add: NETATOPD_def)
qed

theorem probe_then_exitstore_witness:
  "\<exists>s' c' s''. netatop_probe probe_ex (net_ex, \<lparr>semid = 7, netexitfd = 3, nahp = Some ex_nahp\<rparr>) = (s', c') \<and>
     netatop_exitstore ex_unz None None True True (ex_nahp\<lparr>na_curseq := 11\<rparr>) (s'\<lparr>exitfile := exitfile s' @ frames [[1, 2], [3]] @ [9]\<rparr>) =
       Some (Inr (s'', 2)) \<and> map (npt_id \<circ> es_npt) (exitall s'') = [1, 3]"
  using probe_then_exitstore [of net_ex probe_ex "\<lparr>semid = 7, netexitfd = 3, nahp = Some ex_nahp\<rparr>" ex_nahp "ex_nahp\<lparr>na_curseq := 11\<rparr>"
      "[[1, 2], [3]]" ex_unz "[9]"]
  by (auto simp: net_ex_def ex_netatop_def probe_ex_def ex_nahp_def stored_def ex_unz_def)

text \<open>
  A subscription that is refused is not repeated: when \<open>semop\<close> fails, the semaphore id stays set, and the next probe takes the daemon's
  file without having decremented the semaphore.
\<close>

theorem probe_skips_subscription:
  assumes "netsock s \<noteq> -1" "p_getsockopt p = 0" "semid c = -1" "p_semget p \<noteq> -1" "p_semop p = -1"
    and "p_getsockopt p' = 0" "p_semop p' = -1" "p_semctl p' = 1" "netexitfd c = -1" "p_open p' \<noteq> -1" "p_mmap p' = Some h"
  shows "supportflags (fst (netatop_probe p' (netatop_probe p (s, c)))) AND NETATOPD \<noteq> 0"
  using assms by (simp add: netatop_probe_def probe_exit_def probe_file_def Let_def flag_bits NETATOPD_def)

end
