(* ===== verification/Decimal.thy ===== *)
theory Decimal
  imports Prelude
begin

text \<open>
  Decimal notation: the character tests of \<^verbatim>\<open>ctype.h\<close>, the digit loop shared by the number scanners of
  the C library, and the conversions \<open>%d\<close>, \<open>%*d\<close> and \<open>%02d\<close> of \<open>sprintf\<close>, with the facts about their length and
  their reading back.
\<close>

section \<open>Reading digits\<close>

definition isdigit :: "char \<Rightarrow> bool" where
  "isdigit c \<longleftrightarrow> 48 \<le> (of_char c :: nat) \<and> (of_char c :: nat) \<le> 57"

definition digit_of :: "char \<Rightarrow> nat option" where
  "digit_of c = (let n = (of_char c :: nat) in
     if 48 \<le> n \<and> n \<le> 57 then Some (n - 48)
     else if 65 \<le> n \<and> n \<le> 90 then Some (n - 55)
     else if 97 \<le> n \<and> n \<le> 122 then Some (n - 87)
     else None)"

definition is_digit_in :: "nat \<Rightarrow> char \<Rightarrow> bool" where
  "is_digit_in base c \<longleftrightarrow> (case digit_of c of Some d \<Rightarrow> d < base | None \<Rightarrow> False)"

fun scan_digits :: "nat \<Rightarrow> nat \<Rightarrow> string \<Rightarrow> nat \<times> string" where
  "scan_digits base v [] = (v, [])"
| "scan_digits base v (c # cs) =
     (if is_digit_in base c then scan_digits base (v * base + the (digit_of c)) cs else (v, c # cs))"

section \<open>Writing numbers\<close>

text \<open>Decimal notation without leading zeros.\<close>

fun dec :: "nat \<Rightarrow> string" where
  "dec n = (if n < 10 then [char_of (48 + n)] else dec (n div 10) @ [char_of (48 + n mod 10)])"

declare dec.simps [simp del]

lemma isdigit_iff: "isdigit c \<longleftrightarrow> is_digit_in 10 c"
  by (auto simp: isdigit_def is_digit_in_def digit_of_def Let_def)

lemma isdigit_not_special:
  assumes "isdigit c"
  shows "\<not> isspace c" "c \<noteq> CHR ''-''" "c \<noteq> CHR ''+''"
  using assms by (auto simp: isdigit_def isspace_def)

lemma digit_of_dec: "n < 10 \<Longrightarrow> digit_of (char_of (48 + n)) = Some n"
  by (simp add: digit_of_def)

lemma is_digit_in_dec: "n < 10 \<Longrightarrow> is_digit_in 10 (char_of (48 + n :: nat))"
  by (simp add: is_digit_in_def digit_of_dec)

lemma scan_digits_append:
  "\<forall>c\<in>set xs. is_digit_in base c \<Longrightarrow> scan_digits base v (xs @ ys) = scan_digits base (fst (scan_digits base v xs)) ys"
  by (induction xs arbitrary: v) auto

lemma dec_digits: "\<forall>c\<in>set (dec n). is_digit_in 10 c"
proof (induction n rule: dec.induct)
  case (1 n)
  then show ?case by (subst dec.simps) (auto simp: is_digit_in_dec)
qed

lemma scan_digits_dec: "scan_digits 10 0 (dec n) = (n, [])"
proof (induction n rule: dec.induct)
  case (1 n)
  show ?case
  proof (cases "n < 10")
    case True
    then show ?thesis by (subst dec.simps) (simp add: is_digit_in_dec digit_of_dec)
  next
    case False
    with 1 have "scan_digits 10 0 (dec (n div 10)) = (n div 10, [])" by simp
    with False show ?thesis
      by (subst dec.simps) (simp add: scan_digits_append dec_digits is_digit_in_dec digit_of_dec)
  qed
qed

lemma dec_first: "0 < n \<Longrightarrow> \<exists>(m::nat) cs. dec n = char_of (48 + m) # cs \<and> 0 < m \<and> m < 10"
proof (induction n rule: dec.induct)
  case (1 n)
  show ?case
  proof (cases "n < 10")
    case True
    then have "dec n = char_of (48 + n) # []" by (subst dec.simps) simp
    with True 1(2) show ?thesis by blast
  next
    case False
    then have "0 < n div 10" by (simp add: div_greater_zero_iff)
    then obtain m :: nat and cs where "dec (n div 10) = char_of (48 + m) # cs" "0 < m" "m < 10"
      using 1(1) [OF False] by blast
    then have "dec n = char_of (48 + m) # (cs @ [char_of (48 + n mod 10)])" "0 < m" "m < 10"
      using False by (subst dec.simps, simp, simp_all)
    then show ?thesis by blast
  qed
qed

lemma first_digit:
  assumes "0 < m" and "m < (10::nat)"
  shows "char_of (48 + m) \<noteq> CHR ''0''" "\<not> isspace (char_of (48 + m))" "char_of (48 + m) \<noteq> CHR ''-''"
    "char_of (48 + m) \<noteq> CHR ''+''"
proof -
  have "\<forall>m\<in>set [1..<10]. char_of (48 + m) \<noteq> CHR ''0'' \<and> \<not> isspace (char_of (48 + m)) \<and> char_of (48 + m) \<noteq> CHR ''-'' \<and>
    char_of (48 + (m::nat)) \<noteq> CHR ''+''" by code_simp
  with assms show "char_of (48 + m) \<noteq> CHR ''0''" "\<not> isspace (char_of (48 + m))" "char_of (48 + m) \<noteq> CHR ''-''"
    "char_of (48 + m) \<noteq> CHR ''+''" by auto
qed

lemma length_dec: "10 \<le> n \<Longrightarrow> 2 \<le> length (dec n)"
  by (subst dec.simps, subst dec.simps) auto

lemma dec_not_Nil [simp]: "dec n \<noteq> []"
  by (subst dec.simps) simp

lemma length_dec_le: "0 < k \<Longrightarrow> length (dec n) \<le> k \<longleftrightarrow> n < 10 ^ k"
proof (induction n arbitrary: k rule: dec.induct)
  case (1 n)
  show ?case
  proof (cases "n < 10")
    case True
    moreover have "(10::nat) ^ 1 \<le> 10 ^ k" using 1(2) by (intro power_increasing) auto
    ultimately show ?thesis using 1(2) by (subst dec.simps) auto
  next
    case False
    obtain j where k: "k = Suc j" using 1(2) by (cases k) auto
    show ?thesis
    proof (cases j)
      case 0
      have "dec (n div 10) \<noteq> []" by simp
      then show ?thesis using False k 0 by (subst dec.simps) simp
    next
      case (Suc i)
      then have "length (dec (n div 10)) \<le> j \<longleftrightarrow> n div 10 < 10 ^ j" using 1(1) [OF False, of j] by simp
      moreover have "n div 10 < 10 ^ j \<longleftrightarrow> n < 10 ^ k" by (simp add: k div_less_iff_less_mult mult.commute)
      ultimately show ?thesis using False k by (subst dec.simps) simp
    qed
  qed
qed

text \<open>\<open>%lld\<close>: a sign for negative numbers; \<open>%*lld\<close>: blanks in front; \<open>%02lld\<close>: zeros behind the sign.\<close>

definition decz :: "int \<Rightarrow> string" where
  "decz i = (if i < 0 then CHR ''-'' # dec (nat (- i)) else dec (nat i))"

definition rjust :: "nat \<Rightarrow> string \<Rightarrow> string" where
  "rjust w s = replicate (w - length s) CHR '' '' @ s"

definition decz0 :: "nat \<Rightarrow> int \<Rightarrow> string" where
  "decz0 w i = (if i < 0
     then CHR ''-'' # replicate (w - 1 - length (dec (nat (- i)))) CHR ''0'' @ dec (nat (- i))
     else replicate (w - length (dec (nat i))) CHR ''0'' @ dec (nat i))"

lemma length_rjust [simp]: "length (rjust w s) = max w (length s)"
  by (simp add: rjust_def)

lemma length_decz0: "0 \<le> i \<Longrightarrow> length (decz0 w i) = max w (length (dec (nat i)))"
  by (simp add: decz0_def)

lemma decz_nonneg: "0 \<le> i \<Longrightarrow> decz i = dec (nat i)"
  by (simp add: decz_def)

end
