(* ===== verification/Scanf.thy ===== *)
theory Scanf
  imports Decimal "HOL-Library.Sublist"
begin

text \<open>
  Reading text the way the samplers do: \<open>fgets\<close> on a file and \<open>sscanf\<close> with the conversions that occur in
  \<^verbatim>\<open>src/Qt/FakeAtop\<close>.  A format is first cut into directives; the result of a scan is the list of the values that are assigned,
  so its length is what \<open>sscanf\<close> returns (0 also stands for \<open>EOF\<close>).  Numbers are read as the C library does it: to 64 bits,
  saturating, and cut to the width of the variable by the assignment.
\<close>

section \<open>Lines of a file\<close>

text \<open>One \<open>fgets(line, n, fp)\<close> on the bytes that are left: at most \<open>n - 1\<close> of them, up to and with a newline.\<close>

definition fgets :: "nat \<Rightarrow> string \<Rightarrow> string \<times> string" where
  "fgets n s =
     (let k = length (takeWhile (\<lambda>c. c \<noteq> CHR 0x0A) (take (n - 1) s)) + 1 in
      (take (min k (n - 1)) s, drop (min k (n - 1)) s))"

text \<open>All lines that a loop \<open>while (fgets(line, n, fp))\<close> sees.\<close>

function fgets_lines :: "nat \<Rightarrow> string \<Rightarrow> string list" where
  "fgets_lines n s =
     (if s = [] \<or> n < 2 then [] else case fgets n s of (line, rest) \<Rightarrow> line # fgets_lines n rest)"
  by pat_completeness auto

termination
  by (relation "measure (\<lambda>(n, s). length s)") (auto simp: fgets_def Let_def)

declare fgets_lines.simps [simp del]

section \<open>Formats\<close>

text \<open>
  A directive: white space, a character to be matched, a number (signed or not; assigned or suppressed with \<open>*\<close>), a character (assigned or suppressed), a
  word (of at most so many characters, 0 for no limit; assigned or suppressed), the characters up to a given one.
\<close>

datatype directive =
    Blank
  | Lit char
  | Num bool bool
  | Chr
  | SkipChr
  | Str nat bool
  | Until nat char bool

text \<open>What is behind the percent sign: the suppression, the width, the length modifier, the conversion.\<close>

definition conv_char :: "nat \<Rightarrow> bool \<Rightarrow> char \<Rightarrow> directive option" where
  "conv_char width store c =
     (if c = CHR ''d'' then Some (Num True store)
      else if c = CHR ''u'' then Some (Num False store)
      else if c = CHR ''c'' then Some (if store then Chr else SkipChr)
      else if c = CHR ''s'' then Some (Str width store)
      else if c = CHR ''%'' then Some (Lit c)
      else None)"

definition conversion :: "string \<Rightarrow> (directive \<times> string) option" where
  "conversion cs =
     (let store = \<not> prefix ''*'' cs;
          (width, cs) = scan_digits 10 0 (if store then cs else tl cs);
          cs = dropWhile (\<lambda>c. c = CHR ''l'') cs
      in if cs = [] then None
         else if prefix ''[^'' cs then (if length cs < 4 then None else Some (Until width (cs ! 2) store, drop 4 cs))
         else map_option (\<lambda>d. (d, tl cs)) (conv_char width store (hd cs)))"

lemma length_scan_digits: "length (snd (scan_digits base v s)) \<le> length s"
  by (induction s arbitrary: v) (auto simp: le_SucI)

lemma conversion_shorter:
  assumes "conversion cs = Some (d, r)"
  shows "length r < length cs"
proof -
  define ds where "ds = (if \<not> prefix ''*'' cs then cs else tl cs)"
  define es where "es = dropWhile (\<lambda>c. c = CHR ''l'') (snd (scan_digits 10 0 ds))"
  have "length es \<le> length ds"
    using length_scan_digits [of 10 0 ds] length_dropWhile_le [of _ "snd (scan_digits 10 0 ds)"]
    unfolding es_def by (meson le_trans)
  moreover have "es \<noteq> [] \<and> (r = tl es \<or> r = drop 4 es)"
    using assms by (auto simp: conversion_def es_def ds_def Let_def split_beta split: if_splits)
  moreover have "length ds \<le> length cs" by (simp add: ds_def)
  ultimately show ?thesis by (cases es) auto
qed

function directives :: "string \<Rightarrow> directive list" where
  "directives fmt =
     (case fmt of
        [] \<Rightarrow> []
      | c # cs \<Rightarrow>
          if isspace c then Blank # directives (dropWhile isspace cs)
          else if c \<noteq> CHR ''%'' then Lit c # directives cs
          else case conversion cs of None \<Rightarrow> [] | Some (d, r) \<Rightarrow> d # directives r)"
  by pat_completeness auto

termination
  by (relation "measure length")
    (auto simp: length_dropWhile_le le_imp_less_Suc dest: conversion_shorter)

declare directives.simps [simp del]

section \<open>Scanning\<close>

datatype scanval = VNum u64 | VStr string

fun vnum :: "scanval \<Rightarrow> u64" where
  "vnum (VNum n) = n"
| "vnum (VStr _) = 0"

fun vstr :: "scanval \<Rightarrow> string" where
  "vstr (VStr s) = s"
| "vstr (VNum _) = []"

text \<open>\<open>strtoll\<close> and \<open>strtoull\<close> on a sign and digits.\<close>

definition strto :: "bool \<Rightarrow> bool \<Rightarrow> nat \<Rightarrow> u64" where
  "strto sg neg n =
     (if sg then
        if neg then (if 2 ^ 63 < n then 2 ^ 63 else - of_nat n)
        else (if 2 ^ 63 \<le> n then 2 ^ 63 - 1 else of_nat n)
      else if 2 ^ 64 \<le> n then - 1
      else if neg then - of_nat n
      else of_nat n)"

definition read_number :: "bool \<Rightarrow> string \<Rightarrow> (u64 \<times> string) option" where
  "read_number sg s =
     (let neg = prefix ''-'' s; body = (if neg \<or> prefix ''+'' s then tl s else s) in
      if body \<noteq> [] \<and> isdigit (hd body)
      then let (n, rest) = scan_digits 10 0 body in Some (strto sg neg n, rest)
      else None)"

text \<open>The word that \<open>%s\<close> or \<open>%31s\<close> reads.\<close>

definition scan_word :: "nat \<Rightarrow> string \<Rightarrow> string" where
  "scan_word width s = (let w = takeWhile (\<lambda>c. \<not> isspace c) s in if width = 0 then w else take width w)"

fun scan :: "directive list \<Rightarrow> string \<Rightarrow> scanval list" where
  "scan [] s = []"
| "scan (Blank # ds) s = scan ds (dropWhile isspace s)"
| "scan (Lit c # ds) s = (if s \<noteq> [] \<and> hd s = c then scan ds (tl s) else [])"
| "scan (Num sg store # ds) s =
     (case read_number sg (dropWhile isspace s) of
        None \<Rightarrow> []
      | Some (v, rest) \<Rightarrow> if store then VNum v # scan ds rest else scan ds rest)"
| "scan (Chr # ds) s = (if s = [] then [] else VNum (of_char (hd s)) # scan ds (tl s))"
| "scan (SkipChr # ds) s = (if s = [] then [] else scan ds (tl s))"
| "scan (Str width store # ds) s =
     (let s = dropWhile isspace s; w = scan_word width s in
      if w = [] then []
      else if store then VStr w # scan ds (drop (length w) s)
      else scan ds (drop (length w) s))"
| "scan (Until width c store # ds) s =
     (let w = takeWhile (\<lambda>d. d \<noteq> c) s; w = (if width = 0 then w else take width w) in
      if w = [] then []
      else if store then VStr w # scan ds (drop (length w) s)
      else scan ds (drop (length w) s))"

text \<open>\<open>atoi(s)\<close>: the number in front, cut to an \<open>int\<close>.\<close>

definition atoi :: "string \<Rightarrow> 32 word" where
  "atoi s = (case read_number True (dropWhile isspace s) of None \<Rightarrow> 0 | Some (v, _) \<Rightarrow> ucast v)"

text \<open>\<open>sscanf(s, fmt, ...)\<close>, and the assignment of what was scanned to the variables in their order.\<close>

definition sscanf :: "string \<Rightarrow> string \<Rightarrow> scanval list" where
  "sscanf s fmt = scan (directives fmt) s"

definition assign :: "(scanval \<Rightarrow> 'a \<Rightarrow> 'a) list \<Rightarrow> scanval list \<Rightarrow> 'a \<Rightarrow> 'a" where
  "assign vars vals x = fold (\<lambda>(var, val). var val) (zip vars vals) x"

lemma assign_simps [simp]:
  "assign [] vals x = x" "assign vars [] x = x"
  "assign (var # vars) (val # vals) x = assign vars vals (var val x)"
  by (simp_all add: assign_def)

section \<open>Lines\<close>

lemma fgets_lines_Nil [simp]: "fgets_lines n [] = []"
  by (simp add: fgets_lines.simps)

text \<open>A line that fits into the buffer is delivered whole.\<close>

lemma fgets_lines_step:
  assumes "CHR 0x0A \<notin> set l" "length l + 1 < n"
  shows "fgets_lines n (l @ CHR 0x0A # rest) = (l @ [CHR 0x0A]) # fgets_lines n rest"
proof -
  obtain k where n: "n = length l + Suc (Suc k)"
    using assms(2) less_imp_Suc_add [of "length l + 1" n] by auto
  have "take (n - 1) (l @ CHR 0x0A # rest) = l @ CHR 0x0A # take k rest"
    by (simp add: n)
  then have "takeWhile (\<lambda>c. c \<noteq> CHR 0x0A) (take (n - 1) (l @ CHR 0x0A # rest)) = l"
    using assms(1) by (simp add: takeWhile_append2 takeWhile_tail) (metis takeWhile_eq_all_conv)
  then have "fgets n (l @ CHR 0x0A # rest) = (l @ [CHR 0x0A], rest)"
    using assms(2) by (simp add: fgets_def Let_def min_def)
  then show ?thesis
    using assms(2) by (subst fgets_lines.simps) simp
qed

lemma fgets_lines_whole:
  assumes "\<forall>l\<in>set ls. CHR 0x0A \<notin> set l \<and> length l + 1 < n"
  shows "fgets_lines n (concat (map (\<lambda>l. l @ [CHR 0x0A]) ls)) = map (\<lambda>l. l @ [CHR 0x0A]) ls"
  using assms by (induction ls) (simp_all add: fgets_lines_step)

text \<open>No line is longer than the buffer allows.\<close>

lemma fgets_lines_length: "\<forall>l\<in>set (fgets_lines n s). length l < n"
proof (induction n s rule: fgets_lines.induct)
  case (1 n s)
  then show ?case
    by (subst fgets_lines.simps) (auto simp: fgets_def Let_def)
qed

lemma fgets_lines_concat: "2 \<le> n \<Longrightarrow> concat (fgets_lines n s) = s"
proof (induction n s rule: fgets_lines.induct)
  case (1 n s)
  then show ?case
    by (subst fgets_lines.simps) (auto simp: fgets_def Let_def)
qed

section \<open>Numbers\<close>

text \<open>Where a number ends.\<close>

definition number_end :: "string \<Rightarrow> bool" where
  "number_end s \<longleftrightarrow> s = [] \<or> \<not> isdigit (hd s)"

lemma number_end_space [simp]: "isspace c \<Longrightarrow> number_end (c # s)"
  by (auto simp: number_end_def isspace_def isdigit_def)

lemma scan_digits_end: "number_end rest \<Longrightarrow> scan_digits 10 v rest = (v, rest)"
  by (cases rest) (auto simp: number_end_def isdigit_iff)

lemma scan_dec: "number_end rest \<Longrightarrow> scan_digits 10 0 (dec n @ rest) = (n, rest)"
  using scan_digits_append [OF dec_digits, of 0 n rest] by (simp add: scan_digits_dec scan_digits_end)

lemma hd_dec: "isdigit (hd (dec n))"
  using dec_digits [of n] by (cases "dec n") (auto simp: isdigit_iff)

lemma hd_decz: "\<not> isspace (hd (decz i))" "decz i \<noteq> []"
  using isdigit_not_special(1) [OF hd_dec] by (auto simp: decz_def isspace_def)

lemma drop_spaces_decz [simp]: "dropWhile isspace (decz i @ rest) = decz i @ rest"
  using hd_decz [of i] by (cases "decz i") auto

lemma read_number_decz_strto:
  assumes "number_end rest"
  shows "read_number sg (decz i @ rest) = Some (strto sg (i < 0) (nat \<bar>i\<bar>), rest)"
proof (cases "i < 0")
  case True
  then show ?thesis
    using assms hd_dec [of "nat (- i)"] by (simp add: read_number_def decz_def scan_dec)
next
  case False
  then obtain c cs where c: "dec (nat i) = c # cs" "isdigit c"
    using hd_dec [of "nat i"] by (cases "dec (nat i)") auto
  then have "\<not> prefix ''-'' (c # cs @ rest)" "\<not> prefix ''+'' (c # cs @ rest)"
    using isdigit_not_special(2,3) [OF c(2)] by auto
  moreover have "scan_digits 10 0 (c # cs @ rest) = (nat i, rest)"
    using scan_dec [OF assms, of "nat i"] c(1) by simp
  ultimately show ?thesis
    using False c unfolding read_number_def decz_def by (simp add: Let_def)
qed

lemma strto_fits:
  "- (2 ^ 63) \<le> i \<Longrightarrow> i < 2 ^ 63 \<Longrightarrow> strto True (i < 0) (nat \<bar>i\<bar>) = word_of_int i"
  by (auto simp: strto_def nat_less_iff nat_le_iff)

lemma read_number_decz:
  assumes "number_end rest" "- (2 ^ 63) \<le> i" "i < 2 ^ 63"
  shows "read_number True (decz i @ rest) = Some (word_of_int i, rest)"
  using read_number_decz_strto [OF assms(1)] strto_fits [OF assms(2,3)] by simp

lemma read_number_shorter: "read_number sg s = Some (v, r) \<Longrightarrow> length r < length s"
proof -
  assume a: "read_number sg s = Some (v, r)"
  define body where "body = (if prefix ''-'' s \<or> prefix ''+'' s then tl s else s)"
  have b: "body \<noteq> []" "isdigit (hd body)" "r = snd (scan_digits 10 0 body)"
    using a by (auto simp: read_number_def body_def Let_def split_beta split: if_splits)
  then obtain c cs where c: "body = c # cs" "is_digit_in 10 c" by (cases body) (auto simp: isdigit_iff)
  then have "length r \<le> length cs" using b(3) length_scan_digits [of 10 _ cs] by simp
  moreover have "length body \<le> length s" by (simp add: body_def)
  ultimately show ?thesis using c(1) by simp
qed

section \<open>Columns of numbers\<close>

text \<open>A format of numbers only, some of them suppressed, and the text it is meant for.\<close>

definition numbers :: "bool list \<Rightarrow> directive list" where
  "numbers fs = concat (map (\<lambda>b. [Num True b, Blank]) fs)"

definition columns :: "int list \<Rightarrow> string" where
  "columns xs = concat (map (\<lambda>i. decz i @ '' '') xs)"

definition picked :: "bool list \<Rightarrow> int list \<Rightarrow> int list" where
  "picked fs xs = map snd (filter fst (zip fs xs))"

lemma numbers_simps [simp]: "numbers [] = []" "numbers (b # fs) = Num True b # Blank # numbers fs"
  by (simp_all add: numbers_def)

lemma columns_simps [simp]: "columns [] = []" "columns (i # xs) = decz i @ '' '' @ columns xs"
  by (simp_all add: columns_def)

lemma picked_simps [simp]:
  "picked [] xs = []" "picked fs [] = []" "picked (b # fs) (i # xs) = (if b then i # picked fs xs else picked fs xs)"
  by (simp_all add: picked_def)

lemma isspace_blank [simp]: "isspace CHR '' ''"
  by (simp add: isspace_def)

lemma scan_numbers_spaces: "scan (numbers fs) (dropWhile isspace s) = scan (numbers fs) s"
proof (cases fs)
  case (Cons b bs)
  moreover have "dropWhile isspace (dropWhile isspace s) = dropWhile isspace s"
    by (rule dropWhile_idem)
  ultimately show ?thesis by (simp only: numbers_simps scan.simps)
qed simp

lemma scan_numbers_blank [simp]: "scan (numbers fs) (CHR '' '' # s) = scan (numbers fs) s"
  using scan_numbers_spaces [of fs "CHR '' '' # s"] by (simp add: scan_numbers_spaces)

lemma scan_numbers:
  assumes "length fs \<le> length xs" "\<forall>i\<in>set (picked fs xs). - (2 ^ 63) \<le> i \<and> i < 2 ^ 63"
  shows "scan (numbers fs) (columns xs @ rest) = map (VNum \<circ> word_of_int) (picked fs xs)"
  using assms
proof (induction fs arbitrary: xs)
  case (Cons b fs)
  then obtain i ys where xs: "xs = i # ys" by (cases xs) auto
  have "number_end ('' '' @ columns ys @ rest)" by simp
  note num = read_number_decz_strto [OF this, of True i]
  have "scan (numbers (b # fs)) (columns xs @ rest) =
      (if b then [VNum (strto True (i < 0) (nat \<bar>i\<bar>))] else []) @ scan (numbers fs) (columns ys @ rest)"
    using num by (simp add: xs scan_numbers_spaces)
  then show ?case
    using Cons.IH [of ys] Cons.prems by (auto simp: xs strto_fits)
qed simp

section \<open>Labelled values\<close>

lemma scan_lits: "scan (map Lit lab @ ds) (lab @ s) = scan ds s"
  by (induction lab) auto

lemma directives_label:
  assumes "\<forall>c\<in>set lab. \<not> isspace c \<and> c \<noteq> CHR ''%''"
  shows "directives (lab @ fmt) = map Lit lab @ directives fmt"
  using assms by (induction lab) (simp_all add: directives.simps [of "_ # _"])

lemma conversions:
  "conversion ''d'' = Some (Num True True, [])" "conversion ''lld'' = Some (Num True True, [])"
  "conversion ''llu'' = Some (Num False True, [])" "conversion ''*s %llu'' = Some (Str 0 False, '' %llu'')"
  by code_simp+

end
