(* ===== verification/Photoproc.thy ===== *)
theory Photoproc
  imports Task_Types Netatop Scanf
begin

text \<open>
  The task sampler \<^verbatim>\<open>src/Qt/FakeAtop/photoproc.c\<close>: the files of one task under \<^verbatim>\<open>/proc\<close> (\<open>procstat\<close>, \<open>procstatus\<close>,
  \<open>procio\<close>, \<open>proccmd\<close>, \<open>proccont\<close>, \<open>procsmaps\<close>).  The contents of the files are arguments, \<open>None\<close> for a file that cannot
  be opened; so is what the uninitialised local buffers hold.  The results of the operations are \<open>None\<close> for undefined behaviour
  and \<open>Inl\<close> for the exit code of \<open>cleanstop\<close>.
\<close>

section \<open>One task directory\<close>

text \<open>
  What a task directory holds while it is visited: the files; the answer of the netatop module; whether the privileges can be
  dropped again after reading \<open>io\<close>, \<open>smaps\<close> and the network counters; and the bytes left on the stack where \<open>procstat\<close>,
  \<open>proccont\<close> and \<open>procsmaps\<close> have their local variables.
\<close>

record taskdir =
  td_stat :: "string option"
  td_status :: "string option"
  td_io :: "string option"
  td_cmdline :: "string option"
  td_cpuset :: "string option"
  td_smaps :: "(string \<times> bool) option"
  td_net :: "i32 + netpertask"
  td_drop_io :: bool
  td_drop_smaps :: bool
  td_drop_net :: bool
  td_stk_stat :: chars
  td_stk_cpuset :: chars
  td_stk_pss :: u64

text \<open>The globals \<open>hertz\<close>, \<open>pagesize\<close> and \<open>calcpss\<close>.\<close>

record photoenv =
  hertz :: u16
  pagesize :: u32
  calcpss :: byte

definition PNAMLEN :: nat where "PNAMLEN = 15"
definition CMDLEN :: nat where "CMDLEN = 4096"

abbreviation set_gen :: "(gen \<Rightarrow> gen) \<Rightarrow> tstat \<Rightarrow> tstat" where "set_gen f \<equiv> t_gen_update f"
abbreviation set_cpu :: "(cpu \<Rightarrow> cpu) \<Rightarrow> tstat \<Rightarrow> tstat" where "set_cpu f \<equiv> t_cpu_update f"
abbreviation set_mem :: "(mem \<Rightarrow> mem) \<Rightarrow> tstat \<Rightarrow> tstat" where "set_mem f \<equiv> t_mem_update f"

section \<open>stat\<close>

definition SCANSTAT :: string where
  "SCANSTAT = ''%c   %d   %*d  %*d  %*d  %*d  '' @
     ''%*d  %lld %*d  %lld %*d  %lld '' @
     ''%lld %*d  %*d  %d   %d   %*d  '' @
     ''%*d  %ld %lld %lld %*d  %*d  '' @
     ''%*d  %*d  %*d  %*d  %*d  %*d  '' @
     ''%*d  %*d  %*d  %*d  %*d  %*d  '' @
     ''%d   %d   %d ''"

definition stat_vars :: "(scanval \<Rightarrow> tstat \<Rightarrow> tstat) list" where
  "stat_vars =
     [\<lambda>v. set_gen (\<lambda>g. g\<lparr>gen_state := ucast (vnum v)\<rparr>),
      \<lambda>v. set_gen (\<lambda>g. g\<lparr>gen_ppid := ucast (vnum v)\<rparr>),
      \<lambda>v. set_mem (\<lambda>m. m\<lparr>mem_minflt := vnum v\<rparr>),
      \<lambda>v. set_mem (\<lambda>m. m\<lparr>mem_majflt := vnum v\<rparr>),
      \<lambda>v. set_cpu (\<lambda>c. c\<lparr>cpu_utime := vnum v\<rparr>),
      \<lambda>v. set_cpu (\<lambda>c. c\<lparr>cpu_stime := vnum v\<rparr>),
      \<lambda>v. set_cpu (\<lambda>c. c\<lparr>cpu_prio := ucast (vnum v)\<rparr>),
      \<lambda>v. set_cpu (\<lambda>c. c\<lparr>cpu_nice := ucast (vnum v)\<rparr>),
      \<lambda>v. set_gen (\<lambda>g. g\<lparr>gen_btime := vnum v\<rparr>),
      \<lambda>v. set_mem (\<lambda>m. m\<lparr>mem_vmem := vnum v\<rparr>),
      \<lambda>v. set_mem (\<lambda>m. m\<lparr>mem_rmem := vnum v\<rparr>),
      \<lambda>v. set_cpu (\<lambda>c. c\<lparr>cpu_curcpu := ucast (vnum v)\<rparr>),
      \<lambda>v. set_cpu (\<lambda>c. c\<lparr>cpu_rtprio := ucast (vnum v)\<rparr>),
      \<lambda>v. set_cpu (\<lambda>c. c\<lparr>cpu_policy := ucast (vnum v)\<rparr>)]"

text \<open>\<open>strchr(line, c)\<close> and \<open>strrchr(line, c)\<close> as positions.\<close>

definition strchr :: "string \<Rightarrow> char \<Rightarrow> nat option" where
  "strchr s c = (if c \<in> set s then Some (length (takeWhile (\<lambda>d. d \<noteq> c) s)) else None)"

definition strrchr :: "string \<Rightarrow> char \<Rightarrow> nat option" where
  "strrchr s c = (if c \<in> set s then Some (length s - 1 - length (takeWhile (\<lambda>d. d \<noteq> c) (rev s))) else None)"

text \<open>The copy of the command name, with a question mark for every newline.\<close>

definition stat_name :: "string \<Rightarrow> chars \<Rightarrow> chars" where
  "stat_name cmd name =
     (let s = take PNAMLEN cmd in
      map (\<lambda>c. if c = CHR 0x0A then CHR ''?'' else c) s @ [NUL] @ drop (length s + 1) name)"

text \<open>The string at \<open>cmdtail+2\<close>; outside of the buffer, or without a NUL in it, the behaviour is undefined.\<close>

definition string_at :: "chars \<Rightarrow> nat \<Rightarrow> string option" where
  "string_at line i = (if i < length line \<and> NUL \<in> set (drop i line) then Some (cstr (drop i line)) else None)"

text \<open>The \<open>switch\<close> over the state.\<close>

definition state_count :: "tstat \<Rightarrow> tstat" where
  "state_count t =
     (let st = gen_state (t_gen t) in
      if st = of_char CHR ''R'' then set_gen (\<lambda>g. g\<lparr>gen_nthrrun := 1\<rparr>) t
      else if st = of_char CHR ''S'' then set_gen (\<lambda>g. g\<lparr>gen_nthrslpi := 1\<rparr>) t
      else if st = of_char CHR ''D'' then set_gen (\<lambda>g. g\<lparr>gen_nthrslpu := 1\<rparr>) t
      else t)"

text \<open>The normalization of the values; a division by zero is undefined.\<close>

definition stat_normal :: "photoenv \<Rightarrow> u64 \<Rightarrow> tstat \<Rightarrow> tstat option" where
  "stat_normal e bootepoch t =
     (if hertz e = 0 then None
      else Some
        (set_gen (\<lambda>g. g\<lparr>gen_btime := (gen_btime g + bootepoch) div ucast (hertz e)\<rparr>)
        (set_cpu (\<lambda>c. c\<lparr>cpu_prio := cpu_prio c + 100\<rparr>)
        (set_mem (\<lambda>m. m\<lparr>mem_vmem := cdiv (mem_vmem m) 1024, mem_rmem := mem_rmem m * ucast (pagesize e div 1024)\<rparr>) t))))"

definition procstat :: "photoenv \<Rightarrow> u64 \<Rightarrow> byte \<Rightarrow> taskdir \<Rightarrow> tstat \<Rightarrow> (bool \<times> tstat) option" where
  "procstat e bootepoch isproc td t =
     (case td_stat td of
        None \<Rightarrow> Some (False, t)
      | Some contents \<Rightarrow>
          let data = take 4095 contents in
          if data = [] then Some (False, t)
          else
            let line = data @ [NUL] @ drop (length data + 1) (td_stk_stat td); str = cstr line in
            (case (strchr str CHR ''('', strrchr str CHR '')'') of
               (Some cmdhead, Some cmdtail) \<Rightarrow>
                 if cmdtail < cmdhead then Some (False, t)
                 else do {
                   let t = set_gen (\<lambda>g. g\<lparr>gen_name := stat_name (drop (cmdhead + 1) (take cmdtail str)) (gen_name g)\<rparr>) t;
                   let t = set_gen (\<lambda>g. g\<lparr>gen_isproc := isproc, gen_excode := 0\<rparr>) t;
                   let t = set_cpu (\<lambda>c. c\<lparr>cpu_rtprio := 0, cpu_policy := 0\<rparr>) t;
                   let t = assign [\<lambda>v. set_gen (\<lambda>g. g\<lparr>gen_pid := ucast (vnum v)\<rparr>)] (sscanf str ''%d'') t;
                   rest \<leftarrow> string_at line (cmdtail + 2);
                   let vals = sscanf rest SCANSTAT;
                   let t = assign stat_vars vals t;
                   if length vals < 12 then Some (False, t)
                   else do {
                     t \<leftarrow> stat_normal e bootepoch t;
                     Some (True, state_count t)
                   }
                 }
             | _ \<Rightarrow> Some (False, t)))"

section \<open>status\<close>

text \<open>
  The chain of \<open>if\<close> statements of \<open>procstatus\<close>: a line that begins with the label is scanned with the format, and its numbers
  go to the variables.
\<close>

type_synonym label_case = "string \<times> string \<times> (scanval \<Rightarrow> tstat \<Rightarrow> tstat) list"

definition status_cases :: "label_case list" where
  "status_cases =
     [(''Tgid:'', ''Tgid: %d'', [\<lambda>v. set_gen (\<lambda>g. g\<lparr>gen_tgid := ucast (vnum v)\<rparr>)]),
      (''Pid:'', ''Pid: %d'', [\<lambda>v. set_gen (\<lambda>g. g\<lparr>gen_pid := ucast (vnum v)\<rparr>)]),
      (''SleepAVG:'', ''SleepAVG: %d%%'', [\<lambda>v. set_cpu (\<lambda>c. c\<lparr>cpu_sleepavg := ucast (vnum v)\<rparr>)]),
      (''Uid:'', ''Uid: %d %d %d %d'',
         [\<lambda>v. set_gen (\<lambda>g. g\<lparr>gen_ruid := ucast (vnum v)\<rparr>), \<lambda>v. set_gen (\<lambda>g. g\<lparr>gen_euid := ucast (vnum v)\<rparr>),
          \<lambda>v. set_gen (\<lambda>g. g\<lparr>gen_suid := ucast (vnum v)\<rparr>), \<lambda>v. set_gen (\<lambda>g. g\<lparr>gen_fsuid := ucast (vnum v)\<rparr>)]),
      (''Gid:'', ''Gid: %d %d %d %d'',
         [\<lambda>v. set_gen (\<lambda>g. g\<lparr>gen_rgid := ucast (vnum v)\<rparr>), \<lambda>v. set_gen (\<lambda>g. g\<lparr>gen_egid := ucast (vnum v)\<rparr>),
          \<lambda>v. set_gen (\<lambda>g. g\<lparr>gen_sgid := ucast (vnum v)\<rparr>), \<lambda>v. set_gen (\<lambda>g. g\<lparr>gen_fsgid := ucast (vnum v)\<rparr>)]),
      (''envID:'', ''envID: %d'', [\<lambda>v. set_gen (\<lambda>g. g\<lparr>gen_ctid := ucast (vnum v)\<rparr>)]),
      (''VPid:'', ''VPid: %d'', [\<lambda>v. set_gen (\<lambda>g. g\<lparr>gen_vpid := ucast (vnum v)\<rparr>)]),
      (''Threads:'', ''Threads: %d'', [\<lambda>v. set_gen (\<lambda>g. g\<lparr>gen_nthr := ucast (vnum v)\<rparr>)]),
      (''VmData:'', ''VmData: %lld'', [\<lambda>v. set_mem (\<lambda>m. m\<lparr>mem_vdata := vnum v\<rparr>)]),
      (''VmStk:'', ''VmStk: %lld'', [\<lambda>v. set_mem (\<lambda>m. m\<lparr>mem_vstack := vnum v\<rparr>)]),
      (''VmExe:'', ''VmExe: %lld'', [\<lambda>v. set_mem (\<lambda>m. m\<lparr>mem_vexec := vnum v\<rparr>)]),
      (''VmLib:'', ''VmLib: %lld'', [\<lambda>v. set_mem (\<lambda>m. m\<lparr>mem_vlibs := vnum v\<rparr>)]),
      (''VmSwap:'', ''VmSwap: %lld'', [\<lambda>v. set_mem (\<lambda>m. m\<lparr>mem_vswap := vnum v\<rparr>)])]"

text \<open>One line of the loop: the first label that it begins with decides.\<close>

definition status_line :: "string \<Rightarrow> tstat \<Rightarrow> tstat" where
  "status_line line t =
     (case List.find (\<lambda>(label, _). prefix label line) status_cases of
        None \<Rightarrow> t
      | Some (_, fmt, vars) \<Rightarrow> assign vars (sscanf (cstr line) fmt) t)"

text \<open>The loop ends at the line with \<open>SigQ:\<close>.\<close>

fun status_loop :: "string list \<Rightarrow> tstat \<Rightarrow> tstat" where
  "status_loop [] t = t"
| "status_loop (line # lines) t = (if prefix ''SigQ:'' line then t else status_loop lines (status_line line t))"

definition procstatus :: "taskdir \<Rightarrow> tstat \<Rightarrow> bool \<times> tstat" where
  "procstatus td t =
     (case td_status td of
        None \<Rightarrow> (False, t)
      | Some contents \<Rightarrow>
          let t = set_gen (\<lambda>g. g\<lparr>gen_nthr := 1\<rparr>) t;
              t = set_cpu (\<lambda>c. c\<lparr>cpu_sleepavg := 0\<rparr>) t;
              t = set_mem (\<lambda>m. m\<lparr>mem_vgrow := 0, mem_rgrow := 0\<rparr>) t
          in (True, status_loop (fgets_lines 4096 contents) t))"

section \<open>io\<close>

text \<open>The local variables \<open>dskrsz\<close>, \<open>dskwsz\<close> and \<open>dskcwsz\<close>.\<close>

record iocount =
  dskrsz :: count_t
  dskwsz :: count_t
  dskcwsz :: count_t

definition io_line :: "string \<Rightarrow> iocount \<Rightarrow> iocount" where
  "io_line line c =
     (let vals = sscanf (cstr line) ''%*s %llu'' in
      if prefix ''read_bytes:'' line then
        (let c = assign [\<lambda>v c. c\<lparr>dskrsz := vnum v\<rparr>] vals c in c\<lparr>dskrsz := cdiv (dskrsz c) 512\<rparr>)
      else if prefix ''write_bytes:'' line then
        (let c = assign [\<lambda>v c. c\<lparr>dskwsz := vnum v\<rparr>] vals c in c\<lparr>dskwsz := cdiv (dskwsz c) 512\<rparr>)
      else if prefix ''cancelled_write_bytes:'' line then
        (let c = assign [\<lambda>v c. c\<lparr>dskcwsz := vnum v\<rparr>] vals c in c\<lparr>dskcwsz := cdiv (dskcwsz c) 512\<rparr>)
      else c)"

text \<open>\<open>procio\<close> never reports a failure: its result is an exit code or the task.\<close>

definition procio :: "i32 \<Rightarrow> taskdir \<Rightarrow> tstat \<Rightarrow> int + tstat" where
  "procio flags td t =
     (if flags AND IOSTAT \<noteq> 0 then
        let t = (case td_io td of
                   None \<Rightarrow> t
                 | Some contents \<Rightarrow>
                     let c = fold io_line (fgets_lines 4096 contents) \<lparr>dskrsz = 0, dskwsz = 0, dskcwsz = 0\<rparr> in
                     t\<lparr>t_dsk := (t_dsk t)\<lparr>dsk_rsz := dskrsz c, dsk_rio := dskrsz c,
                        dsk_wsz := dskwsz c, dsk_wio := dskwsz c, dsk_cwsz := dskcwsz c\<rparr>\<rparr>)
        in if \<not> td_drop_io td then Inl 42 else Inr t
      else Inr t)"

section \<open>cmdline, cpuset and smaps\<close>

definition cmd_char :: "char \<Rightarrow> char" where
  "cmd_char c = (if c = NUL \<or> c = CHR 0x0A \<or> c = CHR 0x09 then CHR '' '' else c)"

definition proccmd :: "taskdir \<Rightarrow> tstat \<Rightarrow> tstat" where
  "proccmd td t =
     (let data = (case td_cmdline td of None \<Rightarrow> [] | Some contents \<Rightarrow> take CMDLEN contents);
          data = map cmd_char (butlast data) @ drop (length data - 1) data
      in set_gen (\<lambda>g. g\<lparr>gen_cmdline := data @ replicate (CMDLEN + 1 - length data) NUL\<rparr>) t)"

definition CIDPREFIX :: string where "CIDPREFIX = ''docker''"
definition CIDSIZE :: nat where "CIDSIZE = 12"

text \<open>\<open>strstr(line, CIDPREFIX)\<close> as a position.\<close>

fun strstr :: "string \<Rightarrow> string \<Rightarrow> nat option" where
  "strstr [] pat = (if pat = [] then Some 0 else None)"
| "strstr (c # s) pat = (if prefix pat (c # s) then Some 0 else map_option Suc (strstr s pat))"

text \<open>
  The bytes of the container id are copied from behind the prefix and the character after it; those outside of \<open>line\<close> are not
  defined.
\<close>

definition proccont :: "taskdir \<Rightarrow> tstat \<Rightarrow> (byte \<times> tstat) option" where
  "proccont td t =
     (case td_cpuset td of
        None \<Rightarrow> Some (0, t)
      | Some contents \<Rightarrow>
          let got = fst (fgets 80 contents) in
          if got = [] then Some (0, t)
          else
            let line = got @ [NUL] @ drop (length got + 1) (td_stk_cpuset td) in
            case (if line ! 1 \<noteq> NUL then strstr (cstr line) CIDPREFIX else None) of
              None \<Rightarrow> Some (0, t)
            | Some p \<Rightarrow>
                let i = p + length CIDPREFIX + 1 in
                if length line < i + CIDSIZE then None
                else Some (1, set_gen (\<lambda>g. g\<lparr>gen_container :=
                        take CIDSIZE (drop i line) @ drop CIDSIZE (gen_container g)\<rparr>) t))"

definition pss_line :: "string \<Rightarrow> count_t \<times> u64 \<Rightarrow> count_t \<times> u64" where
  "pss_line line = (\<lambda>(pmem, pssval).
     if \<not> prefix ''Pss:'' line then (pmem, pssval)
     else let pssval = assign [\<lambda>v _. vnum v] (sscanf (cstr line) ''Pss: %llu'') pssval in (pmem + pssval, pssval))"

definition procsmaps :: "taskdir \<Rightarrow> tstat \<Rightarrow> int + tstat" where
  "procsmaps td t =
     (let pmem = (case td_smaps td of
                    None \<Rightarrow> - 1
                  | Some (contents, ferror) \<Rightarrow>
                      if ferror then - 1 else fst (fold pss_line (fgets_lines 4096 contents) (0, td_stk_pss td)));
          t = set_mem (\<lambda>m. m\<lparr>mem_pmem := pmem\<rparr>) t
      in if \<not> td_drop_smaps td then Inl 42 else Inr t)"

section \<open>The line of stat\<close>

text \<open>Which of the numbers behind the state are kept_part.\<close>

definition stat_fields :: "bool list" where
  "stat_fields =
     [True, False, False, False, False, False, True, False, True, False, True, True, False, False, True, True, False,
      False, True, True, True, False, False, False, False, False, False, False, False, False, False, False, False,
      False, False, True, True, True]"

lemma directives_SCANSTAT: "directives SCANSTAT = Chr # Blank # numbers stat_fields"
  by code_simp

lemma picked_nth:
  "length fs \<le> length xs \<Longrightarrow> picked fs xs = map (\<lambda>i. xs ! i) (filter (\<lambda>i. fs ! i) [0..<length fs])"
proof (induction fs arbitrary: xs)
  case (Cons b fs)
  then obtain x ys where xs: "xs = x # ys" by (cases xs) auto
  have "[0..<length (b # fs)] = 0 # map Suc [0..<length fs]"
    by (simp add: map_Suc_upt upt_conv_Cons del: upt_Suc)
  then show ?case
    using Cons by (simp add: xs filter_map comp_def del: upt_Suc)
qed simp

lemma stat_fields_picked:
  "length stat_fields \<le> length xs \<Longrightarrow>
   picked stat_fields xs = map (\<lambda>i. xs ! i) [0, 6, 8, 10, 11, 14, 15, 18, 19, 20, 35, 36, 37]"
proof -
  assume "length stat_fields \<le> length xs"
  moreover have "filter (\<lambda>i. stat_fields ! i) [0..<length stat_fields] = [0, 6, 8, 10, 11, 14, 15, 18, 19, 20, 35, 36, 37]"
    by code_simp
  ultimately show ?thesis by (simp add: picked_nth)
qed

definition kernel_stat :: "int \<Rightarrow> string \<Rightarrow> char \<Rightarrow> int list \<Rightarrow> string \<Rightarrow> string" where
  "kernel_stat pid name st xs tail = decz pid @ '' ('' @ name @ '') '' @ [st] @ '' '' @ columns xs @ tail"

lemma decz_chars: "c \<in> set (decz i) \<Longrightarrow> c = CHR ''-'' \<or> isdigit c"
  using dec_digits [of "nat i"] dec_digits [of "nat (- i)"] by (auto simp: decz_def isdigit_iff split: if_splits)

lemma not_in_decz [simp]:
  "CHR ''('' \<notin> set (decz i)" "CHR '')'' \<notin> set (decz i)" "NUL \<notin> set (decz i)" "CHR 0x0A \<notin> set (decz i)"
  by (auto dest!: decz_chars simp: isdigit_def)

lemma not_in_columns [simp]: "CHR '')'' \<notin> set (columns xs)" "NUL \<notin> set (columns xs)"
  by (induction xs) auto

lemma takeWhile_upto: "c \<notin> set xs \<Longrightarrow> takeWhile (\<lambda>d. d \<noteq> c) (xs @ c # ys) = xs"
  by (induction xs) auto

lemma strchr_append: "c \<notin> set xs \<Longrightarrow> strchr (xs @ c # ys) c = Some (length xs)"
  by (simp add: strchr_def takeWhile_upto)

lemma strrchr_append: "c \<notin> set ys \<Longrightarrow> strrchr (xs @ c # ys) c = Some (length xs)"
proof -
  assume "c \<notin> set ys"
  then have "takeWhile (\<lambda>d. d \<noteq> c) (rev (xs @ c # ys)) = rev ys"
    using takeWhile_upto [of c "rev ys" "rev xs"] by simp
  then show ?thesis by (simp add: strrchr_def)
qed

lemma kernel_stat_parts:
  assumes "CHR '')'' \<notin> set tail" "st \<noteq> CHR '')''"
  shows "strchr (kernel_stat pid name st xs tail) CHR ''('' = Some (length (decz pid) + 1)"
    and "strrchr (kernel_stat pid name st xs tail) CHR '')'' = Some (length (decz pid) + 2 + length name)"
    and "drop (length (decz pid) + 2) (take (length (decz pid) + 2 + length name) (kernel_stat pid name st xs tail)) = name"
    and "drop (length (decz pid) + 2 + length name + 2) (kernel_stat pid name st xs tail) = st # '' '' @ columns xs @ tail"
proof -
  show "strchr (kernel_stat pid name st xs tail) CHR ''('' = Some (length (decz pid) + 1)"
    using strchr_append [of "CHR ''(''" "decz pid @ '' ''"] by (simp add: kernel_stat_def)
  show "strrchr (kernel_stat pid name st xs tail) CHR '')'' = Some (length (decz pid) + 2 + length name)"
    using assms strrchr_append [of "CHR '')''" "'' '' @ st # '' '' @ columns xs @ tail" "decz pid @ '' ('' @ name"]
    by (simp add: kernel_stat_def)
qed (simp_all add: kernel_stat_def numeral_eq_Suc)

lemma sscanf_pid:
  assumes "- (2 ^ 63) \<le> pid" "pid < 2 ^ 63"
  shows "sscanf (kernel_stat pid name st xs tail) ''%d'' = [VNum (word_of_int pid)]"
proof -
  have "directives ''%d'' = [Num True True]" by code_simp
  moreover have "number_end ('' ('' @ name @ '') '' @ [st] @ '' '' @ columns xs @ tail)" by simp
  ultimately show ?thesis
    using assms by (simp add: sscanf_def kernel_stat_def read_number_decz)
qed

definition in_i64 :: "int \<Rightarrow> bool" where
  "in_i64 i \<longleftrightarrow> - (2 ^ 63) \<le> i \<and> i < 2 ^ 63"

lemma sscanf_stat:
  assumes "length stat_fields \<le> length xs" "\<forall>i\<in>set (picked stat_fields xs). in_i64 i"
  shows "sscanf (st # '' '' @ columns xs @ tail) SCANSTAT =
    VNum (of_char st) # map (VNum \<circ> word_of_int) (picked stat_fields xs)"
  using scan_numbers [of stat_fields xs tail] assms scan_numbers_spaces [of stat_fields "columns xs @ tail"]
  by (simp add: sscanf_def directives_SCANSTAT in_i64_def)

text \<open>What a line of \<open>stat\<close> says about a task.\<close>

definition stat_task :: "photoenv \<Rightarrow> u64 \<Rightarrow> byte \<Rightarrow> int \<Rightarrow> string \<Rightarrow> char \<Rightarrow> int list \<Rightarrow> tstat \<Rightarrow> tstat" where
  "stat_task e bootepoch isproc pid name st xs t = state_count (t\<lparr>
     t_gen := (t_gen t)\<lparr>gen_name := stat_name name (gen_name (t_gen t)), gen_isproc := isproc, gen_excode := 0,
       gen_pid := word_of_int pid, gen_state := of_char st, gen_ppid := word_of_int (xs ! 0),
       gen_btime := (word_of_int (xs ! 18) + bootepoch) div ucast (hertz e)\<rparr>,
     t_cpu := (t_cpu t)\<lparr>cpu_utime := word_of_int (xs ! 10), cpu_stime := word_of_int (xs ! 11),
       cpu_prio := word_of_int (xs ! 14) + 100, cpu_nice := word_of_int (xs ! 15), cpu_curcpu := word_of_int (xs ! 35),
       cpu_rtprio := word_of_int (xs ! 36), cpu_policy := word_of_int (xs ! 37)\<rparr>,
     t_mem := (t_mem t)\<lparr>mem_minflt := word_of_int (xs ! 6), mem_majflt := word_of_int (xs ! 8),
       mem_vmem := cdiv (word_of_int (xs ! 19)) 1024, mem_rmem := word_of_int (xs ! 20) * ucast (pagesize e div 1024)\<rparr>\<rparr>)"

lemma ucast_word_of_int:
  "(ucast (word_of_int i :: u64) :: i32) = word_of_int i"
  by (simp add: unsigned_of_int word_of_int_eq_iff)

lemma ucast_of_char: "(ucast (of_char c :: u64) :: byte) = of_char c"
  by (cases c) (simp only: of_char_Char, simp add: of_char_def horner_sum_simps)

lemma stat_task_fields:
  assumes "length xs \<ge> length stat_fields" "hertz e \<noteq> 0"
  shows "map_option state_count (stat_normal e bootepoch (assign stat_vars (VNum (of_char st) # map (VNum \<circ> word_of_int) (picked stat_fields xs))
      (set_gen (\<lambda>g. g\<lparr>gen_pid := word_of_int pid\<rparr>) (set_cpu (\<lambda>c. c\<lparr>cpu_rtprio := 0, cpu_policy := 0\<rparr>)
        (set_gen (\<lambda>g. g\<lparr>gen_isproc := isproc, gen_excode := 0\<rparr>)
          (set_gen (\<lambda>g. g\<lparr>gen_name := stat_name name (gen_name g)\<rparr>) t)))))) =
    Some (stat_task e bootepoch isproc pid name st xs t)"
  using assms(2)
  by (cases t)
    (simp add: stat_fields_picked [OF assms(1)] stat_vars_def stat_normal_def stat_task_def ucast_word_of_int ucast_of_char,
      rule arg_cong [where f = state_count], simp add: gen.equality cpu.equality mem.equality)

text \<open>The name in a task is the one in the line, up to its length.\<close>

lemma stat_task_name:
  assumes "NUL \<notin> set name"
  shows "cstr (gen_name (t_gen (stat_task e b isproc pid name st xs t))) =
    map (\<lambda>c. if c = CHR 0x0A then CHR ''?'' else c) (take PNAMLEN name)"
proof -
  have "gen_name (t_gen (stat_task e b isproc pid name st xs t)) = stat_name name (gen_name (t_gen t))"
    by (simp add: stat_task_def state_count_def Let_def)
  moreover have "NUL \<notin> set (map (\<lambda>c. if c = CHR 0x0A then CHR ''?'' else c) (take PNAMLEN name))"
    using assms by (auto dest: in_set_takeD)
  ultimately show ?thesis
    using cstr_append_NUL by (simp add: stat_name_def Let_def)
qed

lemma procstat_line:
  assumes "td_stat td = Some (kernel_stat pid name st xs tail)" "length (kernel_stat pid name st xs tail) \<le> 4095"
    and "NUL \<notin> set (name @ [st] @ tail)" "CHR '')'' \<notin> set tail" "st \<noteq> CHR '')''"
    and "in_i64 pid" "length stat_fields \<le> length xs" "\<forall>i\<in>set (picked stat_fields xs). in_i64 i" "hertz e \<noteq> 0"
  shows "procstat e bootepoch isproc td t = Some (True, stat_task e bootepoch isproc pid name st xs t) \<and>
    cstr (gen_name (t_gen (stat_task e bootepoch isproc pid name st xs t))) =
      map (\<lambda>c. if c = CHR 0x0A then CHR ''?'' else c) (take PNAMLEN name)"
proof -
  let ?l = "kernel_stat pid name st xs tail"
  let ?line = "?l @ [NUL] @ drop (length ?l + 1) (td_stk_stat td)"
  have l: "take 4095 ?l = ?l" "?l \<noteq> []" "NUL \<notin> set ?l"
    using assms(2,3) by (simp_all add: kernel_stat_def)
  then have str: "cstr ?line = ?l" by simp
  note parts = kernel_stat_parts [OF assms(4,5), of pid name xs]
  have "string_at ?line (length (decz pid) + 2 + length name + 2) = Some (st # '' '' @ columns xs @ tail)"
  proof -
    let ?i = "length (decz pid) + 2 + length name + 2"
    have i: "?i < length ?l" by (simp add: kernel_stat_def)
    then have "drop ?i ?line = (st # '' '' @ columns xs @ tail) @ NUL # drop (length ?l + 1) (td_stk_stat td)"
      using parts(4) by (simp only: drop_append) simp
    moreover have "cstr ((st # '' '' @ columns xs @ tail) @ NUL # drop (length ?l + 1) (td_stk_stat td)) = st # '' '' @ columns xs @ tail"
      using assms(3) by (intro cstr_append_NUL) auto
    ultimately show ?thesis
      unfolding string_at_def using i by (simp only:) simp
  qed
  note at = this
  have vals: "length (VNum (of_char st) # map (VNum \<circ> word_of_int) (picked stat_fields xs)) = 14"
    by (simp add: stat_fields_picked [OF assms(7)])
  have pid: "sscanf ?l ''%d'' = [VNum (word_of_int pid)]"
    using assms(6) by (intro sscanf_pid) (simp_all add: in_i64_def)
  have "procstat e bootepoch isproc td t =
      map_option (Pair True) (map_option state_count (stat_normal e bootepoch (assign stat_vars (VNum (of_char st) # map (VNum \<circ> word_of_int) (picked stat_fields xs))
        (set_gen (\<lambda>g. g\<lparr>gen_pid := word_of_int pid\<rparr>) (set_cpu (\<lambda>c. c\<lparr>cpu_rtprio := 0, cpu_policy := 0\<rparr>)
          (set_gen (\<lambda>g. g\<lparr>gen_isproc := isproc, gen_excode := 0\<rparr>)
            (set_gen (\<lambda>g. g\<lparr>gen_name := stat_name name (gen_name g)\<rparr>) t)))))))"
    using vals l(2) parts(3)
    unfolding procstat_def assms(1) option.case l(1) Let_def str parts(1,2) prod.case pid at sscanf_stat [OF assms(7,8)]
    by (simp add: at [simplified] sscanf_stat [OF assms(7,8), simplified] ucast_word_of_int)
       (simp add: map_conv_bind_option comp_def)
  then show ?thesis
    using stat_task_fields [OF assms(7,9)] stat_task_name assms(3) by simp
qed

text \<open>
  C8: The line of \<open>stat\<close> is understood whatever the name of the program.  When the kernel writes pid, name in parentheses,
  state and numbers, \<open>procstat\<close> succeeds and stores every number in its field, normalized (start time since the epoch, priority
  plus 100, sizes in kilobytes), and the name up to 15 characters, even if the name contains blanks, numbers or
  parentheses itself; only a newline in it becomes a question mark.
\<close>

theorem procstat_roundtrip:
  assumes "td_stat td = Some (kernel_stat pid name st xs tail)" "length (kernel_stat pid name st xs tail) \<le> 4095"
    and "NUL \<notin> set (name @ [st] @ tail)" "CHR '')'' \<notin> set tail" "st \<noteq> CHR '')''"
    and "in_i64 pid" "length stat_fields \<le> length xs" "\<forall>i\<in>set (picked stat_fields xs). in_i64 i" "hertz e \<noteq> 0"
  shows "procstat e bootepoch isproc td t = Some (True, stat_task e bootepoch isproc pid name st xs t) \<and>
    cstr (gen_name (t_gen (stat_task e bootepoch isproc pid name st xs t))) =
      map (\<lambda>c. if c = CHR 0x0A then CHR ''?'' else c) (take PNAMLEN name)"
  using assms by (rule procstat_line)

definition taskdir_ex :: taskdir where
  "taskdir_ex = \<lparr>td_stat = Some (kernel_stat 77 ''a) (b'' CHR ''R'' (map int [0..<49]) [CHR 0x0A]), td_status = None, td_io = None, td_cmdline = None,
     td_cpuset = None, td_smaps = None, td_net = Inl 1, td_drop_io = True, td_drop_smaps = True, td_drop_net = True,
     td_stk_stat = replicate 4096 NUL, td_stk_cpuset = replicate 80 NUL, td_stk_pss = 0\<rparr>"

definition photoenv_ex :: photoenv where
  "photoenv_ex = \<lparr>hertz = 100, pagesize = 4096, calcpss = 0\<rparr>"

theorem procstat_roundtrip_witness:
  "\<exists>t. procstat photoenv_ex 1000 1 taskdir_ex tstat0 = Some (True, t) \<and> cstr (gen_name (t_gen t)) = ''a) (b'' \<and>
     gen_pid (t_gen t) = 77 \<and> cpu_utime (t_cpu t) = 10 \<and> mem_rmem (t_mem t) = 80 \<and> gen_nthrrun (t_gen t) = 1"
proof -
  let ?xs = "map int [0..<49]"
  have n: "length stat_fields \<le> length ?xs" "\<forall>i\<in>set (picked stat_fields ?xs). in_i64 i"
    by (simp add: stat_fields_def) (simp add: stat_fields_def picked_nth in_i64_def upt_rec)
  have len: "length (kernel_stat 77 ''a) (b'' CHR ''R'' ?xs [CHR 0x0A]) \<le> 4095"
    by code_simp
  show ?thesis
    using procstat_roundtrip [OF _ len _ _ _ _ n, of taskdir_ex photoenv_ex 1000 1 tstat0]
    by (simp add: taskdir_ex_def photoenv_ex_def in_i64_def stat_task_def PNAMLEN_def state_count_def)
qed

section \<open>The lines of status\<close>

text \<open>
  A line of \<open>status\<close>: a label that the sampler knows, numbers with white space in front of each, and a rest such as the unit
  \<open>kB\<close>; or any other line.
\<close>

datatype status_item = Labelled string "(string \<times> int) list" string | Other string

fun item_line :: "status_item \<Rightarrow> string" where
  "item_line (Labelled label vals tail) = label @ concat (map (\<lambda>(ws, i). ws @ decz i) vals) @ tail"
| "item_line (Other s) = s"

definition label_vars :: "string \<Rightarrow> (scanval \<Rightarrow> tstat \<Rightarrow> tstat) list" where
  "label_vars label = (case map_of (map (\<lambda>(l, _, vars). (l, vars)) status_cases) label of None \<Rightarrow> [] | Some vars \<Rightarrow> vars)"

fun item_effect :: "status_item \<Rightarrow> tstat \<Rightarrow> tstat" where
  "item_effect (Labelled label vals tail) t = assign (label_vars label) (map (\<lambda>(ws, i). VNum (word_of_int i)) vals) t"
| "item_effect (Other s) t = t"

definition status_labels :: "string list" where
  "status_labels = map fst status_cases"

text \<open>The known labels of the kernel and how many numbers stand behind each.\<close>

definition status_shape :: "(string \<times> nat) list" where
  "status_shape =
     [(''Tgid:'', 1), (''Pid:'', 1), (''SleepAVG:'', 1), (''Uid:'', 4), (''Gid:'', 4), (''envID:'', 1), (''VPid:'', 1), (''Threads:'', 1),
      (''VmData:'', 1), (''VmStk:'', 1), (''VmExe:'', 1), (''VmLib:'', 1), (''VmSwap:'', 1)]"

fun item_ok :: "status_item \<Rightarrow> bool" where
  "item_ok (Labelled label vals tail) \<longleftrightarrow> (label, length vals) \<in> set status_shape \<and>
     (\<forall>(ws, i)\<in>set vals. ws \<noteq> [] \<and> (\<forall>c\<in>set ws. isspace c) \<and> in_i64 i) \<and> number_end tail"
| "item_ok (Other s) \<longleftrightarrow> (\<forall>l\<in>set (''SigQ:'' # map fst status_shape). \<not> prefix l (s @ [CHR 0x0A]))"

lemma status_labels_shape: "status_labels = map fst status_shape"
  by (simp add: status_labels_def status_cases_def status_shape_def)

lemma label_vars_simps:
  "label_vars ''Tgid:'' = [\<lambda>v. set_gen (\<lambda>g. g\<lparr>gen_tgid := ucast (vnum v)\<rparr>)]"
  "label_vars ''Pid:'' = [\<lambda>v. set_gen (\<lambda>g. g\<lparr>gen_pid := ucast (vnum v)\<rparr>)]"
  "label_vars ''SleepAVG:'' = [\<lambda>v. set_cpu (\<lambda>c. c\<lparr>cpu_sleepavg := ucast (vnum v)\<rparr>)]"
  "label_vars ''Uid:'' = [\<lambda>v. set_gen (\<lambda>g. g\<lparr>gen_ruid := ucast (vnum v)\<rparr>), \<lambda>v. set_gen (\<lambda>g. g\<lparr>gen_euid := ucast (vnum v)\<rparr>),
     \<lambda>v. set_gen (\<lambda>g. g\<lparr>gen_suid := ucast (vnum v)\<rparr>), \<lambda>v. set_gen (\<lambda>g. g\<lparr>gen_fsuid := ucast (vnum v)\<rparr>)]"
  "label_vars ''Gid:'' = [\<lambda>v. set_gen (\<lambda>g. g\<lparr>gen_rgid := ucast (vnum v)\<rparr>), \<lambda>v. set_gen (\<lambda>g. g\<lparr>gen_egid := ucast (vnum v)\<rparr>),
     \<lambda>v. set_gen (\<lambda>g. g\<lparr>gen_sgid := ucast (vnum v)\<rparr>), \<lambda>v. set_gen (\<lambda>g. g\<lparr>gen_fsgid := ucast (vnum v)\<rparr>)]"
  "label_vars ''envID:'' = [\<lambda>v. set_gen (\<lambda>g. g\<lparr>gen_ctid := ucast (vnum v)\<rparr>)]"
  "label_vars ''VPid:'' = [\<lambda>v. set_gen (\<lambda>g. g\<lparr>gen_vpid := ucast (vnum v)\<rparr>)]"
  "label_vars ''Threads:'' = [\<lambda>v. set_gen (\<lambda>g. g\<lparr>gen_nthr := ucast (vnum v)\<rparr>)]"
  "label_vars ''VmData:'' = [\<lambda>v. set_mem (\<lambda>m. m\<lparr>mem_vdata := vnum v\<rparr>)]"
  "label_vars ''VmStk:'' = [\<lambda>v. set_mem (\<lambda>m. m\<lparr>mem_vstack := vnum v\<rparr>)]"
  "label_vars ''VmExe:'' = [\<lambda>v. set_mem (\<lambda>m. m\<lparr>mem_vexec := vnum v\<rparr>)]"
  "label_vars ''VmLib:'' = [\<lambda>v. set_mem (\<lambda>m. m\<lparr>mem_vlibs := vnum v\<rparr>)]"
  "label_vars ''VmSwap:'' = [\<lambda>v. set_mem (\<lambda>m. m\<lparr>mem_vswap := vnum v\<rparr>)]"
  by (simp_all add: label_vars_def status_cases_def)

lemma item_ok_label:
  assumes "item_ok (Labelled label vals tail)"
  shows "label \<in> set status_labels" "length vals = length (label_vars label)"
proof -
  have ok: "(label, length vals) \<in> set status_shape" using assms by simp
  then show "label \<in> set status_labels" by (force simp: status_labels_shape)
  have "\<forall>(l, n)\<in>set status_shape. length (label_vars l) = n"
    by (simp add: status_shape_def label_vars_simps)
  then show "length vals = length (label_vars label)" using ok by blast
qed

definition line_ok :: "status_item \<Rightarrow> bool" where
  "line_ok it \<longleftrightarrow> item_ok it \<and> NUL \<notin> set (item_line it) \<and> CHR 0x0A \<notin> set (item_line it) \<and> length (item_line it) < 4095"

lemma status_labels_eq:
  "status_labels = [''Tgid:'', ''Pid:'', ''SleepAVG:'', ''Uid:'', ''Gid:'', ''envID:'', ''VPid:'', ''Threads:'', ''VmData:'',
     ''VmStk:'', ''VmExe:'', ''VmLib:'', ''VmSwap:'']"
  by (simp add: status_labels_def status_cases_def)

lemma labels_apart: "l \<in> set (''SigQ:'' # status_labels) \<Longrightarrow> l' \<in> set (''SigQ:'' # status_labels) \<Longrightarrow> prefix l l' \<Longrightarrow> l = l'"
proof -
  have "\<forall>l\<in>set (''SigQ:'' # status_labels). \<forall>l'\<in>set (''SigQ:'' # status_labels). prefix l l' \<longrightarrow> l = l'"
    unfolding status_labels_eq by code_simp
  then show "l \<in> set (''SigQ:'' # status_labels) \<Longrightarrow> l' \<in> set (''SigQ:'' # status_labels) \<Longrightarrow> prefix l l' \<Longrightarrow> l = l'"
    by blast
qed

lemma labels_of_line:
  assumes "l \<in> set (''SigQ:'' # status_labels)" "l' \<in> set (''SigQ:'' # status_labels)" "prefix l s" "prefix l' s"
  shows "l = l'"
  using prefix_same_cases [OF assms(3,4)] labels_apart assms(1,2) by metis

text \<open>Each format is its label, then as many numbers as there are variables.\<close>

definition int_fields :: "nat \<Rightarrow> directive list" where
  "int_fields n = concat (replicate n [Blank, Num True True])"

lemma status_formats:
  "\<forall>(label, fmt, n)\<in>set (map (\<lambda>(l, f, vars). (l, f, length vars)) status_cases).
     \<exists>ds. directives fmt = map Lit label @ int_fields n @ ds \<and> ds \<in> {[], [Lit CHR ''%'']}"
proof -
  have table: "map (\<lambda>(l, f, vars). (l, f, length vars)) status_cases =
    [(''Tgid:'', ''Tgid: %d'', 1), (''Pid:'', ''Pid: %d'', 1), (''SleepAVG:'', ''SleepAVG: %d%%'', 1), (''Uid:'', ''Uid: %d %d %d %d'', 4),
     (''Gid:'', ''Gid: %d %d %d %d'', 4), (''envID:'', ''envID: %d'', 1), (''VPid:'', ''VPid: %d'', 1), (''Threads:'', ''Threads: %d'', 1),
     (''VmData:'', ''VmData: %lld'', 1), (''VmStk:'', ''VmStk: %lld'', 1), (''VmExe:'', ''VmExe: %lld'', 1), (''VmLib:'', ''VmLib: %lld'', 1),
     (''VmSwap:'', ''VmSwap: %lld'', 1)]"
    by (simp add: status_cases_def)
  have "\<forall>(label, fmt, n)\<in>set (map (\<lambda>(l, f, vars). (l, f, length vars)) status_cases).
      \<exists>ds\<in>set [[], [Lit CHR ''%'']]. directives fmt = map Lit label @ int_fields n @ ds"
    unfolding table by code_simp
  then show ?thesis by fastforce
qed

lemma scan_int_fields:
  assumes "\<forall>(ws, i)\<in>set vals. ws \<noteq> [] \<and> (\<forall>c\<in>set ws. isspace c) \<and> in_i64 i" "number_end tail" "ds \<in> {[], [Lit c]}"
  shows "scan (int_fields (length vals) @ ds) (concat (map (\<lambda>(ws, i). ws @ decz i) vals) @ tail) = map (\<lambda>(ws, i). VNum (word_of_int i)) vals"
  using assms
proof (induction vals)
  case Nil
  then show ?case by (auto simp: int_fields_def)
next
  case (Cons v vals)
  obtain ws i where v: "v = (ws, i)" by (cases v)
  let ?rest = "concat (map (\<lambda>(ws, i). ws @ decz i) vals) @ tail"
  have "dropWhile isspace (ws @ decz i @ ?rest) = decz i @ ?rest"
    using Cons.prems(1) v by (simp add: dropWhile_append2)
  moreover have "number_end ?rest"
  proof (cases vals)
    case (Cons u us)
    then obtain ws' i' where u: "u = (ws', i')" "ws' \<noteq> []" "isspace (hd ws')"
      using Cons.prems(1) by (cases u) auto
    then show ?thesis
      using Cons by (cases ws') auto
  qed (simp add: Cons.prems(2))
  then have "read_number True (decz i @ ?rest) = Some (word_of_int i, ?rest)"
    using Cons.prems(1) v by (intro read_number_decz) (auto simp: in_i64_def)
  ultimately show ?case
    using Cons by (simp add: int_fields_def v)
qed

lemma find_case:
  assumes "(label, fmt, vars) \<in> set status_cases" "prefix label line"
  shows "List.find (\<lambda>(label, _). prefix label line) status_cases = Some (label, fmt, vars)"
proof -
  have "distinct (map fst status_cases)" by (simp add: status_cases_def)
  then have same: "c = (label, fmt, vars)" if "c \<in> set status_cases" "fst c = label" for c
    using that assms(1) by (metis eq_key_imp_eq_value prod.collapse)
  have only: "l = label" if "(l, r) \<in> set status_cases" "prefix l line" for l r
    using that assms labels_of_line [of l label line] by (force simp: status_labels_def)
  show ?thesis
  proof (cases "List.find (\<lambda>(label, _). prefix label line) status_cases")
    case None
    then show ?thesis using assms by (auto simp: find_None_iff)
  next
    case (Some c)
    then have "c \<in> set status_cases" "prefix (fst c) line"
      by (auto simp: find_Some_iff split_beta)
    then show ?thesis
      using Some same only by (metis prod.collapse)
  qed
qed

lemma label_vars_case:
  assumes "(label, fmt, vars) \<in> set status_cases"
  shows "label_vars label = vars"
proof -
  have "distinct (map fst (map (\<lambda>(l, _, vars). (l, vars)) status_cases))" by (simp add: status_cases_def)
  moreover have "(label, vars) \<in> set (map (\<lambda>(l, _, vars). (l, vars)) status_cases)" using assms by force
  ultimately show ?thesis
    by (simp only: label_vars_def map_of_is_SomeI option.case)
qed

lemma status_line_item:
  assumes "line_ok it"
  shows "status_line (item_line it @ [CHR 0x0A]) t = item_effect it t"
proof (cases it)
  case (Labelled label vals tail)
  have ok: "item_ok (Labelled label vals tail)"
    using assms Labelled by (simp only: line_ok_def)
  obtain fmt vars where c: "(label, fmt, vars) \<in> set status_cases"
    using item_ok_label(1) [OF ok] by (auto simp: status_labels_def)
  then obtain ds where ds: "directives fmt = map Lit label @ int_fields (length vars) @ ds" "ds \<in> {[], [Lit CHR ''%'']}"
    using status_formats by fastforce
  have n: "length vals = length vars"
    using item_ok_label(2) [OF ok] label_vars_case [OF c] by simp
  have nl: "number_end (tail @ [CHR 0x0A])"
    using assms Labelled by (cases tail) (auto simp: line_ok_def number_end_def isdigit_def)
  have "cstr (item_line it @ [CHR 0x0A]) = item_line it @ [CHR 0x0A]"
    using assms by (intro cstr_id) (simp add: line_ok_def)
  then have "sscanf (cstr (item_line it @ [CHR 0x0A])) fmt =
      scan (int_fields (length vals) @ ds) (concat (map (\<lambda>(ws, i). ws @ decz i) vals) @ tail @ [CHR 0x0A])"
    by (simp add: sscanf_def Labelled ds(1) scan_lits n)
  also have "\<dots> = map (\<lambda>(ws, i). VNum (word_of_int i)) vals"
    using assms Labelled ds(2) nl by (intro scan_int_fields) (auto simp: line_ok_def)
  finally show ?thesis
    using find_case [OF c, of "item_line it @ [CHR 0x0A]"] label_vars_case [OF c]
    by (simp add: status_line_def Labelled)
next
  case (Other s)
  have "List.find (\<lambda>(label, _). prefix label (s @ [CHR 0x0A])) status_cases = None"
    using assms Other by (force simp: line_ok_def find_None_iff status_labels_def simp flip: status_labels_shape)
  then show ?thesis by (simp only: status_line_def Other item_line.simps item_effect.simps option.case)
qed

lemma item_not_end:
  assumes "line_ok it"
  shows "\<not> prefix ''SigQ:'' (item_line it @ [CHR 0x0A])"
proof (cases it)
  case (Labelled label vals tail)
  then have "item_ok (Labelled label vals tail)"
    using assms by (simp only: line_ok_def)
  then have l: "label \<in> set status_labels" "prefix label (item_line it @ [CHR 0x0A])"
    using item_ok_label(1) Labelled by simp_all
  moreover have "''SigQ:'' \<notin> set status_labels" unfolding status_labels_eq by code_simp
  ultimately show ?thesis
    using labels_of_line [of "''SigQ:''" label "item_line it @ [CHR 0x0A]"] by (metis list.set_intros)
next
  case (Other s)
  then show ?thesis using assms by (simp add: line_ok_def)
qed

lemma takeWhile_through: "c \<notin> set p \<Longrightarrow> takeWhile (\<lambda>d. d \<noteq> c) (p @ q) = p @ takeWhile (\<lambda>d. d \<noteq> c) q"
  by (induction p) auto

lemma fgets_lines_prefix:
  assumes "prefix p s" "CHR 0x0A \<notin> set p" "p \<noteq> []" "length p < n"
  shows "\<exists>l ls. fgets_lines n s = l # ls \<and> prefix p l"
proof -
  obtain r where s: "s = p @ r" using assms(1) by (auto elim: prefixE)
  have "length p \<le> length (takeWhile (\<lambda>c. c \<noteq> CHR 0x0A) (take (n - 1) s))"
    using assms(2,4) by (subst s) (simp add: takeWhile_through)
  then have "prefix p (fst (fgets n s))"
    using assms(4) by (simp add: fgets_def Let_def s)
  then show ?thesis
    using assms(3,4) by (subst fgets_lines.simps) (cases p; auto simp: split_beta s)
qed

lemma status_loop_items:
  assumes "\<forall>it\<in>set items. line_ok it"
  shows "status_loop (fgets_lines 4096 (concat (map (\<lambda>it. item_line it @ [CHR 0x0A]) items) @ ''SigQ:'' @ rest)) t = fold item_effect items t"
  using assms
proof (induction items arbitrary: t)
  case Nil
  obtain l ls where "fgets_lines 4096 (''SigQ:'' @ rest) = l # ls" "prefix ''SigQ:'' l"
    using fgets_lines_prefix [of "''SigQ:''" "''SigQ:'' @ rest" 4096] by auto
  then show ?case by simp
next
  case (Cons it items)
  let ?tail = "concat (map (\<lambda>it. item_line it @ [CHR 0x0A]) items) @ ''SigQ:'' @ rest"
  have "fgets_lines 4096 (item_line it @ CHR 0x0A # ?tail) = (item_line it @ [CHR 0x0A]) # fgets_lines 4096 ?tail"
    using Cons.prems by (intro fgets_lines_step) (simp_all add: line_ok_def)
  then show ?case
    using Cons item_not_end [of it] status_line_item [of it] by simp
qed

lemma procstatus_items:
  assumes "td_status td = Some (concat (map (\<lambda>it. item_line it @ [CHR 0x0A]) items) @ ''SigQ:'' @ rest)"
    and "\<forall>it\<in>set items. line_ok it"
  shows "procstatus td t = (True, fold item_effect items
    (t\<lparr>t_gen := (t_gen t)\<lparr>gen_nthr := 1\<rparr>, t_cpu := (t_cpu t)\<lparr>cpu_sleepavg := 0\<rparr>, t_mem := (t_mem t)\<lparr>mem_vgrow := 0, mem_rgrow := 0\<rparr>\<rparr>))"
proof -
  have "set_mem (\<lambda>m. m\<lparr>mem_vgrow := 0, mem_rgrow := 0\<rparr>) (set_cpu (\<lambda>c. c\<lparr>cpu_sleepavg := 0\<rparr>) (set_gen (\<lambda>g. g\<lparr>gen_nthr := 1\<rparr>) t)) =
      t\<lparr>t_gen := (t_gen t)\<lparr>gen_nthr := 1\<rparr>, t_cpu := (t_cpu t)\<lparr>cpu_sleepavg := 0\<rparr>, t_mem := (t_mem t)\<lparr>mem_vgrow := 0, mem_rgrow := 0\<rparr>\<rparr>"
    by (cases t) simp
  then show ?thesis
    using status_loop_items [OF assms(2), of rest] by (simp only: procstatus_def assms(1) option.case Let_def)
qed

text \<open>
  What the lines of a file mean for one field: the number in its column of the last line with its label, or the value from before if there is
  no such line.
\<close>

fun numbers_of :: "string \<Rightarrow> status_item \<Rightarrow> int list option" where
  "numbers_of label (Labelled l vals tail) = (if l = label then Some (map snd vals) else None)"
| "numbers_of label (Other s) = None"

definition status_num :: "status_item list \<Rightarrow> string \<Rightarrow> nat \<Rightarrow> 'a::len word \<Rightarrow> 'a word" where
  "status_num items label k w =
     (case List.map_filter (numbers_of label) (rev items) of [] \<Rightarrow> w | ns # _ \<Rightarrow> word_of_int (ns ! k))"

definition status_task :: "status_item list \<Rightarrow> tstat \<Rightarrow> tstat" where
  "status_task items t =
     (let g = t_gen t; c = t_cpu t; m = t_mem t in
      t\<lparr>t_gen := g\<lparr>
          gen_tgid := status_num items ''Tgid:'' 0 (gen_tgid g), gen_pid := status_num items ''Pid:'' 0 (gen_pid g),
          gen_ruid := status_num items ''Uid:'' 0 (gen_ruid g), gen_euid := status_num items ''Uid:'' 1 (gen_euid g),
          gen_suid := status_num items ''Uid:'' 2 (gen_suid g), gen_fsuid := status_num items ''Uid:'' 3 (gen_fsuid g),
          gen_rgid := status_num items ''Gid:'' 0 (gen_rgid g), gen_egid := status_num items ''Gid:'' 1 (gen_egid g),
          gen_sgid := status_num items ''Gid:'' 2 (gen_sgid g), gen_fsgid := status_num items ''Gid:'' 3 (gen_fsgid g),
          gen_ctid := status_num items ''envID:'' 0 (gen_ctid g), gen_vpid := status_num items ''VPid:'' 0 (gen_vpid g),
          gen_nthr := status_num items ''Threads:'' 0 (gen_nthr g)\<rparr>,
        t_cpu := c\<lparr>cpu_sleepavg := status_num items ''SleepAVG:'' 0 (cpu_sleepavg c)\<rparr>,
        t_mem := m\<lparr>
          mem_vdata := status_num items ''VmData:'' 0 (mem_vdata m), mem_vstack := status_num items ''VmStk:'' 0 (mem_vstack m),
          mem_vexec := status_num items ''VmExe:'' 0 (mem_vexec m), mem_vlibs := status_num items ''VmLib:'' 0 (mem_vlibs m),
          mem_vswap := status_num items ''VmSwap:'' 0 (mem_vswap m)\<rparr>\<rparr>)"

lemma status_num_snoc:
  "status_num [] label k w = w"
  "status_num (items @ [it]) label k w =
     (case numbers_of label it of Some ns \<Rightarrow> word_of_int (ns ! k) | None \<Rightarrow> status_num items label k w)"
  by (simp_all add: status_num_def map_filter_simps split: option.split)

lemma ucast_of_int_32: "(ucast (word_of_int i :: u64) :: i32) = word_of_int i"
  by (rule bit_word_eqI) (auto simp: bit_ucast_iff bit_word_of_int_iff)

lemma vals_1: "length vals = 1 \<Longrightarrow> \<exists>w a. vals = [(w, a)]"
  by (cases vals; cases "hd vals") auto

lemma vals_4: "length vals = 4 \<Longrightarrow> \<exists>v w x y a b c d. vals = [(v, a), (w, b), (x, c), (y, d)]"
  by (auto simp: numeral_eq_Suc length_Suc_conv)

text \<open>Each labelled line changes its own fields.\<close>

lemma status_task_labels:
  "item_effect (Labelled ''Tgid:'' [(w, a)] tail) (status_task items t) = status_task (items @ [Labelled ''Tgid:'' [(w, a)] tail]) t"
  "item_effect (Labelled ''Pid:'' [(w, a)] tail) (status_task items t) = status_task (items @ [Labelled ''Pid:'' [(w, a)] tail]) t"
  "item_effect (Labelled ''SleepAVG:'' [(w, a)] tail) (status_task items t) = status_task (items @ [Labelled ''SleepAVG:'' [(w, a)] tail]) t"
  "item_effect (Labelled ''envID:'' [(w, a)] tail) (status_task items t) = status_task (items @ [Labelled ''envID:'' [(w, a)] tail]) t"
  "item_effect (Labelled ''VPid:'' [(w, a)] tail) (status_task items t) = status_task (items @ [Labelled ''VPid:'' [(w, a)] tail]) t"
  "item_effect (Labelled ''Threads:'' [(w, a)] tail) (status_task items t) = status_task (items @ [Labelled ''Threads:'' [(w, a)] tail]) t"
  "item_effect (Labelled ''VmData:'' [(w, a)] tail) (status_task items t) = status_task (items @ [Labelled ''VmData:'' [(w, a)] tail]) t"
  "item_effect (Labelled ''VmStk:'' [(w, a)] tail) (status_task items t) = status_task (items @ [Labelled ''VmStk:'' [(w, a)] tail]) t"
  "item_effect (Labelled ''VmExe:'' [(w, a)] tail) (status_task items t) = status_task (items @ [Labelled ''VmExe:'' [(w, a)] tail]) t"
  "item_effect (Labelled ''VmLib:'' [(w, a)] tail) (status_task items t) = status_task (items @ [Labelled ''VmLib:'' [(w, a)] tail]) t"
  "item_effect (Labelled ''VmSwap:'' [(w, a)] tail) (status_task items t) = status_task (items @ [Labelled ''VmSwap:'' [(w, a)] tail]) t"
  "item_effect (Labelled ''Uid:'' [(u, k), (w, a), (x, c), (y, d)] tail) (status_task items t) =
     status_task (items @ [Labelled ''Uid:'' [(u, k), (w, a), (x, c), (y, d)] tail]) t"
  "item_effect (Labelled ''Gid:'' [(u, k), (w, a), (x, c), (y, d)] tail) (status_task items t) =
     status_task (items @ [Labelled ''Gid:'' [(u, k), (w, a), (x, c), (y, d)] tail]) t"
  by (cases t; simp add: label_vars_simps status_task_def status_num_snoc ucast_of_int_32 Let_def)+

lemma status_shape_cases:
  "(label, 1) \<in> set status_shape \<Longrightarrow> label \<in> {''Tgid:'', ''Pid:'', ''SleepAVG:'', ''envID:'', ''VPid:'', ''Threads:'',
     ''VmData:'', ''VmStk:'', ''VmExe:'', ''VmLib:'', ''VmSwap:''}"
  "(label, 4) \<in> set status_shape \<Longrightarrow> label \<in> {''Uid:'', ''Gid:''}"
  "(label, n) \<in> set status_shape \<Longrightarrow> n = 1 \<or> n = 4"
  by (simp_all add: status_shape_def) (elim disjE; simp)

lemma status_task_snoc:
  assumes "item_ok it"
  shows "item_effect it (status_task items t) = status_task (items @ [it]) t"
proof (cases it)
  case (Labelled label vals tail)
  have shape: "(label, length vals) \<in> set status_shape" using assms Labelled by simp
  then consider "length vals = 1" | "length vals = 4" using status_shape_cases(3) by blast
  then show ?thesis
  proof cases
    case 1
    then obtain w a where vals: "vals = [(w, a)]" using vals_1 by blast
    have "label \<in> {''Tgid:'', ''Pid:'', ''SleepAVG:'', ''envID:'', ''VPid:'', ''Threads:'', ''VmData:'', ''VmStk:'', ''VmExe:'', ''VmLib:'', ''VmSwap:''}"
      using status_shape_cases(1) shape 1 by simp
    then show ?thesis
      unfolding Labelled vals by (elim insertE emptyE) (simp_all only: status_task_labels)
  next
    case 2
    then obtain v w x y a b c d where vals: "vals = [(v, a), (w, b), (x, c), (y, d)]" using vals_4 by blast
    have "label \<in> {''Uid:'', ''Gid:''}" using status_shape_cases(2) shape 2 by simp
    then show ?thesis
      unfolding Labelled vals by (elim insertE emptyE) (simp_all only: status_task_labels)
  qed
next
  case (Other s)
  then show ?thesis by (simp add: status_task_def status_num_snoc)
qed

lemma status_task_fold: "\<forall>it\<in>set items. item_ok it \<Longrightarrow> fold item_effect items t = status_task items t"
proof (induction items rule: rev_induct)
  case Nil
  then show ?case by (simp add: status_task_def status_num_snoc)
next
  case (snoc it items)
  then show ?case using status_task_snoc [of it items t] by simp
qed

text \<open>
  C9: The file \<open>status\<close> is understood in any order of its lines.  Whatever lines the kernel writes before \<open>SigQ:\<close>, each field has the
  number in its column of the last line with its label (real, effective, saved and file system ids from the four columns of \<open>Uid:\<close> and
  \<open>Gid:\<close>); a field whose label is missing is as before, but for one thread, no average sleep and no growth; lines with other labels
  change nothing.
\<close>

theorem procstatus_roundtrip:
  assumes "td_status td = Some (concat (map (\<lambda>it. item_line it @ [CHR 0x0A]) items) @ ''SigQ:'' @ rest)"
    and "\<forall>it\<in>set items. line_ok it"
  shows "procstatus td t = (True, status_task items
    (t\<lparr>t_gen := (t_gen t)\<lparr>gen_nthr := 1\<rparr>, t_cpu := (t_cpu t)\<lparr>cpu_sleepavg := 0\<rparr>, t_mem := (t_mem t)\<lparr>mem_vgrow := 0, mem_rgrow := 0\<rparr>\<rparr>))"
  using procstatus_items [OF assms] assms(2) by (simp add: status_task_fold line_ok_def)

definition items_ex :: "status_item list" where
  "items_ex = [Other [CHR ''N'', CHR '':'', CHR 0x09, CHR ''x''], Labelled ''Tgid:'' [([CHR 0x09], 77)] [],
     Labelled ''Uid:'' [([CHR 0x09], 1), ([CHR 0x09], 2), ([CHR 0x09], 3), ([CHR 0x09], 4)] [],
     Labelled ''VmData:'' [([CHR 0x09, CHR '' ''], 132)] '' kB'', Labelled ''Threads:'' [([CHR 0x09], 3)] []]"

theorem procstatus_roundtrip_witness:
  "\<exists>t. procstatus (taskdir_ex\<lparr>td_status := Some (concat (map (\<lambda>it. item_line it @ [CHR 0x0A]) items_ex) @ ''SigQ:'')\<rparr>) tstat0 = (True, t) \<and>
     gen_tgid (t_gen t) = 77 \<and> gen_ruid (t_gen t) = 1 \<and> gen_euid (t_gen t) = 2 \<and> gen_suid (t_gen t) = 3 \<and> gen_fsuid (t_gen t) = 4 \<and>
     gen_nthr (t_gen t) = 3 \<and> mem_vdata (t_mem t) = 132 \<and> mem_vstack (t_mem t) = mem_vstack (t_mem tstat0)"
proof -
  have "line_ok it" if "it \<in> set items_ex" for it
  proof -
    have chars: "isspace CHR 0x09" "number_end []" "number_end '' kB''"
      by (simp_all add: isspace_def number_end_def isdigit_def)
    have "decz 77 = ''77''" "decz 1 = ''1''" "decz 2 = ''2''" "decz 3 = ''3''" "decz 4 = ''4''" "decz 132 = ''132''"
      by code_simp+
    then show ?thesis
      using that chars by (auto simp: items_ex_def line_ok_def in_i64_def status_shape_def)
  qed
  then show ?thesis
    using procstatus_roundtrip [of "taskdir_ex\<lparr>td_status := Some (concat (map (\<lambda>it. item_line it @ [CHR 0x0A]) items_ex) @ ''SigQ:'')\<rparr>" items_ex "[]" tstat0]
    by (simp add: items_ex_def status_task_def status_num_def map_filter_simps Let_def)
qed

section \<open>The command line\<close>

definition blanked :: "string \<Rightarrow> string" where
  "blanked s = map (\<lambda>c. if c = CHR 0x0A \<or> c = CHR 0x09 then CHR '' '' else c) s"

lemma cmd_char_not_NUL: "cmd_char c \<noteq> NUL"
  by (simp add: cmd_char_def)

lemma map_cmd_char: "NUL \<notin> set s \<Longrightarrow> map cmd_char s = blanked s"
  by (auto simp: blanked_def cmd_char_def)

lemma proccmd_cstr:
  assumes "td_cmdline td = Some (s @ [NUL])" "length s < CMDLEN"
  shows "cstr (gen_cmdline (t_gen (proccmd td t))) = map cmd_char s" "length (gen_cmdline (t_gen (proccmd td t))) = CMDLEN + 1"
proof -
  have "take CMDLEN (s @ [NUL]) = s @ [NUL]" using assms(2) by simp
  then have "gen_cmdline (t_gen (proccmd td t)) = map cmd_char s @ NUL # replicate (CMDLEN - length s) NUL"
    using assms by (simp add: proccmd_def Suc_diff_le)
  moreover have "NUL \<notin> set (map cmd_char s)" using cmd_char_not_NUL by force
  ultimately show "cstr (gen_cmdline (t_gen (proccmd td t))) = map cmd_char s" "length (gen_cmdline (t_gen (proccmd td t))) = CMDLEN + 1"
    using assms(2) cstr_append_NUL by simp_all
qed

text \<open>
  The command line is shown with its arguments separated by blanks.  A process with the arguments \<open>args\<close>, each followed by a NUL in
  \<open>cmdline\<close>, gets the arguments in their order with one blank between them, and newlines and tabs inside of an argument as
  blanks too; the array keeps its size.
\<close>

theorem proccmd_args:
  assumes "td_cmdline td = Some (concat (map (\<lambda>a. a @ [NUL]) (args @ [a])))" "\<forall>x\<in>set (args @ [a]). NUL \<notin> set x"
    and "length (concat (map (\<lambda>a. a @ [NUL]) (args @ [a]))) \<le> CMDLEN"
  shows "cstr (gen_cmdline (t_gen (proccmd td t))) = concat (map (\<lambda>x. blanked x @ '' '') args) @ blanked a \<and>
    length (gen_cmdline (t_gen (proccmd td t))) = CMDLEN + 1"
proof -
  let ?s = "concat (map (\<lambda>a. a @ [NUL]) args) @ a"
  have "map cmd_char (concat (map (\<lambda>a. a @ [NUL]) args)) = concat (map (\<lambda>x. blanked x @ '' '') args)"
    using assms(2) by (induction args) (simp_all add: map_cmd_char, simp add: cmd_char_def)
  then have "map cmd_char ?s = concat (map (\<lambda>x. blanked x @ '' '') args) @ blanked a"
    using assms(2) by (simp add: map_cmd_char)
  then show ?thesis
    using proccmd_cstr [of td ?s t] assms(1,3) by simp
qed

theorem proccmd_args_witness:
  "cstr (gen_cmdline (t_gen (proccmd (taskdir_ex\<lparr>td_cmdline := Some (''awk'' @ [NUL] @ ''a'' @ [CHR 0x0A] @ ''b'' @ [NUL])\<rparr>) tstat0))) = ''awk a b''"
  using proccmd_args [of "taskdir_ex\<lparr>td_cmdline := Some (''awk'' @ [NUL] @ ''a'' @ [CHR 0x0A] @ ''b'' @ [NUL])\<rparr>" "[''awk'']" "''a'' @ [CHR 0x0A] @ ''b''" tstat0]
  by (simp add: CMDLEN_def blanked_def)

text \<open>The last byte that is read is not converted: of a command line that is cut, a newline or tab there stays.\<close>

lemma proccmd_last_byte:
  assumes "td_cmdline td = Some (s @ c # rest)" "length s + 1 = CMDLEN"
  shows "gen_cmdline (t_gen (proccmd td t)) = map cmd_char s @ [c, NUL]"
  using assms by (simp add: proccmd_def take_Cons')

section \<open>Two defects\<close>

text \<open>
  An entry that was filled for a process that vanished keeps its count: of a running and then a sleeping process in the same
  entry, both counters are set.
\<close>

lemma stale_state_count:
  "gen_nthrrun (t_gen (stat_task e b ip pid' name' CHR ''S'' xs' (stat_task e b ip pid name CHR ''R'' xs t))) = 1 \<and>
   gen_nthrslpi (t_gen (stat_task e b ip pid' name' CHR ''S'' xs' (stat_task e b ip pid name CHR ''R'' xs t))) = 1"
  by (simp add: stat_task_def state_count_def)

text \<open>A container id too far back in \<open>cpuset\<close> is read from outside of the buffer.\<close>

lemma strstr_bound: "strstr s pat = Some i \<Longrightarrow> i + length pat \<le> length s"
proof (induction s arbitrary: i)
  case (Cons c s)
  then show ?case by (auto split: if_splits dest: prefix_length_le)
qed (simp split: if_splits)

lemma cstr_line: "cstr (data @ NUL # rest) = cstr data"
  by (induction data) auto

lemma proccont_overread:
  assumes "td_cpuset td = Some contents" "strstr (cstr (fst (fgets 80 contents))) CIDPREFIX = Some i" "80 < i + 19"
    and "length (td_stk_cpuset td) = 80"
  shows "proccont td t = None"
proof -
  define got where "got = fst (fgets 80 contents)"
  define line where "line = got @ NUL # drop (length got + 1) (td_stk_cpuset td)"
  have "length got < 80" by (simp add: got_def fgets_def Let_def)
  then have len: "length line = 80" using assms(4) by (simp add: line_def)
  have "2 \<le> length (cstr got)" using strstr_bound [OF assms(2)] assms(3) by (simp add: got_def CIDPREFIX_def)
  then obtain c d r where got: "got = c # d # r" "d \<noteq> NUL"
    by (cases got; cases "tl got") (auto split: if_splits)
  then have one: "line ! 1 \<noteq> NUL" "got \<noteq> []" by (simp_all add: line_def)
  have "proccont td t = (if got = [] then Some (0, t) else
      case (if line ! 1 \<noteq> NUL then strstr (cstr got) CIDPREFIX else None) of
        None \<Rightarrow> Some (0, t)
      | Some p \<Rightarrow> if length line < p + length CIDPREFIX + 1 + CIDSIZE then None
          else Some (1, set_gen (\<lambda>g. g\<lparr>gen_container := take CIDSIZE (drop (p + length CIDPREFIX + 1) line) @ drop CIDSIZE (gen_container g)\<rparr>) t))"
    unfolding proccont_def assms(1) got_def line_def Let_def option.case append_Cons append_Nil cstr_line ..
  then show ?thesis
    using one assms(2,3) len by (simp add: got_def [symmetric] CIDPREFIX_def CIDSIZE_def)
qed

end
