(* ===== verification/Task_Sampler.thy ===== *)
theory Task_Sampler
  imports Netatop_Probe Photoproc
begin

text \<open>
  The walk of \<open>photoproc\<close> and \<open>countprocs\<close> (\<^verbatim>\<open>src/Qt/FakeAtop/photoproc.c\<close>) over the directories of \<^verbatim>\<open>/proc\<close>.  A directory is the list
  of entries that \<open>readdir\<close> delivers; an entry whose \<open>chdir\<close> fails has no task directory.
\<close>

section \<open>Directories\<close>

text \<open>A thread below \<^verbatim>\<open>task\<close>, and a process: \<open>pr_task\<close> is \<open>None\<close> if \<open>chdir("task")\<close> fails and \<open>Some None\<close> if the directory cannot be opened.\<close>

record threadent =
  th_name :: string
  th_dir :: "taskdir option"

record procent =
  pr_name :: string
  pr_dir :: "taskdir option"
  pr_task :: "threadent list option option"

text \<open>The variables of the walk: the globals of the netatop interface, the list of tasks, \<open>tval\<close> and \<open>dockstat\<close>, a \<open>char\<close>.\<close>

record photo =
  ph_net :: netatop
  ph_tasks :: "tstat list"
  ph_tval :: nat
  ph_dock :: byte

text \<open>Steps of which each may stop the program or be undefined.\<close>

definition andthen :: "(int + 'a) option \<Rightarrow> ('a \<Rightarrow> (int + 'b) option) \<Rightarrow> (int + 'b) option" where
  "andthen r f = (case r of None \<Rightarrow> None | Some (Inl x) \<Rightarrow> Some (Inl x) | Some (Inr a) \<Rightarrow> f a)"

section \<open>One task\<close>

text \<open>\<open>procstat\<close>, \<open>procstatus\<close> and \<open>procio\<close> in this order, as long as they succeed.\<close>

definition task_stats :: "photoenv \<Rightarrow> u64 \<Rightarrow> byte \<Rightarrow> i32 \<Rightarrow> taskdir \<Rightarrow> tstat \<Rightarrow> (int + bool \<times> tstat) option" where
  "task_stats e bootepoch isproc flags td t = do {
     (ok, t) \<leftarrow> procstat e bootepoch isproc td t;
     if \<not> ok then Some (Inr (False, t))
     else let (ok, t) = procstatus td t in
       if \<not> ok then Some (Inr (False, t))
       else Some (map_sum id (Pair True) (procio flags td t))
   }"

definition set_task :: "nat \<Rightarrow> tstat \<Rightarrow> photo \<Rightarrow> photo" where
  "set_task i t p = p\<lparr>ph_tasks := (ph_tasks p)[i := t]\<rparr>"

text \<open>The \<open>switch\<close> that counts the threads of a process by their state.\<close>

definition thread_count :: "byte \<Rightarrow> tstat \<Rightarrow> tstat" where
  "thread_count st t =
     (if st = of_char CHR ''R'' then set_gen (\<lambda>g. g\<lparr>gen_nthrrun := gen_nthrrun g + 1\<rparr>) t
      else if st = of_char CHR ''S'' then set_gen (\<lambda>g. g\<lparr>gen_nthrslpi := gen_nthrslpi g + 1\<rparr>) t
      else if st = of_char CHR ''D'' then set_gen (\<lambda>g. g\<lparr>gen_nthrslpu := gen_nthrslpu g + 1\<rparr>) t
      else t)"

text \<open>What is done with a thread whose files were read; \<open>strcpy\<close> needs a NUL in the source.\<close>

definition thread_found :: "nat \<Rightarrow> taskdir \<Rightarrow> photo \<Rightarrow> (int + photo) option" where
  "thread_found cur td p = do {
     curtask \<leftarrow> aget (ph_tasks p) cur;
     curthr \<leftarrow> aget (ph_tasks p) (ph_tval p);
     if NUL \<notin> set (gen_container (t_gen curtask)) then None
     else
       let curthr = set_gen (\<lambda>g. g\<lparr>gen_container := strcpy (gen_container g) (gen_container (t_gen curtask))\<rparr>) curthr;
           p = set_task (ph_tval p) curthr p;
           p = set_task cur (thread_count (gen_state (t_gen curthr)) curtask) p;
           curthr = set_gen (\<lambda>g. g\<lparr>gen_nthr := 1\<rparr>) curthr
       in Some (map_sum id
            (\<lambda>(s, curthr). (set_task (ph_tval p) curthr p)\<lparr>ph_net := s, ph_tval := ph_tval p + 1\<rparr>)
            (netatop_gettask (td_net td) (td_drop_net td) (ph_net p) curthr))
   }"

text \<open>One entry of the \<^verbatim>\<open>task\<close> directory; \<open>cur\<close> is the place of the process.\<close>

definition photo_thread :: "photoenv \<Rightarrow> u64 \<Rightarrow> nat \<Rightarrow> threadent \<Rightarrow> photo \<Rightarrow> (int + photo) option" where
  "photo_thread e bootepoch cur th p =
     (case (if prefix ''.'' (th_name th) then None else th_dir th) of
        None \<Rightarrow> Some (Inr p)
      | Some td \<Rightarrow> do {
          curthr \<leftarrow> aget (ph_tasks p) (ph_tval p);
          andthen (task_stats e bootepoch 0 (supportflags (ph_net p)) td curthr) (\<lambda>(ok, curthr).
            let p = set_task (ph_tval p) curthr p in
            if \<not> ok then Some (Inr p) else thread_found cur td p)
        })"

fun photo_threads :: "photoenv \<Rightarrow> u64 \<Rightarrow> i32 \<Rightarrow> nat \<Rightarrow> threadent list \<Rightarrow> photo \<Rightarrow> (int + photo) option" where
  "photo_threads e bootepoch maxtask cur [] p = Some (Inr p)"
| "photo_threads e bootepoch maxtask cur (th # ths) p =
     (if int (ph_tval p) < sint maxtask
      then andthen (photo_thread e bootepoch cur th p) (photo_threads e bootepoch maxtask cur ths)
      else Some (Inr p))"

text \<open>The threads of a process that has more than one.\<close>

definition process_threads :: "photoenv \<Rightarrow> u64 \<Rightarrow> i32 \<Rightarrow> nat \<Rightarrow> procent \<Rightarrow> photo \<Rightarrow> (int + photo) option" where
  "process_threads e bootepoch maxtask cur pr p = do {
     curtask \<leftarrow> aget (ph_tasks p) cur;
     if \<not> 1 <s gen_nthr (t_gen curtask) then Some (Inr p)
     else
       let p = set_task cur (set_gen (\<lambda>g. g\<lparr>gen_nthrrun := 0, gen_nthrslpi := 0, gen_nthrslpu := 0\<rparr>) curtask) p in
       case pr_task pr of
         None \<Rightarrow> Some (Inr p)
       | Some None \<Rightarrow> None
       | Some (Some ths) \<Rightarrow> photo_threads e bootepoch maxtask cur ths p
   }"

text \<open>What is done with a process whose three files were read.\<close>

definition process_found :: "photoenv \<Rightarrow> taskdir \<Rightarrow> tstat \<Rightarrow> photo \<Rightarrow> (int + photo) option" where
  "process_found e td curtask p = do {
     (docker, curtask) \<leftarrow> proccont td (proccmd td curtask);
     let p = p\<lparr>ph_dock := ph_dock p + docker\<rparr>;
     andthen (Some (if calcpss e \<noteq> 0 then procsmaps td curtask else Inr curtask)) (\<lambda>curtask.
       Some (map_sum id
         (\<lambda>(s, curtask). (set_task (ph_tval p) curtask p)\<lparr>ph_net := s, ph_tval := ph_tval p + 1\<rparr>)
         (netatop_gettask (td_net td) (td_drop_net td) (ph_net p) curtask)))
   }"

text \<open>One entry of \<^verbatim>\<open>/proc\<close>.\<close>

definition photo_process :: "photoenv \<Rightarrow> u64 \<Rightarrow> i32 \<Rightarrow> procent \<Rightarrow> photo \<Rightarrow> (int + photo) option" where
  "photo_process e bootepoch maxtask pr p =
     (case (if pr_name pr = [] \<or> \<not> isdigit (hd (pr_name pr)) then None else pr_dir pr) of
        None \<Rightarrow> Some (Inr p)
      | Some td \<Rightarrow> do {
          let cur = ph_tval p;
          curtask \<leftarrow> aget (ph_tasks p) cur;
          andthen (task_stats e bootepoch 1 (supportflags (ph_net p)) td curtask) (\<lambda>(ok, curtask).
            let p = set_task cur curtask p in
            if \<not> ok then Some (Inr p)
            else andthen (process_found e td curtask p) (process_threads e bootepoch maxtask cur pr))
        })"

fun photo_processes :: "photoenv \<Rightarrow> u64 \<Rightarrow> i32 \<Rightarrow> procent list \<Rightarrow> photo \<Rightarrow> (int + photo) option" where
  "photo_processes e bootepoch maxtask [] p = Some (Inr p)"
| "photo_processes e bootepoch maxtask (pr # prs) p =
     (if int (ph_tval p) < sint maxtask
      then andthen (photo_process e bootepoch maxtask pr p) (photo_processes e bootepoch maxtask prs)
      else Some (Inr p))"

section \<open>The sampler\<close>

text \<open>The static variables of \<open>photoproc\<close>, and the answers of the system calls of one run: \<open>fopen\<close> of
  \<^verbatim>\<open>/proc/1/io\<close>, \<open>droprootprivs\<close> twice, \<open>getboot\<close>, the probe, \<open>getcwd\<close>, \<open>chdir\<close> there and back, and \<open>opendir\<close>.\<close>

record photostatic =
  firstcall :: bool
  bootepoch :: u64

record photocalls =
  pc_io1 :: bool
  pc_drop1 :: bool
  pc_getboot :: u64
  pc_probe :: probecalls
  pc_drop2 :: bool
  pc_getcwd :: bool
  pc_chdir :: bool
  pc_proc :: "procent list option"
  pc_back :: bool

definition photo_first :: "photocalls \<Rightarrow> photostatic \<times> netatop \<Rightarrow> int + photostatic \<times> netatop" where
  "photo_first c = (\<lambda>(st, s).
     if firstcall st then
       let s = (if pc_io1 c then set_flags IOSTAT s else s) in
       if \<not> pc_drop1 c then Inl 42 else Inr (\<lparr>firstcall = False, bootepoch = pc_getboot c\<rparr>, s)
     else Inr (st, s))"

definition photoproc :: "photoenv \<Rightarrow> photocalls \<Rightarrow> i32 \<Rightarrow> photostatic \<Rightarrow> netatop \<Rightarrow> netconn \<Rightarrow> tstat list \<Rightarrow>
    (int + (photostatic \<times> netatop \<times> netconn) \<times> tstat list \<times> i32) option" where
  "photoproc e c maxtask st s conn tasklist =
     andthen (Some (photo_first c (st, s))) (\<lambda>(st, s).
       let (s, conn) = netatop_probe (pc_probe c) (s, conn) in
       if \<not> pc_drop2 c then Some (Inl 42)
       else if \<not> pc_getcwd c \<or> \<not> pc_chdir c then Some (Inl 53)
       else case pc_proc c of
         None \<Rightarrow> None
       | Some prs \<Rightarrow>
           andthen (photo_processes e (bootepoch st) maxtask prs \<lparr>ph_net = s, ph_tasks = tasklist, ph_tval = 0, ph_dock = 0\<rparr>) (\<lambda>p.
             if \<not> pc_back c then Some (Inl 53)
             else Some (Inr ((st, if ph_dock p \<noteq> 0 then set_flags DOCKSTAT (ph_net p) else clear_flags DOCKSTAT (ph_net p), conn),
               ph_tasks p, of_nat (ph_tval p)))))"

text \<open>The number of processes, from the names alone.\<close>

definition countprocs :: "photocalls \<Rightarrow> (int + u32) option" where
  "countprocs c =
     (if \<not> pc_getcwd c \<or> \<not> pc_chdir c then Some (Inl 53)
      else case pc_proc c of
        None \<Rightarrow> None
      | Some prs \<Rightarrow>
          let nr = fold (\<lambda>pr nr. if pr_name pr \<noteq> [] \<and> isdigit (hd (pr_name pr)) then nr + 1 else nr) prs 0 in
          Some (if \<not> pc_back c then Inl 53 else Inr nr))"

section \<open>What the readers leave alone\<close>

lemma assign_keeps:
  assumes "\<And>var v x. var \<in> set vars \<Longrightarrow> f (var v x) = f x"
  shows "f (assign vars vals x) = f x"
  using assms
proof (induction vars arbitrary: vals x)
  case (Cons var vars)
  then show ?case by (cases vals) auto
qed simp

text \<open>The part of a task that only \<open>procstat\<close> or \<open>proccont\<close> write, and the flag of the previous interval.\<close>

definition core :: "tstat \<Rightarrow> byte \<times> byte" where
  "core t = (gen_isproc (t_gen t), gen_state (t_gen t))"

definition kept_part :: "tstat \<Rightarrow> i32 \<times> chars" where
  "kept_part t = (gen_wasinactive (t_gen t), gen_container (t_gen t))"

lemma core_kept_other [simp]:
  "core (t_cpu_update f t) = core t" "core (t_mem_update f2 t) = core t" "core (t_dsk_update f3 t) = core t" "core (t_net_update f4 t) = core t"
  "kept_part (t_cpu_update f t) = kept_part t" "kept_part (t_mem_update f2 t) = kept_part t" "kept_part (t_dsk_update f3 t) = kept_part t" "kept_part (t_net_update f4 t) = kept_part t"
  "core (set_gen (gen_nthr_update f5) t) = core t" "kept_part (set_gen (gen_nthr_update f5) t) = kept_part t"
  "core (set_gen (gen_cmdline_update f6) t) = core t" "kept_part (set_gen (gen_cmdline_update f6) t) = kept_part t"
  by (simp_all add: core_def kept_part_def)

lemma stat_vars_keep: "kept_part (assign stat_vars vals t) = kept_part t" "gen_isproc (t_gen (assign stat_vars vals t)) = gen_isproc (t_gen t)"
  by (rule assign_keeps, auto simp: stat_vars_def kept_part_def)+

lemma state_count_keeps: "kept_part (state_count t) = kept_part t" "core (state_count t) = core t"
  by (simp_all add: state_count_def kept_part_def core_def Let_def)

lemma status_line_keeps: "kept_part (status_line line t) = kept_part t" "core (status_line line t) = core t"
proof -
  have vars: "kept_part (var v x) = kept_part x \<and> core (var v x) = core x" if "(l, f, vars) \<in> set status_cases" "var \<in> set vars" for l f vars var v x
    using that by (auto simp: status_cases_def kept_part_def core_def)
  show "kept_part (status_line line t) = kept_part t" "core (status_line line t) = core t"
    unfolding status_line_def
    by (auto split: option.splits intro!: assign_keeps dest!: vars simp: find_Some_iff) (metis nth_mem vars)+
qed

lemma status_loop_keeps: "kept_part (status_loop lines t) = kept_part t \<and> core (status_loop lines t) = core t"
  by (induction lines arbitrary: t) (simp_all add: status_line_keeps)

lemma procstatus_keeps:
  "procstatus td t = (ok, t') \<Longrightarrow> kept_part t' = kept_part t \<and> core t' = core t"
  by (auto simp: procstatus_def Let_def status_loop_keeps split: option.splits)

lemma procio_keeps: "procio flags td t = Inr t' \<Longrightarrow> kept_part t' = kept_part t \<and> core t' = core t"
  by (auto simp: procio_def Let_def split: if_splits option.splits)

lemma procio_drop: "td_drop_io td \<Longrightarrow> \<exists>t'. procio flags td t = Inr t'"
  by (simp add: procio_def Let_def)

text \<open>The line of \<open>stat\<close> goes on behind the last parenthesis, as the kernel writes it.\<close>

definition stat_safe :: "taskdir \<Rightarrow> bool" where
  "stat_safe td \<longleftrightarrow> (\<forall>contents. td_stat td = Some contents \<longrightarrow>
     (\<forall>i. strrchr (cstr (take 4095 contents)) CHR '')'' = Some i \<longrightarrow> i + 2 \<le> length (cstr (take 4095 contents))))"

lemma cstr_prefix: "prefix (cstr a) a"
  by (simp add: cstr_def takeWhile_is_prefix)

lemma string_at_safe:
  assumes "i \<le> length (cstr data)"
  shows "\<exists>s. string_at (data @ NUL # rest) i = Some s"
proof -
  have "length (cstr data) \<le> length data" using cstr_prefix prefix_length_le by blast
  then show ?thesis using assms by (simp add: string_at_def)
qed

lemma procstat_total:
  assumes "stat_safe td" "hertz e \<noteq> 0"
  shows "\<exists>ok t'. procstat e b ip td t = Some (ok, t') \<and> kept_part t' = kept_part t \<and> (ok \<longrightarrow> gen_isproc (t_gen t') = ip)"
proof (cases "td_stat td")
  case None
  then show ?thesis by (auto simp: procstat_def)
next
  case (Some contents)
  let ?d = "take 4095 contents"
  show ?thesis
  proof (cases "?d = [] \<or> strchr (cstr ?d) CHR ''('' = None \<or> strrchr (cstr ?d) CHR '')'' = None")
    case True
    then show ?thesis
      by (auto simp: procstat_def Some cstr_line Let_def split: option.splits)
  next
    case False
    then obtain h l where hl: "strchr (cstr ?d) CHR ''('' = Some h" "strrchr (cstr ?d) CHR '')'' = Some l" by auto
    define named where "named = assign [\<lambda>v. set_gen (\<lambda>g. g\<lparr>gen_pid := ucast (vnum v)\<rparr>)] (sscanf (cstr ?d) ''%d'')
      (set_cpu (\<lambda>c. c\<lparr>cpu_rtprio := 0, cpu_policy := 0\<rparr>) (set_gen (\<lambda>g. g\<lparr>gen_isproc := ip, gen_excode := 0\<rparr>)
        (set_gen (\<lambda>g. g\<lparr>gen_name := stat_name (drop (h + 1) (take l (cstr ?d))) (gen_name g)\<rparr>) t)))"
    have named: "kept_part named = kept_part t" "gen_isproc (t_gen named) = ip"
      unfolding named_def
      by (subst assign_keeps [where f = kept_part], auto simp: kept_part_def) (subst assign_keeps [where f = "\<lambda>t. gen_isproc (t_gen t)"], auto)
    have "l + 2 \<le> length (cstr ?d)"
      using assms(1) Some hl(2) by (simp add: stat_safe_def)
    then obtain s where s: "string_at (?d @ NUL # drop (length ?d + 1) (td_stk_stat td)) (l + 2) = Some s"
      using string_at_safe by blast
    show ?thesis
    proof (cases "l < h")
      case True
      then show ?thesis using False hl by (auto simp: procstat_def Some cstr_line Let_def)
    next
      case lh: False
      let ?v = "sscanf s SCANSTAT"
      have "procstat e b ip td t = (if length ?v < 12 then Some (False, assign stat_vars ?v named)
          else stat_normal e b (assign stat_vars ?v named) \<bind> (\<lambda>t. Some (True, state_count t)))"
        using False lh hl s by (simp add: procstat_def Some cstr_line Let_def named_def)
      then show ?thesis
        using assms(2) named stat_vars_keep [of ?v named] state_count_keeps
        by (auto simp: stat_normal_def kept_part_def core_def)
    qed
  qed
qed

lemma task_stats_total:
  assumes "stat_safe td" "hertz e \<noteq> 0" "td_drop_io td"
  shows "\<exists>ok t'. task_stats e b ip flags td t = Some (Inr (ok, t')) \<and> kept_part t' = kept_part t \<and> (ok \<longrightarrow> gen_isproc (t_gen t') = ip)"
proof -
  obtain ok t1 where t1: "procstat e b ip td t = Some (ok, t1)" "kept_part t1 = kept_part t" "ok \<longrightarrow> gen_isproc (t_gen t1) = ip"
    using procstat_total [OF assms(1,2)] by blast
  obtain ok2 t2 where t2: "procstatus td t1 = (ok2, t2)" by fastforce
  obtain t3 where t3: "procio flags td t2 = Inr t3" using procio_drop [OF assms(3)] by blast
  show ?thesis
    using t1 t2 t3 procstatus_keeps [OF t2] procio_keeps [OF t3]
    by (cases ok; cases ok2) (auto simp: task_stats_def core_def)
qed

section \<open>Total steps\<close>

text \<open>The container id in \<open>cpuset\<close> lies within the first 80 bytes, the size of the buffer.\<close>

definition cont_safe :: "taskdir \<Rightarrow> bool" where
  "cont_safe td \<longleftrightarrow> length (td_stk_cpuset td) = 80 \<and> (\<forall>contents i. td_cpuset td = Some contents \<longrightarrow>
     strstr (cstr (fst (fgets 80 contents))) CIDPREFIX = Some i \<longrightarrow> i + 19 \<le> 80)"

text \<open>A task directory with files as the kernel writes them, in which the privileges can always be dropped.\<close>

definition dir_ok :: "taskdir \<Rightarrow> bool" where
  "dir_ok td \<longleftrightarrow> stat_safe td \<and> cont_safe td \<and> td_drop_io td \<and> td_drop_smaps td \<and> td_drop_net td"

text \<open>An entry of the task list that can be filled: not marked inactive, and with a NUL behind the twelve bytes of the container id.\<close>

definition slot_ok :: "tstat \<Rightarrow> bool" where
  "slot_ok t \<longleftrightarrow> gen_wasinactive (t_gen t) = 0 \<and> length (gen_container (t_gen t)) = 16 \<and> gen_container (t_gen t) ! 12 = NUL"

lemma slot_ok_kept: "kept_part t' = kept_part t \<Longrightarrow> slot_ok t' = slot_ok t"
  by (simp add: slot_ok_def kept_part_def)

lemma fgets_length: "1 < n \<Longrightarrow> length (fst (fgets n s)) < n"
  by (simp add: fgets_def Let_def)

lemma proccont_total:
  assumes "cont_safe td" "slot_ok t"
  shows "\<exists>d t'. proccont td t = Some (d, t') \<and> core t' = core t \<and> slot_ok t'"
proof (cases "td_cpuset td")
  case None
  then show ?thesis using assms(2) by (simp add: proccont_def)
next
  case (Some contents)
  define got where "got = fst (fgets 80 contents)"
  define line where "line = got @ NUL # drop (length got + 1) (td_stk_cpuset td)"
  have len: "length line = 80"
    using assms(1) fgets_length [of 80 contents] by (simp add: line_def got_def cont_safe_def)
  have p: "proccont td t = (if got = [] then Some (0, t) else
      case (if line ! 1 \<noteq> NUL then strstr (cstr got) CIDPREFIX else None) of
        None \<Rightarrow> Some (0, t)
      | Some p \<Rightarrow> if length line < p + length CIDPREFIX + 1 + CIDSIZE then None
          else Some (1, set_gen (\<lambda>g. g\<lparr>gen_container := take CIDSIZE (drop (p + length CIDPREFIX + 1) line) @ drop CIDSIZE (gen_container g)\<rparr>) t))"
    unfolding proccont_def Some got_def line_def Let_def option.case append_Cons append_Nil cstr_line ..
  show ?thesis
  proof (cases "got \<noteq> [] \<and> line ! 1 \<noteq> NUL \<and> strstr (cstr got) CIDPREFIX \<noteq> None")
    case True
    then obtain i where i: "strstr (cstr got) CIDPREFIX = Some i" by auto
    then have "i + 19 \<le> 80" using assms(1) Some by (simp add: cont_safe_def got_def)
    then show ?thesis
      using True i assms(2) len by (simp add: p core_def slot_ok_def CIDPREFIX_def CIDSIZE_def nth_append)
  next
    case False
    then show ?thesis using assms(2) by (auto simp: p split: option.splits)
  qed
qed

lemma gettask_total:
  "\<exists>s' n. netatop_gettask answer True s t = Inr (s', t\<lparr>t_net := n\<rparr>)"
  by (cases answer) (auto simp: netatop_gettask_def)

lemma procsmaps_total: "td_drop_smaps td \<Longrightarrow> \<exists>m. procsmaps td t = Inr (t\<lparr>t_mem := m\<rparr>)"
  by (cases t) (auto simp: procsmaps_def Let_def)

lemma process_found_total:
  assumes "dir_ok td" "slot_ok t"
  shows "\<exists>s d t'. process_found e td t p = Some (Inr ((set_task (ph_tval p) t' p)\<lparr>ph_net := s, ph_tval := ph_tval p + 1, ph_dock := ph_dock p + d\<rparr>)) \<and>
    core t' = core t \<and> slot_ok t'"
proof -
  have "slot_ok (proccmd td t)" "core (proccmd td t) = core t"
    using assms(2) slot_ok_kept [of "proccmd td t" t] by (simp_all add: proccmd_def Let_def)
  then obtain d t1 where t1: "proccont td (proccmd td t) = Some (d, t1)" "core t1 = core t" "slot_ok t1"
    using proccont_total assms(1) unfolding dir_ok_def by metis
  obtain t2 where t2: "(if calcpss e \<noteq> 0 then procsmaps td t1 else Inr t1) = Inr t2" "core t2 = core t1" "kept_part t2 = kept_part t1"
    using procsmaps_total [of td t1] assms(1) by (cases "calcpss e = 0") (auto simp: dir_ok_def)
  obtain s n where "netatop_gettask (td_net td) True (ph_net p) t2 = Inr (s, t2\<lparr>t_net := n\<rparr>)"
    using gettask_total by metis
  then have "process_found e td t p = Some (Inr ((set_task (ph_tval p) (t2\<lparr>t_net := n\<rparr>) p)\<lparr>ph_net := s, ph_tval := ph_tval p + 1, ph_dock := ph_dock p + d\<rparr>))"
    using t1(1) t2(1) assms(1) by (simp add: process_found_def andthen_def set_task_def dir_ok_def)
  then show ?thesis
    using t1 t2 slot_ok_kept [of "t2\<lparr>t_net := n\<rparr>" t1] by (metis core_kept_other(4) core_kept_other(8))
qed

section \<open>Processes and their threads\<close>

definition in_state :: "char \<Rightarrow> tstat \<Rightarrow> bool" where
  "in_state c t \<longleftrightarrow> gen_state (t_gen t) = of_char c"

text \<open>The counters of a process agree with its threads in the list.\<close>

definition counts_threads :: "tstat list \<Rightarrow> tstat \<Rightarrow> bool" where
  "counts_threads ts h \<longleftrightarrow> gen_nthrrun (t_gen h) = of_nat (length (filter (in_state CHR ''R'') ts)) \<and>
     gen_nthrslpi (t_gen h) = of_nat (length (filter (in_state CHR ''S'') ts)) \<and>
     gen_nthrslpu (t_gen h) = of_nat (length (filter (in_state CHR ''D'') ts))"

text \<open>A process with the threads behind it.\<close>

definition group_ok :: "tstat list \<Rightarrow> bool" where
  "group_ok g \<longleftrightarrow> (\<exists>h ts. g = h # ts \<and> gen_isproc (t_gen h) = 1 \<and>
     (\<forall>t\<in>set ts. gen_isproc (t_gen t) = 0 \<and> gen_nthr (t_gen t) = 1) \<and>
     (if 1 <s gen_nthr (t_gen h) then counts_threads ts h else ts = []))"

definition walk_ok :: "i32 \<Rightarrow> nat \<Rightarrow> photo \<Rightarrow> bool" where
  "walk_ok m n p \<longleftrightarrow> length (ph_tasks p) = n \<and> (\<forall>t\<in>set (ph_tasks p). slot_ok t) \<and> (0 < ph_tval p \<longrightarrow> int (ph_tval p) \<le> sint m) \<and>
     (\<exists>gs rest. ph_tasks p = concat gs @ rest \<and> ph_tval p = length (concat gs) \<and> (\<forall>g\<in>set gs. group_ok g))"

text \<open>The last group is still growing.\<close>

definition open_ok :: "i32 \<Rightarrow> nat \<Rightarrow> nat \<Rightarrow> photo \<Rightarrow> bool" where
  "open_ok m n cur p \<longleftrightarrow> length (ph_tasks p) = n \<and> (\<forall>t\<in>set (ph_tasks p). slot_ok t) \<and> int (ph_tval p) \<le> sint m \<and>
     (\<exists>gs h ts rest. ph_tasks p = concat gs @ h # ts @ rest \<and> cur = length (concat gs) \<and> ph_tval p = cur + 1 + length ts \<and>
        (\<forall>g\<in>set gs. group_ok g) \<and> group_ok (h # ts) \<and> 1 <s gen_nthr (t_gen h))"

lemma open_walk: "open_ok m n cur p \<Longrightarrow> walk_ok m n p"
proof -
  assume "open_ok m n cur p"
  then obtain gs h ts rest where o: "ph_tasks p = concat gs @ h # ts @ rest" "ph_tval p = length (concat gs) + 1 + length ts"
    "\<forall>g\<in>set gs. group_ok g" "group_ok (h # ts)" and
    r: "length (ph_tasks p) = n" "\<forall>t\<in>set (ph_tasks p). slot_ok t" "int (ph_tval p) \<le> sint m"
    unfolding open_ok_def by blast
  have "ph_tasks p = concat (gs @ [h # ts]) @ rest" "ph_tval p = length (concat (gs @ [h # ts]))" "\<forall>g\<in>set (gs @ [h # ts]). group_ok g"
    using o by auto
  then show ?thesis using r unfolding walk_ok_def by blast
qed

lemma thread_count_ok:
  "counts_threads ts h \<Longrightarrow> counts_threads (ts @ [t]) (thread_count (gen_state (t_gen t)) h)"
  by (simp add: counts_threads_def thread_count_def in_state_def)

lemma thread_count_keeps:
  "core (thread_count st h) = core h" "kept_part (thread_count st h) = kept_part h" "gen_nthr (t_gen (thread_count st h)) = gen_nthr (t_gen h)"
  by (simp_all add: thread_count_def core_def kept_part_def)

lemma cstr_upto: "i < length a \<Longrightarrow> a ! i = NUL \<Longrightarrow> length (cstr a) \<le> i"
proof (induction a arbitrary: i)
  case (Cons c a)
  then show ?case by (cases i) auto
qed simp

lemma nth_strcpy:
  "length (cstr a) \<le> i \<Longrightarrow> i < length b \<Longrightarrow> strcpy b a ! i = (if i = length (cstr a) then NUL else b ! i)"
  by (auto simp: strcpy_def nth_append nth_Cons')

lemma strcpy_container:
  assumes "length a = 16" "a ! 12 = NUL" "length b = 16" "b ! 12 = NUL"
  shows "length (strcpy b a) = 16" "strcpy b a ! 12 = NUL"
proof -
  have c: "length (cstr a) \<le> 12" using assms(1,2) by (intro cstr_upto) auto
  then show "length (strcpy b a) = 16" using assms(3) by (subst length_strcpy) simp_all
  show "strcpy b a ! 12 = NUL" using nth_strcpy [OF c, of b] assms(3,4) by (simp split: if_splits)
qed

lemma thread_found_ok:
  assumes "open_ok m n cur p" "int (ph_tval p) < sint m" "ph_tval p < n" "gen_isproc (t_gen (ph_tasks p ! ph_tval p)) = 0" "td_drop_net td"
  shows "\<exists>p'. thread_found cur td p = Some (Inr p') \<and> open_ok m n cur p'"
proof -
  obtain gs h ts rest where o: "ph_tasks p = concat gs @ h # ts @ rest" "cur = length (concat gs)" "ph_tval p = cur + 1 + length ts"
    "\<forall>g\<in>set gs. group_ok g" "group_ok (h # ts)" "1 <s gen_nthr (t_gen h)" and r: "length (ph_tasks p) = n" "\<forall>t\<in>set (ph_tasks p). slot_ok t"
    using assms(1) unfolding open_ok_def by blast
  then obtain c rest' where rest: "rest = c # rest'" using assms(3) by (cases rest) auto
  have at: "ph_tasks p ! cur = h" "ph_tasks p ! ph_tval p = c" "cur < n"
    using o(1-3) rest r(1) by (simp_all add: nth_append)
  have ok: "slot_ok h" "slot_ok c" using r(2) o(1) rest by auto
  let ?c1 = "set_gen (\<lambda>g. g\<lparr>gen_container := strcpy (gen_container g) (gen_container (t_gen h))\<rparr>) c"
  let ?h = "thread_count (gen_state (t_gen c)) h"
  let ?c2 = "set_gen (\<lambda>g. g\<lparr>gen_nthr := 1\<rparr>) ?c1"
  obtain s net where net: "netatop_gettask (td_net td) True (ph_net p) ?c2 = Inr (s, ?c2\<lparr>t_net := net\<rparr>)"
    using gettask_total [of "td_net td" "ph_net p" ?c2] by blast
  let ?c = "?c2\<lparr>t_net := net\<rparr>"
  let ?p = "p\<lparr>ph_tasks := concat gs @ ?h # (ts @ [?c]) @ rest', ph_net := s, ph_tval := ph_tval p + 1\<rparr>"
  have nul: "NUL \<in> set (gen_container (t_gen h))"
    using ok(1) nth_mem [of 12 "gen_container (t_gen h)"] by (simp add: slot_ok_def)
  have "(ph_tasks p)[ph_tval p := ?c1, cur := ?h, ph_tval p := ?c] = concat gs @ ?h # (ts @ [?c]) @ rest'"
    using o(1-3) rest by (simp add: list_update_append)
  then have run: "thread_found cur td p = Some (Inr ?p)"
    using at nul net assms(3,5) r(1) by (simp add: thread_found_def Let_def set_task_def)
  have "slot_ok ?h" using ok(1) slot_ok_kept [OF thread_count_keeps(2)] by simp
  moreover have "slot_ok ?c" using ok strcpy_container by (simp add: slot_ok_def)
  moreover have "group_ok (?h # ts @ [?c])"
  proof -
    have "counts_threads ts h" "gen_isproc (t_gen h) = 1" "\<forall>t\<in>set ts. gen_isproc (t_gen t) = 0 \<and> gen_nthr (t_gen t) = 1"
      using o(5,6) by (auto simp: group_ok_def)
    moreover have "counts_threads (ts @ [?c]) (thread_count (gen_state (t_gen ?c)) h)" using calculation(1) by (rule thread_count_ok)
    ultimately show ?thesis
      using thread_count_keeps [of "gen_state (t_gen c)" h] o(6) assms(4) at(2) by (auto simp: group_ok_def core_def)
  qed
  ultimately have "open_ok m n cur ?p"
    unfolding open_ok_def using o rest r assms(2) thread_count_keeps(3) [of "gen_state (t_gen c)" h]
    by (intro conjI exI [of _ gs] exI [of _ ?h] exI [of _ "ts @ [?c]"] exI [of _ rest']) auto
  with run show ?thesis by blast
qed

text \<open>Filling the entry behind the last one changes nothing in front of it.\<close>

lemma open_set_task:
  assumes "open_ok m n cur p" "slot_ok t"
  shows "open_ok m n cur (set_task (ph_tval p) t p)"
proof -
  obtain gs h ts rest where o: "ph_tasks p = concat gs @ h # ts @ rest" "cur = length (concat gs)" "ph_tval p = cur + 1 + length ts"
    "\<forall>g\<in>set gs. group_ok g" "group_ok (h # ts)" "1 <s gen_nthr (t_gen h)" and r: "length (ph_tasks p) = n" "\<forall>t\<in>set (ph_tasks p). slot_ok t" "int (ph_tval p) \<le> sint m"
    using assms(1) unfolding open_ok_def by blast
  have "(ph_tasks p)[ph_tval p := t] = concat gs @ h # ts @ rest[0 := t]"
    using o(1-3) by (simp add: list_update_append)
  then show ?thesis
    unfolding open_ok_def set_task_def using o r assms(2)
    by (intro conjI exI [of _ gs] exI [of _ h] exI [of _ ts] exI [of _ "rest[0 := t]"]) (auto dest: set_update_subset_insert [THEN subsetD])
qed

lemma photo_thread_ok:
  assumes "open_ok m n cur p" "int (ph_tval p) < sint m" "ph_tval p < n" "hertz e \<noteq> 0" "\<forall>td. th_dir th = Some td \<longrightarrow> dir_ok td"
  shows "\<exists>p'. photo_thread e b cur th p = Some (Inr p') \<and> open_ok m n cur p'"
proof (cases "if prefix ''.'' (th_name th) then None else th_dir th")
  case None
  then show ?thesis using assms(1) by (simp add: photo_thread_def)
next
  case (Some td)
  then have td: "dir_ok td" using assms(5) by (auto split: if_splits)
  have len: "length (ph_tasks p) = n" using assms(1) by (simp add: open_ok_def)
  let ?t = "ph_tasks p ! ph_tval p"
  obtain ok t' where t': "task_stats e b 0 (supportflags (ph_net p)) td ?t = Some (Inr (ok, t'))" "kept_part t' = kept_part ?t" "ok \<longrightarrow> gen_isproc (t_gen t') = 0"
    using task_stats_total [of td e] td assms(4) unfolding dir_ok_def by blast
  have "slot_ok ?t" using assms(1,3) by (auto simp: open_ok_def)
  then have "open_ok m n cur (set_task (ph_tval p) t' p)"
    using open_set_task [OF assms(1)] slot_ok_kept [OF t'(2)] by simp
  then show ?thesis
    using t' thread_found_ok [of m n cur "set_task (ph_tval p) t' p" td] assms(2,3) td len
    by (cases ok) (auto simp: photo_thread_def Some andthen_def set_task_def dir_ok_def)
qed

lemma photo_threads_ok:
  assumes "open_ok m n cur p" "sint m \<le> int n" "hertz e \<noteq> 0" "\<forall>th\<in>set ths. \<forall>td. th_dir th = Some td \<longrightarrow> dir_ok td"
  shows "\<exists>p'. photo_threads e b m cur ths p = Some (Inr p') \<and> open_ok m n cur p'"
  using assms
proof (induction ths arbitrary: p)
  case (Cons th ths)
  show ?case
  proof (cases "int (ph_tval p) < sint m")
    case True
    then obtain p' where p': "photo_thread e b cur th p = Some (Inr p')" "open_ok m n cur p'"
      using photo_thread_ok [OF Cons.prems(1) True _ Cons.prems(3), of th b] Cons.prems(2,4) by auto
    then show ?thesis using Cons True by (simp add: andthen_def)
  qed (use Cons.prems in simp)
qed simp

text \<open>A process whose directories can be read.\<close>

definition proc_ok :: "procent \<Rightarrow> bool" where
  "proc_ok pr \<longleftrightarrow> (\<forall>td. pr_dir pr = Some td \<longrightarrow> dir_ok td) \<and> pr_task pr \<noteq> Some None \<and>
     (\<forall>ths. pr_task pr = Some (Some ths) \<longrightarrow> (\<forall>th\<in>set ths. \<forall>td. th_dir th = Some td \<longrightarrow> dir_ok td))"

lemma process_threads_ok:
  assumes tasks: "ph_tasks p = concat gs @ h # rest" "ph_tval p = length (concat gs) + 1" "\<forall>g\<in>set gs. group_ok g" "gen_isproc (t_gen h) = 1"
    and "length (ph_tasks p) = n" "\<forall>t\<in>set (ph_tasks p). slot_ok t" "int (ph_tval p) \<le> sint m" "sint m \<le> int n" "hertz e \<noteq> 0" "proc_ok pr"
  shows "\<exists>p'. process_threads e b m (length (concat gs)) pr p = Some (Inr p') \<and> walk_ok m n p'"
proof (cases "1 <s gen_nthr (t_gen h)")
  case False
  then have "group_ok [h]" using tasks(4) by (simp add: group_ok_def)
  then have "walk_ok m n p"
    unfolding walk_ok_def using assms by (intro conjI exI [of _ "gs @ [[h]]"] exI [of _ rest]) auto
  then show ?thesis using False tasks(1,2) by (simp add: process_threads_def nth_append aget_def)
next
  case True
  let ?h = "set_gen (\<lambda>g. g\<lparr>gen_nthrrun := 0, gen_nthrslpi := 0, gen_nthrslpu := 0\<rparr>) h"
  let ?p = "set_task (length (concat gs)) ?h p"
  have upd: "(concat gs @ h # rest)[length (concat gs) := ?h] = concat gs @ ?h # rest" by simp
  have "slot_ok ?h" using assms(1,6) by (simp add: slot_ok_def)
  moreover have "group_ok [?h]" using tasks(4) by (simp add: group_ok_def counts_threads_def)
  ultimately have o: "open_ok m n (length (concat gs)) ?p"
    unfolding open_ok_def using assms True by (intro conjI exI [of _ gs] exI [of _ ?h] exI [of _ "[]"] exI [of _ rest]) (auto simp: set_task_def upd)
  have run: "process_threads e b m (length (concat gs)) pr p =
      (case pr_task pr of None \<Rightarrow> Some (Inr ?p) | Some None \<Rightarrow> None | Some (Some ths) \<Rightarrow> photo_threads e b m (length (concat gs)) ths ?p)"
    using True tasks(1) by (simp add: process_threads_def nth_append aget_def Let_def)
  show ?thesis
  proof (cases "pr_task pr")
    case None
    then show ?thesis using run open_walk [OF o] by simp
  next
    case (Some q)
    then obtain ths where ths: "pr_task pr = Some (Some ths)" using assms(10) by (cases q) (auto simp: proc_ok_def)
    then obtain p' where "photo_threads e b m (length (concat gs)) ths ?p = Some (Inr p')" "open_ok m n (length (concat gs)) p'"
      using photo_threads_ok [OF o assms(8,9), of ths b] assms(10) by (auto simp: proc_ok_def)
    then show ?thesis using run ths open_walk by simp
  qed
qed

lemma photo_process_ok:
  assumes "walk_ok m n p" "int (ph_tval p) < sint m" "sint m \<le> int n" "hertz e \<noteq> 0" "proc_ok pr"
  shows "\<exists>p'. photo_process e b m pr p = Some (Inr p') \<and> walk_ok m n p'"
proof (cases "if pr_name pr = [] \<or> \<not> isdigit (hd (pr_name pr)) then None else pr_dir pr")
  case None
  then show ?thesis using assms(1) by (simp add: photo_process_def)
next
  case (Some td)
  then have td: "dir_ok td" using assms(5) by (auto simp: proc_ok_def split: if_splits)
  obtain gs rest where w: "ph_tasks p = concat gs @ rest" "ph_tval p = length (concat gs)" "\<forall>g\<in>set gs. group_ok g" and
    r: "length (ph_tasks p) = n" "\<forall>t\<in>set (ph_tasks p). slot_ok t"
    using assms(1) unfolding walk_ok_def by blast
  then obtain c rest' where rest: "rest = c # rest'" using assms(2,3) by (cases rest) auto
  have c: "slot_ok c" "aget (ph_tasks p) (ph_tval p) = Some c" using w(1,2) r(2) rest by (simp_all add: nth_append)
  obtain ok t' where t': "task_stats e b 1 (supportflags (ph_net p)) td c = Some (Inr (ok, t'))" "kept_part t' = kept_part c" "ok \<longrightarrow> gen_isproc (t_gen t') = 1"
    using task_stats_total [of td e] td assms(4) unfolding dir_ok_def by blast
  have e': "slot_ok t'" using c(1) slot_ok_kept [OF t'(2)] by simp
  have upd: "ph_tasks (set_task (ph_tval p) x p) = concat gs @ x # rest'" for x
    using w(1,2) rest by (simp add: set_task_def)
  show ?thesis
  proof (cases ok)
    case False
    have "walk_ok m n (set_task (ph_tval p) t' p)"
      unfolding walk_ok_def upd using assms(1) w r rest e'
      by (intro conjI exI [of _ gs] exI [of _ "t' # rest'"]) (auto simp: set_task_def walk_ok_def)
    then show ?thesis using False t'(1) c(2) by (simp add: photo_process_def Some andthen_def)
  next
    case True
    let ?p = "set_task (ph_tval p) t' p"
    obtain s d t2 where t2: "process_found e td t' ?p = Some (Inr ((set_task (ph_tval ?p) t2 ?p)\<lparr>ph_net := s, ph_tval := ph_tval ?p + 1, ph_dock := ph_dock ?p + d\<rparr>))"
      "core t2 = core t'" "slot_ok t2"
      using process_found_total [OF td e'] by blast
    let ?q = "(set_task (ph_tval ?p) t2 ?p)\<lparr>ph_net := s, ph_tval := ph_tval ?p + 1, ph_dock := ph_dock ?p + d\<rparr>"
    have q: "ph_tasks ?q = concat gs @ t2 # rest'" "ph_tval ?q = length (concat gs) + 1"
      using w(1,2) rest by (simp_all add: set_task_def)
    have "\<exists>p'. process_threads e b m (length (concat gs)) pr ?q = Some (Inr p') \<and> walk_ok m n p'"
    proof (rule process_threads_ok [OF q w(3)])
      show "gen_isproc (t_gen t2) = 1" using t2(2) t'(3) True by (simp add: core_def)
      show "length (ph_tasks ?q) = n" "\<forall>t\<in>set (ph_tasks ?q). slot_ok t"
        using r w(1) rest t2(3) unfolding q by auto
      show "int (ph_tval ?q) \<le> sint m" using q(2) w(2) assms(2) by simp
    qed (use assms in auto)
    then show ?thesis
      using True t'(1) c(2) t2(1) w(2) by (simp add: photo_process_def Some andthen_def Let_def)
  qed
qed

lemma photo_processes_ok:
  assumes "walk_ok m n p" "sint m \<le> int n" "hertz e \<noteq> 0" "\<forall>pr\<in>set prs. proc_ok pr"
  shows "\<exists>p'. photo_processes e b m prs p = Some (Inr p') \<and> walk_ok m n p'"
  using assms
proof (induction prs arbitrary: p)
  case (Cons pr prs)
  show ?case
  proof (cases "int (ph_tval p) < sint m")
    case True
    then obtain p' where p': "photo_process e b m pr p = Some (Inr p')" "walk_ok m n p'"
      using photo_process_ok [OF Cons.prems(1) True Cons.prems(2,3), of pr b] Cons.prems(4) by auto
    then show ?thesis using Cons True by (simp add: andthen_def)
  qed (use Cons.prems in simp)
qed simp

text \<open>System calls that succeed.\<close>

definition calls_ok :: "photocalls \<Rightarrow> bool" where
  "calls_ok c \<longleftrightarrow> pc_drop1 c \<and> pc_drop2 c \<and> pc_getcwd c \<and> pc_chdir c \<and> pc_back c \<and>
     (\<exists>prs. pc_proc c = Some prs \<and> (\<forall>pr\<in>set prs. proc_ok pr))"

lemma photoproc_sample:
  assumes "calls_ok c" "hertz e \<noteq> 0" "sint maxtask \<le> int (length tasklist)" "\<forall>t\<in>set tasklist. slot_ok t"
  shows "\<exists>sys tasks n gs. photoproc e c maxtask st s conn tasklist = Some (Inr (sys, tasks, n)) \<and>
    length tasks = length tasklist \<and> (\<forall>t\<in>set tasks. slot_ok t) \<and> sint n = int (unat n) \<and> sint n \<le> max 0 (sint maxtask) \<and>
    take (unat n) tasks = concat gs \<and> (\<forall>g\<in>set gs. group_ok g)"
proof -
  obtain prs where prs: "pc_proc c = Some prs" "\<forall>pr\<in>set prs. proc_ok pr" using assms(1) by (auto simp: calls_ok_def)
  obtain st1 s1 where first: "photo_first c (st, s) = Inr (st1, s1)"
    using assms(1) by (cases "firstcall st") (auto simp: photo_first_def calls_ok_def Let_def)
  obtain s2 conn2 where probe: "netatop_probe (pc_probe c) (s1, conn) = (s2, conn2)" by fastforce
  let ?p = "\<lparr>ph_net = s2, ph_tasks = tasklist, ph_tval = 0, ph_dock = 0\<rparr>"
  have "walk_ok maxtask (length tasklist) ?p"
    unfolding walk_ok_def using assms(4) by (intro conjI exI [of _ "[]"] exI [of _ tasklist]) auto
  then obtain p where p: "photo_processes e (bootepoch st1) maxtask prs ?p = Some (Inr p)" "walk_ok maxtask (length tasklist) p"
    using photo_processes_ok [OF _ assms(3,2) prs(2)] by blast
  have r: "length (ph_tasks p) = length tasklist" "\<forall>t\<in>set (ph_tasks p). slot_ok t" "0 < ph_tval p \<longrightarrow> int (ph_tval p) \<le> sint maxtask"
    using p(2) by (auto simp: walk_ok_def)
  obtain gs rest where gs: "ph_tasks p = concat gs @ rest" "ph_tval p = length (concat gs)" "\<forall>g\<in>set gs. group_ok g"
    using p(2) by (auto simp: walk_ok_def)
  have bound: "int (ph_tval p) < 2 ^ 31" using r(3) sint_range_size [of maxtask] by (cases "ph_tval p") (auto simp: word_size)
  then have n: "unat (of_nat (ph_tval p) :: i32) = ph_tval p" "sint (of_nat (ph_tval p) :: i32) = int (ph_tval p)"
    by (simp_all add: unat_of_nat take_bit_nat_eq_self signed_of_nat signed_take_bit_int_eq_self)
  have run: "\<exists>sys. photoproc e c maxtask st s conn tasklist = Some (Inr (sys, ph_tasks p, of_nat (ph_tval p)))"
    using assms(1) first probe p(1) prs(1) by (simp add: photoproc_def andthen_def calls_ok_def)
  moreover have "take (unat (of_nat (ph_tval p) :: i32)) (ph_tasks p) = concat gs" using n(1) gs(1,2) by simp
  moreover have "sint (of_nat (ph_tval p) :: i32) \<le> max 0 (sint maxtask)" using n(2) r(3) by (cases "ph_tval p") auto
  ultimately show ?thesis using n gs(3) r(1,2) by metis
qed

text \<open>
  C7: The sampler fills the list in order.  If the list has room for \<open>maxtask\<close> tasks, the sampler returns without leaving the
  list, delivers at most \<open>maxtask\<close> tasks, and what it delivers is a sequence of groups: a process, then its threads if it has
  more than one, with the process's counts of running and sleeping threads equal to the number of its threads in these states
  in the list.  This holds also when tasks vanish while they are read and when the list is full in the middle of a process.
\<close>

theorem photoproc_groups:
  assumes "calls_ok c" "hertz e \<noteq> 0" "sint maxtask \<le> int (length tasklist)" "\<forall>t\<in>set tasklist. slot_ok t"
  shows "\<exists>sys tasks n gs. photoproc e c maxtask st s conn tasklist = Some (Inr (sys, tasks, n)) \<and>
    length tasks = length tasklist \<and> (\<forall>t\<in>set tasks. slot_ok t) \<and> sint n = int (unat n) \<and> sint n \<le> max 0 (sint maxtask) \<and>
    take (unat n) tasks = concat gs \<and> (\<forall>g\<in>set gs. group_ok g)"
  using assms by (rule photoproc_sample)

text \<open>A process with two threads, of which one is running.\<close>

definition dir_ex :: "int \<Rightarrow> char \<Rightarrow> string \<Rightarrow> taskdir" where
  "dir_ex pid st nthr = \<lparr>td_stat = Some (kernel_stat pid ''sh'' st (replicate 40 0) []),
     td_status = Some (''Threads:'' @ CHR 0x09 # nthr @ [CHR 0x0A]), td_io = None, td_cmdline = None,
     td_cpuset = None, td_smaps = None, td_net = Inl 1, td_drop_io = True, td_drop_smaps = True, td_drop_net = True,
     td_stk_stat = [], td_stk_cpuset = replicate 80 NUL, td_stk_pss = 0\<rparr>"

definition calls_ex :: photocalls where
  "calls_ex = \<lparr>pc_io1 = False, pc_drop1 = True, pc_getboot = 0, pc_probe = probe_ex, pc_drop2 = True, pc_getcwd = True, pc_chdir = True,
     pc_proc = Some [\<lparr>pr_name = ''self'', pr_dir = None, pr_task = None\<rparr>,
       \<lparr>pr_name = ''7'', pr_dir = Some (dir_ex 7 CHR ''S'' ''2''), pr_task = Some (Some
         [\<lparr>th_name = ''.'', th_dir = None\<rparr>, \<lparr>th_name = ''7'', th_dir = Some (dir_ex 7 CHR ''S'' ''2'')\<rparr>,
          \<lparr>th_name = ''8'', th_dir = Some (dir_ex 8 CHR ''R'' ''2'')\<rparr>])\<rparr>],
     pc_back = True\<rparr>"

lemma kernel_stat_ex:
  assumes "length (decz pid) < 100"
  shows "length (kernel_stat pid ''sh'' st (replicate 40 0) []) \<le> 4095"
proof -
  have "decz 0 = ''0''" by code_simp
  then have "columns (replicate k 0) = concat (replicate k ''0 '')" for k by (induction k) simp_all
  then show ?thesis using assms by (simp add: kernel_stat_def length_concat sum_list_replicate)
qed

lemma dir_ok_ex:
  assumes "st \<noteq> CHR '')''" "st \<noteq> NUL" "length (decz pid) < 100"
  shows "dir_ok (dir_ex pid st nthr)"
proof -
  let ?l = "kernel_stat pid ''sh'' st (replicate 40 0) []"
  have "NUL \<notin> set ?l" using assms(2) by (simp add: kernel_stat_def)
  then have "cstr (take 4095 ?l) = ?l" using kernel_stat_ex [OF assms(3)] by (simp add: cstr_id)
  then have "stat_safe (dir_ex pid st nthr)"
    using kernel_stat_parts(2) [of "[]" st pid "''sh''" "replicate 40 0"] assms(1)
    by (simp add: stat_safe_def dir_ex_def) (simp add: kernel_stat_def)
  then show ?thesis by (simp add: dir_ok_def cont_safe_def) (simp add: dir_ex_def)
qed

lemma calls_ok_ex: "calls_ok calls_ex"
proof -
  have "length (decz 7) < 100" "length (decz 8) < 100" by code_simp+
  then show ?thesis
    using dir_ok_ex [of "CHR ''S''" 7] dir_ok_ex [of "CHR ''R''" 8] by (simp add: calls_ok_def calls_ex_def proc_ok_def)
qed

theorem photoproc_groups_witness:
  "\<exists>sys tasks n gs. photoproc photoenv_ex calls_ex 4 \<lparr>firstcall = True, bootepoch = 0\<rparr> net_ex netconn0 (replicate 5 tstat0) =
     Some (Inr (sys, tasks, n)) \<and> length tasks = 5 \<and> sint n \<le> 4 \<and> take (unat n) tasks = concat gs \<and> (\<forall>g\<in>set gs. group_ok g)"
proof -
  have "\<forall>t\<in>set (replicate 5 tstat0). slot_ok t" "hertz photoenv_ex \<noteq> 0"
    by (simp_all add: slot_ok_def tstat0_def gen0_def photoenv_ex_def)
  then show ?thesis
    using photoproc_groups [OF calls_ok_ex, of photoenv_ex 4 "replicate 5 tstat0" "\<lparr>firstcall = True, bootepoch = 0\<rparr>" net_ex netconn0]
    by auto
qed

section \<open>Containers\<close>

text \<open>A process of a container, with one thread, whose files can all be read.\<close>

definition container_proc :: "photoenv \<Rightarrow> procent \<Rightarrow> bool" where
  "container_proc e pr \<longleftrightarrow> proc_ok pr \<and> pr_name pr \<noteq> [] \<and> isdigit (hd (pr_name pr)) \<and>
     (\<exists>td. pr_dir pr = Some td \<and>
       (\<forall>b flags t. \<exists>t'. task_stats e b 1 flags td t = Some (Inr (True, t')) \<and> \<not> 1 <s gen_nthr (t_gen t')) \<and>
       (\<forall>t. fst (the (proccont td t)) = 1))"

lemma proccont_nthr: "proccont td t = Some (d, t') \<Longrightarrow> gen_nthr (t_gen t') = gen_nthr (t_gen t)"
  by (auto simp: proccont_def Let_def split: option.splits if_splits)

lemma container_step:
  assumes "container_proc e pr" "walk_ok m n p" "int (ph_tval p) < sint m" "sint m \<le> int n" "hertz e \<noteq> 0"
  shows "\<exists>p'. photo_process e b m pr p = Some (Inr p') \<and> walk_ok m n p' \<and> ph_tval p' = ph_tval p + 1 \<and> ph_dock p' = ph_dock p + 1"
proof -
  obtain td where td: "pr_dir pr = Some td" "\<And>b flags t. \<exists>t'. task_stats e b 1 flags td t = Some (Inr (True, t')) \<and> \<not> 1 <s gen_nthr (t_gen t')"
    "\<And>t. fst (the (proccont td t)) = 1" and pr: "proc_ok pr" "pr_name pr \<noteq> []" "isdigit (hd (pr_name pr))"
    using assms(1) unfolding container_proc_def by blast
  have ok: "dir_ok td" using pr(1) td(1) by (simp add: proc_ok_def)
  let ?i = "ph_tval p" and ?t = "ph_tasks p ! ph_tval p"
  have i: "?i < length (ph_tasks p)" "slot_ok ?t" using assms(2-4) by (auto simp: walk_ok_def)
  obtain t1 where t1: "task_stats e b 1 (supportflags (ph_net p)) td ?t = Some (Inr (True, t1))" "\<not> 1 <s gen_nthr (t_gen t1)" "kept_part t1 = kept_part ?t"
    using td(2) task_stats_total [of td e b 1 "supportflags (ph_net p)" ?t] ok assms(5) unfolding dir_ok_def by (metis option.inject prod.inject sum.inject(2))
  have "slot_ok (proccmd td t1)"
    using i(2) slot_ok_kept [OF t1(3)] slot_ok_kept [of "proccmd td t1" t1] by (simp add: proccmd_def Let_def)
  then obtain t2 where t2: "proccont td (proccmd td t1) = Some (1, t2)"
    using proccont_total [of td "proccmd td t1"] ok td(3) [of "proccmd td t1"] by (auto simp: dir_ok_def)
  then have n2: "gen_nthr (t_gen t2) = gen_nthr (t_gen t1)"
    using proccont_nthr [OF t2] by (simp add: proccmd_def Let_def)
  obtain t3 where t3: "(if calcpss e \<noteq> 0 then procsmaps td t2 else Inr t2) = Inr t3" "gen_nthr (t_gen t3) = gen_nthr (t_gen t2)"
    using procsmaps_total [of td t2] ok by (cases "calcpss e = 0") (auto simp: dir_ok_def)
  obtain s net where net: "netatop_gettask (td_net td) True (ph_net p) t3 = Inr (s, t3\<lparr>t_net := net\<rparr>)"
    using gettask_total [of "td_net td" "ph_net p" t3] by blast
  let ?p1 = "set_task ?i t1 p"
  let ?p2 = "(set_task ?i (t3\<lparr>t_net := net\<rparr>) ?p1)\<lparr>ph_dock := ph_dock p + 1, ph_net := s, ph_tval := ?i + 1\<rparr>"
  have found: "process_found e td t1 ?p1 = Some (Inr ?p2)"
    using t2 t3(1) net ok by (simp add: process_found_def andthen_def set_task_def dir_ok_def)
  have "process_threads e b m ?i pr ?p2 = Some (Inr ?p2)"
    using i(1) t1(2) n2 t3(2) by (simp add: process_threads_def set_task_def)
  then have run: "photo_process e b m pr p = Some (Inr ?p2)"
    using td(1) pr(2,3) i(1) t1(1) found by (simp add: photo_process_def andthen_def Let_def set_task_def)
  then have "walk_ok m n ?p2" using photo_process_ok [OF assms(2-5) pr(1), of b] by simp
  then show ?thesis using run by (intro exI [of _ ?p2]) simp
qed

lemma container_walk:
  assumes "\<forall>pr\<in>set prs. container_proc e pr" "walk_ok m n p" "int (ph_tval p + length prs) \<le> sint m" "sint m \<le> int n" "hertz e \<noteq> 0"
  shows "\<exists>p'. photo_processes e b m prs p = Some (Inr p') \<and> ph_tval p' = ph_tval p + length prs \<and> ph_dock p' = ph_dock p + of_nat (length prs)"
  using assms
proof (induction prs arbitrary: p)
  case (Cons pr prs)
  have lt: "int (ph_tval p) < sint m" using Cons.prems(3) by simp
  obtain p1 where p1: "photo_process e b m pr p = Some (Inr p1)" "walk_ok m n p1" "ph_tval p1 = ph_tval p + 1" "ph_dock p1 = ph_dock p + 1"
    using container_step [OF _ Cons.prems(2) lt Cons.prems(4,5), of pr b] Cons.prems(1) by auto
  then show ?case
    using Cons.IH [of p1] Cons.prems lt by (auto simp: andthen_def)
qed simp

lemma dockstat_bit: "(w OR DOCKSTAT) AND DOCKSTAT \<noteq> 0" "(w AND NOT DOCKSTAT) AND DOCKSTAT = 0"
proof -
  have two: "DOCKSTAT = 2 ^ 6" by (simp add: DOCKSTAT_def)
  have b: "bit (DOCKSTAT :: i32) n \<longleftrightarrow> n = 6" for n
    unfolding two by (simp only: bit_exp_iff possible_bit_word) auto
  have "bit ((w OR DOCKSTAT) AND DOCKSTAT) 6" by (simp add: b bit_simps)
  then show "(w OR DOCKSTAT) AND DOCKSTAT \<noteq> 0" by (metis bit_0_eq bot_apply bot_bool_def)
  show "(w AND NOT DOCKSTAT) AND DOCKSTAT = 0" by (auto simp: bit_eq_iff b bit_simps)
qed

text \<open>
  Containers are overlooked at a multiple of 256.  When the processes in \<^verbatim>\<open>/proc\<close> are all of containers and can all be read, the
  sampler delivers each of them, but it raises the flag for container data only if their number is not divisible by 256,
  because the count is kept_part in a \<open>char\<close>; with 256 container processes the display has no container information.
\<close>

theorem dockstat_wraps:
  assumes "calls_ok c" "pc_proc c = Some prs" "\<forall>pr\<in>set prs. container_proc e pr" "hertz e \<noteq> 0"
    and "int (length prs) \<le> sint maxtask" "sint maxtask \<le> int (length tasklist)" "\<forall>t\<in>set tasklist. slot_ok t"
  shows "\<exists>st' s' conn' tasks. photoproc e c maxtask st s conn tasklist = Some (Inr ((st', s', conn'), tasks, of_nat (length prs))) \<and>
    (supportflags s' AND DOCKSTAT \<noteq> 0 \<longleftrightarrow> length prs mod 256 \<noteq> 0)"
proof -
  obtain st1 s1 where first: "photo_first c (st, s) = Inr (st1, s1)"
    using assms(1) by (cases "firstcall st") (auto simp: photo_first_def calls_ok_def Let_def)
  obtain s2 conn2 where probe: "netatop_probe (pc_probe c) (s1, conn) = (s2, conn2)" by fastforce
  let ?p = "\<lparr>ph_net = s2, ph_tasks = tasklist, ph_tval = 0, ph_dock = 0\<rparr>"
  have "walk_ok maxtask (length tasklist) ?p"
    unfolding walk_ok_def using assms(7) by (intro conjI exI [of _ "[]"] exI [of _ tasklist]) auto
  then obtain p where p: "photo_processes e (bootepoch st1) maxtask prs ?p = Some (Inr p)" "ph_tval p = length prs" "ph_dock p = of_nat (length prs)"
    using container_walk [OF assms(3) _ _ assms(6,4), of ?p "bootepoch st1"] assms(5) by auto
  have "(of_nat (length prs) :: byte) = 0 \<longleftrightarrow> length prs mod 256 = 0"
    by (simp add: word_of_nat_eq_0_iff dvd_eq_mod_eq_0)
  then show ?thesis
    using assms(1,2) first probe p by (auto simp: photoproc_def andthen_def calls_ok_def dockstat_bit DOCKSTAT_def [THEN arg_cong [where f = "\<lambda>w. w = 0"]])
qed

definition docker_ex :: taskdir where
  "docker_ex = (dir_ex 7 CHR ''S'' [])\<lparr>td_status := Some (''Threads:'' @ CHR 0x09 # ''1'' @ CHR 0x0A # ''SigQ:''),
     td_cpuset := Some ''/docker/0123456789ab''\<rparr>"

lemma docker_ex_cont: "cont_safe docker_ex" "\<exists>t'. proccont docker_ex t = Some (1, t')"
proof -
  let ?line = "''/docker/0123456789ab'' @ [NUL] @ replicate 59 NUL"
  have f: "fgets 80 ''/docker/0123456789ab'' = (''/docker/0123456789ab'', [])" by code_simp
  have s: "strstr ''/docker/0123456789ab'' CIDPREFIX = Some 1" unfolding CIDPREFIX_def by code_simp
  have c: "cstr ''/docker/0123456789ab'' = ''/docker/0123456789ab''" by simp
  show "cont_safe docker_ex" using f s c by (simp add: cont_safe_def docker_ex_def dir_ex_def)
  have "proccont docker_ex t = (case (if ?line ! 1 \<noteq> NUL then strstr (cstr ''/docker/0123456789ab'') CIDPREFIX else None) of None \<Rightarrow> Some (0, t)
      | Some p \<Rightarrow> if length ?line < p + length CIDPREFIX + 1 + CIDSIZE then None
          else Some (1, set_gen (\<lambda>g. g\<lparr>gen_container := take CIDSIZE (drop (p + length CIDPREFIX + 1) ?line) @ drop CIDSIZE (gen_container g)\<rparr>) t))"
    by (simp add: proccont_def docker_ex_def dir_ex_def f Let_def)
  then show "\<exists>t'. proccont docker_ex t = Some (1, t')"
    using s c by (simp add: CIDPREFIX_def CIDSIZE_def)
qed

lemma docker_ex_stats:
  "\<exists>t'. task_stats photoenv_ex b 1 flags docker_ex t = Some (Inr (True, t')) \<and> \<not> 1 <s gen_nthr (t_gen t')"
proof -
  let ?xs = "replicate 40 (0 :: int)"
  have len: "length (decz 7) < 100" by code_simp
  have xs: "length stat_fields \<le> length ?xs" "\<forall>i\<in>set (picked stat_fields ?xs). in_i64 i"
    by (simp add: stat_fields_def) (auto simp: picked_def in_i64_def dest!: set_zip_rightD)
  have stat: "procstat photoenv_ex b 1 docker_ex t = Some (True, stat_task photoenv_ex b 1 7 ''sh'' CHR ''S'' ?xs t)"
    using procstat_line [OF _ kernel_stat_ex [OF len] _ _ _ _ xs, of docker_ex "CHR ''S''" photoenv_ex b 1 t]
    by (simp add: docker_ex_def dir_ex_def in_i64_def photoenv_ex_def)
  let ?items = "[Labelled ''Threads:'' [([CHR 0x09], 1)] []]"
  have one: "decz 1 = ''1''" by code_simp
  have vars: "label_vars ''Threads:'' = [\<lambda>v. set_gen (\<lambda>g. g\<lparr>gen_nthr := ucast (vnum v)\<rparr>)]"
    by (simp add: label_vars_def status_cases_def)
  have items: "\<forall>it\<in>set ?items. line_ok it"
    using one vars by (simp add: line_ok_def in_i64_def status_shape_def isspace_def number_end_def)
  obtain t2 where status: "procstatus docker_ex (stat_task photoenv_ex b 1 7 ''sh'' CHR ''S'' ?xs t) = (True, t2)" "gen_nthr (t_gen t2) = 1"
    using procstatus_items [OF _ items, of docker_ex "[]" "stat_task photoenv_ex b 1 7 ''sh'' CHR ''S'' ?xs t"] vars one
    by (simp add: docker_ex_def)
  have "procio flags docker_ex t2 = Inr t2" by (simp add: procio_def docker_ex_def dir_ex_def)
  then show ?thesis using stat status by (simp add: task_stats_def)
qed

definition container_ex :: procent where
  "container_ex = \<lparr>pr_name = ''7'', pr_dir = Some docker_ex, pr_task = None\<rparr>"

lemma container_proc_ex: "container_proc photoenv_ex container_ex"
proof -
  have "length (decz 7) < 100" by code_simp
  then have "dir_ok (dir_ex 7 CHR ''S'' [])" by (intro dir_ok_ex) simp_all
  then have "dir_ok docker_ex" using docker_ex_cont(1) by (simp add: dir_ok_def stat_safe_def) (simp add: docker_ex_def)
  moreover have "fst (the (proccont docker_ex t)) = 1" for t using docker_ex_cont(2) [of t] by auto
  ultimately show ?thesis
    using docker_ex_stats by (simp add: container_proc_def proc_ok_def container_ex_def isdigit_def)
qed

theorem dockstat_wraps_witness:
  "\<exists>st' s' conn' tasks. photoproc photoenv_ex (calls_ex\<lparr>pc_proc := Some (replicate 256 container_ex)\<rparr>) 300 \<lparr>firstcall = True, bootepoch = 0\<rparr> net_ex
       netconn0 (replicate 300 tstat0) = Some (Inr ((st', s', conn'), tasks, 256)) \<and> supportflags s' AND DOCKSTAT = 0"
proof -
  have "\<forall>t\<in>set (replicate 300 tstat0). slot_ok t" "hertz photoenv_ex \<noteq> 0"
    by (simp_all add: slot_ok_def tstat0_def gen0_def photoenv_ex_def)
  moreover have "calls_ok (calls_ex\<lparr>pc_proc := Some (replicate 256 container_ex)\<rparr>)"
    using calls_ok_ex container_proc_ex by (simp add: calls_ok_def container_proc_def)
  ultimately show ?thesis
    using dockstat_wraps [of "calls_ex\<lparr>pc_proc := Some (replicate 256 container_ex)\<rparr>" "replicate 256 container_ex" photoenv_ex 300 "replicate 300 tstat0"
      "\<lparr>firstcall = True, bootepoch = 0\<rparr>" net_ex netconn0] container_proc_ex by auto
qed

end
