(* ===== verification/Sysstat.thy ===== *)
theory Sysstat
  imports Prelude
begin

text \<open>
  The system-level counters of \<^verbatim>\<open>src/Qt/FakeAtop/photosyst.h\<close> and \<^verbatim>\<open>netstats.h\<close>: one record per struct,
  with the source's members in the source's order behind a prefix of their own.  Arrays are lists
  of their full length; the load averages are the 32-bit patterns of the \<open>float\<close> members, which are
  only copied.  The constants ending in \<open>0\<close> are the structures with all bytes zero.
\<close>

section \<open>Tables of network counters\<close>

record ipv4_stats =
  ip4_Forwarding :: count_t
  ip4_DefaultTTL :: count_t
  ip4_InReceives :: count_t
  ip4_InHdrErrors :: count_t
  ip4_InAddrErrors :: count_t
  ip4_ForwDatagrams :: count_t
  ip4_InUnknownProtos :: count_t
  ip4_InDiscards :: count_t
  ip4_InDelivers :: count_t
  ip4_OutRequests :: count_t
  ip4_OutDiscards :: count_t
  ip4_OutNoRoutes :: count_t
  ip4_ReasmTimeout :: count_t
  ip4_ReasmReqds :: count_t
  ip4_ReasmOKs :: count_t
  ip4_ReasmFails :: count_t
  ip4_FragOKs :: count_t
  ip4_FragFails :: count_t
  ip4_FragCreates :: count_t

record icmpv4_stats =
  ic4_InMsgs :: count_t
  ic4_InErrors :: count_t
  ic4_InDestUnreachs :: count_t
  ic4_InTimeExcds :: count_t
  ic4_InParmProbs :: count_t
  ic4_InSrcQuenchs :: count_t
  ic4_InRedirects :: count_t
  ic4_InEchos :: count_t
  ic4_InEchoReps :: count_t
  ic4_InTimestamps :: count_t
  ic4_InTimestampReps :: count_t
  ic4_InAddrMasks :: count_t
  ic4_InAddrMaskReps :: count_t
  ic4_OutMsgs :: count_t
  ic4_OutErrors :: count_t
  ic4_OutDestUnreachs :: count_t
  ic4_OutTimeExcds :: count_t
  ic4_OutParmProbs :: count_t
  ic4_OutSrcQuenchs :: count_t
  ic4_OutRedirects :: count_t
  ic4_OutEchos :: count_t
  ic4_OutEchoReps :: count_t
  ic4_OutTimestamps :: count_t
  ic4_OutTimestampReps :: count_t
  ic4_OutAddrMasks :: count_t
  ic4_OutAddrMaskReps :: count_t

record udpv4_stats =
  ud4_InDatagrams :: count_t
  ud4_NoPorts :: count_t
  ud4_InErrors :: count_t
  ud4_OutDatagrams :: count_t

record tcp_stats =
  tcp_RtoAlgorithm :: count_t
  tcp_RtoMin :: count_t
  tcp_RtoMax :: count_t
  tcp_MaxConn :: count_t
  tcp_ActiveOpens :: count_t
  tcp_PassiveOpens :: count_t
  tcp_AttemptFails :: count_t
  tcp_EstabResets :: count_t
  tcp_CurrEstab :: count_t
  tcp_InSegs :: count_t
  tcp_OutSegs :: count_t
  tcp_RetransSegs :: count_t
  tcp_InErrs :: count_t
  tcp_OutRsts :: count_t

record ipv6_stats =
  ip6_Ip6InReceives :: count_t
  ip6_Ip6InHdrErrors :: count_t
  ip6_Ip6InTooBigErrors :: count_t
  ip6_Ip6InNoRoutes :: count_t
  ip6_Ip6InAddrErrors :: count_t
  ip6_Ip6InUnknownProtos :: count_t
  ip6_Ip6InTruncatedPkts :: count_t
  ip6_Ip6InDiscards :: count_t
  ip6_Ip6InDelivers :: count_t
  ip6_Ip6OutForwDatagrams :: count_t
  ip6_Ip6OutRequests :: count_t
  ip6_Ip6OutDiscards :: count_t
  ip6_Ip6OutNoRoutes :: count_t
  ip6_Ip6ReasmTimeout :: count_t
  ip6_Ip6ReasmReqds :: count_t
  ip6_Ip6ReasmOKs :: count_t
  ip6_Ip6ReasmFails :: count_t
  ip6_Ip6FragOKs :: count_t
  ip6_Ip6FragFails :: count_t
  ip6_Ip6FragCreates :: count_t
  ip6_Ip6InMcastPkts :: count_t
  ip6_Ip6OutMcastPkts :: count_t

record icmpv6_stats =
  ic6_Icmp6InMsgs :: count_t
  ic6_Icmp6InErrors :: count_t
  ic6_Icmp6InDestUnreachs :: count_t
  ic6_Icmp6InPktTooBigs :: count_t
  ic6_Icmp6InTimeExcds :: count_t
  ic6_Icmp6InParmProblems :: count_t
  ic6_Icmp6InEchos :: count_t
  ic6_Icmp6InEchoReplies :: count_t
  ic6_Icmp6InGroupMembQueries :: count_t
  ic6_Icmp6InGroupMembResponses :: count_t
  ic6_Icmp6InGroupMembReductions :: count_t
  ic6_Icmp6InRouterSolicits :: count_t
  ic6_Icmp6InRouterAdvertisements :: count_t
  ic6_Icmp6InNeighborSolicits :: count_t
  ic6_Icmp6InNeighborAdvertisements :: count_t
  ic6_Icmp6InRedirects :: count_t
  ic6_Icmp6OutMsgs :: count_t
  ic6_Icmp6OutDestUnreachs :: count_t
  ic6_Icmp6OutPktTooBigs :: count_t
  ic6_Icmp6OutTimeExcds :: count_t
  ic6_Icmp6OutParmProblems :: count_t
  ic6_Icmp6OutEchoReplies :: count_t
  ic6_Icmp6OutRouterSolicits :: count_t
  ic6_Icmp6OutNeighborSolicits :: count_t
  ic6_Icmp6OutNeighborAdvertisements :: count_t
  ic6_Icmp6OutRedirects :: count_t
  ic6_Icmp6OutGroupMembResponses :: count_t
  ic6_Icmp6OutGroupMembReductions :: count_t

record udpv6_stats =
  ud6_Udp6InDatagrams :: count_t
  ud6_Udp6NoPorts :: count_t
  ud6_Udp6InErrors :: count_t
  ud6_Udp6OutDatagrams :: count_t

definition ipv4_stats0 :: ipv4_stats where
  "ipv4_stats0 = \<lparr>ip4_Forwarding = 0,
     ip4_DefaultTTL = 0,
     ip4_InReceives = 0,
     ip4_InHdrErrors = 0,
     ip4_InAddrErrors = 0,
     ip4_ForwDatagrams = 0,
     ip4_InUnknownProtos = 0,
     ip4_InDiscards = 0,
     ip4_InDelivers = 0,
     ip4_OutRequests = 0,
     ip4_OutDiscards = 0,
     ip4_OutNoRoutes = 0,
     ip4_ReasmTimeout = 0,
     ip4_ReasmReqds = 0,
     ip4_ReasmOKs = 0,
     ip4_ReasmFails = 0,
     ip4_FragOKs = 0,
     ip4_FragFails = 0,
     ip4_FragCreates = 0\<rparr>"

definition icmpv4_stats0 :: icmpv4_stats where
  "icmpv4_stats0 = \<lparr>ic4_InMsgs = 0,
     ic4_InErrors = 0,
     ic4_InDestUnreachs = 0,
     ic4_InTimeExcds = 0,
     ic4_InParmProbs = 0,
     ic4_InSrcQuenchs = 0,
     ic4_InRedirects = 0,
     ic4_InEchos = 0,
     ic4_InEchoReps = 0,
     ic4_InTimestamps = 0,
     ic4_InTimestampReps = 0,
     ic4_InAddrMasks = 0,
     ic4_InAddrMaskReps = 0,
     ic4_OutMsgs = 0,
     ic4_OutErrors = 0,
     ic4_OutDestUnreachs = 0,
     ic4_OutTimeExcds = 0,
     ic4_OutParmProbs = 0,
     ic4_OutSrcQuenchs = 0,
     ic4_OutRedirects = 0,
     ic4_OutEchos = 0,
     ic4_OutEchoReps = 0,
     ic4_OutTimestamps = 0,
     ic4_OutTimestampReps = 0,
     ic4_OutAddrMasks = 0,
     ic4_OutAddrMaskReps = 0\<rparr>"

definition udpv4_stats0 :: udpv4_stats where
  "udpv4_stats0 = \<lparr>ud4_InDatagrams = 0,
     ud4_NoPorts = 0,
     ud4_InErrors = 0,
     ud4_OutDatagrams = 0\<rparr>"

definition tcp_stats0 :: tcp_stats where
  "tcp_stats0 = \<lparr>tcp_RtoAlgorithm = 0,
     tcp_RtoMin = 0,
     tcp_RtoMax = 0,
     tcp_MaxConn = 0,
     tcp_ActiveOpens = 0,
     tcp_PassiveOpens = 0,
     tcp_AttemptFails = 0,
     tcp_EstabResets = 0,
     tcp_CurrEstab = 0,
     tcp_InSegs = 0,
     tcp_OutSegs = 0,
     tcp_RetransSegs = 0,
     tcp_InErrs = 0,
     tcp_OutRsts = 0\<rparr>"

definition ipv6_stats0 :: ipv6_stats where
  "ipv6_stats0 = \<lparr>ip6_Ip6InReceives = 0,
     ip6_Ip6InHdrErrors = 0,
     ip6_Ip6InTooBigErrors = 0,
     ip6_Ip6InNoRoutes = 0,
     ip6_Ip6InAddrErrors = 0,
     ip6_Ip6InUnknownProtos = 0,
     ip6_Ip6InTruncatedPkts = 0,
     ip6_Ip6InDiscards = 0,
     ip6_Ip6InDelivers = 0,
     ip6_Ip6OutForwDatagrams = 0,
     ip6_Ip6OutRequests = 0,
     ip6_Ip6OutDiscards = 0,
     ip6_Ip6OutNoRoutes = 0,
     ip6_Ip6ReasmTimeout = 0,
     ip6_Ip6ReasmReqds = 0,
     ip6_Ip6ReasmOKs = 0,
     ip6_Ip6ReasmFails = 0,
     ip6_Ip6FragOKs = 0,
     ip6_Ip6FragFails = 0,
     ip6_Ip6FragCreates = 0,
     ip6_Ip6InMcastPkts = 0,
     ip6_Ip6OutMcastPkts = 0\<rparr>"

definition icmpv6_stats0 :: icmpv6_stats where
  "icmpv6_stats0 = \<lparr>ic6_Icmp6InMsgs = 0,
     ic6_Icmp6InErrors = 0,
     ic6_Icmp6InDestUnreachs = 0,
     ic6_Icmp6InPktTooBigs = 0,
     ic6_Icmp6InTimeExcds = 0,
     ic6_Icmp6InParmProblems = 0,
     ic6_Icmp6InEchos = 0,
     ic6_Icmp6InEchoReplies = 0,
     ic6_Icmp6InGroupMembQueries = 0,
     ic6_Icmp6InGroupMembResponses = 0,
     ic6_Icmp6InGroupMembReductions = 0,
     ic6_Icmp6InRouterSolicits = 0,
     ic6_Icmp6InRouterAdvertisements = 0,
     ic6_Icmp6InNeighborSolicits = 0,
     ic6_Icmp6InNeighborAdvertisements = 0,
     ic6_Icmp6InRedirects = 0,
     ic6_Icmp6OutMsgs = 0,
     ic6_Icmp6OutDestUnreachs = 0,
     ic6_Icmp6OutPktTooBigs = 0,
     ic6_Icmp6OutTimeExcds = 0,
     ic6_Icmp6OutParmProblems = 0,
     ic6_Icmp6OutEchoReplies = 0,
     ic6_Icmp6OutRouterSolicits = 0,
     ic6_Icmp6OutNeighborSolicits = 0,
     ic6_Icmp6OutNeighborAdvertisements = 0,
     ic6_Icmp6OutRedirects = 0,
     ic6_Icmp6OutGroupMembResponses = 0,
     ic6_Icmp6OutGroupMembReductions = 0\<rparr>"

definition udpv6_stats0 :: udpv6_stats where
  "udpv6_stats0 = \<lparr>ud6_Udp6InDatagrams = 0,
     ud6_Udp6NoPorts = 0,
     ud6_Udp6InErrors = 0,
     ud6_Udp6OutDatagrams = 0\<rparr>"

text \<open>
  The code walks such a structure as an array of \<open>sizeof/sizeof(count_t)\<close> counters: \<open>*_zip f\<close> applies
  \<open>f\<close> to each pair of members in turn.
\<close>

definition ipv4_zip :: "(count_t \<Rightarrow> count_t \<Rightarrow> count_t) \<Rightarrow> ipv4_stats \<Rightarrow> ipv4_stats \<Rightarrow> ipv4_stats" where
  "ipv4_zip f a b = \<lparr>ip4_Forwarding = f (ip4_Forwarding a) (ip4_Forwarding b),
     ip4_DefaultTTL = f (ip4_DefaultTTL a) (ip4_DefaultTTL b),
     ip4_InReceives = f (ip4_InReceives a) (ip4_InReceives b),
     ip4_InHdrErrors = f (ip4_InHdrErrors a) (ip4_InHdrErrors b),
     ip4_InAddrErrors = f (ip4_InAddrErrors a) (ip4_InAddrErrors b),
     ip4_ForwDatagrams = f (ip4_ForwDatagrams a) (ip4_ForwDatagrams b),
     ip4_InUnknownProtos = f (ip4_InUnknownProtos a) (ip4_InUnknownProtos b),
     ip4_InDiscards = f (ip4_InDiscards a) (ip4_InDiscards b),
     ip4_InDelivers = f (ip4_InDelivers a) (ip4_InDelivers b),
     ip4_OutRequests = f (ip4_OutRequests a) (ip4_OutRequests b),
     ip4_OutDiscards = f (ip4_OutDiscards a) (ip4_OutDiscards b),
     ip4_OutNoRoutes = f (ip4_OutNoRoutes a) (ip4_OutNoRoutes b),
     ip4_ReasmTimeout = f (ip4_ReasmTimeout a) (ip4_ReasmTimeout b),
     ip4_ReasmReqds = f (ip4_ReasmReqds a) (ip4_ReasmReqds b),
     ip4_ReasmOKs = f (ip4_ReasmOKs a) (ip4_ReasmOKs b),
     ip4_ReasmFails = f (ip4_ReasmFails a) (ip4_ReasmFails b),
     ip4_FragOKs = f (ip4_FragOKs a) (ip4_FragOKs b),
     ip4_FragFails = f (ip4_FragFails a) (ip4_FragFails b),
     ip4_FragCreates = f (ip4_FragCreates a) (ip4_FragCreates b)\<rparr>"

definition icmpv4_zip :: "(count_t \<Rightarrow> count_t \<Rightarrow> count_t) \<Rightarrow> icmpv4_stats \<Rightarrow> icmpv4_stats \<Rightarrow> icmpv4_stats" where
  "icmpv4_zip f a b = \<lparr>ic4_InMsgs = f (ic4_InMsgs a) (ic4_InMsgs b),
     ic4_InErrors = f (ic4_InErrors a) (ic4_InErrors b),
     ic4_InDestUnreachs = f (ic4_InDestUnreachs a) (ic4_InDestUnreachs b),
     ic4_InTimeExcds = f (ic4_InTimeExcds a) (ic4_InTimeExcds b),
     ic4_InParmProbs = f (ic4_InParmProbs a) (ic4_InParmProbs b),
     ic4_InSrcQuenchs = f (ic4_InSrcQuenchs a) (ic4_InSrcQuenchs b),
     ic4_InRedirects = f (ic4_InRedirects a) (ic4_InRedirects b),
     ic4_InEchos = f (ic4_InEchos a) (ic4_InEchos b),
     ic4_InEchoReps = f (ic4_InEchoReps a) (ic4_InEchoReps b),
     ic4_InTimestamps = f (ic4_InTimestamps a) (ic4_InTimestamps b),
     ic4_InTimestampReps = f (ic4_InTimestampReps a) (ic4_InTimestampReps b),
     ic4_InAddrMasks = f (ic4_InAddrMasks a) (ic4_InAddrMasks b),
     ic4_InAddrMaskReps = f (ic4_InAddrMaskReps a) (ic4_InAddrMaskReps b),
     ic4_OutMsgs = f (ic4_OutMsgs a) (ic4_OutMsgs b),
     ic4_OutErrors = f (ic4_OutErrors a) (ic4_OutErrors b),
     ic4_OutDestUnreachs = f (ic4_OutDestUnreachs a) (ic4_OutDestUnreachs b),
     ic4_OutTimeExcds = f (ic4_OutTimeExcds a) (ic4_OutTimeExcds b),
     ic4_OutParmProbs = f (ic4_OutParmProbs a) (ic4_OutParmProbs b),
     ic4_OutSrcQuenchs = f (ic4_OutSrcQuenchs a) (ic4_OutSrcQuenchs b),
     ic4_OutRedirects = f (ic4_OutRedirects a) (ic4_OutRedirects b),
     ic4_OutEchos = f (ic4_OutEchos a) (ic4_OutEchos b),
     ic4_OutEchoReps = f (ic4_OutEchoReps a) (ic4_OutEchoReps b),
     ic4_OutTimestamps = f (ic4_OutTimestamps a) (ic4_OutTimestamps b),
     ic4_OutTimestampReps = f (ic4_OutTimestampReps a) (ic4_OutTimestampReps b),
     ic4_OutAddrMasks = f (ic4_OutAddrMasks a) (ic4_OutAddrMasks b),
     ic4_OutAddrMaskReps = f (ic4_OutAddrMaskReps a) (ic4_OutAddrMaskReps b)\<rparr>"

definition udpv4_zip :: "(count_t \<Rightarrow> count_t \<Rightarrow> count_t) \<Rightarrow> udpv4_stats \<Rightarrow> udpv4_stats \<Rightarrow> udpv4_stats" where
  "udpv4_zip f a b = \<lparr>ud4_InDatagrams = f (ud4_InDatagrams a) (ud4_InDatagrams b),
     ud4_NoPorts = f (ud4_NoPorts a) (ud4_NoPorts b),
     ud4_InErrors = f (ud4_InErrors a) (ud4_InErrors b),
     ud4_OutDatagrams = f (ud4_OutDatagrams a) (ud4_OutDatagrams b)\<rparr>"

definition tcp_zip :: "(count_t \<Rightarrow> count_t \<Rightarrow> count_t) \<Rightarrow> tcp_stats \<Rightarrow> tcp_stats \<Rightarrow> tcp_stats" where
  "tcp_zip f a b = \<lparr>tcp_RtoAlgorithm = f (tcp_RtoAlgorithm a) (tcp_RtoAlgorithm b),
     tcp_RtoMin = f (tcp_RtoMin a) (tcp_RtoMin b),
     tcp_RtoMax = f (tcp_RtoMax a) (tcp_RtoMax b),
     tcp_MaxConn = f (tcp_MaxConn a) (tcp_MaxConn b),
     tcp_ActiveOpens = f (tcp_ActiveOpens a) (tcp_ActiveOpens b),
     tcp_PassiveOpens = f (tcp_PassiveOpens a) (tcp_PassiveOpens b),
     tcp_AttemptFails = f (tcp_AttemptFails a) (tcp_AttemptFails b),
     tcp_EstabResets = f (tcp_EstabResets a) (tcp_EstabResets b),
     tcp_CurrEstab = f (tcp_CurrEstab a) (tcp_CurrEstab b),
     tcp_InSegs = f (tcp_InSegs a) (tcp_InSegs b),
     tcp_OutSegs = f (tcp_OutSegs a) (tcp_OutSegs b),
     tcp_RetransSegs = f (tcp_RetransSegs a) (tcp_RetransSegs b),
     tcp_InErrs = f (tcp_InErrs a) (tcp_InErrs b),
     tcp_OutRsts = f (tcp_OutRsts a) (tcp_OutRsts b)\<rparr>"

definition ipv6_zip :: "(count_t \<Rightarrow> count_t \<Rightarrow> count_t) \<Rightarrow> ipv6_stats \<Rightarrow> ipv6_stats \<Rightarrow> ipv6_stats" where
  "ipv6_zip f a b = \<lparr>ip6_Ip6InReceives = f (ip6_Ip6InReceives a) (ip6_Ip6InReceives b),
     ip6_Ip6InHdrErrors = f (ip6_Ip6InHdrErrors a) (ip6_Ip6InHdrErrors b),
     ip6_Ip6InTooBigErrors = f (ip6_Ip6InTooBigErrors a) (ip6_Ip6InTooBigErrors b),
     ip6_Ip6InNoRoutes = f (ip6_Ip6InNoRoutes a) (ip6_Ip6InNoRoutes b),
     ip6_Ip6InAddrErrors = f (ip6_Ip6InAddrErrors a) (ip6_Ip6InAddrErrors b),
     ip6_Ip6InUnknownProtos = f (ip6_Ip6InUnknownProtos a) (ip6_Ip6InUnknownProtos b),
     ip6_Ip6InTruncatedPkts = f (ip6_Ip6InTruncatedPkts a) (ip6_Ip6InTruncatedPkts b),
     ip6_Ip6InDiscards = f (ip6_Ip6InDiscards a) (ip6_Ip6InDiscards b),
     ip6_Ip6InDelivers = f (ip6_Ip6InDelivers a) (ip6_Ip6InDelivers b),
     ip6_Ip6OutForwDatagrams = f (ip6_Ip6OutForwDatagrams a) (ip6_Ip6OutForwDatagrams b),
     ip6_Ip6OutRequests = f (ip6_Ip6OutRequests a) (ip6_Ip6OutRequests b),
     ip6_Ip6OutDiscards = f (ip6_Ip6OutDiscards a) (ip6_Ip6OutDiscards b),
     ip6_Ip6OutNoRoutes = f (ip6_Ip6OutNoRoutes a) (ip6_Ip6OutNoRoutes b),
     ip6_Ip6ReasmTimeout = f (ip6_Ip6ReasmTimeout a) (ip6_Ip6ReasmTimeout b),
     ip6_Ip6ReasmReqds = f (ip6_Ip6ReasmReqds a) (ip6_Ip6ReasmReqds b),
     ip6_Ip6ReasmOKs = f (ip6_Ip6ReasmOKs a) (ip6_Ip6ReasmOKs b),
     ip6_Ip6ReasmFails = f (ip6_Ip6ReasmFails a) (ip6_Ip6ReasmFails b),
     ip6_Ip6FragOKs = f (ip6_Ip6FragOKs a) (ip6_Ip6FragOKs b),
     ip6_Ip6FragFails = f (ip6_Ip6FragFails a) (ip6_Ip6FragFails b),
     ip6_Ip6FragCreates = f (ip6_Ip6FragCreates a) (ip6_Ip6FragCreates b),
     ip6_Ip6InMcastPkts = f (ip6_Ip6InMcastPkts a) (ip6_Ip6InMcastPkts b),
     ip6_Ip6OutMcastPkts = f (ip6_Ip6OutMcastPkts a) (ip6_Ip6OutMcastPkts b)\<rparr>"

definition icmpv6_zip :: "(count_t \<Rightarrow> count_t \<Rightarrow> count_t) \<Rightarrow> icmpv6_stats \<Rightarrow> icmpv6_stats \<Rightarrow> icmpv6_stats" where
  "icmpv6_zip f a b = \<lparr>ic6_Icmp6InMsgs = f (ic6_Icmp6InMsgs a) (ic6_Icmp6InMsgs b),
     ic6_Icmp6InErrors = f (ic6_Icmp6InErrors a) (ic6_Icmp6InErrors b),
     ic6_Icmp6InDestUnreachs = f (ic6_Icmp6InDestUnreachs a) (ic6_Icmp6InDestUnreachs b),
     ic6_Icmp6InPktTooBigs = f (ic6_Icmp6InPktTooBigs a) (ic6_Icmp6InPktTooBigs b),
     ic6_Icmp6InTimeExcds = f (ic6_Icmp6InTimeExcds a) (ic6_Icmp6InTimeExcds b),
     ic6_Icmp6InParmProblems = f (ic6_Icmp6InParmProblems a) (ic6_Icmp6InParmProblems b),
     ic6_Icmp6InEchos = f (ic6_Icmp6InEchos a) (ic6_Icmp6InEchos b),
     ic6_Icmp6InEchoReplies = f (ic6_Icmp6InEchoReplies a) (ic6_Icmp6InEchoReplies b),
     ic6_Icmp6InGroupMembQueries = f (ic6_Icmp6InGroupMembQueries a) (ic6_Icmp6InGroupMembQueries b),
     ic6_Icmp6InGroupMembResponses = f (ic6_Icmp6InGroupMembResponses a) (ic6_Icmp6InGroupMembResponses b),
     ic6_Icmp6InGroupMembReductions = f (ic6_Icmp6InGroupMembReductions a) (ic6_Icmp6InGroupMembReductions b),
     ic6_Icmp6InRouterSolicits = f (ic6_Icmp6InRouterSolicits a) (ic6_Icmp6InRouterSolicits b),
     ic6_Icmp6InRouterAdvertisements = f (ic6_Icmp6InRouterAdvertisements a) (ic6_Icmp6InRouterAdvertisements b),
     ic6_Icmp6InNeighborSolicits = f (ic6_Icmp6InNeighborSolicits a) (ic6_Icmp6InNeighborSolicits b),
     ic6_Icmp6InNeighborAdvertisements = f (ic6_Icmp6InNeighborAdvertisements a) (ic6_Icmp6InNeighborAdvertisements b),
     ic6_Icmp6InRedirects = f (ic6_Icmp6InRedirects a) (ic6_Icmp6InRedirects b),
     ic6_Icmp6OutMsgs = f (ic6_Icmp6OutMsgs a) (ic6_Icmp6OutMsgs b),
     ic6_Icmp6OutDestUnreachs = f (ic6_Icmp6OutDestUnreachs a) (ic6_Icmp6OutDestUnreachs b),
     ic6_Icmp6OutPktTooBigs = f (ic6_Icmp6OutPktTooBigs a) (ic6_Icmp6OutPktTooBigs b),
     ic6_Icmp6OutTimeExcds = f (ic6_Icmp6OutTimeExcds a) (ic6_Icmp6OutTimeExcds b),
     ic6_Icmp6OutParmProblems = f (ic6_Icmp6OutParmProblems a) (ic6_Icmp6OutParmProblems b),
     ic6_Icmp6OutEchoReplies = f (ic6_Icmp6OutEchoReplies a) (ic6_Icmp6OutEchoReplies b),
     ic6_Icmp6OutRouterSolicits = f (ic6_Icmp6OutRouterSolicits a) (ic6_Icmp6OutRouterSolicits b),
     ic6_Icmp6OutNeighborSolicits = f (ic6_Icmp6OutNeighborSolicits a) (ic6_Icmp6OutNeighborSolicits b),
     ic6_Icmp6OutNeighborAdvertisements = f (ic6_Icmp6OutNeighborAdvertisements a) (ic6_Icmp6OutNeighborAdvertisements b),
     ic6_Icmp6OutRedirects = f (ic6_Icmp6OutRedirects a) (ic6_Icmp6OutRedirects b),
     ic6_Icmp6OutGroupMembResponses = f (ic6_Icmp6OutGroupMembResponses a) (ic6_Icmp6OutGroupMembResponses b),
     ic6_Icmp6OutGroupMembReductions = f (ic6_Icmp6OutGroupMembReductions a) (ic6_Icmp6OutGroupMembReductions b)\<rparr>"

definition udpv6_zip :: "(count_t \<Rightarrow> count_t \<Rightarrow> count_t) \<Rightarrow> udpv6_stats \<Rightarrow> udpv6_stats \<Rightarrow> udpv6_stats" where
  "udpv6_zip f a b = \<lparr>ud6_Udp6InDatagrams = f (ud6_Udp6InDatagrams a) (ud6_Udp6InDatagrams b),
     ud6_Udp6NoPorts = f (ud6_Udp6NoPorts a) (ud6_Udp6NoPorts b),
     ud6_Udp6InErrors = f (ud6_Udp6InErrors a) (ud6_Udp6InErrors b),
     ud6_Udp6OutDatagrams = f (ud6_Udp6OutDatagrams a) (ud6_Udp6OutDatagrams b)\<rparr>"

section \<open>System-level statistics\<close>

record memstat =
  mst_physmem :: count_t
  mst_freemem :: count_t
  mst_buffermem :: count_t
  mst_slabmem :: count_t
  mst_cachemem :: count_t
  mst_cachedrt :: count_t
  mst_totswap :: count_t
  mst_freeswap :: count_t
  mst_pgscans :: count_t
  mst_pgsteal :: count_t
  mst_allocstall :: count_t
  mst_swouts :: count_t
  mst_swins :: count_t
  mst_commitlim :: count_t
  mst_committed :: count_t
  mst_shmem :: count_t
  mst_shmrss :: count_t
  mst_shmswp :: count_t
  mst_slabreclaim :: count_t
  mst_tothugepage :: count_t
  mst_freehugepage :: count_t
  mst_hugepagesz :: count_t
  mst_vmwballoon :: count_t
  mst_cfuture :: "count_t list"

definition memstat0 :: memstat where
  "memstat0 = \<lparr>mst_physmem = 0,
     mst_freemem = 0,
     mst_buffermem = 0,
     mst_slabmem = 0,
     mst_cachemem = 0,
     mst_cachedrt = 0,
     mst_totswap = 0,
     mst_freeswap = 0,
     mst_pgscans = 0,
     mst_pgsteal = 0,
     mst_allocstall = 0,
     mst_swouts = 0,
     mst_swins = 0,
     mst_commitlim = 0,
     mst_committed = 0,
     mst_shmem = 0,
     mst_shmrss = 0,
     mst_shmswp = 0,
     mst_slabreclaim = 0,
     mst_tothugepage = 0,
     mst_freehugepage = 0,
     mst_hugepagesz = 0,
     mst_vmwballoon = 0,
     mst_cfuture = replicate 8 0\<rparr>"

record netstat =
  nst_ipv4 :: ipv4_stats
  nst_icmpv4 :: icmpv4_stats
  nst_udpv4 :: udpv4_stats
  nst_ipv6 :: ipv6_stats
  nst_icmpv6 :: icmpv6_stats
  nst_udpv6 :: udpv6_stats
  nst_tcp :: tcp_stats

definition netstat0 :: netstat where
  "netstat0 = \<lparr>nst_ipv4 = ipv4_stats0,
     nst_icmpv4 = icmpv4_stats0,
     nst_udpv4 = udpv4_stats0,
     nst_ipv6 = ipv6_stats0,
     nst_icmpv6 = icmpv6_stats0,
     nst_udpv6 = udpv6_stats0,
     nst_tcp = tcp_stats0\<rparr>"

record freqcnt =
  frq_maxfreq :: count_t
  frq_cnt :: count_t
  frq_ticks :: count_t

definition freqcnt0 :: freqcnt where
  "freqcnt0 = \<lparr>frq_maxfreq = 0,
     frq_cnt = 0,
     frq_ticks = 0\<rparr>"

record percpu =
  pcp_cpunr :: i32
  pcp_stime :: count_t
  pcp_utime :: count_t
  pcp_ntime :: count_t
  pcp_itime :: count_t
  pcp_wtime :: count_t
  pcp_Itime :: count_t
  pcp_Stime :: count_t
  pcp_steal :: count_t
  pcp_guest :: count_t
  pcp_freqcnt :: freqcnt
  pcp_instr :: count_t
  pcp_cycle :: count_t
  pcp_cfuture :: "count_t list"

definition percpu0 :: percpu where
  "percpu0 = \<lparr>pcp_cpunr = 0,
     pcp_stime = 0,
     pcp_utime = 0,
     pcp_ntime = 0,
     pcp_itime = 0,
     pcp_wtime = 0,
     pcp_Itime = 0,
     pcp_Stime = 0,
     pcp_steal = 0,
     pcp_guest = 0,
     pcp_freqcnt = freqcnt0,
     pcp_instr = 0,
     pcp_cycle = 0,
     pcp_cfuture = replicate 2 0\<rparr>"

record cpustat =
  cst_nrcpu :: count_t
  cst_devint :: count_t
  cst_csw :: count_t
  cst_nprocs :: count_t
  cst_lavg1 :: u32
  cst_lavg5 :: u32
  cst_lavg15 :: u32
  cst_cfuture :: "count_t list"
  cst_all :: percpu
  cst_cpu :: "percpu list"

definition cpustat0 :: cpustat where
  "cpustat0 = \<lparr>cst_nrcpu = 0,
     cst_devint = 0,
     cst_csw = 0,
     cst_nprocs = 0,
     cst_lavg1 = 0,
     cst_lavg5 = 0,
     cst_lavg15 = 0,
     cst_cfuture = replicate 4 0,
     cst_all = percpu0,
     cst_cpu = replicate 2048 percpu0\<rparr>"

record perdsk =
  pdk_name :: chars
  pdk_nread :: count_t
  pdk_nrsect :: count_t
  pdk_nwrite :: count_t
  pdk_nwsect :: count_t
  pdk_io_ms :: count_t
  pdk_avque :: count_t
  pdk_cfuture :: "count_t list"

definition perdsk0 :: perdsk where
  "perdsk0 = \<lparr>pdk_name = replicate 32 NUL,
     pdk_nread = 0,
     pdk_nrsect = 0,
     pdk_nwrite = 0,
     pdk_nwsect = 0,
     pdk_io_ms = 0,
     pdk_avque = 0,
     pdk_cfuture = replicate 4 0\<rparr>"

record dskstat =
  dks_ndsk :: i32
  dks_nmdd :: i32
  dks_nlvm :: i32
  dks_dsk :: "perdsk list"
  dks_mdd :: "perdsk list"
  dks_lvm :: "perdsk list"

definition dskstat0 :: dskstat where
  "dskstat0 = \<lparr>dks_ndsk = 0,
     dks_nmdd = 0,
     dks_nlvm = 0,
     dks_dsk = replicate 1024 perdsk0,
     dks_mdd = replicate 256 perdsk0,
     dks_lvm = replicate 2048 perdsk0\<rparr>"

record perintf =
  pif_name :: chars
  pif_rbyte :: count_t
  pif_rpack :: count_t
  pif_rerrs :: count_t
  pif_rdrop :: count_t
  pif_rfifo :: count_t
  pif_rframe :: count_t
  pif_rcompr :: count_t
  pif_rmultic :: count_t
  pif_rfuture :: "count_t list"
  pif_sbyte :: count_t
  pif_spack :: count_t
  pif_serrs :: count_t
  pif_sdrop :: count_t
  pif_sfifo :: count_t
  pif_scollis :: count_t
  pif_scarrier :: count_t
  pif_scompr :: count_t
  pif_sfuture :: "count_t list"
  pif_type :: char
  pif_speed :: i64
  pif_speedp :: i64
  pif_duplex :: byte
  pif_cfuture :: "count_t list"

definition perintf0 :: perintf where
  "perintf0 = \<lparr>pif_name = replicate 16 NUL,
     pif_rbyte = 0,
     pif_rpack = 0,
     pif_rerrs = 0,
     pif_rdrop = 0,
     pif_rfifo = 0,
     pif_rframe = 0,
     pif_rcompr = 0,
     pif_rmultic = 0,
     pif_rfuture = replicate 4 0,
     pif_sbyte = 0,
     pif_spack = 0,
     pif_serrs = 0,
     pif_sdrop = 0,
     pif_sfifo = 0,
     pif_scollis = 0,
     pif_scarrier = 0,
     pif_scompr = 0,
     pif_sfuture = replicate 4 0,
     pif_type = NUL,
     pif_speed = 0,
     pif_speedp = 0,
     pif_duplex = 0,
     pif_cfuture = replicate 4 0\<rparr>"

record intfstat =
  ifs_nrintf :: i32
  ifs_intf :: "perintf list"

definition intfstat0 :: intfstat where
  "intfstat0 = \<lparr>ifs_nrintf = 0,
     ifs_intf = replicate 128 perintf0\<rparr>"

record pernfsmount =
  nmt_mountdev :: chars
  nmt_age :: count_t
  nmt_bytesread :: count_t
  nmt_byteswrite :: count_t
  nmt_bytesdread :: count_t
  nmt_bytesdwrite :: count_t
  nmt_bytestotread :: count_t
  nmt_bytestotwrite :: count_t
  nmt_pagesmread :: count_t
  nmt_pagesmwrite :: count_t
  nmt_future :: "count_t list"

definition pernfsmount0 :: pernfsmount where
  "pernfsmount0 = \<lparr>nmt_mountdev = replicate 128 NUL,
     nmt_age = 0,
     nmt_bytesread = 0,
     nmt_byteswrite = 0,
     nmt_bytesdread = 0,
     nmt_bytesdwrite = 0,
     nmt_bytestotread = 0,
     nmt_bytestotwrite = 0,
     nmt_pagesmread = 0,
     nmt_pagesmwrite = 0,
     nmt_future = replicate 8 0\<rparr>"

record nfsserver =
  nsv_netcnt :: count_t
  nsv_netudpcnt :: count_t
  nsv_nettcpcnt :: count_t
  nsv_nettcpcon :: count_t
  nsv_rpccnt :: count_t
  nsv_rpcbadfmt :: count_t
  nsv_rpcbadaut :: count_t
  nsv_rpcbadcln :: count_t
  nsv_rpcread :: count_t
  nsv_rpcwrite :: count_t
  nsv_rchits :: count_t
  nsv_rcmiss :: count_t
  nsv_rcnoca :: count_t
  nsv_nrbytes :: count_t
  nsv_nwbytes :: count_t
  nsv_future :: "count_t list"

definition nfsserver0 :: nfsserver where
  "nfsserver0 = \<lparr>nsv_netcnt = 0,
     nsv_netudpcnt = 0,
     nsv_nettcpcnt = 0,
     nsv_nettcpcon = 0,
     nsv_rpccnt = 0,
     nsv_rpcbadfmt = 0,
     nsv_rpcbadaut = 0,
     nsv_rpcbadcln = 0,
     nsv_rpcread = 0,
     nsv_rpcwrite = 0,
     nsv_rchits = 0,
     nsv_rcmiss = 0,
     nsv_rcnoca = 0,
     nsv_nrbytes = 0,
     nsv_nwbytes = 0,
     nsv_future = replicate 8 0\<rparr>"

record nfsclient =
  ncl_rpccnt :: count_t
  ncl_rpcretrans :: count_t
  ncl_rpcautrefresh :: count_t
  ncl_rpcread :: count_t
  ncl_rpcwrite :: count_t
  ncl_future :: "count_t list"

definition nfsclient0 :: nfsclient where
  "nfsclient0 = \<lparr>ncl_rpccnt = 0,
     ncl_rpcretrans = 0,
     ncl_rpcautrefresh = 0,
     ncl_rpcread = 0,
     ncl_rpcwrite = 0,
     ncl_future = replicate 8 0\<rparr>"

record nfsmounts =
  nmts_nrmounts :: i32
  nmts_nfsmnt :: "pernfsmount list"

definition nfsmounts0 :: nfsmounts where
  "nfsmounts0 = \<lparr>nmts_nrmounts = 0,
     nmts_nfsmnt = replicate 64 pernfsmount0\<rparr>"

record nfsstat =
  nfs_server :: nfsserver
  nfs_client :: nfsclient
  nfs_nfsmounts :: nfsmounts

definition nfsstat0 :: nfsstat where
  "nfsstat0 = \<lparr>nfs_server = nfsserver0,
     nfs_client = nfsclient0,
     nfs_nfsmounts = nfsmounts0\<rparr>"

record percontainer =
  ctr_ctid :: u64
  ctr_numproc :: u64
  ctr_system :: count_t
  ctr_user :: count_t
  ctr_nice :: count_t
  ctr_uptime :: count_t
  ctr_physpages :: count_t

definition percontainer0 :: percontainer where
  "percontainer0 = \<lparr>ctr_ctid = 0,
     ctr_numproc = 0,
     ctr_system = 0,
     ctr_user = 0,
     ctr_nice = 0,
     ctr_uptime = 0,
     ctr_physpages = 0\<rparr>"

record contstat =
  cts_nrcontainer :: i32
  cts_cont :: "percontainer list"

definition contstat0 :: contstat where
  "contstat0 = \<lparr>cts_nrcontainer = 0,
     cts_cont = replicate 128 percontainer0\<rparr>"

record wwwstat =
  www_accesses :: count_t
  www_totkbytes :: count_t
  www_uptime :: count_t
  www_bworkers :: i32
  www_iworkers :: i32

definition wwwstat0 :: wwwstat where
  "wwwstat0 = \<lparr>www_accesses = 0,
     www_totkbytes = 0,
     www_uptime = 0,
     www_bworkers = 0,
     www_iworkers = 0\<rparr>"

record sstat =
  ss_cpu :: cpustat
  ss_mem :: memstat
  ss_net :: netstat
  ss_intf :: intfstat
  ss_dsk :: dskstat
  ss_nfs :: nfsstat
  ss_cfs :: contstat
  ss_www :: wwwstat

definition sstat0 :: sstat where
  "sstat0 = \<lparr>ss_cpu = cpustat0,
     ss_mem = memstat0,
     ss_net = netstat0,
     ss_intf = intfstat0,
     ss_dsk = dskstat0,
     ss_nfs = nfsstat0,
     ss_cfs = contstat0,
     ss_www = wwwstat0\<rparr>"

end
