(* ===== verification/Ifprop.thy ===== *)
theory Ifprop
  imports Prelude
begin

text \<open>
  The table of interface properties of \<^verbatim>\<open>src/Qt/FakeAtop/ifprop.c\<close>: \<open>initifprop\<close> fills it from the
  lines of \<^verbatim>\<open>/proc/net/dev\<close> and two \<open>ioctl\<close> calls per interface, \<open>getifprop\<close> searches it up to the
  entry with an empty name.  The lines, as \<open>fgets\<close> delivers them, and the answers of the two
  \<open>ioctl\<close> calls are arguments.
\<close>

section \<open>Data\<close>

record ifprop =
  ifp_type :: char
  ifp_name :: chars
  ifp_speed :: i64
  ifp_fullduplex :: byte

definition ifprop0 :: ifprop where
  "ifprop0 = \<lparr>ifp_type = NUL, ifp_name = replicate 31 NUL, ifp_speed = 0, ifp_fullduplex = 0\<rparr>"

definition MAXINTF :: nat where
  "MAXINTF = 128"

text \<open>
  The kernel: \<open>ETHTOOL_GSET\<close> gives speed and duplex mode of an ethernet interface,
  \<open>SIOCGIWRATE\<close> the bit rate of a wireless one; \<open>None\<close> is a failing call.
\<close>

record ifkernel =
  ethtool :: "string \<Rightarrow> (u32 \<times> byte) option"
  iwrate :: "string \<Rightarrow> i32 option"

definition SPEED_UNKNOWN :: u32 where "SPEED_UNKNOWN = 0xffffffff"
definition DUPLEX_FULL :: byte where "DUPLEX_FULL = 1"

section \<open>Searching\<close>

fun getifprop_loop :: "ifprop list \<Rightarrow> ifprop \<Rightarrow> (ifprop \<times> bool) option" where
  "getifprop_loop [] ifp = None"
| "getifprop_loop (p # ps) ifp =
     (if \<not> cnonempty (ifp_name p) then
        Some (ifp\<lparr>ifp_type := CHR ''?'', ifp_speed := 0, ifp_fullduplex := 0\<rparr>, False)
      else if streq (ifp_name ifp) (ifp_name p) then Some (p, True)
      else getifprop_loop ps ifp)"

text \<open>\<open>None\<close> is a read behind the end of the table.\<close>

definition getifprop :: "ifprop list \<Rightarrow> ifprop \<Rightarrow> (ifprop \<times> bool) option" where
  "getifprop ifprops ifp = getifprop_loop ifprops ifp"

section \<open>Filling the table\<close>

text \<open>\<open>*strchr(s, c) = d\<close> if there is such a character.\<close>

fun subst_first :: "char \<Rightarrow> char \<Rightarrow> string \<Rightarrow> string" where
  "subst_first c d [] = []"
| "subst_first c d (x # xs) = (if x = c then d # xs else x # subst_first c d xs)"

text \<open>The word \<open>sscanf(s, "%15s", ...)\<close> reads; empty if there is none.\<close>

definition scan_word15 :: "string \<Rightarrow> string" where
  "scan_word15 s = take 15 (takeWhile (\<lambda>c. \<not> isspace c) (dropWhile isspace s))"

definition scan_name :: "string \<Rightarrow> chars \<Rightarrow> chars" where
  "scan_name line name =
     (let w = scan_word15 (subst_first CHR '':'' CHR '' '' line)
      in if w = [] then name else strcpy name w)"

text \<open>The properties of the interface whose name was just read.\<close>

definition probe_if :: "ifkernel \<Rightarrow> ifprop \<Rightarrow> ifprop" where
  "probe_if k p =
     (case ethtool k (take 15 (cstr (ifp_name p))) of
        Some (speed, duplex) \<Rightarrow>
          p\<lparr>ifp_type := CHR ''e'',
            ifp_speed := (if speed = SPEED_UNKNOWN then 0 else ucast speed),
            ifp_fullduplex := (if duplex = DUPLEX_FULL then 1 else 0)\<rparr>
      | None \<Rightarrow>
     (case iwrate k (take 15 (cstr (ifp_name p))) of
        Some value \<Rightarrow>
          p\<lparr>ifp_type := CHR ''w'', ifp_fullduplex := 0,
            ifp_speed := scast (cdiv (value + 500000) 1000000)\<rparr>
      | None \<Rightarrow> p\<lparr>ifp_type := CHR ''?'', ifp_fullduplex := 0, ifp_speed := 0\<rparr>))"

text \<open>The loop over the lines; \<open>i\<close> is the entry to fill next.\<close>

fun initifprop_loop :: "ifkernel \<Rightarrow> string list \<Rightarrow> nat \<Rightarrow> ifprop list \<Rightarrow> ifprop list option" where
  "initifprop_loop k [] i ifprops = Some ifprops"
| "initifprop_loop k (line # lines) i ifprops =
     (if CHR ''|'' \<in> set line then initifprop_loop k lines i ifprops
      else do {
        p \<leftarrow> aget ifprops i;
        let ifprops = ifprops[i := probe_if k (p\<lparr>ifp_name := scan_name line (ifp_name p)\<rparr>)];
        if MAXINTF - 1 \<le> i + 1 then Some ifprops
        else initifprop_loop k lines (i + 1) ifprops
      })"

text \<open>\<open>None\<close> as \<open>lines\<close> tells that the file or the socket could not be opened.\<close>

definition initifprop :: "ifkernel \<Rightarrow> string list option \<Rightarrow> ifprop list \<Rightarrow> ifprop list option" where
  "initifprop k lines ifprops =
     (case lines of None \<Rightarrow> Some ifprops | Some ls \<Rightarrow> initifprop_loop k ls 0 ifprops)"

section \<open>The table keeps its terminator\<close>

definition table_ok :: "ifprop list \<Rightarrow> bool" where
  "table_ok ps \<longleftrightarrow> length ps = MAXINTF \<and> \<not> cnonempty (ifp_name (ps ! (MAXINTF - 1)))"

lemma initifprop_loop_ok:
  "table_ok ps \<Longrightarrow> i < MAXINTF - 1 \<Longrightarrow> \<exists>ps'. initifprop_loop k lines i ps = Some ps' \<and> table_ok ps'"
proof (induction k lines i ps rule: initifprop_loop.induct)
  case (2 k line lines i ps)
  then show ?case by (auto simp: table_ok_def Let_def nth_list_update MAXINTF_def)
qed simp

lemma getifprop_loop_first:
  assumes "j < length ps" and "\<forall>i<j. cnonempty (ifp_name (ps ! i)) \<and> \<not> streq (ifp_name ifp) (ifp_name (ps ! i))"
  shows "getifprop_loop ps ifp = getifprop_loop (drop j ps) ifp"
  using assms
proof (induction j)
  case (Suc j)
  then have "getifprop_loop ps ifp = getifprop_loop (drop j ps) ifp" by auto
  also have "drop j ps = ps ! j # drop (Suc j) ps" using Suc.prems(1) by (simp add: Cons_nth_drop_Suc)
  finally show ?case using Suc.prems(2) by simp
qed simp

lemma getifprop_loop_total:
  "\<exists>p\<in>set ps. \<not> cnonempty (ifp_name p) \<Longrightarrow> \<exists>r. getifprop_loop ps ifp = Some r"
  by (induction ps) auto

section \<open>Properties\<close>

text \<open>
  C34: Whatever \<^verbatim>\<open>/proc/net/dev\<close> contains, \<open>initifprop\<close> stays inside its table of 128 entries and
  leaves the last one empty, so that the search of \<open>getifprop\<close> for any interface ends inside the
  table.
\<close>

theorem ifprop_table_safe:
  assumes "length ps = MAXINTF" and "\<not> cnonempty (ifp_name (ps ! (MAXINTF - 1)))"
  shows "\<exists>ps' r. initifprop k lines ps = Some ps' \<and> length ps' = MAXINTF \<and>
    \<not> cnonempty (ifp_name (ps' ! (MAXINTF - 1))) \<and> getifprop ps' ifp = Some r"
proof -
  have "table_ok ps" using assms by (simp add: table_ok_def)
  then obtain ps' where ps': "initifprop k lines ps = Some ps'" "table_ok ps'"
    using initifprop_loop_ok [of ps 0 k] by (cases lines) (auto simp: initifprop_def MAXINTF_def)
  then have "\<exists>p\<in>set ps'. \<not> cnonempty (ifp_name p)"
    by (auto simp: table_ok_def MAXINTF_def intro!: bexI [of _ "ps' ! 127"])
  then obtain r where "getifprop ps' ifp = Some r"
    using getifprop_loop_total unfolding getifprop_def by blast
  with ps' show ?thesis by (auto simp: table_ok_def)
qed

definition ex_kernel :: ifkernel where
  "ex_kernel = \<lparr>ethtool = (\<lambda>n. if n = ''eth0'' then Some (1000, 1) else None),
     iwrate = (\<lambda>n. if n = ''wlan0'' then Some 54000000 else None)\<rparr>"

theorem ifprop_table_safe_witness:
  "\<exists>ps' r. initifprop ex_kernel (Some [''Inter-|   Receive'', ''  eth0: 1 2 3'']) (replicate 128 ifprop0) = Some ps' \<and>
     getifprop ps' ifprop0 = Some r"
proof -
  have "\<not> cnonempty (ifp_name ifprop0)" by (simp add: ifprop0_def cnonempty_def)
  then show ?thesis
    using ifprop_table_safe [of "replicate 128 ifprop0" ex_kernel
        "Some [''Inter-|   Receive'', ''  eth0: 1 2 3'']" ifprop0] by (simp add: MAXINTF_def) blast
qed

text \<open>
  \<open>getifprop\<close> returns the first entry with the name asked for, and reports an interface that
  has no entry before the terminator as unknown, with speed 0 and half duplex, leaving its name.
\<close>

theorem getifprop_spec:
  assumes "j < length ps"
    and "\<forall>i<j. cnonempty (ifp_name (ps ! i)) \<and> \<not> streq (ifp_name ifp) (ifp_name (ps ! i))"
  shows "(cnonempty (ifp_name (ps ! j)) \<and> streq (ifp_name ifp) (ifp_name (ps ! j)) \<longrightarrow>
      getifprop ps ifp = Some (ps ! j, True)) \<and>
    (\<not> cnonempty (ifp_name (ps ! j)) \<longrightarrow>
      getifprop ps ifp = Some (ifp\<lparr>ifp_type := CHR ''?'', ifp_speed := 0, ifp_fullduplex := 0\<rparr>, False))"
  using getifprop_loop_first [OF assms] assms(1)
  by (simp add: getifprop_def Cons_nth_drop_Suc [symmetric])

theorem getifprop_spec_witness:
  "getifprop [ifprop0\<lparr>ifp_name := ''lo''\<rparr>, ifprop0\<lparr>ifp_name := ''eth0'', ifp_speed := 100\<rparr>, ifprop0]
     (ifprop0\<lparr>ifp_name := ''eth0''\<rparr>) =
   Some (ifprop0\<lparr>ifp_name := ''eth0'', ifp_speed := 100\<rparr>, True)"
  using getifprop_spec [of 1 "[ifprop0\<lparr>ifp_name := ''lo''\<rparr>, ifprop0\<lparr>ifp_name := ''eth0'', ifp_speed := 100\<rparr>, ifprop0]"
      "ifprop0\<lparr>ifp_name := ''eth0''\<rparr>"]
  by (simp add: cnonempty_def streq_def)

end
