(* ===== verification/Deviate_Syst.thy ===== *)
theory Deviate_Syst
  imports Deviate_Task Sysstat Ifprop
begin

text \<open>
  The system half of \<^verbatim>\<open>src/Qt/FakeAtop/deviate.c\<close>: \<open>deviatsyst\<close> computes the difference of two
  samples of the system-level counters, component by component in the order of the source.
  Devices are matched by name or number, because they may have been added or removed between the
  samples.  \<open>None\<close> is an access outside of an array.
\<close>

section \<open>Processors\<close>

text \<open>The totals over all processors.\<close>

definition deviat_cpu_all :: "percpu \<Rightarrow> percpu \<Rightarrow> percpu \<Rightarrow> percpu" where
  "deviat_cpu_all cur pre dev = dev\<lparr>
     pcp_stime := subcount (pcp_stime cur) (pcp_stime pre),
     pcp_utime := subcount (pcp_utime cur) (pcp_utime pre),
     pcp_ntime := subcount (pcp_ntime cur) (pcp_ntime pre),
     pcp_itime := subcount (pcp_itime cur) (pcp_itime pre),
     pcp_wtime := subcount (pcp_wtime cur) (pcp_wtime pre),
     pcp_Itime := subcount (pcp_Itime cur) (pcp_Itime pre),
     pcp_Stime := subcount (pcp_Stime cur) (pcp_Stime pre),
     pcp_steal := subcount (pcp_steal cur) (pcp_steal pre),
     pcp_guest := subcount (pcp_guest cur) (pcp_guest pre),
     pcp_instr := subcount (pcp_instr cur) (pcp_instr pre),
     pcp_cycle := subcount (pcp_cycle cur) (pcp_cycle pre)\<rparr>"

text \<open>One processor: the frequency counters are differences only if ticks are counted.\<close>

definition deviat_percpu :: "percpu \<Rightarrow> percpu \<Rightarrow> percpu \<Rightarrow> percpu" where
  "deviat_percpu cur pre dev =
     (let ticks = frq_ticks (pcp_freqcnt cur) in dev\<lparr>
     pcp_cpunr := pcp_cpunr cur,
     pcp_stime := subcount (pcp_stime cur) (pcp_stime pre),
     pcp_utime := subcount (pcp_utime cur) (pcp_utime pre),
     pcp_ntime := subcount (pcp_ntime cur) (pcp_ntime pre),
     pcp_itime := subcount (pcp_itime cur) (pcp_itime pre),
     pcp_wtime := subcount (pcp_wtime cur) (pcp_wtime pre),
     pcp_Itime := subcount (pcp_Itime cur) (pcp_Itime pre),
     pcp_Stime := subcount (pcp_Stime cur) (pcp_Stime pre),
     pcp_steal := subcount (pcp_steal cur) (pcp_steal pre),
     pcp_guest := subcount (pcp_guest cur) (pcp_guest pre),
     pcp_instr := subcount (pcp_instr cur) (pcp_instr pre),
     pcp_cycle := subcount (pcp_cycle cur) (pcp_cycle pre),
     pcp_freqcnt := (pcp_freqcnt dev)\<lparr>
       frq_maxfreq := frq_maxfreq (pcp_freqcnt cur),
       frq_cnt := (if truth ticks then subcount (frq_cnt (pcp_freqcnt cur)) (frq_cnt (pcp_freqcnt pre))
                   else frq_cnt (pcp_freqcnt cur)),
       frq_ticks := (if truth ticks then subcount (frq_ticks (pcp_freqcnt cur)) (frq_ticks (pcp_freqcnt pre))
                     else frq_ticks (pcp_freqcnt cur))\<rparr>\<rparr>)"

fun percpu_loop :: "percpu list \<Rightarrow> percpu list \<Rightarrow> nat list \<Rightarrow> percpu list \<Rightarrow> percpu list option" where
  "percpu_loop cur pre [] dev = Some dev"
| "percpu_loop cur pre (i # is) dev = do {
     c \<leftarrow> aget cur i;
     p \<leftarrow> aget pre i;
     dev \<leftarrow> aupd dev i (deviat_percpu c p);
     percpu_loop cur pre is dev
   }"

definition deviat_cpu :: "cpustat \<Rightarrow> cpustat \<Rightarrow> cpustat \<Rightarrow> cpustat option" where
  "deviat_cpu cur pre dev = do {
     let dev = dev\<lparr>
       cst_nrcpu := cst_nrcpu cur,
       cst_devint := subcount (cst_devint cur) (cst_devint pre),
       cst_csw := subcount (cst_csw cur) (cst_csw pre),
       cst_nprocs := subcount (cst_nprocs cur) (cst_nprocs pre),
       cst_all := deviat_cpu_all (cst_all cur) (cst_all pre) (cst_all dev)\<rparr>;
     cpus \<leftarrow> percpu_loop (cst_cpu cur) (cst_cpu pre) [0..<nat (sint (cst_nrcpu dev))] (cst_cpu dev);
     Some (dev\<lparr>
       cst_cpu := cpus,
       cst_lavg1 := cst_lavg1 cur,
       cst_lavg5 := cst_lavg5 cur,
       cst_lavg15 := cst_lavg15 cur\<rparr>)
   }"

section \<open>Memory\<close>

definition deviat_mem :: "memstat \<Rightarrow> memstat \<Rightarrow> memstat \<Rightarrow> memstat" where
  "deviat_mem cur pre dev = dev\<lparr>
     mst_physmem := mst_physmem cur,
     mst_freemem := mst_freemem cur,
     mst_buffermem := mst_buffermem cur,
     mst_slabmem := mst_slabmem cur,
     mst_slabreclaim := mst_slabreclaim cur,
     mst_committed := mst_committed cur,
     mst_commitlim := mst_commitlim cur,
     mst_cachemem := mst_cachemem cur,
     mst_cachedrt := mst_cachedrt cur,
     mst_totswap := mst_totswap cur,
     mst_freeswap := mst_freeswap cur,
     mst_shmem := mst_shmem cur,
     mst_shmrss := mst_shmrss cur,
     mst_shmswp := mst_shmswp cur,
     mst_tothugepage := mst_tothugepage cur,
     mst_freehugepage := mst_freehugepage cur,
     mst_hugepagesz := mst_hugepagesz cur,
     mst_vmwballoon := mst_vmwballoon cur,
     mst_swouts := subcount (mst_swouts cur) (mst_swouts pre),
     mst_swins := subcount (mst_swins cur) (mst_swins pre),
     mst_pgscans := subcount (mst_pgscans cur) (mst_pgscans pre),
     mst_pgsteal := subcount (mst_pgsteal cur) (mst_pgsteal pre),
     mst_allocstall := subcount (mst_allocstall cur) (mst_allocstall pre)\<rparr>"

section \<open>Network protocols\<close>

text \<open>The tables are subtracted member by member; what is not a counter is copied afterwards.\<close>

definition deviat_net :: "netstat \<Rightarrow> netstat \<Rightarrow> netstat \<Rightarrow> netstat" where
  "deviat_net cur pre dev = dev\<lparr>
     nst_ipv4 := (ipv4_zip (-) (nst_ipv4 cur) (nst_ipv4 pre))\<lparr>
       ip4_Forwarding := ip4_Forwarding (nst_ipv4 cur),
       ip4_DefaultTTL := ip4_DefaultTTL (nst_ipv4 cur)\<rparr>,
     nst_icmpv4 := icmpv4_zip (-) (nst_icmpv4 cur) (nst_icmpv4 pre),
     nst_udpv4 := udpv4_zip (-) (nst_udpv4 cur) (nst_udpv4 pre),
     nst_ipv6 := ipv6_zip (-) (nst_ipv6 cur) (nst_ipv6 pre),
     nst_icmpv6 := icmpv6_zip (-) (nst_icmpv6 cur) (nst_icmpv6 pre),
     nst_udpv6 := udpv6_zip (-) (nst_udpv6 cur) (nst_udpv6 pre),
     nst_tcp := (tcp_zip (-) (nst_tcp cur) (nst_tcp pre))\<lparr>
       tcp_RtoAlgorithm := tcp_RtoAlgorithm (nst_tcp cur),
       tcp_RtoMin := tcp_RtoMin (nst_tcp cur),
       tcp_RtoMax := tcp_RtoMax (nst_tcp cur),
       tcp_MaxConn := tcp_MaxConn (nst_tcp cur),
       tcp_CurrEstab := tcp_CurrEstab (nst_tcp cur)\<rparr>\<rparr>"

section \<open>Interfaces\<close>

text \<open>The first loop: the properties of every interface of the present sample.\<close>

fun intf_props :: "ifprop list \<Rightarrow> ifprop \<Rightarrow> perintf list \<Rightarrow> perintf list option" where
  "intf_props ifprops ifp [] = None"
| "intf_props ifprops ifp (c # cs) =
     (if \<not> cnonempty (pif_name c) then Some (c # cs)
      else do {
        (ifp, _) \<leftarrow> getifprop ifprops (ifp\<lparr>ifp_name := strcpy (ifp_name ifp) (pif_name c)\<rparr>);
        cs \<leftarrow> intf_props ifprops ifp cs;
        Some (c\<lparr>pif_type := ifp_type ifp, pif_speed := ifp_speed ifp, pif_speedp := ifp_speed ifp,
                pif_duplex := ifp_fullduplex ifp\<rparr> # cs)
      })"

text \<open>The second loop, in the first sample only: the names are copied to the previous sample.\<close>

fun intf_first :: "perintf list \<Rightarrow> nat \<Rightarrow> perintf list \<Rightarrow> perintf list option" where
  "intf_first [] i pre = None"
| "intf_first (c # cs) i pre =
     (if \<not> cnonempty (pif_name c) then Some pre
      else do {
        pre \<leftarrow> aupd pre i (\<lambda>p. p\<lparr>pif_name := strcpy (pif_name p) (pif_name c),
                 pif_type := pif_type c, pif_speed := pif_speed c, pif_speedp := pif_speedp c,
                 pif_duplex := pif_duplex c\<rparr>);
        intf_first cs (i + 1) pre
      })"

definition intf_diff :: "perintf \<Rightarrow> perintf \<Rightarrow> perintf \<Rightarrow> perintf" where
  "intf_diff cur pre dev = dev\<lparr>
     pif_name := strcpy (pif_name dev) (pif_name cur),
     pif_rbyte := subcount (pif_rbyte cur) (pif_rbyte pre),
     pif_rpack := subcount (pif_rpack cur) (pif_rpack pre),
     pif_rerrs := subcount (pif_rerrs cur) (pif_rerrs pre),
     pif_rdrop := subcount (pif_rdrop cur) (pif_rdrop pre),
     pif_rfifo := subcount (pif_rfifo cur) (pif_rfifo pre),
     pif_rframe := subcount (pif_rframe cur) (pif_rframe pre),
     pif_rcompr := subcount (pif_rcompr cur) (pif_rcompr pre),
     pif_rmultic := subcount (pif_rmultic cur) (pif_rmultic pre),
     pif_sbyte := subcount (pif_sbyte cur) (pif_sbyte pre),
     pif_spack := subcount (pif_spack cur) (pif_spack pre),
     pif_serrs := subcount (pif_serrs cur) (pif_serrs pre),
     pif_sdrop := subcount (pif_sdrop cur) (pif_sdrop pre),
     pif_sfifo := subcount (pif_sfifo cur) (pif_sfifo pre),
     pif_scollis := subcount (pif_scollis cur) (pif_scollis pre),
     pif_scarrier := subcount (pif_scarrier cur) (pif_scarrier pre),
     pif_scompr := subcount (pif_scompr cur) (pif_scompr pre),
     pif_type := pif_type cur,
     pif_duplex := pif_duplex cur,
     pif_speed := pif_speed cur,
     pif_speedp := pif_speed pre\<rparr>"

text \<open>A search for the entry with a given name, up to the entry with an empty one.\<close>

fun find_name :: "('a \<Rightarrow> chars) \<Rightarrow> chars \<Rightarrow> 'a list \<Rightarrow> nat \<Rightarrow> nat option" where
  "find_name nm name [] j = None"
| "find_name nm name (p # ps) j =
     (if \<not> cnonempty (nm p) \<or> streq name (nm p) then Some j else find_name nm name ps (j + 1))"

text \<open>
  The third loop: the entries of the present sample behind \<open>i\<close>, the position \<open>j\<close> in the previous
  one.  The result is the number of interfaces, the present sample with the previous speeds, and
  the deviations.
\<close>

fun intf_loop :: "perintf list \<Rightarrow> perintf list \<Rightarrow> nat \<Rightarrow> nat \<Rightarrow> perintf list \<Rightarrow>
    (nat \<times> perintf list \<times> perintf list) option" where
  "intf_loop [] pre i j dev = None"
| "intf_loop (c # cs) pre i j dev =
     (if \<not> cnonempty (pif_name c) then Some (i, c # cs, dev)
      else do {
        p \<leftarrow> aget pre j;
        j \<leftarrow> (if streq (pif_name c) (pif_name p) then Some j else find_name pif_name (pif_name c) pre 0);
        p \<leftarrow> aget pre j;
        if \<not> streq (pif_name c) (pif_name p) then do {
          dev \<leftarrow> aupd dev i (\<lambda>_. c);
          (n, cs, dev) \<leftarrow> intf_loop cs pre (i + 1) 1 dev;
          Some (n, c # cs, dev)
        }
        else do {
          dev \<leftarrow> aupd dev i (intf_diff c p);
          (n, cs, dev) \<leftarrow> intf_loop cs pre (i + 1) (j + 1) dev;
          Some (n, c\<lparr>pif_speedp := pif_speed p\<rparr> # cs, dev)
        }
      })"

text \<open>\<open>junk\<close> is the uninitialised local \<open>ifprop\<close>.\<close>

definition deviat_intf :: "ifprop list \<Rightarrow> ifprop \<Rightarrow> intfstat \<Rightarrow> intfstat \<Rightarrow> intfstat \<Rightarrow>
    (intfstat \<times> intfstat \<times> intfstat) option" where
  "deviat_intf ifprops junk cur pre dev = do {
     curs \<leftarrow> intf_props ifprops junk (ifs_intf cur);
     p0 \<leftarrow> aget (ifs_intf pre) 0;
     pres \<leftarrow> (if \<not> cnonempty (pif_name p0) then intf_first curs 0 (ifs_intf pre) else Some (ifs_intf pre));
     (i, curs, devs) \<leftarrow> intf_loop curs pres 0 0 (ifs_intf dev);
     devs \<leftarrow> aupd devs i (\<lambda>d. d\<lparr>pif_name := cclear (pif_name d)\<rparr>);
     Some (cur\<lparr>ifs_intf := curs\<rparr>, pre\<lparr>ifs_intf := pres\<rparr>, dev\<lparr>ifs_intf := devs, ifs_nrintf := of_nat i\<rparr>)
   }"

section \<open>Disks, multiple devices and logical volumes\<close>

definition dsk_diff :: "perdsk \<Rightarrow> perdsk \<Rightarrow> perdsk \<Rightarrow> perdsk" where
  "dsk_diff cur pre dev = dev\<lparr>
     pdk_name := strcpy (pdk_name dev) (pdk_name cur),
     pdk_nread := subcount (pdk_nread cur) (pdk_nread pre),
     pdk_nwrite := subcount (pdk_nwrite cur) (pdk_nwrite pre),
     pdk_nrsect := subcount (pdk_nrsect cur) (pdk_nrsect pre),
     pdk_nwsect := subcount (pdk_nwsect cur) (pdk_nwsect pre),
     pdk_io_ms := subcount (pdk_io_ms cur) (pdk_io_ms pre),
     pdk_avque := subcount (pdk_avque cur) (pdk_avque pre)\<rparr>"

text \<open>
  The loop over one of the three tables.  The condition \<open>if (pre->dsk.dsk[j].name)\<close> at its end tests
  the address of an array, which is never null: \<open>j\<close> is incremented in every round.
\<close>

fun dsk_loop :: "perdsk list \<Rightarrow> perdsk list \<Rightarrow> nat \<Rightarrow> nat \<Rightarrow> perdsk list \<Rightarrow> (nat \<times> perdsk list) option" where
  "dsk_loop [] pre i j dev = None"
| "dsk_loop (c # cs) pre i j dev =
     (if \<not> cnonempty (pdk_name c) then Some (i, dev)
      else do {
        p \<leftarrow> aget pre j;
        j \<leftarrow> (if streq (pdk_name c) (pdk_name p) then Some j
              else find_name pdk_name (pdk_name c) (drop (j + 1) pre) (j + 1));
        p \<leftarrow> aget pre j;
        dev \<leftarrow> aupd dev i (dsk_diff c p);
        dsk_loop cs pre (i + 1) (j + 1) dev
      })"

definition dsk_table :: "perdsk list \<Rightarrow> perdsk list \<Rightarrow> perdsk list \<Rightarrow> (nat \<times> perdsk list) option" where
  "dsk_table cur pre dev = do {
     (i, dev) \<leftarrow> dsk_loop cur pre 0 0 dev;
     dev \<leftarrow> aupd dev i (\<lambda>d. d\<lparr>pdk_name := cclear (pdk_name d)\<rparr>);
     Some (i, dev)
   }"

definition deviat_dsk :: "dskstat \<Rightarrow> dskstat \<Rightarrow> dskstat \<Rightarrow> dskstat option" where
  "deviat_dsk cur pre dev = do {
     (i, t) \<leftarrow> dsk_table (dks_dsk cur) (dks_dsk pre) (dks_dsk dev);
     Some (dev\<lparr>dks_dsk := t, dks_ndsk := of_nat i\<rparr>)
   }"

definition deviat_mdd :: "dskstat \<Rightarrow> dskstat \<Rightarrow> dskstat \<Rightarrow> dskstat option" where
  "deviat_mdd cur pre dev = do {
     (i, t) \<leftarrow> dsk_table (dks_mdd cur) (dks_mdd pre) (dks_mdd dev);
     Some (dev\<lparr>dks_mdd := t, dks_nmdd := of_nat i\<rparr>)
   }"

definition deviat_lvm :: "dskstat \<Rightarrow> dskstat \<Rightarrow> dskstat \<Rightarrow> dskstat option" where
  "deviat_lvm cur pre dev = do {
     (i, t) \<leftarrow> dsk_table (dks_lvm cur) (dks_lvm pre) (dks_lvm dev);
     Some (dev\<lparr>dks_lvm := t, dks_nlvm := of_nat i\<rparr>)
   }"

section \<open>NFS\<close>

definition deviat_nfsserver :: "nfsserver \<Rightarrow> nfsserver \<Rightarrow> nfsserver \<Rightarrow> nfsserver" where
  "deviat_nfsserver cur pre dev = dev\<lparr>
     nsv_netcnt := subcount (nsv_netcnt cur) (nsv_netcnt pre),
     nsv_netudpcnt := subcount (nsv_netudpcnt cur) (nsv_netudpcnt pre),
     nsv_nettcpcnt := subcount (nsv_nettcpcnt cur) (nsv_nettcpcnt pre),
     nsv_nettcpcon := subcount (nsv_nettcpcon cur) (nsv_nettcpcon pre),
     nsv_rpccnt := subcount (nsv_rpccnt cur) (nsv_rpccnt pre),
     nsv_rpcread := subcount (nsv_rpcread cur) (nsv_rpcread pre),
     nsv_rpcwrite := subcount (nsv_rpcwrite cur) (nsv_rpcwrite pre),
     nsv_rpcbadfmt := subcount (nsv_rpcbadfmt cur) (nsv_rpcbadfmt pre),
     nsv_rpcbadaut := subcount (nsv_rpcbadaut cur) (nsv_rpcbadaut pre),
     nsv_rpcbadcln := subcount (nsv_rpcbadcln cur) (nsv_rpcbadcln pre),
     nsv_rchits := subcount (nsv_rchits cur) (nsv_rchits pre),
     nsv_rcmiss := subcount (nsv_rcmiss cur) (nsv_rcmiss pre),
     nsv_rcnoca := subcount (nsv_rcnoca cur) (nsv_rcnoca pre),
     nsv_nrbytes := subcount (nsv_nrbytes cur) (nsv_nrbytes pre),
     nsv_nwbytes := subcount (nsv_nwbytes cur) (nsv_nwbytes pre)\<rparr>"

definition deviat_nfsclient :: "nfsclient \<Rightarrow> nfsclient \<Rightarrow> nfsclient \<Rightarrow> nfsclient" where
  "deviat_nfsclient cur pre dev = dev\<lparr>
     ncl_rpccnt := subcount (ncl_rpccnt cur) (ncl_rpccnt pre),
     ncl_rpcread := subcount (ncl_rpcread cur) (ncl_rpcread pre),
     ncl_rpcwrite := subcount (ncl_rpcwrite cur) (ncl_rpcwrite pre),
     ncl_rpcretrans := subcount (ncl_rpcretrans cur) (ncl_rpcretrans pre),
     ncl_rpcautrefresh := subcount (ncl_rpcautrefresh cur) (ncl_rpcautrefresh pre)\<rparr>"

definition nfsmnt_diff :: "pernfsmount \<Rightarrow> pernfsmount \<Rightarrow> pernfsmount \<Rightarrow> pernfsmount" where
  "nfsmnt_diff cur pre dev = dev\<lparr>
     nmt_mountdev := strcpy (nmt_mountdev dev) (nmt_mountdev cur),
     nmt_age := nmt_age cur,
     nmt_bytesread := subcount (nmt_bytesread cur) (nmt_bytesread pre),
     nmt_byteswrite := subcount (nmt_byteswrite cur) (nmt_byteswrite pre),
     nmt_bytesdread := subcount (nmt_bytesdread cur) (nmt_bytesdread pre),
     nmt_bytesdwrite := subcount (nmt_bytesdwrite cur) (nmt_bytesdwrite pre),
     nmt_bytestotread := subcount (nmt_bytestotread cur) (nmt_bytestotread pre),
     nmt_bytestotwrite := subcount (nmt_bytestotwrite cur) (nmt_bytestotwrite pre),
     nmt_pagesmread := subcount (nmt_pagesmread cur) (nmt_pagesmread pre),
     nmt_pagesmwrite := subcount (nmt_pagesmwrite cur) (nmt_pagesmwrite pre)\<rparr>"

text \<open>A search among the first \<open>n\<close> entries; \<open>n\<close> itself if there is none.\<close>

fun scan_first :: "('a \<Rightarrow> bool) \<Rightarrow> 'a list \<Rightarrow> nat \<Rightarrow> nat \<Rightarrow> nat option" where
  "scan_first P ps j 0 = Some j"
| "scan_first P [] j (Suc n) = None"
| "scan_first P (p # ps) j (Suc n) = (if P p then Some j else scan_first P ps (j + 1) n)"

text \<open>A mount younger than the interval clears the entry of the previous sample first.\<close>

fun nfsmnt_loop :: "i64 \<Rightarrow> pernfsmount list \<Rightarrow> nat \<Rightarrow> nat list \<Rightarrow> nat \<Rightarrow> pernfsmount list \<times> pernfsmount list \<Rightarrow>
    (pernfsmount list \<times> pernfsmount list) option" where
  "nfsmnt_loop interval cur npre [] j (pre, dev) = Some (pre, dev)"
| "nfsmnt_loop interval cur npre (i # is) j (pre, dev) = do {
     c \<leftarrow> aget cur i;
     p \<leftarrow> aget pre j;
     j \<leftarrow> (if streq (nmt_mountdev c) (nmt_mountdev p) then Some j
           else scan_first (\<lambda>p. streq (nmt_mountdev c) (nmt_mountdev p)) pre 0 npre);
     pre \<leftarrow> (if nmt_age c \<le>s interval then aupd pre j (\<lambda>_. pernfsmount0) else Some pre);
     p \<leftarrow> aget pre j;
     dev \<leftarrow> aupd dev i (nfsmnt_diff c p);
     nfsmnt_loop interval cur npre is (j + 1) (pre, dev)
   }"

definition deviat_nfs :: "i64 \<Rightarrow> nfsstat \<Rightarrow> nfsstat \<Rightarrow> nfsstat \<Rightarrow> (nfsstat \<times> nfsstat) option" where
  "deviat_nfs interval cur pre dev = do {
     let dev = dev\<lparr>
       nfs_server := deviat_nfsserver (nfs_server cur) (nfs_server pre) (nfs_server dev),
       nfs_client := deviat_nfsclient (nfs_client cur) (nfs_client pre) (nfs_client dev)\<rparr>;
     (ps, ds) \<leftarrow> nfsmnt_loop interval (nmts_nfsmnt (nfs_nfsmounts cur))
                    (nat (sint (nmts_nrmounts (nfs_nfsmounts pre))))
                    [0..<nat (sint (nmts_nrmounts (nfs_nfsmounts cur)))] 0
                    (nmts_nfsmnt (nfs_nfsmounts pre), nmts_nfsmnt (nfs_nfsmounts dev));
     Some (pre\<lparr>nfs_nfsmounts := (nfs_nfsmounts pre)\<lparr>nmts_nfsmnt := ps\<rparr>\<rparr>,
           dev\<lparr>nfs_nfsmounts := (nfs_nfsmounts dev)\<lparr>nmts_nfsmnt := ds,
             nmts_nrmounts := nmts_nrmounts (nfs_nfsmounts cur)\<rparr>\<rparr>)
   }"

section \<open>Containers\<close>

definition cont_diff :: "percontainer \<Rightarrow> percontainer \<Rightarrow> percontainer \<Rightarrow> percontainer" where
  "cont_diff cur pre dev = dev\<lparr>
     ctr_ctid := ctr_ctid cur,
     ctr_numproc := ctr_numproc cur,
     ctr_system := subcount (ctr_system cur) (ctr_system pre),
     ctr_user := subcount (ctr_user cur) (ctr_user pre),
     ctr_nice := subcount (ctr_nice cur) (ctr_nice pre),
     ctr_uptime := subcount (ctr_uptime cur) (ctr_uptime pre),
     ctr_physpages := ctr_physpages cur\<rparr>"

text \<open>The loop searches the position \<open>j\<close> of the container, but subtracts the entry at \<open>i\<close>.\<close>

fun cont_loop :: "percontainer list \<Rightarrow> percontainer list \<Rightarrow> nat \<Rightarrow> nat list \<Rightarrow> nat \<Rightarrow> percontainer list \<Rightarrow>
    percontainer list option" where
  "cont_loop cur pre npre [] j dev = Some dev"
| "cont_loop cur pre npre (i # is) j dev = do {
     c \<leftarrow> aget cur i;
     p \<leftarrow> aget pre j;
     j \<leftarrow> (if ctr_ctid c = ctr_ctid p then Some j
           else scan_first (\<lambda>p. ctr_ctid c = ctr_ctid p) pre 0 npre);
     p \<leftarrow> aget pre i;
     dev \<leftarrow> aupd dev i (cont_diff c p);
     cont_loop cur pre npre is (j + 1) dev
   }"

definition deviat_cont :: "contstat \<Rightarrow> contstat \<Rightarrow> contstat \<Rightarrow> contstat option" where
  "deviat_cont cur pre dev = do {
     ds \<leftarrow> cont_loop (cts_cont cur) (cts_cont pre) (nat (sint (cts_nrcontainer pre)))
             [0..<nat (sint (cts_nrcontainer cur))] 0 (cts_cont dev);
     Some (dev\<lparr>cts_cont := ds, cts_nrcontainer := cts_nrcontainer cur\<rparr>)
   }"

section \<open>deviatsyst\<close>

text \<open>
  The whole function, without the experimental counters of HTTP daemons that are not compiled.
  \<open>lines\<close> and \<open>k\<close> are what \<open>initifprop\<close> gets from the kernel, \<open>droprootprivs\<close> the result of \<open>droprootprivs\<close>; the
  exit code 42 is that of \<open>cleanstop\<close>.  The result holds the table of interface properties and
  the present, previous and deviation structures.
\<close>

definition deviatsyst :: "ifkernel \<Rightarrow> string list option \<Rightarrow> bool \<Rightarrow> ifprop \<Rightarrow> ifprop list \<Rightarrow>
    sstat \<Rightarrow> sstat \<Rightarrow> sstat \<Rightarrow> i64 \<Rightarrow> (int + ifprop list \<times> sstat \<times> sstat \<times> sstat) option" where
  "deviatsyst k lines droprootprivs junk ifprops cur pre dev interval = do {
     cpu \<leftarrow> deviat_cpu (ss_cpu cur) (ss_cpu pre) (ss_cpu dev);
     let dev = dev\<lparr>ss_cpu := cpu, ss_mem := deviat_mem (ss_mem cur) (ss_mem pre) (ss_mem dev),
                   ss_net := deviat_net (ss_net cur) (ss_net pre) (ss_net dev)\<rparr>;
     ifprops \<leftarrow> initifprop k lines ifprops;
     if \<not> droprootprivs then Some (Inl 42)
     else do {
       (ci, pi, di) \<leftarrow> deviat_intf ifprops junk (ss_intf cur) (ss_intf pre) (ss_intf dev);
       dsk \<leftarrow> deviat_dsk (ss_dsk cur) (ss_dsk pre) (ss_dsk dev);
       dsk \<leftarrow> deviat_mdd (ss_dsk cur) (ss_dsk pre) dsk;
       dsk \<leftarrow> deviat_lvm (ss_dsk cur) (ss_dsk pre) dsk;
       (pn, dn) \<leftarrow> deviat_nfs interval (ss_nfs cur) (ss_nfs pre) (ss_nfs dev);
       cfs \<leftarrow> deviat_cont (ss_cfs cur) (ss_cfs pre) (ss_cfs dev);
       Some (Inr (ifprops, cur\<lparr>ss_intf := ci\<rparr>, pre\<lparr>ss_intf := pi, ss_nfs := pn\<rparr>,
         dev\<lparr>ss_intf := di, ss_dsk := dsk, ss_nfs := dn, ss_cfs := cfs\<rparr>))
     }
   }"

text \<open>The cpu time all processors consumed together, the first statement of \<open>deviattask\<close>.\<close>

definition totusedcpu :: "sstat \<Rightarrow> count_t" where
  "totusedcpu devsstat = (let all = cst_all (ss_cpu devsstat) in
     pcp_stime all + pcp_utime all + pcp_ntime all + pcp_itime all +
     pcp_wtime all + pcp_Itime all + pcp_Stime all + pcp_steal all)"

end
