(* ===== verification/Device_Match.thy ===== *)
theory Device_Match
  imports Deviate_Syst "HOL-Library.Sublist"
begin

text \<open>
  How \<open>deviatsyst\<close> matches the devices of two samples.  A device table is an array whose entries up
  to the first one with an empty name are in use.
\<close>

section \<open>Name-terminated tables\<close>

definition in_use :: "('a \<Rightarrow> chars) \<Rightarrow> 'a list \<Rightarrow> bool" where
  "in_use nm xs \<longleftrightarrow> (\<forall>x\<in>set xs. cnonempty (nm x))"

abbreviation same_name :: "('a \<Rightarrow> chars) \<Rightarrow> 'a \<Rightarrow> 'a \<Rightarrow> bool" where
  "same_name nm x y \<equiv> streq (nm x) (nm y)"

abbreviation names :: "('a \<Rightarrow> chars) \<Rightarrow> 'a list \<Rightarrow> string list" where
  "names nm xs \<equiv> map (\<lambda>x. cstr (nm x)) xs"

lemma in_use_simps [simp]:
  "in_use nm []" "in_use nm (x # xs) \<longleftrightarrow> cnonempty (nm x) \<and> in_use nm xs"
  "in_use nm (xs @ ys) \<longleftrightarrow> in_use nm xs \<and> in_use nm ys"
  by (auto simp: in_use_def)

lemma cnonempty_not_streq: "cnonempty a \<Longrightarrow> \<not> cnonempty b \<Longrightarrow> \<not> streq a b"
  by (auto simp: cnonempty_def streq_def)

text \<open>A search passes the entries in use with other names and stops.\<close>

lemma find_name_skip:
  "in_use nm ps \<Longrightarrow> (\<forall>p\<in>set ps. \<not> streq name (nm p)) \<Longrightarrow>
   \<not> cnonempty (nm q) \<or> streq name (nm q) \<Longrightarrow>
   find_name nm name (ps @ q # qs) j = Some (j + length ps)"
  by (induction ps arbitrary: j) auto

lemma find_name_by_name:
  assumes "in_use nm ps" and "\<not> cnonempty (nm z)" and "cnonempty name"
  shows "\<exists>k. find_name nm name (ps @ z # rest) 0 = Some k \<and> k \<le> length ps \<and>
    (ps @ z # rest) ! k = (case List.find (\<lambda>p. streq name (nm p)) ps of None \<Rightarrow> z | Some p \<Rightarrow> p) \<and>
    (k = length ps \<longleftrightarrow> List.find (\<lambda>p. streq name (nm p)) ps = None)"
proof (cases "List.find (\<lambda>p. streq name (nm p)) ps")
  case None
  then have "\<forall>p\<in>set ps. \<not> streq name (nm p)" by (auto simp: find_None_iff)
  with None show ?thesis
    using find_name_skip [of nm ps name z rest 0] assms by simp
next
  case (Some p)
  then obtain k where k: "k < length ps" "streq name (nm (ps ! k))" "p = ps ! k"
    "\<forall>i<k. \<not> streq name (nm (ps ! i))"
    by (auto simp: find_Some_iff)
  have "ps = take k ps @ ps ! k # drop (Suc k) ps" using k(1) by (rule id_take_nth_drop)
  moreover have "in_use nm (take k ps)" using assms(1) by (auto simp: in_use_def dest: in_set_takeD)
  moreover have "\<forall>q\<in>set (take k ps). \<not> streq name (nm q)"
    using k(1,4) by (auto simp: in_set_conv_nth)
  ultimately have "find_name nm name (ps @ z # rest) 0 = Some k"
    using find_name_skip [of nm "take k ps" name "ps ! k" "drop (Suc k) ps @ z # rest" 0] k(1,2)
    by (metis add_0 append.assoc append_Cons length_take min.absorb4)
  with k Some show ?thesis by (auto simp: nth_append)
qed

lemma find_by_distinct:
  assumes "distinct (names nm ps)" and "p \<in> set ps" and "streq name (nm p)"
  shows "List.find (\<lambda>p. streq name (nm p)) ps = Some p"
proof (cases "List.find (\<lambda>p. streq name (nm p)) ps")
  case None
  with assms(2,3) show ?thesis by (auto simp: find_None_iff)
next
  case (Some q)
  then have "q \<in> set ps" "streq name (nm q)" by (auto simp: find_Some_iff)
  with assms have "q = p" by (auto simp: streq_def distinct_map inj_on_def)
  with Some show ?thesis by simp
qed

section \<open>Interfaces\<close>

text \<open>The deviation of an interface, and its entry in the present sample afterwards.\<close>

definition intf_dev :: "perintf list \<Rightarrow> perintf \<Rightarrow> perintf \<Rightarrow> perintf" where
  "intf_dev ps c d =
     (case List.find (same_name pif_name c) ps of None \<Rightarrow> c | Some p \<Rightarrow> intf_diff c p d)"

definition intf_cur :: "perintf list \<Rightarrow> perintf \<Rightarrow> perintf" where
  "intf_cur ps c =
     (case List.find (same_name pif_name c) ps of None \<Rightarrow> c | Some p \<Rightarrow> c\<lparr>pif_speedp := pif_speed p\<rparr>)"

text \<open>Where the search ends, whichever entry \<open>j\<close> is tried first.\<close>

lemma resync_by_name:
  assumes ps: "in_use nm ps" "distinct (names nm ps)" "\<not> cnonempty (nm z)"
    and c: "cnonempty (nm c)" and j: "j \<le> length ps"
  shows "\<exists>k. (if same_name nm c ((ps @ z # rest) ! j) then Some j
              else find_name nm (nm c) (ps @ z # rest) 0) = Some k \<and> k \<le> length ps \<and>
    (ps @ z # rest) ! k = (case List.find (same_name nm c) ps of None \<Rightarrow> z | Some p \<Rightarrow> p) \<and>
    (k = length ps \<longleftrightarrow> List.find (same_name nm c) ps = None)"
proof (cases "same_name nm c ((ps @ z # rest) ! j)")
  case True
  have "cnonempty (nm ((ps @ z # rest) ! j))" using True c cnonempty_streq by blast
  then have lt: "j < length ps" using j ps(3) by (cases "j = length ps") (auto simp: nth_append)
  with True have "List.find (same_name nm c) ps = Some (ps ! j)"
    by (intro find_by_distinct [OF ps(2)]) (auto simp: nth_append)
  with True lt show ?thesis by (auto simp: nth_append)
next
  case False
  then show ?thesis using find_name_by_name [OF ps(1,3) c] by simp
qed

lemma intf_loop_step:
  assumes "cnonempty (pif_name c)" and "aget pre j = Some p" and "i < length dev"
    and "(if same_name pif_name c p then Some j else find_name pif_name (pif_name c) pre 0) = Some k"
    and "aget pre k = Some q"
  shows "intf_loop (c # cs) pre i j dev =
    (if \<not> same_name pif_name c q
     then map_option (\<lambda>(n, cs, dev). (n, c # cs, dev)) (intf_loop cs pre (i + 1) 1 (dev[i := c]))
     else map_option (\<lambda>(n, cs, dev). (n, c\<lparr>pif_speedp := pif_speed q\<rparr> # cs, dev))
            (intf_loop cs pre (i + 1) (k + 1) (dev[i := intf_diff c q (dev ! i)])))"
proof -
  have "Option.bind m (\<lambda>(n, cs, dev). Some (f n cs dev)) = map_option (\<lambda>(n, cs, dev). f n cs dev) m"
    for m :: "(nat \<times> perintf list \<times> perintf list) option" and f :: "nat \<Rightarrow> perintf list \<Rightarrow> perintf list \<Rightarrow> nat \<times> perintf list \<times> perintf list"
    by (cases m) auto
  with assms show ?thesis by simp
qed

lemma map2_update:
  "i < length dev \<Longrightarrow>
   take (i + 1) (dev[i := f c (dev ! i)]) @ map2 f cs (drop (i + 1) (dev[i := f c (dev ! i)])) @
     drop (i + 1 + length cs) (dev[i := f c (dev ! i)]) =
   take i dev @ map2 f (c # cs) (drop i dev) @ drop (i + length (c # cs)) dev"
  by (simp add: take_Suc_conv_app_nth Cons_nth_drop_Suc [symmetric])

lemma intf_loop_by_name:
  assumes ps: "in_use pif_name ps" "distinct (names pif_name ps)" "ps \<noteq> []" "\<not> cnonempty (pif_name z)"
    and cs: "in_use pif_name cs" "\<not> cnonempty (pif_name z')"
    and len: "i + length cs \<le> length dev" and j: "j \<le> length ps"
  shows "intf_loop (cs @ z' # rest') (ps @ z # rest) i j dev =
    Some (i + length cs, map (intf_cur ps) cs @ z' # rest',
          take i dev @ map2 (intf_dev ps) cs (drop i dev) @ drop (i + length cs) dev)"
  using cs(1) len j
proof (induction cs arbitrary: i j dev)
  case Nil
  then show ?case using cs(2) by simp
next
  case (Cons c cs)
  let ?pre = "ps @ z # rest" and ?f = "List.find (same_name pif_name c) ps"
  have i: "i < length dev" and c: "cnonempty (pif_name c)" "in_use pif_name cs" using Cons.prems by auto
  obtain k where k: "(if same_name pif_name c (?pre ! j) then Some j
      else find_name pif_name (pif_name c) ?pre 0) = Some k" "k \<le> length ps"
    "?pre ! k = (case ?f of None \<Rightarrow> z | Some p \<Rightarrow> p)" "k = length ps \<longleftrightarrow> ?f = None"
    using resync_by_name [OF ps(1,2,4) c(1) Cons.prems(3)] by blast
  have ag: "aget ?pre j = Some (?pre ! j)" "aget ?pre k = Some (?pre ! k)"
    using Cons.prems(3) k(2) by auto
  note step = intf_loop_step [OF c(1) ag(1) i k(1) ag(2)]
  have IH: "intf_loop (cs @ z' # rest') ?pre (i + 1) j' (dev[i := intf_dev ps c (dev ! i)]) =
      Some (i + length (c # cs), map (intf_cur ps) cs @ z' # rest',
        take i dev @ map2 (intf_dev ps) (c # cs) (drop i dev) @ drop (i + length (c # cs)) dev)"
    if "j' \<le> length ps" for j'
    using Cons.IH [of "i + 1" "dev[i := intf_dev ps c (dev ! i)]" j'] Cons.prems(2) c(2) that
    unfolding map2_update [OF i] by simp
  show ?case
  proof (cases ?f)
    case None
    have "\<not> same_name pif_name c z" using c(1) ps(4) cnonempty_not_streq by auto
    moreover have "1 \<le> length ps" using ps(3) by (cases ps) auto
    ultimately show ?thesis
      using None k(3) step IH [of 1] by (simp add: intf_dev_def [of ps c] intf_cur_def [of ps c])
  next
    case (Some p)
    then have "k + 1 \<le> length ps" using k(2,4) by simp
    moreover have "same_name pif_name c p" using Some by (auto simp: find_Some_iff)
    ultimately show ?thesis
      using Some k(3) step IH [of "k + 1"] by (simp add: intf_dev_def [of ps c] intf_cur_def [of ps c])
  qed
qed

text \<open>The properties an interface gets from the table.\<close>

definition with_props :: "ifprop list \<Rightarrow> perintf \<Rightarrow> perintf" where
  "with_props ifprops c =
     (case List.find (\<lambda>p. streq (pif_name c) (ifp_name p)) (takeWhile (\<lambda>p. cnonempty (ifp_name p)) ifprops) of
        None \<Rightarrow> c\<lparr>pif_type := CHR ''?'', pif_speed := 0, pif_speedp := 0, pif_duplex := 0\<rparr>
      | Some p \<Rightarrow> c\<lparr>pif_type := ifp_type p, pif_speed := ifp_speed p, pif_speedp := ifp_speed p,
                       pif_duplex := ifp_fullduplex p\<rparr>)"

lemma with_props_name [simp]: "pif_name (with_props ifprops c) = pif_name c"
  by (simp add: with_props_def split: option.split)

lemma getifprop_find:
  "\<exists>p\<in>set ps. \<not> cnonempty (ifp_name p) \<Longrightarrow>
   getifprop ps ifp = Some (case List.find (\<lambda>p. streq (ifp_name ifp) (ifp_name p)) (takeWhile (\<lambda>p. cnonempty (ifp_name p)) ps) of
     None \<Rightarrow> (ifp\<lparr>ifp_type := CHR ''?'', ifp_speed := 0, ifp_fullduplex := 0\<rparr>, False)
   | Some p \<Rightarrow> (p, True))"
  unfolding getifprop_def by (induction ps) auto

lemma intf_props_all:
  assumes "\<exists>p\<in>set ifprops. \<not> cnonempty (ifp_name p)" and "in_use pif_name cs" and "\<not> cnonempty (pif_name z)"
  shows "intf_props ifprops ifp (cs @ z # rest) = Some (map (with_props ifprops) cs @ z # rest)"
  using assms(2)
proof (induction cs arbitrary: ifp)
  case Nil
  then show ?case using assms(3) by simp
next
  case (Cons c cs)
  let ?q = "ifp\<lparr>ifp_name := strcpy (ifp_name ifp) (pif_name c)\<rparr>"
  have "streq (ifp_name ?q) x = streq (pif_name c) x" for x by (simp add: streq_def)
  then show ?case
    using Cons getifprop_find [OF assms(1), of ?q]
    by (simp add: with_props_def split: option.split)
qed

section \<open>Disks\<close>

text \<open>The deviation of a disk that is known by name.\<close>

definition dsk_dev :: "perdsk list \<Rightarrow> perdsk \<Rightarrow> perdsk \<Rightarrow> perdsk" where
  "dsk_dev ps c d = (case List.find (same_name pdk_name c) ps of None \<Rightarrow> d | Some p \<Rightarrow> dsk_diff c p d)"

lemma dsk_loop_step:
  assumes "cnonempty (pdk_name c)" and "pre = us @ as @ q # bs" and "j = length us" and "i < length dev"
    and "in_use pdk_name as" and "\<forall>p\<in>set as. \<not> same_name pdk_name c p"
    and "as = [] \<longrightarrow> same_name pdk_name c q"
    and "\<not> cnonempty (pdk_name q) \<or> same_name pdk_name c q"
  shows "dsk_loop (c # cs) pre i j dev =
    dsk_loop cs pre (i + 1) (j + length as + 1) (dev[i := dsk_diff c q (dev ! i)])"
proof (cases as)
  case Nil
  with assms show ?thesis by (simp add: nth_append)
next
  case (Cons a as')
  have "find_name pdk_name (pdk_name c) (drop (j + 1) pre) (j + 1) = Some (j + 1 + length as')"
    using find_name_skip [of pdk_name as' "pdk_name c" q bs "j + 1"] assms Cons by simp
  moreover have "pre ! j = a" "pre ! (j + 1 + length as') = q" "j + 1 + length as' < length pre"
    using assms(2,3) Cons by (simp_all add: nth_append)
  ultimately show ?thesis using assms Cons by simp
qed

lemma subseq_map_ConsE:
  assumes "subseq (x # xs) (map f ps)"
  obtains as p bs where "ps = as @ p # bs" "f p = x" "subseq xs (map f bs)"
proof -
  from list_emb_ConsD [OF assms] obtain us vs where "map f ps = us @ x # vs" "subseq xs vs" by blast
  moreover from this obtain as p bs where "ps = as @ p # bs" "f p = x" "map f bs = vs"
    by (auto simp: map_eq_append_conv map_eq_Cons_conv)
  ultimately show thesis using that by blast
qed

text \<open>Devices that only disappeared are matched by name.\<close>

lemma dsk_loop_removed:
  assumes ps: "in_use pdk_name (us @ ps)" "distinct (names pdk_name (us @ ps))" "pre = us @ ps @ rest"
    and cs: "in_use pdk_name cs" "subseq (names pdk_name cs) (names pdk_name ps)"
      "\<not> cnonempty (pdk_name z)"
    and len: "i + length cs \<le> length dev"
  shows "dsk_loop (cs @ z # rest') pre i (length us) dev =
    Some (i + length cs, take i dev @ map2 (dsk_dev (us @ ps)) cs (drop i dev) @ drop (i + length cs) dev)"
  using ps cs(1,2) len
proof (induction cs arbitrary: us ps i dev)
  case Nil
  then show ?case using cs(3) by simp
next
  case (Cons c cs)
  have i: "i < length dev" and c: "cnonempty (pdk_name c)" "in_use pdk_name cs" using Cons.prems by auto
  obtain as p bs where p: "ps = as @ p # bs" "cstr (pdk_name p) = cstr (pdk_name c)"
    "subseq (names pdk_name cs) (names pdk_name bs)"
    using Cons.prems(5) by (auto elim: subseq_map_ConsE)
  have nm: "same_name pdk_name c p" using p(2) by (simp add: streq_def)
  have other: "\<forall>a\<in>set as. \<not> same_name pdk_name c a"
    using Cons.prems(2) p(1,2) by (auto simp: streq_def)
  have "List.find (same_name pdk_name c) (us @ ps) = Some p"
    using find_by_distinct [OF Cons.prems(2), of p "pdk_name c"] nm p(1) by simp
  then have dv: "dsk_dev (us @ ps) c d = dsk_diff c p d" for d by (simp add: dsk_dev_def)
  have "dsk_loop (c # cs @ z # rest') pre i (length us) dev =
      dsk_loop (cs @ z # rest') pre (i + 1) (length (us @ as @ [p])) (dev[i := dsk_dev (us @ ps) c (dev ! i)])"
    unfolding dv
    using dsk_loop_step [OF c(1), of pre us as p "bs @ rest" "length us" i dev "cs @ z # rest'"]
      Cons.prems(1,3) p(1) i other nm by (simp del: dsk_loop.simps)
  also have "\<dots> = Some (i + 1 + length cs,
      take (i + 1) (dev[i := dsk_dev (us @ ps) c (dev ! i)]) @
      map2 (dsk_dev (us @ ps)) cs (drop (i + 1) (dev[i := dsk_dev (us @ ps) c (dev ! i)])) @
      drop (i + 1 + length cs) (dev[i := dsk_dev (us @ ps) c (dev ! i)]))"
    using Cons.IH [of "us @ as @ [p]" bs "i + 1" "dev[i := dsk_dev (us @ ps) c (dev ! i)]"]
      Cons.prems(1-3,6) c(2) p(1,3) by simp
  finally show ?case unfolding map2_update [OF i] by simp
qed

text \<open>Behind the terminator every entry is empty: nothing is matched any more.\<close>

lemma dsk_loop_beyond:
  assumes "in_use pdk_name cs" and "\<not> cnonempty (pdk_name z)" and "i + length cs \<le> length dev"
    and "pre = us @ replicate m perdsk0" and "j = length us" and "2 * length cs \<le> m"
  shows "dsk_loop (cs @ z # rest') pre i j dev =
    Some (i + length cs, take i dev @ map2 (\<lambda>c d. dsk_diff c perdsk0 d) cs (drop i dev) @ drop (i + length cs) dev)"
  using assms(1,3-6)
proof (induction cs arbitrary: us m i j dev)
  case Nil
  then show ?case using assms(2) by simp
next
  case (Cons c cs)
  have i: "i < length dev" and c: "cnonempty (pdk_name c)" "in_use pdk_name cs" using Cons.prems by auto
  obtain m' where m: "m = Suc (Suc m')" "2 * length cs \<le> m'" using Cons.prems(5) by (cases m; cases "m - 1") auto
  have e: "\<not> cnonempty (pdk_name perdsk0)" by (simp add: perdsk0_def cnonempty_def)
  then have ne: "\<not> same_name pdk_name c perdsk0" using c(1) cnonempty_not_streq by blast
  have "drop (Suc j) pre = perdsk0 # replicate m' perdsk0" using Cons.prems(3,4) m(1) by simp
  moreover have "pre ! j = perdsk0" "pre ! Suc j = perdsk0" "Suc j < length pre"
    using Cons.prems(3,4) m(1) by (simp_all add: nth_append nth_Cons')
  ultimately have "dsk_loop (c # cs @ z # rest') pre i j dev =
      dsk_loop (cs @ z # rest') pre (i + 1) (j + 2) (dev[i := dsk_diff c perdsk0 (dev ! i)])"
    using c(1) i e ne by simp
  moreover have "pre = (us @ [perdsk0, perdsk0]) @ replicate m' perdsk0" using Cons.prems(3) m(1) by simp
  ultimately show ?case
    using Cons.IH [of "i + 1" "dev[i := dsk_diff c perdsk0 (dev ! i)]" "us @ [perdsk0, perdsk0]" m' "j + 2"]
      Cons.prems(2,4) c(2) m(2) map2_update [OF i, of "\<lambda>c d. dsk_diff c perdsk0 d" c cs] by simp
qed

section \<open>Containers\<close>

lemma cont_loop_position:
  assumes "cont_loop cur pre npre is j dev = Some dev'" and "distinct is"
  shows "length dev' = length dev \<and>
    (\<forall>i. dev' ! i = (if i \<in> set is then cont_diff (cur ! i) (pre ! i) (dev ! i) else dev ! i))"
  using assms
proof (induction "is" arbitrary: j dev)
  case (Cons i "is")
  then obtain j' where i: "i < length dev" "i < length cur" "i < length pre"
    and rec: "cont_loop cur pre npre is j' (dev[i := cont_diff (cur ! i) (pre ! i) (dev ! i)]) = Some dev'"
    by (auto simp: bind_eq_Some_conv aupd_Some_iff)
  with Cons show ?case by (auto simp: nth_list_update)
qed simp

lemma deviat_intf_entries:
  assumes "ifs_intf cur = cs @ z' # rest'" and "in_use pif_name cs" and "\<not> cnonempty (pif_name z')"
    and "ifs_intf pre = ps @ z # rest" and "in_use pif_name ps" and "distinct (names pif_name ps)"
    and "ps \<noteq> []" and "\<not> cnonempty (pif_name z)" and "length cs < length (ifs_intf dev)"
    and "\<exists>p\<in>set ifprops. \<not> cnonempty (ifp_name p)"
  shows "\<exists>cur' dev'. deviat_intf ifprops junk cur pre dev = Some (cur', pre, dev') \<and>
    ifs_nrintf dev' = of_nat (length cs) \<and> \<not> cnonempty (pif_name (ifs_intf dev' ! length cs)) \<and>
    (\<forall>i < length cs. ifs_intf dev' ! i =
       (let c = with_props ifprops (cs ! i) in
        case List.find (same_name pif_name c) ps of
          None \<Rightarrow> c | Some p \<Rightarrow> intf_diff c p (ifs_intf dev ! i)))"
proof -
  let ?cs = "map (with_props ifprops) cs" and ?n = "length cs" and ?dev = "ifs_intf dev"
  have use: "in_use pif_name ?cs" using assms(2) by (auto simp: in_use_def)
  have p0: "aget (ps @ z # rest) 0 = Some (hd ps)" "cnonempty (pif_name (hd ps))"
    using assms(5,7) by (cases ps; simp)+
  have "intf_loop (?cs @ z' # rest') (ps @ z # rest) 0 0 ?dev =
      Some (?n, map (intf_cur ps) ?cs @ z' # rest', map2 (intf_dev ps) ?cs ?dev @ drop ?n ?dev)"
    using intf_loop_by_name [OF assms(5-8) use assms(3), of 0 ?dev 0 rest' rest] assms(9) by simp
  then have "deviat_intf ifprops junk cur pre dev =
      Some (cur\<lparr>ifs_intf := map (intf_cur ps) ?cs @ z' # rest'\<rparr>, pre,
        dev\<lparr>ifs_intf := (map2 (intf_dev ps) ?cs ?dev @ drop ?n ?dev)[?n :=
              (?dev ! ?n)\<lparr>pif_name := cclear (pif_name (?dev ! ?n))\<rparr>], ifs_nrintf := of_nat ?n\<rparr>)"
    using assms(1,4,9) p0 intf_props_all [OF assms(10,2,3)]
    by (simp add: deviat_intf_def nth_append min_def)
  then show ?thesis
    using assms(9) by (auto simp: nth_append nth_list_update intf_dev_def Let_def)
qed

section \<open>Properties\<close>

text \<open>
  Interfaces are matched by name.  However interfaces were added, removed or reordered since
  the previous sample, every interface of the present one gets the properties the table has for
  its name and the difference with the entry of the same name; one that was not there before
  keeps its absolute counters.  The deviation table is terminated behind the last interface.
\<close>

theorem deviat_intf_by_name:
  assumes "ifs_intf cur = cs @ z' # rest'" and "in_use pif_name cs" and "\<not> cnonempty (pif_name z')"
    and "ifs_intf pre = ps @ z # rest" and "in_use pif_name ps" and "distinct (names pif_name ps)"
    and "ps \<noteq> []" and "\<not> cnonempty (pif_name z)" and "length cs < length (ifs_intf dev)"
    and "\<exists>p\<in>set ifprops. \<not> cnonempty (ifp_name p)"
  shows "\<exists>cur' dev'. deviat_intf ifprops junk cur pre dev = Some (cur', pre, dev') \<and>
    ifs_nrintf dev' = of_nat (length cs) \<and> \<not> cnonempty (pif_name (ifs_intf dev' ! length cs)) \<and>
    (\<forall>i < length cs. ifs_intf dev' ! i =
       (let c = with_props ifprops (cs ! i) in
        case List.find (same_name pif_name c) ps of
          None \<Rightarrow> c | Some p \<Rightarrow> intf_diff c p (ifs_intf dev ! i)))"
  using assms by (rule deviat_intf_entries)

definition ex_intf :: "string \<Rightarrow> count_t \<Rightarrow> perintf" where
  "ex_intf n bytes = perintf0\<lparr>pif_name := strcpy (replicate 16 NUL) n, pif_rbyte := bytes\<rparr>"

definition ex_dsk :: "string \<Rightarrow> count_t \<Rightarrow> perdsk" where
  "ex_dsk n reads = perdsk0\<lparr>pdk_name := strcpy (replicate 32 NUL) n, pdk_nread := reads\<rparr>"

lemma ex_names [simp]:
  "cstr (pif_name (ex_intf n b)) = cstr n" "cstr (pdk_name (ex_dsk n r)) = cstr n"
  "pif_rbyte (ex_intf n b) = b" "pdk_nread (ex_dsk n r) = r"
  "cstr (pif_name perintf0) = []" "cstr (pdk_name perdsk0) = []" "pdk_nread perdsk0 = 0"
  by (simp_all add: ex_intf_def ex_dsk_def perintf0_def perdsk0_def)

theorem deviat_intf_by_name_witness:
  "\<exists>cur' pre dev'. deviat_intf [ifprop0] ifprop0
     \<lparr>ifs_nrintf = 2, ifs_intf = [ex_intf ''wlan0'' 9, ex_intf ''lo'' 50, perintf0]\<rparr>
     \<lparr>ifs_nrintf = 2, ifs_intf = [ex_intf ''eth0'' 7, ex_intf ''lo'' 20, perintf0]\<rparr>
     \<lparr>ifs_nrintf = 0, ifs_intf = replicate 3 perintf0\<rparr> = Some (cur', pre, dev') \<and>
     pif_rbyte (ifs_intf dev' ! 0) = 9 \<and> pif_rbyte (ifs_intf dev' ! 1) = 30"
proof -
  let ?cur = "\<lparr>ifs_nrintf = 2, ifs_intf = [ex_intf ''wlan0'' 9, ex_intf ''lo'' 50, perintf0]\<rparr>"
  let ?pre = "\<lparr>ifs_nrintf = 2, ifs_intf = [ex_intf ''eth0'' 7, ex_intf ''lo'' 20, perintf0]\<rparr>"
  let ?dev = "\<lparr>ifs_nrintf = 0, ifs_intf = replicate 3 perintf0\<rparr>"
  let ?cs = "[ex_intf ''wlan0'' 9, ex_intf ''lo'' 50]" and ?ps = "[ex_intf ''eth0'' 7, ex_intf ''lo'' 20]"
  have b: "pif_rbyte (with_props [ifprop0] c) = pif_rbyte c" for c
    by (simp add: with_props_def split: option.split)
  obtain cur' dev' where d: "deviat_intf [ifprop0] ifprop0 ?cur ?pre ?dev = Some (cur', ?pre, dev')"
    "\<forall>i < length ?cs. ifs_intf dev' ! i = (let c = with_props [ifprop0] (?cs ! i) in
        case List.find (same_name pif_name c) ?ps of
          None \<Rightarrow> c | Some p \<Rightarrow> intf_diff c p (ifs_intf ?dev ! i))"
    using deviat_intf_by_name [of ?cur ?cs perintf0 "[]" ?pre ?ps perintf0 "[]" ?dev "[ifprop0]" ifprop0]
    by (auto simp: in_use_def cnonempty_def ifprop0_def)
  have "pif_rbyte (ifs_intf dev' ! 0) = 9" "pif_rbyte (ifs_intf dev' ! 1) = 30"
    using d(2) [rule_format, of 0] d(2) [rule_format, of 1]
    by (simp_all add: b streq_def intf_diff_def Let_def subcount_def word_sle_eq)
  with d(1) show ?thesis by blast
qed

text \<open>
  C30: Disks, multiple devices and logical volumes.  If devices only disappeared since the previous
  sample, every present device gets the difference of each counter with the entry of the same name, and the
  deviation table is terminated behind the last device.
\<close>

theorem dsk_table_removed:
  assumes "in_use pdk_name ps" and "distinct (names pdk_name ps)"
    and "in_use pdk_name cs" and "subseq (names pdk_name cs) (names pdk_name ps)"
    and "\<not> cnonempty (pdk_name z)" and "length cs < length dev"
  shows "\<exists>dev'. dsk_table (cs @ z # rest') (ps @ rest) dev = Some (length cs, dev') \<and>
    \<not> cnonempty (pdk_name (dev' ! length cs)) \<and>
    (\<forall>i < length cs. \<exists>p\<in>set ps. same_name pdk_name (cs ! i) p \<and>
       dev' ! i = (dev ! i)\<lparr>pdk_name := strcpy (pdk_name (dev ! i)) (pdk_name (cs ! i)),
         pdk_nread := subcount (pdk_nread (cs ! i)) (pdk_nread p), pdk_nwrite := subcount (pdk_nwrite (cs ! i)) (pdk_nwrite p),
         pdk_nrsect := subcount (pdk_nrsect (cs ! i)) (pdk_nrsect p), pdk_nwsect := subcount (pdk_nwsect (cs ! i)) (pdk_nwsect p),
         pdk_io_ms := subcount (pdk_io_ms (cs ! i)) (pdk_io_ms p), pdk_avque := subcount (pdk_avque (cs ! i)) (pdk_avque p)\<rparr>)"
proof -
  have "dsk_table (cs @ z # rest') (ps @ rest) dev = Some (length cs,
      (map2 (dsk_dev ps) cs dev @ drop (length cs) dev)[length cs :=
        (dev ! length cs)\<lparr>pdk_name := cclear (pdk_name (dev ! length cs))\<rparr>])"
    using dsk_loop_removed [of "[]" ps "ps @ rest" rest cs z 0 dev rest'] assms
    by (simp add: dsk_table_def nth_append min_def)
  moreover have "\<exists>p\<in>set ps. same_name pdk_name (cs ! i) p \<and> dsk_dev ps (cs ! i) d = dsk_diff (cs ! i) p d"
    if "i < length cs" for i d
  proof -
    have "cstr (pdk_name (cs ! i)) \<in> set (names pdk_name ps)"
      using that assms(4) by (metis (no_types, lifting) length_map nth_map nth_mem subseq_order.order_trans
          subseq_singleton_left)
    then obtain p where "p \<in> set ps" "same_name pdk_name (cs ! i) p" by (auto simp: streq_def)
    with find_by_distinct [OF assms(2)] show ?thesis by (auto simp: dsk_dev_def)
  qed
  ultimately show ?thesis
    using assms(6) unfolding dsk_diff_def by (auto simp: nth_append nth_list_update)
qed

theorem dsk_table_removed_witness:
  "\<exists>dev'. dsk_table [ex_dsk ''sdb'' 50, perdsk0] [ex_dsk ''sda'' 7, ex_dsk ''sdb'' 20, perdsk0]
     (replicate 2 perdsk0) = Some (1, dev') \<and> pdk_nread (dev' ! 0) = 30"
proof -
  let ?cs = "[ex_dsk ''sdb'' 50]" and ?ps = "[ex_dsk ''sda'' 7, ex_dsk ''sdb'' 20]"
  obtain dev' where "dsk_table (?cs @ perdsk0 # []) (?ps @ [perdsk0]) (replicate 2 perdsk0) = Some (length ?cs, dev')"
    "\<exists>p\<in>set ?ps. same_name pdk_name (?cs ! 0) p \<and> pdk_nread (dev' ! 0) = subcount (pdk_nread (?cs ! 0)) (pdk_nread p)"
    using dsk_table_removed [of ?ps ?cs perdsk0 "replicate 2 perdsk0" "[]" "[perdsk0]"]
    by (auto simp: in_use_def cnonempty_def)
  then show ?thesis by (auto simp: streq_def subcount_def word_sle_eq)
qed

text \<open>
  A device that was added.  If the first device of the present sample has no entry in the
  previous one, its absolute counters are taken, as the comment in the source says, but so are
  those of every other device, although the previous sample may know it: the test meant to keep
  the position in the previous sample is always true, and the search goes on behind the
  terminator.
\<close>

theorem dsk_table_added:
  assumes "in_use pdk_name ps" and "\<forall>p\<in>set ps. \<not> same_name pdk_name c p" and "ps \<noteq> []"
    and "in_use pdk_name (c # cs)" and "\<not> cnonempty (pdk_name z)" and "length (c # cs) < length dev"
    and "2 * length cs \<le> m"
  shows "\<exists>dev'. dsk_table (c # cs @ z # rest') (ps @ replicate (Suc m) perdsk0) dev = Some (length (c # cs), dev') \<and>
    (\<forall>i < length (c # cs). dev' ! i = dsk_diff ((c # cs) ! i) perdsk0 (dev ! i))"
proof -
  let ?pre = "ps @ replicate (Suc m) perdsk0" and ?d = "dev[0 := dsk_diff c perdsk0 (dev ! 0)]"
  have e: "\<not> cnonempty (pdk_name perdsk0)" by (simp add: perdsk0_def cnonempty_def)
  have "dsk_loop (c # cs @ z # rest') ?pre 0 0 dev = dsk_loop (cs @ z # rest') ?pre 1 (length ps + 1) ?d"
    using dsk_loop_step [of c ?pre "[]" ps perdsk0 "replicate m perdsk0" 0 0 dev "cs @ z # rest'"] assms e
    by (cases dev) (simp_all del: dsk_loop.simps)
  also have "\<dots> = Some (length (c # cs), take 1 ?d @ map2 (\<lambda>c d. dsk_diff c perdsk0 d) cs (drop 1 ?d) @
      drop (1 + length cs) ?d)"
    using dsk_loop_beyond [of cs z 1 ?d ?pre "ps @ [perdsk0]" m "length ps + 1" rest'] assms by simp
  also have "take 1 ?d @ map2 (\<lambda>c d. dsk_diff c perdsk0 d) cs (drop 1 ?d) @ drop (1 + length cs) ?d =
      map2 (\<lambda>c d. dsk_diff c perdsk0 d) (c # cs) dev @ drop (length (c # cs)) dev"
    using map2_update [of 0 dev "\<lambda>c d. dsk_diff c perdsk0 d" c cs] assms(6) by (cases dev) simp_all
  finally have "dsk_table (c # cs @ z # rest') ?pre dev = Some (length (c # cs),
      (map2 (\<lambda>c d. dsk_diff c perdsk0 d) (c # cs) dev @ drop (length (c # cs)) dev)[length (c # cs) :=
        (dev ! length (c # cs))\<lparr>pdk_name := cclear (pdk_name (dev ! length (c # cs)))\<rparr>])"
    using assms(6) by (simp add: dsk_table_def nth_append min_def del: dsk_loop.simps)
  then show ?thesis using assms(6) by (auto simp: nth_append nth_list_update)
qed

theorem dsk_table_added_witness:
  "\<exists>dev'. dsk_table [ex_dsk ''nvme0'' 5, ex_dsk ''sda'' 50, perdsk0] (ex_dsk ''sda'' 20 # replicate 4 perdsk0)
     (replicate 3 perdsk0) = Some (2, dev') \<and> pdk_nread (dev' ! 1) = 50"
proof -
  let ?c = "ex_dsk ''nvme0'' 5" and ?cs = "[ex_dsk ''sda'' 50]" and ?ps = "[ex_dsk ''sda'' 20]"
  obtain dev' where "dsk_table (?c # ?cs @ perdsk0 # []) (?ps @ replicate (Suc 3) perdsk0) (replicate 3 perdsk0) =
      Some (length (?c # ?cs), dev')"
    "\<forall>i < length (?c # ?cs). dev' ! i = dsk_diff ((?c # ?cs) ! i) perdsk0 (replicate 3 perdsk0 ! i)"
    using dsk_table_added [of ?ps ?c ?cs perdsk0 "replicate 3 perdsk0" 3 "[]"]
    by (auto simp: in_use_def cnonempty_def streq_def)
  moreover from this(2) [rule_format, of 1] have "pdk_nread (dev' ! 1) = 50"
    by (simp add: dsk_diff_def subcount_def word_sle_eq)
  ultimately show ?thesis by (simp add: numeral_eq_Suc)
qed

text \<open>
  Containers are subtracted by position.  Although the code searches the container in the
  previous sample, it subtracts the entry at the position the container has in the present one:
  after a container was removed, the others get differences with each other's counters.
\<close>

theorem deviat_cont_by_position:
  assumes "deviat_cont cur pre dev = Some dev'" and "i < nat (sint (cts_nrcontainer cur))"
  shows "cts_cont dev' ! i = cont_diff (cts_cont cur ! i) (cts_cont pre ! i) (cts_cont dev ! i)"
  using assms cont_loop_position by (fastforce simp: deviat_cont_def bind_eq_Some_conv)

definition ex_cont :: "u64 \<Rightarrow> count_t \<Rightarrow> percontainer" where
  "ex_cont ctid user = percontainer0\<lparr>ctr_ctid := ctid, ctr_user := user\<rparr>"

theorem deviat_cont_by_position_witness:
  "\<exists>dev'. deviat_cont \<lparr>cts_nrcontainer = 1, cts_cont = [ex_cont 8 50]\<rparr>
     \<lparr>cts_nrcontainer = 2, cts_cont = [ex_cont 7 10, ex_cont 8 45]\<rparr>
     \<lparr>cts_nrcontainer = 0, cts_cont = [percontainer0]\<rparr> = Some dev' \<and> ctr_user (cts_cont dev' ! 0) = 40"
proof -
  let ?cur = "\<lparr>cts_nrcontainer = 1, cts_cont = [ex_cont 8 50]\<rparr>"
  let ?pre = "\<lparr>cts_nrcontainer = 2, cts_cont = [ex_cont 7 10, ex_cont 8 45]\<rparr>"
  let ?dev = "\<lparr>cts_nrcontainer = 0, cts_cont = [percontainer0]\<rparr>"
  have "\<exists>dev'. deviat_cont ?cur ?pre ?dev = Some dev'"
    by (simp add: deviat_cont_def ex_cont_def numeral_2_eq_2)
  then obtain dev' where d: "deviat_cont ?cur ?pre ?dev = Some dev'" by blast
  from deviat_cont_by_position [OF this, of 0] have "ctr_user (cts_cont dev' ! 0) = 40"
    by (simp add: cont_diff_def ex_cont_def subcount_def word_sle_eq)
  with d show ?thesis by blast
qed

end
