(* ===== verification/Total_Syst.thy ===== *)
theory Total_Syst
  imports Device_Match
begin

text \<open>
  \<open>totalsyst\<close> of \<^verbatim>\<open>src/Qt/FakeAtop/deviate.c\<close>: the deviations of a sample are added to a structure with
  the totals, for one of the categories cpu, memory, network and disk.
\<close>

section \<open>Processors\<close>

definition total_percpu :: "percpu \<Rightarrow> percpu \<Rightarrow> percpu" where
  "total_percpu new tot = tot\<lparr>
     pcp_stime := pcp_stime tot + pcp_stime new,
     pcp_utime := pcp_utime tot + pcp_utime new,
     pcp_ntime := pcp_ntime tot + pcp_ntime new,
     pcp_itime := pcp_itime tot + pcp_itime new,
     pcp_wtime := pcp_wtime tot + pcp_wtime new,
     pcp_Itime := pcp_Itime tot + pcp_Itime new,
     pcp_Stime := pcp_Stime tot + pcp_Stime new,
     pcp_steal := pcp_steal tot + pcp_steal new,
     pcp_guest := pcp_guest tot + pcp_guest new\<rparr>"

fun total_cpus :: "percpu list \<Rightarrow> nat list \<Rightarrow> percpu list \<Rightarrow> percpu list option" where
  "total_cpus new [] tot = Some tot"
| "total_cpus new (i # is) tot = do {
     c \<leftarrow> aget new i;
     tot \<leftarrow> aupd tot i (\<lambda>t. (total_percpu c t)\<lparr>pcp_cpunr := pcp_cpunr c\<rparr>);
     total_cpus new is tot
   }"

text \<open>With one processor its totals are those of all processors.\<close>

definition total_cpu :: "cpustat \<Rightarrow> cpustat \<Rightarrow> cpustat option" where
  "total_cpu new tot = do {
     let tot = tot\<lparr>
       cst_nrcpu := cst_nrcpu new,
       cst_devint := cst_devint tot + cst_devint new,
       cst_csw := cst_csw tot + cst_csw new,
       cst_nprocs := cst_nprocs tot + cst_nprocs new,
       cst_all := total_percpu (cst_all new) (cst_all tot)\<rparr>;
     cpus \<leftarrow> (if cst_nrcpu new = 1 then aupd (cst_cpu tot) 0 (\<lambda>_. cst_all tot)
              else total_cpus (cst_cpu new) [0..<nat (sint (cst_nrcpu new))] (cst_cpu tot));
     Some (tot\<lparr>
       cst_cpu := cpus,
       cst_lavg1 := cst_lavg1 new,
       cst_lavg5 := cst_lavg5 new,
       cst_lavg15 := cst_lavg15 new\<rparr>)
   }"

section \<open>Memory\<close>

definition total_mem :: "memstat \<Rightarrow> memstat \<Rightarrow> memstat" where
  "total_mem new tot = tot\<lparr>
     mst_physmem := mst_physmem new,
     mst_freemem := mst_freemem new,
     mst_buffermem := mst_buffermem new,
     mst_slabmem := mst_slabmem new,
     mst_slabreclaim := mst_slabreclaim new,
     mst_committed := mst_committed new,
     mst_commitlim := mst_commitlim new,
     mst_cachemem := mst_cachemem new,
     mst_cachedrt := mst_cachedrt new,
     mst_totswap := mst_totswap new,
     mst_freeswap := mst_freeswap new,
     mst_shmem := mst_shmem new,
     mst_shmrss := mst_shmrss new,
     mst_shmswp := mst_shmswp new,
     mst_swouts := mst_swouts tot + mst_swouts new,
     mst_swins := mst_swins tot + mst_swins new,
     mst_pgscans := mst_pgscans tot + mst_pgscans new,
     mst_allocstall := mst_allocstall tot + mst_allocstall new\<rparr>"

section \<open>Network\<close>

definition total_nfsserver :: "nfsserver \<Rightarrow> nfsserver \<Rightarrow> nfsserver" where
  "total_nfsserver new tot = tot\<lparr>
     nsv_netcnt := nsv_netcnt tot + nsv_netcnt new,
     nsv_netudpcnt := nsv_netudpcnt tot + nsv_netudpcnt new,
     nsv_nettcpcnt := nsv_nettcpcnt tot + nsv_nettcpcnt new,
     nsv_nettcpcon := nsv_nettcpcon tot + nsv_nettcpcon new,
     nsv_rpccnt := nsv_rpccnt tot + nsv_rpccnt new,
     nsv_rpcread := nsv_rpcread tot + nsv_rpcread new,
     nsv_rpcwrite := nsv_rpcwrite tot + nsv_rpcwrite new,
     nsv_rpcbadfmt := nsv_rpcbadfmt tot + nsv_rpcbadfmt new,
     nsv_rpcbadaut := nsv_rpcbadaut tot + nsv_rpcbadaut new,
     nsv_rpcbadcln := nsv_rpcbadcln tot + nsv_rpcbadcln new,
     nsv_rchits := nsv_rchits tot + nsv_rchits new,
     nsv_rcmiss := nsv_rcmiss tot + nsv_rcmiss new,
     nsv_rcnoca := nsv_rcnoca tot + nsv_rcnoca new,
     nsv_nrbytes := nsv_nrbytes tot + nsv_nrbytes new,
     nsv_nwbytes := nsv_nwbytes tot + nsv_nwbytes new\<rparr>"

definition total_nfsclient :: "nfsclient \<Rightarrow> nfsclient \<Rightarrow> nfsclient" where
  "total_nfsclient new tot = tot\<lparr>
     ncl_rpccnt := ncl_rpccnt tot + ncl_rpccnt new,
     ncl_rpcread := ncl_rpcread tot + ncl_rpcread new,
     ncl_rpcwrite := ncl_rpcwrite tot + ncl_rpcwrite new,
     ncl_rpcretrans := ncl_rpcretrans tot + ncl_rpcretrans new,
     ncl_rpcautrefresh := ncl_rpcautrefresh tot + ncl_rpcautrefresh new\<rparr>"

definition total_net :: "netstat \<Rightarrow> netstat \<Rightarrow> netstat" where
  "total_net new tot = tot\<lparr>
     nst_ipv4 := (ipv4_zip (+) (nst_ipv4 tot) (nst_ipv4 new))\<lparr>
       ip4_Forwarding := ip4_Forwarding (nst_ipv4 new),
       ip4_DefaultTTL := ip4_DefaultTTL (nst_ipv4 new)\<rparr>,
     nst_icmpv4 := icmpv4_zip (+) (nst_icmpv4 tot) (nst_icmpv4 new),
     nst_udpv4 := udpv4_zip (+) (nst_udpv4 tot) (nst_udpv4 new),
     nst_ipv6 := ipv6_zip (+) (nst_ipv6 tot) (nst_ipv6 new),
     nst_icmpv6 := icmpv6_zip (+) (nst_icmpv6 tot) (nst_icmpv6 new),
     nst_udpv6 := udpv6_zip (+) (nst_udpv6 tot) (nst_udpv6 new),
     nst_tcp := (tcp_zip (+) (nst_tcp tot) (nst_tcp new))\<lparr>
       tcp_RtoAlgorithm := tcp_RtoAlgorithm (nst_tcp new),
       tcp_RtoMin := tcp_RtoMin (nst_tcp new),
       tcp_RtoMax := tcp_RtoMax (nst_tcp new),
       tcp_MaxConn := tcp_MaxConn (nst_tcp new),
       tcp_CurrEstab := tcp_CurrEstab (nst_tcp new)\<rparr>\<rparr>"

text \<open>An interface that was added or removed starts from zero.\<close>

definition zero_intf :: "perintf \<Rightarrow> perintf" where
  "zero_intf tot = tot\<lparr>
     pif_rbyte := 0,
     pif_rpack := 0,
     pif_rerrs := 0,
     pif_rdrop := 0,
     pif_rfifo := 0,
     pif_rframe := 0,
     pif_rcompr := 0,
     pif_rmultic := 0,
     pif_sbyte := 0,
     pif_spack := 0,
     pif_serrs := 0,
     pif_sdrop := 0,
     pif_sfifo := 0,
     pif_scollis := 0,
     pif_scarrier := 0,
     pif_scompr := 0\<rparr>"

definition add_intf :: "perintf \<Rightarrow> perintf \<Rightarrow> perintf" where
  "add_intf new tot = tot\<lparr>
     pif_name := strcpy (pif_name tot) (pif_name new),
     pif_rbyte := pif_rbyte tot + pif_rbyte new,
     pif_rpack := pif_rpack tot + pif_rpack new,
     pif_rerrs := pif_rerrs tot + pif_rerrs new,
     pif_rdrop := pif_rdrop tot + pif_rdrop new,
     pif_rfifo := pif_rfifo tot + pif_rfifo new,
     pif_rframe := pif_rframe tot + pif_rframe new,
     pif_rcompr := pif_rcompr tot + pif_rcompr new,
     pif_rmultic := pif_rmultic tot + pif_rmultic new,
     pif_sbyte := pif_sbyte tot + pif_sbyte new,
     pif_spack := pif_spack tot + pif_spack new,
     pif_serrs := pif_serrs tot + pif_serrs new,
     pif_sdrop := pif_sdrop tot + pif_sdrop new,
     pif_sfifo := pif_sfifo tot + pif_sfifo new,
     pif_scollis := pif_scollis tot + pif_scollis new,
     pif_scarrier := pif_scarrier tot + pif_scarrier new,
     pif_scompr := pif_scompr tot + pif_scompr new,
     pif_type := pif_type new,
     pif_speed := pif_speed new,
     pif_duplex := pif_duplex new\<rparr>"

definition total_perintf :: "perintf \<Rightarrow> perintf \<Rightarrow> perintf" where
  "total_perintf new tot =
     add_intf new (if \<not> streq (pif_name new) (pif_name tot) then zero_intf tot else tot)"

text \<open>A loop over the entries of a table up to the one with an empty name.\<close>

fun total_table :: "('a \<Rightarrow> chars) \<Rightarrow> ('a \<Rightarrow> 'a \<Rightarrow> 'a) \<Rightarrow> 'a list \<Rightarrow> nat \<Rightarrow> 'a list \<Rightarrow> (nat \<times> 'a list) option" where
  "total_table nm f [] i tot = None"
| "total_table nm f (c # cs) i tot =
     (if \<not> cnonempty (nm c) then Some (i, tot)
      else do { tot \<leftarrow> aupd tot i (f c); total_table nm f cs (i + 1) tot })"

definition total_intf :: "intfstat \<Rightarrow> intfstat \<Rightarrow> intfstat option" where
  "total_intf new tot = do {
     (i, t) \<leftarrow> total_table pif_name total_perintf (ifs_intf new) 0 (ifs_intf tot);
     t \<leftarrow> aupd t i (\<lambda>d. d\<lparr>pif_name := cclear (pif_name d)\<rparr>);
     Some (tot\<lparr>ifs_intf := t, ifs_nrintf := of_nat i\<rparr>)
   }"

section \<open>Disks\<close>

definition total_perdsk :: "perdsk \<Rightarrow> perdsk \<Rightarrow> perdsk" where
  "total_perdsk new tot = tot\<lparr>
     pdk_name := strcpy (pdk_name tot) (pdk_name new),
     pdk_nread := pdk_nread tot + pdk_nread new,
     pdk_nwrite := pdk_nwrite tot + pdk_nwrite new,
     pdk_nrsect := pdk_nrsect tot + pdk_nrsect new,
     pdk_nwsect := pdk_nwsect tot + pdk_nwsect new,
     pdk_io_ms := pdk_io_ms tot + pdk_io_ms new,
     pdk_avque := pdk_avque tot + pdk_avque new\<rparr>"

definition total_dsks :: "perdsk list \<Rightarrow> perdsk list \<Rightarrow> (nat \<times> perdsk list) option" where
  "total_dsks new tot = do {
     (i, t) \<leftarrow> total_table pdk_name total_perdsk new 0 tot;
     t \<leftarrow> aupd t i (\<lambda>d. d\<lparr>pdk_name := cclear (pdk_name d)\<rparr>);
     Some (i, t)
   }"

definition total_dsk :: "dskstat \<Rightarrow> dskstat \<Rightarrow> dskstat option" where
  "total_dsk new tot = do {
     (i, t) \<leftarrow> total_dsks (dks_dsk new) (dks_dsk tot);
     let tot = tot\<lparr>dks_dsk := t, dks_ndsk := of_nat i\<rparr>;
     (i, t) \<leftarrow> total_dsks (dks_lvm new) (dks_lvm tot);
     let tot = tot\<lparr>dks_lvm := t, dks_nlvm := of_nat i\<rparr>;
     (i, t) \<leftarrow> total_dsks (dks_mdd new) (dks_mdd tot);
     Some (tot\<lparr>dks_mdd := t, dks_nmdd := of_nat i\<rparr>)
   }"

section \<open>totalsyst\<close>

definition totalsyst :: "char \<Rightarrow> sstat \<Rightarrow> sstat \<Rightarrow> sstat option" where
  "totalsyst category new tot =
     (if category = CHR ''c'' then do {
        c \<leftarrow> total_cpu (ss_cpu new) (ss_cpu tot);
        Some (tot\<lparr>ss_cpu := c\<rparr>)
      }
      else if category = CHR ''m'' then Some (tot\<lparr>ss_mem := total_mem (ss_mem new) (ss_mem tot)\<rparr>)
      else if category = CHR ''n'' then do {
        let nfs = (ss_nfs tot)\<lparr>
          nfs_server := total_nfsserver (nfs_server (ss_nfs new)) (nfs_server (ss_nfs tot)),
          nfs_client := total_nfsclient (nfs_client (ss_nfs new)) (nfs_client (ss_nfs tot))\<rparr>;
        i \<leftarrow> total_intf (ss_intf new) (ss_intf tot);
        Some (tot\<lparr>ss_nfs := nfs, ss_net := total_net (ss_net new) (ss_net tot), ss_intf := i\<rparr>)
      }
      else if category = CHR ''d'' then do {
        d \<leftarrow> total_dsk (ss_dsk new) (ss_dsk tot);
        Some (tot\<lparr>ss_dsk := d\<rparr>)
      }
      else Some tot)"

section \<open>Loops over processors\<close>

lemma percpu_loop_all:
  assumes "distinct is" and "\<forall>i\<in>set is. i < length cur \<and> i < length pre \<and> i < length dev"
  shows "\<exists>r. percpu_loop cur pre is dev = Some r \<and> length r = length dev \<and>
    (\<forall>i. r ! i = (if i \<in> set is then deviat_percpu (cur ! i) (pre ! i) (dev ! i) else dev ! i))"
  using assms
proof (induction "is" arbitrary: dev)
  case (Cons k "is")
  let ?dev = "dev[k := deviat_percpu (cur ! k) (pre ! k) (dev ! k)]"
  obtain r where "percpu_loop cur pre is ?dev = Some r" "length r = length dev"
    "\<forall>i. r ! i = (if i \<in> set is then deviat_percpu (cur ! i) (pre ! i) (?dev ! i) else ?dev ! i)"
    using Cons.IH [of ?dev] Cons.prems by auto
  with Cons.prems show ?case by (auto simp: nth_list_update)
qed simp

lemma total_cpus_all:
  assumes "distinct is" and "\<forall>i\<in>set is. i < length new \<and> i < length tot"
  shows "\<exists>r. total_cpus new is tot = Some r \<and> length r = length tot \<and>
    (\<forall>i. r ! i = (if i \<in> set is
       then (total_percpu (new ! i) (tot ! i))\<lparr>pcp_cpunr := pcp_cpunr (new ! i)\<rparr> else tot ! i))"
  using assms
proof (induction "is" arbitrary: tot)
  case (Cons k "is")
  let ?tot = "tot[k := (total_percpu (new ! k) (tot ! k))\<lparr>pcp_cpunr := pcp_cpunr (new ! k)\<rparr>]"
  obtain r where "total_cpus new is ?tot = Some r" "length r = length tot"
    "\<forall>i. r ! i = (if i \<in> set is
       then (total_percpu (new ! i) (?tot ! i))\<lparr>pcp_cpunr := pcp_cpunr (new ! i)\<rparr> else ?tot ! i)"
    using Cons.IH [of ?tot] Cons.prems by auto
  with Cons.prems show ?case by (auto simp: nth_list_update)
qed simp

text \<open>The times of a processor that are accumulated, and that no counter runs backwards.\<close>

definition cpu_times :: "percpu \<Rightarrow> count_t list" where
  "cpu_times c = [pcp_stime c, pcp_utime c, pcp_ntime c, pcp_itime c, pcp_wtime c, pcp_Itime c,
     pcp_Stime c, pcp_steal c, pcp_guest c]"

definition cpu_upward :: "percpu \<Rightarrow> percpu \<Rightarrow> bool" where
  "cpu_upward p c \<longleftrightarrow> list_all2 (\<le>s) (cpu_times p) (cpu_times c)"

lemma subcount_up: "q \<le>s c \<Longrightarrow> subcount c q = c - q"
  by (simp add: subcount_def)

lemma total_percpu_telescope:
  assumes "cpu_upward p c" and "cpu_upward c n"
  shows "cpu_times (total_percpu (deviat_percpu n c x) (deviat_percpu c p y)) = map2 (-) (cpu_times n) (cpu_times p)"
    and "cpu_times (total_percpu (deviat_cpu_all n c x) (deviat_cpu_all c p y)) = map2 (-) (cpu_times n) (cpu_times p)"
  using assms
  by (auto simp: cpu_upward_def cpu_times_def total_percpu_def deviat_percpu_def deviat_cpu_all_def subcount_up Let_def)

section \<open>Loops over named tables\<close>

text \<open>
  What the loops over interfaces and disks rely on: the accumulated entry carries the name of the
  new one, and clearing the name makes an entry the end of its table.
\<close>

locale named_table =
  fixes nm :: "'a \<Rightarrow> chars" and acc :: "'a \<Rightarrow> 'a \<Rightarrow> 'a" and clr :: "'a \<Rightarrow> 'a"
  assumes acc_name: "streq (nm (acc c t)) (nm c)"
    and clr_name: "\<not> cnonempty (nm (clr t))"
begin

lemma total_table_run:
  assumes "in_use nm xs" and "\<not> cnonempty (nm e)" and "length xs \<le> length tot"
  shows "total_table nm acc (xs @ e # r) (length ts) (ts @ tot) =
    Some (length ts + length xs, ts @ map2 acc xs tot @ drop (length xs) tot)"
  using assms
proof (induction xs arbitrary: ts tot)
  case (Cons x xs)
  then obtain t tot' where [simp]: "tot = t # tot'" by (cases tot) auto
  show ?case using Cons.IH [of tot' "ts @ [acc x t]"] Cons.prems by simp
qed simp

lemma table_closed:
  assumes "in_use nm xs" and "\<not> cnonempty (nm e)" and "length xs < length tot"
  shows "\<exists>t'. do { (i, t) \<leftarrow> total_table nm acc (xs @ e # r) 0 tot; t \<leftarrow> aupd t i clr; Some (i, t) } =
      Some (length xs, map2 acc xs tot @ t') \<and> length t' = length tot - length xs \<and>
      \<not> cnonempty (nm (hd t')) \<and> tl t' = drop (length xs + 1) tot \<and>
      names nm (map2 acc xs tot) = names nm xs"
proof -
  let ?t' = "clr (tot ! length xs) # drop (length xs + 1) tot"
  have d: "drop (length xs) tot = tot ! length xs # drop (length xs + 1) tot"
    using assms(3) by (simp add: Cons_nth_drop_Suc)
  have "names nm (map2 acc xs tot) = names nm xs"
    using assms(3) acc_name by (auto intro!: nth_equalityI simp: streq_def)
  moreover have "total_table nm acc (xs @ e # r) 0 tot = Some (length xs, map2 acc xs tot @ drop (length xs) tot)"
    using total_table_run [of xs e tot r "[]"] assms by simp
  ultimately show ?thesis using assms(3) clr_name by (intro exI [of _ ?t']) (simp add: d list_update_append nth_append Suc_diff_Suc)
qed

end

interpretation intf_table: named_table pif_name total_perintf "\<lambda>d. d\<lparr>pif_name := cclear (pif_name d)\<rparr>"
  by unfold_locales (simp_all add: total_perintf_def add_intf_def streq_def)

interpretation dsk_table: named_table pdk_name total_perdsk "\<lambda>d. d\<lparr>pdk_name := cclear (pdk_name d)\<rparr>"
  by unfold_locales (simp_all add: total_perdsk_def streq_def)

definition intf_counts :: "perintf \<Rightarrow> count_t list" where
  "intf_counts d = [pif_rbyte d, pif_rpack d, pif_rerrs d, pif_rdrop d, pif_rfifo d, pif_rframe d, pif_rcompr d,
     pif_rmultic d, pif_sbyte d, pif_spack d, pif_serrs d, pif_sdrop d, pif_sfifo d, pif_scollis d,
     pif_scarrier d, pif_scompr d]"

definition dsk_counts :: "perdsk \<Rightarrow> count_t list" where
  "dsk_counts d = [pdk_nread d, pdk_nwrite d, pdk_nrsect d, pdk_nwsect d, pdk_io_ms d, pdk_avque d]"

lemma intf_counts_total:
  "intf_counts (total_perintf c t) =
     (if streq (pif_name c) (pif_name t) then map2 (+) (intf_counts t) (intf_counts c) else intf_counts c)"
  by (simp add: total_perintf_def intf_counts_def add_intf_def zero_intf_def)

lemma dsk_counts_total: "dsk_counts (total_perdsk c t) = map2 (+) (dsk_counts t) (dsk_counts c)"
  by (simp add: total_perdsk_def dsk_counts_def)

lemmas zip_defs = ipv4_zip_def icmpv4_zip_def udpv4_zip_def ipv6_zip_def icmpv6_zip_def udpv6_zip_def tcp_zip_def

section \<open>Properties\<close>

text \<open>
  C31: Accumulating the network protocol counters of two successive samples gives exactly the
  deviation over both intervals, for any counter values (wrap-around included), and the values
  that are no counters are those of the last sample.
\<close>

theorem total_net_telescopes:
  "total_net (deviat_net c2 c1 x) (deviat_net c1 c0 y) = deviat_net c2 c0 y"
  by (simp add: total_net_def deviat_net_def zip_defs)

text \<open>
  Over two successive samples of a machine with \<open>n \<noteq> 1\<close> processors whose times do not run
  backwards, \<open>totalsyst\<close> in category \<open>c\<close> returns, stays within its arrays and leaves in every
  processor and in the totals the time that passed between the first and the last sample.
\<close>

theorem totalsyst_cpu_telescopes:
  fixes c0 c1 c2 :: cpustat and t1 t2 :: sstat
  defines "n \<equiv> nat (sint (cst_nrcpu c2))"
  assumes nr: "cst_nrcpu c2 \<noteq> 1" "cst_nrcpu c1 = cst_nrcpu c2"
    and len: "n \<le> length (cst_cpu c0)" "n \<le> length (cst_cpu c1)" "n \<le> length (cst_cpu c2)"
      "n \<le> length (cst_cpu (ss_cpu t1))" "n \<le> length (cst_cpu (ss_cpu t2))"
    and up: "\<forall>i<n. cpu_upward (cst_cpu c0 ! i) (cst_cpu c1 ! i) \<and> cpu_upward (cst_cpu c1 ! i) (cst_cpu c2 ! i)"
      "cpu_upward (cst_all c0) (cst_all c1)" "cpu_upward (cst_all c1) (cst_all c2)"
  shows "\<exists>d1 d2 t. deviat_cpu c1 c0 (ss_cpu t1) = Some d1 \<and> deviat_cpu c2 c1 (ss_cpu t2) = Some d2 \<and>
    totalsyst CHR ''c'' (t2\<lparr>ss_cpu := d2\<rparr>) (t1\<lparr>ss_cpu := d1\<rparr>) = Some (t1\<lparr>ss_cpu := t\<rparr>) \<and>
    cst_nrcpu t = cst_nrcpu c2 \<and>
    cpu_times (cst_all t) = map2 (-) (cpu_times (cst_all c2)) (cpu_times (cst_all c0)) \<and>
    (\<forall>i<n. pcp_cpunr (cst_cpu t ! i) = pcp_cpunr (cst_cpu c2 ! i) \<and>
       cpu_times (cst_cpu t ! i) = map2 (-) (cpu_times (cst_cpu c2 ! i)) (cpu_times (cst_cpu c0 ! i)))"
proof -
  let ?is = "[0..<n]"
  obtain r1 where r1: "percpu_loop (cst_cpu c1) (cst_cpu c0) ?is (cst_cpu (ss_cpu t1)) = Some r1"
    "length r1 = length (cst_cpu (ss_cpu t1))"
    "\<forall>i<n. r1 ! i = deviat_percpu (cst_cpu c1 ! i) (cst_cpu c0 ! i) (cst_cpu (ss_cpu t1) ! i)"
    using percpu_loop_all [of ?is "cst_cpu c1" "cst_cpu c0" "cst_cpu (ss_cpu t1)"] len by fastforce
  obtain r2 where r2: "percpu_loop (cst_cpu c2) (cst_cpu c1) ?is (cst_cpu (ss_cpu t2)) = Some r2"
    "length r2 = length (cst_cpu (ss_cpu t2))"
    "\<forall>i<n. r2 ! i = deviat_percpu (cst_cpu c2 ! i) (cst_cpu c1 ! i) (cst_cpu (ss_cpu t2) ! i)"
    using percpu_loop_all [of ?is "cst_cpu c2" "cst_cpu c1" "cst_cpu (ss_cpu t2)"] len by fastforce
  obtain r where r: "total_cpus r2 ?is r1 = Some r"
    "\<forall>i<n. r ! i = (total_percpu (r2 ! i) (r1 ! i))\<lparr>pcp_cpunr := pcp_cpunr (r2 ! i)\<rparr>"
    using total_cpus_all [of ?is r2 r1] r1 r2 len by fastforce
  have "cpu_times (r ! i) = map2 (-) (cpu_times (cst_cpu c2 ! i)) (cpu_times (cst_cpu c0 ! i)) \<and>
    pcp_cpunr (r ! i) = pcp_cpunr (cst_cpu c2 ! i)" if "i < n" for i
    using total_percpu_telescope(1) [of "cst_cpu c0 ! i" "cst_cpu c1 ! i" "cst_cpu c2 ! i"] up(1) that r r1 r2
    by (simp add: cpu_times_def deviat_percpu_def Let_def)
  moreover have "cpu_times (total_percpu (deviat_cpu_all (cst_all c2) (cst_all c1) x)
      (deviat_cpu_all (cst_all c1) (cst_all c0) y)) = map2 (-) (cpu_times (cst_all c2)) (cpu_times (cst_all c0))" for x y
    using total_percpu_telescope(2) up(2,3) by blast
  ultimately show ?thesis
    using nr r(1) r1(1) r2(1)
    by (simp add: deviat_cpu_def totalsyst_def total_cpu_def Let_def flip: n_def) (rule exI, rule conjI, rule refl, simp)
qed


definition ex_cpu :: "count_t \<Rightarrow> cpustat" where
  "ex_cpu k = cpustat0\<lparr>cst_nrcpu := 2, cst_all := percpu0\<lparr>pcp_utime := 3 * k, pcp_stime := k\<rparr>,
     cst_cpu := [percpu0\<lparr>pcp_utime := k\<rparr>, percpu0\<lparr>pcp_cpunr := 1, pcp_utime := 2 * k, pcp_stime := k\<rparr>]\<rparr>"

theorem totalsyst_cpu_telescopes_witness:
  "\<exists>d1 d2 t. deviat_cpu (ex_cpu 5) (ex_cpu 1) (ex_cpu 0) = Some d1 \<and> deviat_cpu (ex_cpu 9) (ex_cpu 5) (ex_cpu 0) = Some d2 \<and>
    totalsyst CHR ''c'' (sstat0\<lparr>ss_cpu := d2\<rparr>) (sstat0\<lparr>ss_cpu := d1\<rparr>) = Some (sstat0\<lparr>ss_cpu := t\<rparr>) \<and>
    pcp_utime (cst_cpu t ! 1) = 16"
proof -
  have "\<forall>i<2. cpu_upward (cst_cpu (ex_cpu 1) ! i) (cst_cpu (ex_cpu 5) ! i) \<and>
    cpu_upward (cst_cpu (ex_cpu 5) ! i) (cst_cpu (ex_cpu 9) ! i)"
    by (simp add: numeral_2_eq_2 less_Suc_eq ex_cpu_def cpu_upward_def cpu_times_def percpu0_def word_sle_eq)
  from totalsyst_cpu_telescopes [of "ex_cpu 9" "ex_cpu 5" "ex_cpu 1" "sstat0\<lparr>ss_cpu := ex_cpu 0\<rparr>" "sstat0\<lparr>ss_cpu := ex_cpu 0\<rparr>"] this
  show ?thesis
    by (fastforce simp: ex_cpu_def cpu_upward_def cpu_times_def percpu0_def word_sle_eq)
qed

text \<open>
  In category \<open>m\<close> the swap, scan and stall counters of two successive samples telescope when
  they do not run backwards, and the sizes are those of the last sample; but \<open>pgsteal\<close>, the huge
  page counts and \<open>vmwballoon\<close> stay those of the first interval, because the code leaves them out.
\<close>

theorem totalsyst_mem_telescopes:
  fixes m0 m1 m2 x y :: memstat
  defines "t \<equiv> total_mem (deviat_mem m2 m1 x) (deviat_mem m1 m0 y)"
  assumes "list_all2 (\<le>s) [mst_swouts m0, mst_swins m0, mst_pgscans m0, mst_allocstall m0]
      [mst_swouts m1, mst_swins m1, mst_pgscans m1, mst_allocstall m1]"
    and "list_all2 (\<le>s) [mst_swouts m1, mst_swins m1, mst_pgscans m1, mst_allocstall m1]
      [mst_swouts m2, mst_swins m2, mst_pgscans m2, mst_allocstall m2]"
  shows "totalsyst CHR ''m'' (n\<lparr>ss_mem := deviat_mem m2 m1 x\<rparr>) (o1\<lparr>ss_mem := deviat_mem m1 m0 y\<rparr>) =
      Some (o1\<lparr>ss_mem := t\<rparr>) \<and>
    mst_swouts t = mst_swouts m2 - mst_swouts m0 \<and> mst_swins t = mst_swins m2 - mst_swins m0 \<and>
    mst_pgscans t = mst_pgscans m2 - mst_pgscans m0 \<and> mst_allocstall t = mst_allocstall m2 - mst_allocstall m0 \<and>
    mst_physmem t = mst_physmem m2 \<and> mst_freemem t = mst_freemem m2 \<and> mst_freeswap t = mst_freeswap m2 \<and>
    mst_pgsteal t = subcount (mst_pgsteal m1) (mst_pgsteal m0) \<and>
    mst_freehugepage t = mst_freehugepage m1 \<and> mst_vmwballoon t = mst_vmwballoon m1"
  using assms(2,3) by (simp add: t_def totalsyst_def total_mem_def deviat_mem_def subcount_up)

theorem totalsyst_mem_telescopes_witness:
  "mst_swins (total_mem (deviat_mem (memstat0\<lparr>mst_swins := 9, mst_pgsteal := 9\<rparr>) (memstat0\<lparr>mst_swins := 4\<rparr>) memstat0)
     (deviat_mem (memstat0\<lparr>mst_swins := 4\<rparr>) memstat0 memstat0)) = 9 \<and>
   mst_pgsteal (total_mem (deviat_mem (memstat0\<lparr>mst_swins := 9, mst_pgsteal := 9\<rparr>) (memstat0\<lparr>mst_swins := 4\<rparr>) memstat0)
     (deviat_mem (memstat0\<lparr>mst_swins := 4\<rparr>) memstat0 memstat0)) = 0"
  using totalsyst_mem_telescopes [where ?m0.0 = memstat0 and ?m1.0 = "memstat0\<lparr>mst_swins := 4\<rparr>"
      and ?m2.0 = "memstat0\<lparr>mst_swins := 9, mst_pgsteal := 9\<rparr>" and x = memstat0 and y = memstat0]
  by (simp add: memstat0_def word_sle_eq subcount_def)

text \<open>
  In category \<open>n\<close> the totals hold the interfaces of the new sample in its order: an interface
  whose name is at the same place of the totals has its counters added up, any other one starts
  again from its counters of this sample, and the table is closed and counted.
\<close>

theorem totalsyst_intf_by_name:
  assumes "ifs_intf (ss_intf new) = xs @ e # r" and "in_use pif_name xs" and "\<not> cnonempty (pif_name e)"
    and "length xs < length (ifs_intf (ss_intf tot))"
  shows "\<exists>t. totalsyst CHR ''n'' new tot = Some t \<and> ifs_nrintf (ss_intf t) = of_nat (length xs) \<and>
    length (ifs_intf (ss_intf t)) = length (ifs_intf (ss_intf tot)) \<and>
    names pif_name (take (length xs) (ifs_intf (ss_intf t))) = names pif_name xs \<and>
    \<not> cnonempty (pif_name (ifs_intf (ss_intf t) ! length xs)) \<and>
    (\<forall>i<length xs. intf_counts (ifs_intf (ss_intf t) ! i) =
       (if streq (pif_name (xs ! i)) (pif_name (ifs_intf (ss_intf tot) ! i))
        then map2 (+) (intf_counts (ifs_intf (ss_intf tot) ! i)) (intf_counts (xs ! i))
        else intf_counts (xs ! i)))"
proof -
  obtain t' where t': "do { (i, t) \<leftarrow> total_table pif_name total_perintf (xs @ e # r) 0 (ifs_intf (ss_intf tot));
        t \<leftarrow> aupd t i (\<lambda>d. d\<lparr>pif_name := cclear (pif_name d)\<rparr>); Some (i, t) } =
      Some (length xs, map2 total_perintf xs (ifs_intf (ss_intf tot)) @ t')"
    "length t' = length (ifs_intf (ss_intf tot)) - length xs" "\<not> cnonempty (pif_name (hd t'))"
    "names pif_name (map2 total_perintf xs (ifs_intf (ss_intf tot))) = names pif_name xs"
    using intf_table.table_closed [OF assms(2-4)] by metis
  then have "total_intf (ss_intf new) (ss_intf tot) = Some ((ss_intf tot)\<lparr>
      ifs_intf := map2 total_perintf xs (ifs_intf (ss_intf tot)) @ t', ifs_nrintf := of_nat (length xs)\<rparr>)"
    by (auto simp: total_intf_def assms(1) bind_eq_Some_conv)
  then show ?thesis using t'(2-) assms(4)
    by (cases t') (auto simp: totalsyst_def Let_def intf_counts_total nth_append)
qed

definition ex_if :: "string \<Rightarrow> count_t \<Rightarrow> perintf" where
  "ex_if n b = perintf0\<lparr>pif_name := n @ [NUL], pif_rbyte := b\<rparr>"

theorem totalsyst_intf_by_name_witness:
  "\<exists>t. totalsyst CHR ''n'' (sstat0\<lparr>ss_intf := intfstat0\<lparr>ifs_intf := [ex_if ''lo'' 3, ex_if ''eth1'' 4, ex_if [] 0]\<rparr>\<rparr>)
      (sstat0\<lparr>ss_intf := intfstat0\<lparr>ifs_intf := [ex_if ''lo'' 10, ex_if ''eth0'' 10, ex_if [] 0]\<rparr>\<rparr>) = Some t \<and>
    intf_counts (ifs_intf (ss_intf t) ! 0) ! 0 = 13 \<and> intf_counts (ifs_intf (ss_intf t) ! 1) ! 0 = 4"
proof -
  let ?new = "sstat0\<lparr>ss_intf := intfstat0\<lparr>ifs_intf := [ex_if ''lo'' 3, ex_if ''eth1'' 4, ex_if [] 0]\<rparr>\<rparr>"
  let ?tot = "sstat0\<lparr>ss_intf := intfstat0\<lparr>ifs_intf := [ex_if ''lo'' 10, ex_if ''eth0'' 10, ex_if [] 0]\<rparr>\<rparr>"
  obtain t where t: "totalsyst CHR ''n'' ?new ?tot = Some t"
    "\<forall>i<2. intf_counts (ifs_intf (ss_intf t) ! i) =
       (if streq (pif_name ([ex_if ''lo'' 3, ex_if ''eth1'' 4] ! i)) (pif_name (ifs_intf (ss_intf ?tot) ! i))
        then map2 (+) (intf_counts (ifs_intf (ss_intf ?tot) ! i)) (intf_counts ([ex_if ''lo'' 3, ex_if ''eth1'' 4] ! i))
        else intf_counts ([ex_if ''lo'' 3, ex_if ''eth1'' 4] ! i))"
    using totalsyst_intf_by_name [of ?new "[ex_if ''lo'' 3, ex_if ''eth1'' 4]" "ex_if [] 0" "[]" ?tot]
    by (auto simp: ex_if_def cnonempty_def numeral_2_eq_2)
  then show ?thesis by (simp add: numeral_2_eq_2 less_Suc_eq ex_if_def streq_def intf_counts_def)
qed

text \<open>
  In category \<open>d\<close> the totals of disks are added up by position only: entry \<open>i\<close> takes the name of
  the \<open>i\<close>th disk of the new sample and keeps the counts of whatever disk stood there before.
\<close>

theorem totalsyst_dsk_by_position:
  assumes "dks_dsk (ss_dsk new) = xs @ e # r" and "in_use pdk_name xs" and "\<not> cnonempty (pdk_name e)"
    and "length xs < length (dks_dsk (ss_dsk tot))"
    and "dks_lvm (ss_dsk new) = ys @ f # s" and "in_use pdk_name ys" and "\<not> cnonempty (pdk_name f)"
    and "length ys < length (dks_lvm (ss_dsk tot))"
    and "dks_mdd (ss_dsk new) = zs @ g # u" and "in_use pdk_name zs" and "\<not> cnonempty (pdk_name g)"
    and "length zs < length (dks_mdd (ss_dsk tot))"
  shows "\<exists>t. totalsyst CHR ''d'' new tot = Some t \<and>
    dks_ndsk (ss_dsk t) = of_nat (length xs) \<and> dks_nlvm (ss_dsk t) = of_nat (length ys) \<and>
    dks_nmdd (ss_dsk t) = of_nat (length zs) \<and>
    names pdk_name (take (length xs) (dks_dsk (ss_dsk t))) = names pdk_name xs \<and>
    (\<forall>i<length xs. dsk_counts (dks_dsk (ss_dsk t) ! i) =
       map2 (+) (dsk_counts (dks_dsk (ss_dsk tot) ! i)) (dsk_counts (xs ! i)))"
proof -
  have part: "\<exists>t'. total_dsks (ps @ p # q) ts = Some (length ps, map2 total_perdsk ps ts @ t') \<and>
      names pdk_name (map2 total_perdsk ps ts) = names pdk_name ps"
    if "in_use pdk_name ps" "\<not> cnonempty (pdk_name p)" "length ps < length ts" for ps p q ts
    using dsk_table.table_closed [OF that, of q] by (auto simp: total_dsks_def)
  obtain a b c where "total_dsks (xs @ e # r) (dks_dsk (ss_dsk tot)) = Some (length xs, map2 total_perdsk xs (dks_dsk (ss_dsk tot)) @ a)"
    and n: "names pdk_name (map2 total_perdsk xs (dks_dsk (ss_dsk tot))) = names pdk_name xs"
    and "total_dsks (ys @ f # s) (dks_lvm (ss_dsk tot)) = Some (length ys, map2 total_perdsk ys (dks_lvm (ss_dsk tot)) @ b)"
    and "total_dsks (zs @ g # u) (dks_mdd (ss_dsk tot)) = Some (length zs, map2 total_perdsk zs (dks_mdd (ss_dsk tot)) @ c)"
    using part [OF assms(2-4)] part [OF assms(6-8)] part [OF assms(10-12)] by metis
  then show ?thesis using assms(4) n
    by (auto simp: totalsyst_def total_dsk_def Let_def assms(1,5,9) dsk_counts_total nth_append)
qed


definition ex_dk :: "string \<Rightarrow> count_t \<Rightarrow> perdsk" where
  "ex_dk n k = perdsk0\<lparr>pdk_name := n @ [NUL], pdk_nread := k\<rparr>"

theorem totalsyst_dsk_by_position_witness:
  "\<exists>t. totalsyst CHR ''d''
      (sstat0\<lparr>ss_dsk := dskstat0\<lparr>dks_dsk := [ex_dk ''sda'' 3, ex_dk [] 0], dks_lvm := [ex_dk [] 0], dks_mdd := [ex_dk [] 0]\<rparr>\<rparr>)
      (sstat0\<lparr>ss_dsk := dskstat0\<lparr>dks_dsk := [ex_dk ''sdb'' 10, ex_dk [] 0], dks_lvm := [ex_dk [] 0], dks_mdd := [ex_dk [] 0]\<rparr>\<rparr>)
      = Some t \<and>
    names pdk_name (take 1 (dks_dsk (ss_dsk t))) = [''sda''] \<and> hd (dsk_counts (dks_dsk (ss_dsk t) ! 0)) = 13"
proof -
  let ?new = "sstat0\<lparr>ss_dsk := dskstat0\<lparr>dks_dsk := [ex_dk ''sda'' 3, ex_dk [] 0], dks_lvm := [ex_dk [] 0], dks_mdd := [ex_dk [] 0]\<rparr>\<rparr>"
  let ?tot = "sstat0\<lparr>ss_dsk := dskstat0\<lparr>dks_dsk := [ex_dk ''sdb'' 10, ex_dk [] 0], dks_lvm := [ex_dk [] 0], dks_mdd := [ex_dk [] 0]\<rparr>\<rparr>"
  obtain t where t: "totalsyst CHR ''d'' ?new ?tot = Some t"
    "names pdk_name (take 1 (dks_dsk (ss_dsk t))) = [''sda'']"
    "dsk_counts (dks_dsk (ss_dsk t) ! 0) = map2 (+) (dsk_counts (ex_dk ''sdb'' 10)) (dsk_counts (ex_dk ''sda'' 3))"
    using totalsyst_dsk_by_position [of ?new "[ex_dk ''sda'' 3]" "ex_dk [] 0" "[]" ?tot "[]" "ex_dk [] 0" "[]" "[]" "ex_dk [] 0" "[]"]
    by (auto simp: ex_dk_def cnonempty_def)
  then show ?thesis by (simp add: ex_dk_def dsk_counts_def)
qed

end
