(* ===== verification/Bandwidth.thy ===== *)
theory Bandwidth
  imports Prelude
begin

text \<open>
  The per-flow byte counts of \<^verbatim>\<open>src/Qt/ZMonitor/PacketCapture/packetcap.c\<close> (the same list is in
  \<^verbatim>\<open>SocketMornitoring/zsocket.c\<close>).  \<open>Lbandwidth\<close> is \<open>None\<close> while it is NULL, and otherwise the nodes in the order
  of their \<open>next\<close> links; a node is only reached through this list, so that a pointer to a node is
  its position.  A packet is the list of the bytes that were captured; reading behind it is
  undefined.
\<close>

section \<open>The list of flows\<close>

record bandwidth =
  bw_source :: u32
  bw_dest :: u32
  bw_sport :: u16
  bw_dport :: u16
  bw_data :: u32

type_synonym listbandwidth = "bandwidth list option"
type_synonym flow = "u32 \<times> u32 \<times> u16 \<times> u16"

fun lookup_nodes :: "u32 \<Rightarrow> u32 \<Rightarrow> u16 \<Rightarrow> u16 \<Rightarrow> bandwidth list \<Rightarrow> nat \<Rightarrow> nat option" where
  "lookup_nodes source dest sport dport [] i = None"
| "lookup_nodes source dest sport dport (temp # ns) i =
     (if bw_source temp = source \<and> bw_dest temp = dest \<and> bw_dport temp = dport \<and> bw_sport temp = sport
      then Some i else lookup_nodes source dest sport dport ns (i + 1))"

definition lookupBandwidth :: "listbandwidth \<Rightarrow> u32 \<Rightarrow> u32 \<Rightarrow> u16 \<Rightarrow> u16 \<Rightarrow> nat option" where
  "lookupBandwidth L source dest sport dport =
     (case L of None \<Rightarrow> None | Some ns \<Rightarrow> lookup_nodes source dest sport dport ns 0)"

text \<open>\<open>m1\<close> and \<open>m2\<close> say whether the two calls of \<open>malloc\<close> succeed; their results are not checked.\<close>

definition addBandwidth :: "bool \<Rightarrow> bool \<Rightarrow> listbandwidth \<Rightarrow> u32 \<Rightarrow> u32 \<Rightarrow> u16 \<Rightarrow> u16 \<Rightarrow> u32 \<Rightarrow> listbandwidth option" where
  "addBandwidth m1 m2 L source dest sport dport data =
     (case lookupBandwidth L source dest sport dport of
        Some i \<Rightarrow> do {
          ns \<leftarrow> L;
          ns \<leftarrow> aupd ns i (\<lambda>temp. temp\<lparr>bw_data := bw_data temp + data\<rparr>);
          Some (Some ns)
        }
      | None \<Rightarrow>
          if \<not> m1 then None
          else let node = \<lparr>bw_source = source, bw_dest = dest, bw_sport = sport, bw_dport = dport, bw_data = data\<rparr>
               in case L of
                    None \<Rightarrow> if \<not> m2 then None else Some (Some [node])
                  | Some ns \<Rightarrow> Some (Some (node # ns)))"

section \<open>Packets\<close>

definition SIZE_ETHERNET :: nat where "SIZE_ETHERNET = 14"
definition IPPROTO_TCP :: byte where "IPPROTO_TCP = 6"
definition IPPROTO_UDP :: byte where "IPPROTO_UDP = 17"

text \<open>Integers in memory, on a little-endian machine, and \<open>ntohs\<close>.\<close>

definition le16 :: "byte list \<Rightarrow> nat \<Rightarrow> u16 option" where
  "le16 p i = do { a \<leftarrow> aget p i; b \<leftarrow> aget p (i + 1); Some (ucast a + 256 * ucast b) }"

definition le32 :: "byte list \<Rightarrow> nat \<Rightarrow> u32 option" where
  "le32 p i = do {
     a \<leftarrow> aget p i; b \<leftarrow> aget p (i + 1); c \<leftarrow> aget p (i + 2); d \<leftarrow> aget p (i + 3);
     Some (ucast a + 256 * ucast b + 65536 * ucast c + 16777216 * ucast d)
   }"

definition ntohs :: "u16 \<Rightarrow> u16" where
  "ntohs w = push_bit 8 w OR drop_bit 8 w"

text \<open>The header lengths \<open>IP_HL(ip) * 4\<close> and \<open>TH_OFF(tcp) * 4\<close>; the fields lie behind the Ethernet header.\<close>

definition IP_HL :: "byte \<Rightarrow> nat" where "IP_HL vhl = unat (vhl AND 0x0f)"
definition TH_OFF :: "byte \<Rightarrow> nat" where "TH_OFF offx2 = unat (drop_bit 4 (offx2 AND 0xf0))"

text \<open>
  The addresses and the length of the IP header, the ports of the header behind it, and the entry
  in the list, for both protocols.
\<close>

definition account :: "bool \<Rightarrow> bool \<Rightarrow> listbandwidth \<Rightarrow> byte list \<Rightarrow> nat \<Rightarrow> nat \<Rightarrow> listbandwidth option" where
  "account m1 m2 L packet size_ip size_hdr = do {
     ip_len \<leftarrow> le16 packet (SIZE_ETHERNET + 2);
     let size_payload = (ucast (ntohs ip_len) - of_nat (size_ip + size_hdr) :: i32);
     ip_src \<leftarrow> le32 packet (SIZE_ETHERNET + 12);
     ip_dst \<leftarrow> le32 packet (SIZE_ETHERNET + 16);
     sport \<leftarrow> le16 packet (SIZE_ETHERNET + size_ip);
     dport \<leftarrow> le16 packet (SIZE_ETHERNET + size_ip + 2);
     addBandwidth m1 m2 L ip_src ip_dst sport dport size_payload
   }"

definition got_packet :: "bool \<Rightarrow> bool \<Rightarrow> listbandwidth \<Rightarrow> byte list \<Rightarrow> listbandwidth option" where
  "got_packet m1 m2 L packet = do {
     vhl \<leftarrow> aget packet SIZE_ETHERNET;
     let size_ip = IP_HL vhl * 4;
     if size_ip < 20 then Some L
     else do {
       ip_p \<leftarrow> aget packet (SIZE_ETHERNET + 9);
       if ip_p = IPPROTO_TCP then do {
         th_offx2 \<leftarrow> aget packet (SIZE_ETHERNET + size_ip + 12);
         let size_tcp = TH_OFF th_offx2 * 4;
         if size_tcp < 20 then Some L else account m1 m2 L packet size_ip size_tcp
       }
       else if ip_p = IPPROTO_UDP then account m1 m2 L packet size_ip 8
       else Some L
     }
   }"

text \<open>\<open>pcap_loop\<close> calls \<open>got_packet\<close> for every packet.\<close>

fun capture :: "listbandwidth \<Rightarrow> byte list list \<Rightarrow> listbandwidth option" where
  "capture L [] = Some L"
| "capture L (p # ps) = do { L \<leftarrow> got_packet True True L p; capture L ps }"

section \<open>Counting flows\<close>

text \<open>
  What a capture needs of a table of flows: adding to a flow changes the count of this flow
  only.  The client adds up any sequence of entries.
\<close>

locale flow_counter =
  fixes look :: "'t \<Rightarrow> 'k \<Rightarrow> u32" and put :: "'t \<Rightarrow> 'k \<Rightarrow> u32 \<Rightarrow> 't"
  assumes look_put: "look (put t k d) k' = (if k' = k then look t k + d else look t k')"
begin

lemma look_fold:
  "look (fold (\<lambda>(k, d) t. put t k d) xs t) k = look t k + sum_list (map snd (filter (\<lambda>x. fst x = k) xs))"
  by (induction xs arbitrary: t) (auto simp: look_put)

end

definition flow_of :: "bandwidth \<Rightarrow> flow" where
  "flow_of b = (bw_source b, bw_dest b, bw_sport b, bw_dport b)"

definition flow_data :: "listbandwidth \<Rightarrow> flow \<Rightarrow> u32" where
  "flow_data L k = (case k of (s, d, sp, dp) \<Rightarrow>
     case lookupBandwidth L s d sp dp of None \<Rightarrow> 0 | Some i \<Rightarrow> bw_data (the L ! i))"

definition flow_add :: "listbandwidth \<Rightarrow> flow \<Rightarrow> u32 \<Rightarrow> listbandwidth" where
  "flow_add L k data = (case k of (s, d, sp, dp) \<Rightarrow> the (addBandwidth True True L s d sp dp data))"

lemma lookup_nodes_Suc: "lookup_nodes s d sp dp ns (Suc i) = map_option Suc (lookup_nodes s d sp dp ns i)"
  by (induction ns arbitrary: i) auto

lemma lookup_nodes_Some:
  "lookup_nodes s d sp dp ns 0 = Some i \<Longrightarrow> i < length ns \<and> flow_of (ns ! i) = (s, d, sp, dp)"
  by (induction ns arbitrary: i) (auto simp: flow_of_def lookup_nodes_Suc split: if_splits)

lemma lookup_nodes_None: "lookup_nodes s d sp dp ns i = None \<longleftrightarrow> (s, d, sp, dp) \<notin> flow_of ` set ns"
  by (induction ns arbitrary: i) (auto simp: flow_of_def)

lemma lookup_nodes_cong: "map flow_of ns = map flow_of ms \<Longrightarrow> lookup_nodes s d sp dp ns i = lookup_nodes s d sp dp ms i"
proof (induction ns arbitrary: ms i)
  case (Cons n ns)
  then show ?case by (cases ms) (auto simp: flow_of_def)
qed simp

lemma map_flow_of_update: "i < length ns \<Longrightarrow> map flow_of (ns[i := (ns ! i)\<lparr>bw_data := x\<rparr>]) = map flow_of ns"
  by (rule nth_equalityI) (auto simp: nth_list_update flow_of_def)

lemma lookup_nodes_update:
  "i < length ns \<Longrightarrow> lookup_nodes s d sp dp (ns[i := (ns ! i)\<lparr>bw_data := x\<rparr>]) j = lookup_nodes s d sp dp ns j"
  by (rule lookup_nodes_cong) (rule map_flow_of_update)

lemma addBandwidth_flow_add: "addBandwidth True True L s d sp dp data = Some (flow_add L (s, d, sp, dp) data)"
  by (auto simp: flow_add_def addBandwidth_def lookupBandwidth_def dest: lookup_nodes_Some split: option.splits)

lemma flow_data_add: "flow_data (flow_add L k d) k' = (if k' = k then flow_data L k + d else flow_data L k')"
proof -
  obtain s e sp dp where k: "k = (s, e, sp, dp)" by (cases k) auto
  obtain s' e' sp' dp' where k': "k' = (s', e', sp', dp')" by (cases k') auto
  show ?thesis
  proof (cases "lookupBandwidth L s e sp dp")
    case (Some i)
    then obtain ns where L: "L = Some ns" and i: "lookup_nodes s e sp dp ns 0 = Some i"
      by (auto simp: lookupBandwidth_def split: option.splits)
    show ?thesis
      using lookup_nodes_Some [OF i] lookup_nodes_Some [of s' e' sp' dp' ns] i
      by (auto simp: k k' L flow_data_def flow_add_def addBandwidth_def lookupBandwidth_def lookup_nodes_update
          nth_list_update split: option.splits)
  next
    case None
    then show ?thesis
      by (auto simp: k k' lookup_nodes_Suc flow_data_def flow_add_def addBandwidth_def lookupBandwidth_def split: option.splits)
  qed
qed

interpretation flows: flow_counter flow_data flow_add
  by unfold_locales (rule flow_data_add)

section \<open>What a packet accounts for\<close>

text \<open>
  The flow and the number of payload bytes of a packet, computed from its bytes; \<open>None\<close> when the packet is
  not counted.  \<open>complete\<close>: the captured bytes contain the headers the packet claims to have.
\<close>

definition header_size :: "byte list \<Rightarrow> nat option" where
  "header_size p =
     (let size_ip = IP_HL (p ! 14) * 4 in
      if size_ip < 20 then None
      else if p ! 23 = IPPROTO_TCP then
        (let size_tcp = TH_OFF (p ! (26 + size_ip)) * 4 in if size_tcp < 20 then None else Some (size_ip + size_tcp))
      else if p ! 23 = IPPROTO_UDP then Some (size_ip + 8)
      else None)"

definition packet_flow :: "byte list \<Rightarrow> flow" where
  "packet_flow p = (let h = 14 + IP_HL (p ! 14) * 4 in
     (the (le32 p 26), the (le32 p 30), the (le16 p h), the (le16 p (h + 2))))"

definition packet_payload :: "byte list \<Rightarrow> nat \<Rightarrow> u32" where
  "packet_payload p hdr = ucast (ntohs (the (le16 p 16))) - of_nat hdr"

definition complete :: "byte list \<Rightarrow> bool" where
  "complete p \<longleftrightarrow> 34 \<le> length p \<and>
     (let size_ip = IP_HL (p ! 14) * 4 in
      (p ! 23 = IPPROTO_TCP \<longrightarrow> 14 + size_ip + 12 < length p) \<and>
      (p ! 23 = IPPROTO_UDP \<longrightarrow> 14 + size_ip + 3 < length p))"

lemma le16_Some: "i + 1 < length p \<Longrightarrow> \<exists>w. le16 p i = Some w"
  by (simp add: le16_def)

lemma le32_Some: "i + 3 < length p \<Longrightarrow> \<exists>w. le32 p i = Some w"
  by (simp add: le32_def)

lemma account_flow:
  assumes "34 \<le> length p" and "14 + size_ip + 3 < length p" and "size_ip = IP_HL (p ! 14) * 4"
  shows "account True True L p size_ip h = Some (flow_add L (packet_flow p) (packet_payload p (size_ip + h)))"
proof -
  obtain a b c d e where "le16 p 16 = Some a" "le32 p 26 = Some b" "le32 p 30 = Some c"
    "le16 p (14 + size_ip) = Some d" "le16 p (14 + size_ip + 2) = Some e"
    using assms(1,2) le16_Some [of 16 p] le32_Some [of 26 p] le32_Some [of 30 p]
      le16_Some [of "14 + size_ip" p] le16_Some [of "14 + size_ip + 2" p] by auto
  then show ?thesis
    by (simp add: account_def SIZE_ETHERNET_def packet_flow_def packet_payload_def addBandwidth_flow_add
        flip: assms(3))
qed

lemma got_packet_flow:
  assumes "complete p"
  shows "got_packet True True L p = Some (case header_size p of None \<Rightarrow> L
    | Some h \<Rightarrow> flow_add L (packet_flow p) (packet_payload p h))"
  using assms
  by (auto simp: got_packet_def SIZE_ETHERNET_def header_size_def complete_def Let_def account_flow
      IPPROTO_TCP_def IPPROTO_UDP_def)

definition counted :: "byte list list \<Rightarrow> (flow \<times> u32) list" where
  "counted ps = List.map_filter (\<lambda>p. map_option (\<lambda>h. (packet_flow p, packet_payload p h)) (header_size p)) ps"

lemma capture_fold:
  "\<forall>p\<in>set ps. complete p \<Longrightarrow> capture L ps = Some (fold (\<lambda>(k, d) t. flow_add t k d) (counted ps) L)"
  by (induction ps arbitrary: L) (auto simp: got_packet_flow counted_def map_filter_simps split: option.splits)

definition one_node_per_flow :: "listbandwidth \<Rightarrow> bool" where
  "one_node_per_flow L \<longleftrightarrow> (case L of None \<Rightarrow> True | Some ns \<Rightarrow> distinct (map flow_of ns))"

lemma one_node_add: "one_node_per_flow L \<Longrightarrow> one_node_per_flow (flow_add L k d)"
proof -
  assume L: "one_node_per_flow L"
  obtain s e sp dp where k: "k = (s, e, sp, dp)" by (cases k) auto
  show ?thesis
    using L lookup_nodes_None [of s e sp dp] lookup_nodes_Some [of s e sp dp]
    by (auto simp: k flow_add_def addBandwidth_def lookupBandwidth_def one_node_per_flow_def map_flow_of_update
        flow_of_def split: option.splits)
qed

lemma one_node_fold: "one_node_per_flow L \<Longrightarrow> one_node_per_flow (fold (\<lambda>(k, d) t. flow_add t k d) xs L)"
  by (induction xs arbitrary: L) (auto simp: one_node_add)

lemma unat_ucast_16_32: "unat (ucast (w :: 16 word) :: 32 word) = unat w"
  using unsigned_less [where 'a = nat and w = w] by (simp add: unsigned_ucast_eq take_bit_nat_eq_self)

section \<open>Properties\<close>

text \<open>
  C36: A capture of packets that are long enough for their headers returns, keeps one node per flow,
  and every flow has gained exactly the payload bytes of its own packets, modulo \<open>2 ^ 32\<close>.
\<close>

theorem capture_counts:
  assumes "\<forall>p\<in>set ps. complete p" and "one_node_per_flow L"
  shows "\<exists>L'. capture L ps = Some L' \<and> one_node_per_flow L' \<and>
    (\<forall>k. flow_data L' k = flow_data L k + sum_list (map snd (filter (\<lambda>x. fst x = k) (counted ps))))"
  using capture_fold [OF assms(1)] one_node_fold [OF assms(2)] flows.look_fold by fastforce

definition ex_packet :: "byte \<Rightarrow> byte list" where
  "ex_packet len = replicate 14 0 @ [0x45, 0, 0, len, 0, 0, 0, 0, 64, 17, 0, 0, 10, 0, 0, 1, 10, 0, 0, 2,
     0x13, 0x88, 0, 53, 0, 0, 0, 0]"

theorem capture_counts_witness:
  "\<exists>L'. capture None [ex_packet 128, ex_packet 40] = Some L' \<and>
    flow_data L' (packet_flow (ex_packet 128)) = 112"
proof -
  have c: "\<forall>p\<in>set [ex_packet 128, ex_packet 40]. complete p"
    by code_simp
  have f: "counted [ex_packet 128, ex_packet 40] =
    [(packet_flow (ex_packet 128), 100), (packet_flow (ex_packet 128), 12)]"
    by code_simp
  show ?thesis using capture_counts [OF c, of None] by (auto simp: f one_node_per_flow_def flow_data_def lookupBandwidth_def split: prod.split)
qed

text \<open>
  The callback never looks at the captured length: with memory available it reads behind the packet exactly when the
  bytes up to the last header field it needs are missing.
\<close>

theorem got_packet_overread:
  "got_packet True True L p = None \<longleftrightarrow>
     length p \<le> 14 \<or>
     20 \<le> IP_HL (p ! 14) * 4 \<and>
       (length p \<le> 23 \<or>
        p ! 23 = IPPROTO_TCP \<and> (length p \<le> 26 + IP_HL (p ! 14) * 4) \<or>
        p ! 23 = IPPROTO_UDP \<and> (length p \<le> 17 + IP_HL (p ! 14) * 4))"
proof -
  have "account True True L p s h = None \<longleftrightarrow> length p \<le> 17 + s" if "20 \<le> s" for s h
    using that by (auto simp: account_def SIZE_ETHERNET_def le16_def le32_def addBandwidth_flow_add Let_def
        bind_eq_None_conv)
  then show ?thesis
    by (auto simp: got_packet_def SIZE_ETHERNET_def Let_def aget_def IPPROTO_TCP_def IPPROTO_UDP_def
        simp del: not_None_eq)
qed

text \<open>
  A UDP packet whose IP length is smaller than its headers, such as a truncated or forged one,
  is counted with a wrapped length: its flow grows by more than four billion bytes.
\<close>

theorem short_length_wraps:
  assumes "complete p" and "p ! 23 = IPPROTO_UDP" and "20 \<le> IP_HL (p ! 14) * 4"
    and "unat (ntohs (the (le16 p 16))) < IP_HL (p ! 14) * 4 + 8"
  shows "\<exists>L' n. got_packet True True L p = Some L' \<and>
    flow_data L' (packet_flow p) = flow_data L (packet_flow p) + n \<and> 2 ^ 32 - 68 \<le> unat n"
proof -
  let ?h = "IP_HL (p ! 14) * 4 + 8" and ?l = "ntohs (the (le16 p 16))"
  have "IP_HL (p ! 14) \<le> 15"
    using word_and_le1 [of "p ! 14" "0x0f"] by (simp add: IP_HL_def word_le_nat_alt)
  moreover have "unat (of_nat ?h :: u32) = ?h"
    using calculation by (simp only: unsigned_of_nat) (simp add: take_bit_nat_eq_self)
  moreover have "unat (ucast ?l - of_nat ?h :: u32) = 2 ^ 32 + unat ?l - ?h"
    using calculation assms(4)
    by (simp only: unat_sub_if_size word_size unat_ucast_16_32) simp
  ultimately have "2 ^ 32 - 68 \<le> unat (packet_payload p ?h)"
    unfolding packet_payload_def by linarith
  moreover have "header_size p = Some ?h"
    using assms(2,3) by (simp add: header_size_def Let_def IPPROTO_TCP_def IPPROTO_UDP_def)
  ultimately show ?thesis using got_packet_flow [OF assms(1), of L] flow_data_add by auto
qed

theorem short_length_wraps_witness:
  "\<exists>L' n. got_packet True True None (ex_packet 10) = Some L' \<and>
    flow_data L' (packet_flow (ex_packet 10)) = flow_data None (packet_flow (ex_packet 10)) + n \<and> 2 ^ 32 - 68 \<le> unat n"
proof -
  have "complete (ex_packet 10)" "ex_packet 10 ! 23 = IPPROTO_UDP" "20 \<le> IP_HL (ex_packet 10 ! 14) * 4"
    "unat (ntohs (the (le16 (ex_packet 10) 16))) < IP_HL (ex_packet 10 ! 14) * 4 + 8"
    by code_simp+
  then show ?thesis by (rule short_length_wraps)
qed

end
