(* ===== verification/Addr_Parser.thy ===== *)
theory Addr_Parser
  imports Bandwidth
begin

text \<open>
  Addresses of the kernel's socket tables: \<open>addressParser\<close> of
  \<^verbatim>\<open>src/Qt/ZMonitor/SocketMornitoring/zsocket.c\<close> and of \<^verbatim>\<open>src/Qt/Monitoring/ultis.c\<close>, which turn the eight
  hexadecimal digits of an address into dotted decimal, and \<open>findBandwidth\<close>, which turns them
  into an integer to search the list of flows.  The character arrays are accessed by index; the variable
  \<open>temp\<close> holds two digits at most, so that it never overflows.
\<close>

section \<open>Digits\<close>

text \<open>The value of the chains of comparisons and of the switch; any other character changes nothing.\<close>

definition hexdigit :: "char \<Rightarrow> nat option" where
  "hexdigit = map_of (zip ''0123456789ABCDEF'' [0..<16])"

definition hexstep :: "nat \<Rightarrow> char \<Rightarrow> nat" where
  "hexstep temp c = (case hexdigit c of Some d \<Rightarrow> 16 * temp + d | None \<Rightarrow> temp)"

definition digitParser :: "nat \<Rightarrow> char" where
  "digitParser x = (if x \<le> 9 then ''0123456789'' ! x else NUL)"

section \<open>addressParser\<close>

text \<open>
  The part of the loop for an odd \<open>i\<close>, with the index \<open>p\<close> of the first digit: \<open>12 - i/2*4\<close> in \<open>zsocket.c\<close>,
  where the dot is in front, and \<open>i/2*4\<close> in \<open>ultis.c\<close>, where it is behind.
\<close>

definition put_byte :: "nat \<Rightarrow> nat \<Rightarrow> chars \<Rightarrow> chars option" where
  "put_byte p temp output = do {
     output \<leftarrow> aupd output p (\<lambda>_. if temp > 99 then digitParser (temp div 100) else CHR ''0'');
     output \<leftarrow> aupd output (p + 1) (\<lambda>_. if temp > 9 then digitParser (temp div 10 mod 10) else CHR ''0'');
     aupd output (p + 2) (\<lambda>_. digitParser (temp mod 100 mod 10))
   }"

fun addr_loop :: "chars \<Rightarrow> nat list \<Rightarrow> nat \<Rightarrow> chars \<Rightarrow> chars option" where
  "addr_loop addr [] temp output = Some output"
| "addr_loop addr (i # is) temp output = do {
     c \<leftarrow> aget addr i;
     let temp = hexstep temp c;
     if i mod 2 \<noteq> 0 then do {
       output \<leftarrow> put_byte (12 - i div 2 * 4) temp output;
       output \<leftarrow> (if i \<noteq> 7 then aupd output (11 - i div 2 * 4) (\<lambda>_. CHR ''.'') else Some output);
       addr_loop addr is 0 output
     }
     else addr_loop addr is temp output
   }"

definition addressParser :: "chars \<Rightarrow> chars \<Rightarrow> chars option" where
  "addressParser addr output = addr_loop addr [0..<8] 0 output"

fun ultis_addr_loop :: "chars \<Rightarrow> nat list \<Rightarrow> nat \<Rightarrow> chars \<Rightarrow> chars option" where
  "ultis_addr_loop addr [] temp output = Some output"
| "ultis_addr_loop addr (i # is) temp output = do {
     c \<leftarrow> aget addr i;
     let temp = hexstep temp c;
     if i mod 2 \<noteq> 0 then do {
       output \<leftarrow> put_byte (0 + i div 2 * 4) temp output;
       output \<leftarrow> (if i \<noteq> 7 then aupd output (3 + i div 2 * 4) (\<lambda>_. CHR ''.'') else Some output);
       ultis_addr_loop addr is 0 output
     }
     else ultis_addr_loop addr is temp output
   }"

definition ultis_addressParser :: "chars \<Rightarrow> chars \<Rightarrow> chars option" where
  "ultis_addressParser addr output = ultis_addr_loop addr [0..<8] 0 output"

section \<open>findBandwidth\<close>

definition hexacc :: "u32 \<Rightarrow> char \<Rightarrow> u32" where
  "hexacc w c = (case hexdigit c of Some d \<Rightarrow> w * 16 + of_nat d | None \<Rightarrow> w)"

definition multiplier :: "nat \<Rightarrow> u32" where
  "multiplier i = (if i = 7 then 16 * 16 * 16 else if i = 5 then 16 * 16 else if i = 3 then 16 else 1)"

fun find_loop :: "chars \<Rightarrow> chars \<Rightarrow> nat list \<Rightarrow> u32 \<times> u32 \<Rightarrow> u32 \<times> u32 \<Rightarrow> (u32 \<times> u32) option" where
  "find_loop rem_addr local_addr [] (dest, source) (reD, reS) = Some (reD, reS)"
| "find_loop rem_addr local_addr (i # is) (dest, source) (reD, reS) = do {
     r \<leftarrow> aget rem_addr i;
     l \<leftarrow> aget local_addr i;
     let dest = hexacc dest r;
     let source = hexacc source l;
     if i mod 2 \<noteq> 0
     then find_loop rem_addr local_addr is (0, 0) (reD + dest * multiplier i, reS + source * multiplier i)
     else find_loop rem_addr local_addr is (dest, source) (reD, reS)
   }"

text \<open>The count that is found, before it is converted to \<open>float\<close>.\<close>

definition findBandwidth :: "listbandwidth \<Rightarrow> chars \<Rightarrow> chars \<Rightarrow> i32 \<Rightarrow> i32 \<Rightarrow> u32 option" where
  "findBandwidth L rem_addr local_addr rem_port local_port = do {
     (reD, reS) \<leftarrow> find_loop rem_addr local_addr [0..<8] (0, 0) (0, 0);
     case lookupBandwidth L reS reD (ucast local_port) (ucast rem_port) of
       Some i \<Rightarrow> do { ns \<leftarrow> L; b \<leftarrow> aget ns i; Some (bw_data b) }
     | None \<Rightarrow> Some 0
   }"

section \<open>Kernel notation and dotted decimal\<close>

text \<open>
  The kernel prints the four octets \<open>a.b.c.d\<close> of an address as one little-endian word in upper
  case hexadecimal, the last octet first.
\<close>

definition hexchar :: "nat \<Rightarrow> char" where "hexchar n = ''0123456789ABCDEF'' ! n"

definition hex2 :: "nat \<Rightarrow> string" where "hex2 b = [hexchar (b div 16), hexchar (b mod 16)]"

definition dec3 :: "nat \<Rightarrow> string" where
  "dec3 b = [digitParser (b div 100), digitParser (b div 10 mod 10), digitParser (b mod 10)]"

definition kernel_addr :: "nat \<Rightarrow> nat \<Rightarrow> nat \<Rightarrow> nat \<Rightarrow> string" where
  "kernel_addr a b c d = hex2 d @ hex2 c @ hex2 b @ hex2 a"

definition dotted :: "nat \<Rightarrow> nat \<Rightarrow> nat \<Rightarrow> nat \<Rightarrow> string" where
  "dotted a b c d = dec3 a @ ''.'' @ dec3 b @ ''.'' @ dec3 c @ ''.'' @ dec3 d"

lemma hexdigit_hexchar: "n < 16 \<Longrightarrow> hexdigit (hexchar n) = Some n"
proof -
  have "\<forall>n\<in>set [0..<16]. hexdigit (hexchar n) = Some n" by code_simp
  then show "n < 16 \<Longrightarrow> hexdigit (hexchar n) = Some n" by auto
qed

lemma hexstep_hex2:
  "b < 256 \<Longrightarrow> hexstep (hexstep 0 (hexchar (b div 16))) (hexchar (b mod 16)) = b"
  by (simp add: hexstep_def hexdigit_hexchar)

lemma put_byte_dec3:
  assumes "p + 2 < length output"
  shows "put_byte p b output = Some (output[p := dec3 b ! 0, p + 1 := dec3 b ! 1, p + 2 := dec3 b ! 2])"
proof -
  have "digitParser (b div 100) = CHR ''0''" if "b \<le> 99" using that by (simp add: digitParser_def)
  moreover have "digitParser (b div 10 mod 10) = CHR ''0''" if "b \<le> 9" using that by (simp add: digitParser_def)
  moreover have "b mod 100 mod 10 = b mod 10" by (simp add: mod_mod_cancel)
  ultimately show ?thesis
    using assms by (auto simp: put_byte_def dec3_def aupd_def)
qed

lemma dec3_nths: "dec3 b = [dec3 b ! 0, dec3 b ! 1, dec3 b ! 2]"
  by (simp add: dec3_def)

lemma length_kernel_addr [simp]: "length (kernel_addr a b c d) = 8"
  by (simp add: kernel_addr_def hex2_def)

lemma nth_kernel_addr:
  "kernel_addr a b c d ! 0 = hexchar (d div 16)" "kernel_addr a b c d ! Suc 0 = hexchar (d mod 16)"
  "kernel_addr a b c d ! 2 = hexchar (c div 16)" "kernel_addr a b c d ! 3 = hexchar (c mod 16)"
  "kernel_addr a b c d ! 4 = hexchar (b div 16)" "kernel_addr a b c d ! 5 = hexchar (b mod 16)"
  "kernel_addr a b c d ! 6 = hexchar (a div 16)" "kernel_addr a b c d ! 7 = hexchar (a mod 16)"
  by (simp_all add: kernel_addr_def hex2_def)

lemma upt_0_8: "[0..<8] = [0, 1, 2, 3, 4, 5, 6, 7::nat]"
  by (simp add: upt_rec)

lemmas addr_simps = upt_0_8 nth_append nth_kernel_addr Let_def

lemma addressParser_updates:
  assumes "a < 256" "b < 256" "c < 256" "d < 256" and "15 \<le> length output"
  shows "addressParser (kernel_addr a b c d @ r) output = Some (output
    [12 := dec3 d ! 0, 13 := dec3 d ! 1, 14 := dec3 d ! 2, 11 := CHR ''.'',
     8 := dec3 c ! 0, 9 := dec3 c ! 1, 10 := dec3 c ! 2, 7 := CHR ''.'',
     4 := dec3 b ! 0, 5 := dec3 b ! 1, 6 := dec3 b ! 2, 3 := CHR ''.'',
     0 := dec3 a ! 0, 1 := dec3 a ! 1, 2 := dec3 a ! 2])"
  using assms by (simp add: addressParser_def addr_simps hexstep_hex2 put_byte_dec3) (simp add: numeral_2_eq_2)

lemma ultis_addressParser_updates:
  assumes "a < 256" "b < 256" "c < 256" "d < 256" and "15 \<le> length output"
  shows "ultis_addressParser (kernel_addr a b c d @ r) output = Some (output
    [0 := dec3 d ! 0, 1 := dec3 d ! 1, 2 := dec3 d ! 2, 3 := CHR ''.'',
     4 := dec3 c ! 0, 5 := dec3 c ! 1, 6 := dec3 c ! 2, 7 := CHR ''.'',
     8 := dec3 b ! 0, 9 := dec3 b ! 1, 10 := dec3 b ! 2, 11 := CHR ''.'',
     12 := dec3 a ! 0, 13 := dec3 a ! 1, 14 := dec3 a ! 2])"
  using assms by (simp add: ultis_addressParser_def addr_simps hexstep_hex2 put_byte_dec3) (simp add: numeral_2_eq_2)

text \<open>Writing fifteen characters at their places is writing a string in front.\<close>

lemma length_dec3 [simp]: "length (dec3 b) = 3"
  by (simp add: dec3_def)

lemma length_dotted [simp]: "length (dotted a b c d) = 15"
  by (simp add: dotted_def)

lemma all_below_15: "(\<forall>i<15. P i) \<longleftrightarrow>
  P 0 \<and> P 1 \<and> P 2 \<and> P 3 \<and> P 4 \<and> P 5 \<and> P 6 \<and> P 7 \<and> P 8 \<and> P 9 \<and> P 10 \<and> P 11 \<and> P 12 \<and> P 13 \<and> P (14::nat)"
proof -
  have "(\<forall>i<15. P i) \<longleftrightarrow> (\<forall>i\<in>set [0..<15]. P i)" by auto
  also have "[0..<15] = [0, 1, 2, 3, 4, 5, 6, 7, 8, 9, 10, 11, 12, 13, 14::nat]" by (simp add: upt_rec)
  finally show ?thesis by simp
qed

lemma front_eqI:
  assumes "length xs = length zs" and "15 \<le> length zs" and "length ys = 15"
    and "\<forall>i<15. xs ! i = ys ! i" and "\<forall>i. 15 \<le> i \<longrightarrow> xs ! i = zs ! i"
  shows "xs = ys @ drop 15 zs"
  using assms by (intro nth_equalityI) (auto simp: nth_append)

lemma dotted_updates:
  assumes "15 \<le> length xs"
  shows "xs[12 := dec3 d ! 0, 13 := dec3 d ! 1, 14 := dec3 d ! 2, 11 := CHR ''.'',
     8 := dec3 c ! 0, 9 := dec3 c ! 1, 10 := dec3 c ! 2, 7 := CHR ''.'',
     4 := dec3 b ! 0, 5 := dec3 b ! 1, 6 := dec3 b ! 2, 3 := CHR ''.'',
     0 := dec3 a ! 0, 1 := dec3 a ! 1, 2 := dec3 a ! 2] = dotted a b c d @ drop 15 xs" (is ?thesis1)
    and "xs[0 := dec3 a ! 0, 1 := dec3 a ! 1, 2 := dec3 a ! 2, 3 := CHR ''.'',
     4 := dec3 b ! 0, 5 := dec3 b ! 1, 6 := dec3 b ! 2, 7 := CHR ''.'',
     8 := dec3 c ! 0, 9 := dec3 c ! 1, 10 := dec3 c ! 2, 11 := CHR ''.'',
     12 := dec3 d ! 0, 13 := dec3 d ! 1, 14 := dec3 d ! 2] = dotted a b c d @ drop 15 xs" (is ?thesis2)
proof -
  have "xs \<noteq> []" using assms by auto
  with assms show ?thesis1 and ?thesis2
    by - (rule front_eqI; simp add: all_below_15 dotted_def nth_append numeral_2_eq_2 numeral_3_eq_3)+
qed

lemma hexacc_hex2:
  assumes "b < 256"
  shows "hexacc (hexacc 0 (hexchar (b div 16))) (hexchar (b mod 16)) = of_nat b"
proof -
  have "hexacc (hexacc 0 (hexchar (b div 16))) (hexchar (b mod 16)) = of_nat (b div 16 * 16 + b mod 16)"
    using assms unfolding of_nat_add of_nat_mult by (simp add: hexacc_def hexdigit_hexchar)
  then show ?thesis by (simp only: div_mult_mod_eq)
qed

text \<open>The integer \<open>findBandwidth\<close> makes of an address.\<close>

definition scrambled :: "nat \<Rightarrow> nat \<Rightarrow> nat \<Rightarrow> nat \<Rightarrow> nat" where
  "scrambled a b c d = d + 16 * c + 256 * b + 4096 * a"

lemma find_loop_scrambled:
  assumes "a < 256" "b < 256" "c < 256" "d < 256" and "a' < 256" "b' < 256" "c' < 256" "d' < 256"
  shows "find_loop (kernel_addr a' b' c' d' @ r') (kernel_addr a b c d @ r) [0..<8] (0, 0) (0, 0) =
    Some (of_nat (scrambled a' b' c' d'), of_nat (scrambled a b c d))"
  using assms by (simp add: addr_simps hexacc_hex2 multiplier_def scrambled_def algebra_simps)

lemma scrambled_small:
  assumes "a < 256" "b < 256" "c < 256" "d < 256"
  shows "unat (of_nat (scrambled a b c d) :: u32) < 2 ^ 24"
proof -
  have "scrambled a b c d < 2 ^ 24" using assms by (simp add: scrambled_def)
  then show ?thesis by (simp add: unsigned_of_nat take_bit_nat_eq_self)
qed

section \<open>Properties\<close>

text \<open>
  C37: For an address in the kernel's notation, \<open>addressParser\<close> writes its dotted decimal form with three digits per
  octet and the octets in reading order, stays inside an array of at least 15 characters, and
  leaves everything behind the 15th character as it was: no terminating NUL is written.
\<close>

theorem addressParser_dotted:
  assumes "a < 256" "b < 256" "c < 256" "d < 256" and "15 \<le> length output"
  shows "addressParser (kernel_addr a b c d @ r) output = Some (dotted a b c d @ drop 15 output)"
  using addressParser_updates [OF assms] dotted_updates(1) [OF assms(5)] by simp

theorem addressParser_dotted_witness:
  "addressParser ''0100007F'' (NUL # replicate 15 CHR ''x'') = Some ''127.000.000.001x''"
proof -
  have "kernel_addr 127 0 0 1 = ''0100007F''" "dotted 127 0 0 1 = ''127.000.000.001''" by code_simp+
  then show ?thesis
    using addressParser_dotted [of 127 0 0 1 "NUL # replicate 15 CHR ''x''" "[]"] by (simp add: numeral_eq_Suc)
qed

text \<open>
  The variant of \<open>ultis.c\<close> writes the octets of the same address in reverse order.
\<close>

theorem ultis_addressParser_reversed:
  assumes "a < 256" "b < 256" "c < 256" "d < 256" and "15 \<le> length output"
  shows "ultis_addressParser (kernel_addr a b c d @ r) output = Some (dotted d c b a @ drop 15 output)"
  using ultis_addressParser_updates [OF assms] dotted_updates(2) [OF assms(5)] by simp

theorem ultis_addressParser_reversed_witness:
  "ultis_addressParser ''0100007F'' (NUL # replicate 15 CHR ''x'') = Some ''001.000.000.127x''"
proof -
  have "kernel_addr 127 0 0 1 = ''0100007F''" "dotted 1 0 0 127 = ''001.000.000.127''" by code_simp+
  then show ?thesis
    using ultis_addressParser_reversed [of 127 0 0 1 "NUL # replicate 15 CHR ''x''" "[]"] by (simp add: numeral_eq_Suc)
qed

text \<open>
  \<open>findBandwidth\<close> weighs the octets with 1, 16, 256 and 4096 instead of powers of 256.  What it
  searches is below \<open>2 ^ 24\<close>, while the source address of every recorded packet from a host whose last octet is
  not zero is at least \<open>2 ^ 24\<close>: with such flows in the list it always finds nothing.
\<close>

theorem findBandwidth_misses:
  assumes "a < 256" "b < 256" "c < 256" "d < 256" and "a' < 256" "b' < 256" "c' < 256" "d' < 256"
    and "\<forall>n\<in>set ns. 2 ^ 24 \<le> unat (bw_source n)"
  shows "findBandwidth (Some ns) (kernel_addr a' b' c' d' @ r') (kernel_addr a b c d @ r) rem_port local_port = Some 0"
proof -
  have "lookup_nodes (of_nat (scrambled a b c d)) dest sport dport ns 0 = None" for dest sport dport
    using scrambled_small [OF assms(1-4)] assms(9) by (force simp: lookup_nodes_None flow_of_def)
  then show ?thesis by (simp add: findBandwidth_def find_loop_scrambled [OF assms(1-8)] lookupBandwidth_def)
qed

theorem findBandwidth_misses_witness:
  "findBandwidth (Some [\<lparr>bw_source = 0x0200000a, bw_dest = 0x0100000a, bw_sport = 0x5000, bw_dport = 0x1234, bw_data = 99\<rparr>])
     ''0100000A'' ''0200000A'' 0x3412 0x0050 = Some 0"
proof -
  have "kernel_addr 10 0 0 1 = ''0100000A''" "kernel_addr 10 0 0 2 = ''0200000A''" by code_simp+
  then show ?thesis
    using findBandwidth_misses [of 10 0 0 2 10 0 0 1
      "[\<lparr>bw_source = 0x0200000a, bw_dest = 0x0100000a, bw_sport = 0x5000, bw_dport = 0x1234, bw_data = 99\<rparr>]" "[]" "[]"]
    by simp
qed

end
