(* ===== verification/Prg_Cache.thy ===== *)
theory Prg_Cache
  imports Decimal "HOL-Library.Sublist"
begin

text \<open>
  The cache that maps the i-node of a socket to the process that has it open, of
  \<^verbatim>\<open>src/Qt/ZMonitor/SocketMornitoring/zsocket.c\<close>; \<open>prg_cache_get_con\<close> and \<open>prg_cache_clear\<close> are those of
  \<^verbatim>\<open>src/Qt/demo_netstat/main.c\<close>, which has the same cache.  A chain of the hash table is the list of its nodes in the order of
  their \<open>next\<close> links; new nodes go to its end.  What \<open>malloc\<close> and the file system answer are parameters; a node that \<open>malloc\<close> returns
  has arbitrary contents.
\<close>

section \<open>Strings\<close>

definition PROGNAME_WIDTH :: nat where "PROGNAME_WIDTH = 20"
definition SELINUX_WIDTH :: nat where "SELINUX_WIDTH = 50"
definition PRG_HASH_SIZE :: nat where "PRG_HASH_SIZE = 211"
definition PRG_SOCKET_PFX :: string where "PRG_SOCKET_PFX = ''socket:[''"
definition PRG_SOCKET_PFX2 :: string where "PRG_SOCKET_PFX2 = ''[0000]:''"

definition safe_strncpy :: "chars \<Rightarrow> chars \<Rightarrow> nat \<Rightarrow> chars option" where
  "safe_strncpy dst src n = do {
     dst \<leftarrow> aupd dst (n - 1) (\<lambda>_. NUL);
     Some (strncpy dst src (n - 1))
   }"

text \<open>
  \<open>strtoul\<close> with base 0, of the C library: white space, a sign, the base from the prefix, then the longest run of
  digits; the value and the rest of the string.  Without digits nothing is consumed; a value
  out of range gives \<open>ULONG_MAX\<close>.
\<close>

fun scan_sign :: "string \<Rightarrow> bool \<times> string" where
  "scan_sign (c # cs) = (if c = CHR ''-'' then (True, cs) else if c = CHR ''+'' then (False, cs) else (False, c # cs))"
| "scan_sign [] = (False, [])"

fun scan_base :: "string \<Rightarrow> nat \<times> string" where
  "scan_base (a # b # c # cs) =
     (if a = CHR ''0'' \<and> (b = CHR ''x'' \<or> b = CHR ''X'') \<and> is_digit_in 16 c then (16, c # cs)
      else if a = CHR ''0'' then (8, a # b # c # cs) else (10, a # b # c # cs))"
| "scan_base (a # cs) = (if a = CHR ''0'' then (8, a # cs) else (10, a # cs))"
| "scan_base [] = (10, [])"

definition strtoul :: "string \<Rightarrow> u64 \<times> string" where
  "strtoul s =
     (let (neg, t) = scan_sign (dropWhile isspace s); (base, t) = scan_base t in
      case t of
        [] \<Rightarrow> (0, s)
      | c # _ \<Rightarrow>
          if \<not> is_digit_in base c then (0, s)
          else let (v, rest) = scan_digits base 0 t in
               (if 2 ^ 64 \<le> v then - 1 else if neg then - of_nat v else of_nat v, rest))"

section \<open>Links of sockets\<close>

text \<open>The result and the new contents of \<open>*inode_p\<close>.\<close>

definition extract_type_1_socket_inode :: "string \<Rightarrow> u64 \<Rightarrow> i32 \<times> u64" where
  "extract_type_1_socket_inode lname inode =
     (if length lname < length PRG_SOCKET_PFX + 3 then (- 1, inode)
      else if take (length PRG_SOCKET_PFX) lname \<noteq> PRG_SOCKET_PFX then (- 1, inode)
      else if lname ! (length lname - 1) \<noteq> CHR '']'' then (- 1, inode)
      else let inode_str_len = length lname - length PRG_SOCKET_PFX - 1;
               inode_str = take inode_str_len (drop (length PRG_SOCKET_PFX) lname);
               (inode, serr) = strtoul inode_str
           in if serr \<noteq> [] \<or> inode = - 1 then (- 1, inode) else (0, inode))"

definition extract_type_2_socket_inode :: "string \<Rightarrow> u64 \<Rightarrow> i32 \<times> u64" where
  "extract_type_2_socket_inode lname inode =
     (if length lname < length PRG_SOCKET_PFX2 + 1 then (- 1, inode)
      else if take (length PRG_SOCKET_PFX2) lname \<noteq> PRG_SOCKET_PFX2 then (- 1, inode)
      else let (inode, serr) = strtoul (drop (length PRG_SOCKET_PFX2) lname)
           in if serr \<noteq> [] \<or> inode = - 1 then (- 1, inode) else (0, inode))"

section \<open>The cache\<close>

record prg_node =
  pn_inode :: u64
  pn_name :: chars
  pn_scon :: chars

record prg_cache =
  prg_hash :: "prg_node list list"
  prg_cache_loaded :: byte

definition PRG_HASHIT :: "u64 \<Rightarrow> nat" where
  "PRG_HASHIT x = unat x mod PRG_HASH_SIZE"

fun chain_has :: "u64 \<Rightarrow> prg_node list \<Rightarrow> bool" where
  "chain_has inode [] = False"
| "chain_has inode (pn # pns) = (if pn_inode pn = inode then True else chain_has inode pns)"

definition prg_cache_add :: "prg_node option \<Rightarrow> prg_cache \<Rightarrow> u64 \<Rightarrow> chars \<Rightarrow> chars \<Rightarrow> prg_cache option" where
  "prg_cache_add malloc cache inode name scon = do {
     let hi = PRG_HASHIT inode;
     let cache = cache\<lparr>prg_cache_loaded := 2\<rparr>;
     pns \<leftarrow> aget (prg_hash cache) hi;
     if chain_has inode pns then Some cache
     else case malloc of
       None \<Rightarrow> Some cache
     | Some pn \<Rightarrow> do {
         name \<leftarrow> safe_strncpy (pn_name pn) name PROGNAME_WIDTH;
         let len = (ucast (of_nat (length (cstr scon)) - of_nat SELINUX_WIDTH + 1 :: u64) :: i32);
         scon \<leftarrow> (if 0 <s len then safe_strncpy (pn_scon pn) (drop (nat (sint len) + 1) scon) SELINUX_WIDTH
                  else safe_strncpy (pn_scon pn) scon SELINUX_WIDTH);
         hash \<leftarrow> aupd (prg_hash cache) hi (\<lambda>pns. pns @ [\<lparr>pn_inode = inode, pn_name = name, pn_scon = scon\<rparr>]);
         Some (cache\<lparr>prg_hash := hash\<rparr>)
       }
   }"

fun chain_find :: "u64 \<Rightarrow> prg_node list \<Rightarrow> prg_node option" where
  "chain_find inode [] = None"
| "chain_find inode (pn # pns) = (if pn_inode pn = inode then Some pn else chain_find inode pns)"

definition prg_cache_get :: "prg_cache \<Rightarrow> u64 \<Rightarrow> string option" where
  "prg_cache_get cache inode = do {
     pns \<leftarrow> aget (prg_hash cache) (PRG_HASHIT inode);
     Some (case chain_find inode pns of Some pn \<Rightarrow> cstr (pn_name pn) | None \<Rightarrow> ''-'')
   }"

definition prg_cache_get_con :: "prg_cache \<Rightarrow> u64 \<Rightarrow> string option" where
  "prg_cache_get_con cache inode = do {
     pns \<leftarrow> aget (prg_hash cache) (PRG_HASHIT inode);
     Some (case chain_find inode pns of Some pn \<Rightarrow> cstr (pn_scon pn) | None \<Rightarrow> ''-'')
   }"

definition prg_cache_clear :: "prg_cache \<Rightarrow> prg_cache" where
  "prg_cache_clear cache =
     (let cache = (if prg_cache_loaded cache = 2 then cache\<lparr>prg_hash := map (\<lambda>_. []) (prg_hash cache)\<rparr> else cache)
      in cache\<lparr>prg_cache_loaded := 0\<rparr>)"

section \<open>Loading the cache\<close>

text \<open>
  The file system below \<^verbatim>\<open>/proc\<close> during the scan: the entries of \<^verbatim>\<open>/proc\<close> (\<open>None\<close> when it cannot be opened), the entries of a
  directory or whether \<open>errno\<close> is \<open>EACCES\<close>, the target of a link, and for a file that can be opened what
  \<open>read\<close> returns (\<open>None\<close> for -1) and whether \<open>close\<close> succeeds.
\<close>

record procfs =
  pf_proc :: "string list option"
  pf_opendir :: "string \<Rightarrow> bool + string list"
  pf_readlink :: "string \<Rightarrow> string option"
  pf_file :: "string \<Rightarrow> (chars option \<times> bool) option"

text \<open>
  The variables of \<open>prg_cache_load\<close>: the cache, \<open>inode\<close> and \<open>cmdlbuf\<close>, which keep their contents from one entry to the
  next, \<open>eacces\<close>, and the number of calls of \<open>malloc\<close> so far.
\<close>

record load_state =
  ld_cache :: prg_cache
  ld_inode :: u64
  ld_cmdlbuf :: chars
  ld_eacces :: bool
  ld_calls :: nat

definition LINE_MAX :: nat where "LINE_MAX = 2048"

datatype warning = No_Info | Not_All

text \<open>Where the program name starts in \<open>cmdlbuf\<close>: behind the last slash of an absolute path.\<close>

definition cmd_start :: "chars \<Rightarrow> nat" where
  "cmd_start cmdlbuf = (let s = cstr cmdlbuf in
     if s \<noteq> [] \<and> hd s = CHR ''/'' then length s - length (takeWhile (\<lambda>c. c \<noteq> CHR ''/'') (rev s)) else 0)"

text \<open>
  Reading the command line into \<open>cmdlbuf\<close>: the new contents, and the position \<open>cmdlp\<close> of the program
  name, \<open>None\<close> when the entry is skipped.
\<close>

definition read_cmdline :: "(chars option \<times> bool) option \<Rightarrow> chars \<Rightarrow> chars \<times> nat option" where
  "read_cmdline file cmdlbuf =
     (case file of
        None \<Rightarrow> (cmdlbuf, None)
      | Some (rd, closed) \<Rightarrow>
          let data = (case rd of None \<Rightarrow> [] | Some d \<Rightarrow> take 511 d);
              cmdlbuf = data @ drop (length data) cmdlbuf
          in if \<not> closed \<or> rd = None then (cmdlbuf, None)
             else let cmdlbuf = (if length data < 511 then cmdlbuf[length data := NUL] else cmdlbuf)
                  in (cmdlbuf, Some (cmd_start cmdlbuf)))"

definition fd_add :: "(nat \<Rightarrow> prg_node option) \<Rightarrow> string \<Rightarrow> nat \<Rightarrow> load_state \<Rightarrow> load_state option" where
  "fd_add malloc pid cmdlp st = do {
     let finbuf = take (PROGNAME_WIDTH - 1) (pid @ ''/'' @ cstr (drop cmdlp (ld_cmdlbuf st)));
     cache \<leftarrow> prg_cache_add (malloc (ld_calls st)) (ld_cache st) (ld_inode st) (finbuf @ [NUL]) ''-'';
     Some (st\<lparr>ld_cache := cache, ld_calls := ld_calls st + 1\<rparr>)
   }"

definition fd_inode :: "string \<Rightarrow> u64 \<Rightarrow> i32 \<times> u64" where
  "fd_inode lname inode =
     (let (r, inode) = extract_type_1_socket_inode lname inode in
      if r <s 0 then extract_type_2_socket_inode lname inode else (r, inode))"

text \<open>
  A descriptor whose link was read: \<open>link\<close> is what \<open>readlink\<close> returned, \<open>file\<close> the command line, opened when it is needed.
\<close>

definition fd_link :: "(nat \<Rightarrow> prg_node option) \<Rightarrow> string \<Rightarrow> nat \<Rightarrow> (chars option \<times> bool) option \<Rightarrow> string option \<Rightarrow>
    nat option \<times> load_state \<Rightarrow> (nat option \<times> load_state) option" where
  "fd_link malloc pid procfdlen file link = (\<lambda>(cmdlp, st).
     case link of
       None \<Rightarrow> Some (cmdlp, st)
     | Some target \<Rightarrow>
         let (r, inode) = fd_inode (take 29 target) (ld_inode st); st = st\<lparr>ld_inode := inode\<rparr> in
         if r <s 0 then Some (cmdlp, st)
         else case cmdlp of
           Some p \<Rightarrow> do { st \<leftarrow> fd_add malloc pid p st; Some (cmdlp, st) }
         | None \<Rightarrow>
             if procfdlen - 2 + 7 \<ge> LINE_MAX - 5 then Some (None, st)
             else let (buf, q) = read_cmdline file (ld_cmdlbuf st); st = st\<lparr>ld_cmdlbuf := buf\<rparr>
                  in case q of
                       None \<Rightarrow> Some (None, st)
                     | Some p \<Rightarrow> do { st \<leftarrow> fd_add malloc pid p st; Some (Some p, st) })"

text \<open>One entry of the directory \<^verbatim>\<open>/proc/<pid>/fd\<close>; \<open>line\<close> holds this path, of length \<open>procfdlen\<close>.\<close>

definition fd_step :: "procfs \<Rightarrow> (nat \<Rightarrow> prg_node option) \<Rightarrow> string \<Rightarrow> string \<Rightarrow> string \<Rightarrow>
    nat option \<times> load_state \<Rightarrow> (nat option \<times> load_state) option" where
  "fd_step fs malloc pid line d_name s =
     (let procfdlen = length line; dir = take (procfdlen - 2) line in
      if d_name = [] \<or> \<not> isdigit (hd d_name) then Some s
      else if procfdlen + 1 + length d_name + 1 > LINE_MAX then Some s
      else fd_link malloc pid procfdlen (pf_file fs (dir @ ''cmdline'')) (pf_readlink fs (dir @ ''fd/'' @ d_name)) s)"

fun fd_loop :: "procfs \<Rightarrow> (nat \<Rightarrow> prg_node option) \<Rightarrow> string \<Rightarrow> string \<Rightarrow> string list \<Rightarrow>
    nat option \<times> load_state \<Rightarrow> load_state option" where
  "fd_loop fs malloc pid line [] (cmdlp, st) = Some st"
| "fd_loop fs malloc pid line (d # ds) (cmdlp, st) = do {
     (cmdlp, st) \<leftarrow> fd_step fs malloc pid line d (cmdlp, st);
     fd_loop fs malloc pid line ds (cmdlp, st)
   }"

fun proc_loop :: "procfs \<Rightarrow> (nat \<Rightarrow> prg_node option) \<Rightarrow> string list \<Rightarrow> load_state \<Rightarrow> load_state option" where
  "proc_loop fs malloc [] st = Some st"
| "proc_loop fs malloc (d # ds) st =
     (if \<not> list_all isdigit d then proc_loop fs malloc ds st
      else let line = ''/proc/'' @ d @ ''/fd'' in
        if length line \<ge> LINE_MAX - 5 then proc_loop fs malloc ds st
        else case pf_opendir fs line of
          Inl eacces \<Rightarrow> proc_loop fs malloc ds (if eacces then st\<lparr>ld_eacces := True\<rparr> else st)
        | Inr names \<Rightarrow> do {
            st \<leftarrow> fd_loop fs malloc d line names (None, st);
            proc_loop fs malloc ds st
          })"

text \<open>\<open>junk\<close> and \<open>buf\<close> are the initial contents of \<open>inode\<close> and \<open>cmdlbuf\<close>.\<close>

definition prg_cache_load :: "procfs \<Rightarrow> (nat \<Rightarrow> prg_node option) \<Rightarrow> u64 \<Rightarrow> chars \<Rightarrow> prg_cache \<Rightarrow>
    (prg_cache \<times> warning option) option" where
  "prg_cache_load fs malloc junk buf cache =
     (if truth (prg_cache_loaded cache) then Some (cache, None)
      else let cache = cache\<lparr>prg_cache_loaded := 1\<rparr> in
        case pf_proc fs of
          None \<Rightarrow> Some (cache, Some No_Info)
        | Some names \<Rightarrow> do {
            st \<leftarrow> proc_loop fs malloc names
                    \<lparr>ld_cache = cache, ld_inode = junk, ld_cmdlbuf = buf[511 := NUL], ld_eacces = False, ld_calls = 0\<rparr>;
            Some (ld_cache st,
              if \<not> ld_eacces st then None
              else if prg_cache_loaded (ld_cache st) = 1 then Some No_Info else Some Not_All)
          })"

section \<open>Adding and finding\<close>

definition cache_ok :: "prg_cache \<Rightarrow> bool" where
  "cache_ok c \<longleftrightarrow> length (prg_hash c) = PRG_HASH_SIZE"

definition node_ok :: "prg_node \<Rightarrow> bool" where
  "node_ok pn \<longleftrightarrow> length (pn_name pn) = PROGNAME_WIDTH \<and> length (pn_scon pn) = SELINUX_WIDTH"

definition pad :: "nat \<Rightarrow> string \<Rightarrow> chars" where
  "pad n s = take (n - 1) s @ replicate (n - 1 - length (take (n - 1) s)) NUL @ [NUL]"

text \<open>What a copied string looks like: independent of the memory it was copied to.\<close>

lemma safe_strncpy_pad:
  assumes "length dst = n" and "0 < n"
  shows "safe_strncpy dst src n = Some (pad n (cstr src))"
  using assms by (cases dst rule: rev_cases) (auto simp: safe_strncpy_def strncpy_def pad_def Let_def)

lemma cstr_pad:
  assumes "NUL \<notin> set s"
  shows "cstr (pad n s) = take (n - 1) s"
proof -
  have "NUL \<notin> set (take (n - 1) s)" using assms by (meson in_set_takeD)
  moreover have "replicate k NUL @ [NUL] = NUL # replicate k NUL" for k by (induction k) auto
  ultimately show ?thesis unfolding pad_def by simp
qed

text \<open>The part of a security context that is kept: all of it, or its last 48 characters.\<close>

definition scon_part :: "chars \<Rightarrow> string" where
  "scon_part scon = (let s = cstr scon in if length s < SELINUX_WIDTH then s else drop (length s - 48) s)"

definition cache_node :: "u64 \<Rightarrow> chars \<Rightarrow> chars \<Rightarrow> prg_node" where
  "cache_node inode name scon =
     \<lparr>pn_inode = inode, pn_name = pad PROGNAME_WIDTH (cstr name), pn_scon = pad SELINUX_WIDTH (scon_part scon)\<rparr>"

definition cache_put :: "prg_cache \<Rightarrow> u64 \<Rightarrow> chars \<Rightarrow> chars \<Rightarrow> prg_cache" where
  "cache_put c inode name scon =
     (let hi = PRG_HASHIT inode; pns = prg_hash c ! hi; c = c\<lparr>prg_cache_loaded := 2\<rparr> in
      if chain_has inode pns then c
      else c\<lparr>prg_hash := (prg_hash c)[hi := pns @ [cache_node inode name scon]]\<rparr>)"

lemma PRG_HASHIT_less: "cache_ok c \<Longrightarrow> PRG_HASHIT i < length (prg_hash c)"
  by (simp add: cache_ok_def PRG_HASHIT_def PRG_HASH_SIZE_def)

lemma drop_cstr: "n \<le> length (cstr a) \<Longrightarrow> cstr (drop n a) = drop n (cstr a)"
proof (induction a arbitrary: n)
  case (Cons c a)
  then show ?case by (cases n) (auto split: if_splits)
qed simp

lemma sint_ucast_word_of_int:
  assumes "- (2 ^ 31) \<le> k" and "k < 2 ^ 31"
  shows "sint (ucast (word_of_int k :: u64) :: i32) = k"
proof -
  have "(ucast (word_of_int k :: u64) :: i32) = word_of_int k"
    by (rule bit_word_eqI) (auto simp: bit_ucast_iff bit_word_of_int_iff)
  then show ?thesis using assms by (simp add: signed_of_int signed_take_bit_int_eq_self)
qed

lemma scon_len:
  assumes "length (cstr scon) < 2 ^ 31"
  shows "sint (ucast (of_nat (length (cstr scon)) - of_nat SELINUX_WIDTH + 1 :: u64) :: i32) =
    int (length (cstr scon)) - 49"
proof -
  have "of_nat (length (cstr scon)) - of_nat SELINUX_WIDTH + 1 = (word_of_int (int (length (cstr scon)) - 49) :: u64)"
    by (simp add: SELINUX_WIDTH_def)
  then show ?thesis
    using assms sint_ucast_word_of_int [of "int (length (cstr scon)) - 49"] by (simp only:) simp
qed

lemma prg_cache_add_put:
  assumes "cache_ok c" and "node_ok pn" and "length (cstr scon) < 2 ^ 31"
  shows "prg_cache_add (Some pn) c inode name scon = Some (cache_put c inode name scon)"
proof -
  let ?len = "ucast (of_nat (length (cstr scon)) - of_nat SELINUX_WIDTH + 1 :: u64) :: i32"
  have "(if 0 <s ?len then safe_strncpy (pn_scon pn) (drop (nat (sint ?len) + 1) scon) SELINUX_WIDTH
      else safe_strncpy (pn_scon pn) scon SELINUX_WIDTH) = Some (pad SELINUX_WIDTH (scon_part scon))"
  proof (cases "length (cstr scon) < SELINUX_WIDTH")
    case True
    then show ?thesis using assms(2) scon_len [OF assms(3)]
      by (simp add: safe_strncpy_pad node_ok_def SELINUX_WIDTH_def scon_part_def word_sless_alt)
  next
    case False
    then have n: "nat (sint ?len) + 1 = length (cstr scon) - 48" and "0 <s ?len"
      using scon_len [OF assms(3)] by (auto simp: SELINUX_WIDTH_def word_sless_alt)
    with False assms(2) show ?thesis
      by (simp add: safe_strncpy_pad node_ok_def SELINUX_WIDTH_def scon_part_def drop_cstr Let_def)
  qed
  then show ?thesis using assms(1,2) PRG_HASHIT_less [OF assms(1), of inode]
    by (simp add: prg_cache_add_def cache_put_def cache_node_def Let_def safe_strncpy_pad node_ok_def
        PROGNAME_WIDTH_def)
qed

text \<open>
  What a client needs of a cache of names: an entry that is there stays, a new one is found with
  its name.  The client stores any sequence of entries: the first of each i-node wins.
\<close>

locale name_cache =
  fixes inv :: "'c \<Rightarrow> bool" and has :: "'c \<Rightarrow> 'k \<Rightarrow> bool" and get :: "'c \<Rightarrow> 'k \<Rightarrow> 'n"
    and put :: "'c \<Rightarrow> 'k \<Rightarrow> 'm \<Rightarrow> 'c" and kept :: "'m \<Rightarrow> 'n" and absent :: 'n
  assumes inv_put: "inv c \<Longrightarrow> inv (put c k m)"
    and has_put: "inv c \<Longrightarrow> has (put c k m) j \<longleftrightarrow> has c j \<or> j = k"
    and get_put: "inv c \<Longrightarrow> get (put c k m) j = (if j = k \<and> \<not> has c k then kept m else get c j)"
    and get_absent: "inv c \<Longrightarrow> \<not> has c k \<Longrightarrow> get c k = absent"
begin

lemma inv_fold: "inv c \<Longrightarrow> inv (fold (\<lambda>(k, m) c. put c k m) xs c)"
  by (induction xs arbitrary: c) (auto simp: inv_put)

lemma get_fold:
  "inv c \<Longrightarrow> get (fold (\<lambda>(k, m) c. put c k m) xs c) k =
     (if has c k then get c k else case map_of xs k of Some m \<Rightarrow> kept m | None \<Rightarrow> absent)"
  by (induction xs arbitrary: c) (auto simp: inv_put has_put get_put get_absent)

end

definition cache_has :: "prg_cache \<Rightarrow> u64 \<Rightarrow> bool" where
  "cache_has c inode \<longleftrightarrow> chain_has inode (prg_hash c ! PRG_HASHIT inode)"

lemma chain_has_iff: "chain_has i pns \<longleftrightarrow> (\<exists>pn. chain_find i pns = Some pn)"
  by (induction pns) auto

lemma chain_has_append [simp]: "chain_has i (ps @ qs) \<longleftrightarrow> chain_has i ps \<or> chain_has i qs"
  by (induction ps) auto

lemma chain_find_append: "chain_find i (ps @ qs) = (case chain_find i ps of Some pn \<Rightarrow> Some pn | None \<Rightarrow> chain_find i qs)"
  by (induction ps) auto

lemma cache_ok_put: "cache_ok c \<Longrightarrow> cache_ok (cache_put c i n s)"
  by (simp add: cache_ok_def cache_put_def Let_def)

lemma cache_has_put: "cache_ok c \<Longrightarrow> cache_has (cache_put c i n s) j \<longleftrightarrow> cache_has c j \<or> j = i"
  using PRG_HASHIT_less [of c i]
  by (auto simp: cache_has_def cache_put_def cache_node_def Let_def nth_list_update split: if_splits)

lemma cache_get_put:
  assumes "cache_ok c"
  shows "prg_cache_get (cache_put c i n s) j =
    (if j = i \<and> \<not> cache_has c i then Some (take 19 (cstr n)) else prg_cache_get c j)"
proof -
  have "cstr (pad PROGNAME_WIDTH (cstr n)) = take 19 (cstr n)"
    by (simp add: cstr_pad cstr_no_NUL PROGNAME_WIDTH_def)
  then show ?thesis
    using PRG_HASHIT_less [OF assms]
    by (auto simp: prg_cache_get_def cache_has_def cache_put_def cache_node_def Let_def nth_list_update
        chain_find_append chain_has_iff split: option.splits)
qed

lemma cache_get_absent: "cache_ok c \<Longrightarrow> \<not> cache_has c i \<Longrightarrow> prg_cache_get c i = Some ''-''"
  using PRG_HASHIT_less [of c i] by (auto simp: prg_cache_get_def cache_has_def chain_has_iff split: option.splits)

interpretation cache: name_cache cache_ok cache_has prg_cache_get "\<lambda>c i n. cache_put c i n ''-''"
  "\<lambda>n. Some (take 19 (cstr n))" "Some ''-''"
  by unfold_locales (simp_all add: cache_ok_put cache_has_put cache_get_put cache_get_absent)

section \<open>Links and numbers\<close>

lemma scan_base_10: "a \<noteq> CHR ''0'' \<Longrightarrow> scan_base (a # cs) = (10, a # cs)"
  by (cases cs; cases "tl cs") auto

lemma strtoul_dec:
  assumes "0 < n" and "n < 2 ^ 64"
  shows "strtoul (dec n) = (of_nat n, [])"
proof -
  obtain m :: nat and cs where d: "dec n = char_of (48 + m) # cs" and m: "0 < m" "m < 10"
    using dec_first [OF assms(1)] by blast
  have "strtoul (dec n) = (let (v, rest) = scan_digits 10 0 (dec n) in
      (if 2 ^ 64 \<le> v then - 1 else of_nat v, rest))"
    unfolding d using first_digit [OF m] by (simp add: strtoul_def scan_base_10 is_digit_in_dec m split: prod.split)
  then show ?thesis using assms(2) by (simp add: scan_digits_dec)
qed

section \<open>What is found in the file system\<close>

text \<open>The sockets of a process in the order of its descriptors, and the name of its program.\<close>

definition link_socket :: "string option \<Rightarrow> u64 option" where
  "link_socket link = (case link of
     None \<Rightarrow> None
   | Some target \<Rightarrow> (case fd_inode (take 29 target) 0 of (r, inode) \<Rightarrow> if r <s 0 then None else Some inode))"

definition fd_socket :: "procfs \<Rightarrow> string \<Rightarrow> string \<Rightarrow> u64 option" where
  "fd_socket fs pid d = (if d = [] \<or> \<not> isdigit (hd d) then None
     else link_socket (pf_readlink fs (''/proc/'' @ pid @ ''/fd/'' @ d)))"

definition program :: "chars \<Rightarrow> string" where
  "program cmdline = (let s = cstr (take 511 cmdline) in
     if s \<noteq> [] \<and> hd s = CHR ''/'' then rev (takeWhile (\<lambda>c. c \<noteq> CHR ''/'') (rev s)) else s)"

definition owner_name :: "procfs \<Rightarrow> string \<Rightarrow> string" where
  "owner_name fs pid = take 19 (pid @ ''/'' @
     (case pf_file fs (''/proc/'' @ pid @ ''/cmdline'') of Some (Some cmdline, _) \<Rightarrow> program cmdline | _ \<Rightarrow> []))"

definition sockets_of :: "procfs \<Rightarrow> string \<Rightarrow> u64 list" where
  "sockets_of fs pid = (case pf_opendir fs (''/proc/'' @ pid @ ''/fd'') of
     Inl _ \<Rightarrow> [] | Inr names \<Rightarrow> List.map_filter (fd_socket fs pid) names)"

definition owners :: "procfs \<Rightarrow> (u64 \<times> string) list" where
  "owners fs = concat (map (\<lambda>pid. map (\<lambda>i. (i, owner_name fs pid)) (sockets_of fs pid))
     (filter (list_all isdigit) (the (pf_proc fs))))"

text \<open>Names are short, and every command line can be opened, read and closed.\<close>

definition readable :: "procfs \<Rightarrow> bool" where
  "readable fs \<longleftrightarrow> (\<exists>names. pf_proc fs = Some names \<and>
     (\<forall>pid\<in>set names. list_all isdigit pid \<longrightarrow>
        length pid \<le> 255 \<and> NUL \<notin> set pid \<and>
        (\<exists>cmdline. pf_file fs (''/proc/'' @ pid @ ''/cmdline'') = Some (Some cmdline, True)) \<and>
        (\<forall>fds. pf_opendir fs (''/proc/'' @ pid @ ''/fd'') = Inr fds \<longrightarrow> (\<forall>d\<in>set fds. length d \<le> 255))))"

lemma fd_inode_ok: "fst (fd_inode l i) = fst (fd_inode l j)" "\<not> fst (fd_inode l i) <s 0 \<Longrightarrow> snd (fd_inode l i) = snd (fd_inode l j)"
  by (auto simp: fd_inode_def extract_type_1_socket_inode_def extract_type_2_socket_inode_def Let_def
      split: prod.splits if_splits)

lemma cstr_append_NUL2: "cstr (d @ NUL # r) = cstr d"
  by (induction d) auto

lemma last_part: "drop (length s - length (takeWhile P (rev s))) s = rev (takeWhile P (rev s))"
proof -
  have "s = rev (dropWhile P (rev s)) @ rev (takeWhile P (rev s))"
    by (metis rev_append rev_rev_ident takeWhile_dropWhile_id)
  then show ?thesis
    by (metis add_diff_cancel_right' append_eq_conv_conj length_append length_rev)
qed

definition buf_ok :: "chars \<Rightarrow> bool" where
  "buf_ok buf \<longleftrightarrow> length buf = 512 \<and> buf ! 511 = NUL"

lemma fill_buf:
  assumes "buf_ok buf" and "length d \<le> 511"
  shows "\<exists>r. (if length d < 511 then (d @ drop (length d) buf)[length d := NUL] else d @ drop (length d) buf) = d @ NUL # r \<and>
    buf_ok (d @ NUL # r)"
proof (cases "length d < 511")
  case True
  then have "(d @ drop (length d) buf)[length d := NUL] = d @ NUL # drop (length d + 1) buf"
    using assms by (simp add: buf_ok_def list_update_append flip: Cons_nth_drop_Suc)
  moreover have "buf_ok (d @ NUL # drop (length d + 1) buf)"
    using True assms by (simp add: buf_ok_def nth_append nth_Cons')
  ultimately show ?thesis using True by auto
next
  case False
  then show ?thesis using assms by (intro exI [of _ "[]"]) (simp add: buf_ok_def nth_append flip: Cons_nth_drop_Suc)
qed

lemma read_cmdline_program:
  assumes "buf_ok buf"
  shows "\<exists>buf' p. read_cmdline (Some (Some cmd, True)) buf = (buf', Some p) \<and> buf_ok buf' \<and>
    cstr (drop p buf') = program cmd"
proof -
  define d where "d = take 511 cmd"
  obtain r where r: "(if length d < 511 then (d @ drop (length d) buf)[length d := NUL] else d @ drop (length d) buf) = d @ NUL # r"
    "buf_ok (d @ NUL # r)"
    using fill_buf [OF assms, of d] by (auto simp: d_def)
  have "read_cmdline (Some (Some cmd, True)) buf = (d @ NUL # r, Some (cmd_start (d @ NUL # r)))"
    using r(1) by (cases "length d < 511") (simp_all add: read_cmdline_def Let_def flip: d_def)
  moreover have "cmd_start b \<le> length (cstr b)" for b by (simp add: cmd_start_def Let_def)
  then have "cstr (drop (cmd_start (d @ NUL # r)) (d @ NUL # r)) = drop (cmd_start (d @ NUL # r)) (cstr (d @ NUL # r))"
    by (rule drop_cstr)
  then have "cstr (drop (cmd_start (d @ NUL # r)) (d @ NUL # r)) = drop (cmd_start d) (cstr d)"
    by (simp add: cstr_append_NUL2 cmd_start_def)
  moreover have "drop (cmd_start d) (cstr d) = program cmd"
    by (simp add: program_def cmd_start_def Let_def last_part flip: d_def)
  ultimately show ?thesis using r(2) by metis
qed

text \<open>The loops store the owners of sockets in the order in which they are found.\<close>

abbreviation put_all :: "(u64 \<times> string) list \<Rightarrow> prg_cache \<Rightarrow> prg_cache" where
  "put_all xs c \<equiv> fold (\<lambda>(i, n) c. cache_put c i n ''-'') (map (\<lambda>(i, n). (i, n @ [NUL])) xs) c"

lemma fd_add_put:
  assumes "malloc (ld_calls st) = Some pn" and "node_ok pn" and "cache_ok (ld_cache st)"
  shows "fd_add malloc pid p st = Some (st\<lparr>ld_cache :=
      cache_put (ld_cache st) (ld_inode st) (take 19 (pid @ ''/'' @ cstr (drop p (ld_cmdlbuf st))) @ [NUL]) ''-'',
    ld_calls := ld_calls st + 1\<rparr>)"
  using assms by (simp add: fd_add_def prg_cache_add_put PROGNAME_WIDTH_def)

definition st_ok :: "load_state \<Rightarrow> bool" where
  "st_ok st \<longleftrightarrow> cache_ok (ld_cache st) \<and> buf_ok (ld_cmdlbuf st)"

definition cmdlp_ok :: "string \<Rightarrow> string \<Rightarrow> nat option \<Rightarrow> load_state \<Rightarrow> bool" where
  "cmdlp_ok pid owner cmdlp st \<longleftrightarrow>
     (\<forall>p. cmdlp = Some p \<longrightarrow> take 19 (pid @ ''/'' @ cstr (drop p (ld_cmdlbuf st))) = owner)"

lemma fd_link_put:
  assumes m: "\<forall>k. \<exists>pn. malloc k = Some pn \<and> node_ok pn" and len: "n \<le> 1000"
    and st: "st_ok st" "cmdlp_ok pid owner cmdlp st" and o: "owner = take 19 (pid @ ''/'' @ program cmd)"
  shows "\<exists>cmdlp' st'. fd_link malloc pid n (Some (Some cmd, True)) link (cmdlp, st) = Some (cmdlp', st') \<and>
    st_ok st' \<and> cmdlp_ok pid owner cmdlp' st' \<and>
    ld_cache st' = put_all (case link_socket link of None \<Rightarrow> [] | Some i \<Rightarrow> [(i, owner)]) (ld_cache st)"
proof (cases link)
  case None
  then show ?thesis using st by (simp add: fd_link_def link_socket_def)
next
  case (Some target)
  obtain r i where i: "fd_inode (take 29 target) (ld_inode st) = (r, i)" by fastforce
  have sock: "link_socket (Some target) = (if r <s 0 then None else Some i)"
    using fd_inode_ok [of "take 29 target" "ld_inode st" 0] by (auto simp: link_socket_def i split: prod.splits)
  let ?st = "st\<lparr>ld_inode := i\<rparr>"
  note [simp] = fd_link_def LINE_MAX_def Let_def st_ok_def cmdlp_ok_def
  show ?thesis
  proof (cases "r <s 0")
    case True
    then show ?thesis using st by (simp add: Some i sock)
  next
    case False
    have put: "\<exists>st'. fd_add malloc pid p st1 = Some st' \<and> st_ok st' \<and> cmdlp_ok pid owner (Some p) st' \<and>
        ld_cache st' = put_all [(i, owner)] (ld_cache st)"
      if "ld_cache st1 = ld_cache st" "ld_inode st1 = i" "st_ok st1"
        "take 19 (pid @ ''/'' @ cstr (drop p (ld_cmdlbuf st1))) = owner" for st1 p
    proof -
      obtain pn where "malloc (ld_calls st1) = Some pn" "node_ok pn" using m by blast
      then show ?thesis using that fd_add_put [of malloc st1 pn pid p] by (simp add: cache_ok_put)
    qed
    show ?thesis
    proof (cases cmdlp)
      case p: (Some p)
      then show ?thesis
        using put [of ?st p] st False by (auto simp: Some i sock)
    next
      case None
      obtain buf p where b: "read_cmdline (Some (Some cmd, True)) (ld_cmdlbuf st) = (buf, Some p)" "buf_ok buf"
        "cstr (drop p buf) = program cmd"
        using read_cmdline_program [of "ld_cmdlbuf st" cmd] st(1) by auto
      then show ?thesis
        using None put [of "?st\<lparr>ld_cmdlbuf := buf\<rparr>" p] st False len
        by (auto simp: Some i sock o)
    qed
  qed
qed

lemma fd_step_put:
  assumes m: "\<forall>k. \<exists>pn. malloc k = Some pn \<and> node_ok pn" and len: "length pid \<le> 255" "length d \<le> 255"
    and cm: "pf_file fs (''/proc/'' @ pid @ ''/cmdline'') = Some (Some cmd, True)"
    and st: "st_ok st" "cmdlp_ok pid (owner_name fs pid) cmdlp st"
  shows "\<exists>cmdlp' st'. fd_step fs malloc pid (''/proc/'' @ pid @ ''/fd'') d (cmdlp, st) = Some (cmdlp', st') \<and>
    st_ok st' \<and> cmdlp_ok pid (owner_name fs pid) cmdlp' st' \<and>
    ld_cache st' = put_all (case fd_socket fs pid d of None \<Rightarrow> [] | Some i \<Rightarrow> [(i, owner_name fs pid)]) (ld_cache st)"
proof (cases "d = [] \<or> \<not> isdigit (hd d)")
  case True
  then show ?thesis using st by (simp add: fd_step_def fd_socket_def Let_def)
next
  case False
  let ?link = "pf_readlink fs (''/proc/'' @ pid @ ''/fd/'' @ d)"
  have "fd_step fs malloc pid (''/proc/'' @ pid @ ''/fd'') d (cmdlp, st) =
      fd_link malloc pid (length pid + 9) (Some (Some cmd, True)) ?link (cmdlp, st)"
    using False len cm by (simp add: fd_step_def LINE_MAX_def Let_def numeral_eq_Suc)
  moreover have "fd_socket fs pid d = link_socket ?link" using False by (simp add: fd_socket_def)
  moreover have "owner_name fs pid = take 19 (pid @ ''/'' @ program cmd)"
    using cm by (simp add: owner_name_def)
  ultimately show ?thesis using fd_link_put [OF m, of "length pid + 9" st pid "owner_name fs pid" cmdlp cmd ?link] st len(1)
    by simp
qed

lemma fd_loop_put:
  assumes m: "\<forall>k. \<exists>pn. malloc k = Some pn \<and> node_ok pn" and len: "length pid \<le> 255" "\<forall>d\<in>set ds. length d \<le> 255"
    and cm: "pf_file fs (''/proc/'' @ pid @ ''/cmdline'') = Some (Some cmd, True)"
    and st: "st_ok st" "cmdlp_ok pid (owner_name fs pid) cmdlp st"
  shows "\<exists>st'. fd_loop fs malloc pid (''/proc/'' @ pid @ ''/fd'') ds (cmdlp, st) = Some st' \<and> st_ok st' \<and>
    ld_cache st' = put_all (map (\<lambda>i. (i, owner_name fs pid)) (List.map_filter (fd_socket fs pid) ds)) (ld_cache st)"
  using len(2) st
proof (induction ds arbitrary: cmdlp st)
  case (Cons d ds)
  obtain cmdlp' st' where s: "fd_step fs malloc pid (''/proc/'' @ pid @ ''/fd'') d (cmdlp, st) = Some (cmdlp', st')"
    "st_ok st'" "cmdlp_ok pid (owner_name fs pid) cmdlp' st'"
    "ld_cache st' = put_all (case fd_socket fs pid d of None \<Rightarrow> [] | Some i \<Rightarrow> [(i, owner_name fs pid)]) (ld_cache st)"
    using fd_step_put [OF m len(1) _ cm, of d st cmdlp] Cons.prems by auto
  obtain st2 where "fd_loop fs malloc pid (''/proc/'' @ pid @ ''/fd'') ds (cmdlp', st') = Some st2" "st_ok st2"
    "ld_cache st2 = put_all (map (\<lambda>i. (i, owner_name fs pid)) (List.map_filter (fd_socket fs pid) ds)) (ld_cache st')"
    using Cons.IH [OF _ s(2,3)] Cons.prems by auto
  then show ?case using s(1,4) by (simp add: map_filter_simps split: option.splits)
qed (simp add: map_filter_simps)

lemma proc_loop_put:
  assumes m: "\<forall>k. \<exists>pn. malloc k = Some pn \<and> node_ok pn"
    and ok: "\<forall>pid\<in>set ds. list_all isdigit pid \<longrightarrow> length pid \<le> 255 \<and>
      (\<exists>cmd. pf_file fs (''/proc/'' @ pid @ ''/cmdline'') = Some (Some cmd, True)) \<and>
      (\<forall>fds. pf_opendir fs (''/proc/'' @ pid @ ''/fd'') = Inr fds \<longrightarrow> (\<forall>d\<in>set fds. length d \<le> 255))"
    and st: "st_ok st"
  shows "\<exists>st'. proc_loop fs malloc ds st = Some st' \<and> st_ok st' \<and>
    ld_cache st' = put_all (concat (map (\<lambda>pid. map (\<lambda>i. (i, owner_name fs pid)) (sockets_of fs pid))
      (filter (list_all isdigit) ds))) (ld_cache st)"
  using ok st
proof (induction ds arbitrary: st)
  case (Cons d ds)
  show ?case
  proof (cases "list_all isdigit d")
    case True
    then have d: "length d \<le> 255" using Cons.prems(1) by simp
    obtain cmd where cm: "pf_file fs (''/proc/'' @ d @ ''/cmdline'') = Some (Some cmd, True)"
      using True Cons.prems(1) by auto
    show ?thesis
    proof (cases "pf_opendir fs (''/proc/'' @ d @ ''/fd'')")
      case (Inl e)
      then have "proc_loop fs malloc (d # ds) st = proc_loop fs malloc ds (if e then st\<lparr>ld_eacces := True\<rparr> else st)"
        using True d by (simp add: Let_def LINE_MAX_def)
      then show ?thesis
        using Cons.IH [of "if e then st\<lparr>ld_eacces := True\<rparr> else st"] Cons.prems True Inl
        by (auto simp: sockets_of_def st_ok_def split: if_splits)
    next
      case (Inr fds)
      obtain st1 where s1: "fd_loop fs malloc d (''/proc/'' @ d @ ''/fd'') fds (None, st) = Some st1" "st_ok st1"
        "ld_cache st1 = put_all (map (\<lambda>i. (i, owner_name fs d)) (List.map_filter (fd_socket fs d) fds)) (ld_cache st)"
        using fd_loop_put [OF m d _ cm, of fds st None] Cons.prems Inr True by (auto simp: cmdlp_ok_def)
      then have "proc_loop fs malloc (d # ds) st = proc_loop fs malloc ds st1"
        using True d Inr by (simp add: Let_def LINE_MAX_def)
      then show ?thesis
        using Cons.IH [OF _ s1(2)] Cons.prems(1) s1(3) True Inr by (auto simp: sockets_of_def)
    qed
  qed (use Cons in auto)
qed simp

lemma owner_name_cstr: "NUL \<notin> set pid \<Longrightarrow> cstr (owner_name fs pid @ [NUL]) = owner_name fs pid"
proof -
  assume "NUL \<notin> set pid"
  moreover have "NUL \<notin> set (program cmd)" for cmd
    using cstr_no_NUL [of "take 511 cmd"] by (auto simp: program_def Let_def dest: set_takeWhileD)
  ultimately have "NUL \<notin> set (owner_name fs pid)"
    by (auto simp: owner_name_def dest!: in_set_takeD split: option.splits prod.splits)
  then show ?thesis by simp
qed

section \<open>Loading\<close>

lemma prg_cache_load_finds:
  assumes "readable fs" and "\<forall>k. \<exists>pn. malloc k = Some pn \<and> node_ok pn" and "length buf = 512"
  shows "\<exists>c w. prg_cache_load fs malloc junk buf \<lparr>prg_hash = replicate PRG_HASH_SIZE [], prg_cache_loaded = 0\<rparr> = Some (c, w) \<and>
    (\<forall>i. prg_cache_get c i = Some (case map_of (owners fs) i of Some n \<Rightarrow> n | None \<Rightarrow> ''-''))"
proof -
  let ?c = "\<lparr>prg_hash = replicate PRG_HASH_SIZE [], prg_cache_loaded = 1\<rparr>"
  let ?st = "\<lparr>ld_cache = ?c, ld_inode = junk, ld_cmdlbuf = buf[511 := NUL], ld_eacces = False, ld_calls = 0\<rparr>"
  have c: "cache_ok ?c" "\<not> cache_has ?c i" for i
    by (simp_all add: cache_ok_def cache_has_def PRG_HASHIT_def PRG_HASH_SIZE_def)
  have "st_ok ?st" using c assms(3) by (simp add: st_ok_def buf_ok_def)
  obtain ds where ds: "pf_proc fs = Some ds" using assms(1) by (auto simp: readable_def)
  then obtain st where st: "proc_loop fs malloc ds ?st = Some st" "ld_cache st = put_all (owners fs) ?c"
    using proc_loop_put [OF assms(2) _ \<open>st_ok ?st\<close>, of ds fs] assms(1) by (auto simp: readable_def owners_def)
  have kept: "take 19 (cstr (n @ [NUL])) = n" if "(i, n) \<in> set (owners fs)" for i n
  proof -
    obtain pid where "n = owner_name fs pid" "NUL \<notin> set pid"
      using \<open>(i, n) \<in> set (owners fs)\<close> assms(1) ds by (fastforce simp: owners_def readable_def)
    moreover have "take 19 (owner_name fs pid) = owner_name fs pid"
      unfolding owner_name_def by (rule trans [OF take_take]) simp
    ultimately show ?thesis using owner_name_cstr [of pid fs] by simp
  qed
  have "prg_cache_get (ld_cache st) i = Some (case map_of (owners fs) i of Some n \<Rightarrow> n | None \<Rightarrow> ''-'')" for i
    using cache.get_fold [OF c(1), of "map (\<lambda>(i, n). (i, n @ [NUL])) (owners fs)" i] c(2) [of i] kept map_of_SomeD [of "owners fs" i]
    by (auto simp: st(2) map_of_map split: option.splits)
  then show ?thesis using st(1) ds by (simp add: prg_cache_load_def)
qed

section \<open>Processes and their sockets\<close>

text \<open>
  What a descriptor of a process refers to, as the link in \<^verbatim>\<open>/proc/<pid>/fd\<close> shows it: a socket with its i-node number, a
  socket in the form of old kernels, something else, or nothing any more because it was closed during the scan.
\<close>

datatype descriptor = Socket nat | Old_Socket nat | Not_Socket string | Closed

fun link_text :: "descriptor \<Rightarrow> string option" where
  "link_text (Socket n) = Some (''socket:['' @ dec n @ '']'')"
| "link_text (Old_Socket n) = Some (''[0000]:'' @ dec n)"
| "link_text (Not_Socket s) = Some s"
| "link_text Closed = None"

fun descriptor_ok :: "descriptor \<Rightarrow> bool" where
  "descriptor_ok (Socket n) \<longleftrightarrow> 0 < n \<and> n < 2 ^ 64 - 1"
| "descriptor_ok (Old_Socket n) \<longleftrightarrow> 0 < n \<and> n < 2 ^ 64 - 1"
| "descriptor_ok (Not_Socket s) \<longleftrightarrow> \<not> prefix ''socket:['' s \<and> \<not> prefix ''[0000]:'' s"
| "descriptor_ok Closed \<longleftrightarrow> True"

text \<open>A process: its id, its command line, and its descriptors by number, \<open>None\<close> when the user may not see them.\<close>

record process =
  ps_pid :: nat
  ps_command :: chars
  ps_files :: "(nat \<times> descriptor) list option"

text \<open>
  What the file system says about a process: its command line, and its descriptors, among entries such as \<^verbatim>\<open>.\<close> that do not begin
  with a digit.
\<close>

definition presents :: "procfs \<Rightarrow> process \<Rightarrow> bool" where
  "presents fs p \<longleftrightarrow> ps_pid p < 2 ^ 31 \<and>
     pf_file fs (''/proc/'' @ dec (ps_pid p) @ ''/cmdline'') = Some (Some (ps_command p), True) \<and>
     (case ps_files p of
        None \<Rightarrow> \<exists>e. pf_opendir fs (''/proc/'' @ dec (ps_pid p) @ ''/fd'') = Inl e
      | Some ds \<Rightarrow> \<exists>names. pf_opendir fs (''/proc/'' @ dec (ps_pid p) @ ''/fd'') = Inr names \<and>
          (\<forall>d\<in>set names. length d \<le> 255) \<and>
          filter (\<lambda>d. d \<noteq> [] \<and> isdigit (hd d)) names = map (dec \<circ> fst) ds \<and>
          (\<forall>(k, d)\<in>set ds. descriptor_ok d \<and>
             pf_readlink fs (''/proc/'' @ dec (ps_pid p) @ ''/fd/'' @ dec k) = link_text d))"

text \<open>The processes in the order of the directory \<^verbatim>\<open>/proc\<close>, among other entries that are no numbers.\<close>

definition presents_all :: "procfs \<Rightarrow> process list \<Rightarrow> bool" where
  "presents_all fs ps \<longleftrightarrow>
     (\<exists>names. pf_proc fs = Some names \<and> filter (list_all isdigit) names = map (dec \<circ> ps_pid) ps) \<and>
     (\<forall>p\<in>set ps. presents fs p)"

text \<open>
  The process is seen to have a socket open: its descriptors may be read, and the number of the i-node has two digits or
  more if the link has the form of today's kernels.
\<close>

definition seen_with :: "nat \<Rightarrow> process \<Rightarrow> bool" where
  "seen_with n p \<longleftrightarrow> (case ps_files p of
     None \<Rightarrow> False
   | Some ds \<Rightarrow> Old_Socket n \<in> snd ` set ds \<or> Socket n \<in> snd ` set ds \<and> 10 \<le> n)"

definition process_name :: "process \<Rightarrow> string" where
  "process_name p = take 19 (dec (ps_pid p) @ ''/'' @ program (ps_command p))"

lemma inode_not_max:
  assumes "n < 2 ^ 64 - 1"
  shows "(of_nat n :: u64) \<noteq> - 1"
proof
  assume "(of_nat n :: u64) = - 1"
  then have "unat (of_nat n :: u64) = unat (- 1 :: u64)" by simp
  with assms show False by (simp add: unsigned_of_nat take_bit_nat_eq_self unsigned_minus_1_eq_mask mask_eq_exp_minus_1)
qed

lemma extract_type_1_socket:
  assumes "0 < n" and "n < 2 ^ 64 - 1"
  shows "extract_type_1_socket_inode (''socket:['' @ dec n @ '']'') inode = (if n < 10 then (- 1, inode) else (0, of_nat n))"
proof (cases "n < 10")
  case True
  then show ?thesis by (subst dec.simps) (simp add: extract_type_1_socket_inode_def PRG_SOCKET_PFX_def)
next
  case False
  with assms length_dec [of n] inode_not_max show ?thesis
    by (simp add: extract_type_1_socket_inode_def PRG_SOCKET_PFX_def Let_def strtoul_dec nth_append)
qed

lemma extract_type_2_socket:
  assumes "0 < n" and "n < 2 ^ 64 - 1"
  shows "extract_type_2_socket_inode (''[0000]:'' @ dec n) inode = (0, of_nat n)"
proof -
  have "1 \<le> length (dec n)" by (cases "dec n") simp_all
  then show ?thesis
    using assms inode_not_max by (simp add: extract_type_2_socket_inode_def PRG_SOCKET_PFX2_def strtoul_dec)
qed

lemma take_link: "n < 2 ^ 64 - 1 \<Longrightarrow> take 29 (''socket:['' @ dec n @ '']'') = ''socket:['' @ dec n @ '']''"
  "n < 2 ^ 64 - 1 \<Longrightarrow> take 29 (''[0000]:'' @ dec n) = ''[0000]:'' @ dec n"
  using length_dec_le [of 20 n] by auto

text \<open>The i-node that the scan takes from a descriptor.\<close>

fun taken :: "descriptor \<Rightarrow> nat option" where
  "taken (Socket n) = (if 10 \<le> n then Some n else None)"
| "taken (Old_Socket n) = Some n"
| "taken _ = None"

lemma link_socket_taken:
  assumes "descriptor_ok d"
  shows "link_socket (link_text d) = map_option of_nat (taken d)"
proof (cases d)
  case (Socket n)
  then show ?thesis
    using assms extract_type_1_socket [of n 0] take_link(1) [of n]
    by (auto simp: link_socket_def fd_inode_def extract_type_2_socket_inode_def PRG_SOCKET_PFX2_def)
next
  case (Old_Socket n)
  then have "extract_type_1_socket_inode (''[0000]:'' @ dec n) 0 = (- 1, 0)"
    by (simp add: extract_type_1_socket_inode_def PRG_SOCKET_PFX_def)
  then show ?thesis
    using Old_Socket assms extract_type_2_socket [of n 0] take_link(2) [of n] by (simp add: link_socket_def fd_inode_def)
next
  case (Not_Socket s)
  then have "take (length PRG_SOCKET_PFX) s \<noteq> PRG_SOCKET_PFX" "take (length PRG_SOCKET_PFX2) s \<noteq> PRG_SOCKET_PFX2"
    using assms take_is_prefix [of _ s] unfolding PRG_SOCKET_PFX_def PRG_SOCKET_PFX2_def by (metis descriptor_ok.simps(3))+
  moreover have "length PRG_SOCKET_PFX \<le> 29" "length PRG_SOCKET_PFX2 \<le> 29"
    by (simp_all add: PRG_SOCKET_PFX_def PRG_SOCKET_PFX2_def)
  ultimately have "take (length PRG_SOCKET_PFX) (take 29 s) \<noteq> PRG_SOCKET_PFX" "take (length PRG_SOCKET_PFX2) (take 29 s) \<noteq> PRG_SOCKET_PFX2"
    by (simp_all add: min_absorb1)
  then have "extract_type_1_socket_inode (take 29 s) 0 = (- 1, 0)" "extract_type_2_socket_inode (take 29 s) 0 = (- 1, 0)"
    unfolding extract_type_1_socket_inode_def extract_type_2_socket_inode_def by (simp_all only: simp_thms if_True if_cancel)
  then show ?thesis
    using Not_Socket by (simp add: link_socket_def fd_inode_def)
qed (simp add: link_socket_def)

lemma presents_readable:
  assumes "presents_all fs ps"
  shows "readable fs"
proof -
  obtain names where n: "pf_proc fs = Some names" "filter (list_all isdigit) names = map (dec \<circ> ps_pid) ps"
    using assms by (auto simp: presents_all_def)
  have "\<exists>p\<in>set ps. pid = dec (ps_pid p)" if "pid \<in> set names" "list_all isdigit pid" for pid
  proof -
    have "pid \<in> set (filter (list_all isdigit) names)" using that by simp
    then show ?thesis unfolding n(2) by auto
  qed
  moreover have "length (dec (ps_pid p)) \<le> 255 \<and> NUL \<notin> set (dec (ps_pid p)) \<and>
      (\<exists>cmd. pf_file fs (''/proc/'' @ dec (ps_pid p) @ ''/cmdline'') = Some (Some cmd, True)) \<and>
      (\<forall>fds. pf_opendir fs (''/proc/'' @ dec (ps_pid p) @ ''/fd'') = Inr fds \<longrightarrow> (\<forall>d\<in>set fds. length d \<le> 255))"
    if "p \<in> set ps" for p
  proof -
    have p: "presents fs p" using assms that by (simp add: presents_all_def)
    then have "ps_pid p < 2 ^ 31" by (simp add: presents_def)
    then have "length (dec (ps_pid p)) \<le> 10" by (subst length_dec_le) auto
    moreover have "\<not> is_digit_in 10 NUL" by (simp add: is_digit_in_def digit_of_def)
    then have "NUL \<notin> set (dec (ps_pid p))" using dec_digits by blast
    ultimately show ?thesis
      using p by (auto simp: presents_def split: option.splits)
  qed
  ultimately show ?thesis
    unfolding readable_def using n(1) by blast
qed

lemma fd_socket_dec: "fd_socket fs pid d = (if d \<noteq> [] \<and> isdigit (hd d) then link_socket (pf_readlink fs (''/proc/'' @ pid @ ''/fd/'' @ d)) else None)"
  by (simp add: fd_socket_def)

lemma map_filter_filter: "List.map_filter (\<lambda>x. if P x then f x else None) xs = List.map_filter f (filter P xs)"
  by (induction xs) (simp_all add: map_filter_simps split: option.split)

lemma sockets_of_shown:
  assumes "presents fs p"
  shows "sockets_of fs (dec (ps_pid p)) = (case ps_files p of
    None \<Rightarrow> [] | Some ds \<Rightarrow> map of_nat (List.map_filter (taken \<circ> snd) ds))"
proof (cases "ps_files p")
  case None
  then show ?thesis using assms by (auto simp: presents_def sockets_of_def)
next
  case (Some ds)
  let ?dir = "''/proc/'' @ dec (ps_pid p) @ ''/fd''"
  obtain names where n: "pf_opendir fs ?dir = Inr names" "filter (\<lambda>d. d \<noteq> [] \<and> isdigit (hd d)) names = map (dec \<circ> fst) ds"
    using assms unfolding presents_def Some option.case by blast
  have "\<forall>(k, d)\<in>set ds. descriptor_ok d \<and> pf_readlink fs (''/proc/'' @ dec (ps_pid p) @ ''/fd/'' @ dec k) = link_text d"
    using assms unfolding presents_def Some option.case by blast
  then have "List.map_filter (\<lambda>k. link_socket (pf_readlink fs (''/proc/'' @ dec (ps_pid p) @ ''/fd/'' @ k))) (map (dec \<circ> fst) ds) =
      map of_nat (List.map_filter (taken \<circ> snd) ds)"
    by (induction ds) (auto simp: map_filter_simps link_socket_taken split: option.split)
  then show ?thesis
    unfolding sockets_of_def n(1) sum.case fd_socket_dec map_filter_filter n(2) Some option.case .
qed

lemma map_of_same: "map_of (map (\<lambda>i. (i, x)) is @ rest) j = (if j \<in> set is then Some x else map_of rest j)"
  by (induction "is") auto

lemma inode_inj: "m < 2 ^ 64 - 1 \<Longrightarrow> n < 2 ^ 64 - 1 \<Longrightarrow> (of_nat m :: u64) = of_nat n \<longleftrightarrow> m = n"
  by (auto dest!: arg_cong [of _ _ unat] simp: unsigned_of_nat take_bit_nat_eq_self)

lemma taken_seen:
  assumes "presents fs p" "0 < n" "n < 2 ^ 64 - 1"
  shows "(of_nat n :: u64) \<in> set (sockets_of fs (dec (ps_pid p))) \<longleftrightarrow> seen_with n p"
proof (cases "ps_files p")
  case (Some ds)
  have ok: "descriptor_ok d" if "(k, d) \<in> set ds" for k d
    using assms(1) that unfolding presents_def Some option.case by blast
  have "(of_nat n :: u64) \<in> of_nat ` set (List.map_filter (taken \<circ> snd) ds) \<longleftrightarrow> (\<exists>(k, d)\<in>set ds. taken d = Some n)"
  proof
    assume "(of_nat n :: u64) \<in> of_nat ` set (List.map_filter (taken \<circ> snd) ds)"
    then obtain k d m where m: "(k, d) \<in> set ds" "taken d = Some m" "(of_nat n :: u64) = of_nat m"
      by (force simp: map_filter_def)
    then have "m < 2 ^ 64 - 1" using ok [OF m(1)] by (cases d) (auto split: if_splits)
    then show "\<exists>(k, d)\<in>set ds. taken d = Some n" using m inode_inj [of n m] assms(3) by auto
  qed (force simp: map_filter_def)
  also have "\<dots> \<longleftrightarrow> seen_with n p"
  proof -
    have "taken d = Some n \<longleftrightarrow> d = Old_Socket n \<or> d = Socket n \<and> 10 \<le> n" for d
      by (cases d) auto
    then show ?thesis by (force simp: seen_with_def Some)
  qed
  finally show ?thesis using sockets_of_shown [OF assms(1)] Some by simp
qed (use sockets_of_shown [OF assms(1)] in \<open>simp add: seen_with_def\<close>)

lemma owners_find:
  assumes "presents_all fs ps" "0 < n" "n < 2 ^ 64 - 1"
  shows "map_of (owners fs) (of_nat n) = map_option process_name (List.find (seen_with n) ps)"
proof -
  have name: "owner_name fs (dec (ps_pid p)) = process_name p" if "p \<in> set ps" for p
    using assms(1) that by (simp add: presents_all_def presents_def owner_name_def process_name_def)
  have "map_of (concat (map (\<lambda>pid. map (\<lambda>i. (i, owner_name fs pid)) (sockets_of fs pid)) (map (dec \<circ> ps_pid) qs))) (of_nat n :: u64) =
      map_option process_name (List.find (seen_with n) qs)" if "set qs \<subseteq> set ps" for qs
    using that
  proof (induction qs)
    case (Cons p qs)
    then have p: "p \<in> set ps" "set qs \<subseteq> set ps" "presents fs p" using assms(1) by (simp_all add: presents_all_def)
    show ?case
      using Cons.IH [OF p(2)] taken_seen [OF p(3) assms(2,3)] name [OF p(1)]
      by (simp only: list.map concat.simps map_of_same find.simps o_apply) simp
  qed simp
  then show ?thesis
    using assms(1) by (auto simp: owners_def presents_all_def)
qed

section \<open>Properties\<close>

text \<open>
  C35: The owners of the sockets.  From an empty cache and with memory available, \<open>prg_cache_load\<close> returns, whatever the
  uninitialised memory holds.  For a socket with i-node \<open>n\<close>, \<open>prg_cache_get\<close> then gives the first process in the order of
  \<^verbatim>\<open>/proc\<close> that is seen to have it open, as its process id and the base name of its program cut to 19 characters; and
  a dash if there is none.  Processes whose descriptors the user may not read are not seen.  Nor is, against the form that the comment of
  \<open>extract_type_1_socket_inode\<close> gives, a link \<open>socket:[n]\<close> with a number of one digit.
\<close>

theorem prg_cache_load_owners:
  assumes "presents_all fs ps" and "\<forall>k. \<exists>pn. malloc k = Some pn \<and> node_ok pn" and "length buf = 512"
  shows "\<exists>c w. prg_cache_load fs malloc junk buf \<lparr>prg_hash = replicate PRG_HASH_SIZE [], prg_cache_loaded = 0\<rparr> = Some (c, w) \<and>
    (\<forall>n. 0 < n \<and> n < 2 ^ 64 - 1 \<longrightarrow>
       prg_cache_get c (of_nat n) = Some (case List.find (seen_with n) ps of Some p \<Rightarrow> process_name p | None \<Rightarrow> ''-''))"
proof -
  obtain c w where "prg_cache_load fs malloc junk buf \<lparr>prg_hash = replicate PRG_HASH_SIZE [], prg_cache_loaded = 0\<rparr> = Some (c, w)"
    "\<forall>i. prg_cache_get c i = Some (case map_of (owners fs) i of Some n \<Rightarrow> n | None \<Rightarrow> ''-'')"
    using prg_cache_load_finds [OF presents_readable [OF assms(1)] assms(2,3)] by blast
  then show ?thesis
    using owners_find [OF assms(1)] by (auto split: option.split)
qed

text \<open>Four processes; the second one is hidden, and the third one has a socket with an i-node of one digit.\<close>

definition ex_fs :: procfs where
  "ex_fs = \<lparr>pf_proc = Some [''self'', ''7'', ''8'', ''12'', ''13''],
     pf_opendir = (\<lambda>p. if p = ''/proc/8/fd'' then Inl True else Inr [''.'', ''0'', ''3'']),
     pf_readlink = (\<lambda>p. map_of [(''/proc/7/fd/0'', ''/dev/null''), (''/proc/7/fd/3'', ''[0000]:6''), (''/proc/12/fd/0'', ''socket:[5]''),
       (''/proc/12/fd/3'', ''socket:[4711]''), (''/proc/13/fd/3'', ''socket:[4711]'')] p),
     pf_file = (\<lambda>p. Some (Some (if p = ''/proc/7/cmdline'' then ''init'' else ''/bin/nc''), True))\<rparr>"

definition ex_ps :: "process list" where
  "ex_ps =
     [\<lparr>ps_pid = 7, ps_command = ''init'', ps_files = Some [(0, Not_Socket ''/dev/null''), (3, Old_Socket 6)]\<rparr>,
      \<lparr>ps_pid = 8, ps_command = ''/bin/nc'', ps_files = None\<rparr>,
      \<lparr>ps_pid = 12, ps_command = ''/bin/nc'', ps_files = Some [(0, Socket 5), (3, Socket 4711)]\<rparr>,
      \<lparr>ps_pid = 13, ps_command = ''/bin/nc'', ps_files = Some [(0, Closed), (3, Socket 4711)]\<rparr>]"

lemma dec_ex: "dec 0 = ''0''" "dec 3 = ''3''" "dec 5 = ''5''" "dec 6 = ''6''" "dec 7 = ''7''" "dec 8 = ''8''" "dec 12 = ''12''" "dec 13 = ''13''"
  "dec 4711 = ''4711''"
  by code_simp+

lemma presents_ex: "presents_all ex_fs ex_ps"
  by (simp add: presents_all_def presents_def ex_ps_def dec_ex) (simp add: ex_fs_def isdigit_def dec_ex, blast)

theorem prg_cache_load_owners_witness:
  "\<exists>c w. prg_cache_load ex_fs (\<lambda>_. Some \<lparr>pn_inode = 1, pn_name = replicate 20 CHR ''x'', pn_scon = replicate 50 CHR ''x''\<rparr>)
      5 (replicate 512 CHR ''x'') \<lparr>prg_hash = replicate PRG_HASH_SIZE [], prg_cache_loaded = 0\<rparr> = Some (c, w) \<and>
    prg_cache_get c 4711 = Some ''12/nc'' \<and> prg_cache_get c 6 = Some ''7/init'' \<and> prg_cache_get c 5 = Some ''-''"
proof -
  let ?m = "\<lambda>_::nat. Some \<lparr>pn_inode = 1, pn_name = replicate 20 CHR ''x'', pn_scon = replicate 50 CHR ''x''\<rparr>"
  have m: "\<forall>k. \<exists>pn. ?m k = Some pn \<and> node_ok pn" by (simp add: node_ok_def PROGNAME_WIDTH_def SELINUX_WIDTH_def)
  have l: "length (replicate 512 CHR ''x'') = 512" by (rule length_replicate)
  obtain c w where c: "prg_cache_load ex_fs ?m 5 (replicate 512 CHR ''x'')
      \<lparr>prg_hash = replicate PRG_HASH_SIZE [], prg_cache_loaded = 0\<rparr> = Some (c, w)"
    "\<forall>n. 0 < n \<and> n < 2 ^ 64 - 1 \<longrightarrow>
       prg_cache_get c (of_nat n) = Some (case List.find (seen_with n) ex_ps of Some p \<Rightarrow> process_name p | None \<Rightarrow> ''-'')"
    using prg_cache_load_owners [OF presents_ex m l, of 5] by blast
  have "process_name (ex_ps ! 2) = ''12/nc''" "process_name (ex_ps ! 0) = ''7/init''"
    by (simp_all add: ex_ps_def process_name_def program_def dec_ex)
  then show ?thesis
    using c(2) [rule_format, of 4711] c(2) [rule_format, of 6] c(2) [rule_format, of 5] c(1)
    by (simp add: ex_ps_def seen_with_def)
qed

text \<open>
  The link that the kernel prints for a socket is read back: an i-node of at least two digits
  is recovered exactly, while one of a single digit is refused, because the code asks for three characters behind the prefix.
\<close>

theorem extract_type_1_roundtrip:
  assumes "0 < n" and "n < 2 ^ 64 - 1"
  shows "extract_type_1_socket_inode (''socket:['' @ dec n @ '']'') inode = (if n < 10 then (- 1, inode) else (0, of_nat n))"
  using assms by (rule extract_type_1_socket)

theorem extract_type_1_roundtrip_witness: "extract_type_1_socket_inode ''socket:[42]'' 7 = (0, 42)"
proof -
  have "dec 42 = ''42''" by code_simp
  then show ?thesis using extract_type_1_roundtrip [of 42 7] by simp
qed

text \<open>
  Adding an entry copies the name and the security context independently of what the
  allocated memory held: the name is cut to 19 characters; of a context of 50 or more characters the last 48 are kept, one
  less than fits.  An i-node that is already there is left as it is.
\<close>

theorem prg_cache_add_spec:
  assumes "length (prg_hash c) = PRG_HASH_SIZE" and "length (pn_name pn) = 20" "length (pn_scon pn) = 50"
    and "length (cstr scon) < 2 ^ 31"
  shows "\<exists>c'. prg_cache_add (Some pn) c inode name scon = Some c' \<and> prg_cache_loaded c' = 2 \<and>
    length (prg_hash c') = PRG_HASH_SIZE \<and>
    (\<forall>i. i \<noteq> inode \<longrightarrow> prg_cache_get c' i = prg_cache_get c i \<and> prg_cache_get_con c' i = prg_cache_get_con c i) \<and>
    (if chain_has inode (prg_hash c ! PRG_HASHIT inode)
     then prg_cache_get c' inode = prg_cache_get c inode
     else prg_cache_get c' inode = Some (take 19 (cstr name)) \<and>
       prg_cache_get_con c' inode = Some (if length (cstr scon) < 50 then cstr scon else drop (length (cstr scon) - 48) (cstr scon)))"
proof -
  have c: "cache_ok c" using assms(1) by (simp add: cache_ok_def)
  have "NUL \<notin> set (scon_part scon)"
    using cstr_no_NUL [of scon] by (auto simp: scon_part_def Let_def dest: in_set_dropD)
  then have "cstr (pad SELINUX_WIDTH (scon_part scon)) = scon_part scon"
    by (simp add: cstr_pad SELINUX_WIDTH_def scon_part_def Let_def)
  then have "prg_cache_get_con (cache_put c inode name scon) i =
      (if i = inode \<and> \<not> cache_has c inode then Some (scon_part scon) else prg_cache_get_con c i)" for i
    using PRG_HASHIT_less [OF c]
    by (auto simp: prg_cache_get_con_def cache_has_def cache_put_def cache_node_def Let_def nth_list_update
        chain_find_append chain_has_iff split: option.splits)
  moreover have "prg_cache_add (Some pn) c inode name scon = Some (cache_put c inode name scon)"
    using prg_cache_add_put [OF c _ assms(4)] assms(2,3) by (simp add: node_ok_def PROGNAME_WIDTH_def SELINUX_WIDTH_def)
  ultimately show ?thesis
    using c cache_get_put [OF c, of inode name scon] cache_ok_put [OF c, of inode name scon]
    by (auto simp: cache_ok_def cache_has_def scon_part_def Let_def SELINUX_WIDTH_def cache_put_def)
qed

theorem prg_cache_add_spec_witness:
  "\<exists>c'. prg_cache_add (Some \<lparr>pn_inode = 1, pn_name = replicate 20 CHR ''x'', pn_scon = replicate 50 CHR ''x''\<rparr>)
      \<lparr>prg_hash = replicate 211 [], prg_cache_loaded = 0\<rparr> 99 (''12/nc'' @ [NUL]) (replicate 60 CHR ''s'' @ [NUL]) = Some c' \<and>
    prg_cache_get c' 99 = Some ''12/nc'' \<and> prg_cache_get_con c' 99 = Some (replicate 48 CHR ''s'')"
proof -
  have s: "cstr (replicate 60 CHR ''s'' @ [NUL]) = replicate 60 CHR ''s''" by (rule cstr_append_NUL) simp
  show ?thesis
    using prg_cache_add_spec [of "\<lparr>prg_hash = replicate 211 [], prg_cache_loaded = 0\<rparr>"
        "\<lparr>pn_inode = 1, pn_name = replicate 20 CHR ''x'', pn_scon = replicate 50 CHR ''x''\<rparr>"
        "replicate 60 CHR ''s'' @ [NUL]" 99 "''12/nc'' @ [NUL]"]
    unfolding s by (auto simp: PRG_HASH_SIZE_def PRG_HASHIT_def)
qed

text \<open>
  After \<open>prg_cache_clear\<close> of a loaded cache no i-node is found, and the next \<open>prg_cache_load\<close> scans again.
\<close>

theorem prg_cache_clear_forgets:
  assumes "length (prg_hash c) = PRG_HASH_SIZE" and "prg_cache_loaded c = 2"
  shows "prg_cache_get (prg_cache_clear c) i = Some ''-'' \<and> prg_cache_get_con (prg_cache_clear c) i = Some ''-'' \<and>
    prg_cache_load fs malloc junk buf (prg_cache_clear c) =
    prg_cache_load fs malloc junk buf \<lparr>prg_hash = replicate PRG_HASH_SIZE [], prg_cache_loaded = 0\<rparr>"
proof -
  have "prg_cache_clear c = \<lparr>prg_hash = replicate PRG_HASH_SIZE [], prg_cache_loaded = 0\<rparr>"
    using assms by (simp add: prg_cache_clear_def map_replicate_const)
  then show ?thesis by (simp add: prg_cache_get_def prg_cache_get_con_def PRG_HASHIT_def PRG_HASH_SIZE_def)
qed

theorem prg_cache_clear_forgets_witness:
  "prg_cache_get (prg_cache_clear \<lparr>prg_hash = replicate 211 [\<lparr>pn_inode = 5, pn_name = ''1/a'' @ [NUL], pn_scon = ''-'' @ [NUL]\<rparr>],
     prg_cache_loaded = 2\<rparr>) 5 = Some ''-''"
  using prg_cache_clear_forgets [of "\<lparr>prg_hash = replicate 211 [\<lparr>pn_inode = 5, pn_name = ''1/a'' @ [NUL], pn_scon = ''-'' @ [NUL]\<rparr>],
     prg_cache_loaded = 2\<rparr>" 5]
  by (simp add: PRG_HASH_SIZE_def)

end
