(* ===== verification/Various.thy ===== *)
theory Various
  imports Decimal
begin

text \<open>
  The conversions of \<^verbatim>\<open>src/Qt/FakeAtop/various.c\<close>.  The result of a conversion is the string that \<open>sprintf\<close> writes; the
  header comments of the functions say how large the caller's array is.  \<open>localtime\<close> is a
  parameter of what calls it.
\<close>

section \<open>Times\<close>

text \<open>The members of \<open>struct tm\<close> that are used.\<close>

record tm =
  tm_sec :: int
  tm_min :: int
  tm_hour :: int
  tm_mday :: int
  tm_mon :: int
  tm_year :: int

definition convtime :: "(time_t \<Rightarrow> tm) \<Rightarrow> time_t \<Rightarrow> string" where
  "convtime localtime utime = (let tt = localtime utime in
     decz0 2 (tm_hour tt) @ '':'' @ decz0 2 (tm_min tt) @ '':'' @ decz0 2 (tm_sec tt))"

definition convdate :: "(time_t \<Rightarrow> tm) \<Rightarrow> time_t \<Rightarrow> string" where
  "convdate localtime utime = (let tt = localtime utime in
     decz0 4 (tm_year tt + 1900) @ ''/'' @ decz0 2 (tm_mon tt + 1) @ ''/'' @ decz0 2 (tm_mday tt))"

definition daysecs :: "(time_t \<Rightarrow> tm) \<Rightarrow> time_t \<Rightarrow> int" where
  "daysecs localtime itime = (let tt = localtime itime in tm_hour tt * 3600 + tm_min tt * 60)"

definition SECSDAY :: u32 where "SECSDAY = 86400"

text \<open>
  \<open>sscanf\<close> with \<open>%d:%d\<close> on a string of digits and colons: a number is what \<open>strtol\<close> gives, cut to an \<open>int\<close>.  Variables that are not reached keep
  what they held.
\<close>

definition store_int :: "nat \<Rightarrow> i32" where
  "store_int n = ucast (if 2 ^ 63 \<le> n then 2 ^ 63 - 1 else of_nat n :: i64)"

definition scan_hhmm :: "string \<Rightarrow> i32 \<times> i32 \<Rightarrow> i32 \<times> i32" where
  "scan_hhmm s hm = (case hm of (hours, minutes) \<Rightarrow>
     case s of
       [] \<Rightarrow> (hours, minutes)
     | c # _ \<Rightarrow>
         if \<not> isdigit c then (hours, minutes)
         else let (h, rest) = scan_digits 10 0 s in
           (case rest of
              CHR '':'' # m # ms \<Rightarrow>
                if \<not> isdigit m then (store_int h, minutes)
                else (store_int h, store_int (fst (scan_digits 10 0 (m # ms))))
            | _ \<Rightarrow> (store_int h, minutes)))"

text \<open>The return value and what \<open>*otim\<close> holds; \<open>hm\<close> are the uninitialised local variables.\<close>

definition hhmm2secs :: "i32 \<times> i32 \<Rightarrow> string \<Rightarrow> u32 \<Rightarrow> bool \<times> u32" where
  "hhmm2secs hm itim otim =
     (if \<exists>c\<in>set itim. \<not> isdigit c \<and> c \<noteq> CHR '':'' then (False, otim)
      else let (hours, minutes) = scan_hhmm itim hm in
        if hours <s 0 \<or> 23 <s hours \<or> minutes <s 0 \<or> 59 <s minutes then (False, otim)
        else let otim = hours * 3600 + minutes * 60 in
          (True, if SECSDAY \<le> otim then SECSDAY - 1 else otim))"

section \<open>Values in a fixed width\<close>

text \<open>
  \<open>pow(10.0, width) - 1\<close> converted to \<open>count_t\<close>: exact up to 15 positions; up to 18 the subtraction is lost in the
  rounding of \<open>double\<close>; beyond, the conversion is undefined.
\<close>

definition maxval :: "int \<Rightarrow> nat option" where
  "maxval width =
     (if width < 0 then Some 0
      else if width \<le> 15 then Some (10 ^ nat width - 1)
      else if width \<le> 18 then Some (10 ^ nat width)
      else None)"

fun shrink :: "nat \<Rightarrow> nat \<Rightarrow> nat \<Rightarrow> nat \<Rightarrow> nat \<times> nat \<times> nat" where
  "shrink mx value exp remain =
     (if mx < value then shrink mx (value div 10) (exp + 1) (value mod 10) else (value, exp, remain))"

declare shrink.simps [simp del]

text \<open>A negative width of \<open>%*lld\<close> is a flag for left justification.\<close>

definition field :: "int \<Rightarrow> string \<Rightarrow> string" where
  "field width s = (if width < 0 then s @ replicate (nat (- width) - length s) CHR '' '' else rjust (nat width) s)"

definition val2valstr :: "i64 \<Rightarrow> int \<Rightarrow> bool \<Rightarrow> i32 \<Rightarrow> string option" where
  "val2valstr value width avg nsecs =
     (let (value, width, suffix) =
        (if avg \<and> truth nsecs
         then (cdiv (value + scast (cdiv nsecs 2)) (scast nsecs), width - 2, ''/s'')
         else (value, width, []))
      in
      if value <s 0 then Some (field width ''?'' @ suffix)
      else do {
        mx \<leftarrow> maxval width;
        if unat value < mx then Some (field width (dec (unat value)) @ suffix)
        else if width < 3 then Some (dec (unat value) @ suffix)
        else do {
          let width = width - 2;
          mx \<leftarrow> maxval width;
          let (v, exp, remain) = shrink mx (unat value) 0 0;
          let v = (if 5 \<le> remain then v + 1 else v);
          Some (field width (dec v) @ ''e'' @ dec exp @ suffix)
        }
      })"

section \<open>Durations\<close>

definition val2elapstr :: "i32 \<Rightarrow> string" where
  "val2elapstr value =
     (let v = sint value in
      (if 86400 \<le> v then decz (v sdiv 86400) @ ''d'' else []) @
      (if 3600 \<le> v then decz (v smod 86400 sdiv 3600) @ ''h'' else []) @
      (if 60 \<le> v then decz (v smod 3600 sdiv 60) @ ''m'' else []) @
      decz (v smod 60) @ ''s'')"

definition val2cpustr :: "i64 \<Rightarrow> string" where
  "val2cpustr value =
     (if value <s 100000 then
        rjust 2 (decz (sint value sdiv 1000)) @ ''.'' @ decz0 2 (sint value smod 1000 sdiv 10) @ ''s''
      else
        let value = cdiv (value + 500) 1000 in
        if value <s 6000 then
          rjust 2 (decz (sint value sdiv 60)) @ ''m'' @ decz0 2 (sint value smod 60) @ ''s''
        else
          let value = cdiv (value + 30) 60 in
          if value <s 6000 then
            rjust 2 (decz (sint value sdiv 60)) @ ''h'' @ decz0 2 (sint value smod 60) @ ''m''
          else
            let value = cdiv (value + 30) 60 in
            rjust 2 (decz (sint value sdiv 24)) @ ''d'' @ decz0 2 (sint value smod 24) @ ''h'')"

section \<open>Memory sizes\<close>

text \<open>The format codes are small integers; the chosen one is kept in a \<open>char\<close>.\<close>

definition ANYFORMAT :: i32 where "ANYFORMAT = 0"
definition KBFORMAT :: i32 where "KBFORMAT = 1"
definition MBFORMAT :: i32 where "MBFORMAT = 2"
definition GBFORMAT :: i32 where "GBFORMAT = 3"
definition TBFORMAT :: i32 where "TBFORMAT = 4"
definition PBFORMAT :: i32 where "PBFORMAT = 5"

lemmas formats = ANYFORMAT_def KBFORMAT_def MBFORMAT_def GBFORMAT_def TBFORMAT_def PBFORMAT_def

definition ONEKBYTE :: i64 where "ONEKBYTE = 1024"
definition ONEMBYTE :: i64 where "ONEMBYTE = 1048576"
definition ONEGBYTE :: i64 where "ONEGBYTE = 1073741824"
definition ONETBYTE :: i64 where "ONETBYTE = 1099511627776"
definition ONEPBYTE :: i64 where "ONEPBYTE = 1125899906842624"

definition MAXBYTE :: i64 where "MAXBYTE = 1024"
definition MAXKBYTE :: i64 where "MAXKBYTE = ONEKBYTE * 99999"
definition MAXMBYTE :: i64 where "MAXMBYTE = ONEMBYTE * 999"
definition MAXGBYTE :: i64 where "MAXGBYTE = ONEGBYTE * 999"
definition MAXTBYTE :: i64 where "MAXTBYTE = ONETBYTE * 999"

lemmas memory_units = ONEKBYTE_def ONEMBYTE_def ONEGBYTE_def ONETBYTE_def ONEPBYTE_def
  MAXBYTE_def MAXKBYTE_def MAXMBYTE_def MAXGBYTE_def MAXTBYTE_def

text \<open>
  A natural number divided with the rounding of IEEE arithmetic (to nearest, ties to even); a \<open>count_t\<close> converted to
  \<open>double\<close>, which keeps 53 bits; and \<open>%.1lf\<close> of such a number divided by a power of two, which is exact in \<open>double\<close>.
\<close>

definition div_even :: "int \<Rightarrow> int \<Rightarrow> int" where
  "div_even n d = (let q = n div d; r = n mod d in
     if 2 * r < d \<or> 2 * r = d \<and> even q then q else q + 1)"

fun bitlen :: "int \<Rightarrow> nat" where
  "bitlen n = (if n \<le> 0 then 0 else Suc (bitlen (n div 2)))"

declare bitlen.simps [simp del]

definition to_double :: "int \<Rightarrow> int" where
  "to_double n = (let k = bitlen n - 53 in div_even n (2 ^ k) * 2 ^ k)"

definition tenths :: "int \<Rightarrow> int \<Rightarrow> string" where
  "tenths i unit = (let n = div_even (to_double \<bar>i\<bar> * 10) unit in
     (if i < 0 then ''-'' else []) @ dec (nat (n div 10)) @ ''.'' @ dec (nat (n mod 10)))"

text \<open>The \<open>switch\<close> at the end of \<open>val2memstr\<close>.\<close>

definition memfield :: "i64 \<Rightarrow> i32 \<Rightarrow> nat \<Rightarrow> string \<Rightarrow> string" where
  "memfield value aformat basewidth suffix =
     (if aformat = ANYFORMAT then rjust basewidth (decz (sint value)) @ suffix
      else if aformat = KBFORMAT then rjust (basewidth - 1) (decz (sint (cdiv value ONEKBYTE))) @ ''K'' @ suffix
      else if aformat = MBFORMAT then rjust (basewidth - 1) (tenths (sint value) (sint ONEMBYTE)) @ ''M'' @ suffix
      else if aformat = GBFORMAT then rjust (basewidth - 1) (tenths (sint value) (sint ONEGBYTE)) @ ''G'' @ suffix
      else if aformat = TBFORMAT then rjust (basewidth - 1) (tenths (sint value) (sint ONETBYTE)) @ ''T'' @ suffix
      else if aformat = PBFORMAT then rjust (basewidth - 1) (tenths (sint value) (sint ONEPBYTE)) @ ''P'' @ suffix
      else ''!TILT!'')"

definition advised :: "i64 \<Rightarrow> i32" where
  "advised verifyval =
     (if verifyval \<le>s MAXBYTE then ANYFORMAT
      else if verifyval \<le>s MAXKBYTE then KBFORMAT
      else if verifyval \<le>s MAXMBYTE then MBFORMAT
      else if verifyval \<le>s MAXGBYTE then GBFORMAT
      else if verifyval \<le>s MAXTBYTE then TBFORMAT
      else PBFORMAT)"

definition val2memstr :: "i64 \<Rightarrow> i32 \<Rightarrow> bool \<Rightarrow> i32 \<Rightarrow> string" where
  "val2memstr value pformat avgval nsecs =
     (let verifyval = (if value <s 0 then - value * 10 else value);
          (value, verifyval, basewidth, suffix) =
            (if avgval \<and> truth nsecs
             then (cdiv value (scast nsecs), cdiv (verifyval * 100) (scast nsecs), 4, ''/s'')
             else (value, verifyval, 6, []));
          aformat = advised verifyval;
          aformat = (if aformat \<le>s pformat then scast (ucast pformat :: byte) else aformat)
      in memfield value aformat basewidth suffix)"

section \<open>Tests and privileges\<close>

fun numeric :: "string \<Rightarrow> bool" where
  "numeric [] = True"
| "numeric (c # s) = (if (of_char c :: nat) < 48 \<or> 57 < (of_char c :: nat) then False else numeric s)"

text \<open>\<open>getboot\<close> keeps its first answer that is not zero: the new contents of \<open>boottime\<close>, which is also the result.\<close>

definition getboot :: "u64 \<Rightarrow> u64 \<Rightarrow> u64" where
  "getboot getbootlinux boottime = (if \<not> truth boottime then getbootlinux else boottime)"

text \<open>\<open>seteuid\<close> either succeeds (\<open>None\<close>) or fails with an error number.\<close>

definition EPERM :: i32 where "EPERM = 1"

definition droprootprivs :: "i32 option \<Rightarrow> bool" where
  "droprootprivs seteuid = (case seteuid of Some errno \<Rightarrow> errno = EPERM | None \<Rightarrow> True)"


section \<open>Values in a fixed width\<close>

text \<open>A signed number that is not negative reads the same unsigned.\<close>

lemma nonneg_sint:
  fixes w :: i64
  assumes "0 \<le>s w"
  shows "unat w < 2 ^ 63" "sint w = int (unat w)"
proof -
  have uw: "uint (word_of_int i :: i64) = take_bit 64 i" for i by (simp add: unsigned_of_int)
  have "take_bit 64 (sint w) = sint w"
    using assms sint_range_64 [of w] by (intro take_bit_int_eq_self) (simp_all add: word_sle_eq)
  then have "uint (word_of_int (sint w) :: i64) = sint w" by (simp only: uw)
  then have "sint w = uint w" by simp
  then show "sint w = int (unat w)" by simp
  then have "int (unat w) < int (2 ^ 63)" using sint_range_64 [of w] by simp
  then show "unat w < 2 ^ 63" by (simp only: of_nat_less_iff)
qed

lemma shrink_result:
  "\<exists>k. shrink mx v e r = (v div 10 ^ k, e + k, if k = 0 then r else v div 10 ^ (k - 1) mod 10) \<and>
       v div 10 ^ k \<le> mx \<and> (\<forall>j<k. mx < v div 10 ^ j)"
proof (induction mx v e r rule: shrink.induct)
  case (1 mx v e r)
  show ?case
  proof (cases "mx < v")
    case False
    then show ?thesis by (intro exI [of _ 0]) (simp add: shrink.simps)
  next
    case True
    from 1 [OF True] obtain k where
      k: "shrink mx (v div 10) (e + 1) (v mod 10) =
            (v div 10 div 10 ^ k, e + 1 + k, if k = 0 then v mod 10 else v div 10 div 10 ^ (k - 1) mod 10)"
      and le: "v div 10 div 10 ^ k \<le> mx" and gt: "\<forall>j<k. mx < v div 10 div 10 ^ j" by blast
    have down: "v div 10 div 10 ^ j = v div 10 ^ Suc j" for j by (simp add: div_mult2_eq)
    have "shrink mx v e r = (v div 10 ^ Suc k, e + Suc k, v div 10 ^ k mod 10)"
      using True k by (cases k) (simp_all add: shrink.simps [of mx v] down del: power_Suc)
    moreover have "mx < v div 10 ^ j" if "j < Suc k" for j
      using that gt True by (cases j) (auto simp: div_mult2_eq)
    ultimately show ?thesis using le by (intro exI [of _ "Suc k"]) (simp add: div_mult2_eq)
  qed
qed

text \<open>Adding one when the last digit dropped is at least 5 is rounding to the nearest multiple, halves upwards.\<close>

lemma carry_rounds:
  assumes "0 < k"
  shows "(if 5 \<le> (v::nat) div 10 ^ (k - 1) mod 10 then v div 10 ^ k + 1 else v div 10 ^ k) =
         (v + 5 * 10 ^ (k - 1)) div 10 ^ k"
proof -
  obtain i where k: "k = Suc i" using assms by (cases k) auto
  then have i: "k - 1 = i" by simp
  define u where "u = v div 10 ^ i"
  have low: "v div 10 ^ k = u div 10" by (simp add: k u_def div_mult2_eq [symmetric] mult.commute)
  have round: "(v + 5 * 10 ^ i) div 10 ^ k = (u + 5) div 10"
    by (simp add: k u_def div_mult2_eq mult.commute [of 10])
  have "(u mod 10 + 5) div 10 = (if 5 \<le> u mod 10 then 1 else 0)"
    using mod_less_divisor [of 10 u] by (auto intro!: div_nat_eqI)
  then have "(if 5 \<le> u mod 10 then u div 10 + 1 else u div 10) = (u + 5) div 10"
    by (simp add: div_add1_eq [of u 5])
  then show ?thesis unfolding i low round by (simp only: u_def)
qed

lemma maxval_small: "width \<le> 15 \<Longrightarrow> maxval (int width) = Some (10 ^ width - 1)"
  by (simp add: maxval_def)

lemma val2valstr_fits:
  assumes "0 \<le>s value" and "width \<le> 15" and "unat value < 10 ^ width - 1"
  shows "val2valstr value (int width) False nsecs = Some (rjust width (dec (unat value)))"
  using assms by (auto simp: val2valstr_def maxval_small field_def word_sless_alt word_sle_eq)

lemma val2valstr_long:
  assumes v: "0 \<le>s value" and w: "3 \<le> width" "width \<le> 15" and big: "10 ^ width - 1 \<le> unat value"
  shows "\<exists>k m. val2valstr value (int width) False nsecs = Some (rjust (width - 2) (dec m) @ ''e'' @ dec k) \<and>
           m = (unat value + 5 * 10 ^ (k - 1)) div 10 ^ k \<and> 0 < k \<and> k \<le> 18 \<and>
           (\<forall>j. unat value div 10 ^ j < 10 ^ (width - 2) \<longleftrightarrow> k \<le> j)"
proof -
  define mx :: nat where "mx = 10 ^ (width - 2) - 1"
  have pos: "(1::nat) \<le> 10 ^ (width - 2)" by simp
  obtain k where sh: "shrink mx (unat value) 0 0 =
      (unat value div 10 ^ k, 0 + k, if k = 0 then 0 else unat value div 10 ^ (k - 1) mod 10)"
    and le: "unat value div 10 ^ k \<le> mx" and gt: "\<And>j. j < k \<Longrightarrow> mx < unat value div 10 ^ j"
    using shrink_result [of mx "unat value" 0 0] by blast
  have "(10::nat) ^ (width - 2) < 10 ^ width" using w by (intro power_strict_increasing) auto
  then have "mx < unat value" using big pos unfolding mx_def by linarith
  then have k0: "0 < k" using le by (cases k) auto
  have iff: "unat value div 10 ^ j < 10 ^ (width - 2) \<longleftrightarrow> k \<le> j" for j
  proof
    assume "unat value div 10 ^ j < 10 ^ (width - 2)"
    then show "k \<le> j" using gt [of j] pos unfolding mx_def by linarith
  next
    assume "k \<le> j"
    then have "unat value div 10 ^ j \<le> unat value div 10 ^ k" by (intro div_le_mono2) (auto intro: power_increasing)
    then show "unat value div 10 ^ j < 10 ^ (width - 2)" using le pos unfolding mx_def by linarith
  qed
  have "unat value < 2 ^ 63" using v by (rule nonneg_sint)
  then have "unat value div 10 ^ 18 < 10 ^ 1" by (simp add: div_less_iff_less_mult)
  also have "(10::nat) ^ 1 \<le> 10 ^ (width - 2)" using w by (intro power_increasing) auto
  finally have "k \<le> 18" using iff by blast
  moreover have "val2valstr value (int width) False nsecs =
      Some (rjust (width - 2) (dec ((unat value + 5 * 10 ^ (k - 1)) div 10 ^ k)) @ ''e'' @ dec k)"
  proof -
    have "maxval (int width) = Some (10 ^ width - 1)" "maxval (int width - 2) = Some mx"
      using w maxval_small [of width] maxval_small [of "width - 2"] by (simp_all add: mx_def of_nat_diff)
    then show ?thesis
      using v big w sh k0 carry_rounds [OF k0, of "unat value"]
      by (simp add: val2valstr_def field_def word_sless_alt word_sle_eq nat_diff_distrib)
  qed
  ultimately show ?thesis using k0 iff by blast
qed

lemma length_val2valstr:
  assumes "0 \<le>s value" and "3 \<le> width" and "width \<le> 15"
  shows "\<exists>s. val2valstr value (int width) False nsecs = Some s \<and> length s \<le> width + 2"
proof (cases "unat value < 10 ^ width - 1")
  case True
  then have "length (dec (unat value)) \<le> width" using assms by (subst length_dec_le) auto
  then show ?thesis using val2valstr_fits [OF assms(1,3) True] by simp
next
  case False
  then obtain k m where s: "val2valstr value (int width) False nsecs = Some (rjust (width - 2) (dec m) @ ''e'' @ dec k)"
    and m: "m = (unat value + 5 * 10 ^ (k - 1)) div 10 ^ k" and k: "0 < k" "k \<le> 18"
    and q: "\<forall>j. unat value div 10 ^ j < 10 ^ (width - 2) \<longleftrightarrow> k \<le> j"
    using val2valstr_long [of "value" width nsecs] assms by fastforce
  have "m \<le> unat value div 10 ^ k + 1" unfolding m using carry_rounds [OF k(1), of "unat value"] by (simp split: if_splits)
  also have "\<dots> \<le> 10 ^ (width - 2)" using q by (simp add: Suc_le_eq)
  also have "\<dots> < 10 ^ (width - 1)" using assms by (intro power_strict_increasing) auto
  finally have "length (dec m) \<le> width - 1" using assms by (subst length_dec_le) auto
  moreover have "length (dec k) \<le> 2" using k by (subst length_dec_le) auto
  ultimately show ?thesis using s assms by auto
qed

section \<open>Memory sizes\<close>

lemma div_even_le: "0 < d \<Longrightarrow> n \<le> q * d \<Longrightarrow> div_even n d \<le> q"
proof -
  assume d: "0 < d" and n: "n \<le> q * d"
  have qd: "n div d \<le> q" using n d zdiv_mono1 [of n "q * d" d] by simp
  show ?thesis
  proof (cases "n div d = q")
    case True
    have "q * d + n mod d = n" using True div_mult_mod_eq [of n d] by simp
    then have "n mod d = 0" using n pos_mod_sign [OF d, of n] by linarith
    then show ?thesis using True d by (simp add: div_even_def)
  next
    case False
    then show ?thesis using qd by (auto simp: div_even_def Let_def)
  qed
qed

lemma div_even_nonneg: "0 \<le> n \<Longrightarrow> 0 < d \<Longrightarrow> 0 \<le> div_even n d"
  by (simp add: div_even_def Let_def pos_imp_zdiv_nonneg_iff add_nonneg_nonneg)

lemma bitlen_le: "n < 2 ^ k \<Longrightarrow> bitlen n \<le> k"
proof (induction n arbitrary: k rule: bitlen.induct)
  case (1 n)
  show ?case
  proof (cases "n \<le> 0")
    case True
    then show ?thesis by (subst bitlen.simps) simp
  next
    case False
    then obtain j where "k = Suc j" using 1(2) by (cases k) auto
    then show ?thesis using 1(1) [OF False, of j] 1(2) False by (subst bitlen.simps) simp
  qed
qed

lemma to_double_le:
  assumes "n \<le> m" and "2 ^ 10 dvd m" and "n < 2 ^ 63"
  shows "to_double n \<le> m"
proof -
  define k where "k = bitlen n - 53"
  have "k \<le> 10" using bitlen_le [OF assms(3)] unfolding k_def by simp
  then have "2 ^ k dvd m" using assms(2) by (meson dvd_trans le_imp_power_dvd)
  then obtain c where c: "m = c * 2 ^ k" by (metis dvdE mult.commute)
  then have "div_even n (2 ^ k) \<le> c" using assms(1) by (intro div_even_le) auto
  then show ?thesis by (simp add: to_double_def c flip: k_def)
qed

lemma to_double_nonneg: "0 \<le> n \<Longrightarrow> 0 \<le> to_double n"
  by (simp add: to_double_def Let_def div_even_nonneg)

lemma length_tenths:
  assumes i: "0 \<le> i" "i < 2 ^ 63" "i \<le> q * unit" and u: "0 < unit" "2 ^ 10 dvd unit" and q: "q < 10 ^ w" "0 < w"
  shows "length (tenths i unit) \<le> w + 2"
proof -
  define n where "n = div_even (to_double i * 10) unit"
  have "to_double i \<le> q * unit" using i u by (intro to_double_le) auto
  then have "n \<le> q * 10" unfolding n_def using u by (intro div_even_le) auto
  moreover have "0 \<le> n" unfolding n_def using i u by (intro div_even_nonneg) (auto simp: to_double_nonneg)
  ultimately have "nat (n div 10) < 10 ^ w" using q by (simp add: nat_less_iff)
  then have "length (dec (nat (n div 10))) \<le> w" using q by (subst length_dec_le) auto
  moreover have "length (dec (nat (n mod 10))) = 1" by (subst dec.simps) simp
  ultimately show ?thesis using i by (simp add: tenths_def flip: n_def)
qed

lemma length_decz_nonneg: "0 \<le> i \<Longrightarrow> i < 10 ^ k \<Longrightarrow> 0 < k \<Longrightarrow> length (decz i) \<le> k"
  by (simp add: decz_nonneg length_dec_le nat_less_iff)

lemma units_int: "sint ONEKBYTE = 2 ^ 10" "sint ONEMBYTE = 2 ^ 20" "sint ONEGBYTE = 2 ^ 30"
  "sint ONETBYTE = 2 ^ 40" "sint ONEPBYTE = 2 ^ 50"
  by (simp_all add: memory_units)

lemma cdiv_nonneg:
  fixes a b :: i64
  assumes "0 \<le> sint a" and "0 < sint b"
  shows "sint (cdiv a b) = sint a div sint b"
proof -
  have "sint a div sint b \<le> sint a" using zdiv_mono2 [of "sint a" 1 "sint b"] assms by simp
  moreover have "0 \<le> sint a div sint b" using assms by (simp add: pos_imp_zdiv_nonneg_iff)
  moreover have "sint a sdiv sint b = sint a div sint b"
    using assms by (cases "sint a = 0") (simp_all add: signed_divide_int_def)
  ultimately show ?thesis
    using sint_range_64 [of a] by (simp add: cdiv_def signed_of_int signed_take_bit_int_eq_self)
qed

text \<open>How long a field gets when the value stays below \<open>q\<close> units, with \<open>q\<close> of at most \<open>w\<close> digits.\<close>

lemma length_memfield:
  assumes v: "0 \<le> sint value" and q: "q < 10 ^ w" "0 < w" and b: "b \<le> w + 3" "4 \<le> b" "3 \<le> w + length suffix"
    and any: "f = ANYFORMAT \<Longrightarrow> sint value < 10 ^ (w + 3)"
    and kb: "f = KBFORMAT \<Longrightarrow> sint value < 2 ^ 10 * 10 ^ (w + 2)"
    and mb: "f = MBFORMAT \<Longrightarrow> sint value \<le> q * 2 ^ 20" and gb: "f = GBFORMAT \<Longrightarrow> sint value \<le> q * 2 ^ 30"
    and tb: "f = TBFORMAT \<Longrightarrow> sint value \<le> q * 2 ^ 40" and pb: "f = PBFORMAT \<Longrightarrow> sint value \<le> q * 2 ^ 50"
  shows "length (memfield value f b suffix) \<le> w + 3 + length suffix"
proof -
  have v63: "sint value < 2 ^ 63" by (rule sint_range_64)
  have t: "length (tenths (sint value) (2 ^ k)) \<le> w + 2" if "sint value \<le> q * 2 ^ k" "10 \<le> k" for k
    using length_tenths [OF v v63 that(1) _ le_imp_power_dvd [OF that(2)] q] by simp
  have "length (decz (sint (cdiv value ONEKBYTE))) \<le> w + 2" if "f = KBFORMAT"
    using kb [OF that] v by (intro length_decz_nonneg) (auto simp: cdiv_nonneg units_int pos_imp_zdiv_nonneg_iff div_less_iff_less_mult mult.commute)
  moreover have "length (decz (sint value)) \<le> w + 3" if "f = ANYFORMAT"
    using any [OF that] v by (intro length_decz_nonneg) auto
  moreover have "b - 1 \<le> w + 2" using b by simp
  ultimately show ?thesis
    using b t [OF mb] t [OF gb] t [OF tb] t [OF pb] by (simp add: memfield_def units_int)
qed

lemma length_memfield_ge: "b + length suffix \<le> 6 \<Longrightarrow> 1 \<le> b \<Longrightarrow> b + length suffix \<le> length (memfield value f b suffix)"
  by (auto simp: memfield_def rjust_def)

lemma advised_le:
  "advised v \<le>s ANYFORMAT \<Longrightarrow> sint v \<le> 1024" "advised v \<le>s KBFORMAT \<Longrightarrow> sint v \<le> 1024 * 99999"
  "advised v \<le>s MBFORMAT \<Longrightarrow> sint v \<le> 999 * 2 ^ 20" "advised v \<le>s GBFORMAT \<Longrightarrow> sint v \<le> 999 * 2 ^ 30"
  "advised v \<le>s TBFORMAT \<Longrightarrow> sint v \<le> 999 * 2 ^ 40"
  by (auto simp: advised_def formats memory_units word_sle_eq split: if_splits)

definition memformats :: "i32 set" where
  "memformats = {ANYFORMAT, KBFORMAT, MBFORMAT, GBFORMAT, TBFORMAT, PBFORMAT}"

text \<open>The format that is used is not smaller than the advised one.\<close>

lemma chosen_format:
  assumes "p \<in> memformats"
  shows "advised v \<le>s (if advised v \<le>s p then scast (ucast p :: byte) else advised v)"
proof -
  have "scast (ucast p :: byte) = p" using assms by (auto simp: memformats_def formats)
  then show ?thesis by (simp add: word_sle_eq)
qed

lemma val2memstr_total:
  assumes "0 \<le>s value" and "sint value \<le> 999 * 2 ^ 50" and "pformat \<in> memformats"
  shows "length (val2memstr value pformat False nsecs) = 6"
proof -
  define f where "f = (if advised value \<le>s pformat then scast (ucast pformat :: byte) else advised value)"
  have f: "advised value \<le>s f" unfolding f_def by (rule chosen_format [OF assms(3)])
  have "length (memfield value f 6 []) \<le> 3 + 3 + length ([] :: string)"
    using assms(1,2) f advised_le [of "value"]
    by (intro length_memfield [where q = 999]) (auto simp: word_sle_eq [of 0])
  moreover have "6 \<le> length (memfield value f 6 [])" using length_memfield_ge [of 6 "[]"] by simp
  moreover have "val2memstr value pformat False nsecs = memfield value f 6 []"
    using assms(1) by (simp add: val2memstr_def f_def word_sless_alt word_sle_eq)
  ultimately show ?thesis by simp
qed

lemma div_times_less_eq: "0 < n \<Longrightarrow> i div n * n \<le> (i::int)"
  using div_mult_mod_eq [of i n] pos_mod_sign [of n i] by linarith

lemma val2memstr_average:
  assumes "0 \<le> sint value" and "sint value * 100 \<le> 999 * 2 ^ 50 * sint nsecs" and "sint value * 100 < 2 ^ 63"
    and "0 < sint nsecs" and "pformat \<in> memformats"
  shows "length (val2memstr value pformat True nsecs) \<in> {6, 7}"
proof -
  define v where "v = cdiv value (scast nsecs)"
  define vv where "vv = cdiv (value * 100) (scast nsecs)"
  define f where "f = (if advised vv \<le>s pformat then scast (ucast pformat :: byte) else advised vv)"
  have n: "sint (scast nsecs :: i64) = sint nsecs" using sint_range_size [of nsecs] by (simp add: word_size signed_scast_eq signed_take_bit_int_eq_self)
  have m: "sint (value * 100) = sint value * 100"
    using assms by (simp add: sint_word_mult signed_take_bit_int_eq_self)
  have v: "sint v = sint value div sint nsecs" and vv: "sint vv = sint value * 100 div sint nsecs"
    using assms by (simp_all add: v_def vv_def cdiv_nonneg n m)
  have le: "sint v * 100 \<le> sint vv" unfolding v vv
    using assms(4) div_times_less_eq [OF assms(4), of "sint value"]
      zdiv_mono1 [of "sint value div sint nsecs * 100 * sint nsecs" "sint value * 100" "sint nsecs"] by simp
  have f: "advised vv \<le>s f" unfolding f_def by (rule chosen_format [OF assms(5)])
  have pb: "sint vv \<le> 999 * 2 ^ 50" using zdiv_mono1 [OF assms(2,4)] assms(4) by (simp add: vv)
  have "length (memfield v f 4 ''/s'') \<le> 2 + 3 + length ''/s''"
    using assms f advised_le [of vv] le pb
    by (intro length_memfield [where q = 10]) (force simp: v pos_imp_zdiv_nonneg_iff)+
  moreover have "6 \<le> length (memfield v f 4 ''/s'')" using length_memfield_ge [of 4 "''/s''"] by simp
  moreover have "val2memstr value pformat True nsecs = memfield v f 4 ''/s''"
    using assms by (auto simp: val2memstr_def f_def v_def vv_def word_sless_alt)
  ultimately show ?thesis by auto
qed

section \<open>Durations\<close>

text \<open>Reading a duration back: digits build up a number, a letter says what it counts.\<close>

definition elap_step :: "nat \<times> nat \<Rightarrow> char \<Rightarrow> nat \<times> nat" where
  "elap_step = (\<lambda>(acc, n) c.
     case digit_of c of
       Some d \<Rightarrow> if d < 10 then (acc, n * 10 + d)
                 else if c = CHR ''d'' then (acc + n * 86400, 0)
                 else if c = CHR ''h'' then (acc + n * 3600, 0)
                 else if c = CHR ''m'' then (acc + n * 60, 0)
                 else (acc + n, 0)
     | None \<Rightarrow> (acc, n))"

definition read_elap :: "string \<Rightarrow> nat" where
  "read_elap s = fst (foldl elap_step (0, 0) s)"

lemma elap_step_digit: "d < 10 \<Longrightarrow> elap_step (acc, n) (char_of (48 + d)) = (acc, n * 10 + d)"
  by (simp add: elap_step_def digit_of_dec)

lemma elap_step_units [simp]:
  "elap_step (acc, n) CHR ''d'' = (acc + n * 86400, 0)" "elap_step (acc, n) CHR ''h'' = (acc + n * 3600, 0)"
  "elap_step (acc, n) CHR ''m'' = (acc + n * 60, 0)" "elap_step (acc, n) CHR ''s'' = (acc + n, 0)"
  by (simp_all add: elap_step_def digit_of_def)

lemma foldl_dec [simp]: "foldl elap_step (acc, 0) (dec n) = (acc, n)"
proof (induction n rule: dec.induct)
  case (1 n)
  then show ?case by (subst dec.simps) (auto simp: elap_step_digit)
qed

lemma smod_sdiv_nonneg:
  "0 \<le> i \<Longrightarrow> 0 < j \<Longrightarrow> i sdiv j = i div (j::int)" "0 \<le> i \<Longrightarrow> 0 < j \<Longrightarrow> i smod j = i mod (j::int)"
  by (cases "i = 0"; simp add: signed_divide_int_def signed_modulo_int_def)+

lemma val2elapstr_dec:
  assumes "0 \<le> sint value"
  shows "val2elapstr value = (let v = nat (sint value) in
     (if 86400 \<le> v then dec (v div 86400) @ ''d'' else []) @
     (if 3600 \<le> v then dec (v mod 86400 div 3600) @ ''h'' else []) @
     (if 60 \<le> v then dec (v mod 3600 div 60) @ ''m'' else []) @
     dec (v mod 60) @ ''s'')"
proof -
  obtain n where "sint value = int n" using assms by (metis nonneg_int_cases)
  then show ?thesis
    by (simp add: val2elapstr_def smod_sdiv_nonneg decz_nonneg nat_div_distrib nat_mod_distrib)
qed

lemma read_val2elapstr:
  assumes "0 \<le> sint value"
  shows "int (read_elap (val2elapstr value)) = sint value"
proof -
  define v where "v = nat (sint value)"
  have *: "v div 86400 * 86400 + v mod 86400 = v" "v mod 86400 div 3600 * 3600 + v mod 3600 = v mod 86400"
    "v mod 3600 div 60 * 60 + v mod 60 = v mod 3600"
    using div_mult_mod_eq [of v 86400] div_mult_mod_eq [of "v mod 86400" 3600] div_mult_mod_eq [of "v mod 3600" 60]
    by (simp_all add: mod_mod_cancel)
  have sum: "v div 86400 * 86400 + v mod 86400 div 3600 * 3600 + v mod 3600 div 60 * 60 + v mod 60 = v"
    using * by linarith
  have sum': "v div 3600 * 3600 + v mod 3600 div 60 * 60 + v mod 60 = v"
    using *(3) div_mult_mod_eq [of v 3600] by linarith
  have "read_elap (val2elapstr value) = v"
    unfolding val2elapstr_dec [OF assms] read_elap_def v_def [symmetric] Let_def
    using sum sum' div_mult_mod_eq [of v 60] by auto
  then show ?thesis using assms by (simp add: v_def)
qed

lemma length_val2elapstr:
  assumes "0 \<le> sint value"
  shows "length (val2elapstr value) \<le> 15"
proof -
  define v where "v = nat (sint value)"
  have v: "v < 2 ^ 31" using assms sint_range_size [of "value"] by (simp add: v_def word_size nat_less_iff)
  have l: "length (dec n) \<le> 2" if "n < 100" for n using that by (subst length_dec_le) auto
  have "length (dec (v div 86400)) \<le> 5" using v by (subst length_dec_le) auto
  moreover have "length (dec (v mod 86400 div 3600)) \<le> 2" "length (dec (v mod 3600 div 60)) \<le> 2"
    "length (dec (v mod 60)) \<le> 2"
    by (rule l, simp add: div_less_iff_less_mult less_le_trans [OF mod_less_divisor])+
  ultimately show ?thesis unfolding val2elapstr_dec [OF assms] v_def [symmetric] Let_def by auto
qed


section \<open>Times of day\<close>

lemma colon_no_digit [simp]: "\<not> is_digit_in 10 CHR '':''"
  by (simp add: is_digit_in_def digit_of_def)

abbreviation digits_value :: "string \<Rightarrow> nat" where
  "digits_value s \<equiv> fst (scan_digits 10 0 s)"

lemma scan_digits_all: "\<forall>c\<in>set xs. is_digit_in base c \<Longrightarrow> scan_digits base v xs = (fst (scan_digits base v xs), [])"
  by (induction xs arbitrary: v) auto

lemma store_int_small: "n < 2 ^ 31 \<Longrightarrow> store_int n = of_nat n"
  by (simp add: store_int_def unsigned_of_nat take_bit_nat_eq_self)

lemma scan_hhmm_digits:
  assumes a: "\<forall>c\<in>set a. isdigit c" "a \<noteq> []" and b: "\<forall>c\<in>set b. isdigit c" "b \<noteq> []"
  shows "scan_hhmm (a @ CHR '':'' # b) hm = (store_int (digits_value a), store_int (digits_value b))"
proof -
  have "scan_digits 10 0 (a @ CHR '':'' # b) = (digits_value a, CHR '':'' # b)"
    using a by (subst scan_digits_append) (auto simp: isdigit_iff)
  then show ?thesis using a b by (cases a; cases b; cases hm) (simp_all add: scan_hhmm_def)
qed

lemma hhmm2secs_digits:
  assumes a: "\<forall>c\<in>set a. isdigit c" "a \<noteq> []" "digits_value a < 2 ^ 31"
    and b: "\<forall>c\<in>set b. isdigit c" "b \<noteq> []" "digits_value b < 2 ^ 31"
  shows "hhmm2secs hm (a @ CHR '':'' # b) otim =
    (if digits_value a < 24 \<and> digits_value b < 60
     then (True, of_nat (digits_value a * 3600 + digits_value b * 60)) else (False, otim))"
proof -
  define h m where "h = digits_value a" and "m = digits_value b"
  have hm: "h < 2 ^ 31" "m < 2 ^ 31" using a b by (simp_all add: h_def m_def)
  then have s: "sint (of_nat h :: i32) = int h" "sint (of_nat m :: i32) = int m"
    by (simp_all add: signed_of_nat signed_take_bit_int_eq_self)
  have "(of_nat h * 3600 + of_nat m * 60 :: u32) = of_nat (h * 3600 + m * 60)" by simp
  moreover have "\<not> SECSDAY \<le> of_nat (h * 3600 + m * 60)" if "h < 24" "m < 60"
    using that by (simp only: word_le_nat_alt SECSDAY_def unat_of_nat) simp
  moreover have "\<not> (\<exists>c\<in>set (a @ CHR '':'' # b). \<not> isdigit c \<and> c \<noteq> CHR '':'')" using a b by auto
  ultimately show ?thesis
    unfolding hhmm2secs_def scan_hhmm_digits [OF a(1,2) b(1,2)] h_def [symmetric] m_def [symmetric]
    using hm s by (simp add: store_int_small word_sless_alt Let_def)
qed

lemma length_two_fields:
  assumes "0 \<le> q" and "0 \<le> r" and "r < 100"
  shows "length (rjust 2 (decz q) @ [x] @ decz0 2 r @ [y]) = 6 \<longleftrightarrow> q < 100"
proof -
  have "length (dec (nat r)) \<le> 2" using assms by (subst length_dec_le) auto
  moreover have "length (dec (nat q)) \<le> 2 \<longleftrightarrow> q < 100" using assms by (subst length_dec_le) auto
  ultimately show ?thesis using assms by (auto simp: decz_nonneg length_decz0 max_def)
qed

lemma length_unit_fields:
  assumes "0 \<le> n" and "0 < u" and "u \<le> 100"
  shows "length (rjust 2 (decz (n sdiv u)) @ [x] @ decz0 2 (n smod u) @ [y]) = 6 \<longleftrightarrow> n < 100 * u"
proof -
  have "100 * u \<le> n" if "100 \<le> n div u"
    using that div_times_less_eq [OF assms(2), of n] mult_right_mono [OF that, of u] assms by linarith
  moreover have "n < 100 * u" if "n div u < 100"
  proof -
    have "n div u * u \<le> 99 * u" using that assms by (intro mult_right_mono) auto
    then show ?thesis using div_mult_mod_eq [of n u] pos_mod_bound [OF assms(2), of n] by linarith
  qed
  ultimately have "n div u < 100 \<longleftrightarrow> n < 100 * u" by linarith
  moreover have "n mod u < 100" using pos_mod_bound [OF assms(2), of n] assms(3) by linarith
  moreover have "0 \<le> n div u" "0 \<le> n mod u" using assms by (simp_all add: pos_imp_zdiv_nonneg_iff)
  ultimately show ?thesis using length_two_fields assms by (simp only: smod_sdiv_nonneg)
qed

lemma rounded_div:
  fixes w k d :: i64
  assumes "0 \<le> sint w" "sint w < 2 ^ 62" "0 \<le> sint k" "sint k < 2 ^ 62" "0 < sint d"
  shows "sint (cdiv (w + k) d) = (sint w + sint k) div sint d"
  using assms by (simp add: sint_add_64 cdiv_nonneg)

lemma length_val2cpustr:
  assumes "0 \<le> sint value" and "sint value < 2 ^ 62"
  shows "length (val2cpustr value) = 6 \<longleftrightarrow> sint value < 8638169500"
proof -
  define v where "v = sint value"
  define s where "s = cdiv (value + 500) 1000"
  define m where "m = cdiv (s + 30) 60"
  define h where "h = cdiv (m + 30) 60"
  have v: "0 \<le> v" "v < 2 ^ 62" using assms by (simp_all add: v_def)
  have s: "sint s = (v + 500) div 1000" using rounded_div [OF assms, of 500 1000] by (simp add: s_def v_def)
  then have s': "0 \<le> sint s" "sint s < 2 ^ 62" using v by (simp_all add: pos_imp_zdiv_nonneg_iff div_less_iff_less_mult)
  have m: "sint m = (sint s + 30) div 60" using rounded_div [OF s', of 30 60] by (simp add: m_def)
  then have m': "0 \<le> sint m" "sint m < 2 ^ 62" using s' by (simp_all add: pos_imp_zdiv_nonneg_iff div_less_iff_less_mult)
  have h: "sint h = (sint m + 30) div 60" using rounded_div [OF m', of 30 60] by (simp add: h_def)
  then have h': "0 \<le> sint h" using m' by (simp add: pos_imp_zdiv_nonneg_iff)
  have fits: "sint h < 2400 \<longleftrightarrow> v < 8638169500" "sint m < 6000 \<Longrightarrow> sint h < 2400" "sint s < 6000 \<Longrightarrow> sint m < 6000"
    "v < 100000 \<Longrightarrow> sint s < 6000"
    unfolding h m s by linarith+
  have "length (rjust 2 (decz (v sdiv 1000)) @ '':'' @ decz0 2 (v smod 1000 sdiv 10) @ ''s'') = 6" if "v < 100000"
    using that v length_two_fields [of "v div 1000" "v mod 1000 div 10"]
    by (simp add: smod_sdiv_nonneg pos_imp_zdiv_nonneg_iff)
  then show ?thesis
    using length_unit_fields [OF s'(1), of 60] length_unit_fields [OF m'(1), of 60] length_unit_fields [OF h', of 24] fits
    by (simp add: val2cpustr_def s_def [symmetric] m_def [symmetric] h_def [symmetric] Let_def word_sless_alt
      v_def [symmetric])
qed

section \<open>What the conversions promise\<close>

lemma val2valstr_average:
  "nsecs \<noteq> 0 \<Longrightarrow> val2valstr value width True nsecs =
     map_option (\<lambda>s. s @ ''/s'')
       (val2valstr (cdiv (value + scast (cdiv nsecs 2)) (scast nsecs)) (width - 2) False nsecs)"
  by (simp add: val2valstr_def Let_def split: prod.splits option.splits Option.bind_splits)

text \<open>
  C39: \<open>val2valstr\<close> ends for every value that is not negative and every width from 3 to 15.  A value below
  \<open>10 ^ width - 1\<close> is printed exactly, right-justified; a larger one as \<open>m\<close>\<^verbatim>\<open>e\<close>\<open>k\<close>, where
  \<open>k\<close> is the least exponent with which the truncated mantissa has \<open>width - 2\<close> digits and \<open>m\<close> is the value divided by
  \<open>10 ^ k\<close>, rounded half upwards.  The text takes at most two characters more than \<open>width\<close>.
\<close>

theorem val2valstr_display:
  assumes "0 \<le>s value" and "3 \<le> width" and "width \<le> 15"
  shows "\<exists>s. val2valstr value (int width) False nsecs = Some s \<and> length s \<le> width + 2 \<and>
    (if unat value < 10 ^ width - 1 then s = rjust width (dec (unat value))
     else \<exists>k m. s = rjust (width - 2) (dec m) @ ''e'' @ dec k \<and>
       m = (unat value + 5 * 10 ^ (k - 1)) div 10 ^ k \<and> 0 < k \<and> k \<le> 18 \<and>
       (\<forall>j. unat value div 10 ^ j < 10 ^ (width - 2) \<longleftrightarrow> k \<le> j))"
proof -
  obtain s where "val2valstr value (int width) False nsecs = Some s" "length s \<le> width + 2"
    using length_val2valstr [OF assms] by blast
  then show ?thesis
    using val2valstr_fits [OF assms(1,3)] val2valstr_long [OF assms, of nsecs] by (auto simp: not_less)
qed

theorem val2valstr_display_witness:
  "\<exists>s. val2valstr 99999 (int 5) False 0 = Some s \<and> length s \<le> 7 \<and>
    (\<exists>k m. s = rjust 3 (dec m) @ ''e'' @ dec k \<and> m = (99999 + 5 * 10 ^ (k - 1)) div 10 ^ k \<and> 0 < k)"
  using val2valstr_display [of 99999 5 0] by (simp add: word_sle_eq) blast

text \<open>
  The rounding can carry into one more digit than was reserved for the mantissa: 99999 in five positions becomes the six
  characters \<^verbatim>\<open>1000e2\<close>, which with the terminating zero do not fit into the \<open>width + 1\<close> bytes the comment asks for.
\<close>

lemma val2valstr_carry: "val2valstr 99999 5 False 0 = Some ''1000e2''"
  by (simp add: val2valstr_def maxval_def shrink.simps field_def rjust_def dec.simps word_sless_alt) code_simp

text \<open>
  \<open>val2memstr\<close> writes exactly six characters for every size up to 999 PiB, whatever format is preferred.  Per
  second, the text takes six or seven characters as long as the size times 100 does not overflow.
\<close>

theorem val2memstr_width:
  assumes "0 \<le> sint value" and "pformat \<in> memformats"
  shows "(sint value \<le> 999 * 2 ^ 50 \<longrightarrow> length (val2memstr value pformat False nsecs) = 6) \<and>
    (0 < sint nsecs \<and> sint value * 100 < 2 ^ 63 \<and> sint value * 100 \<le> 999 * 2 ^ 50 * sint nsecs \<longrightarrow>
       length (val2memstr value pformat True nsecs) \<in> {6, 7})"
  using val2memstr_total [of "value" pformat nsecs] val2memstr_average [of "value" nsecs pformat] assms
  by (simp add: word_sle_eq)

theorem val2memstr_width_witness:
  "length (val2memstr 1048575000 MBFORMAT False 10) = 6 \<and> length (val2memstr 104333333 MBFORMAT True 10) \<in> {6, 7}"
  using val2memstr_width [of 1048575000 MBFORMAT 10] val2memstr_width [of 104333333 MBFORMAT 10]
  by (simp add: memformats_def)

text \<open>Just below the limit of the megabyte format the average is rounded up to a seventh character.\<close>

lemma val2memstr_seven: "val2memstr 104333333 ANYFORMAT True 10 = ''10.0M/s''"
  by code_simp

text \<open>
  The text of \<open>val2elapstr\<close> can be read back: the numbers of days, hours, minutes and seconds, each taken with the
  length of its unit, add up to the value.  The text takes at most 15 characters.
\<close>

theorem val2elapstr_roundtrip:
  assumes "0 \<le> sint value"
  shows "int (read_elap (val2elapstr value)) = sint value \<and> length (val2elapstr value) \<le> 15"
  using read_val2elapstr [OF assms] length_val2elapstr [OF assms] by simp

theorem val2elapstr_roundtrip_witness:
  "int (read_elap (val2elapstr 2147471999)) = 2147471999 \<and> length (val2elapstr 2147471999) \<le> 15"
  using val2elapstr_roundtrip [of 2147471999] by simp

text \<open>The bound is reached, two characters beyond the 13 positions the comment states.\<close>

lemma val2elapstr_long: "val2elapstr 2147471999 = ''24854d23h59m59s''"
  by (simp add: val2elapstr_def smod_sdiv_nonneg decz_nonneg dec.simps) code_simp

text \<open>
  \<open>val2cpustr\<close> keeps to its six positions exactly for the times below 8638169500 milliseconds, a hundred days
  less the half hour by which the hours are rounded.
\<close>

theorem val2cpustr_width:
  assumes "0 \<le> sint value" and "sint value < 2 ^ 62"
  shows "length (val2cpustr value) = 6 \<longleftrightarrow> sint value < 8638169500"
  using assms by (rule length_val2cpustr)

theorem val2cpustr_width_witness: "length (val2cpustr 8638169499) = 6 \<and> length (val2cpustr 8638169500) \<noteq> 6"
  using val2cpustr_width [of 8638169499] val2cpustr_width [of 8638169500] by simp

text \<open>
  \<open>hhmm2secs\<close> on two numbers separated by a colon accepts exactly the hours below 24 and the minutes below 60
  and gives the seconds since midnight; everything else is refused and the result variable is kept.
\<close>

theorem hhmm2secs_valid:
  assumes "\<forall>c\<in>set a. isdigit c" and "a \<noteq> []" and "digits_value a < 2 ^ 31"
    and "\<forall>c\<in>set b. isdigit c" and "b \<noteq> []" and "digits_value b < 2 ^ 31"
  shows "hhmm2secs hm (a @ CHR '':'' # b) otim =
    (if digits_value a < 24 \<and> digits_value b < 60
     then (True, of_nat (digits_value a * 3600 + digits_value b * 60)) else (False, otim))"
  using assms by (rule hhmm2secs_digits)

theorem hhmm2secs_valid_witness: "hhmm2secs (7, 7) ''23:59'' 1 = (True, 86340) \<and> hhmm2secs (7, 7) ''24:00'' 1 = (False, 1)"
  using hhmm2secs_valid [of "''23''" "''59''" "(7, 7)" 1] hhmm2secs_valid [of "''24''" "''00''" "(7, 7)" 1]
  by (simp add: isdigit_def is_digit_in_def digit_of_def)

text \<open>Without a colon the minutes are what the stack holds.\<close>

lemma hhmm2secs_uninitialised: "hhmm2secs (0, 5) ''12'' 1 \<noteq> hhmm2secs (0, 6) ''12'' 1"
  by (simp add: hhmm2secs_def scan_hhmm_def isdigit_def is_digit_in_def digit_of_def store_int_def SECSDAY_def word_sless_alt)

lemma convtime_length:
  assumes "0 \<le> tm_hour (localtime t)" "tm_hour (localtime t) < 100" "0 \<le> tm_min (localtime t)" "tm_min (localtime t) < 100"
    "0 \<le> tm_sec (localtime t)" "tm_sec (localtime t) < 100"
  shows "length (convtime localtime t) = 8"
proof -
  have "length (decz0 2 i) = 2" if "0 \<le> i" "i < 100" for i
    using that length_dec_le [of 2 "nat i"] by (auto simp: length_decz0 max_def)
  then show ?thesis using assms by (simp add: convtime_def Let_def)
qed

lemma numeric_iff: "numeric s \<longleftrightarrow> (\<forall>c\<in>set s. isdigit c)"
  by (induction s) (auto simp: isdigit_def)

end
