(* ===== verification/Task_Order.thy ===== *)
theory Task_Order
  imports Task_Types Sysstat "HOL-Library.Product_Lexorder" "HOL-Library.List_Lexorder" "HOL-Library.Multiset"
begin

text \<open>
  The comparison functions of \<^verbatim>\<open>src/Qt/FakeAtop/showlinux.c\<close>, the sorting of the resource tables in
  \<^verbatim>\<open>showgeneric.c\<close>, and \<open>totalcap\<close>.

  \<open>qsort\<close> is a parameter.  Its contract is that it permutes the elements into an order without inversions; which of two elements that compare equal comes first
  is not specified.  Every comparison function is shown to compare a key in a linear order, which is what \<open>qsort\<close>
  asks of it, so that the sorted keys are determined.
\<close>

section \<open>The comparison functions\<close>

text \<open>The three tests at the end of most of them; \<open>other\<close> decides between equal values.\<close>

definition descending :: "count_t \<Rightarrow> count_t \<Rightarrow> int \<Rightarrow> int" where
  "descending a b other = (if a <s b then 1 else if b <s a then -1 else other)"

definition ascending :: "'a::len word \<Rightarrow> 'a word \<Rightarrow> int \<Rightarrow> int" where
  "ascending a b other = (if a <s b then -1 else if b <s a then 1 else other)"

definition compmem :: "tstat \<Rightarrow> tstat \<Rightarrow> int" where
  "compmem a b = descending (mem_rmem (t_mem a)) (mem_rmem (t_mem b)) 0"

definition compcpu :: "tstat \<Rightarrow> tstat \<Rightarrow> int" where
  "compcpu a b =
     (let acpu = cpu_stime (t_cpu a) + cpu_utime (t_cpu a);
          bcpu = cpu_stime (t_cpu b) + cpu_utime (t_cpu b)
      in descending acpu bcpu (compmem a b))"

definition dsk_usage :: "tstat \<Rightarrow> count_t" where
  "dsk_usage ta =
     (if dsk_cwsz (t_dsk ta) <s dsk_wsz (t_dsk ta)
      then dsk_rio (t_dsk ta) + dsk_wsz (t_dsk ta) - dsk_cwsz (t_dsk ta)
      else dsk_rio (t_dsk ta))"

definition compdsk :: "tstat \<Rightarrow> tstat \<Rightarrow> int" where
  "compdsk a b = (let adsk = dsk_usage a; bdsk = dsk_usage b in descending adsk bdsk (compcpu a b))"

definition compnet :: "tstat \<Rightarrow> tstat \<Rightarrow> int" where
  "compnet a b =
     (let anet = net_tcpssz (t_net a) + net_tcprsz (t_net a) + net_udpssz (t_net a) + net_udprsz (t_net a);
          bnet = net_tcpssz (t_net b) + net_tcprsz (t_net b) + net_udpssz (t_net b) + net_udprsz (t_net b)
      in descending anet bnet (compcpu a b))"

definition compusr :: "tstat \<Rightarrow> tstat \<Rightarrow> int" where
  "compusr a b = (let uida = gen_ruid (t_gen a); uidb = gen_ruid (t_gen b) in ascending uida uidb 0)"

text \<open>\<open>strcmp\<close> compares the bytes as unsigned characters.\<close>

fun strcmp :: "string \<Rightarrow> string \<Rightarrow> int" where
  "strcmp [] [] = 0"
| "strcmp [] (d # ds) = - 1"
| "strcmp (c # cs) [] = 1"
| "strcmp (c # cs) (d # ds) = (if c = d then strcmp cs ds else of_char c - of_char d)"

definition compnam :: "tstat \<Rightarrow> tstat \<Rightarrow> int" where
  "compnam a b = strcmp (cstr (gen_name (t_gen a))) (cstr (gen_name (t_gen b)))"

definition compcon :: "tstat \<Rightarrow> tstat \<Rightarrow> int" where
  "compcon a b = strcmp (cstr (gen_container (t_gen a))) (cstr (gen_container (t_gen b)))"

definition cpucompar :: "percpu \<Rightarrow> percpu \<Rightarrow> int" where
  "cpucompar a b =
     (let aidle = pcp_itime a + pcp_wtime a; bidle = pcp_itime b + pcp_wtime b in ascending aidle bidle 0)"

definition diskcompar :: "perdsk \<Rightarrow> perdsk \<Rightarrow> int" where
  "diskcompar a b = descending (pdk_io_ms a) (pdk_io_ms b) 0"

text \<open>The busy factor of an interface, 0 while its speed is not known.\<close>

definition busy_factor :: "perintf \<Rightarrow> count_t" where
  "busy_factor a =
     (if truth (pif_speed a)
      then if truth (pif_duplex a)
           then cdiv ((if pif_sbyte a <s pif_rbyte a then pif_rbyte a else pif_sbyte a) * 10) (pif_speed a)
           else cdiv ((pif_rbyte a + pif_sbyte a) * 10) (pif_speed a)
      else 0)"

definition intfcompar :: "perintf \<Rightarrow> perintf \<Rightarrow> int" where
  "intfcompar a b =
     (let afactor = busy_factor a; bfactor = busy_factor b in
      if truth (pif_speed a) \<and> truth (pif_speed b) then descending afactor bfactor 0
      else if \<not> truth (pif_speed a) \<and> \<not> truth (pif_speed b)
      then descending (pif_rbyte a + pif_sbyte a) (pif_rbyte b + pif_sbyte b) 0
      else if truth (pif_speed a) then -1
      else 1)"

definition nfsm_used :: "pernfsmount \<Rightarrow> count_t" where
  "nfsm_used n = nmt_bytesread n + nmt_byteswrite n + nmt_bytesdread n + nmt_bytesdwrite n +
     nmt_bytestotread n + nmt_bytestotwrite n + nmt_pagesmread n + nmt_pagesmwrite n"

definition nfsmcompar :: "pernfsmount \<Rightarrow> pernfsmount \<Rightarrow> int" where
  "nfsmcompar na nb = (let aused = nfsm_used na; bused = nfsm_used nb in descending aused bused 0)"

definition contcompar :: "percontainer \<Rightarrow> percontainer \<Rightarrow> int" where
  "contcompar ca cb =
     (let aused = ctr_system ca + ctr_user ca + ctr_nice ca;
          bused = ctr_system cb + ctr_user cb + ctr_nice cb
      in descending aused bused 0)"

section \<open>Sorting the resources\<close>

text \<open>\<open>qsort\<close> on the first \<open>n\<close> elements of an array; reading beyond the array is undefined.\<close>

definition qsort_prefix :: "('a list \<Rightarrow> 'a list) \<Rightarrow> nat \<Rightarrow> 'a list \<Rightarrow> 'a list option" where
  "qsort_prefix qs n a = (if n \<le> length a then Some (qs (take n a) @ drop n a) else None)"

text \<open>One library for the instances of \<open>qsort\<close> at the element types.\<close>

record sorters =
  q_task :: "(tstat \<Rightarrow> tstat \<Rightarrow> int) \<Rightarrow> tstat list \<Rightarrow> tstat list"
  q_cpu :: "(percpu \<Rightarrow> percpu \<Rightarrow> int) \<Rightarrow> percpu list \<Rightarrow> percpu list"
  q_dsk :: "(perdsk \<Rightarrow> perdsk \<Rightarrow> int) \<Rightarrow> perdsk list \<Rightarrow> perdsk list"
  q_intf :: "(perintf \<Rightarrow> perintf \<Rightarrow> int) \<Rightarrow> perintf list \<Rightarrow> perintf list"
  q_nfs :: "(pernfsmount \<Rightarrow> pernfsmount \<Rightarrow> int) \<Rightarrow> pernfsmount list \<Rightarrow> pernfsmount list"
  q_cont :: "(percontainer \<Rightarrow> percontainer \<Rightarrow> int) \<Rightarrow> percontainer list \<Rightarrow> percontainer list"

text \<open>The line limits of the display.\<close>

record maxlines =
  maxcpulines :: i32
  maxdsklines :: i32
  maxmddlines :: i32
  maxlvmlines :: i32
  maxintlines :: i32
  maxnfslines :: i32
  maxcontlines :: i32

text \<open>A table is sorted when it has more than one element and lines are wanted for it.\<close>

definition qsort_table :: "('a list \<Rightarrow> 'a list) \<Rightarrow> 'w::len word \<Rightarrow> i32 \<Rightarrow> 'a list \<Rightarrow> 'a list option" where
  "qsort_table qs n lines a = (if 1 <s n \<and> 0 <s lines then qsort_prefix qs (unat n) a else Some a)"

text \<open>The part of \<open>generic_samp\<close> that sorts the resources before they are shown.\<close>

definition sort_resources :: "sorters \<Rightarrow> bool \<Rightarrow> maxlines \<Rightarrow> sstat \<Rightarrow> sstat option" where
  "sort_resources qs sysnosort mx s =
     (if sysnosort then Some s
      else do {
        let (c, d, i, n, k) = (ss_cpu s, ss_dsk s, ss_intf s, nfs_nfsmounts (ss_nfs s), ss_cfs s);
        cpu \<leftarrow> qsort_table (q_cpu qs cpucompar) (cst_nrcpu c) (maxcpulines mx) (cst_cpu c);
        lvm \<leftarrow> qsort_table (q_dsk qs diskcompar) (dks_nlvm d) (maxlvmlines mx) (dks_lvm d);
        mdd \<leftarrow> qsort_table (q_dsk qs diskcompar) (dks_nmdd d) (maxmddlines mx) (dks_mdd d);
        dsk \<leftarrow> qsort_table (q_dsk qs diskcompar) (dks_ndsk d) (maxdsklines mx) (dks_dsk d);
        intf \<leftarrow> qsort_table (q_intf qs intfcompar) (ifs_nrintf i) (maxintlines mx) (ifs_intf i);
        nfsmnt \<leftarrow> qsort_table (q_nfs qs nfsmcompar) (nmts_nrmounts n) (maxnfslines mx) (nmts_nfsmnt n);
        cont \<leftarrow> qsort_table (q_cont qs contcompar) (cts_nrcontainer k) (maxcontlines mx) (cts_cont k);
        Some (s\<lparr>ss_cpu := c\<lparr>cst_cpu := cpu\<rparr>, ss_dsk := d\<lparr>dks_lvm := lvm, dks_mdd := mdd, dks_dsk := dsk\<rparr>,
          ss_intf := i\<lparr>ifs_intf := intf\<rparr>, ss_nfs := (ss_nfs s)\<lparr>nfs_nfsmounts := n\<lparr>nmts_nfsmnt := nfsmnt\<rparr>\<rparr>,
          ss_cfs := k\<lparr>cts_cont := cont\<rparr>\<rparr>)
      })"

section \<open>The total consumption\<close>

record syscap =
  cap_nrcpu :: i32
  cap_availcpu :: count_t
  cap_availmem :: count_t
  cap_availdsk :: count_t
  cap_availnet :: count_t

definition nett_wsz :: "dsk \<Rightarrow> count_t" where
  "nett_wsz d = (if dsk_cwsz d <s dsk_wsz d then dsk_wsz d - dsk_cwsz d else 0)"

fun totalcap_loop :: "syscap \<Rightarrow> tstat list \<Rightarrow> syscap" where
  "totalcap_loop psc [] = psc"
| "totalcap_loop psc (curstat # proclist) =
     (let psc = psc\<lparr>cap_availnet := cap_availnet psc + net_tcpssz (t_net curstat)\<rparr>;
          psc = psc\<lparr>cap_availnet := cap_availnet psc + net_tcprsz (t_net curstat)\<rparr>;
          psc = psc\<lparr>cap_availnet := cap_availnet psc + net_udpssz (t_net curstat)\<rparr>;
          psc = psc\<lparr>cap_availnet := cap_availnet psc + net_udprsz (t_net curstat)\<rparr>;
          psc = psc\<lparr>cap_availdsk := cap_availdsk psc + dsk_rsz (t_dsk curstat)\<rparr>;
          psc = psc\<lparr>cap_availdsk := cap_availdsk psc + nett_wsz (t_dsk curstat)\<rparr>
      in totalcap_loop psc proclist)"

definition totalcap :: "u32 \<Rightarrow> sstat \<Rightarrow> tstat list \<Rightarrow> syscap" where
  "totalcap pagesize sstat proclist =
     (let c = cst_all (ss_cpu sstat) in
      totalcap_loop
        \<lparr>cap_nrcpu = ucast (cst_nrcpu (ss_cpu sstat)),
         cap_availcpu = pcp_stime c + pcp_utime c + pcp_ntime c + pcp_itime c + pcp_wtime c + pcp_Itime c +
           pcp_Stime c + pcp_steal c,
         cap_availmem = cdiv (mst_physmem (ss_mem sstat) * ucast pagesize) 1024,
         cap_availdsk = 0, cap_availnet = 0\<rparr>
        proclist)"

section \<open>Comparison by a key\<close>

locale three_way =
  fixes cmp :: "'a \<Rightarrow> 'a \<Rightarrow> int" and key :: "'a \<Rightarrow> 'k::linorder"
  assumes less: "cmp x y < 0 \<longleftrightarrow> key x < key y" and greater: "0 < cmp x y \<longleftrightarrow> key y < key x"
begin

lemma equal: "cmp x y = 0 \<longleftrightarrow> key x = key y"
  using less [of x y] greater [of x y] by (cases "key x" "key y" rule: linorder_cases) auto

lemma le: "cmp x y \<le> 0 \<longleftrightarrow> key x \<le> key y"
  using greater [of x y] by auto

lemma ordered_iff: "sorted_wrt (\<lambda>x y. cmp x y \<le> 0) xs \<longleftrightarrow> sorted (map key xs)"
  by (simp add: sorted_wrt_map le)

end

text \<open>What \<open>qsort\<close> promises for a comparison function.\<close>

definition qsorts :: "('a \<Rightarrow> 'a \<Rightarrow> int) \<Rightarrow> ('a list \<Rightarrow> 'a list) \<Rightarrow> bool" where
  "qsorts cmp qs \<longleftrightarrow> (\<forall>xs. mset (qs xs) = mset xs \<and> sorted_wrt (\<lambda>x y. cmp x y \<le> 0) (qs xs))"

text \<open>An insertion sort fulfils the contract, so that the assumption on \<open>qsort\<close> can be met.\<close>

fun insert_by :: "('a \<Rightarrow> 'a \<Rightarrow> int) \<Rightarrow> 'a \<Rightarrow> 'a list \<Rightarrow> 'a list" where
  "insert_by cmp x [] = [x]"
| "insert_by cmp x (y # ys) = (if cmp x y \<le> 0 then x # y # ys else y # insert_by cmp x ys)"

definition isort :: "('a \<Rightarrow> 'a \<Rightarrow> int) \<Rightarrow> 'a list \<Rightarrow> 'a list" where
  "isort cmp xs = foldr (insert_by cmp) xs []"

context three_way
begin

lemma qsorts_keys: "qsorts cmp qs \<Longrightarrow> map key (qs xs) = sort (map key xs)"
  by (rule properties_for_sort [symmetric]) (auto simp: qsorts_def ordered_iff)

lemma insert_by_key: "insert_by cmp x ys = insort_key key x ys"
  by (induction ys) (simp_all add: le)

lemma isort_qsorts: "qsorts cmp (isort cmp)"
proof -
  have "isort cmp xs = sort_key key xs" for xs
    unfolding isort_def by (induction xs) (simp_all add: insert_by_key)
  then show ?thesis by (simp add: qsorts_def ordered_iff)
qed

end

lemma descending_less: "descending a b other < 0 \<longleftrightarrow> - sint a < - sint b \<or> sint a = sint b \<and> other < 0"
  by (auto simp: descending_def word_sless_alt)

lemma descending_greater: "0 < descending a b other \<longleftrightarrow> - sint b < - sint a \<or> sint a = sint b \<and> 0 < other"
  by (auto simp: descending_def word_sless_alt)

lemma ascending_less: "ascending a b other < 0 \<longleftrightarrow> sint a < sint b \<or> sint a = sint b \<and> other < 0"
  by (auto simp: ascending_def word_sless_alt)

lemma ascending_greater: "0 < ascending a b other \<longleftrightarrow> sint b < sint a \<or> sint a = sint b \<and> 0 < other"
  by (auto simp: ascending_def word_sless_alt)

lemmas comparing = descending_less descending_greater ascending_less ascending_greater Let_def

abbreviation mem_key :: "tstat \<Rightarrow> int" where
  "mem_key t \<equiv> - sint (mem_rmem (t_mem t))"

abbreviation cpu_key :: "tstat \<Rightarrow> int \<times> int" where
  "cpu_key t \<equiv> (- sint (cpu_stime (t_cpu t) + cpu_utime (t_cpu t)), mem_key t)"

abbreviation dsk_key :: "tstat \<Rightarrow> int \<times> int \<times> int" where
  "dsk_key t \<equiv> (- sint (dsk_usage t), cpu_key t)"

abbreviation net_key :: "tstat \<Rightarrow> int \<times> int \<times> int" where
  "net_key t \<equiv> (- sint (net_tcpssz (t_net t) + net_tcprsz (t_net t) + net_udpssz (t_net t) + net_udprsz (t_net t)), cpu_key t)"

abbreviation string_key :: "string \<Rightarrow> int list" where
  "string_key s \<equiv> map of_char s"

abbreviation idle_key :: "percpu \<Rightarrow> int" where
  "idle_key c \<equiv> sint (pcp_itime c + pcp_wtime c)"

abbreviation disk_key :: "perdsk \<Rightarrow> int" where
  "disk_key d \<equiv> - sint (pdk_io_ms d)"

abbreviation intf_key :: "perintf \<Rightarrow> bool \<times> int" where
  "intf_key i \<equiv> (pif_speed i = 0, - sint (if pif_speed i = 0 then pif_rbyte i + pif_sbyte i else busy_factor i))"

abbreviation nfsm_key :: "pernfsmount \<Rightarrow> int" where
  "nfsm_key n \<equiv> - sint (nfsm_used n)"

abbreviation cont_key :: "percontainer \<Rightarrow> int" where
  "cont_key c \<equiv> - sint (ctr_system c + ctr_user c + ctr_nice c)"

interpretation by_mem: three_way compmem mem_key
  by unfold_locales (simp_all add: compmem_def comparing)

interpretation by_cpu: three_way compcpu cpu_key
  by unfold_locales (auto simp: compcpu_def comparing by_mem.less by_mem.greater)

interpretation by_dsk: three_way compdsk dsk_key
  by unfold_locales (auto simp: compdsk_def comparing by_cpu.less by_cpu.greater)

interpretation by_net: three_way compnet net_key
  by unfold_locales (auto simp: compnet_def comparing by_cpu.less by_cpu.greater)

interpretation by_user: three_way compusr "\<lambda>t. sint (gen_ruid (t_gen t))"
  by unfold_locales (simp_all add: compusr_def comparing)

lemma strcmp_less: "strcmp a b < 0 \<longleftrightarrow> string_key a < string_key b"
  by (induction a b rule: strcmp.induct) (auto simp: Cons_less_Cons)

lemma strcmp_greater: "0 < strcmp a b \<longleftrightarrow> string_key b < string_key a"
  by (induction a b rule: strcmp.induct) (auto simp: Cons_less_Cons)

interpretation by_name: three_way compnam "\<lambda>t. string_key (cstr (gen_name (t_gen t)))"
  by unfold_locales (simp_all add: compnam_def strcmp_less strcmp_greater)

interpretation by_container: three_way compcon "\<lambda>t. string_key (cstr (gen_container (t_gen t)))"
  by unfold_locales (simp_all add: compcon_def strcmp_less strcmp_greater)

interpretation by_idle: three_way cpucompar idle_key
  by unfold_locales (simp_all add: cpucompar_def comparing)

interpretation by_busy: three_way diskcompar disk_key
  by unfold_locales (simp_all add: diskcompar_def comparing)

lemma intfcompar_swap: "intfcompar y x = - intfcompar x y"
  by (simp add: intfcompar_def Let_def descending_def word_sless_alt)

lemma intfcompar_less: "intfcompar x y < 0 \<longleftrightarrow> intf_key x < intf_key y"
  by (cases "pif_speed x = 0"; cases "pif_speed y = 0") (simp_all add: intfcompar_def comparing)

interpretation by_load: three_way intfcompar intf_key
proof
  show "intfcompar x y < 0 \<longleftrightarrow> intf_key x < intf_key y" for x y by (rule intfcompar_less)
  show "0 < intfcompar x y \<longleftrightarrow> intf_key y < intf_key x" for x y
    using intfcompar_less [of y x] intfcompar_swap [of x y] by (simp only: neg_0_less_iff_less)
qed

interpretation by_mount: three_way nfsmcompar nfsm_key
  by unfold_locales (simp_all add: nfsmcompar_def comparing)

interpretation by_use: three_way contcompar cont_key
  by unfold_locales (simp_all add: contcompar_def comparing)

section \<open>Sorted tables\<close>

text \<open>The first \<open>n\<close> elements are rearranged by their keys, the rest of the array is unchanged.\<close>

definition table_sorted :: "('a \<Rightarrow> 'k::linorder) \<Rightarrow> nat \<Rightarrow> 'a list \<Rightarrow> 'a list \<Rightarrow> bool" where
  "table_sorted key n a a' \<longleftrightarrow> mset (take n a') = mset (take n a) \<and> drop n a' = drop n a \<and>
     map key (take n a') = sort (map key (take n a))"

lemma table_sorted_small: "n \<le> 1 \<Longrightarrow> n \<le> length a \<Longrightarrow> table_sorted key n a a"
  by (cases a; cases n) (auto simp: table_sorted_def)

text \<open>A count that is not above one leaves nothing to sort.\<close>

lemma short_count:
  fixes n :: "'w::len word"
  assumes "1 < LENGTH('w)" and "0 \<le>s n" and "\<not> 1 <s n"
  shows "unat n \<le> 1"
proof -
  have "sint (1 :: 'w word) = 1" using assms(1) by simp
  then have "sint n = 0 \<or> sint n = 1" using assms by (auto simp: word_sle_eq word_sless_alt)
  then have "word_of_int (sint n) = (0 :: 'w word) \<or> word_of_int (sint n) = (1 :: 'w word)"
    by (elim disjE) (simp_all only: of_int_0 of_int_1 simp_thms)
  then have "n = 0 \<or> n = 1" by simp
  then show ?thesis by auto
qed

context three_way
begin

lemma qsort_table_sorts:
  fixes n :: "'w::len word"
  assumes "qsorts cmp qs" and "1 < LENGTH('w)" and "0 \<le>s n" and "unat n \<le> length a" and "0 <s lines"
  shows "\<exists>a'. qsort_table qs n lines a = Some a' \<and> table_sorted key (unat n) a a'"
proof (cases "1 <s n")
  case True
  have "length (qs (take (unat n) a)) = unat n"
    using assms by (metis length_take min.absorb2 qsorts_def size_mset)
  then show ?thesis
    using True assms qsorts_keys [OF assms(1)]
    by (auto simp: qsort_table_def qsort_prefix_def table_sorted_def qsorts_def)
next
  case False
  then show ?thesis
    using table_sorted_small [OF short_count [OF assms(2,3) False] assms(4)] by (simp add: qsort_table_def)
qed

end

definition sorts_all :: "sorters \<Rightarrow> bool" where
  "sorts_all qs \<longleftrightarrow> qsorts cpucompar (q_cpu qs cpucompar) \<and> qsorts diskcompar (q_dsk qs diskcompar) \<and>
     qsorts intfcompar (q_intf qs intfcompar) \<and> qsorts nfsmcompar (q_nfs qs nfsmcompar) \<and>
     qsorts contcompar (q_cont qs contcompar)"

definition all_lines :: "maxlines \<Rightarrow> bool" where
  "all_lines mx \<longleftrightarrow> (\<forall>f\<in>set [maxcpulines, maxdsklines, maxmddlines, maxlvmlines, maxintlines, maxnfslines, maxcontlines].
     0 <s f mx)"

text \<open>The counts of the tables lie inside their arrays.\<close>

definition counts_fit :: "sstat \<Rightarrow> bool" where
  "counts_fit s \<longleftrightarrow>
     0 \<le>s cst_nrcpu (ss_cpu s) \<and> unat (cst_nrcpu (ss_cpu s)) \<le> length (cst_cpu (ss_cpu s)) \<and>
     0 \<le>s dks_nlvm (ss_dsk s) \<and> unat (dks_nlvm (ss_dsk s)) \<le> length (dks_lvm (ss_dsk s)) \<and>
     0 \<le>s dks_nmdd (ss_dsk s) \<and> unat (dks_nmdd (ss_dsk s)) \<le> length (dks_mdd (ss_dsk s)) \<and>
     0 \<le>s dks_ndsk (ss_dsk s) \<and> unat (dks_ndsk (ss_dsk s)) \<le> length (dks_dsk (ss_dsk s)) \<and>
     0 \<le>s ifs_nrintf (ss_intf s) \<and> unat (ifs_nrintf (ss_intf s)) \<le> length (ifs_intf (ss_intf s)) \<and>
     0 \<le>s nmts_nrmounts (nfs_nfsmounts (ss_nfs s)) \<and>
     unat (nmts_nrmounts (nfs_nfsmounts (ss_nfs s))) \<le> length (nmts_nfsmnt (nfs_nfsmounts (ss_nfs s))) \<and>
     0 \<le>s cts_nrcontainer (ss_cfs s) \<and> unat (cts_nrcontainer (ss_cfs s)) \<le> length (cts_cont (ss_cfs s))"

text \<open>
  C25: Before the resources are shown, each of the seven tables is a rearrangement of what was measured in which the
  entries are ordered by their load: the processors by increasing idle time, volumes, multiple devices and disks by
  decreasing busy time, the interfaces by decreasing busy factor with those of unknown speed behind them, the NFS mounts by
  decreasing traffic and the containers by decreasing processor time.  Entries behind the counts are kept.  This holds
  for every \<open>qsort\<close> that fulfils its contract.
\<close>

theorem sort_resources_sorted:
  assumes "sorts_all qs" and "all_lines mx" and "counts_fit s"
  shows "\<exists>s'. sort_resources qs False mx s = Some s' \<and>
    table_sorted idle_key (unat (cst_nrcpu (ss_cpu s))) (cst_cpu (ss_cpu s)) (cst_cpu (ss_cpu s')) \<and>
    table_sorted disk_key (unat (dks_nlvm (ss_dsk s))) (dks_lvm (ss_dsk s)) (dks_lvm (ss_dsk s')) \<and>
    table_sorted disk_key (unat (dks_nmdd (ss_dsk s))) (dks_mdd (ss_dsk s)) (dks_mdd (ss_dsk s')) \<and>
    table_sorted disk_key (unat (dks_ndsk (ss_dsk s))) (dks_dsk (ss_dsk s)) (dks_dsk (ss_dsk s')) \<and>
    table_sorted intf_key (unat (ifs_nrintf (ss_intf s))) (ifs_intf (ss_intf s)) (ifs_intf (ss_intf s')) \<and>
    table_sorted nfsm_key (unat (nmts_nrmounts (nfs_nfsmounts (ss_nfs s)))) (nmts_nfsmnt (nfs_nfsmounts (ss_nfs s)))
      (nmts_nfsmnt (nfs_nfsmounts (ss_nfs s'))) \<and>
    table_sorted cont_key (unat (cts_nrcontainer (ss_cfs s))) (cts_cont (ss_cfs s)) (cts_cont (ss_cfs s'))"
proof -
  note c = assms [unfolded sorts_all_def all_lines_def counts_fit_def, simplified]
  obtain cpu where cpu: "qsort_table (q_cpu qs cpucompar) (cst_nrcpu (ss_cpu s)) (maxcpulines mx) (cst_cpu (ss_cpu s)) = Some cpu"
    "table_sorted idle_key (unat (cst_nrcpu (ss_cpu s))) (cst_cpu (ss_cpu s)) cpu"
    using by_idle.qsort_table_sorts [of "q_cpu qs cpucompar" "cst_nrcpu (ss_cpu s)" "cst_cpu (ss_cpu s)"] c by auto
  have dsk: "\<exists>d'. qsort_table (q_dsk qs diskcompar) n l d = Some d' \<and> table_sorted disk_key (unat n) d d'"
    if "0 \<le>s n" "unat n \<le> length d" "0 <s l" for n l :: i32 and d
    using that by_busy.qsort_table_sorts [of "q_dsk qs diskcompar" n d l] c by simp
  obtain lvm mdd dsk where
    disks: "qsort_table (q_dsk qs diskcompar) (dks_nlvm (ss_dsk s)) (maxlvmlines mx) (dks_lvm (ss_dsk s)) = Some lvm"
      "table_sorted disk_key (unat (dks_nlvm (ss_dsk s))) (dks_lvm (ss_dsk s)) lvm"
      "qsort_table (q_dsk qs diskcompar) (dks_nmdd (ss_dsk s)) (maxmddlines mx) (dks_mdd (ss_dsk s)) = Some mdd"
      "table_sorted disk_key (unat (dks_nmdd (ss_dsk s))) (dks_mdd (ss_dsk s)) mdd"
      "qsort_table (q_dsk qs diskcompar) (dks_ndsk (ss_dsk s)) (maxdsklines mx) (dks_dsk (ss_dsk s)) = Some dsk"
      "table_sorted disk_key (unat (dks_ndsk (ss_dsk s))) (dks_dsk (ss_dsk s)) dsk"
    using dsk c by meson
  obtain intf where intf: "qsort_table (q_intf qs intfcompar) (ifs_nrintf (ss_intf s)) (maxintlines mx) (ifs_intf (ss_intf s)) = Some intf"
    "table_sorted intf_key (unat (ifs_nrintf (ss_intf s))) (ifs_intf (ss_intf s)) intf"
    using by_load.qsort_table_sorts [of "q_intf qs intfcompar" "ifs_nrintf (ss_intf s)" "ifs_intf (ss_intf s)"] c by auto
  define n where "n = nfs_nfsmounts (ss_nfs s)"
  obtain mnt where mnt: "qsort_table (q_nfs qs nfsmcompar) (nmts_nrmounts n) (maxnfslines mx) (nmts_nfsmnt n) = Some mnt"
    "table_sorted nfsm_key (unat (nmts_nrmounts n)) (nmts_nfsmnt n) mnt"
    using by_mount.qsort_table_sorts [of "q_nfs qs nfsmcompar" "nmts_nrmounts n" "nmts_nfsmnt n"] c by (auto simp: n_def)
  obtain cont where cont: "qsort_table (q_cont qs contcompar) (cts_nrcontainer (ss_cfs s)) (maxcontlines mx) (cts_cont (ss_cfs s)) = Some cont"
    "table_sorted cont_key (unat (cts_nrcontainer (ss_cfs s))) (cts_cont (ss_cfs s)) cont"
    using by_use.qsort_table_sorts [of "q_cont qs contcompar" "cts_nrcontainer (ss_cfs s)" "cts_cont (ss_cfs s)"] c by auto
  show ?thesis
    using cpu disks intf mnt cont by (simp add: sort_resources_def flip: n_def)
qed

definition isorters :: sorters where
  "isorters = \<lparr>q_task = isort, q_cpu = isort, q_dsk = isort, q_intf = isort, q_nfs = isort, q_cont = isort\<rparr>"

lemma isorters_sort: "sorts_all isorters"
  by (simp add: sorts_all_def isorters_def by_idle.isort_qsorts by_busy.isort_qsorts by_load.isort_qsorts
    by_mount.isort_qsorts by_use.isort_qsorts)

theorem sort_resources_sorted_witness:
  "\<exists>s'. sort_resources isorters False \<lparr>maxcpulines = 1, maxdsklines = 1, maxmddlines = 1, maxlvmlines = 1, maxintlines = 1,
      maxnfslines = 1, maxcontlines = 1\<rparr>
      (sstat0\<lparr>ss_cpu := cpustat0\<lparr>cst_nrcpu := 2, cst_cpu := [percpu0\<lparr>pcp_itime := 9\<rparr>, percpu0\<lparr>pcp_itime := 3\<rparr>]\<rparr>\<rparr>) = Some s' \<and>
    map idle_key (take 2 (cst_cpu (ss_cpu s'))) = [3, 9]"
proof -
  let ?s = "sstat0\<lparr>ss_cpu := cpustat0\<lparr>cst_nrcpu := 2, cst_cpu := [percpu0\<lparr>pcp_itime := 9\<rparr>, percpu0\<lparr>pcp_itime := 3\<rparr>]\<rparr>\<rparr>"
  let ?mx = "\<lparr>maxcpulines = 1, maxdsklines = 1, maxmddlines = 1, maxlvmlines = 1, maxintlines = 1, maxnfslines = 1,
    maxcontlines = 1\<rparr>"
  have "all_lines ?mx" by (simp add: all_lines_def word_sless_alt)
  moreover have "counts_fit ?s"
    by (simp add: counts_fit_def word_sle_eq sstat0_def dskstat0_def intfstat0_def nfsstat0_def nfsmounts0_def contstat0_def)
  ultimately obtain s' where s': "sort_resources isorters False ?mx ?s = Some s'"
    "table_sorted idle_key 2 (cst_cpu (ss_cpu ?s)) (cst_cpu (ss_cpu s'))"
    using sort_resources_sorted [OF isorters_sort, of ?mx ?s] by auto
  have "map idle_key (take 2 (cst_cpu (ss_cpu s'))) = sort (map idle_key (take 2 (cst_cpu (ss_cpu ?s))))"
    using s'(2) by (simp only: table_sorted_def)
  also have "\<dots> = [3, 9]" by (simp add: percpu0_def)
  finally show ?thesis by (intro exI conjI) (rule s'(1))
qed

text \<open>
  \<open>totalcap\<close> sums up, over the active processes, the bytes sent and received by TCP and UDP and the volumes read and
  written, cancelled writes excepted; the available processor time is the sum of all modes.
\<close>

theorem totalcap_sums:
  "cap_availnet (totalcap pagesize s ps) =
     (\<Sum>t\<leftarrow>ps. net_tcpssz (t_net t) + net_tcprsz (t_net t) + net_udpssz (t_net t) + net_udprsz (t_net t)) \<and>
   cap_availdsk (totalcap pagesize s ps) = (\<Sum>t\<leftarrow>ps. dsk_rsz (t_dsk t) + nett_wsz (t_dsk t))"
proof -
  have "cap_availnet (totalcap_loop p ps) = cap_availnet p +
      (\<Sum>t\<leftarrow>ps. net_tcpssz (t_net t) + net_tcprsz (t_net t) + net_udpssz (t_net t) + net_udprsz (t_net t))"
    "cap_availdsk (totalcap_loop p ps) = cap_availdsk p + (\<Sum>t\<leftarrow>ps. dsk_rsz (t_dsk t) + nett_wsz (t_dsk t))" for p
    by (induction p ps rule: totalcap_loop.induct) (simp_all add: Let_def add.assoc)
  then show ?thesis by (simp add: totalcap_def Let_def)
qed

text \<open>The order by disk traffic counts read requests, not the volume read.\<close>

lemma compdsk_ignores_rsz: "compdsk (a\<lparr>t_dsk := (t_dsk a)\<lparr>dsk_rsz := r\<rparr>\<rparr>) b = compdsk a b"
  by (simp add: compdsk_def compcpu_def compmem_def dsk_usage_def)
end
