(* ===== verification/Cumulate.thy ===== *)
theory Cumulate
  imports Task_Order
begin

text \<open>
  Selection and accumulation of tasks in \<^verbatim>\<open>src/Qt/FakeAtop/showgeneric.c\<close>: \<open>procsuppress\<close>, \<open>accumulate\<close>,
  \<open>cumusers\<close>, \<open>cumprogs\<close>, \<open>cumconts\<close> and the selection loop of \<open>generic_samp\<close>.

  \<open>qsort\<close> and \<open>regexec\<close> are parameters.  The three accumulations differ in the member by which they group, so that
  their loop is written once over the test for a new group and the copying of the member; a locale states what the
  proofs need of the two.
\<close>

section \<open>Selection of tasks\<close>

definition USERSTUB :: u32 where "USERSTUB = 9999999"

record 'r pselection =
  sel_userid :: "u32 list"
  sel_pid :: "i32 list"
  sel_prognamesz :: i32
  sel_progregex :: 'r
  sel_argnamesz :: i32
  sel_argregex :: 'r
  sel_container :: chars

text \<open>The element of the array at which the search stops; the array has to hold the stub.\<close>

fun user_search :: "u32 list \<Rightarrow> u32 \<Rightarrow> u32 option" where
  "user_search [] ruid = None"
| "user_search (u # us) ruid =
     (if u = USERSTUB then Some u else if u = ruid then Some u else user_search us ruid)"

fun pid_search :: "i32 list \<Rightarrow> i32 \<Rightarrow> i32 option" where
  "pid_search [] pid = None"
| "pid_search (p # ps) pid = (if p = 0 then Some p else if p = pid then Some p else pid_search ps pid)"

text \<open>\<open>regexec\<close> tells whether there is \<^emph>\<open>no\<close> match; \<open>None\<close> is reading beyond an array.\<close>

definition procsuppress :: "('r \<Rightarrow> string \<Rightarrow> bool) \<Rightarrow> 'r pselection \<Rightarrow> tstat \<Rightarrow> bool option" where
  "procsuppress regexec sel curstat = do {
     let g = t_gen curstat;
     u0 \<leftarrow> aget (sel_userid sel) 0;
     no_user \<leftarrow> (if u0 \<noteq> USERSTUB
                then do { u \<leftarrow> user_search (sel_userid sel) (gen_ruid g); Some (u \<noteq> gen_ruid g) }
                else Some False);
     if no_user then Some True
     else do {
       p0 \<leftarrow> aget (sel_pid sel) 0;
       no_pid \<leftarrow> (if truth p0
                 then do { p \<leftarrow> pid_search (sel_pid sel) (gen_pid g); Some (p \<noteq> gen_pid g) }
                 else Some False);
       if no_pid then Some True
       else if truth (sel_prognamesz sel) \<and> regexec (sel_progregex sel) (cstr (gen_name g)) then Some True
       else if truth (sel_argnamesz sel) \<and>
         regexec (sel_argregex sel) (if cnonempty (gen_cmdline g) then cstr (gen_cmdline g) else cstr (gen_name g))
       then Some True
       else do {
         c0 \<leftarrow> aget (sel_container sel) 0;
         Some (c0 \<noteq> NUL \<and>
           (if c0 = CHR ''H'' then cnonempty (gen_container g)
            else take 12 (sel_container sel) \<noteq> take 12 (gen_container g)))
       }
     }
   }"

section \<open>Accumulation\<close>

abbreviation exited :: "tstat \<Rightarrow> bool" where
  "exited p \<equiv> gen_state (t_gen p) = of_char (CHR ''E'')"

definition acc_mem :: "mem \<Rightarrow> mem \<Rightarrow> mem" where
  "acc_mem p c = c\<lparr>
     mem_pmem := (if mem_pmem c \<noteq> -1 then if mem_pmem p \<noteq> -1 then mem_pmem c + mem_pmem p else -1 else mem_pmem c),
     mem_vmem := mem_vmem c + mem_vmem p,
     mem_rmem := mem_rmem c + mem_rmem p,
     mem_vlibs := mem_vlibs c + mem_vlibs p,
     mem_vdata := mem_vdata c + mem_vdata p,
     mem_vstack := mem_vstack c + mem_vstack p,
     mem_vswap := mem_vswap c + mem_vswap p,
     mem_rgrow := mem_rgrow c + mem_rgrow p,
     mem_vgrow := mem_vgrow c + mem_vgrow p\<rparr>"

definition accumulate :: "tstat \<Rightarrow> tstat \<Rightarrow> tstat" where
  "accumulate curproc curstat =
     (let g = t_gen curstat; c = t_cpu curstat; d = t_dsk curstat; n = t_net curstat;
          pn = t_net curproc;
          rio = dsk_rio d + dsk_rsz (t_dsk curproc);
          wio = dsk_wio d + nett_wsz (t_dsk curproc)
      in curstat\<lparr>
        t_gen := g\<lparr>gen_pid := gen_pid g + 1, gen_isproc := 1, gen_nthr := gen_nthr g + gen_nthr (t_gen curproc)\<rparr>,
        t_cpu := c\<lparr>cpu_utime := cpu_utime c + cpu_utime (t_cpu curproc), cpu_stime := cpu_stime c + cpu_stime (t_cpu curproc)\<rparr>,
        t_dsk := d\<lparr>dsk_rio := rio, dsk_wio := wio, dsk_rsz := rio, dsk_wsz := wio\<rparr>,
        t_net := n\<lparr>
          net_tcpsnd := net_tcpsnd n + net_tcpsnd pn, net_tcprcv := net_tcprcv n + net_tcprcv pn,
          net_udpsnd := net_udpsnd n + net_udpsnd pn, net_udprcv := net_udprcv n + net_udprcv pn,
          net_tcpssz := net_tcpssz n + net_tcpssz pn, net_tcprsz := net_tcprsz n + net_tcprsz pn,
          net_udpssz := net_udpssz n + net_udpssz pn, net_udprsz := net_udprsz n + net_udprsz pn\<rparr>,
        t_mem := (if \<not> exited curproc then acc_mem (t_mem curproc) (t_mem curstat) else t_mem curstat)\<rparr>)"

text \<open>
  The loop of the three accumulations: \<open>differ\<close> tests whether the process starts a new group, \<open>label\<close> copies the member.  The index \<open>j\<close> is both the counter and the
  distance by which the pointer has moved.
\<close>

definition cum_step :: "(tstat \<Rightarrow> tstat \<Rightarrow> bool) \<Rightarrow> (tstat \<Rightarrow> tstat \<Rightarrow> tstat) \<Rightarrow> tstat \<Rightarrow> tstat list \<Rightarrow> nat \<Rightarrow>
    (tstat list \<times> nat) option" where
  "cum_step differ label p cur j = do {
     c \<leftarrow> aget cur j;
     (cur, j) \<leftarrow> (if differ c p
                 then do {
                   let j = (if truth (gen_pid (t_gen c)) then j + 1 else j);
                   cur \<leftarrow> aupd cur j (label p);
                   Some (cur, j)
                 }
                 else Some (cur, j));
     cur \<leftarrow> aupd cur j (accumulate p);
     Some (cur, j)
   }"

fun cum_loop :: "(tstat \<Rightarrow> tstat \<Rightarrow> bool) \<Rightarrow> (tstat \<Rightarrow> tstat \<Rightarrow> tstat) \<Rightarrow> (tstat \<Rightarrow> bool option) \<Rightarrow> bool \<Rightarrow>
    tstat list \<Rightarrow> tstat list \<Rightarrow> nat \<Rightarrow> (tstat list \<times> nat) option" where
  "cum_loop differ label supp suppressexit [] cur j = do {
     c \<leftarrow> aget cur j;
     Some (cur, if truth (gen_pid (t_gen c)) then j + 1 else j)
   }"
| "cum_loop differ label supp suppressexit (p # ps) cur j = do {
     sup \<leftarrow> supp p;
     if sup then cum_loop differ label supp suppressexit ps cur j
     else if exited p \<and> suppressexit then cum_loop differ label supp suppressexit ps cur j
     else do {
       (cur, j) \<leftarrow> cum_step differ label p cur j;
       cum_loop differ label supp suppressexit ps cur j
     }
   }"

text \<open>The result: the processes in their new order, the array with the groups, and their number.\<close>

definition cumusers :: "((tstat \<Rightarrow> tstat \<Rightarrow> int) \<Rightarrow> tstat list \<Rightarrow> tstat list) \<Rightarrow> (tstat \<Rightarrow> bool option) \<Rightarrow> bool \<Rightarrow>
    tstat list \<Rightarrow> tstat list \<Rightarrow> (tstat list \<times> tstat list \<times> nat) option" where
  "cumusers qsort supp suppressexit curprocs curusers = do {
     let curprocs = qsort compusr curprocs;
     (curusers, numusers) \<leftarrow> cum_loop (\<lambda>c p. gen_ruid (t_gen c) \<noteq> gen_ruid (t_gen p))
       (\<lambda>p c. c\<lparr>t_gen := (t_gen c)\<lparr>gen_ruid := gen_ruid (t_gen p)\<rparr>\<rparr>) supp suppressexit curprocs curusers 0;
     Some (curprocs, curusers, numusers)
   }"

definition cumprogs :: "((tstat \<Rightarrow> tstat \<Rightarrow> int) \<Rightarrow> tstat list \<Rightarrow> tstat list) \<Rightarrow> (tstat \<Rightarrow> bool option) \<Rightarrow> bool \<Rightarrow>
    tstat list \<Rightarrow> tstat list \<Rightarrow> (tstat list \<times> tstat list \<times> nat) option" where
  "cumprogs qsort supp suppressexit curprocs curprogs = do {
     let curprocs = qsort compnam curprocs;
     (curprogs, numprogs) \<leftarrow> cum_loop (\<lambda>c p. strcmp (cstr (gen_name (t_gen c))) (cstr (gen_name (t_gen p))) \<noteq> 0)
       (\<lambda>p c. c\<lparr>t_gen := (t_gen c)\<lparr>gen_name := strcpy (gen_name (t_gen c)) (gen_name (t_gen p))\<rparr>\<rparr>) supp suppressexit
       curprocs curprogs 0;
     Some (curprocs, curprogs, numprogs)
   }"

definition cumconts :: "((tstat \<Rightarrow> tstat \<Rightarrow> int) \<Rightarrow> tstat list \<Rightarrow> tstat list) \<Rightarrow> (tstat \<Rightarrow> bool option) \<Rightarrow> bool \<Rightarrow>
    tstat list \<Rightarrow> tstat list \<Rightarrow> (tstat list \<times> tstat list \<times> nat) option" where
  "cumconts qsort supp suppressexit curprocs curconts = do {
     let curprocs = qsort compcon curprocs;
     (curconts, numconts) \<leftarrow>
       cum_loop (\<lambda>c p. strcmp (cstr (gen_container (t_gen c))) (cstr (gen_container (t_gen p))) \<noteq> 0)
       (\<lambda>p c. c\<lparr>t_gen := (t_gen c)\<lparr>gen_container := strcpy (gen_container (t_gen c)) (gen_container (t_gen p))\<rparr>\<rparr>)
       supp suppressexit curprocs curconts 0;
     Some (curprocs, curconts, numconts)
   }"

text \<open>The loop of \<open>generic_samp\<close> that collects the selected processes.\<close>

fun sellist_loop :: "(tstat \<Rightarrow> bool option) \<Rightarrow> bool \<Rightarrow> tstat list \<Rightarrow> tstat list option" where
  "sellist_loop supp suppressexit [] = Some []"
| "sellist_loop supp suppressexit (p # ps) = do {
     sup \<leftarrow> supp p;
     if sup then sellist_loop supp suppressexit ps
     else if exited p \<and> suppressexit then sellist_loop supp suppressexit ps
     else map_option ((#) p) (sellist_loop supp suppressexit ps)
   }"

section \<open>What a group holds\<close>

text \<open>\<open>c\<close> holds the totals of the processes \<open>ps\<close>; its process id is their number.\<close>

definition totals :: "tstat list \<Rightarrow> tstat \<Rightarrow> bool" where
  "totals ps c \<longleftrightarrow>
     (let live = filter (\<lambda>p. \<not> exited p) ps; cnt = (\<lambda>f. \<Sum>p\<leftarrow>ps. f p); res = (\<lambda>f. \<Sum>p\<leftarrow>live. f (t_mem p)) in
      gen_pid (t_gen c) = of_nat (length ps) \<and> gen_nthr (t_gen c) = (\<Sum>p\<leftarrow>ps. gen_nthr (t_gen p)) \<and>
      cpu_utime (t_cpu c) = cnt (\<lambda>p. cpu_utime (t_cpu p)) \<and> cpu_stime (t_cpu c) = cnt (\<lambda>p. cpu_stime (t_cpu p)) \<and>
      dsk_rio (t_dsk c) = cnt (\<lambda>p. dsk_rsz (t_dsk p)) \<and> dsk_wio (t_dsk c) = cnt (\<lambda>p. nett_wsz (t_dsk p)) \<and>
      dsk_rsz (t_dsk c) = dsk_rio (t_dsk c) \<and> dsk_wsz (t_dsk c) = dsk_wio (t_dsk c) \<and>
      net_tcpsnd (t_net c) = cnt (\<lambda>p. net_tcpsnd (t_net p)) \<and> net_tcprcv (t_net c) = cnt (\<lambda>p. net_tcprcv (t_net p)) \<and>
      net_udpsnd (t_net c) = cnt (\<lambda>p. net_udpsnd (t_net p)) \<and> net_udprcv (t_net c) = cnt (\<lambda>p. net_udprcv (t_net p)) \<and>
      net_tcpssz (t_net c) = cnt (\<lambda>p. net_tcpssz (t_net p)) \<and> net_tcprsz (t_net c) = cnt (\<lambda>p. net_tcprsz (t_net p)) \<and>
      net_udpssz (t_net c) = cnt (\<lambda>p. net_udpssz (t_net p)) \<and> net_udprsz (t_net c) = cnt (\<lambda>p. net_udprsz (t_net p)) \<and>
      mem_vmem (t_mem c) = res mem_vmem \<and> mem_rmem (t_mem c) = res mem_rmem \<and> mem_vlibs (t_mem c) = res mem_vlibs \<and>
      mem_vdata (t_mem c) = res mem_vdata \<and> mem_vstack (t_mem c) = res mem_vstack \<and> mem_vswap (t_mem c) = res mem_vswap \<and>
      mem_rgrow (t_mem c) = res mem_rgrow \<and> mem_vgrow (t_mem c) = res mem_vgrow \<and>
      ((\<exists>p\<in>set live. mem_pmem (t_mem p) = -1) \<longrightarrow> mem_pmem (t_mem c) = -1))"

lemma totals_Nil [simp]: "totals [] tstat0"
  by (simp add: totals_def tstat0_def gen0_def cpu0_def dsk0_def mem0_def net0_def)

lemma totals_pid: "totals ps c \<Longrightarrow> gen_pid (t_gen c) = of_nat (length ps)"
  by (simp add: totals_def Let_def)

lemma totals_accumulate:
  assumes "totals ps c"
  shows "totals (ps @ [p]) (accumulate p c)"
  using assms by (simp add: totals_def accumulate_def acc_mem_def Let_def; blast)


text \<open>The totals do not depend on the order of the processes.\<close>

lemma sum_list_mset: "mset xs = mset ys \<Longrightarrow> (\<Sum>x\<leftarrow>xs. f x) = (\<Sum>x\<leftarrow>ys. (f x :: 'b::comm_monoid_add))"
  by (metis mset_map sum_mset_sum_list)

lemma totals_mset:
  assumes "mset ps = mset qs"
  shows "totals ps c \<longleftrightarrow> totals qs c"
proof -
  have live: "mset (filter (\<lambda>p. \<not> exited p) ps) = mset (filter (\<lambda>p. \<not> exited p) qs)" using assms by simp
  have "set ps = set qs" "length ps = length qs" using assms by (metis set_mset_mset, metis size_mset)
  then show ?thesis
    unfolding totals_def Let_def sum_list_mset [OF assms] sum_list_mset [OF live] by (simp only: set_filter)
qed

section \<open>The loop of the accumulations\<close>

definition selected :: "(tstat \<Rightarrow> bool option) \<Rightarrow> bool \<Rightarrow> tstat \<Rightarrow> bool" where
  "selected supp suppressexit p \<longleftrightarrow> supp p = Some False \<and> \<not> (exited p \<and> suppressexit)"

lemma remdups_adj_snoc:
  "remdups_adj (xs @ [x]) = (if xs \<noteq> [] \<and> last xs = x then remdups_adj xs else remdups_adj xs @ [x])"
  by (cases xs rule: rev_cases) (auto simp: remdups_adj_append_two)

lemma distinct_remdups_adj_prefix: "distinct (remdups_adj (xs @ ys)) \<Longrightarrow> distinct (remdups_adj xs)"
proof (induction ys rule: rev_induct)
  case (snoc y ys)
  then show ?case using remdups_adj_snoc [of "xs @ ys" y] by (simp split: if_splits)
qed simp

lemma distinct_remdups_adj_sorted: "sorted (xs :: 'k::linorder list) \<Longrightarrow> distinct (remdups_adj xs)"
  by (induction xs rule: remdups_adj.induct) auto

locale grouping =
  fixes differ :: "tstat \<Rightarrow> tstat \<Rightarrow> bool" and label :: "tstat \<Rightarrow> tstat \<Rightarrow> tstat" and tag :: "tstat \<Rightarrow> 'k"
  assumes differ: "differ c p \<longleftrightarrow> tag c \<noteq> tag p"
    and tag_label: "tag (label p c) = tag p"
    and tag_accumulate: "tag (accumulate p c) = tag c"
    and totals_label: "totals ps (label p c) \<longleftrightarrow> totals ps c"
begin

text \<open>The entry of one group, and the array after some processes: the groups so far, and zeroes.\<close>

definition entry :: "tstat list \<Rightarrow> 'k \<Rightarrow> tstat \<Rightarrow> bool" where
  "entry ps g c \<longleftrightarrow> tag c = g \<and> totals (filter (\<lambda>p. tag p = g) ps) c"

definition groups :: "tstat list \<Rightarrow> tstat list \<Rightarrow> nat \<Rightarrow> bool" where
  "groups ps cur j \<longleftrightarrow> (\<exists>cs k. cur = cs @ replicate k tstat0 \<and>
     list_all2 (entry ps) (remdups_adj (map tag ps)) cs \<and> j = length cs - 1)"

lemma groups_Nil: "groups [] (replicate n tstat0) 0"
  by (simp add: groups_def)

lemma entry_other: "tag p \<noteq> g \<Longrightarrow> entry (ps @ [p]) g c \<longleftrightarrow> entry ps g c"
  by (simp add: entry_def)

lemma entry_accumulate: "entry ps (tag p) c \<Longrightarrow> entry (ps @ [p]) (tag p) (accumulate p c)"
  by (simp add: entry_def tag_accumulate totals_accumulate)

lemma entry_fresh:
  "tag p \<notin> set (map tag ps) \<Longrightarrow> tag c = tag p \<Longrightarrow> totals [] c \<Longrightarrow> entry (ps @ [p]) (tag p) (accumulate p c)"
proof -
  assume "tag p \<notin> set (map tag ps)" "tag c = tag p" "totals [] c"
  moreover from this have "filter (\<lambda>q. tag q = tag p) ps = []"
    by (metis (mono_tags, lifting) filter_False image_eqI list.set_map)
  ultimately show ?thesis using totals_accumulate [of "[]" c p] by (simp add: entry_def tag_accumulate)
qed

lemma entries_other:
  "list_all2 (entry ps) gs cs \<Longrightarrow> tag p \<notin> set gs \<Longrightarrow> list_all2 (entry (ps @ [p])) gs cs"
  by (induction rule: list_all2_induct) (auto simp: entry_other)

lemma entry_pid:
  assumes "entry ps (tag p) c" and "p \<in> set ps" and "length ps < 2 ^ 32"
  shows "gen_pid (t_gen c) \<noteq> 0"
proof -
  define n where "n = length (filter (\<lambda>q. tag q = tag p) ps)"
  have "0 < n" using assms(2) by (auto simp: n_def filter_empty_conv)
  moreover have "n < 2 ^ 32" using assms(3) length_filter_le [of _ ps] by (metis n_def le_less_trans)
  ultimately have "(of_nat n :: i32) \<noteq> 0" by (simp add: word_of_nat_eq_0_iff nat_dvd_not_less)
  then show ?thesis using assms(1) totals_pid by (auto simp: entry_def n_def)
qed

lemma cum_step_first:
  "0 < n \<Longrightarrow> \<exists>cur' j'. cum_step differ label p (replicate n tstat0) 0 = Some (cur', j') \<and> length cur' = n \<and> groups [p] cur' j'"
proof -
  assume n: "0 < n"
  define c where "c = (if differ tstat0 p then label p tstat0 else tstat0)"
  have "tag c = tag p" using differ [of tstat0 p] by (auto simp: c_def tag_label)
  moreover have "totals [] c" by (simp add: c_def totals_label)
  ultimately have e: "entry [p] (tag p) (accumulate p c)" using entry_fresh [of p "[]" c] by simp
  obtain m where m: "n = Suc m" using n by (cases n) auto
  have "cum_step differ label p (replicate n tstat0) 0 = Some (accumulate p c # replicate m tstat0, 0)"
    by (simp add: cum_step_def m c_def)
  moreover have "groups [p] (accumulate p c # replicate m tstat0) 0"
    using e unfolding groups_def by (intro exI [of _ "[accumulate p c]"] exI [of _ m]) simp
  ultimately show ?thesis using m by auto
qed

lemma cum_step_groups:
  assumes "groups ps cur j" and "ps \<noteq> []" and d: "distinct (remdups_adj (map tag (ps @ [p])))"
    and l: "length (ps @ [p]) \<le> length cur" "length cur < 2 ^ 32"
  shows "\<exists>cur' j'. cum_step differ label p cur j = Some (cur', j') \<and> length cur' = length cur \<and> groups (ps @ [p]) cur' j'"
proof -
  define gs where "gs = remdups_adj (map tag ps)"
  obtain cs k where cur: "cur = cs @ replicate k tstat0" and all: "list_all2 (entry ps) gs cs" and j: "j = length cs - 1"
    using assms(1) by (auto simp: groups_def gs_def)
  have "last gs = tag (last ps)" "gs \<noteq> []" using assms(2) by (auto simp: gs_def last_map last_remdups_adj)
  then obtain gs0 where gs: "gs = gs0 @ [tag (last ps)]" by (metis append_butlast_last_id)
  then obtain cs0 c where cs: "cs = cs0 @ [c]" and all0: "list_all2 (entry ps) gs0 cs0" and e: "entry ps (tag (last ps)) c"
    using all by (auto simp: list_all2_append1 list_all2_Cons1)
  have pid: "gen_pid (t_gen c) \<noteq> 0" using entry_pid [OF e] assms(2) l by simp
  show ?thesis
  proof (cases "tag (last ps) = tag p")
    case True
    have "cum_step differ label p cur j = Some (cs0 @ accumulate p c # replicate k tstat0, j)"
      using e True by (simp add: cum_step_def differ entry_def cur cs j)
    moreover have same: "remdups_adj (map tag (ps @ [p])) = gs"
      using True assms(2) by (simp add: remdups_adj_snoc last_map gs_def)
    have "tag p \<notin> set gs0" using d gs True unfolding same by simp
    then have "list_all2 (entry (ps @ [p])) gs (cs0 @ [accumulate p c])"
      using entries_other [OF all0] entry_accumulate [of ps p c] e True by (simp add: gs list_all2_appendI)
    then have "groups (ps @ [p]) (cs0 @ accumulate p c # replicate k tstat0) j"
      unfolding groups_def same by (intro exI [of _ "cs0 @ [accumulate p c]"] exI [of _ k]) (simp add: j cs)
    ultimately show ?thesis by (simp add: cur cs)
  next
    case False
    have new: "remdups_adj (map tag (ps @ [p])) = gs @ [tag p]"
      using False assms(2) by (simp add: remdups_adj_snoc last_map gs_def)
    have fresh: "tag p \<notin> set gs" using d unfolding new by simp
    have "length gs \<le> length ps" unfolding gs_def by (metis length_map remdups_adj_length)
    then have "length cs < length cur" using list_all2_lengthD [OF all] l by simp
    then obtain m where k: "k = Suc m" using cur by (cases k) auto
    have "cum_step differ label p cur j = Some (cs @ accumulate p (label p tstat0) # replicate m tstat0, length cs)"
      using e False pid by (simp add: cum_step_def differ entry_def cur cs j k nth_append list_update_append)
    moreover have "list_all2 (entry (ps @ [p])) (gs @ [tag p]) (cs @ [accumulate p (label p tstat0)])"
      using entries_other [OF all fresh] entry_fresh [of p ps "label p tstat0"] fresh
      by (simp add: tag_label totals_label gs_def list_all2_appendI)
    then have "groups (ps @ [p]) (cs @ accumulate p (label p tstat0) # replicate m tstat0) (length cs)"
      unfolding groups_def new by (intro exI [of _ "cs @ [accumulate p (label p tstat0)]"] exI [of _ m]) simp
    ultimately show ?thesis by (simp add: cur k)
  qed
qed

lemma groups_end:
  assumes "groups ps cur j" and "ps \<noteq> []" and "length ps < 2 ^ 32"
  shows "j < length cur" "gen_pid (t_gen (cur ! j)) \<noteq> 0" "list_all2 (entry ps) (remdups_adj (map tag ps)) (take (j + 1) cur)"
proof -
  define gs where "gs = remdups_adj (map tag ps)"
  obtain cs k where cur: "cur = cs @ replicate k tstat0" and all: "list_all2 (entry ps) gs cs" and j: "j = length cs - 1"
    using assms(1) by (auto simp: groups_def gs_def)
  have gs: "last gs = tag (last ps)" "gs \<noteq> []" using assms(2) by (auto simp: gs_def last_map last_remdups_adj)
  then have "cs \<noteq> []" using all by auto
  then obtain cs0 c where cs: "cs = cs0 @ [c]" by (metis append_butlast_last_id)
  have "entry ps (last gs) c" using all gs(2) by (auto simp: cs list_all2_append2 list_all2_Cons2)
  then have "entry ps (tag (last ps)) c" using gs(1) by simp
  then show "j < length cur" "gen_pid (t_gen (cur ! j)) \<noteq> 0" "list_all2 (entry ps) (remdups_adj (map tag ps)) (take (j + 1) cur)"
    using entry_pid [of ps "last ps" c] assms all by (simp_all add: cur cs j gs_def)
qed

lemma cum_step_extends:
  assumes "groups ps cur j" "ps = [] \<Longrightarrow> cur = replicate (length cur) tstat0" "length cur < 2 ^ 32"
    and "length (ps @ [q]) \<le> length cur" and "distinct (remdups_adj (map tag (ps @ [q])))"
  shows "\<exists>cur' j'. cum_step differ label q cur j = Some (cur', j') \<and> length cur' = length cur \<and> groups (ps @ [q]) cur' j'"
proof (cases "ps = []")
  case True
  then have "j = 0" using assms(1) by (simp add: groups_def)
  then show ?thesis using cum_step_first [of "length cur" q] assms(2,4) True by fastforce
next
  case False
  then show ?thesis using cum_step_groups assms by blast
qed

lemma cum_loop_groups:
  assumes "groups ps cur j" "ps = [] \<Longrightarrow> cur = replicate (length cur) tstat0" "0 < length cur" "length cur < 2 ^ 32"
    and "\<forall>q\<in>set qs. supp q \<noteq> None"
    and "length (ps @ filter (selected supp sx) qs) \<le> length cur"
    and "distinct (remdups_adj (map tag (ps @ filter (selected supp sx) qs)))"
  shows "\<exists>cur' n. cum_loop differ label supp sx qs cur j = Some (cur', n) \<and> length cur' = length cur \<and> n \<le> length cur \<and>
    list_all2 (entry (ps @ filter (selected supp sx) qs)) (remdups_adj (map tag (ps @ filter (selected supp sx) qs))) (take n cur')"
  using assms
proof (induction qs arbitrary: ps cur j)
  case Nil
  show ?case
  proof (cases "ps = []")
    case True
    then have "j = 0" using Nil(1) by (simp add: groups_def)
    moreover have "cur ! 0 = tstat0" using Nil(2) [OF True] Nil(3) by (metis nth_replicate)
    ultimately show ?thesis using Nil(3) True by simp
  next
    case False
    then show ?thesis using groups_end [OF Nil(1) False] Nil(4,6) by simp
  qed
next
  case (Cons q qs)
  show ?case
  proof (cases "selected supp sx q")
    case True
    then have *: "distinct (remdups_adj (map tag (ps @ [q])))"
      using Cons.prems(7) distinct_remdups_adj_prefix [of "map tag (ps @ [q])" "map tag (filter (selected supp sx) qs)"] by simp
    obtain cur' j' where s: "cum_step differ label q cur j = Some (cur', j')" "length cur' = length cur" "groups (ps @ [q]) cur' j'"
      using cum_step_extends [OF Cons.prems(1,2,4) _ *] Cons.prems(6) True by auto
    have "cum_loop differ label supp sx (q # qs) cur j = cum_loop differ label supp sx qs cur' j'"
      using True s(1) by (auto simp: selected_def)
    then show ?thesis using Cons.IH [OF s(3)] Cons.prems(3-7) s(2) True by simp
  next
    case False
    then have "cum_loop differ label supp sx (q # qs) cur j = cum_loop differ label supp sx qs cur j"
      using Cons.prems(5) by (auto simp: selected_def)
    then show ?thesis using Cons.IH [OF Cons.prems(1,2)] Cons.prems(3-7) False by simp
  qed
qed

end

text \<open>Grouping after sorting: the order has to keep the members of a group together.\<close>

locale ordered_grouping = grouping differ label tag + three_way cmp key
  for differ :: "tstat \<Rightarrow> tstat \<Rightarrow> bool" and label :: "tstat \<Rightarrow> tstat \<Rightarrow> tstat" and tag :: "tstat \<Rightarrow> 'k"
    and cmp :: "tstat \<Rightarrow> tstat \<Rightarrow> int" and key :: "tstat \<Rightarrow> 'o::linorder" +
  assumes key_tag: "key p = key q \<longleftrightarrow> tag p = tag q"
begin

lemma sorted_groups: "sorted (map key xs) \<Longrightarrow> distinct (remdups_adj (map tag xs))"
proof (induction xs rule: induct_list012)
  case (3 x y zs)
  have "tag x \<notin> tag ` set (y # zs)" if "tag x \<noteq> tag y"
  proof
    assume "tag x \<in> tag ` set (y # zs)"
    then obtain z where z: "z \<in> set (y # zs)" "key x = key z" using key_tag by auto
    have "key x \<le> key y" "key y \<le> key z" using 3(3) z(1) by auto
    then have "key x = key y" using z(2) by simp
    then show False using that key_tag by simp
  qed
  then show ?case using 3 by simp
qed auto

theorem cum_by_tag:
  assumes "qsorts cmp qs" and "procs \<noteq> []" and "length procs < 2 ^ 32" and "\<forall>p\<in>set procs. supp p \<noteq> None"
  shows "\<exists>cur n. cum_loop differ label supp sx (qs procs) (replicate (length procs) tstat0) 0 = Some (cur, n) \<and>
    mset (qs procs) = mset procs \<and> n \<le> length procs \<and> distinct (map tag (take n cur)) \<and>
    set (map tag (take n cur)) = tag ` {p \<in> set procs. selected supp sx p} \<and>
    (\<forall>c\<in>set (take n cur). totals (filter (\<lambda>p. selected supp sx p \<and> tag p = tag c) procs) c)"
proof -
  define sel where "sel = filter (selected supp sx) (qs procs)"
  have m: "mset (qs procs) = mset procs" and so: "sorted (map key (qs procs))"
    using assms(1) by (simp_all add: qsorts_def ordered_iff)
  have l: "length (qs procs) = length procs" "set (qs procs) = set procs" using m by (metis size_mset, metis set_mset_mset)
  have "distinct (remdups_adj (map tag sel))"
    unfolding sel_def using so by (intro sorted_groups) (simp add: sorted_map sorted_wrt_filter)
  moreover have "length sel \<le> length procs" unfolding sel_def using l by (metis length_filter_le)
  ultimately obtain cur n where c: "cum_loop differ label supp sx (qs procs) (replicate (length procs) tstat0) 0 = Some (cur, n)"
    "length cur = length procs" "n \<le> length procs" "list_all2 (entry sel) (remdups_adj (map tag sel)) (take n cur)"
    using cum_loop_groups [OF groups_Nil, of "length procs" "qs procs" supp sx] assms l by (auto simp: sel_def)
  have tags: "map tag (take n cur) = remdups_adj (map tag sel)"
    using c(4) by (induction rule: list_all2_induct) (auto simp: entry_def)
  have "totals (filter (\<lambda>p. selected supp sx p \<and> tag p = tag e) procs) e" if "e \<in> set (take n cur)" for e
  proof -
    have "totals (filter (\<lambda>p. tag p = tag e) sel) e"
      using c(4) that by (auto simp: list_all2_conv_all_nth in_set_conv_nth entry_def)
    moreover have "mset (filter (\<lambda>p. tag p = tag e) sel) = mset (filter (\<lambda>p. selected supp sx p \<and> tag p = tag e) procs)"
      using m by (simp add: sel_def conj_commute)
    ultimately show ?thesis using totals_mset by blast
  qed
  moreover have "distinct (map tag (take n cur))" "set (map tag (take n cur)) = tag ` {p \<in> set procs. selected supp sx p}"
    unfolding tags using \<open>distinct (remdups_adj (map tag sel))\<close> by (simp_all add: sel_def l)
  ultimately show ?thesis using c(1,3) m by blast
qed

end

interpretation users: ordered_grouping "\<lambda>c p. gen_ruid (t_gen c) \<noteq> gen_ruid (t_gen p)"
  "\<lambda>p c. c\<lparr>t_gen := (t_gen c)\<lparr>gen_ruid := gen_ruid (t_gen p)\<rparr>\<rparr>" "\<lambda>p. gen_ruid (t_gen p)" compusr
  "\<lambda>p. sint (gen_ruid (t_gen p))"
  by unfold_locales (auto simp: accumulate_def totals_def Let_def intro: signed_word_eqI)

lemma string_key_inj: "string_key s = string_key s' \<longleftrightarrow> s = s'"
  by (simp add: inj_map_eq_map inj_on_def)

interpretation progs: ordered_grouping
  "\<lambda>c p. strcmp (cstr (gen_name (t_gen c))) (cstr (gen_name (t_gen p))) \<noteq> 0"
  "\<lambda>p c. c\<lparr>t_gen := (t_gen c)\<lparr>gen_name := strcpy (gen_name (t_gen c)) (gen_name (t_gen p))\<rparr>\<rparr>"
  "\<lambda>p. cstr (gen_name (t_gen p))" compnam "\<lambda>p. string_key (cstr (gen_name (t_gen p)))"
  by unfold_locales (use by_name.equal in \<open>simp_all add: accumulate_def totals_def Let_def string_key_inj compnam_def\<close>)

interpretation conts: ordered_grouping
  "\<lambda>c p. strcmp (cstr (gen_container (t_gen c))) (cstr (gen_container (t_gen p))) \<noteq> 0"
  "\<lambda>p c. c\<lparr>t_gen := (t_gen c)\<lparr>gen_container := strcpy (gen_container (t_gen c)) (gen_container (t_gen p))\<rparr>\<rparr>"
  "\<lambda>p. cstr (gen_container (t_gen p))" compcon "\<lambda>p. string_key (cstr (gen_container (t_gen p)))"
  by unfold_locales (use by_container.equal in \<open>simp_all add: accumulate_def totals_def Let_def string_key_inj compcon_def\<close>)

section \<open>Properties\<close>

text \<open>
  C23: \<open>cumusers\<close>, on a zeroed array as long as the list of processes, stays inside the array and ends with one
  entry for every user that has a selected process, and no other.  The entry of a user counts the user's selected
  processes and holds the sums of their threads, processor times, transferred volumes and packets, and of the memory of those that have
  not exited; the proportional memory is invalid as soon as it is for one of them.  This holds for every \<open>qsort\<close>
  that fulfils its contract, which is free to order the processes of one user as it likes.
\<close>

theorem cumusers_per_user:
  assumes "qsorts compusr (qsort compusr)" and "procs \<noteq> []" and "length procs < 2 ^ 32" and "\<forall>p\<in>set procs. supp p \<noteq> None"
  shows "\<exists>procs' users n. cumusers qsort supp sx procs (replicate (length procs) tstat0) = Some (procs', users, n) \<and>
    mset procs' = mset procs \<and> n \<le> length procs \<and> distinct (map (\<lambda>c. gen_ruid (t_gen c)) (take n users)) \<and>
    set (map (\<lambda>c. gen_ruid (t_gen c)) (take n users)) = (\<lambda>p. gen_ruid (t_gen p)) ` {p \<in> set procs. selected supp sx p} \<and>
    (\<forall>c\<in>set (take n users). totals (filter (\<lambda>p. selected supp sx p \<and> gen_ruid (t_gen p) = gen_ruid (t_gen c)) procs) c)"
  using users.cum_by_tag [OF assms, of sx] by (auto simp: cumusers_def)

definition a_task :: "i32 \<Rightarrow> i32 \<Rightarrow> count_t \<Rightarrow> tstat" where
  "a_task pid uid cpu = tstat0\<lparr>t_gen := gen0\<lparr>gen_pid := pid, gen_ruid := uid\<rparr>, t_cpu := cpu0\<lparr>cpu_utime := cpu\<rparr>\<rparr>"

theorem cumusers_per_user_witness:
  "\<exists>procs' users n. cumusers isort (\<lambda>_. Some False) False
      [a_task 7 500 3, a_task 8 0 4, a_task 9 500 6] (replicate 3 tstat0) = Some (procs', users, n) \<and> n \<le> 3 \<and>
    set (map (\<lambda>c. gen_ruid (t_gen c)) (take n users)) = {0, 500}"
proof -
  let ?ps = "[a_task 7 500 3, a_task 8 0 4, a_task 9 500 6]"
  have "{p \<in> set ?ps. selected (\<lambda>_. Some False) False p} = set ?ps" by (auto simp: selected_def)
  then show ?thesis
    using cumusers_per_user [of isort ?ps "\<lambda>_. Some False" False]
      by_user.isort_qsorts
    by (auto simp: a_task_def numeral_3_eq_3)
qed

text \<open>
  \<open>cumprogs\<close> and \<open>cumconts\<close> promise the same for the processes of one program name and of one container.
\<close>

theorem cumprogs_cumconts_per_name:
  assumes "qsorts compnam (qsort compnam)" and "qsorts compcon (qsort compcon)"
    and "procs \<noteq> []" and "length procs < 2 ^ 32" and "\<forall>p\<in>set procs. supp p \<noteq> None"
  shows "(\<exists>procs' progs n. cumprogs qsort supp sx procs (replicate (length procs) tstat0) = Some (procs', progs, n) \<and>
      mset procs' = mset procs \<and> n \<le> length procs \<and> distinct (map (\<lambda>c. cstr (gen_name (t_gen c))) (take n progs)) \<and>
      set (map (\<lambda>c. cstr (gen_name (t_gen c))) (take n progs)) = (\<lambda>p. cstr (gen_name (t_gen p))) ` {p \<in> set procs. selected supp sx p} \<and>
      (\<forall>c\<in>set (take n progs).
         totals (filter (\<lambda>p. selected supp sx p \<and> cstr (gen_name (t_gen p)) = cstr (gen_name (t_gen c))) procs) c)) \<and>
    (\<exists>procs' conts n. cumconts qsort supp sx procs (replicate (length procs) tstat0) = Some (procs', conts, n) \<and>
      mset procs' = mset procs \<and> n \<le> length procs \<and> distinct (map (\<lambda>c. cstr (gen_container (t_gen c))) (take n conts)) \<and>
      set (map (\<lambda>c. cstr (gen_container (t_gen c))) (take n conts)) =
        (\<lambda>p. cstr (gen_container (t_gen p))) ` {p \<in> set procs. selected supp sx p} \<and>
      (\<forall>c\<in>set (take n conts).
         totals (filter (\<lambda>p. selected supp sx p \<and> cstr (gen_container (t_gen p)) = cstr (gen_container (t_gen c))) procs) c))"
proof
  show "\<exists>procs' progs n. cumprogs qsort supp sx procs (replicate (length procs) tstat0) = Some (procs', progs, n) \<and>
      mset procs' = mset procs \<and> n \<le> length procs \<and> distinct (map (\<lambda>c. cstr (gen_name (t_gen c))) (take n progs)) \<and>
      set (map (\<lambda>c. cstr (gen_name (t_gen c))) (take n progs)) = (\<lambda>p. cstr (gen_name (t_gen p))) ` {p \<in> set procs. selected supp sx p} \<and>
      (\<forall>c\<in>set (take n progs).
         totals (filter (\<lambda>p. selected supp sx p \<and> cstr (gen_name (t_gen p)) = cstr (gen_name (t_gen c))) procs) c)"
    using progs.cum_by_tag [OF assms(1,3-5), of sx] by (auto simp: cumprogs_def)
  show "\<exists>procs' conts n. cumconts qsort supp sx procs (replicate (length procs) tstat0) = Some (procs', conts, n) \<and>
      mset procs' = mset procs \<and> n \<le> length procs \<and> distinct (map (\<lambda>c. cstr (gen_container (t_gen c))) (take n conts)) \<and>
      set (map (\<lambda>c. cstr (gen_container (t_gen c))) (take n conts)) =
        (\<lambda>p. cstr (gen_container (t_gen p))) ` {p \<in> set procs. selected supp sx p} \<and>
      (\<forall>c\<in>set (take n conts).
         totals (filter (\<lambda>p. selected supp sx p \<and> cstr (gen_container (t_gen p)) = cstr (gen_container (t_gen c))) procs) c)"
    using conts.cum_by_tag [OF assms(2,3-5), of sx] by (auto simp: cumconts_def)
qed

theorem cumprogs_cumconts_per_name_witness:
  "(\<exists>procs' progs n. cumprogs isort (\<lambda>_. Some False) False [a_task 7 500 3] [tstat0] = Some (procs', progs, n) \<and> n \<le> 1) \<and>
   (\<exists>procs' conts n. cumconts isort (\<lambda>_. Some False) False [a_task 7 500 3] [tstat0] = Some (procs', conts, n) \<and> n \<le> 1)"
proof -
  have "replicate (length [a_task 7 500 3]) tstat0 = [tstat0]" "length [a_task 7 500 3] < 2 ^ 32"
    "length [a_task 7 500 3] = 1" by simp_all
  then show ?thesis
    using cumprogs_cumconts_per_name [OF by_name.isort_qsorts by_container.isort_qsorts,
      of "[a_task 7 500 3]" "\<lambda>_. Some False" False] by fastforce
qed

text \<open>Without processes the entry behind the empty array is read.\<close>

lemma cumusers_empty: "qsort compusr [] = [] \<Longrightarrow> cumusers qsort supp sx [] [] = None"
  by (simp add: cumusers_def aget_def)

lemma user_search_stop:
  "USERSTUB \<in> set us \<Longrightarrow> user_search us ruid = Some (if ruid \<in> set (takeWhile (\<lambda>u. u \<noteq> USERSTUB) us) then ruid else USERSTUB)"
  by (induction us) auto

lemma pid_search_stop:
  "0 \<in> set ps \<Longrightarrow> pid_search ps pid = Some (if pid \<in> set (takeWhile (\<lambda>p. p \<noteq> 0) ps) then pid else 0)"
  by (induction ps) auto

text \<open>
  With a selection whose arrays are terminated, \<open>procsuppress\<close> lets a process through exactly when it belongs to one of
  the chosen users (or none is chosen), has one of the chosen process ids, its name and its command line (its name when that is
  empty) match the patterns, and it is in the chosen container (\<open>H\<close>: in none).
\<close>

theorem procsuppress_selects:
  assumes "USERSTUB \<in> set (sel_userid sel)" and "0 \<in> set (sel_pid sel)" and "sel_container sel \<noteq> []"
    and "gen_ruid (t_gen p) \<noteq> USERSTUB" and "gen_pid (t_gen p) \<noteq> 0"
  shows "procsuppress regexec sel p = Some (\<not>
    (let users = takeWhile (\<lambda>u. u \<noteq> USERSTUB) (sel_userid sel); pids = takeWhile (\<lambda>q. q \<noteq> 0) (sel_pid sel); g = t_gen p in
     (users = [] \<or> gen_ruid g \<in> set users) \<and> (pids = [] \<or> gen_pid g \<in> set pids) \<and>
     (sel_prognamesz sel = 0 \<or> \<not> regexec (sel_progregex sel) (cstr (gen_name g))) \<and>
     (sel_argnamesz sel = 0 \<or>
        \<not> regexec (sel_argregex sel) (if cnonempty (gen_cmdline g) then cstr (gen_cmdline g) else cstr (gen_name g))) \<and>
     (cstr (sel_container sel) = [] \<or>
        (if hd (sel_container sel) = CHR ''H'' then \<not> cnonempty (gen_container g)
         else take 12 (sel_container sel) = take 12 (gen_container g)))))"
proof -
  obtain u us where u: "sel_userid sel = u # us" using assms(1) by (cases "sel_userid sel") auto
  obtain q qs where q: "sel_pid sel = q # qs" using assms(2) by (cases "sel_pid sel") auto
  obtain c cs where c: "sel_container sel = c # cs" using assms(3) by (cases "sel_container sel") auto
  define users where "users = takeWhile (\<lambda>u. u \<noteq> USERSTUB) (sel_userid sel)"
  define pids where "pids = takeWhile (\<lambda>q. q \<noteq> 0) (sel_pid sel)"
  have none: "users = [] \<longleftrightarrow> u = USERSTUB" "pids = [] \<longleftrightarrow> q = 0" by (simp_all add: users_def pids_def u q)
  have "(if u \<noteq> USERSTUB then do { x \<leftarrow> user_search (sel_userid sel) (gen_ruid (t_gen p)); Some (x \<noteq> gen_ruid (t_gen p)) }
      else Some False) = Some (\<not> (users = [] \<or> gen_ruid (t_gen p) \<in> set users))"
    using user_search_stop [OF assms(1), of "gen_ruid (t_gen p)"] assms(4) by (simp add: none flip: users_def)
  moreover have "(if truth q then do { x \<leftarrow> pid_search (sel_pid sel) (gen_pid (t_gen p)); Some (x \<noteq> gen_pid (t_gen p)) }
      else Some False) = Some (\<not> (pids = [] \<or> gen_pid (t_gen p) \<in> set pids))"
    using pid_search_stop [OF assms(2), of "gen_pid (t_gen p)"] assms(5) by (simp add: none flip: pids_def)
  moreover have "aget (sel_userid sel) 0 = Some u" "aget (sel_pid sel) 0 = Some q" "aget (sel_container sel) 0 = Some c"
    by (simp_all add: u q c)
  ultimately show ?thesis
    unfolding procsuppress_def Let_def users_def [symmetric] pids_def [symmetric]
    by (simp add: c del: takeWhile_eq_Nil_iff)
qed

theorem procsuppress_selects_witness:
  "procsuppress (\<lambda>pattern s. s \<noteq> pattern) \<lparr>sel_userid = [0, USERSTUB], sel_pid = [0], sel_prognamesz = 0, sel_progregex = [],
     sel_argnamesz = 0, sel_argregex = [], sel_container = [NUL]\<rparr> (a_task 7 500 3) = Some True"
  using procsuppress_selects [of "\<lparr>sel_userid = [0, USERSTUB], sel_pid = [0], sel_prognamesz = 0, sel_progregex = [],
     sel_argnamesz = 0, sel_argregex = [], sel_container = [NUL]\<rparr>" "a_task 7 500 3" "\<lambda>pattern s. s \<noteq> pattern"]
  by (simp add: a_task_def USERSTUB_def)

text \<open>The selected processes of the normal view, in their order.\<close>

lemma sellist_loop_filter:
  "\<forall>p\<in>set ps. supp p \<noteq> None \<Longrightarrow> sellist_loop supp sx ps = Some (filter (selected supp sx) ps)"
  by (induction ps) (auto simp: selected_def)

end
