(* ===== verification/Acctproc.thy ===== *)
theory Acctproc
  imports Task_Types
begin

text \<open>
  Process accounting of \<^verbatim>\<open>src/Qt/FakeAtop/acctproc.c\<close>: the expansion of compressed numbers, counting the records
  that were written since the previous sample, and reading them, either from one accounting file or from the sequence of
  shadow files of \<^verbatim>\<open>atopacctd\<close>.

  The contents of the files, whether a shadow file can be opened and locked, and the value of the semaphore are
  parameters.  A file is the list of its bytes; the offset of the descriptor is kept apart from \<open>acctsize\<close>, as in the code.
  Records have the layout of the structures for 64-bit little-endian machines.
\<close>

section \<open>Records\<close>

type_synonym comp_t = "16 word"

fun acctexp_loop :: "nat \<Rightarrow> count_t \<Rightarrow> count_t" where
  "acctexp_loop 0 val = val"
| "acctexp_loop (Suc exp) val = acctexp_loop exp (push_bit 3 val)"

definition acctexp :: "comp_t \<Rightarrow> count_t" where
  "acctexp ct =
     (let exp = drop_bit 13 (ucast ct) AND 7 :: count_t; val = ucast ct AND 0x1fff
      in acctexp_loop (unat exp) val)"

definition le16 :: "byte list \<Rightarrow> nat \<Rightarrow> 16 word" where
  "le16 rec i = ucast (rec ! i) + push_bit 8 (ucast (rec ! (i + 1)))"

definition le32 :: "byte list \<Rightarrow> nat \<Rightarrow> 32 word" where
  "le32 rec i = ucast (le16 rec i) + push_bit 16 (ucast (le16 rec (i + 2)))"

text \<open>A \<open>float\<close> converted to an integer; \<open>None\<close> when the integer does not fit.\<close>

definition float_to_time :: "32 word \<Rightarrow> time_t option" where
  "float_to_time w =
     (let e = unat (drop_bit 23 w AND 0xff); m = 2 ^ 23 + unat (w AND 0x7fffff);
          n = (if e < 127 then 0 else if e \<le> 150 then m div 2 ^ (150 - e) else m * 2 ^ (e - 150))
      in if 190 \<le> e then None else Some (if bit w 31 then - of_nat n else of_nat n))"

text \<open>
  \<open>strcpy(api->gen.name, ac_comm)\<close> for a name at offset \<open>i\<close> of the record; \<open>None\<close> when it is not terminated inside
  the record or does not fit.
\<close>

definition copy_name :: "byte list \<Rightarrow> nat \<Rightarrow> gen \<Rightarrow> gen option" where
  "copy_name rec i g =
     (let comm = map (\<lambda>b. char_of (unat b)) (drop i rec) in
      if NUL \<in> set comm \<and> length (cstr comm) < length (gen_name g) then Some (g\<lparr>gen_name := strcpy (gen_name g) comm\<rparr>) else None)"

text \<open>The layouts \<open>struct acct\<close> and \<open>struct acct_v3\<close>, both of 64 bytes.\<close>

definition fill_v2 :: "byte list \<Rightarrow> tstat \<Rightarrow> tstat option" where
  "fill_v2 rec api = do {
     let g = (t_gen api)\<lparr>gen_state := of_char (CHR ''E''), gen_nthr := 1, gen_isproc := 1, gen_pid := 0, gen_tgid := 0,
       gen_ppid := 0, gen_excode := le32 rec 32, gen_ruid := ucast (le16 rec 2), gen_rgid := ucast (le16 rec 4),
       gen_btime := ucast (le32 rec 8), gen_elaps := ucast (le16 rec 16)\<rparr>;
     g \<leftarrow> copy_name rec 36 g;
     Some (api\<lparr>t_gen := g,
       t_cpu := (t_cpu api)\<lparr>cpu_stime := acctexp (le16 rec 14), cpu_utime := acctexp (le16 rec 12)\<rparr>,
       t_mem := (t_mem api)\<lparr>mem_minflt := acctexp (le16 rec 24), mem_majflt := acctexp (le16 rec 26)\<rparr>,
       t_dsk := (t_dsk api)\<lparr>dsk_rio := acctexp (le16 rec 22)\<rparr>\<rparr>)
   }"

definition fill_v3 :: "byte list \<Rightarrow> tstat \<Rightarrow> tstat option" where
  "fill_v3 rec api = do {
     elaps \<leftarrow> float_to_time (le32 rec 28);
     let g = (t_gen api)\<lparr>gen_state := of_char (CHR ''E''), gen_pid := le32 rec 16, gen_tgid := le32 rec 16,
       gen_ppid := le32 rec 20, gen_nthr := 1, gen_isproc := 1, gen_excode := le32 rec 4, gen_ruid := le32 rec 8,
       gen_rgid := le32 rec 12, gen_btime := ucast (le32 rec 24), gen_elaps := elaps\<rparr>;
     g \<leftarrow> copy_name rec 48 g;
     Some (api\<lparr>t_gen := g,
       t_cpu := (t_cpu api)\<lparr>cpu_stime := acctexp (le16 rec 34), cpu_utime := acctexp (le16 rec 32)\<rparr>,
       t_mem := (t_mem api)\<lparr>mem_minflt := acctexp (le16 rec 42), mem_majflt := acctexp (le16 rec 44)\<rparr>,
       t_dsk := (t_dsk api)\<lparr>dsk_rio := acctexp (le16 rec 40)\<rparr>\<rparr>)
   }"

definition fill :: "int \<Rightarrow> byte list \<Rightarrow> tstat \<Rightarrow> tstat option" where
  "fill version rec api = (if version = 2 then fill_v2 rec api else fill_v3 rec api)"

section \<open>State\<close>

datatype acctfile = Pacct | Shadow int

text \<open>What the system answers: contents of the files, shadow files that can be opened and locked, the current sequence number.\<close>

record acctenv =
  contents :: "acctfile \<Rightarrow> byte list"
  lockable :: "int \<Rightarrow> bool"
  curseq :: "int option"

record acctst =
  acctatop :: bool
  acctsize :: int
  acctrecsz :: int
  acctversion :: int
  acctfd :: "acctfile option"
  acctpos :: int
  curshadowseq :: int
  maxshadowrec :: int

definition st_size :: "acctenv \<Rightarrow> acctfile \<Rightarrow> int" where
  "st_size env f = int (length (contents env f))"

section \<open>Counting new records\<close>

text \<open>The result is converted to \<open>unsigned long\<close>.\<close>

definition acctprocnt :: "acctenv \<Rightarrow> acctst \<Rightarrow> u64 \<times> acctst" where
  "acctprocnt env s =
     (case acctfd s of
        None \<Rightarrow> (0, s)
      | Some f \<Rightarrow>
          if maxshadowrec s \<noteq> 0 then
            let numrecs = (st_size env f - acctsize s) sdiv acctrecsz s in
            if st_size env f sdiv acctrecsz s < maxshadowrec s then (of_int numrecs, s)
            else (case curseq env of
                None \<Rightarrow> (of_int numrecs, s)
              | Some newseq \<Rightarrow>
                  if newseq = curshadowseq s then (of_int numrecs, s)
                  else (of_int (numrecs + (newseq - curshadowseq s - 1) * maxshadowrec s +
                    st_size env (Shadow newseq) sdiv acctrecsz s), s))
          else
            let s = (if st_size env f < acctsize s then s\<lparr>acctpos := 0, acctsize := 0\<rparr> else s)
            in (of_int ((st_size env f - acctsize s) sdiv acctrecsz s), s))"

text \<open>
  \<open>acctvers\<close> reads the first record; the result is the return value, or the exit code 8 for an unknown version.  The
  64 bytes of \<open>struct acct\<close> are read whatever the version is.
\<close>

definition acctvers :: "acctenv \<Rightarrow> acctst \<Rightarrow> int + (int \<times> acctst)" where
  "acctvers env s =
     (let content = (case acctfd s of Some f \<Rightarrow> contents env f | None \<Rightarrow> []);
          rec = take 64 (drop (nat (acctpos s)) content);
          s = s\<lparr>acctpos := acctpos s + int (length rec)\<rparr>
      in
      if length rec < 64 then Inr (0, s)
      else
        let v = rec ! 1 AND 0x0f in
        if v = 2 \<or> v = 3 then
          let s = s\<lparr>acctrecsz := 64, acctversion := uint v\<rparr>;
              (n, s) = acctprocnt env s;
              size = sint (n * word_of_int (acctrecsz s))
          in Inr (1, s\<lparr>acctsize := size, acctpos := size\<rparr>)
        else Inl 8)"

section \<open>Shadow files and repositioning\<close>

definition switchshadow :: "acctenv \<Rightarrow> acctst \<Rightarrow> acctst" where
  "switchshadow env s =
     (let s = s\<lparr>curshadowseq := curshadowseq s + 1\<rparr> in
      if lockable env (curshadowseq s) then s\<lparr>acctfd := Some (Shadow (curshadowseq s)), acctpos := 0\<rparr> else s)"

fun switches :: "acctenv \<Rightarrow> nat \<Rightarrow> acctst \<Rightarrow> acctst" where
  "switches env 0 s = s"
| "switches env (Suc n) s = switches env n (switchshadow env s)"

text \<open>The product is one of \<open>unsigned int\<close>.\<close>

definition acctrepos :: "acctenv \<Rightarrow> u32 \<Rightarrow> acctst \<Rightarrow> acctst" where
  "acctrepos env noverflow s =
     (if acctfd s = None then s
      else
        let skip = uint (noverflow * word_of_int (acctrecsz s)) in
        if maxshadowrec s \<noteq> 0 then
          let virtoffset = acctsize s + skip;
              maxshadowsz = maxshadowrec s * acctrecsz s;
              s = s\<lparr>acctsize := virtoffset smod maxshadowsz\<rparr>;
              s = switches env (nat (virtoffset sdiv maxshadowsz)) s
          in s\<lparr>acctpos := acctsize s\<rparr>
        else s\<lparr>acctpos := acctpos s + skip, acctsize := acctsize s + skip\<rparr>)"

section \<open>Reading the records\<close>

text \<open>\<open>read\<close> of one record: the bytes that are there, at most \<open>acctrecsz\<close>; the entry is filled when the record is complete.\<close>

definition read_record :: "acctenv \<Rightarrow> acctst \<Rightarrow> tstat \<Rightarrow> (acctst \<times> tstat) option" where
  "read_record env s api =
     (if acctversion s \<noteq> 2 \<and> acctversion s \<noteq> 3 then Some (s, api)
      else do {
        f \<leftarrow> acctfd s;
        let rec = take (nat (acctrecsz s)) (drop (nat (acctpos s)) (contents env f));
        let s = s\<lparr>acctpos := acctpos s + int (length rec)\<rparr>;
        if int (length rec) < acctrecsz s then Some (s, api)
        else do {
          api \<leftarrow> fill (acctversion s) rec api;
          Some (s, api)
        }
      })"

text \<open>The choice of the file before a record is read.\<close>

definition choose_file :: "acctenv \<Rightarrow> int \<Rightarrow> acctst \<Rightarrow> acctst \<times> int" where
  "choose_file env sz s =
     (if maxshadowrec s \<noteq> 0 \<and> sz \<le> acctsize s
      then let s = switchshadow env s in (s\<lparr>acctsize := 0\<rparr>, case acctfd s of Some f \<Rightarrow> st_size env f | None \<Rightarrow> sz)
      else (s, sz))"

text \<open>The loop over the entries; \<open>sz\<close> is the size of the current file.\<close>

fun photo_loop :: "acctenv \<Rightarrow> int \<Rightarrow> acctst \<Rightarrow> tstat list \<Rightarrow> (acctst \<times> tstat list) option" where
  "photo_loop env sz s [] = Some (s, [])"
| "photo_loop env sz s (api # apis) = do {
     let (s, sz) = choose_file env sz s;
     (s, api) \<leftarrow> read_record env s api;
     (s, apis) \<leftarrow> photo_loop env sz (s\<lparr>acctsize := acctsize s + acctrecsz s\<rparr>) apis;
     Some (s, api # apis)
   }"

definition ACCTMAXFILESZ :: int where "ACCTMAXFILESZ = 200 * 1024 * 1024"
definition ATOPACCTTOT :: int where "ATOPACCTTOT = 100"

text \<open>
  A restart truncates the file when this is the only user.  \<open>semval\<close> is the value of the semaphore, \<open>trunc\<close> tells
  whether truncation succeeds and \<open>drop\<close> whether the privileges can be dropped again.
\<close>

definition acctrestarttrial :: "acctenv \<Rightarrow> int \<Rightarrow> bool \<Rightarrow> bool \<Rightarrow> acctst \<Rightarrow> int + (acctenv \<times> acctst)" where
  "acctrestarttrial env semval trunc dropped s =
     (if \<not> acctatop s then Inr (env, s)
      else case acctfd s of
        None \<Rightarrow> Inr (env, s)
      | Some f \<Rightarrow>
          if acctsize s \<noteq> st_size env f then Inr (env, s)
          else if semval < ATOPACCTTOT - 1 then Inr (env, s)
          else
            let (env, s) = (if trunc then (env\<lparr>contents := (contents env)(f := [])\<rparr>, s\<lparr>acctpos := 0\<rparr>) else (env, s))
            in if \<not> dropped then Inl 42 else Inr (env, s\<lparr>acctsize := 0\<rparr>))"

definition acctphotoproc :: "acctenv \<Rightarrow> int \<Rightarrow> bool \<Rightarrow> bool \<Rightarrow> acctst \<Rightarrow> tstat list \<Rightarrow> nat \<Rightarrow>
    (int + (nat \<times> acctenv \<times> acctst \<times> tstat list)) option" where
  "acctphotoproc env semval trunc dropped s accproc nrprocs =
     (case acctfd s of
        None \<Rightarrow> Some (Inr (0, env, s, accproc))
      | Some f \<Rightarrow>
          if length accproc < nrprocs then None
          else do {
            (s, apis) \<leftarrow> photo_loop env (st_size env f) s (take nrprocs accproc);
            let accproc = apis @ drop nrprocs accproc;
            if ACCTMAXFILESZ < acctsize s \<and> maxshadowrec s = 0
            then (case acctrestarttrial env semval trunc dropped s of
                Inl e \<Rightarrow> Some (Inl e)
              | Inr (env, s) \<Rightarrow> Some (Inr (nrprocs, env, s, accproc)))
            else Some (Inr (nrprocs, env, s, accproc))
          })"

section \<open>Compressed numbers\<close>

lemma acctexp_loop_unat: "unat val * 8 ^ e < 2 ^ 64 \<Longrightarrow> unat (acctexp_loop e val) = unat val * 8 ^ e"
proof (induction e arbitrary: val)
  case (Suc e)
  have "unat val * 8 \<le> unat val * 8 ^ Suc e" by simp
  then have "unat val * 8 < 2 ^ 64" using Suc.prems by (rule le_less_trans)
  then have "unat (push_bit 3 val) = unat val * 8" by (simp add: push_bit_eq_mult unat_word_ariths)
  then show ?case using Suc by (simp add: mult.assoc)
qed simp

text \<open>
  C38: \<open>acctexp\<close> gives the mantissa in the lower 13 bits multiplied by the power of eight in the upper three; the loop ends
  and nothing is lost in 64 bits, for every one of the 65536 compressed values.
\<close>

theorem acctexp_value: "unat (acctexp ct) = unat ct mod 8192 * 8 ^ (unat ct div 8192)"
proof -
  have "unat ct < 2 ^ 16" using unsigned_less [of ct, where ?'a = nat] by simp
  then have d: "unat ct div 8192 \<le> 7" by simp
  have m: "(7 :: count_t) = mask 3" "(0x1fff :: count_t) = mask 13" by (simp_all add: mask_eq_exp_minus_1)
  have "take_bit 64 (unat ct) = unat ct" using \<open>unat ct < 2 ^ 16\<close> by (intro take_bit_nat_eq_self) simp
  then have w: "unat (ucast ct :: count_t) = unat ct" by (simp add: unsigned_ucast_eq)
  have e: "unat (drop_bit 13 (ucast ct) AND 7 :: count_t) = unat ct div 8192"
    unfolding m take_bit_eq_mask [symmetric] using d by (simp add: drop_bit_eq_div take_bit_eq_mod unat_div unat_mod w)
  have v: "unat (ucast ct AND 0x1fff :: count_t) = unat ct mod 8192"
    unfolding m take_bit_eq_mask [symmetric] by (simp add: take_bit_eq_mod unat_mod w)
  have "unat ct mod 8192 * 8 ^ (unat ct div 8192) \<le> 8192 * 8 ^ 7"
    using d by (intro mult_le_mono power_increasing) simp_all
  then show ?thesis using acctexp_loop_unat [of "ucast ct AND 0x1fff" "unat ct div 8192"] by (simp add: acctexp_def e v)
qed

section \<open>Reading every record once\<close>

text \<open>
  The bytes that were not read yet: the rest of the current file and, with shadow files, the files up to the one with
  the given sequence number.
\<close>

definition pending :: "acctenv \<Rightarrow> int \<Rightarrow> acctst \<Rightarrow> byte list" where
  "pending env newest s =
     (case acctfd s of
        None \<Rightarrow> []
      | Some f \<Rightarrow> drop (nat (acctsize s)) (contents env f) @
          (if maxshadowrec s = 0 then []
           else concat (map (\<lambda>q. contents env (Shadow q)) [curshadowseq s + 1..newest])))"

text \<open>
  A state in which reading can go on: the offset of the descriptor is \<open>acctsize\<close>, files hold whole records, and the
  shadow files up to the newest exist; only the newest may still be empty.
\<close>

definition acct_ready :: "acctenv \<Rightarrow> int \<Rightarrow> acctst \<Rightarrow> bool" where
  "acct_ready env newest s \<longleftrightarrow>
     (\<exists>f. acctfd s = Some f \<and> acctpos s = acctsize s \<and> 0 \<le> acctsize s \<and> acctsize s \<le> st_size env f \<and>
        acctrecsz s dvd acctsize s \<and> acctrecsz s dvd st_size env f) \<and>
     0 < acctrecsz s \<and> (acctversion s = 2 \<or> acctversion s = 3) \<and>
     (maxshadowrec s \<noteq> 0 \<longrightarrow> (\<forall>q. curshadowseq s < q \<and> q \<le> newest \<longrightarrow>
        lockable env q \<and> acctrecsz s dvd st_size env (Shadow q) \<and> (q < newest \<longrightarrow> contents env (Shadow q) \<noteq> [])))"

fun chunks :: "nat \<Rightarrow> nat \<Rightarrow> 'a list \<Rightarrow> 'a list list" where
  "chunks k 0 xs = []"
| "chunks k (Suc n) xs = take k xs # chunks k n (drop k xs)"

text \<open>Moving on to the next shadow file keeps what is pending.\<close>

lemma switch_pending:
  assumes "acct_ready env newest s" and "maxshadowrec s \<noteq> 0" and "st_size env (the (acctfd s)) \<le> acctsize s"
    and "pending env newest s \<noteq> []"
  defines "s' \<equiv> (switchshadow env s)\<lparr>acctsize := 0\<rparr>"
  shows "acct_ready env newest s'" "pending env newest s' = pending env newest s"
    "acctfd s' = Some (Shadow (curshadowseq s + 1))" "contents env (Shadow (curshadowseq s + 1)) \<noteq> []"
    "maxshadowrec s' = maxshadowrec s" "acctrecsz s' = acctrecsz s" "acctversion s' = acctversion s"
proof -
  obtain f where f: "acctfd s = Some f" "acctsize s = st_size env f"
    using assms(1,3) by (auto simp: acct_ready_def)
  have p: "pending env newest s = concat (map (\<lambda>q. contents env (Shadow q)) [curshadowseq s + 1..newest])"
    using assms(2) by (simp add: pending_def f st_size_def)
  then have le: "curshadowseq s + 1 \<le> newest" using assms(4) by (metis concat.simps(1) list.simps(8) not_le upto_Nil2)
  have split: "[curshadowseq s + 1..newest] = (curshadowseq s + 1) # [curshadowseq s + 1 + 1..newest]"
    by (rule upto_rec1 [OF le])
  have lock: "lockable env (curshadowseq s + 1)" using assms(1,2) le by (auto simp: acct_ready_def)
  then have s': "s' = s\<lparr>curshadowseq := curshadowseq s + 1, acctfd := Some (Shadow (curshadowseq s + 1)), acctpos := 0, acctsize := 0\<rparr>"
    by (simp add: s'_def switchshadow_def)
  show "contents env (Shadow (curshadowseq s + 1)) \<noteq> []"
  proof (cases "curshadowseq s + 1 = newest")
    case True
    then show ?thesis using assms(4) by (simp add: p)
  next
    case False
    then show ?thesis using assms(1,2) le by (auto simp: acct_ready_def)
  qed
  show "pending env newest s' = pending env newest s" using assms(2) by (simp add: p split) (simp add: pending_def s')
  show "acct_ready env newest s'" using assms(1,2) le by (auto simp: acct_ready_def s' st_size_def)
  show "acctfd s' = Some (Shadow (curshadowseq s + 1))" "maxshadowrec s' = maxshadowrec s" "acctrecsz s' = acctrecsz s"
    "acctversion s' = acctversion s" by (simp_all add: s')
qed

lemma read_next:
  assumes r: "acct_ready env newest s" and p: "pending env newest s \<noteq> []"
    and m: "maxshadowrec s = 0 \<or> acctsize s < st_size env (the (acctfd s))"
    and fill: "fill (acctversion s) (take (nat (acctrecsz s)) (pending env newest s)) api = Some api'"
  shows "\<exists>s'. read_record env s api = Some (s', api') \<and> s' = s\<lparr>acctpos := acctsize s + acctrecsz s\<rparr> \<and>
    acct_ready env newest (s'\<lparr>acctsize := acctsize s' + acctrecsz s'\<rparr>) \<and>
    pending env newest (s'\<lparr>acctsize := acctsize s' + acctrecsz s'\<rparr>) = drop (nat (acctrecsz s)) (pending env newest s)"
proof -
  obtain f where f: "acctfd s = Some f" "acctpos s = acctsize s" "0 \<le> acctsize s" "acctsize s \<le> st_size env f"
    "acctrecsz s dvd acctsize s" "acctrecsz s dvd st_size env f" and k: "0 < acctrecsz s" and v: "acctversion s = 2 \<or> acctversion s = 3"
    using r by (auto simp: acct_ready_def)
  have "acctsize s < st_size env f"
    using m p f by (auto simp: pending_def st_size_def)
  then have room: "acctsize s + acctrecsz s \<le> st_size env f"
    using f(5,6) zdvd_imp_le [of "acctrecsz s" "st_size env f - acctsize s"] by (simp add: dvd_diff)
  define rest where "rest = drop (nat (acctsize s)) (contents env f)"
  have len: "nat (acctrecsz s) \<le> length rest" using room f(3) k by (simp add: rest_def st_size_def)
  have pe: "pending env newest s = rest @ drop (length rest) (pending env newest s)"
    by (simp add: pending_def f(1) rest_def)
  have rec: "take (nat (acctrecsz s)) (pending env newest s) = take (nat (acctrecsz s)) rest"
    using len by (subst pe) simp
  have "read_record env s api = Some (s\<lparr>acctpos := acctsize s + acctrecsz s\<rparr>, api')"
  proof -
    have here: "drop (nat (acctsize s)) (contents env f) = rest" by (simp add: rest_def)
    have full: "int (length (take (nat (acctrecsz s)) rest)) = acctrecsz s" using len k by simp
    show ?thesis using v fill unfolding rec by (auto simp: read_record_def f(1,2) here full Let_def simp del: length_take)
  qed
  moreover have "acct_ready env newest (s\<lparr>acctpos := acctsize s + acctrecsz s, acctsize := acctsize s + acctrecsz s\<rparr>)"
    using r f room k by (auto simp: acct_ready_def)
  moreover have "pending env newest (s\<lparr>acctpos := acctsize s + acctrecsz s, acctsize := acctsize s + acctrecsz s\<rparr>) =
      drop (nat (acctrecsz s)) (pending env newest s)"
    using f(3) k len by (simp add: pending_def f(1) rest_def nat_add_distrib add.commute)
  ultimately show ?thesis by simp
qed

lemma choose_file_ready:
  assumes r: "acct_ready env newest s" and sz: "sz = st_size env (the (acctfd s))" and p: "pending env newest s \<noteq> []"
  shows "\<exists>s'. choose_file env sz s = (s', st_size env (the (acctfd s'))) \<and> acct_ready env newest s' \<and>
    pending env newest s' = pending env newest s \<and> (maxshadowrec s' = 0 \<or> acctsize s' < st_size env (the (acctfd s'))) \<and>
    maxshadowrec s' = maxshadowrec s \<and> acctrecsz s' = acctrecsz s \<and> acctversion s' = acctversion s \<and>
    (maxshadowrec s = 0 \<longrightarrow> acctfd s' = acctfd s)"
proof (cases "maxshadowrec s \<noteq> 0 \<and> sz \<le> acctsize s")
  case True
  note sw = switch_pending [OF r _ _ p, folded sz]
  show ?thesis
    using True sw by (intro exI [of _ "(switchshadow env s)\<lparr>acctsize := 0\<rparr>"]) (simp add: choose_file_def Let_def st_size_def)
next
  case False
  then show ?thesis using r sz by (auto simp: choose_file_def)
qed

lemma photo_loop_reads:
  assumes "acct_ready env newest s" and "sz = st_size env (the (acctfd s))"
    and "nat (acctrecsz s) * length apis \<le> length (pending env newest s)"
    and "map2 (fill (acctversion s)) (chunks (nat (acctrecsz s)) (length apis) (pending env newest s)) apis = map Some outs"
  shows "\<exists>s'. photo_loop env sz s apis = Some (s', outs) \<and> acct_ready env newest s' \<and>
    pending env newest s' = drop (nat (acctrecsz s) * length apis) (pending env newest s) \<and>
    maxshadowrec s' = maxshadowrec s \<and> acctrecsz s' = acctrecsz s \<and> acctversion s' = acctversion s \<and>
    (maxshadowrec s = 0 \<longrightarrow> acctfd s' = acctfd s)"
  using assms
proof (induction apis arbitrary: s sz outs)
  case Nil
  then show ?case by simp
next
  case (Cons api apis)
  define k where "k = nat (acctrecsz s)"
  have k: "0 < k" using Cons.prems(1) by (simp add: k_def acct_ready_def)
  then have "pending env newest s \<noteq> []" using Cons.prems(3) by (auto simp: k_def)
  then obtain s1 where s1: "choose_file env sz s = (s1, st_size env (the (acctfd s1)))" "acct_ready env newest s1"
    "pending env newest s1 = pending env newest s" "maxshadowrec s1 = 0 \<or> acctsize s1 < st_size env (the (acctfd s1))"
    "maxshadowrec s1 = maxshadowrec s" "acctrecsz s1 = acctrecsz s" "acctversion s1 = acctversion s"
    "maxshadowrec s = 0 \<longrightarrow> acctfd s1 = acctfd s"
    using choose_file_ready [OF Cons.prems(1,2)] by blast
  obtain out outs' where outs: "outs = out # outs'" "fill (acctversion s) (take k (pending env newest s)) api = Some out"
    "map2 (fill (acctversion s)) (chunks k (length apis) (drop k (pending env newest s))) apis = map Some outs'"
    using Cons.prems(4) by (auto simp: k_def)
  define s2 where "s2 = s1\<lparr>acctpos := acctsize s1 + acctrecsz s1, acctsize := acctsize s1 + acctrecsz s1\<rparr>"
  have s2: "read_record env s1 api = Some (s1\<lparr>acctpos := acctsize s1 + acctrecsz s1\<rparr>, out)" "acct_ready env newest s2"
    "pending env newest s2 = drop k (pending env newest s)"
    using read_next [OF s1(2) _ s1(4), of api out] outs(2) s1 \<open>pending env newest s \<noteq> []\<close> by (auto simp: s2_def k_def)
  have room: "k * length apis \<le> length (drop k (pending env newest s))" using Cons.prems(3) by (simp add: k_def)
  obtain s' where s': "photo_loop env (st_size env (the (acctfd s1))) s2 apis = Some (s', outs')" "acct_ready env newest s'"
    "pending env newest s' = drop (k * length apis) (drop k (pending env newest s))"
    "maxshadowrec s' = maxshadowrec s" "acctrecsz s' = acctrecsz s" "acctversion s' = acctversion s"
    "maxshadowrec s = 0 \<longrightarrow> acctfd s' = acctfd s"
    using Cons.IH [OF s2(2) refl, of outs'] room outs(3) s1(5-8) s2(3) by (auto simp: s2_def k_def)
  have "photo_loop env sz s (api # apis) = Some (s', outs)"
    using s1(1) s2(1) s'(1) outs(1) by (simp add: s2_def)
  then show ?case using s'(2-7) by (simp add: k_def [symmetric] add.commute)
qed

section \<open>The number of new records\<close>

text \<open>Shadow files are filled completely before the next one is started.\<close>

definition shadows_full :: "acctenv \<Rightarrow> int \<Rightarrow> acctst \<Rightarrow> bool" where
  "shadows_full env newest s \<longleftrightarrow>
     (maxshadowrec s \<noteq> 0 \<longrightarrow> 0 < maxshadowrec s \<and> curseq env = Some newest \<and> curshadowseq s \<le> newest \<and>
        (curshadowseq s < newest \<longrightarrow> maxshadowrec s * acctrecsz s \<le> st_size env (the (acctfd s))) \<and>
        (\<forall>q. curshadowseq s < q \<and> q < newest \<longrightarrow> st_size env (Shadow q) = maxshadowrec s * acctrecsz s))"

lemma length_shadows:
  assumes "a \<le> newest" and "\<forall>q. a \<le> q \<and> q < newest \<longrightarrow> st_size env (Shadow q) = z"
  shows "int (length (concat (map (\<lambda>q. contents env (Shadow q)) [a..newest]))) = (newest - a) * z + st_size env (Shadow newest)"
  using assms
proof (induction "nat (newest - a)" arbitrary: a)
  case 0
  then show ?case by (simp add: st_size_def)
next
  case (Suc n)
  then have "a < newest" by simp
  then have "int (length (concat (map (\<lambda>q. contents env (Shadow q)) [a + 1..newest]))) =
      (newest - (a + 1)) * z + st_size env (Shadow newest)" using Suc by auto
  moreover have "int (length (contents env (Shadow a))) = z" using Suc.prems \<open>a < newest\<close> by (auto simp: st_size_def)
  moreover have "[a..newest] = a # [a + 1..newest]" using \<open>a < newest\<close> by (simp add: upto_rec1)
  ultimately show ?case by (simp add: algebra_simps)
qed

lemma sdiv_pos: "0 \<le> i \<Longrightarrow> 0 < j \<Longrightarrow> i sdiv j = i div (j::int)"
  by (cases "i = 0") (simp_all add: signed_divide_int_def)

lemma acctprocnt_pending:
  assumes r: "acct_ready env newest s" and full: "shadows_full env newest s"
  shows "acctprocnt env s = (of_nat (length (pending env newest s) div nat (acctrecsz s)), s)"
proof -
  obtain f where f: "acctfd s = Some f" "acctsize s \<le> st_size env f" "0 \<le> acctsize s" and k: "0 < acctrecsz s"
    and d: "acctrecsz s dvd acctsize s" "acctrecsz s dvd st_size env f"
    using r by (auto simp: acct_ready_def)
  define rest where "rest = st_size env f - acctsize s"
  have rest: "0 \<le> rest" "int (length (drop (nat (acctsize s)) (contents env f))) = rest" "acctrecsz s dvd rest"
    using f d by (simp_all add: rest_def st_size_def dvd_diff)
  have num: "of_nat (length (pending env newest s) div nat (acctrecsz s)) =
      (of_int (int (length (pending env newest s)) div acctrecsz s) :: u64)"
    using k by (metis of_int_of_nat_eq zdiv_int int_nat_eq less_le)
  show ?thesis
  proof (cases "maxshadowrec s = 0")
    case True
    then have "int (length (pending env newest s)) = rest" using rest by (simp add: pending_def f(1))
    then show ?thesis
      unfolding num using True f rest k by (simp add: acctprocnt_def rest_def [symmetric] sdiv_pos)
  next
    case False
    note fl = full [unfolded shadows_full_def, rule_format, OF False]
    show ?thesis
    proof (cases "curshadowseq s = newest")
      case True
      then have "int (length (pending env newest s)) = rest" using rest by (simp add: pending_def f(1))
      then show ?thesis
        unfolding num using True False f fl rest k by (simp add: acctprocnt_def rest_def [symmetric] sdiv_pos Let_def)
    next
      case neq: False
      define z where "z = maxshadowrec s * acctrecsz s"
      have lt: "curshadowseq s + 1 \<le> newest" using fl neq by simp
      have "int (length (pending env newest s)) = rest + ((newest - (curshadowseq s + 1)) * z + st_size env (Shadow newest))"
        using length_shadows [OF lt, of env z] fl rest False by (simp add: pending_def f(1) z_def)
      also have "\<dots> div acctrecsz s = rest div acctrecsz s + (newest - curshadowseq s - 1) * maxshadowrec s +
          st_size env (Shadow newest) div acctrecsz s"
        using rest(3) k by (simp add: div_plus_div_distrib_dvd_left z_def mult.assoc [symmetric])
      finally have len: "int (length (pending env newest s)) div acctrecsz s = \<dots>" .
      have "z \<le> st_size env f" using fl neq f(1) by (simp add: z_def)
      then have "maxshadowrec s \<le> st_size env f div acctrecsz s"
        using zdiv_mono1 [of z "st_size env f" "acctrecsz s"] k by (simp add: z_def)
      moreover have "0 \<le> st_size env f" "0 \<le> st_size env (Shadow newest)" by (simp_all add: st_size_def)
      ultimately show ?thesis
        unfolding num len using False neq f(1) fl rest(1) k
        by (simp add: acctprocnt_def rest_def [symmetric] sdiv_pos Let_def)
    qed
  qed
qed

section \<open>Samples\<close>

text \<open>
  C24: A sample reads every pending record exactly once.  The number \<open>acctprocnt\<close> gives is that of the records behind the
  current position, over all shadow files up to the newest; \<open>acctphotoproc\<close>, called with this number, fills the entries with these
  records in their order, leaves nothing pending and ends in a state from which the next sample can go on.
\<close>

theorem accounting_sample:
  assumes "acct_ready env newest s" and "shadows_full env newest s"
    and "nat (acctrecsz s) dvd length (pending env newest s)" and "n = length (pending env newest s) div nat (acctrecsz s)"
    and "length accproc = n"
    and "map2 (fill (acctversion s)) (chunks (nat (acctrecsz s)) n (pending env newest s)) accproc = map Some outs"
    and "maxshadowrec s = 0 \<Longrightarrow> st_size env (the (acctfd s)) \<le> ACCTMAXFILESZ"
  shows "\<exists>s'. acctprocnt env s = (of_nat n, s) \<and>
    acctphotoproc env semval trunc dropped s accproc n = Some (Inr (n, env, s', outs)) \<and>
    acct_ready env newest s' \<and> pending env newest s' = []"
proof -
  have k: "0 < acctrecsz s" and fd: "\<exists>f. acctfd s = Some f" using assms(1) by (auto simp: acct_ready_def)
  have len: "nat (acctrecsz s) * n = length (pending env newest s)" using assms(3,4) by simp
  then obtain s' where s': "photo_loop env (st_size env (the (acctfd s))) s accproc = Some (s', outs)" "acct_ready env newest s'"
    "pending env newest s' = []" "maxshadowrec s' = maxshadowrec s" "maxshadowrec s = 0 \<longrightarrow> acctfd s' = acctfd s"
    using photo_loop_reads [OF assms(1) refl, of accproc outs] assms(5,6) by auto
  have "maxshadowrec s = 0 \<longrightarrow> acctsize s' \<le> ACCTMAXFILESZ"
    using s'(2,5) assms(7) fd by (auto simp: acct_ready_def)
  then have "acctphotoproc env semval trunc dropped s accproc n = Some (Inr (n, env, s', outs))"
    using fd s'(1,4) assms(5) by (auto simp: acctphotoproc_def)
  then show ?thesis using acctprocnt_pending [OF assms(1,2)] s'(2,3) assms(4) by auto
qed

definition one_record :: acctenv where
  "one_record = \<lparr>contents = \<lambda>_. replicate 64 0, lockable = \<lambda>_. True, curseq = None\<rparr>"

definition classic_start :: acctst where
  "classic_start = \<lparr>acctatop = True, acctsize = 0, acctrecsz = 64, acctversion = 3, acctfd = Some Pacct, acctpos = 0,
     curshadowseq = 0, maxshadowrec = 0\<rparr>"

theorem accounting_sample_witness:
  "\<exists>out s'. acctprocnt one_record classic_start = (1, classic_start) \<and>
    acctphotoproc one_record 99 True True classic_start [tstat0] 1 = Some (Inr (1, one_record, s', [out])) \<and>
    pending one_record 0 s' = []"
proof -
  have "char_of (0 :: nat) = NUL" by code_simp
  then have "fill 3 (replicate 64 0) tstat0 \<noteq> None"
    by (simp add: fill_def fill_v3_def float_to_time_def copy_name_def le16_def le32_def tstat0_def gen0_def Let_def cstr_def)
  then obtain out where out: "fill 3 (replicate 64 0) tstat0 = Some out" by blast
  have p: "pending one_record 0 classic_start = replicate 64 0"
    by (simp add: pending_def one_record_def classic_start_def)
  have "acct_ready one_record 0 classic_start"
    by (simp add: acct_ready_def one_record_def classic_start_def st_size_def)
  moreover have "shadows_full one_record 0 classic_start" by (simp add: shadows_full_def classic_start_def)
  moreover have "st_size one_record (the (acctfd classic_start)) \<le> ACCTMAXFILESZ"
    by (simp add: st_size_def one_record_def ACCTMAXFILESZ_def)
  moreover have "nat (acctrecsz classic_start) = 64" "acctversion classic_start = 3" by (simp_all add: classic_start_def)
  ultimately show ?thesis
    using accounting_sample [of one_record 0 classic_start 1 "[tstat0]" "[out]" 99 True True] p out by auto
qed

section \<open>The end of the file\<close>

lemma photo_loop_past_end:
  assumes "maxshadowrec s = 0" and "acctfd s = Some f" and "st_size env f \<le> acctpos s" and "0 < acctrecsz s"
  shows "photo_loop env sz s apis = Some (s\<lparr>acctsize := acctsize s + int (length apis) * acctrecsz s\<rparr>, apis)"
  using assms
proof (induction apis arbitrary: s)
  case (Cons api apis)
  have "drop (nat (acctpos s)) (contents env f) = []" using Cons.prems(3) by (simp add: st_size_def)
  then have "read_record env s api = Some (s, api)" using Cons.prems by (simp add: read_record_def)
  then show ?case using Cons by (simp add: choose_file_def algebra_simps)
qed simp

text \<open>
  A read beyond the end of the accounting file does not end the loop: the entries that could not be filled are
  counted, the position moves behind the end of the file, and the next call of \<open>acctprocnt\<close> takes this for a reset of the accounting and
  announces all records of the file again.
\<close>

theorem accounting_past_end:
  assumes "maxshadowrec s = 0" and "acctfd s = Some f" and "acctpos s = st_size env f" and "acctsize s = st_size env f"
    and "0 < acctrecsz s" and "0 < n" and "length accproc = n"
    and "st_size env f + int n * acctrecsz s \<le> ACCTMAXFILESZ"
  shows "\<exists>s'. acctphotoproc env semval trunc dropped s accproc n = Some (Inr (n, env, s', accproc)) \<and>
    acctsize s' = st_size env f + int n * acctrecsz s \<and>
    acctprocnt env s' = (of_int (st_size env f sdiv acctrecsz s), s'\<lparr>acctpos := 0, acctsize := 0\<rparr>)"
proof -
  define s' where "s' = s\<lparr>acctsize := acctsize s + int n * acctrecsz s\<rparr>"
  have "photo_loop env (st_size env f) s accproc = Some (s', accproc)"
    using photo_loop_past_end [of s f env] assms by (simp add: s'_def)
  then have "acctphotoproc env semval trunc dropped s accproc n = Some (Inr (n, env, s', accproc))"
    using assms by (simp add: acctphotoproc_def s'_def)
  moreover have "0 < int n * acctrecsz s" using assms(5,6) by simp
  then have "acctprocnt env s' = (of_int (st_size env f sdiv acctrecsz s), s'\<lparr>acctpos := 0, acctsize := 0\<rparr>)"
    using assms(1,2,4) by (simp add: acctprocnt_def s'_def)
  ultimately show ?thesis using assms(4) by (intro exI [of _ s']) (simp add: s'_def)
qed

theorem accounting_past_end_witness:
  "\<exists>s'. acctphotoproc one_record 99 True True (classic_start\<lparr>acctpos := 64, acctsize := 64\<rparr>) [tstat0] 1 =
      Some (Inr (1, one_record, s', [tstat0])) \<and> fst (acctprocnt one_record s') = 1"
  using accounting_past_end [of "classic_start\<lparr>acctpos := 64, acctsize := 64\<rparr>" Pacct one_record 1 "[tstat0]" 99 True True]
  by (auto simp: classic_start_def one_record_def st_size_def ACCTMAXFILESZ_def signed_divide_int_def)

text \<open>\<open>acctrepos\<close> skips records without reading them.\<close>

lemma acctrepos_skips:
  assumes "maxshadowrec s = 0" and "acctfd s = Some f" and "0 \<le> acctsize s" and "0 \<le> acctrecsz s"
    and "uint m * acctrecsz s < 2 ^ 32"
  shows "pending env newest (acctrepos env m s) = drop (nat (uint m * acctrecsz s)) (pending env newest s)"
proof -
  have "uint (m * word_of_int (acctrecsz s)) = uint m * acctrecsz s mod 2 ^ 32"
    by (simp add: uint_word_ariths unsigned_of_int take_bit_eq_mod mod_mult_right_eq)
  also have "\<dots> = uint m * acctrecsz s" using assms(4,5) by (intro mod_pos_pos_trivial) simp_all
  finally have "uint (m * word_of_int (acctrecsz s)) = uint m * acctrecsz s" .
  then show ?thesis using assms by (simp add: acctrepos_def pending_def Let_def nat_add_distrib add.commute [of "nat (acctsize s)"])
qed

end
