(* ===== verification/Zprocess.thy ===== *)
theory Zprocess
  imports Decimal
begin

text \<open>
  The process monitor \<^verbatim>\<open>src/Qt/ZMonitor/ProcessMornitoring/zprocess.c\<close>: reading \<^verbatim>\<open>/proc/<pid>/stat\<close>,
  the list of processor times from which the use between two rounds is computed, and the scan of \<^verbatim>\<open>/proc\<close>.

  The lines of the files, the time of day and what uninitialised memory holds are parameters.  The percentage that is
  printed is a floating-point quotient of the two differences \<open>readProc\<close> computes; these differences are the
  result here.
\<close>

section \<open>Data\<close>

record time_info =
  ti_pid :: i32
  ti_isFirst :: i32
  ti_utime :: u64
  ti_stime :: u64
  ti_cutime :: u64
  ti_cstime :: u64
  ti_last_time :: i64

text \<open>The variables of \<open>readProc\<close> that are used after \<open>sscanf\<close>.\<close>

record stat =
  st_id :: i32
  st_name :: string
  st_state :: char
  st_utime :: u64
  st_stime :: u64
  st_cutime :: i64
  st_cstime :: i64

section \<open>Reading a line of \<^verbatim>\<open>/proc/<pid>/stat\<close>\<close>

abbreviation skip_space :: "string \<Rightarrow> string" where
  "skip_space s \<equiv> dropWhile isspace s"

text \<open>A number conversion: blanks, a sign, digits; \<open>None\<close> when there are no digits.\<close>

definition scan_num :: "string \<Rightarrow> (int \<times> string) option" where
  "scan_num s =
     (let s = skip_space s;
          (neg, s) = (case s of c # cs \<Rightarrow> if c = CHR ''-'' then (True, cs) else if c = CHR ''+'' then (False, cs) else (False, s)
                      | [] \<Rightarrow> (False, s))
      in case s of
           [] \<Rightarrow> None
         | c # _ \<Rightarrow>
             if \<not> isdigit c then None
             else let (n, rest) = scan_digits 10 0 s in Some (if neg then - int n else int n, rest))"

text \<open>The first numbers of a string, at most \<open>k\<close>, until a conversion fails.\<close>

fun scan_nums :: "nat \<Rightarrow> string \<Rightarrow> int list" where
  "scan_nums 0 s = []"
| "scan_nums (Suc k) s = (case scan_num s of None \<Rightarrow> [] | Some (i, rest) \<Rightarrow> i # scan_nums k rest)"

text \<open>
  \<open>sscanf\<close> with \<open>%d %s %c\<close> and the numbers behind; the times are the eleventh to fourteenth of them.  What is not
  reached keeps its value in \<open>v\<close>.
\<close>

definition scan_stat :: "string \<Rightarrow> stat \<Rightarrow> stat" where
  "scan_stat buffer v =
     (case scan_num buffer of
        None \<Rightarrow> v
      | Some (i, s) \<Rightarrow>
          let v = v\<lparr>st_id := word_of_int i\<rparr>; s = skip_space s; name = takeWhile (\<lambda>c. \<not> isspace c) s in
          if name = [] then v
          else
            let v = v\<lparr>st_name := name\<rparr>; s = skip_space (drop (length name) s) in
            (case s of
               [] \<Rightarrow> v
             | c # s \<Rightarrow>
                 let nums = scan_nums 14 s; set = (\<lambda>i f v. if i < length nums then f (nums ! i) v else v)
                 in set 13 (\<lambda>x v. v\<lparr>st_cstime := word_of_int x\<rparr>)
                   (set 12 (\<lambda>x v. v\<lparr>st_cutime := word_of_int x\<rparr>)
                     (set 11 (\<lambda>x v. v\<lparr>st_stime := word_of_int x\<rparr>)
                       (set 10 (\<lambda>x v. v\<lparr>st_utime := word_of_int x\<rparr>) (v\<lparr>st_state := c\<rparr>))))))"

section \<open>The list of processor times\<close>

text \<open>What is subtracted from the time the entry holds; the sum is one of \<open>unsigned long long\<close>.\<close>

definition cpu_ticks :: "stat \<Rightarrow> u64" where
  "cpu_ticks st = st_utime st + st_stime st + st_cstime st + st_cutime st"

definition used_ticks :: "stat \<Rightarrow> time_info \<Rightarrow> u64" where
  "used_ticks st temp = cpu_ticks st - ti_cstime temp - ti_cutime temp - ti_stime temp - ti_utime temp"

definition set_times :: "stat \<Rightarrow> i64 \<Rightarrow> time_info \<Rightarrow> time_info" where
  "set_times st ms temp = temp\<lparr>ti_cstime := st_cstime st, ti_cutime := st_cutime st, ti_stime := st_stime st,
     ti_utime := st_utime st, ti_last_time := ms\<rparr>"

text \<open>The first loop: the entry with the process id is updated; \<open>None\<close> when there is none.\<close>

fun find_task :: "stat \<Rightarrow> i64 \<Rightarrow> time_info list \<Rightarrow> (time_info list \<times> u64 \<times> i64) option" where
  "find_task st ms [] = None"
| "find_task st ms (temp # ltask) =
     (if ti_pid temp = st_id st then Some (set_times st ms temp # ltask, used_ticks st temp, ms - ti_last_time temp)
      else map_option (\<lambda>(ltask, d). (temp # ltask, d)) (find_task st ms ltask))"

text \<open>
  The update of the list: the new list and, for a known process, the ticks and milliseconds since the previous round.
  \<open>node\<close> is the memory \<open>malloc\<close> returns.  Without a first node the second loop dereferences NULL.
\<close>

definition update_tasks :: "time_info option \<Rightarrow> stat \<Rightarrow> i64 \<Rightarrow> time_info list \<Rightarrow> (time_info list \<times> (u64 \<times> i64) option) option" where
  "update_tasks node st ms ltask =
     (case find_task st ms ltask of
        Some (ltask, d) \<Rightarrow> Some (ltask, Some d)
      | None \<Rightarrow>
          if ltask = [] then None
          else do {
            node \<leftarrow> node;
            Some (ltask @ [set_times st ms (node\<lparr>ti_pid := st_id st\<rparr>)], None)
          })"

section \<open>Reading a process\<close>

definition PATH_PROC :: string where "PATH_PROC = ''/proc''"
definition PROC_STAT :: string where "PROC_STAT = ''/stat''"
definition PROC_STATM :: string where "PROC_STATM = ''/statm''"

text \<open>\<open>sprintf\<close> into \<open>char path[13]\<close>.\<close>

definition sprintf_path :: "string \<Rightarrow> string \<Rightarrow> string option" where
  "sprintf_path pid file = (let s = PATH_PROC @ ''/'' @ pid @ file in if length s + 1 \<le> 13 then Some s else None)"

text \<open>\<open>fs\<close> gives the first line of a file that can be opened; \<open>mem\<close> are the three uninitialised sizes.\<close>

definition readMem :: "(string \<Rightarrow> string option) \<Rightarrow> int list \<Rightarrow> string \<Rightarrow> int list option" where
  "readMem fs mem pid = do {
     path \<leftarrow> sprintf_path pid PROC_STATM;
     Some (case fs path of
        None \<Rightarrow> []
      | Some line \<Rightarrow> let nums = scan_nums 3 line in nums @ drop (length nums) mem)
   }"

definition readProc :: "(string \<Rightarrow> string option) \<Rightarrow> stat \<Rightarrow> int list \<Rightarrow> time_info option \<Rightarrow> i64 \<Rightarrow> string \<Rightarrow> time_info list \<Rightarrow>
    (int \<times> time_info list) option" where
  "readProc fs garbage mem node ms pid ltask = do {
     path \<leftarrow> sprintf_path pid PROC_STAT;
     case fs path of
       None \<Rightarrow> Some (- 1, ltask)
     | Some line \<Rightarrow> do {
         (ltask, d) \<leftarrow> update_tasks node (scan_stat line garbage) ms ltask;
         printed \<leftarrow> readMem fs mem pid;
         Some (1, ltask)
       }
   }"

text \<open>The entries of \<^verbatim>\<open>/proc\<close> that are processes; one round of \<open>getProc\<close> over the directory.\<close>

definition is_process :: "string \<Rightarrow> bool" where
  "is_process d_name \<longleftrightarrow> (\<forall>c\<in>set d_name. isdigit c)"

fun proc_round :: "(string \<Rightarrow> string option) \<Rightarrow> stat \<Rightarrow> int list \<Rightarrow> time_info option \<Rightarrow> i64 \<Rightarrow> string list \<Rightarrow> time_info list \<Rightarrow>
    time_info list option" where
  "proc_round fs garbage mem node ms [] ltask = Some ltask"
| "proc_round fs garbage mem node ms (d # ds) ltask =
     (if \<not> is_process d then proc_round fs garbage mem node ms ds ltask
      else do {
        (_, ltask) \<leftarrow> readProc fs garbage mem node ms d ltask;
        proc_round fs garbage mem node ms ds ltask
      })"

definition first_task :: "time_info \<Rightarrow> time_info list" where
  "first_task node = [node\<lparr>ti_pid := -1\<rparr>]"

section \<open>The list as a map\<close>

definition ticks_of :: "time_info \<Rightarrow> u64" where
  "ticks_of t = ti_cstime t + ti_cutime t + ti_stime t + ti_utime t"

definition lookup :: "time_info list \<Rightarrow> i32 \<Rightarrow> (u64 \<times> i64) option" where
  "lookup l pid = map_option (\<lambda>t. (ticks_of t, ti_last_time t)) (find (\<lambda>t. ti_pid t = pid) l)"

lemma ticks_of_set_times [simp]: "ticks_of (set_times st ms t) = cpu_ticks st" "ti_last_time (set_times st ms t) = ms"
  "ti_pid (set_times st ms t) = ti_pid t"
  by (simp_all add: ticks_of_def set_times_def cpu_ticks_def ac_simps)

lemma used_ticks_diff: "used_ticks st t = cpu_ticks st - ticks_of t"
  by (simp add: used_ticks_def ticks_of_def)

lemma find_task_None: "find_task st ms l = None \<longleftrightarrow> st_id st \<notin> ti_pid ` set l"
  by (induction l) auto

lemma find_task_Some:
  "find_task st ms l = Some (l', t, m) \<Longrightarrow>
     map ti_pid l' = map ti_pid l \<and> st_id st \<in> set (map ti_pid l) \<and>
     lookup l (st_id st) = Some (cpu_ticks st - t, ms - m) \<and>
     lookup l' = (lookup l)(st_id st \<mapsto> (cpu_ticks st, ms))"
proof (induction l arbitrary: l')
  case (Cons a l)
  show ?case
  proof (cases "ti_pid a = st_id st")
    case True
    then show ?thesis using Cons.prems by (auto simp: lookup_def used_ticks_diff fun_eq_iff)
  next
    case False
    then obtain l1 where l1: "find_task st ms l = Some (l1, t, m)" "l' = a # l1" using Cons.prems by auto
    have "lookup (a # xs) = (lookup xs)(ti_pid a \<mapsto> (ticks_of a, ti_last_time a))" for xs
      by (auto simp: lookup_def fun_eq_iff)
    then show ?thesis using Cons.IH [OF l1(1)] False l1(2) by (auto simp: fun_upd_twist)
  qed
qed simp

lemma update_tasks_step:
  assumes "l \<noteq> []"
  shows "\<exists>l'. update_tasks (Some node) st ms l =
      Some (l', map_option (\<lambda>(t, m). (cpu_ticks st - t, ms - m)) (lookup l (st_id st))) \<and>
    l' \<noteq> [] \<and> lookup l' = (lookup l)(st_id st \<mapsto> (cpu_ticks st, ms)) \<and>
    (distinct (map ti_pid l) \<longrightarrow> distinct (map ti_pid l'))"
proof (cases "find_task st ms l")
  case None
  then have new: "st_id st \<notin> ti_pid ` set l" by (simp add: find_task_None)
  have "find (\<lambda>t. ti_pid t = p) (l @ [x]) = (if ti_pid x = p \<and> p \<notin> ti_pid ` set l then Some x else find (\<lambda>t. ti_pid t = p) l)" for p x
    by (induction l) auto
  then have "lookup (l @ [set_times st ms (node\<lparr>ti_pid := st_id st\<rparr>)]) = (lookup l)(st_id st \<mapsto> (cpu_ticks st, ms))"
    using new by (auto simp: lookup_def fun_eq_iff)
  moreover have "lookup l (st_id st) = None" using new by (force simp: lookup_def find_None_iff)
  ultimately show ?thesis using None new assms by (auto simp: update_tasks_def)
next
  case (Some r)
  obtain l' t m where r: "r = (l', t, m)" by (cases r)
  have "map ti_pid l' = map ti_pid l" "lookup l (st_id st) = Some (cpu_ticks st - t, ms - m)"
    "lookup l' = (lookup l)(st_id st \<mapsto> (cpu_ticks st, ms))"
    using find_task_Some [of st ms l l' t m] Some r by auto
  moreover from this have "l' \<noteq> []" using assms by auto
  ultimately show ?thesis using Some r by (auto simp: update_tasks_def)
qed
text \<open>
  The list of processor times is a map from process ids to ticks and time of the last reading.  An update, which
  does not fail as long as there is memory, replaces the entry of the process or appends one, keeps the ids distinct, and reports, for a process that was
  seen before, the ticks and milliseconds since then.
\<close>

theorem update_tasks_map:
  assumes "l \<noteq> []"
  shows "\<exists>l'. update_tasks (Some node) st ms l =
      Some (l', map_option (\<lambda>(t, m). (cpu_ticks st - t, ms - m)) (lookup l (st_id st))) \<and>
    l' \<noteq> [] \<and> lookup l' = (lookup l)(st_id st \<mapsto> (cpu_ticks st, ms)) \<and>
    (distinct (map ti_pid l) \<longrightarrow> distinct (map ti_pid l'))"
  using assms by (rule update_tasks_step)

definition a_stat :: "i32 \<Rightarrow> u64 \<Rightarrow> stat" where
  "a_stat pid t = \<lparr>st_id = pid, st_name = ''(init)'', st_state = CHR ''S'', st_utime = t, st_stime = 0, st_cutime = 0, st_cstime = 0\<rparr>"

definition a_node :: "i32 \<Rightarrow> time_info" where
  "a_node pid = \<lparr>ti_pid = pid, ti_isFirst = 0, ti_utime = 0, ti_stime = 0, ti_cutime = 0, ti_cstime = 0, ti_last_time = 0\<rparr>"

theorem update_tasks_map_witness:
  "\<exists>l'. update_tasks (Some (a_node 0)) (a_stat 7 30) 500 [a_node (-1), a_node 7] = Some (l', Some (30, 500)) \<and>
    lookup l' 7 = Some (30, 500)"
proof -
  have "lookup [a_node (-1), a_node 7] 7 = Some (0, 0)" by (simp add: lookup_def a_node_def ticks_of_def)
  moreover have "st_id (a_stat 7 30) = 7" "cpu_ticks (a_stat 7 30) = 30" by (simp_all add: a_stat_def cpu_ticks_def)
  ultimately show ?thesis using update_tasks_map [of "[a_node (-1), a_node 7]" "a_node 0" "a_stat 7 30" 500] by auto
qed




text \<open>A process that gets the id of a finished one is measured against the times of that one.\<close>

lemma recycled_pid_wraps: "used_ticks (a_stat 7 30) (a_node 7\<lparr>ti_utime := 31\<rparr>) = 2 ^ 64 - 1"
  by (simp add: used_ticks_def cpu_ticks_def a_stat_def a_node_def)

section \<open>The path buffer\<close>

text \<open>
  The array for the path is too small for every process: \<open>readMem\<close> overruns it whatever the process id is, so that \<open>readProc\<close>
  does for every process whose \<^verbatim>\<open>stat\<close> file can be opened; already the first path overruns it for process ids of more than one digit.
\<close>

theorem readProc_overruns:
  assumes "pid \<noteq> []"
  shows "readMem fs mem pid = None \<and> (2 \<le> length pid \<longrightarrow> readProc fs garbage mem node ms pid l = None) \<and>
    (fs (''/proc/'' @ pid @ ''/stat'') \<noteq> None \<longrightarrow> readProc fs garbage mem node ms pid l = None)"
proof -
  have "0 < length pid" using assms by simp
  then have m: "readMem fs mem pid = None" by (simp add: readMem_def sprintf_path_def PATH_PROC_def PROC_STATM_def Let_def)
  then show ?thesis
    by (auto simp: readProc_def sprintf_path_def PATH_PROC_def PROC_STAT_def split: bind_splits option.splits)
qed

theorem readProc_overruns_witness:
  "readMem (\<lambda>_. None) [0, 0, 0] ''1'' = None \<and> readProc (\<lambda>_. None) (a_stat 0 0) [] None 0 ''12'' [] = None"
  using readProc_overruns [of "''1''" "\<lambda>_. None" "[0, 0, 0]"] readProc_overruns [of "''12''" "\<lambda>_. None" "[]" "a_stat 0 0" None 0 "[]"]
  by simp

section \<open>The line of a process\<close>

text \<open>The line as the kernel writes it: the id, the name in parentheses, the state, and numbers.\<close>

definition stat_line :: "nat \<Rightarrow> string \<Rightarrow> char \<Rightarrow> int list \<Rightarrow> string" where
  "stat_line pid comm state nums =
     dec pid @ '' ('' @ comm @ '') '' @ [state] @ concat (map (\<lambda>i. CHR '' '' # decz i) nums) @ [CHR 0x0A]"

definition ends_number :: "string \<Rightarrow> bool" where
  "ends_number s \<longleftrightarrow> (case s of [] \<Rightarrow> True | c # _ \<Rightarrow> \<not> isdigit c)"

lemma dec_head: "\<exists>c cs. dec n = c # cs \<and> isdigit c"
  using dec_digits [of n] by (cases "dec n") (auto simp: isdigit_iff)

lemma scan_digits_dec_rest: "ends_number rest \<Longrightarrow> scan_digits 10 0 (dec n @ rest) = (n, rest)"
  by (cases rest) (simp_all add: scan_digits_append dec_digits scan_digits_dec ends_number_def isdigit_iff)

lemma scan_num_decz:
  assumes "ends_number rest"
  shows "scan_num (decz i @ rest) = Some (i, rest)" "scan_num (CHR '' '' # decz i @ rest) = Some (i, rest)"
proof -
  obtain c cs where c: "dec (nat \<bar>i\<bar>) = c # cs" "isdigit c" using dec_head by blast
  have d: "scan_digits 10 0 (c # cs @ rest) = (nat \<bar>i\<bar>, rest)" using scan_digits_dec_rest [OF assms, of "nat \<bar>i\<bar>"] c(1) by simp
  have i: "decz i = (if i < 0 then CHR ''-'' # c # cs else c # cs)" using c(1) by (simp add: decz_def abs_if split: if_splits)
  have sp: "isspace CHR '' ''" "\<not> isspace CHR ''-''" by (simp_all add: isspace_def)
  show "scan_num (decz i @ rest) = Some (i, rest)"
    using c(2) isdigit_not_special [OF c(2)] by (simp add: scan_num_def i sp d del: scan_digits.simps)
  then show "scan_num (CHR '' '' # decz i @ rest) = Some (i, rest)" by (simp add: scan_num_def sp)
qed

lemma scan_nums_line:
  "k \<le> length nums \<Longrightarrow> ends_number rest \<Longrightarrow> scan_nums k (concat (map (\<lambda>i. CHR '' '' # decz i) nums) @ rest) = take k nums"
proof (induction k arbitrary: nums)
  case (Suc k)
  then obtain n ns where n: "nums = n # ns" by (cases nums) auto
  have "ends_number (concat (map (\<lambda>i. CHR '' '' # decz i) ns) @ rest)"
    using Suc.prems(2) by (cases ns) (auto simp: ends_number_def isdigit_def)
  then show ?case using Suc n by (simp add: scan_num_decz)
qed simp

text \<open>
  The line of a process is read back, whatever the numbers are, when the name of the process has no blank; \<open>sscanf\<close>
  then sets the id and the four times.
\<close>

theorem scan_stat_roundtrip:
  assumes "\<forall>c\<in>set comm. \<not> isspace c" and "\<not> isspace state" and "14 \<le> length nums"
  shows "scan_stat (stat_line pid comm state nums) v = \<lparr>st_id = of_nat pid, st_name = ''('' @ comm @ '')'', st_state = state,
    st_utime = word_of_int (nums ! 10), st_stime = word_of_int (nums ! 11), st_cutime = word_of_int (nums ! 12),
    st_cstime = word_of_int (nums ! 13)\<rparr>"
proof -
  define tail where "tail = concat (map (\<lambda>i. CHR '' '' # decz i) nums) @ [CHR 0x0A]"
  define r where "r = '' ('' @ comm @ '') '' @ state # tail"
  have sp: "isspace CHR '' ''" "\<not> isspace CHR ''(''" "\<not> isspace CHR '')''" by (simp_all add: isspace_def)
  have "ends_number r" by (simp add: r_def ends_number_def isdigit_def)
  then have id: "scan_num (stat_line pid comm state nums) = Some (int pid, r)"
    using scan_num_decz(1) [of r "int pid"] by (simp add: stat_line_def r_def tail_def decz_def)
  have name: "takeWhile (\<lambda>c. \<not> isspace c) (skip_space r) = ''('' @ comm @ '')''"
    using assms(1) by (simp add: r_def sp)
  have rest: "skip_space (drop (length (''('' @ comm @ '')'')) (skip_space r)) = state # tail"
    using assms(2) by (simp add: r_def sp)
  have nums: "scan_nums 14 tail = take 14 nums"
    using assms(3) scan_nums_line [of 14 nums "[CHR 0x0A]"] by (simp add: tail_def ends_number_def isdigit_def)
  show ?thesis
    unfolding scan_stat_def id using assms(3) name rest nums by (simp add: Let_def)
qed

theorem scan_stat_roundtrip_witness:
  "scan_stat (stat_line 7 ''init'' CHR ''S'' [1, 1, 1, 0, -1, 0, 5, 0, 0, 0, 30, 4, 2, 1]) (a_stat 0 99) =
     \<lparr>st_id = 7, st_name = ''(init)'', st_state = CHR ''S'', st_utime = 30, st_stime = 4, st_cutime = 2, st_cstime = 1\<rparr>"
  using scan_stat_roundtrip [of "''init''" "CHR ''S''" "[1, 1, 1, 0, -1, 0, 5, 0, 0, 0, 30, 4, 2, 1]" 7 "a_stat 0 99"]
  by (simp add: isspace_def)

text \<open>With a blank in the name the times are not reached and stay uninitialised.\<close>

lemma scan_stat_blank:
  "st_utime (scan_stat ''7 (a b) S 1 1 1 0 -1 0 5 0 0 0 30 4 2 1'' (a_stat 0 99)) = 99"
  by (simp add: scan_stat_def scan_num_def isspace_def isdigit_def is_digit_in_def digit_of_def a_stat_def eval_nat_numeral)

end
