(* ===== verification/Raw_Image.thy ===== *)
theory Raw_Image
  imports Prelude
begin

text \<open>
  The two fixed structures of a raw log, \<open>struct rawheader\<close> and \<open>struct rawrecord\<close> of
  \<^verbatim>\<open>src/Qt/FakeAtop/rawlog.c\<close>, and their images in the file, which are their images in memory: little-endian
  members at their natural alignment, 480 and 96 bytes.
\<close>

section \<open>Little-endian numbers\<close>

fun le :: "nat \<Rightarrow> nat \<Rightarrow> byte list" where
  "le 0 v = []"
| "le (Suc n) v = of_nat (v mod 256) # le n (v div 256)"

fun unle :: "byte list \<Rightarrow> nat" where
  "unle [] = 0"
| "unle (b # bs) = unat b + 256 * unle bs"

definition word_le :: "'a::len word \<Rightarrow> byte list" where
  "word_le w = le (LENGTH('a) div 8) (unat w)"

text \<open>The member of the width of the result at an offset.\<close>

definition field_at :: "byte list \<Rightarrow> nat \<Rightarrow> 'a::len word" where
  "field_at bs off = of_nat (unle (take (LENGTH('a) div 8) (drop off bs)))"

text \<open>An array of \<open>n\<close> members.\<close>

definition fields_at :: "byte list \<Rightarrow> nat \<Rightarrow> nat \<Rightarrow> 'a::len word list" where
  "fields_at bs off n = map (\<lambda>i. field_at bs (off + i * (LENGTH('a) div 8))) [0..<n]"

text \<open>Bytes between members, zero after \<open>memset\<close>.\<close>

definition padding :: "nat \<Rightarrow> byte list" where
  "padding n = replicate n 0"

lemma length_padding [simp]: "length (padding n) = n"
  by (simp add: padding_def)

lemma length_le [simp]: "length (le n v) = n"
  by (induction n arbitrary: v) auto

lemma unat_of_nat_byte: "unat (of_nat (v mod 256) :: byte) = v mod 256"
  by (simp add: unat_of_nat)

lemma unle_le: "unle (le n v) = v mod 256 ^ n"
proof (induction n arbitrary: v)
  case (Suc n)
  have "v mod 256 + 256 * (v div 256 mod 256 ^ n) = v mod (256 * 256 ^ n)"
    by (simp add: mod_mult2_eq)
  then show ?case by (simp add: Suc.IH unat_of_nat_byte)
qed simp

lemma length_word_le [simp]: "length (word_le (w :: 'a::len word)) = LENGTH('a) div 8"
  by (simp add: word_le_def)

lemma unle_word_le:
  fixes w :: "'a::len word"
  assumes "8 dvd LENGTH('a)"
  shows "of_nat (unle (word_le w)) = w"
proof -
  have "(2::nat) ^ LENGTH('a) = (2 ^ 8) ^ (LENGTH('a) div 8)"
    using assms by (simp only: power_mult [symmetric] dvd_mult_div_cancel)
  then have "(256::nat) ^ (LENGTH('a) div 8) = 2 ^ LENGTH('a)"
    by simp
  then show ?thesis
    by (simp add: word_le_def unle_le unsigned_less)
qed

lemma field_at_here:
  fixes w :: "'a::len word"
  assumes "8 dvd LENGTH('a)" and "length pre = off"
  shows "field_at (pre @ word_le w @ suf) off = w"
  using assms unle_word_le [of w] by (simp add: field_at_def flip: assms(2))

lemma field_at_later: "length pre \<le> off \<Longrightarrow> field_at (pre @ bs) off = field_at bs (off - length pre)"
  by (simp add: field_at_def)

lemma field_at_0 [simp]:
  fixes w :: "'a::len word"
  shows "8 dvd LENGTH('a) \<Longrightarrow> field_at (word_le w @ suf) 0 = w"
  using field_at_here [of "[]" 0 w suf] by simp

lemma fields_at_here:
  fixes ws :: "'a::len word list"
  assumes "8 dvd LENGTH('a)"
  shows "fields_at (concat (map word_le ws) @ suf) 0 (length ws) = ws"
proof -
  define k where "k = LENGTH('a) div 8"
  have split: "concat (map word_le ws) = concat (map word_le (take i ws)) @ word_le (ws ! i) @ concat (map word_le (drop (Suc i) ws))"
    if "i < length ws" for i
    using that by (metis (no_types) id_take_nth_drop concat.simps(2) concat_append list.map(2) map_append)
  have "length (concat (map word_le (take i ws))) = i * k" if "i \<le> length ws" for i
    using that by (simp add: length_concat o_def k_def sum_list_triv)
  then have "field_at (concat (map word_le ws) @ suf) (i * k) = ws ! i" if "i < length ws" for i
    using that assms by (subst split [OF that]) (simp add: field_at_here)
  then show ?thesis
    by (intro nth_equalityI) (simp_all add: fields_at_def k_def)
qed

lemma fields_at_later:
  "length pre \<le> off \<Longrightarrow> fields_at (pre @ bs) off n = fields_at bs (off - length pre) n"
  unfolding fields_at_def by (intro map_cong refl) (simp add: field_at_later)

section \<open>The header\<close>

definition MYMAGIC :: u32 where "MYMAGIC = 0xfeedbeef"

record rawheader =
  rh_magic :: u32
  rh_aversion :: u16
  rh_future1 :: u16
  rh_future2 :: u16
  rh_rawheadlen :: u16
  rh_rawreclen :: u16
  rh_hertz :: u16
  rh_sfuture :: "u16 list"
  rh_sstatlen :: u32
  rh_tstatlen :: u32
  rh_utsname :: "byte list"
  rh_cfuture :: "byte list"
  rh_pagesize :: u32
  rh_supportflags :: i32
  rh_osrel :: i32
  rh_osvers :: i32
  rh_ossub :: i32
  rh_ifuture :: "i32 list"

definition sizeof_rawheader :: nat where "sizeof_rawheader = 480"
definition sizeof_utsname :: nat where "sizeof_utsname = 390"

definition header_image :: "rawheader \<Rightarrow> byte list" where
  "header_image rh =
     word_le (rh_magic rh) @ word_le (rh_aversion rh) @ word_le (rh_future1 rh) @ word_le (rh_future2 rh) @
     word_le (rh_rawheadlen rh) @ word_le (rh_rawreclen rh) @ word_le (rh_hertz rh) @
     concat (map word_le (rh_sfuture rh)) @ word_le (rh_sstatlen rh) @ word_le (rh_tstatlen rh) @
     rh_utsname rh @ rh_cfuture rh @ padding 2 @ word_le (rh_pagesize rh) @ word_le (rh_supportflags rh) @
     word_le (rh_osrel rh) @ word_le (rh_osvers rh) @ word_le (rh_ossub rh) @
     concat (map word_le (rh_ifuture rh))"

definition header_value :: "byte list \<Rightarrow> rawheader" where
  "header_value bs = \<lparr>rh_magic = field_at bs 0, rh_aversion = field_at bs 4, rh_future1 = field_at bs 6,
     rh_future2 = field_at bs 8, rh_rawheadlen = field_at bs 10, rh_rawreclen = field_at bs 12, rh_hertz = field_at bs 14,
     rh_sfuture = fields_at bs 16 6, rh_sstatlen = field_at bs 28, rh_tstatlen = field_at bs 32,
     rh_utsname = take sizeof_utsname (drop 36 bs), rh_cfuture = take 8 (drop 426 bs),
     rh_pagesize = field_at bs 436, rh_supportflags = field_at bs 440, rh_osrel = field_at bs 444,
     rh_osvers = field_at bs 448, rh_ossub = field_at bs 452, rh_ifuture = fields_at bs 456 6\<rparr>"

text \<open>The arrays of the structure have their declared sizes.\<close>

definition header_ok :: "rawheader \<Rightarrow> bool" where
  "header_ok rh \<longleftrightarrow> length (rh_sfuture rh) = 6 \<and> length (rh_utsname rh) = sizeof_utsname \<and>
     length (rh_cfuture rh) = 8 \<and> length (rh_ifuture rh) = 6"

lemma length_concat_word_le [simp]:
  "length (concat (map word_le (ws :: 'a::len word list))) = length ws * (LENGTH('a) div 8)"
  by (induction ws) auto

lemma length_header_image: "header_ok rh \<Longrightarrow> length (header_image rh) = sizeof_rawheader"
  by (simp add: header_ok_def header_image_def sizeof_rawheader_def sizeof_utsname_def)

lemma fields_at_all:
  fixes ws :: "'a::len word list"
  shows "8 dvd LENGTH('a) \<Longrightarrow> length ws = n \<Longrightarrow> fields_at (concat (map word_le ws) @ suf) 0 n = ws"
  using fields_at_here [of ws suf] by simp

lemma fields_at_end:
  fixes ws :: "'a::len word list"
  shows "8 dvd LENGTH('a) \<Longrightarrow> length ws = n \<Longrightarrow> fields_at (concat (map word_le ws)) 0 n = ws"
  using fields_at_here [of ws "[]"] by simp

lemma header_roundtrip: "header_ok rh \<Longrightarrow> header_value (header_image rh @ suf) = rh"
  by (cases rh)
    (simp add: header_ok_def header_image_def header_value_def sizeof_utsname_def field_at_later fields_at_later fields_at_all)

section \<open>The record\<close>

record rawrecord =
  rr_curtime :: time_t
  rr_flags :: u16
  rr_sfuture :: "u16 list"
  rr_scomplen :: u32
  rr_pcomplen :: u32
  rr_interval :: u32
  rr_ndeviat :: u32
  rr_nactproc :: u32
  rr_ntask :: u32
  rr_totproc :: u32
  rr_totrun :: u32
  rr_totslpi :: u32
  rr_totslpu :: u32
  rr_totzomb :: u32
  rr_nexit :: u32
  rr_noverflow :: u32
  rr_ifuture :: "u32 list"

definition sizeof_rawrecord :: nat where "sizeof_rawrecord = 96"

definition record_image :: "rawrecord \<Rightarrow> byte list" where
  "record_image rr =
     word_le (rr_curtime rr) @ word_le (rr_flags rr) @ concat (map word_le (rr_sfuture rr)) @
     word_le (rr_scomplen rr) @ word_le (rr_pcomplen rr) @ word_le (rr_interval rr) @ word_le (rr_ndeviat rr) @
     word_le (rr_nactproc rr) @ word_le (rr_ntask rr) @ word_le (rr_totproc rr) @ word_le (rr_totrun rr) @
     word_le (rr_totslpi rr) @ word_le (rr_totslpu rr) @ word_le (rr_totzomb rr) @ word_le (rr_nexit rr) @
     word_le (rr_noverflow rr) @ concat (map word_le (rr_ifuture rr)) @ padding 4"

definition record_value :: "byte list \<Rightarrow> rawrecord" where
  "record_value bs = \<lparr>rr_curtime = field_at bs 0, rr_flags = field_at bs 8, rr_sfuture = fields_at bs 10 3,
     rr_scomplen = field_at bs 16, rr_pcomplen = field_at bs 20, rr_interval = field_at bs 24,
     rr_ndeviat = field_at bs 28, rr_nactproc = field_at bs 32, rr_ntask = field_at bs 36, rr_totproc = field_at bs 40,
     rr_totrun = field_at bs 44, rr_totslpi = field_at bs 48, rr_totslpu = field_at bs 52, rr_totzomb = field_at bs 56,
     rr_nexit = field_at bs 60, rr_noverflow = field_at bs 64, rr_ifuture = fields_at bs 68 6\<rparr>"

definition record_ok :: "rawrecord \<Rightarrow> bool" where
  "record_ok rr \<longleftrightarrow> length (rr_sfuture rr) = 3 \<and> length (rr_ifuture rr) = 6"

lemma length_record_image: "record_ok rr \<Longrightarrow> length (record_image rr) = sizeof_rawrecord"
  by (simp add: record_ok_def record_image_def sizeof_rawrecord_def)

lemma record_roundtrip: "record_ok rr \<Longrightarrow> record_value (record_image rr @ suf) = rr"
  by (cases rr) (simp add: record_ok_def record_image_def record_value_def field_at_later fields_at_later fields_at_all)

end
