(* ===== verification/Rawlog.thy ===== *)
theory Rawlog
  imports Raw_Image Sysstat Various Deviate_Task
begin

text \<open>
  The raw log of \<^verbatim>\<open>src/Qt/FakeAtop/rawlog.c\<close>: \<open>rawwrite\<close> appends a sample, \<open>rawread\<close> shows the samples of a
  file and lets the user move between them.

  A log is the list of its bytes.  Parameters are: the images of \<open>struct sstat\<close> and \<open>struct tstat\<close> in memory, which
  the compiler decides (\<open>layout\<close>); \<open>compress\<close> and \<open>uncompress\<close> of zlib; the outcome of every system call; the
  function \<open>vis.show_samp\<close> that shows a sample, which gives the command of the user and may set \<open>begintime\<close>.
  \<open>Inl\<close> is the exit code of a program that stops.
\<close>

section \<open>Parameters\<close>

record layout =
  sizeof_sstat :: nat
  sizeof_tstat :: nat
  sstat_image :: "sstat \<Rightarrow> byte list"
  sstat_value :: "byte list \<Rightarrow> sstat"
  tstat_image :: "tstat \<Rightarrow> byte list"
  tstat_value :: "byte list \<Rightarrow> tstat"

text \<open>Room in the destination and source, to return code and what was written.\<close>

record zlib =
  z_compress :: "nat \<Rightarrow> byte list \<Rightarrow> int \<times> byte list"
  z_uncompress :: "nat \<Rightarrow> byte list \<Rightarrow> int \<times> byte list"

text \<open>The global variables that describe the system.\<close>

record rawenv =
  g_supportflags :: i32
  g_osrel :: i32
  g_osvers :: i32
  g_ossub :: i32
  g_hertz :: u16
  g_pagesize :: u32
  g_utsname :: "byte list"
  g_utsnodenamelen :: nat
  g_interval :: u64

definition RRBOOT :: u16 where "RRBOOT = 0x0001"
definition RRLAST :: u16 where "RRLAST = 0x0002"
definition RRNETATOP :: u16 where "RRNETATOP = 0x0004"
definition RRNETATOPD :: u16 where "RRNETATOPD = 0x0008"
definition RRACCTACTIVE :: u16 where "RRACCTACTIVE = 0x0010"
definition RRIOSTAT :: u16 where "RRIOSTAT = 0x0020"
definition RRDOCKSTAT :: u16 where "RRDOCKSTAT = 0x0040"

definition ACCTACTIVE :: i32 where "ACCTACTIVE = 0x00000001"

definition RAWLOGNG :: i32 where
  "RAWLOGNG = ACCTACTIVE OR IOSTAT OR NETATOP OR NETATOPD"

text \<open>\<open>sscanf(atopversion, "%u.%u", ...)\<close> on the version of this program.\<close>

definition ATOPVERS :: string where "ATOPVERS = ''2.3.0''"

definition getnumvers :: u16 where
  "getnumvers =
     (let (vers1, rest) = scan_digits 10 0 ATOPVERS; (vers2, _) = scan_digits 10 0 (tl rest)
      in ucast (push_bit 8 (of_nat vers1 :: i32) + of_nat vers2))"

section \<open>Writing\<close>

definition testcompval :: "int \<Rightarrow> int + unit" where
  "testcompval rv = (if rv = 0 \<or> rv = 1 \<or> rv = 2 then Inr () else Inl 7)"

text \<open>
  The outcome of the system calls of one call of \<open>rawwrite\<close>: whether \<open>open\<close>, \<open>creat\<close>, \<open>malloc\<close> and \<open>ftruncate\<close>
  succeed, whether the header can be read (otherwise the local variable keeps what the stack held), and what the
  four calls of \<open>write\<close> return.
\<close>

record wcalls =
  w_open :: bool
  w_ioerror :: bool
  w_junk :: "byte list"
  w_creat :: bool
  w_header :: int
  w_malloc :: bool
  w_record :: int
  w_sstat :: int
  w_tstat :: int
  w_truncate :: bool

text \<open>The log as the writer sees it: not opened yet, or opened with the offset of the descriptor.\<close>

datatype rawout = Unopened "byte list option" | Opened "byte list" nat

definition compatible :: "layout \<Rightarrow> rawheader \<Rightarrow> bool" where
  "compatible L rh \<longleftrightarrow> unat (rh_sstatlen rh) = sizeof_sstat L \<and> unat (rh_tstatlen rh) = sizeof_tstat L \<and>
     unat (rh_rawheadlen rh) = sizeof_rawheader \<and> unat (rh_rawreclen rh) = sizeof_rawrecord"

definition new_header :: "layout \<Rightarrow> rawenv \<Rightarrow> rawheader" where
  "new_header L g = \<lparr>rh_magic = MYMAGIC, rh_aversion = getnumvers OR 0x8000, rh_future1 = 0, rh_future2 = 0,
     rh_rawheadlen = of_nat sizeof_rawheader, rh_rawreclen = of_nat sizeof_rawrecord, rh_hertz = g_hertz g,
     rh_sfuture = replicate 6 0, rh_sstatlen = of_nat (sizeof_sstat L), rh_tstatlen = of_nat (sizeof_tstat L),
     rh_utsname = g_utsname g, rh_cfuture = replicate 8 0, rh_pagesize = g_pagesize g,
     rh_supportflags = g_supportflags g OR RAWLOGNG, rh_osrel = g_osrel g, rh_osvers = g_osvers g,
     rh_ossub = g_ossub g, rh_ifuture = replicate 6 0\<rparr>"

text \<open>\<open>write\<close> at an offset, of which the first \<open>n\<close> bytes reach the file.\<close>

definition write_at :: "byte list \<Rightarrow> nat \<Rightarrow> byte list \<Rightarrow> int \<Rightarrow> byte list \<times> nat" where
  "write_at file pos data n =
     (let d = take (nat n) data in (take pos file @ d @ drop (pos + length d) file, pos + length d))"

text \<open>Opened, or the exit code and the file that is left behind.\<close>

definition rawwopen :: "layout \<Rightarrow> rawenv \<Rightarrow> wcalls \<Rightarrow> byte list option \<Rightarrow> (int \<times> byte list option) + byte list \<times> nat" where
  "rawwopen L g c file =
     (case (if w_open c then file else None) of
        Some bs \<Rightarrow>
          if \<not> w_ioerror c \<and> length bs < sizeof_rawheader then Inl (7, file)
          else let rh = header_value (if w_ioerror c then w_junk c else bs) in
            if rh_magic rh \<noteq> MYMAGIC then Inl (7, file)
            else if \<not> compatible L rh then Inl (7, file)
            else Inr (bs, length bs)
      | None \<Rightarrow>
          if \<not> w_creat c then Inl (7, file)
          else if w_header c = -1 then Inl (7, Some [])
          else Inr (write_at [] 0 (header_image (new_header L g)) (w_header c)))"

text \<open>The arguments of \<open>rawwrite\<close>.\<close>

record wsample =
  ws_curtime :: time_t
  ws_numsecs :: i32
  ws_dev :: devtstat
  ws_sstat :: sstat
  ws_nexit :: i32
  ws_noverflow :: u32
  ws_flag :: byte

definition raw_flags :: "i32 \<Rightarrow> byte \<Rightarrow> u16" where
  "raw_flags support flag =
     (if truth (ucast flag AND RRBOOT) then RRBOOT else 0) OR
     (if truth (support AND ACCTACTIVE) then RRACCTACTIVE else 0) OR
     (if truth (support AND IOSTAT) then RRIOSTAT else 0) OR
     (if truth (support AND NETATOP) then RRNETATOP else 0) OR
     (if truth (support AND NETATOPD) then RRNETATOPD else 0) OR
     (if truth (support AND DOCKSTAT) then RRDOCKSTAT else 0)"

definition raw_record :: "i32 \<Rightarrow> wsample \<Rightarrow> nat \<Rightarrow> nat \<Rightarrow> rawrecord" where
  "raw_record support ws scomplen pcomplen = (let d = ws_dev ws in
     \<lparr>rr_curtime = ws_curtime ws, rr_flags = raw_flags support (ws_flag ws), rr_sfuture = replicate 3 0,
      rr_scomplen = of_nat scomplen, rr_pcomplen = of_nat pcomplen, rr_interval = ws_numsecs ws,
      rr_ndeviat = ucast (ntaskall d), rr_nactproc = ucast (nprocactive d), rr_ntask = ucast (ntaskall d),
      rr_totproc = ucast (nprocall d), rr_totrun = ucast (totrun d), rr_totslpi = ucast (totslpi d),
      rr_totslpu = ucast (totslpu d), rr_totzomb = ucast (totzombie d), rr_nexit = ws_nexit ws,
      rr_noverflow = ws_noverflow ws, rr_ifuture = replicate 6 0\<rparr>)"

text \<open>The first \<open>n\<close> bytes of the array of tasks; reading behind the array is undefined.\<close>

definition task_bytes :: "layout \<Rightarrow> tstat list \<Rightarrow> nat \<Rightarrow> byte list option" where
  "task_bytes L ts n =
     (let bs = concat (map (tstat_image L) ts) in if n \<le> length bs then Some (take n bs) else None)"

text \<open>A \<open>write\<close> with the roll back to the size the file had before the sample.\<close>

definition raw_put :: "wcalls \<Rightarrow> nat \<Rightarrow> byte list \<times> nat \<Rightarrow> byte list \<Rightarrow> int \<Rightarrow> (int \<times> byte list option) + byte list \<times> nat" where
  "raw_put c filesize fp data n = (case fp of (file, pos) \<Rightarrow>
     if n = -1 then (if w_truncate c then Inl (7, Some (take filesize file)) else Inl (8, Some file))
     else Inr (write_at file pos data n))"

definition rawwrite :: "layout \<Rightarrow> zlib \<Rightarrow> rawenv \<Rightarrow> wcalls \<Rightarrow> wsample \<Rightarrow> rawout \<Rightarrow> ((int \<times> byte list option) + rawout) option" where
  "rawwrite L z g c ws out =
     (case (case out of Unopened file \<Rightarrow> rawwopen L g c file | Opened file pos \<Rightarrow> Inr (file, pos)) of
        Inl e \<Rightarrow> Some (Inl e)
      | Inr (file, pos) \<Rightarrow>
        (let filesize = length file; (rv, scompbuf) = z_compress z (sizeof_sstat L) (sstat_image L (ws_sstat ws)) in
         case testcompval rv of
           Inl e \<Rightarrow> Some (Inl (e, Some file))
         | Inr _ \<Rightarrow>
           if \<not> w_malloc c then Some (Inl (13, Some file))
           else do {
             let room = unat (of_nat (sizeof_tstat L) * ntaskall (ws_dev ws) :: u64);
             source \<leftarrow> task_bytes L (taskall (ws_dev ws)) room;
             let (rv, pcompbuf) = z_compress z room source;
             case testcompval rv of
               Inl e \<Rightarrow> Some (Inl (e, Some file))
             | Inr _ \<Rightarrow>
               let rr = raw_record (g_supportflags g) ws (length scompbuf) (length pcompbuf) in
               Some (case raw_put c filesize (file, pos) (record_image rr) (w_record c) of
                   Inl e \<Rightarrow> Inl e
                 | Inr fp \<Rightarrow>
                   (case raw_put c filesize fp scompbuf (w_sstat c) of
                      Inl e \<Rightarrow> Inl e
                    | Inr fp \<Rightarrow>
                      (case raw_put c filesize fp pcompbuf (w_tstat c) of
                         Inl e \<Rightarrow> Inl e
                       | Inr (file, pos) \<Rightarrow> Inr (Opened file pos))))
           }))"

section \<open>The name of the log\<close>

definition BASEPATH :: string where "BASEPATH = ''/var/log/atop''"
definition RAWNAMESZ :: nat where "RAWNAMESZ = 256"

text \<open>What \<open>snprintf\<close> leaves in an array of \<open>n\<close> characters.\<close>

definition snprintf :: "nat \<Rightarrow> string \<Rightarrow> string" where
  "snprintf n s = take (n - 1) s"

text \<open>Eight characters, and the NUL behind them, are there.\<close>

definition lookslikedatetome :: "string \<Rightarrow> bool" where
  "lookslikedatetome p \<longleftrightarrow> (\<forall>i \<in> set [0..<8]. isdigit (p ! i)) \<and> p ! 0 = CHR ''2'' \<and>
     \<not> of_char CHR ''1'' < (of_char (p ! 4) :: nat) \<and> \<not> of_char CHR ''3'' < (of_char (p ! 6) :: nat)"

record rawcalls =
  r_time :: time_t
  r_localtime :: "time_t \<Rightarrow> tm"
  r_access :: "string \<Rightarrow> bool"
  r_readable :: "string \<Rightarrow> bool"
  r_open :: "string \<Rightarrow> byte list option option"
  r_mkstemp :: "string option"
  r_system :: "string \<Rightarrow> byte list option"
  r_junk :: "byte list"
  r_argv0 :: string
  r_setresuid :: bool
  r_execvp :: "string \<Rightarrow> int option"
  r_malloc :: "nat \<Rightarrow> byte list option"
  r_ptrs :: "nat \<Rightarrow> bool"
  r_offs :: "nat \<Rightarrow> nat list option"

text \<open>
  The members are: \<open>time\<close> and \<open>localtime\<close>; \<open>access\<close> with \<open>F_OK\<close> and with \<open>F_OK|R_OK\<close>; \<open>open\<close> for reading, with the
  contents or, for a directory, no contents; the name \<open>mkstemp\<close> makes; \<open>system\<close> with what the command wrote to
  the temporary file; the stack; \<open>*argvp\<close>; whether root privileges are dropped; \<open>execvp\<close> with the exit code of the
  program that was loaded; and \<open>malloc\<close> of bytes, pointers and offsets.
\<close>

definition dated_name :: "rawcalls \<Rightarrow> time_t \<Rightarrow> string" where
  "dated_name c t = (let tp = r_localtime c t in
     snprintf RAWNAMESZ (BASEPATH @ ''/atop_'' @ decz0 4 (tm_year tp + 1900) @ decz0 2 (tm_mon tp + 1) @
       decz0 2 (tm_mday tp)))"

definition raw_name :: "rawcalls \<Rightarrow> string \<Rightarrow> int + string" where
  "raw_name c rawname = (let len = length rawname in
     if len = 0 then Inr (dated_name c (r_time c))
     else if len = 8 \<and> \<not> r_access c rawname \<and> lookslikedatetome rawname
     then Inr (snprintf RAWNAMESZ (BASEPATH @ ''/atop_'' @ rawname))
     else if r_access c rawname then Inr rawname
     else if r_malloc c (len + 1) = None then Inl 13
     else if rawname = replicate len CHR ''y'' then Inr (dated_name c (r_time c - of_nat (len * 3600 * 24)))
     else Inr rawname)"

definition raw_open :: "rawcalls \<Rightarrow> string \<Rightarrow> int + byte list option" where
  "raw_open c rawname =
     (case r_open c rawname of
        Some node \<Rightarrow> Inr node
      | None \<Rightarrow>
          let tmpname1 = snprintf RAWNAMESZ (rawname @ ''.gz'') in
          if \<not> r_readable c tmpname1 then Inl 7
          else (case r_mkstemp c of
                  None \<Rightarrow> Inl 7
                | Some tmpname2 \<Rightarrow>
                    (case r_system c (snprintf 512 (''gunzip -c '' @ tmpname1 @ '' > '' @ tmpname2)) of
                       None \<Rightarrow> Inl 7
                     | Some bs \<Rightarrow> Inr (Some bs))))"

section \<open>The header of a log that is read\<close>

definition basename :: "string \<Rightarrow> string" where
  "basename s = rev (takeWhile (\<lambda>c. c \<noteq> CHR ''/'') (rev s))"

text \<open>The exit code, when another program takes over or the privileges are not dropped.\<close>

definition try_other_version :: "rawcalls \<Rightarrow> nat \<Rightarrow> nat \<Rightarrow> int option" where
  "try_other_version c major minor =
     (if \<not> r_setresuid c then Some 1
      else r_execvp c (snprintf 1024 (basename (r_argv0 c) @ ''-'' @ dec major @ ''.'' @ dec minor)))"

definition vers_major :: "u16 \<Rightarrow> u16" where "vers_major v = drop_bit 8 v AND 0x7f"
definition vers_minor :: "u16 \<Rightarrow> u16" where "vers_minor v = v AND 0xff"

definition raw_header :: "layout \<Rightarrow> rawcalls \<Rightarrow> byte list option \<Rightarrow> int + rawheader" where
  "raw_header L c node =
     (if \<exists>bs. node = Some bs \<and> length bs < sizeof_rawheader then Inl 7
      else let rh = header_value (case node of Some bs \<Rightarrow> bs | None \<Rightarrow> r_junk c) in
        if rh_magic rh \<noteq> MYMAGIC then Inl 7
        else if compatible L rh then Inr rh
        else if vers_major (rh_aversion rh) \<noteq> drop_bit 8 getnumvers \<or> vers_minor (rh_aversion rh) \<noteq> getnumvers AND 0x7f
        then (case try_other_version c (unat (vers_major (rh_aversion rh))) (unat (vers_minor (rh_aversion rh))) of
                Some e \<Rightarrow> Inl e | None \<Rightarrow> Inl 7)
        else Inl 7)"

text \<open>\<open>nodename\<close> is the second array of 65 characters of \<open>struct utsname\<close>.\<close>

definition raw_globals :: "rawheader \<Rightarrow> rawenv \<Rightarrow> rawenv" where
  "raw_globals rh g = g\<lparr>g_utsname := rh_utsname rh,
     g_utsnodenamelen := length (takeWhile (\<lambda>b. b \<noteq> 0) (drop 65 (rh_utsname rh))), g_interval := 0, g_supportflags := rh_supportflags rh, g_osrel := rh_osrel rh,
     g_osvers := rh_osvers rh, g_ossub := rh_ossub rh, g_hertz := (if truth (rh_hertz rh) then rh_hertz rh else g_hertz g),
     g_pagesize := (if truth (rh_pagesize rh) then rh_pagesize rh else g_pagesize g)\<rparr>"

section \<open>Reading a sample\<close>

text \<open>What \<open>vis.show_samp\<close> is called with, and the global \<open>supportflags\<close> at that time.\<close>

record shown =
  sh_curtime :: time_t
  sh_interval :: u32
  sh_dev :: devtstat
  sh_sstat :: sstat
  sh_nexit :: u32
  sh_noverflow :: u32
  sh_flags :: u16
  sh_support :: i32

text \<open>The variables of \<open>rawread\<close>, the globals it changes, and the state of the display.\<close>

record 'v rawstate =
  st_pos :: nat
  st_offlist :: "nat list"
  st_offcur :: nat
  st_lastcmd :: char
  st_begin :: u32
  st_support :: i32
  st_sampcnt :: u64
  st_sstat :: "byte list"
  st_vis :: 'v

text \<open>A record was read and the inner loop goes on, it ends, or the function returns.\<close>

datatype 'v outcome = Next "'v rawstate" | Ended "'v rawstate" | Returned "'v rawstate"

text \<open>\<open>read\<close> at an offset of a file.\<close>

definition read_at :: "byte list \<Rightarrow> nat \<Rightarrow> nat \<Rightarrow> byte list" where
  "read_at bs pos n = take n (drop pos bs)"

text \<open>
  \<open>getrawsstat\<close> and \<open>getrawtstat\<close>: \<open>complen\<close> bytes are read and expanded into an array that holds \<open>old\<close>, for which
  \<open>uncompress\<close> is told to have \<open>room\<close> bytes.  The signed length is converted by \<open>malloc\<close> and \<open>read\<close>.  The result is the
  new offset and the new contents of the array.
\<close>

definition getraw :: "zlib \<Rightarrow> rawcalls \<Rightarrow> byte list \<Rightarrow> nat \<Rightarrow> i32 \<Rightarrow> nat \<Rightarrow> byte list \<Rightarrow> int + nat \<times> byte list" where
  "getraw z c bs pos complen room old = (let n = unat (scast complen :: u64) in
     if r_malloc c n = None then Inl 13
     else let compbuf = read_at bs pos n in
       if int (length compbuf) < sint complen then Inl 7
       else let (rv, out) = z_uncompress z room compbuf in
         (case testcompval rv of
            Inl e \<Rightarrow> Inl e
          | Inr _ \<Rightarrow> Inr (pos + length compbuf, out @ drop (length out) old)))"

text \<open>
  The loop over the tasks that fills \<open>procall\<close> and \<open>procactive\<close>, arrays of \<open>ca\<close> and \<open>ck\<close> pointers, and counts
  the active tasks.
\<close>

definition push :: "nat \<Rightarrow> nat list \<Rightarrow> nat \<Rightarrow> nat list option" where
  "push room xs i = (if length xs < room then Some (xs @ [i]) else None)"

fun raw_lists :: "nat \<Rightarrow> nat \<Rightarrow> tstat list \<Rightarrow> nat \<Rightarrow> nat list \<Rightarrow> nat list \<Rightarrow> nat \<Rightarrow> (nat list \<times> nat list \<times> nat) option" where
  "raw_lists ca ck [] i pa pk l = Some (pa, pk, l)"
| "raw_lists ca ck (t # ts) i pa pk l = do {
     let isproc = truth (gen_isproc (t_gen t));
     let active = (\<not> truth (gen_wasinactive (t_gen t)));
     pa \<leftarrow> (if isproc then push ca pa i else Some pa);
     pk \<leftarrow> (if isproc \<and> active then push ck pk i else Some pk);
     raw_lists ca ck ts (Suc i) pa pk (if active then Suc l else l)
   }"

definition raw_tasks :: "layout \<Rightarrow> byte list \<Rightarrow> nat \<Rightarrow> tstat list" where
  "raw_tasks L bs n = map (\<lambda>i. tstat_value L (take (sizeof_tstat L) (drop (i * sizeof_tstat L) bs))) [0..<n]"

text \<open>
  The system statistics, the allocation of the arrays and the task statistics: the offset and the new contents of \<open>sstat\<close> and
  \<open>devtstat\<close>.
\<close>

definition raw_stats :: "layout \<Rightarrow> zlib \<Rightarrow> rawcalls \<Rightarrow> byte list \<Rightarrow> nat \<Rightarrow> rawrecord \<Rightarrow> byte list \<Rightarrow> (int + nat \<times> byte list \<times> devtstat) option" where
  "raw_stats L z c bs pos rr old =
     (case getraw z c bs pos (rr_scomplen rr) (sizeof_sstat L) old of
        Inl e \<Rightarrow> Some (Inl e)
      | Inr (pos, sstat) \<Rightarrow>
        (let ca = (if rr_totproc rr < rr_nactproc rr then unat (rr_nactproc rr) else unat (rr_totproc rr));
             ck = unat (rr_nactproc rr) in
         case r_malloc c (sizeof_tstat L * unat (rr_ndeviat rr)) of
           None \<Rightarrow> Some (Inl 13)
         | Some junk \<Rightarrow>
           if \<not> r_ptrs c ca \<or> \<not> r_ptrs c ck then Some (Inl 13)
           else (case getraw z c bs pos (rr_pcomplen rr) (unat (of_nat (sizeof_tstat L) * scast (rr_ndeviat rr) :: u64)) junk of
                   Inl e \<Rightarrow> Some (Inl e)
                 | Inr (pos, tasks) \<Rightarrow> do {
                     let ts = raw_tasks L tasks (unat (rr_ndeviat rr));
                     (pa, pk, l) \<leftarrow> raw_lists ca ck ts 0 [] [] 0;
                     Some (Inr (pos, sstat, \<lparr>taskall = ts, procall = pa, procactive = pk, ntaskall = of_nat (length ts),
                       ntaskactive = of_nat l, nprocall = of_nat (length pa), nprocactive = of_nat (length pk),
                       totrun = ucast (rr_totrun rr), totslpi = ucast (rr_totslpi rr),
                       totslpu = ucast (rr_totslpu rr), totzombie = ucast (rr_totzomb rr)\<rparr>))
                   })))"

definition set_flag :: "bool \<Rightarrow> i32 \<Rightarrow> i32 \<Rightarrow> i32" where
  "set_flag b m s = (if b then s OR m else s AND NOT m)"

definition raw_support :: "i32 \<Rightarrow> u16 \<Rightarrow> i32 \<Rightarrow> i32" where
  "raw_support support flags s =
     (let s = (if support AND RAWLOGNG = RAWLOGNG
               then set_flag (truth (flags AND RRIOSTAT)) IOSTAT (set_flag (truth (flags AND RRACCTACTIVE)) ACCTACTIVE s)
               else s);
          s = set_flag (truth (flags AND RRNETATOP)) NETATOP s;
          s = set_flag (truth (flags AND RRNETATOPD)) NETATOPD s
      in set_flag (truth (flags AND RRDOCKSTAT)) DOCKSTAT s)"

section \<open>Moving between samples\<close>

definition MRESET :: char where "MRESET = CHR ''r''"
definition MSAMPPREV :: char where "MSAMPPREV = CHR ''T''"
definition MSAMPBRANCH :: char where "MSAMPBRANCH = CHR ''b''"

definition OFFCHUNK :: nat where "OFFCHUNK = 256"

definition raw_command :: "u32 \<Rightarrow> 'v rawstate \<Rightarrow> 'v rawstate option" where
  "raw_command secsinday st =
     (if st_lastcmd st = MSAMPPREV then do {
        let cur = (if 2 \<le> st_offcur st then st_offcur st - 2 else 0);
        off \<leftarrow> aget (st_offlist st) cur;
        Some (st\<lparr>st_offcur := cur, st_pos := off\<rparr>)
      }
      else if st_lastcmd st = MRESET \<or>
        st_lastcmd st = MSAMPBRANCH \<and> truth (st_begin st) \<and> st_begin st < secsinday
      then do { off \<leftarrow> aget (st_offlist st) 0; Some (st\<lparr>st_offcur := 1, st_pos := off\<rparr>) }
      else Some st)"

text \<open>The record is entered in the offset list, which is extended when it is full.\<close>

definition raw_enter :: "rawcalls \<Rightarrow> nat \<Rightarrow> 'v rawstate \<Rightarrow> (int + 'v rawstate) option" where
  "raw_enter c off st = do {
     offlist \<leftarrow> aupd (st_offlist st) (st_offcur st) (\<lambda>_. off);
     let st = st\<lparr>st_offlist := offlist, st_offcur := st_offcur st + 1\<rparr>;
     if length offlist \<le> st_offcur st
     then (case r_offs c OFFCHUNK of
             None \<Rightarrow> Some (Inl 13)
           | Some new \<Rightarrow> Some (Inr (st\<lparr>st_offlist := offlist @ new\<rparr>)))
     else Some (Inr st)
   }"

type_synonym 'v show_samp = "'v \<Rightarrow> u32 \<Rightarrow> shown \<Rightarrow> 'v \<times> u32 \<times> char"

text \<open>A sample inside the time range: it is read and shown, and the command is obeyed.\<close>

definition raw_show :: "layout \<Rightarrow> zlib \<Rightarrow> rawcalls \<Rightarrow> 'v show_samp \<Rightarrow> byte list \<Rightarrow> rawheader \<Rightarrow> rawrecord \<Rightarrow> u32 \<Rightarrow>
    'v rawstate \<Rightarrow> (int + 'v outcome) option" where
  "raw_show L z c show bs rh rr secsinday st = do {
     r \<leftarrow> raw_stats L z c bs (st_pos st) rr (st_sstat st);
     case r of
       Inl e \<Rightarrow> Some (Inl e)
     | Inr (pos, sstat, dev) \<Rightarrow> do {
         let support = raw_support (rh_supportflags rh) (rr_flags rr) (st_support st);
         let flags = (rr_flags rr AND RRBOOT) OR
           (if int (length bs) - int pos \<le> int (unat (rh_rawreclen rh)) then RRLAST else 0);
         let sh = \<lparr>sh_curtime = rr_curtime rr, sh_interval = rr_interval rr, sh_dev = dev,
           sh_sstat = sstat_value L sstat, sh_nexit = rr_nexit rr, sh_noverflow = rr_noverflow rr, sh_flags = flags,
           sh_support = support\<rparr>;
         let (v, begintime, lastcmd) = show (st_vis st) (st_begin st) sh;
         st \<leftarrow> raw_command secsinday (st\<lparr>st_pos := pos, st_sstat := sstat, st_support := support,
           st_sampcnt := st_sampcnt st + 1, st_vis := v, st_begin := begintime, st_lastcmd := lastcmd\<rparr>);
         Some (Inr (Next st))
       }
   }"

text \<open>One turn of the inner loop.  Reads from a directory fail.\<close>

definition raw_step :: "layout \<Rightarrow> zlib \<Rightarrow> rawcalls \<Rightarrow> 'v show_samp \<Rightarrow> u32 \<Rightarrow> byte list option \<Rightarrow> rawheader \<Rightarrow>
    'v rawstate \<Rightarrow> (int + 'v outcome) option" where
  "raw_step L z c show endtime node rh st =
     (case node of
        None \<Rightarrow> Some (Inr (Ended st))
      | Some bs \<Rightarrow>
        (let rrlen = unat (rh_rawreclen rh); raw = read_at bs (st_pos st) rrlen;
             st = st\<lparr>st_pos := st_pos st + length raw\<rparr> in
         if length raw \<noteq> rrlen then Some (Inr (Ended st))
         else do {
           let rr = record_value raw;
           let secsinday = (of_int (daysecs (r_localtime c) (rr_curtime rr)) :: u32);
           r \<leftarrow> raw_enter c (st_pos st - rrlen) st;
           case r of
             Inl e \<Rightarrow> Some (Inl e)
           | Inr st \<Rightarrow>
             if truth (st_begin st) \<and> secsinday < st_begin st
             then Some (Inr (Next (st\<lparr>st_lastcmd := CHR 0x01,
               st_pos := st_pos st + unat (rr_scomplen rr + rr_pcomplen rr)\<rparr>)))
             else if truth endtime \<and> endtime < secsinday then Some (Inr (Returned (st\<lparr>st_begin := 0\<rparr>)))
             else raw_show L z c show bs rh rr secsinday (st\<lparr>st_begin := 0\<rparr>)
         }))"

text \<open>The inner loop; the truth value says that \<open>rawread\<close> returns.\<close>

partial_function (option) raw_inner :: "('v rawstate \<Rightarrow> (int + 'v outcome) option) \<Rightarrow> 'v rawstate \<Rightarrow>
    (int + bool \<times> 'v rawstate) option" where
  "raw_inner step st = do {
     r \<leftarrow> step st;
     case r of
       Inl e \<Rightarrow> Some (Inl e)
     | Inr (Returned st) \<Rightarrow> Some (Inr (True, st))
     | Inr (Ended st) \<Rightarrow> Some (Inr (False, st))
     | Inr (Next st) \<Rightarrow> raw_inner step st
   }"

text \<open>Behind the last record: back to the record that was entered last.\<close>

definition raw_rewind :: "'v rawstate \<Rightarrow> 'v rawstate option" where
  "raw_rewind st = do {
     let cur = (if 1 \<le> st_offcur st then st_offcur st - 1 else st_offcur st);
     off \<leftarrow> aget (st_offlist st) cur;
     Some (st\<lparr>st_begin := 0, st_offcur := cur, st_pos := off\<rparr>)
   }"

partial_function (option) raw_outer :: "('v rawstate \<Rightarrow> (int + 'v outcome) option) \<Rightarrow> 'v rawstate \<Rightarrow>
    (int + 'v rawstate) option" where
  "raw_outer step st =
     (if st_lastcmd st = NUL \<or> st_lastcmd st = CHR ''q'' then Some (Inr st)
      else do {
        r \<leftarrow> raw_inner step st;
        case r of
          Inl e \<Rightarrow> Some (Inl e)
        | Inr (ret, st) \<Rightarrow> if ret then Some (Inr st) else do { st \<leftarrow> raw_rewind st; raw_outer step st }
      })"

text \<open>The whole function; \<open>sstat\<close> is the uninitialised local variable.\<close>

definition rawread :: "layout \<Rightarrow> zlib \<Rightarrow> rawcalls \<Rightarrow> 'v show_samp \<Rightarrow> string \<Rightarrow> u32 \<Rightarrow> u32 \<Rightarrow> rawenv \<Rightarrow> byte list \<Rightarrow> 'v \<Rightarrow>
    (int + rawenv \<times> 'v rawstate) option" where
  "rawread L z c show rawname begintime endtime g sstat v =
     (case raw_name c rawname of
        Inl e \<Rightarrow> Some (Inl e)
      | Inr rawname \<Rightarrow>
        (case raw_open c rawname of
           Inl e \<Rightarrow> Some (Inl e)
         | Inr node \<Rightarrow>
           (case raw_header L c node of
              Inl e \<Rightarrow> Some (Inl e)
            | Inr rh \<Rightarrow>
              (case r_offs c OFFCHUNK of
                 None \<Rightarrow> Some (Inl 13)
               | Some offlist \<Rightarrow> do {
                   let pos = (case node of Some _ \<Rightarrow> sizeof_rawheader | None \<Rightarrow> 0);
                   offlist \<leftarrow> aupd offlist 0 (\<lambda>_. pos);
                   r \<leftarrow> raw_outer (raw_step L z c show endtime node rh)
                     \<lparr>st_pos = pos, st_offlist = offlist, st_offcur = 1, st_lastcmd = CHR ''X'', st_begin = begintime,
                      st_support = rh_supportflags rh, st_sampcnt = 0, st_sstat = sstat, st_vis = v\<rparr>;
                   case r of
                     Inl e \<Rightarrow> Some (Inl e)
                   | Inr st \<Rightarrow> Some (Inr ((raw_globals rh g)\<lparr>g_supportflags := st_support st\<rparr>, st))
                 }))))"

end
