(* ===== verification/Raw_Sample.thy ===== *)
theory Raw_Sample
  imports Rawlog
begin

text \<open>
  One sample of the raw log: the bytes \<open>rawwrite\<close> appends for it are read back by a turn of the loop of \<open>rawread\<close>,
  and the offset list stays in step with the position in the file.
\<close>

section \<open>Assumptions about zlib, the compiler and memory\<close>

text \<open>
  The documented contract of zlib: \<open>compress\<close> returns \<open>Z_OK\<close>, \<open>Z_MEM_ERROR\<close> or \<open>Z_BUF_ERROR\<close>; when it succeeds,
  \<open>uncompress\<close> with enough room gives the source back.  A stream is never empty.
\<close>

definition zlib_ok :: "zlib \<Rightarrow> bool" where
  "zlib_ok z \<longleftrightarrow> (\<forall>room src. fst (z_compress z room src) \<in> {0, -4, -5}) \<and>
     (\<forall>room src out. z_compress z room src = (0, out) \<longrightarrow> out \<noteq> [] \<and> length out \<le> room \<and>
        (\<forall>room' \<ge> length src. z_uncompress z room' out = (0, src)))"

text \<open>The images of a structure have its size and determine it.\<close>

definition has_image :: "layout \<Rightarrow> wsample \<Rightarrow> bool" where
  "has_image L ws \<longleftrightarrow> length (sstat_image L (ws_sstat ws)) = sizeof_sstat L \<and>
     sstat_value L (sstat_image L (ws_sstat ws)) = ws_sstat ws \<and>
     (\<forall>t \<in> set (taskall (ws_dev ws)). length (tstat_image L t) = sizeof_tstat L \<and> tstat_value L (tstat_image L t) = t)"

definition memory_ok :: "rawcalls \<Rightarrow> bool" where
  "memory_ok c \<longleftrightarrow> (\<forall>n. \<exists>bs. r_malloc c n = Some bs \<and> length bs = n) \<and> (\<forall>n. r_ptrs c n) \<and>
     (\<exists>offs. r_offs c OFFCHUNK = Some offs \<and> length offs = OFFCHUNK)"

section \<open>The image of a sample\<close>

definition sys_comp :: "layout \<Rightarrow> zlib \<Rightarrow> wsample \<Rightarrow> int \<times> byte list" where
  "sys_comp L z ws = z_compress z (sizeof_sstat L) (sstat_image L (ws_sstat ws))"

definition task_image :: "layout \<Rightarrow> wsample \<Rightarrow> byte list" where
  "task_image L ws = concat (map (tstat_image L) (taskall (ws_dev ws)))"

definition task_comp :: "layout \<Rightarrow> zlib \<Rightarrow> wsample \<Rightarrow> int \<times> byte list" where
  "task_comp L z ws = z_compress z (length (task_image L ws)) (task_image L ws)"

text \<open>A sample is written under the \<open>supportflags\<close> of that time.\<close>

type_synonym entry = "i32 \<times> wsample"

definition entry_record :: "layout \<Rightarrow> zlib \<Rightarrow> entry \<Rightarrow> rawrecord" where
  "entry_record L z x = (case x of (support, ws) \<Rightarrow>
     raw_record support ws (length (snd (sys_comp L z ws))) (length (snd (task_comp L z ws))))"

definition entry_image :: "layout \<Rightarrow> zlib \<Rightarrow> entry \<Rightarrow> byte list" where
  "entry_image L z x =
     record_image (entry_record L z x) @ snd (sys_comp L z (snd x)) @ snd (task_comp L z (snd x))"

definition log_image :: "layout \<Rightarrow> zlib \<Rightarrow> rawenv \<Rightarrow> entry list \<Rightarrow> byte list" where
  "log_image L z g xs = header_image (new_header L g) @ concat (map (entry_image L z) xs)"

text \<open>
  The lists and counts of a deviation structure agree with its tasks, as \<open>deviattask\<close> leaves them, and the tasks can be counted
  in an \<open>int\<close>.
\<close>

definition dev_ok :: "devtstat \<Rightarrow> bool" where
  "dev_ok d \<longleftrightarrow> (let ts = taskall d; act = (\<lambda>i. \<not> truth (gen_wasinactive (t_gen (ts ! i))));
       prc = (\<lambda>i. truth (gen_isproc (t_gen (ts ! i)))) in
     procall d = filter prc [0..<length ts] \<and> procactive d = filter (\<lambda>i. prc i \<and> act i) [0..<length ts] \<and>
     ntaskall d = of_nat (length ts) \<and> ntaskactive d = of_nat (length (filter act [0..<length ts])) \<and>
     nprocall d = of_nat (length (procall d)) \<and> nprocactive d = of_nat (length (procactive d)) \<and>
     length ts < 2 ^ 31)"

text \<open>The totals of the threads are kept in members of 32 bits.\<close>

definition log_dev :: "devtstat \<Rightarrow> devtstat" where
  "log_dev d = d\<lparr>totrun := take_bit 32 (totrun d), totslpi := take_bit 32 (totslpi d), totslpu := take_bit 32 (totslpu d),
     totzombie := take_bit 32 (totzombie d)\<rparr>"

text \<open>Both compressions succeed and give less than two gigabytes.\<close>

definition entry_ok :: "layout \<Rightarrow> zlib \<Rightarrow> entry \<Rightarrow> bool" where
  "entry_ok L z x \<longleftrightarrow> (case x of (support, ws) \<Rightarrow>
     has_image L ws \<and> dev_ok (ws_dev ws) \<and> sizeof_sstat L < 2 ^ 31 \<and> length (task_image L ws) < 2 ^ 31 \<and>
     fst (sys_comp L z ws) = 0 \<and> fst (task_comp L z ws) = 0)"

lemma length_task_image:
  "has_image L ws \<Longrightarrow> length (task_image L ws) = length (taskall (ws_dev ws)) * sizeof_tstat L"
proof -
  have "\<forall>t\<in>set ts. length (tstat_image L t) = sizeof_tstat L \<Longrightarrow>
    length (concat (map (tstat_image L) ts)) = length ts * sizeof_tstat L" for ts
    by (induction ts) auto
  then show "has_image L ws \<Longrightarrow> ?thesis"
    by (simp add: has_image_def task_image_def)
qed

lemma compressed:
  assumes "zlib_ok z" and "fst (z_compress z room src) = 0"
  shows "snd (z_compress z room src) \<noteq> []" and "length (snd (z_compress z room src)) \<le> room"
    and "length src \<le> room' \<Longrightarrow> z_uncompress z room' (snd (z_compress z room src)) = (0, src)"
  using assms unfolding zlib_ok_def by (metis prod.collapse)+

lemmas sys_comp_facts = compressed [where room = "sizeof_sstat L" and src = "sstat_image L (ws_sstat ws)" for L :: layout and ws :: wsample,
    folded sys_comp_def]
lemmas task_comp_facts = compressed [where room = "length (task_image L ws)" and src = "task_image L ws" for L ws,
    folded task_comp_def]

lemma record_ok_entry [simp]: "record_ok (entry_record L z x)"
  by (simp add: entry_record_def raw_record_def record_ok_def Let_def split: prod.split)

lemma length_entry_image:
  "length (entry_image L z x) =
     sizeof_rawrecord + length (snd (sys_comp L z (snd x))) + length (snd (task_comp L z (snd x)))"
  by (simp add: entry_image_def length_record_image)

lemma header_ok_new: "length (g_utsname g) = sizeof_utsname \<Longrightarrow> header_ok (new_header L g)"
  by (simp add: header_ok_def new_header_def)

section \<open>Reading back a compressed block\<close>

lemma word_small_31:
  assumes "n < 2 ^ 31"
  shows "unat (of_nat n :: i32) = n" and "sint (of_nat n :: i32) = int n"
    and "unat (scast (of_nat n :: i32) :: u64) = n"
proof -
  show u: "unat (of_nat n :: i32) = n"
    using assms by (simp add: unat_of_nat)
  show s: "sint (of_nat n :: i32) = int n"
    using assms by (simp add: signed_of_nat signed_take_bit_int_eq_self)
  show "unat (scast (of_nat n :: i32) :: u64) = n"
  proof -
    have "scast (of_nat n :: i32) = (of_nat n :: u64)"
      unfolding scast_eq s by simp
    then show ?thesis using assms by (simp add: unat_of_nat)
  qed
qed

lemma getraw_block:
  fixes z src room0
  defines "cbuf \<equiv> snd (z_compress z room0 src)"
  assumes "memory_ok c" "zlib_ok z" "fst (z_compress z room0 src) = 0" "length cbuf < 2 ^ 31"
    and "length src \<le> room" "length old = length src" "drop pos bs = cbuf @ rest"
  shows "getraw z c bs pos (of_nat (length cbuf)) room old = Inr (pos + length cbuf, src)"
proof -
  obtain m where "r_malloc c (length cbuf) = Some m"
    using assms(2) unfolding memory_ok_def by blast
  moreover have "z_uncompress z room cbuf = (0, src)"
    unfolding cbuf_def by (rule compressed(3) [OF assms(3,4,6)])
  ultimately show ?thesis
    using assms(5,7,8) by (simp add: getraw_def word_small_31 read_at_def testcompval_def Let_def)
qed

lemma raw_tasks_image:
  assumes "has_image L ws"
  shows "raw_tasks L (task_image L ws) (length (taskall (ws_dev ws))) = taskall (ws_dev ws)"
proof (rule nth_equalityI)
  define ts where "ts = taskall (ws_dev ws)"
  have im: "length (tstat_image L t) = sizeof_tstat L" "tstat_value L (tstat_image L t) = t" if "t \<in> set ts" for t
    using assms that by (simp_all add: has_image_def ts_def)
  fix i assume "i < length (raw_tasks L (task_image L ws) (length (taskall (ws_dev ws))))"
  then have i: "i < length ts" by (simp add: raw_tasks_def ts_def)
  have "length (concat (map (tstat_image L) us)) = length us * sizeof_tstat L" if "set us \<subseteq> set ts" for us
    using that by (induction us) (auto simp: im)
  then have "length (concat (map (tstat_image L) (take i ts))) = i * sizeof_tstat L"
    using i by (simp add: set_take_subset)
  moreover have "task_image L ws = concat (map (tstat_image L) (take i ts)) @ tstat_image L (ts ! i) @
      concat (map (tstat_image L) (drop (Suc i) ts))"
    unfolding task_image_def ts_def [symmetric]
    by (subst id_take_nth_drop [OF i]) simp
  ultimately show "raw_tasks L (task_image L ws) (length (taskall (ws_dev ws))) ! i = taskall (ws_dev ws) ! i"
    using i im [of "ts ! i"] by (simp add: raw_tasks_def ts_def)
qed (simp add: raw_tasks_def)

lemma raw_lists_enumerate:
  fixes ts i
  defines "P \<equiv> (\<lambda>x. truth (gen_isproc (t_gen (snd x))))" and "A \<equiv> (\<lambda>x. \<not> truth (gen_wasinactive (t_gen (snd x))))"
  assumes "length pa + length (filter P (enumerate i ts)) \<le> ca"
    and "length pk + length (filter (\<lambda>x. P x \<and> A x) (enumerate i ts)) \<le> ck"
  shows "raw_lists ca ck ts i pa pk l =
     Some (pa @ map fst (filter P (enumerate i ts)), pk @ map fst (filter (\<lambda>x. P x \<and> A x) (enumerate i ts)),
       l + length (filter A (enumerate i ts)))"
  using assms(3,4)
proof (induction ts arbitrary: i pa pk l)
  case (Cons t ts)
  then show ?case
    by (cases "gen_isproc (t_gen t) = 0"; cases "gen_wasinactive (t_gen t) = 0") (auto simp: push_def P_def A_def)
qed simp

lemma filter_enumerate:
  "filter (\<lambda>x. Q (snd x)) (enumerate 0 ts) = map (\<lambda>i. (i, ts ! i)) (filter (\<lambda>i. Q (ts ! i)) [0..<length ts])"
proof -
  have "enumerate 0 ts = map (\<lambda>i. (i, ts ! i)) [0..<length ts]"
    by (rule nth_equalityI) (simp_all add: nth_enumerate_eq)
  then show ?thesis by (simp add: filter_map o_def)
qed

lemma raw_lists_all:
  fixes ts
  defines "prc \<equiv> (\<lambda>i. truth (gen_isproc (t_gen (ts ! i))))" and "act \<equiv> (\<lambda>i. \<not> truth (gen_wasinactive (t_gen (ts ! i))))"
  assumes "length (filter prc [0..<length ts]) \<le> ca" and "length (filter (\<lambda>i. prc i \<and> act i) [0..<length ts]) \<le> ck"
  shows "raw_lists ca ck ts 0 [] [] 0 =
    Some (filter prc [0..<length ts], filter (\<lambda>i. prc i \<and> act i) [0..<length ts], length (filter act [0..<length ts]))"
proof -
  let ?P = "\<lambda>t. truth (gen_isproc (t_gen t))" and ?A = "\<lambda>t. \<not> truth (gen_wasinactive (t_gen t))"
  note f = filter_enumerate [of ?P ts] filter_enumerate [of ?A ts] filter_enumerate [of "\<lambda>t. ?P t \<and> ?A t" ts]
  show ?thesis
    using assms(3,4) raw_lists_enumerate [of "[]" 0 ts ca "[]" ck 0]
    by (simp only: f prc_def act_def) (simp add: o_def)
qed

section \<open>Reading back the statistics of a sample\<close>

lemma ucast_of_nat_32:
  shows "(ucast (of_nat n :: u64) :: u32) = of_nat n"
    and "n < 2 ^ 31 \<Longrightarrow> unat (of_nat n :: u32) = n"
proof -
  show "(ucast (of_nat n :: u64) :: u32) = of_nat n"
    by transfer simp
qed (simp add: unat_of_nat)

lemma ucast_ucast_64: "ucast (ucast x :: u32) = (take_bit 32 x :: u64)"
  by transfer simp

lemma take_bit_small_64:
  fixes x :: u64
  assumes "x < 2 ^ 32"
  shows "take_bit 32 x = x"
proof -
  have "unat x < 2 ^ 32"
    using assms by (simp add: word_less_nat_alt)
  then show ?thesis
    by (intro word_unat_eq_iff [THEN iffD2]) (simp add: unsigned_take_bit_eq take_bit_nat_eq_self)
qed

lemma log_dev_same:
  "totrun d < 2 ^ 32 \<Longrightarrow> totslpi d < 2 ^ 32 \<Longrightarrow> totslpu d < 2 ^ 32 \<Longrightarrow> totzombie d < 2 ^ 32 \<Longrightarrow> log_dev d = d"
  by (simp add: log_dev_def take_bit_small_64)

lemma dev_ok_counts:
  assumes "dev_ok d"
  shows "length (procall d) \<le> length (taskall d)" and "length (procactive d) \<le> length (procall d)"
    and "length (taskall d) < 2 ^ 31"
proof -
  have "length (filter (\<lambda>x. P x \<and> Q x) xs) \<le> length (filter P xs)" for P Q :: "nat \<Rightarrow> bool" and xs
    by (induction xs) auto
  then show "length (procactive d) \<le> length (procall d)"
    using assms by (simp add: dev_ok_def Let_def)
  show "length (procall d) \<le> length (taskall d)" "length (taskall d) < 2 ^ 31"
    using assms by (simp_all add: dev_ok_def Let_def) (metis length_filter_le length_upt minus_nat.diff_0)
qed

lemma raw_dev_back:
  assumes "dev_ok d" and "rr_totproc rr = of_nat (length (procall d))" and "rr_nactproc rr = of_nat (length (procactive d))"
    and "rr_totrun rr = ucast (totrun d)" and "rr_totslpi rr = ucast (totslpi d)"
    and "rr_totslpu rr = ucast (totslpu d)" and "rr_totzomb rr = ucast (totzombie d)"
  shows "\<not> rr_totproc rr < rr_nactproc rr"
    and "\<exists>l. raw_lists (unat (rr_totproc rr)) (unat (rr_nactproc rr)) (taskall d) 0 [] [] 0 = Some (procall d, procactive d, l) \<and>
      \<lparr>taskall = taskall d, procall = procall d, procactive = procactive d, ntaskall = of_nat (length (taskall d)),
        ntaskactive = of_nat l, nprocall = of_nat (length (procall d)), nprocactive = of_nat (length (procactive d)),
        totrun = ucast (rr_totrun rr), totslpi = ucast (rr_totslpi rr), totslpu = ucast (rr_totslpu rr),
        totzombie = ucast (rr_totzomb rr)\<rparr> = log_dev d"
proof -
  let ?ts = "taskall d"
  have n: "unat (rr_totproc rr) = length (procall d)" "unat (rr_nactproc rr) = length (procactive d)"
    using assms(2,3) dev_ok_counts [OF assms(1)] by (simp_all add: ucast_of_nat_32)
  then show "\<not> rr_totproc rr < rr_nactproc rr"
    using dev_ok_counts(2) [OF assms(1)] by (simp add: word_less_nat_alt)
  have "raw_lists (length (procall d)) (length (procactive d)) ?ts 0 [] [] 0 =
      Some (procall d, procactive d, length (filter (\<lambda>i. \<not> truth (gen_wasinactive (t_gen (?ts ! i)))) [0..<length ?ts]))"
    using assms(1) raw_lists_all [of ?ts] by (simp add: dev_ok_def Let_def)
  then show "\<exists>l. raw_lists (unat (rr_totproc rr)) (unat (rr_nactproc rr)) (taskall d) 0 [] [] 0 = Some (procall d, procactive d, l) \<and>
      \<lparr>taskall = taskall d, procall = procall d, procactive = procactive d, ntaskall = of_nat (length (taskall d)),
        ntaskactive = of_nat l, nprocall = of_nat (length (procall d)), nprocactive = of_nat (length (procactive d)),
        totrun = ucast (rr_totrun rr), totslpi = ucast (rr_totslpi rr), totslpu = ucast (rr_totslpu rr),
        totzombie = ucast (rr_totzomb rr)\<rparr> = log_dev d"
    using assms n by (simp add: dev_ok_def Let_def ucast_ucast_64 log_dev_def)
qed

lemma scast_count:
  assumes "n * m < 2 ^ 31" and "n < 2 ^ 31"
  shows "unat (of_nat m * scast (of_nat n :: u32) :: u64) = n * m"
proof -
  have "scast (of_nat n :: u32) = (of_nat n :: u64)"
    using word_small_31(2) [OF assms(2)] unfolding scast_eq by simp
  then have "of_nat m * scast (of_nat n :: u32) = (of_nat (n * m) :: u64)"
    by (simp add: mult.commute)
  then show ?thesis
    using assms(1) by (simp add: unat_of_nat del: of_nat_mult)
qed

lemma raw_stats_entry:
  assumes "memory_ok c" "zlib_ok z" "entry_ok L z (support, ws)" "length old = sizeof_sstat L"
    and "drop pos bs = snd (sys_comp L z ws) @ snd (task_comp L z ws) @ rest"
  shows "raw_stats L z c bs pos (entry_record L z (support, ws)) old =
    Some (Inr (pos + length (snd (sys_comp L z ws)) + length (snd (task_comp L z ws)), sstat_image L (ws_sstat ws), log_dev (ws_dev ws)))"
proof -
  let ?rr = "entry_record L z (support, ws)" and ?d = "ws_dev ws" and ?ts = "taskall (ws_dev ws)"
  note ok = assms(3) [unfolded entry_ok_def, simplified]
  have im: "length (sstat_image L (ws_sstat ws)) = sizeof_sstat L"
    using ok by (simp add: has_image_def)
  have len: "length (snd (sys_comp L z ws)) < 2 ^ 31" "length (snd (task_comp L z ws)) < 2 ^ 31"
    using ok sys_comp_facts(2) [OF assms(2), of L ws] task_comp_facts(2) [OF assms(2), of L ws] by simp_all
  have rr: "rr_scomplen ?rr = of_nat (length (snd (sys_comp L z ws)))" "rr_pcomplen ?rr = of_nat (length (snd (task_comp L z ws)))"
    "rr_ndeviat ?rr = of_nat (length ?ts)" "rr_totproc ?rr = of_nat (length (procall ?d))"
    "rr_nactproc ?rr = of_nat (length (procactive ?d))" "rr_totrun ?rr = ucast (totrun ?d)"
    "rr_totslpi ?rr = ucast (totslpi ?d)" "rr_totslpu ?rr = ucast (totslpu ?d)" "rr_totzomb ?rr = ucast (totzombie ?d)"
    using ok by (simp_all add: entry_record_def raw_record_def Let_def dev_ok_def ucast_of_nat_32)
  have n: "unat (rr_ndeviat ?rr) = length ?ts" "length ?ts < 2 ^ 31"
    using dev_ok_counts(3) ok rr(3) by (simp_all add: ucast_of_nat_32)
  have ti: "length (task_image L ws) = length ?ts * sizeof_tstat L"
    using ok by (simp add: length_task_image)
  obtain junk where junk: "r_malloc c (sizeof_tstat L * length ?ts) = Some junk" "length junk = length (task_image L ws)"
    using assms(1) ti unfolding memory_ok_def by (metis mult.commute)
  have ptrs: "r_ptrs c k" for k
    using assms(1) by (simp add: memory_ok_def)
  have s: "getraw z c bs pos (rr_scomplen ?rr) (sizeof_sstat L) old =
      Inr (pos + length (snd (sys_comp L z ws)), sstat_image L (ws_sstat ws))"
    unfolding rr(1) sys_comp_def
    by (rule getraw_block) (use assms im ok len in \<open>simp_all add: sys_comp_def\<close>)
  have p: "getraw z c bs (pos + length (snd (sys_comp L z ws))) (rr_pcomplen ?rr) (length (task_image L ws)) junk =
      Inr (pos + length (snd (sys_comp L z ws)) + length (snd (task_comp L z ws)), task_image L ws)"
    unfolding rr(2) task_comp_def
    by (rule getraw_block [where rest = rest])
      (use assms ok len junk in \<open>simp_all add: task_comp_def add.commute [of pos] flip: drop_drop\<close>)
  have room: "unat (of_nat (sizeof_tstat L) * scast (rr_ndeviat ?rr) :: u64) = length (task_image L ws)"
    unfolding rr(3) ti by (rule scast_count) (use ok ti n in simp_all)
  have tasks: "raw_tasks L (task_image L ws) (length ?ts) = ?ts"
    using ok by (simp add: raw_tasks_image)
  show ?thesis
    using raw_dev_back [OF _ rr(4-9)] ok
    by (auto simp: raw_stats_def s p room tasks n junk(1) ptrs Let_def)
qed

section \<open>Flags of a sample\<close>

text \<open>The bits of \<open>supportflags\<close> that a log keeps for every sample.\<close>

definition FEATURES :: i32 where
  "FEATURES = RAWLOGNG OR DOCKSTAT"

lemma support_bits:
  "ACCTACTIVE = 2 ^ 0" "IOSTAT = 2 ^ 2" "NETATOP = 2 ^ 4" "NETATOPD = 2 ^ 5" "DOCKSTAT = 2 ^ 6"
  by (simp_all add: ACCTACTIVE_def IOSTAT_def NETATOP_def NETATOPD_def DOCKSTAT_def)

lemma bit_set_flag: "bit (set_flag b m s) n \<longleftrightarrow> (if bit m n then b else bit s n)"
  by (auto simp: set_flag_def bit_simps dest: bit_imp_le_length)

lemma truth_flag: "truth (s AND 2 ^ k) \<longleftrightarrow> bit (s :: 'a::len word) k"
  by (simp add: and_exp_eq_0_iff_not_bit)

lemma raw_flags_read:
  "truth (raw_flags s f AND RRACCTACTIVE) = truth (s AND ACCTACTIVE)"
  "truth (raw_flags s f AND RRIOSTAT) = truth (s AND IOSTAT)"
  "truth (raw_flags s f AND RRNETATOP) = truth (s AND NETATOP)"
  "truth (raw_flags s f AND RRNETATOPD) = truth (s AND NETATOPD)"
  "truth (raw_flags s f AND RRDOCKSTAT) = truth (s AND DOCKSTAT)"
  "raw_flags s f AND RRBOOT = (if truth (ucast f AND RRBOOT) then RRBOOT else 0)"
  by (simp_all add: raw_flags_def RRBOOT_def RRACCTACTIVE_def RRIOSTAT_def RRNETATOP_def RRNETATOPD_def RRDOCKSTAT_def)

lemma bit_support:
  "bit ACCTACTIVE n \<longleftrightarrow> n = 0" "bit IOSTAT n \<longleftrightarrow> n = 2" "bit NETATOP n \<longleftrightarrow> n = 4" "bit NETATOPD n \<longleftrightarrow> n = 5"
  "bit DOCKSTAT n \<longleftrightarrow> n = 6"
  unfolding support_bits bit_exp_iff by auto

lemma truth_support:
  "truth (s AND ACCTACTIVE) \<longleftrightarrow> bit s 0" "truth (s AND IOSTAT) \<longleftrightarrow> bit s 2" "truth (s AND NETATOP) \<longleftrightarrow> bit s 4"
  "truth (s AND NETATOPD) \<longleftrightarrow> bit s 5" "truth (s AND DOCKSTAT) \<longleftrightarrow> bit s 6"
  unfolding support_bits truth_flag by simp_all

lemma bit_FEATURES: "bit FEATURES n \<longleftrightarrow> n = 0 \<or> n = 2 \<or> n = 4 \<or> n = 5 \<or> n = 6"
  by (auto simp: FEATURES_def RAWLOGNG_def bit_or_iff bit_support)

lemma raw_support_restores:
  assumes "s AND NOT FEATURES = h AND NOT FEATURES" and "h AND RAWLOGNG = RAWLOGNG"
  shows "raw_support h (raw_flags w f) s = (h AND NOT FEATURES) OR (w AND FEATURES)"
proof (rule bit_word_eqI)
  fix n assume "n < LENGTH(32)"
  have "bit s n = bit h n" if "\<not> bit FEATURES n"
    using that assms(1) \<open>n < LENGTH(32)\<close> by (metis bit_and_iff bit_not_iff possible_bit_word)
  then show "bit (raw_support h (raw_flags w f) s) n = bit ((h AND NOT FEATURES) OR (w AND FEATURES)) n"
    using \<open>n < LENGTH(32)\<close> unfolding raw_support_def raw_flags_read Let_def truth_support
    by (auto simp: assms(2) bit_set_flag bit_or_iff bit_and_iff bit_not_iff bit_support bit_FEATURES)
qed

section \<open>The offset list\<close>

text \<open>
  The next record to be read is number \<open>p\<close> (from zero), and \<open>off\<close> gives the offsets of the records.  The list holds the
  offsets of the records before it, but there are two ways to count: at first the offset of record 0 is in both of the
  places 0 and 1; after the user moved back from record 0 the places and the records have the same numbers.
\<close>

definition offs_ok :: "(nat \<Rightarrow> nat) \<Rightarrow> nat \<Rightarrow> nat list \<Rightarrow> nat \<Rightarrow> bool" where
  "offs_ok off p l cur \<longleftrightarrow> cur < length l \<and> (\<exists>d \<le> 1. cur + d = p + 1 \<and> (\<forall>i < cur. l ! i = off (i + d - 1)))"

lemma offs_okE:
  assumes "offs_ok off p l cur"
  obtains (same) "cur = p + 1" "cur < length l" "\<And>i. i < cur \<Longrightarrow> l ! i = off (i - 1)"
    | (moved) "cur = p" "cur < length l" "\<And>i. i < cur \<Longrightarrow> l ! i = off i"
proof -
  from assms obtain d where d: "d \<le> 1" "cur + d = p + 1" "cur < length l" "\<forall>i < cur. l ! i = off (i + d - 1)"
    unfolding offs_ok_def by blast
  then consider "d = 0" | "d = 1" by linarith
  then show thesis
  proof cases
    case 1
    with d show thesis by (intro same) simp_all
  next
    case 2
    with d show thesis by (intro moved) simp_all
  qed
qed

lemma offs_ok_same: "cur = p + 1 \<Longrightarrow> cur < length l \<Longrightarrow> (\<And>i. i < cur \<Longrightarrow> l ! i = off (i - 1)) \<Longrightarrow> offs_ok off p l cur"
  unfolding offs_ok_def by (auto intro!: exI [of _ 0])

lemma offs_ok_moved: "cur = p \<Longrightarrow> cur < length l \<Longrightarrow> (\<And>i. i < cur \<Longrightarrow> l ! i = off i) \<Longrightarrow> offs_ok off p l cur"
  unfolding offs_ok_def by (auto intro!: exI [of _ 1])

lemma offs_ok_back:
  assumes "offs_ok off (Suc p) l cur"
  defines "cur' \<equiv> if 2 \<le> cur then cur - 2 else 0"
  shows "cur' < length l \<and> l ! cur' = off (p - 1) \<and> offs_ok off (p - 1) l cur'"
proof (cases p)
  case 0
  with assms have "cur' = 0" "cur' < cur" "l ! 0 = off 0" "cur < length l"
    by (auto elim!: offs_okE)
  then show ?thesis using 0 by (auto intro: offs_ok_moved)
next
  case (Suc k)
  from assms(1) show ?thesis
  proof (cases rule: offs_okE)
    case same
    then have "cur' = Suc k" by (simp add: cur'_def Suc)
    then show ?thesis using same Suc by (auto intro!: offs_ok_same)
  next
    case moved
    then have "cur' = k" by (simp add: cur'_def Suc)
    then show ?thesis using moved Suc by (auto intro!: offs_ok_moved)
  qed
qed

lemma raw_enter_ok:
  assumes "memory_ok c" and "offs_ok off p (st_offlist st) (st_offcur st)"
  shows "\<exists>l. raw_enter c (off p) st = Some (Inr (st\<lparr>st_offlist := l, st_offcur := Suc (st_offcur st)\<rparr>)) \<and>
    offs_ok off (Suc p) l (Suc (st_offcur st))"
proof -
  obtain new where new: "r_offs c OFFCHUNK = Some new" "length new = OFFCHUNK"
    using assms(1) unfolding memory_ok_def by blast
  define l where "l = (st_offlist st)[st_offcur st := off p] @ (if length (st_offlist st) \<le> Suc (st_offcur st) then new else [])"
  have cur: "st_offcur st < length (st_offlist st)"
    using assms(2) by (simp add: offs_ok_def)
  then have enter: "raw_enter c (off p) st = Some (Inr (st\<lparr>st_offlist := l, st_offcur := Suc (st_offcur st)\<rparr>))"
    by (simp add: raw_enter_def l_def new)
  have len: "Suc (st_offcur st) < length l"
    using cur new by (auto simp: l_def OFFCHUNK_def)
  have nth: "l ! i = (if i = st_offcur st then off p else st_offlist st ! i)" if "i < Suc (st_offcur st)" for i
    using that cur by (simp add: l_def nth_append)
  from assms(2) have "offs_ok off (Suc p) l (Suc (st_offcur st))"
  proof (cases rule: offs_okE)
    case same
    then show ?thesis using len nth by (intro offs_ok_same) (auto simp: less_Suc_eq)
  next
    case moved
    then show ?thesis using len nth by (intro offs_ok_moved) (auto simp: less_Suc_eq)
  qed
  with enter show ?thesis by blast
qed

text \<open>Where a command leads from sample \<open>p\<close>, whose time of day is \<open>t\<close>.\<close>

definition nav_next :: "u32 \<Rightarrow> char \<Rightarrow> u32 \<Rightarrow> nat \<Rightarrow> nat" where
  "nav_next t cmd begintime p =
     (if cmd = MSAMPPREV then p - 1
      else if cmd = MRESET \<or> cmd = MSAMPBRANCH \<and> truth begintime \<and> begintime < t then 0
      else p + 1)"

lemma raw_command_ok:
  fixes t :: u32
  assumes "offs_ok off (Suc p) (st_offlist st) (st_offcur st)" and "st_pos st = off (Suc p)"
  defines "q \<equiv> nav_next t (st_lastcmd st) (st_begin st) p"
  shows "\<exists>cur. raw_command t st = Some (st\<lparr>st_offcur := cur, st_pos := off q\<rparr>) \<and> offs_ok off q (st_offlist st) cur"
proof -
  consider (prev) "st_lastcmd st = MSAMPPREV"
    | (reset) "st_lastcmd st \<noteq> MSAMPPREV"
        "st_lastcmd st = MRESET \<or> st_lastcmd st = MSAMPBRANCH \<and> truth (st_begin st) \<and> st_begin st < t"
    | (forward) "st_lastcmd st \<noteq> MSAMPPREV"
        "\<not> (st_lastcmd st = MRESET \<or> st_lastcmd st = MSAMPBRANCH \<and> truth (st_begin st) \<and> st_begin st < t)"
    by blast
  then show ?thesis
  proof cases
    case prev
    then have q: "q = p - 1" by (simp add: q_def nav_next_def)
    let ?cur = "if 2 \<le> st_offcur st then st_offcur st - 2 else 0"
    have "?cur < length (st_offlist st)" "st_offlist st ! ?cur = off q" "offs_ok off q (st_offlist st) ?cur"
      using offs_ok_back [OF assms(1)] by (simp_all only: q)
    then show ?thesis using prev by (intro exI [of _ ?cur]) (simp add: raw_command_def)
  next
    case reset
    then have q: "q = 0" by (auto simp: q_def nav_next_def)
    have "st_offlist st ! 0 = off 0" "st_offlist st \<noteq> []" "offs_ok off 0 (st_offlist st) 1"
      using assms(1) by (cases rule: offs_okE; auto intro!: offs_ok_same)+
    then show ?thesis using reset q by (intro exI [of _ 1]) (simp add: raw_command_def)
  next
    case forward
    then have "q = Suc p" "raw_command t st = Some st"
      unfolding q_def nav_next_def raw_command_def by auto
    then show ?thesis using assms(1,2) by (intro exI [of _ "st_offcur st"]) simp
  qed
qed

lemma raw_rewind_ok:
  assumes "offs_ok off n (st_offlist st) (st_offcur st)" and "0 < n"
  shows "\<exists>cur. raw_rewind st = Some (st\<lparr>st_begin := 0, st_offcur := cur, st_pos := off (n - 1)\<rparr>) \<and>
    offs_ok off (n - 1) (st_offlist st) cur"
proof -
  have "1 \<le> st_offcur st" "st_offlist st ! (st_offcur st - 1) = off (n - 1)" "st_offcur st < length (st_offlist st)"
    "offs_ok off (n - 1) (st_offlist st) (st_offcur st - 1)"
    using assms by (cases rule: offs_okE; auto intro: offs_ok_same offs_ok_moved)+
  then show ?thesis by (intro exI [of _ "st_offcur st - 1"]) (simp add: raw_rewind_def)
qed

section \<open>A turn of the loop\<close>

definition log_ok :: "layout \<Rightarrow> zlib \<Rightarrow> rawcalls \<Rightarrow> rawenv \<Rightarrow> entry list \<Rightarrow> bool" where
  "log_ok L z c g xs \<longleftrightarrow> zlib_ok z \<and> memory_ok c \<and> length (g_utsname g) = sizeof_utsname \<and>
     sizeof_sstat L < 2 ^ 31 \<and> sizeof_tstat L < 2 ^ 31 \<and> (\<forall>x \<in> set xs. entry_ok L z x)"

definition offset :: "layout \<Rightarrow> zlib \<Rightarrow> entry list \<Rightarrow> nat \<Rightarrow> nat" where
  "offset L z xs p = sizeof_rawheader + length (concat (map (entry_image L z) (take p xs)))"

definition entry_secs :: "rawcalls \<Rightarrow> entry \<Rightarrow> u32" where
  "entry_secs c x = of_int (daysecs (r_localtime c) (ws_curtime (snd x)))"

text \<open>What is shown for a sample of a log whose header was written under \<open>g\<close>.\<close>

definition shown_entry :: "rawenv \<Rightarrow> entry \<Rightarrow> bool \<Rightarrow> shown" where
  "shown_entry g x islast = (case x of (support, ws) \<Rightarrow>
     \<lparr>sh_curtime = ws_curtime ws, sh_interval = ws_numsecs ws, sh_dev = log_dev (ws_dev ws), sh_sstat = ws_sstat ws,
      sh_nexit = ws_nexit ws, sh_noverflow = ws_noverflow ws,
      sh_flags = (if truth (ucast (ws_flag ws) AND RRBOOT) then RRBOOT else 0) OR (if islast then RRLAST else 0),
      sh_support = (g_supportflags g AND NOT FEATURES) OR (support AND FEATURES)\<rparr>)"

definition nav_inv :: "layout \<Rightarrow> zlib \<Rightarrow> rawenv \<Rightarrow> entry list \<Rightarrow> nat \<Rightarrow> 'v rawstate \<Rightarrow> bool" where
  "nav_inv L z g xs p st \<longleftrightarrow> p \<le> length xs \<and> st_pos st = offset L z xs p \<and>
     offs_ok (offset L z xs) p (st_offlist st) (st_offcur st) \<and> length (st_sstat st) = sizeof_sstat L \<and>
     st_support st AND NOT FEATURES = g_supportflags g AND NOT FEATURES"

lemma offset_Suc:
  "p < length xs \<Longrightarrow> offset L z xs (Suc p) = offset L z xs p + length (entry_image L z (xs ! p))"
  by (simp add: offset_def take_Suc_conv_app_nth)

lemma drop_offset:
  assumes "length (g_utsname g) = sizeof_utsname"
  shows "drop (offset L z xs p) (log_image L z g xs) = concat (map (entry_image L z) (drop p xs))"
proof -
  have "log_image L z g xs = (header_image (new_header L g) @ concat (map (entry_image L z) (take p xs))) @
      concat (map (entry_image L z) (drop p xs))"
    by (simp add: log_image_def flip: concat_append map_append)
  then show ?thesis
    by (simp add: offset_def length_header_image header_ok_new assms)
qed

lemma length_log_image:
  "length (g_utsname g) = sizeof_utsname \<Longrightarrow> length (log_image L z g xs) = offset L z xs (length xs)"
  by (simp add: log_image_def offset_def length_header_image header_ok_new)

lemma drop_offset_nth:
  assumes "length (g_utsname g) = sizeof_utsname" and "p < length xs"
  shows "drop (offset L z xs p) (log_image L z g xs) =
    record_image (entry_record L z (xs ! p)) @ snd (sys_comp L z (snd (xs ! p))) @ snd (task_comp L z (snd (xs ! p))) @
    concat (map (entry_image L z) (drop (Suc p) xs))"
  using assms by (simp add: drop_offset Cons_nth_drop_Suc [symmetric] entry_image_def)

lemma header_facts:
  assumes "sizeof_sstat L < 2 ^ 31" and "sizeof_tstat L < 2 ^ 31"
  shows "compatible L (new_header L g)" and "unat (rh_rawreclen (new_header L g)) = sizeof_rawrecord"
    and "rh_supportflags (new_header L g) AND NOT FEATURES = g_supportflags g AND NOT FEATURES"
    and "rh_supportflags (new_header L g) AND RAWLOGNG = RAWLOGNG"
  using assms
  by (simp_all add: compatible_def new_header_def sizeof_rawheader_def sizeof_rawrecord_def unat_of_nat)
    (rule bit_word_eqI; auto simp: bit_or_iff bit_and_iff bit_not_iff FEATURES_def)+

lemma nav_read:
  assumes "log_ok L z c g xs" "nav_inv L z g xs p st" "p < length xs"
  shows "read_at (log_image L z g xs) (st_pos st) sizeof_rawrecord = record_image (entry_record L z (xs ! p))"
  using assms by (simp add: nav_inv_def log_ok_def read_at_def drop_offset_nth length_record_image)

lemma nav_end:
  assumes "log_ok L z c g xs" "nav_inv L z g xs (length xs) st"
  shows "raw_step L z c show e (Some (log_image L z g xs)) (new_header L g) st = Some (Inr (Ended st))"
  using assms header_facts(2) [of L g]
  by (simp add: raw_step_def nav_inv_def log_ok_def read_at_def drop_offset sizeof_rawrecord_def)

lemma nav_enter:
  fixes c e
  assumes "log_ok L z c g xs" "nav_inv L z g xs p st" "p < length xs"
  defines "rr \<equiv> entry_record L z (xs ! p)" and "t \<equiv> entry_secs c (xs ! p)"
  shows "\<exists>l st1. st1 = st\<lparr>st_pos := st_pos st + sizeof_rawrecord, st_offlist := l, st_offcur := Suc (st_offcur st)\<rparr> \<and>
    offs_ok (offset L z xs) (Suc p) l (Suc (st_offcur st)) \<and>
    raw_step L z c show e (Some (log_image L z g xs)) (new_header L g) st =
      (if truth (st_begin st) \<and> t < st_begin st
       then Some (Inr (Next (st1\<lparr>st_lastcmd := CHR 0x01, st_pos := st_pos st1 + unat (rr_scomplen rr + rr_pcomplen rr)\<rparr>)))
       else if truth e \<and> e < t then Some (Inr (Returned (st1\<lparr>st_begin := 0\<rparr>)))
       else raw_show L z c show (log_image L z g xs) (new_header L g) rr t (st1\<lparr>st_begin := 0\<rparr>))"
proof -
  have reclen: "unat (rh_rawreclen (new_header L g)) = sizeof_rawrecord"
    using assms(1) by (simp add: log_ok_def header_facts)
  have pos: "st_pos st = offset L z xs p"
    using assms(2) by (simp add: nav_inv_def)
  have read: "read_at (log_image L z g xs) (offset L z xs p) sizeof_rawrecord = record_image rr"
    "length (record_image rr) = sizeof_rawrecord"
    using nav_read [OF assms(1-3)] by (simp_all add: rr_def length_record_image flip: pos)
  have val: "record_value (record_image rr) = rr"
    using record_roundtrip [of rr "[]"] by (simp add: rr_def)
  have "of_int (daysecs (r_localtime c) (rr_curtime rr)) = t"
    by (simp add: t_def rr_def entry_secs_def entry_record_def raw_record_def Let_def split: prod.split)
  moreover obtain l where "raw_enter c (offset L z xs p) (st\<lparr>st_pos := st_pos st + sizeof_rawrecord\<rparr>) =
      Some (Inr (st\<lparr>st_pos := st_pos st + sizeof_rawrecord, st_offlist := l, st_offcur := Suc (st_offcur st)\<rparr>))"
    "offs_ok (offset L z xs) (Suc p) l (Suc (st_offcur st))"
    using raw_enter_ok [of c "offset L z xs" p "st\<lparr>st_pos := st_pos st + sizeof_rawrecord\<rparr>"] assms(1,2)
    by (auto simp: log_ok_def nav_inv_def)
  ultimately show ?thesis
    by (intro exI [of _ l]) (simp add: raw_step_def reclen pos read val Let_def)
qed

lemma entry_lengths:
  assumes "log_ok L z c g xs" "p < length xs"
  defines "rr \<equiv> entry_record L z (xs ! p)"
  shows "unat (rr_scomplen rr + rr_pcomplen rr) = length (snd (sys_comp L z (snd (xs ! p)))) + length (snd (task_comp L z (snd (xs ! p))))"
    and "sizeof_rawrecord < length (entry_image L z (xs ! p))"
proof -
  obtain support ws where x: "xs ! p = (support, ws)" by fastforce
  have ok: "entry_ok L z (support, ws)" "zlib_ok z"
    using assms(1,2) x unfolding log_ok_def by (metis nth_mem)+
  then have len: "length (snd (sys_comp L z ws)) < 2 ^ 31" "length (snd (task_comp L z ws)) < 2 ^ 31" "snd (sys_comp L z ws) \<noteq> []"
    using sys_comp_facts(1,2) [of z L ws] task_comp_facts(2) [of z L ws] by (auto simp: entry_ok_def)
  then have "unat (of_nat (length (snd (sys_comp L z ws))) + of_nat (length (snd (task_comp L z ws))) :: u32) =
      length (snd (sys_comp L z ws)) + length (snd (task_comp L z ws))"
    by (simp add: unat_of_nat flip: of_nat_add)
  then show "unat (rr_scomplen rr + rr_pcomplen rr) = length (snd (sys_comp L z (snd (xs ! p)))) + length (snd (task_comp L z (snd (xs ! p))))"
    by (simp add: rr_def x entry_record_def raw_record_def Let_def)
  show "sizeof_rawrecord < length (entry_image L z (xs ! p))"
    using len(3) by (simp add: length_entry_image x)
qed

lemma nav_skip:
  assumes "log_ok L z c g xs" "nav_inv L z g xs p st" "p < length xs"
    and "truth (st_begin st)" "entry_secs c (xs ! p) < st_begin st"
  shows "\<exists>st'. raw_step L z c show e (Some (log_image L z g xs)) (new_header L g) st = Some (Inr (Next st')) \<and>
    nav_inv L z g xs (Suc p) st' \<and> st_begin st' = st_begin st \<and> st_lastcmd st' = CHR 0x01 \<and> st_vis st' = st_vis st"
proof -
  note len = entry_lengths(1) [OF assms(1,3)]
  show ?thesis
    using nav_enter [OF assms(1-3), of "show" e] assms(2-5)
    by (auto simp: nav_inv_def offset_Suc length_entry_image len)
qed

lemma nav_stop:
  assumes "log_ok L z c g xs" "nav_inv L z g xs p st" "p < length xs"
    and "\<not> (truth (st_begin st) \<and> entry_secs c (xs ! p) < st_begin st)" and "truth e" "e < entry_secs c (xs ! p)"
  shows "\<exists>st'. raw_step L z c show e (Some (log_image L z g xs)) (new_header L g) st = Some (Inr (Returned st')) \<and>
    st_vis st' = st_vis st"
  using nav_enter [OF assms(1-3), of "show" e] assms(4-6) by auto

lemma nav_last:
  assumes "log_ok L z c g xs" "p < length xs"
  shows "int (length (log_image L z g xs)) - int (offset L z xs (Suc p)) \<le> int sizeof_rawrecord \<longleftrightarrow> Suc p = length xs"
proof -
  have len: "length (log_image L z g xs) = offset L z xs (length xs)"
    using assms(1) by (simp add: log_ok_def length_log_image)
  have "offset L z xs (Suc p) + sizeof_rawrecord < offset L z xs (length xs)" if "Suc p < length xs"
  proof -
    have "offset L z xs (Suc (Suc p)) \<le> offset L z xs (length xs)"
      using that by (simp add: offset_def flip: map_append concat_append)
        (metis append_take_drop_id concat_append length_append le_add1 map_append)
    then show ?thesis
      using entry_lengths(2) [OF assms(1) that] by (simp add: offset_Suc that)
  qed
  then show ?thesis
    using assms(2) by (cases "Suc p = length xs") (auto simp: len)
qed

lemma nav_show:
  assumes ok: "log_ok L z c g xs" "nav_inv L z g xs p st" "p < length xs"
    and "\<not> (truth (st_begin st) \<and> entry_secs c (xs ! p) < st_begin st)" and "\<not> (truth e \<and> e < entry_secs c (xs ! p))"
  shows "\<exists>st'. raw_step L z c show e (Some (log_image L z g xs)) (new_header L g) st = Some (Inr (Next st')) \<and>
    (st_vis st', st_begin st', st_lastcmd st') = show (st_vis st) 0 (shown_entry g (xs ! p) (Suc p = length xs)) \<and>
    nav_inv L z g xs (nav_next (entry_secs c (xs ! p)) (st_lastcmd st') (st_begin st') p) st'"
proof -
  obtain support ws where x: "xs ! p = (support, ws)" by fastforce
  define t where "t = entry_secs c (xs ! p)"
  define rr where "rr = entry_record L z (xs ! p)"
  define st1 where "st1 l = st\<lparr>st_pos := st_pos st + sizeof_rawrecord, st_offlist := l, st_offcur := Suc (st_offcur st), st_begin := 0\<rparr>" for l
  obtain l where l: "offs_ok (offset L z xs) (Suc p) l (Suc (st_offcur st))"
    "raw_step L z c show e (Some (log_image L z g xs)) (new_header L g) st =
       raw_show L z c show (log_image L z g xs) (new_header L g) rr t (st1 l)"
    using nav_enter [OF ok, of "show" e] assms(4,5) unfolding t_def rr_def st1_def by auto
  have okx: "entry_ok L z (support, ws)" "zlib_ok z" "memory_ok c" "length (g_utsname g) = sizeof_utsname"
    using ok(1,3) x unfolding log_ok_def by (metis nth_mem)+
  have stats: "raw_stats L z c (log_image L z g xs) (st_pos (st1 l)) rr (st_sstat (st1 l)) =
      Some (Inr (offset L z xs (Suc p), sstat_image L (ws_sstat ws), log_dev (ws_dev ws)))"
  proof -
    have pos: "st_pos (st1 l) = offset L z xs p + sizeof_rawrecord" "length (st_sstat (st1 l)) = sizeof_sstat L"
      using ok(2) by (simp_all add: st1_def nav_inv_def)
    have "drop (sizeof_rawrecord + offset L z xs p) (log_image L z g xs) =
        snd (sys_comp L z ws) @ snd (task_comp L z ws) @ concat (map (entry_image L z) (drop (Suc p) xs))"
      unfolding drop_drop [symmetric] drop_offset_nth [OF okx(4) ok(3)]
      by (simp add: x length_record_image)
    then show ?thesis
      using raw_stats_entry [OF okx(3,2,1) pos(2)] ok(3)
      by (simp add: pos(1) rr_def x offset_Suc length_entry_image add.assoc add.commute)
  qed
  have im: "sstat_value L (sstat_image L (ws_sstat ws)) = ws_sstat ws" "length (sstat_image L (ws_sstat ws)) = sizeof_sstat L"
    using okx(1) by (simp_all add: entry_ok_def has_image_def)
  have hdr: "rh_supportflags (new_header L g) AND NOT FEATURES = g_supportflags g AND NOT FEATURES"
    "rh_supportflags (new_header L g) AND RAWLOGNG = RAWLOGNG" "unat (rh_rawreclen (new_header L g)) = sizeof_rawrecord"
    using ok(1) by (simp_all add: log_ok_def header_facts)
  define support' where "support' = (g_supportflags g AND NOT FEATURES) OR (support AND FEATURES)"
  have sup: "raw_support (rh_supportflags (new_header L g)) (rr_flags rr) (st_support (st1 l)) = support'"
    using raw_support_restores [of "st_support st" "rh_supportflags (new_header L g)" support "ws_flag ws"] hdr ok(2)
    by (simp add: st1_def rr_def x entry_record_def raw_record_def Let_def nav_inv_def support'_def)
  have sup': "support' AND NOT FEATURES = g_supportflags g AND NOT FEATURES"
    unfolding support'_def by (rule bit_word_eqI) (auto simp: bit_or_iff bit_and_iff bit_not_iff)
  obtain v b cmd where sh: "show (st_vis st) 0 (shown_entry g (xs ! p) (Suc p = length xs)) = (v, b, cmd)"
    by (cases "show (st_vis st) 0 (shown_entry g (xs ! p) (Suc p = length xs))") auto
  define st2 where "st2 = (st1 l)\<lparr>st_pos := offset L z xs (Suc p), st_sstat := sstat_image L (ws_sstat ws), st_support := support',
    st_sampcnt := st_sampcnt (st1 l) + 1, st_vis := v, st_begin := b, st_lastcmd := cmd\<rparr>"
  have rrf: "rr_curtime rr = ws_curtime ws" "rr_interval rr = ws_numsecs ws" "rr_nexit rr = ws_nexit ws"
    "rr_noverflow rr = ws_noverflow ws" "rr_flags rr AND RRBOOT = (if truth (ucast (ws_flag ws) AND RRBOOT) then RRBOOT else 0)"
    using raw_flags_read(6) [of support "ws_flag ws"]
    by (simp_all add: rr_def x entry_record_def raw_record_def Let_def)
  have shown: "\<lparr>sh_curtime = rr_curtime rr, sh_interval = rr_interval rr, sh_dev = log_dev (ws_dev ws),
      sh_sstat = sstat_value L (sstat_image L (ws_sstat ws)), sh_nexit = rr_nexit rr, sh_noverflow = rr_noverflow rr,
      sh_flags = (rr_flags rr AND RRBOOT) OR
        (if int (length (log_image L z g xs)) - int (offset L z xs (Suc p)) \<le> int sizeof_rawrecord then RRLAST else 0),
      sh_support = support'\<rparr> = shown_entry g (xs ! p) (Suc p = length xs)"
    unfolding nav_last [OF ok(1,3)] by (simp only: rrf im(1) shown_entry_def x support'_def prod.case)
  have stf: "st_vis (st1 l) = st_vis st" "st_begin (st1 l) = 0"
    by (simp_all add: st1_def)
  have "raw_show L z c show (log_image L z g xs) (new_header L g) rr t (st1 l) =
      do { st \<leftarrow> raw_command t st2; Some (Inr (Next st)) }"
    unfolding raw_show_def stats by (simp only: Option.bind.bind_lunit sum.case prod.case Let_def sup hdr(3) shown stf sh st2_def)
  moreover obtain cur where "raw_command t st2 = Some (st2\<lparr>st_offcur := cur, st_pos := offset L z xs (nav_next t cmd b p)\<rparr>)"
    "offs_ok (offset L z xs) (nav_next t cmd b p) l cur"
    using raw_command_ok [of "offset L z xs" p st2 t] l(1) by (auto simp: st2_def st1_def)
  moreover have "nav_next t cmd b p \<le> length xs"
    using ok(3) by (auto simp: nav_next_def)
  ultimately show ?thesis
    using l(2) sh im(2) sup' by (simp add: nav_inv_def st2_def st1_def t_def)
qed

end
