(* ===== verification/Raw_Browse.thy ===== *)
theory Raw_Browse
  imports Raw_Sample
begin

text \<open>
  What the raw log guarantees: samples that were written are read back, whatever way the user moves between them; the
  samples shown are those a simple walk over sample numbers gives; what a write leaves in the file, whatever its system calls return.
\<close>

section \<open>Walking over sample numbers\<close>

text \<open>
  Samples have times of day \<open>ts\<close>.  From sample \<open>p\<close> on, samples before \<open>begintime\<close> are passed over; behind the last
  sample the last one is shown again.  \<open>endtime\<close> ends the walk.  A key of the user is a command with the
  \<open>begintime\<close> that was entered with it; after the last key the remaining samples follow.
\<close>

definition seek :: "u32 list \<Rightarrow> u32 \<Rightarrow> nat \<Rightarrow> nat" where
  "seek ts b p = p + length (takeWhile (\<lambda>t. truth b \<and> t < b) (drop p ts))"

definition stop_at :: "u32 list \<Rightarrow> u32 \<Rightarrow> nat \<Rightarrow> nat" where
  "stop_at ts b p = (if seek ts b p < length ts then seek ts b p else length ts - 1)"

definition late :: "u32 list \<Rightarrow> u32 \<Rightarrow> nat \<Rightarrow> bool" where
  "late ts e q \<longleftrightarrow> truth e \<and> e < ts ! q"

primrec browse :: "u32 list \<Rightarrow> u32 \<Rightarrow> (char \<times> u32) list \<Rightarrow> u32 \<Rightarrow> nat \<Rightarrow> nat list" where
  "browse ts e [] b p = takeWhile (\<lambda>i. \<not> late ts e i) [stop_at ts b p..<length ts]"
| "browse ts e (k # ks) b p = (let q = stop_at ts b p in
     if late ts e q then [] else q # browse ts e ks (snd k) (nav_next (ts ! q) (fst k) (snd k) q))"

text \<open>A display that logs what it is told to show, and a user with a list of keys.\<close>

definition scripted :: "((char \<times> u32) list \<times> shown list) show_samp" where
  "scripted v b sh = (case v of (keys, shs) \<Rightarrow>
     (case keys of [] \<Rightarrow> (([], shs @ [sh]), b, NUL) | k # ks \<Rightarrow> ((ks, shs @ [sh]), snd k, fst k)))"

section \<open>The loops walk like that\<close>

text \<open>What follows the inner loop.\<close>

definition raw_after :: "('v rawstate \<Rightarrow> (int + 'v outcome) option) \<Rightarrow> int + bool \<times> 'v rawstate \<Rightarrow> (int + 'v rawstate) option" where
  "raw_after step r = (case r of
     Inl e \<Rightarrow> Some (Inl e)
   | Inr (ret, st) \<Rightarrow> if ret then Some (Inr st) else do { st \<leftarrow> raw_rewind st; raw_outer step st })"

lemma raw_outer_runs:
  "st_lastcmd st \<noteq> NUL \<Longrightarrow> st_lastcmd st \<noteq> CHR ''q'' \<Longrightarrow> raw_outer step st = raw_inner step st \<bind> raw_after step"
  by (subst raw_outer.simps) (simp add: raw_after_def [abs_def])

lemma raw_outer_stops: "st_lastcmd st = NUL \<or> st_lastcmd st = CHR ''q'' \<Longrightarrow> raw_outer step st = Some (Inr st)"
  by (subst raw_outer.simps) simp

lemma raw_inner_next: "step st = Some (Inr (Next st')) \<Longrightarrow> raw_inner step st = raw_inner step st'"
  by (subst raw_inner.simps) simp

lemma raw_inner_ended: "step st = Some (Inr (Ended st')) \<Longrightarrow> raw_inner step st = Some (Inr (False, st'))"
  by (subst raw_inner.simps) simp

lemma raw_inner_returned: "step st = Some (Inr (Returned st')) \<Longrightarrow> raw_inner step st = Some (Inr (True, st'))"
  by (subst raw_inner.simps) simp

abbreviation log_step :: "layout \<Rightarrow> zlib \<Rightarrow> rawcalls \<Rightarrow> rawenv \<Rightarrow> entry list \<Rightarrow> 'v show_samp \<Rightarrow> u32 \<Rightarrow> 'v rawstate \<Rightarrow> (int + 'v outcome) option" where
  "log_step L z c g xs show e \<equiv> raw_step L z c show e (Some (log_image L z g xs)) (new_header L g)"

lemma seek_step:
  "p < length ts \<Longrightarrow> seek ts b p = (if truth b \<and> ts ! p < b then seek ts b (Suc p) else p)"
  by (simp add: seek_def Cons_nth_drop_Suc [symmetric])

lemma seek_end: "length ts \<le> p \<Longrightarrow> seek ts b p = p"
  by (simp add: seek_def)

lemma seek_le:
  assumes "p \<le> length ts"
  shows "seek ts b p \<le> length ts"
proof -
  have "length (takeWhile (\<lambda>t. truth b \<and> t < b) (drop p ts)) \<le> length (drop p ts)"
    by (rule length_takeWhile_le)
  then show ?thesis using assms by (simp add: seek_def)
qed

text \<open>Samples before \<open>begintime\<close> are passed over.\<close>

lemma inner_seek:
  fixes c xs
  defines "ts \<equiv> map (entry_secs c) xs"
  assumes "log_ok L z c g xs" "nav_inv L z g xs p st"
  shows "\<exists>st'. raw_inner (log_step L z c g xs show e) st = raw_inner (log_step L z c g xs show e) st' \<and>
    nav_inv L z g xs (seek ts (st_begin st) p) st' \<and> st_begin st' = st_begin st \<and> st_vis st' = st_vis st \<and>
    st_lastcmd st' \<in> {st_lastcmd st, CHR 0x01} \<and>
    (seek ts (st_begin st) p < length xs \<longrightarrow> \<not> (truth (st_begin st) \<and> ts ! seek ts (st_begin st) p < st_begin st))"
  using assms(3)
proof (induction "length xs - p" arbitrary: p st)
  case 0
  then have "p = length xs" by (simp add: nav_inv_def)
  then show ?case using 0 by (intro exI [of _ st]) (simp add: seek_end ts_def)
next
  case (Suc k)
  then have p: "p < length xs" and k: "k = length xs - Suc p" by simp_all
  show ?case
  proof (cases "truth (st_begin st) \<and> ts ! p < st_begin st")
    case True
    then obtain st1 where st1: "log_step L z c g xs show e st = Some (Inr (Next st1))" "nav_inv L z g xs (Suc p) st1"
      "st_begin st1 = st_begin st" "st_lastcmd st1 = CHR 0x01" "st_vis st1 = st_vis st"
      using nav_skip [OF assms(2) Suc.prems p, of "show" e] p by (auto simp: ts_def)
    have "seek ts (st_begin st) p = seek ts (st_begin st) (Suc p)"
      using True p by (subst seek_step) (simp_all add: ts_def)
    moreover obtain st2 where "raw_inner (log_step L z c g xs show e) st1 = raw_inner (log_step L z c g xs show e) st2"
      "nav_inv L z g xs (seek ts (st_begin st) (Suc p)) st2" "st_begin st2 = st_begin st" "st_vis st2 = st_vis st"
      "st_lastcmd st2 = CHR 0x01"
      "seek ts (st_begin st) (Suc p) < length xs \<longrightarrow>
        \<not> (truth (st_begin st) \<and> ts ! seek ts (st_begin st) (Suc p) < st_begin st)"
      using Suc.hyps(1) [OF k st1(2)] st1(3-5) by auto
    ultimately show ?thesis
      using raw_inner_next [where step = "log_step L z c g xs show e", OF st1(1)] by (intro exI [of _ st2]) simp
  next
    case False
    then have "seek ts (st_begin st) p = p"
      using p by (auto simp: seek_step ts_def)
    then show ?thesis
      using Suc.prems False by (intro exI [of _ st]) simp
  qed
qed

text \<open>The samples that follow without any key.\<close>

lemma inner_forward:
  fixes c xs g L z e
  defines "ts \<equiv> map (entry_secs c) xs" and "sh \<equiv> (\<lambda>i. shown_entry g (xs ! i) (Suc i = length xs))"
    and "S \<equiv> log_step L z c g xs scripted e"
  assumes "log_ok L z c g xs" "nav_inv L z g xs p st" "0 < length xs"
    and "st_begin st = 0" "st_lastcmd st = NUL" "st_vis st = ([], shs)"
  shows "\<exists>st'. raw_inner S st \<bind> raw_after S = Some (Inr st') \<and>
    snd (st_vis st') = shs @ map sh (takeWhile (\<lambda>i. \<not> late ts e i) [p..<length xs])"
  using assms(5,7-)
proof (induction "length xs - p" arbitrary: p st shs)
  case 0
  then have p: "p = length xs" by (simp add: nav_inv_def)
  have "raw_inner S st = Some (Inr (False, st))"
    unfolding S_def by (rule raw_inner_ended) (use nav_end [OF assms(4)] 0 p in auto)
  moreover obtain cur where "raw_rewind st = Some (st\<lparr>st_begin := 0, st_offcur := cur, st_pos := offset L z xs (length xs - 1)\<rparr>)"
    using raw_rewind_ok 0(2) p assms(6) unfolding nav_inv_def by blast
  ultimately show ?case
    using 0 p by (simp add: raw_after_def raw_outer_stops)
next
  case (Suc k)
  then have p: "p < length xs" and k: "k = length xs - Suc p" by simp_all
  show ?case
  proof (cases "late ts e p")
    case True
    then obtain st' where st': "S st = Some (Inr (Returned st'))" "st_vis st' = st_vis st"
      using nav_stop [OF assms(4) Suc.prems(1) p, of e scripted] Suc.prems(2) p by (auto simp: late_def ts_def S_def)
    have "raw_inner S st \<bind> raw_after S = Some (Inr st')"
      by (simp add: raw_inner_returned [where step = S, OF st'(1)] raw_after_def)
    then show ?thesis
      using st'(2) Suc.prems(4) True p by (simp add: upt_conv_Cons)
  next
    case False
    then obtain st' where st': "S st = Some (Inr (Next st'))"
      "(st_vis st', st_begin st', st_lastcmd st') = scripted (st_vis st) 0 (sh p)"
      "nav_inv L z g xs (nav_next (entry_secs c (xs ! p)) (st_lastcmd st') (st_begin st') p) st'"
      using nav_show [OF assms(4) Suc.prems(1) p, of e scripted] Suc.prems(2) p by (auto simp: late_def ts_def S_def sh_def)
    have v: "st_vis st' = ([], shs @ [sh p])" "st_begin st' = 0" "st_lastcmd st' = NUL"
      using st'(2) Suc.prems(4) by (auto simp: scripted_def)
    then have "nav_inv L z g xs (Suc p) st'"
      using st'(3) by (simp add: nav_next_def MSAMPPREV_def MRESET_def MSAMPBRANCH_def)
    from Suc.hyps(1) [OF k this v(2,3,1)] show ?thesis
      using False p raw_inner_next [where step = S, OF st'(1)] by (simp add: upt_conv_Cons)
  qed
qed

definition keys_ok :: "(char \<times> u32) list \<Rightarrow> bool" where
  "keys_ok ks \<longleftrightarrow> (\<forall>k \<in> set ks. fst k \<noteq> NUL \<and> fst k \<noteq> CHR ''q'')"

text \<open>From a sample that is not passed over.\<close>

definition walks :: "layout \<Rightarrow> zlib \<Rightarrow> rawcalls \<Rightarrow> rawenv \<Rightarrow> entry list \<Rightarrow> u32 \<Rightarrow> (char \<times> u32) list \<Rightarrow> bool" where
  "walks L z c g xs e ks \<longleftrightarrow> (\<forall>p st shs. nav_inv L z g xs p st \<longrightarrow> st_vis st = (ks, shs) \<longrightarrow>
     st_lastcmd st \<noteq> NUL \<longrightarrow> st_lastcmd st \<noteq> CHR ''q'' \<longrightarrow>
     (\<exists>st'. raw_inner (log_step L z c g xs scripted e) st \<bind> raw_after (log_step L z c g xs scripted e) = Some (Inr st') \<and>
        snd (st_vis st') = shs @ map (\<lambda>i. shown_entry g (xs ! i) (Suc i = length xs))
          (browse (map (entry_secs c) xs) e ks (st_begin st) p)))"

lemma walk_here:
  fixes c xs g L z e
  defines "ts \<equiv> map (entry_secs c) xs" and "sh \<equiv> (\<lambda>i. shown_entry g (xs ! i) (Suc i = length xs))"
    and "S \<equiv> log_step L z c g xs scripted e"
  assumes "log_ok L z c g xs" "nav_inv L z g xs p st" "p < length xs" "st_vis st = (ks, shs)"
    and "\<not> (truth (st_begin st) \<and> ts ! p < st_begin st)"
    and later: "\<And>k ks'. ks = k # ks' \<Longrightarrow> fst k \<noteq> NUL \<and> fst k \<noteq> CHR ''q'' \<and> walks L z c g xs e ks'"
  shows "\<exists>st'. raw_inner S st \<bind> raw_after S = Some (Inr st') \<and>
    snd (st_vis st') = shs @ map sh (case ks of [] \<Rightarrow> takeWhile (\<lambda>i. \<not> late ts e i) [p..<length xs]
      | k # ks' \<Rightarrow> if late ts e p then [] else p # browse ts e ks' (snd k) (nav_next (ts ! p) (fst k) (snd k) p))"
proof (cases "late ts e p")
  case True
  then obtain st' where st': "S st = Some (Inr (Returned st'))" "st_vis st' = st_vis st"
    using nav_stop [OF assms(4-6), of e scripted] assms(6,8) by (auto simp: late_def ts_def S_def)
  have "raw_inner S st \<bind> raw_after S = Some (Inr st')"
    by (simp add: raw_inner_returned [where step = S, OF st'(1)] raw_after_def)
  then show ?thesis
    using st'(2) assms(6,7) True by (auto simp: upt_conv_Cons split: list.split)
next
  case False
  then obtain st' where st': "S st = Some (Inr (Next st'))"
    "(st_vis st', st_begin st', st_lastcmd st') = scripted (st_vis st) 0 (sh p)"
    "nav_inv L z g xs (nav_next (entry_secs c (xs ! p)) (st_lastcmd st') (st_begin st') p) st'"
    using nav_show [OF assms(4-6), of e scripted] assms(6,8) by (auto simp: late_def ts_def S_def sh_def)
  note nxt = raw_inner_next [where step = S, OF st'(1)]
  show ?thesis
  proof (cases ks)
    case Nil
    have v: "st_vis st' = ([], shs @ [sh p])" "st_begin st' = 0" "st_lastcmd st' = NUL"
      using st'(2) assms(7) Nil by (auto simp: scripted_def)
    then have "nav_inv L z g xs (Suc p) st'"
      using st'(3) by (simp add: nav_next_def MSAMPPREV_def MRESET_def MSAMPBRANCH_def)
    moreover have "0 < length xs" using assms(6) by linarith
    ultimately show ?thesis
      using inner_forward [OF assms(4) _ _ v(2,3,1), of "Suc p" e] False Nil assms(6) nxt
      unfolding S_def [symmetric] sh_def [symmetric] ts_def [symmetric] by (simp add: upt_conv_Cons)
  next
    case (Cons k ks')
    have v: "st_vis st' = (ks', shs @ [sh p])" "st_begin st' = snd k" "st_lastcmd st' = fst k"
      using st'(2) assms(7) Cons by (auto simp: scripted_def)
    moreover have "nav_inv L z g xs (nav_next (ts ! p) (fst k) (snd k) p) st'"
      using st'(3) v assms(6) by (simp add: ts_def)
    ultimately show ?thesis
      using later [OF Cons] False Cons nxt unfolding walks_def S_def [symmetric] sh_def [symmetric] ts_def [symmetric]
      by fastforce
  qed
qed

lemma walk_any:
  fixes c xs g L z e
  defines "S \<equiv> log_step L z c g xs scripted e"
  assumes "log_ok L z c g xs" "0 < length xs"
    and later: "\<And>k ks'. ks = k # ks' \<Longrightarrow> fst k \<noteq> NUL \<and> fst k \<noteq> CHR ''q'' \<and> walks L z c g xs e ks'"
  shows "walks L z c g xs e ks"
  unfolding walks_def
proof (intro allI impI)
  define ts where "ts = map (entry_secs c) xs"
  fix p st and shs :: "shown list"
  assume st: "nav_inv L z g xs p st" "st_vis st = (ks, shs)" "st_lastcmd st \<noteq> NUL" "st_lastcmd st \<noteq> CHR ''q''"
  define q where "q = seek ts (st_begin st) p"
  obtain st1 where st1: "raw_inner S st = raw_inner S st1" "nav_inv L z g xs q st1" "st_begin st1 = st_begin st"
    "st_vis st1 = st_vis st" "st_lastcmd st1 \<in> {st_lastcmd st, CHR 0x01}"
    "q < length xs \<Longrightarrow> \<not> (truth (st_begin st) \<and> ts ! q < st_begin st)"
    using inner_seek [OF assms(2) st(1), of scripted e] unfolding S_def ts_def q_def by blast
  have res: "browse ts e ks (st_begin st) p = (case ks of [] \<Rightarrow> takeWhile (\<lambda>i. \<not> late ts e i) [r..<length xs]
      | k # ks' \<Rightarrow> if late ts e r then [] else r # browse ts e ks' (snd k) (nav_next (ts ! r) (fst k) (snd k) r))"
    if "r = stop_at ts (st_begin st) p" for r
    using that by (cases ks) (simp_all add: ts_def Let_def)
  have "q \<le> length xs"
    using st1(2) by (simp add: nav_inv_def)
  then consider (here) "q < length xs" | (ended) "q = length xs" by linarith
  then show "\<exists>st'. raw_inner (log_step L z c g xs scripted e) st \<bind> raw_after (log_step L z c g xs scripted e) = Some (Inr st') \<and>
      snd (st_vis st') = shs @ map (\<lambda>i. shown_entry g (xs ! i) (Suc i = length xs))
        (browse (map (entry_secs c) xs) e ks (st_begin st) p)"
    unfolding S_def [symmetric] ts_def [symmetric]
  proof cases
    case here
    then have "q = stop_at ts (st_begin st) p" by (simp add: stop_at_def q_def ts_def)
    note r = res [OF this]
    show "\<exists>st'. raw_inner S st \<bind> raw_after S = Some (Inr st') \<and> snd (st_vis st') = shs @ map (\<lambda>i. shown_entry g (xs ! i) (Suc i = length xs))
        (browse ts e ks (st_begin st) p)"
      unfolding r st1(1) unfolding S_def ts_def
      by (rule walk_here [OF assms(2) st1(2) here _ _ later]) (use st1 st(2) here in \<open>simp_all add: ts_def\<close>)
  next
    case ended
    then have "length xs - 1 = stop_at ts (st_begin st) p" by (simp add: stop_at_def q_def ts_def)
    note r = res [OF this]
    have "S st1 = Some (Inr (Ended st1))"
      using nav_end [OF assms(2)] st1(2) ended by (simp add: S_def)
    then have inner: "raw_inner S st1 = Some (Inr (False, st1))" by (rule raw_inner_ended)
    obtain cur where rew: "raw_rewind st1 = Some (st1\<lparr>st_begin := 0, st_offcur := cur, st_pos := offset L z xs (length xs - 1)\<rparr>)"
      "offs_ok (offset L z xs) (length xs - 1) (st_offlist st1) cur"
      using raw_rewind_ok [of "offset L z xs" "length xs" st1] st1(2) ended assms(3) by (auto simp: nav_inv_def)
    let ?st2 = "st1\<lparr>st_begin := 0, st_offcur := cur, st_pos := offset L z xs (length xs - 1)\<rparr>"
    have "nav_inv L z g xs (length xs - 1) ?st2"
      using st1(2) rew(2) by (simp add: nav_inv_def)
    note w = walk_here [OF assms(2) this, of ks shs e, OF _ _ _ later]
    have "st_lastcmd ?st2 \<noteq> NUL" "st_lastcmd ?st2 \<noteq> CHR ''q''"
      using st1(5) st(3,4) by auto
    then have "raw_inner S st \<bind> raw_after S = raw_inner S ?st2 \<bind> raw_after S"
      by (simp add: st1(1) inner raw_after_def [of S "Inr (False, st1)"] rew(1) raw_outer_runs)
    then show "\<exists>st'. raw_inner S st \<bind> raw_after S = Some (Inr st') \<and> snd (st_vis st') = shs @ map (\<lambda>i. shown_entry g (xs ! i) (Suc i = length xs))
        (browse ts e ks (st_begin st) p)"
      using w assms(3) st(2) st1(4) unfolding r unfolding S_def ts_def by simp
  qed
qed

lemma walks_all: "log_ok L z c g xs \<Longrightarrow> 0 < length xs \<Longrightarrow> keys_ok ks \<Longrightarrow> walks L z c g xs e ks"
  by (induction ks) (rule walk_any; simp add: keys_ok_def)+

section \<open>Reading a log\<close>

lemma raw_header_log:
  assumes "log_ok L z c g xs"
  shows "raw_header L c (Some (log_image L z g xs)) = Inr (new_header L g)"
proof -
  have "header_value (log_image L z g xs) = new_header L g" "sizeof_rawheader \<le> length (log_image L z g xs)"
    using assms by (simp_all add: log_ok_def log_image_def header_roundtrip header_ok_new length_header_image)
  moreover have "rh_magic (new_header L g) = MYMAGIC"
    by (simp add: new_header_def)
  ultimately show ?thesis
    using assms by (simp add: raw_header_def log_ok_def header_facts(1) Let_def)
qed

lemma rawread_log:
  assumes ok: "log_ok L z c g xs" "0 < length xs" "keys_ok keys"
    and "raw_name c rawname = Inr name" "r_open c name = Some (Some (log_image L z g xs))"
    and "length sstat = sizeof_sstat L"
  shows "\<exists>g' st. rawread L z c scripted rawname begintime endtime g0 sstat (keys, []) = Some (Inr (g', st)) \<and>
    snd (st_vis st) = map (\<lambda>i. shown_entry g (xs ! i) (Suc i = length xs))
      (browse (map (entry_secs c) xs) endtime keys begintime 0)"
proof -
  obtain offs where offs: "r_offs c OFFCHUNK = Some offs" "length offs = OFFCHUNK"
    using ok(1) unfolding log_ok_def memory_ok_def by blast
  define st where "st = \<lparr>st_pos = sizeof_rawheader, st_offlist = offs[0 := sizeof_rawheader], st_offcur = 1, st_lastcmd = CHR ''X'',
    st_begin = begintime, st_support = rh_supportflags (new_header L g), st_sampcnt = 0, st_sstat = sstat,
    st_vis = (keys, [] :: shown list)\<rparr>"
  have inv: "nav_inv L z g xs 0 st"
    using ok(1) offs assms(6)
    by (auto simp: nav_inv_def st_def offset_def log_ok_def header_facts(3) OFFCHUNK_def intro!: offs_ok_same)
  then obtain st' where st': "raw_outer (log_step L z c g xs scripted endtime) st = Some (Inr st')"
    "snd (st_vis st') = map (\<lambda>i. shown_entry g (xs ! i) (Suc i = length xs)) (browse (map (entry_secs c) xs) endtime keys begintime 0)"
    using walks_all [OF ok, of endtime, unfolded walks_def, rule_format, OF inv, of "[]"]
    by (auto simp: raw_outer_runs st_def)
  then show ?thesis
    using offs by (simp add: rawread_def assms(4) raw_open_def assms(5) raw_header_log [OF ok(1)] OFFCHUNK_def st_def)
qed

section \<open>Writing a log\<close>

text \<open>Every system call of the writer does its work.\<close>

definition complete :: "layout \<Rightarrow> zlib \<Rightarrow> wcalls \<Rightarrow> wsample \<Rightarrow> bool" where
  "complete L z c ws \<longleftrightarrow> w_creat c \<and> w_malloc c \<and> w_header c = int sizeof_rawheader \<and> w_record c = int sizeof_rawrecord \<and>
     w_sstat c = int (length (snd (sys_comp L z ws))) \<and> w_tstat c = int (length (snd (task_comp L z ws)))"

lemma write_at_end: "write_at bs (length bs) data (int (length data)) = (bs @ data, length (bs @ data))"
  by (simp add: write_at_def)

lemma task_bytes_all:
  assumes "entry_ok L z (support, ws)"
  shows "unat (of_nat (sizeof_tstat L) * ntaskall (ws_dev ws) :: u64) = length (task_image L ws)"
    and "task_bytes L (taskall (ws_dev ws)) (length (task_image L ws)) = Some (task_image L ws)"
proof -
  let ?n = "length (taskall (ws_dev ws))"
  have n: "ntaskall (ws_dev ws) = of_nat ?n" "length (task_image L ws) = ?n * sizeof_tstat L"
    "length (task_image L ws) < 2 ^ 31"
    using assms length_task_image [of L ws] by (simp_all add: entry_ok_def dev_ok_def Let_def)
  then have "of_nat (sizeof_tstat L) * ntaskall (ws_dev ws) = (of_nat (length (task_image L ws)) :: u64)"
    by (simp add: mult.commute)
  then show "unat (of_nat (sizeof_tstat L) * ntaskall (ws_dev ws) :: u64) = length (task_image L ws)"
    using n(3) by (simp add: unat_of_nat)
  show "task_bytes L (taskall (ws_dev ws)) (length (task_image L ws)) = Some (task_image L ws)"
    by (simp add: task_bytes_def Let_def flip: task_image_def)
qed

lemma rawwrite_appends:
  assumes "entry_ok L z (g_supportflags g, ws)" "complete L z c ws"
  shows "rawwrite L z g c ws (Opened bs (length bs)) =
    (let bs1 = bs @ entry_image L z (g_supportflags g, ws) in Some (Inr (Opened bs1 (length bs1))))"
proof -
  obtain sc where sc: "z_compress z (sizeof_sstat L) (sstat_image L (ws_sstat ws)) = (0, sc)" "sys_comp L z ws = (0, sc)"
    using assms(1) by (cases "sys_comp L z ws") (simp add: entry_ok_def sys_comp_def)
  obtain pc where pc: "z_compress z (length (task_image L ws)) (task_image L ws) = (0, pc)" "task_comp L z ws = (0, pc)"
    using assms(1) by (cases "task_comp L z ws") (simp add: entry_ok_def task_comp_def)
  define rb where "rb = record_image (entry_record L z (g_supportflags g, ws))"
  have rec: "record_image (raw_record (g_supportflags g) ws (length sc) (length pc)) = rb"
    by (simp add: rb_def entry_record_def sc(2) pc(2))
  have len: "length rb = sizeof_rawrecord"
    unfolding rb_def by (rule length_record_image) simp
  have w: "w_malloc c" "w_record c = int (length rb)" "w_sstat c = int (length sc)" "w_tstat c = int (length pc)"
    using assms(2) len by (simp_all add: complete_def sc(2) pc(2))
  note wr = write_at_end [of bs rb] write_at_end [of "bs @ rb" sc] write_at_end [of "bs @ rb @ sc" pc]
  show ?thesis
    using wr by (simp add: rawwrite_def sc pc task_bytes_all [OF assms(1)] testcompval_def rec w raw_put_def
        entry_image_def flip: rb_def)
qed

text \<open>Successive calls of \<open>rawwrite\<close>, each with the globals and the system calls of its time.\<close>

fun rawwrite_all :: "layout \<Rightarrow> zlib \<Rightarrow> (rawenv \<times> wcalls \<times> wsample) list \<Rightarrow> rawout \<Rightarrow> ((int \<times> byte list option) + rawout) option" where
  "rawwrite_all L z [] out = Some (Inr out)"
| "rawwrite_all L z ((g, c, ws) # ys) out = do {
     r \<leftarrow> rawwrite L z g c ws out;
     case r of Inl e \<Rightarrow> Some (Inl e) | Inr out \<Rightarrow> rawwrite_all L z ys out
   }"

definition entries :: "(rawenv \<times> wcalls \<times> wsample) list \<Rightarrow> entry list" where
  "entries ys = map (\<lambda>(g, c, ws). (g_supportflags g, ws)) ys"

definition writes_ok :: "layout \<Rightarrow> zlib \<Rightarrow> (rawenv \<times> wcalls \<times> wsample) list \<Rightarrow> bool" where
  "writes_ok L z ys \<longleftrightarrow> (\<forall>(g, c, ws) \<in> set ys. entry_ok L z (g_supportflags g, ws) \<and> complete L z c ws)"

lemma rawwrite_all_appends:
  "writes_ok L z ys \<Longrightarrow> rawwrite_all L z ys (Opened bs (length bs)) =
     (let bs1 = bs @ concat (map (entry_image L z) (entries ys)) in Some (Inr (Opened bs1 (length bs1))))"
proof (induction ys arbitrary: bs)
  case (Cons y ys)
  obtain g c ws where y: "y = (g, c, ws)" by (cases y) auto
  have ok: "entry_ok L z (g_supportflags g, ws)" "complete L z c ws" "writes_ok L z ys"
    using Cons.prems by (auto simp: writes_ok_def y)
  show ?case
    using Cons.IH [OF ok(3), of "bs @ entry_image L z (g_supportflags g, ws)"]
    by (simp add: y rawwrite_appends [OF ok(1,2)] Let_def entries_def)
qed (simp add: entries_def)

lemma rawwopen_creates:
  assumes "complete L z c ws" "length (g_utsname g) = sizeof_utsname"
  shows "rawwopen L g c None = Inr (log_image L z g [], length (log_image L z g []))"
  using assms write_at_end [of "[]" "header_image (new_header L g)"]
  by (simp add: rawwopen_def complete_def log_image_def length_header_image header_ok_new)

text \<open>An existing log is continued, by whatever version of the globals.\<close>

lemma rawwopen_continues:
  assumes "log_ok L z c' g0 xs" "w_open c" "\<not> w_ioerror c"
  shows "rawwopen L g c (Some (log_image L z g0 xs)) = Inr (log_image L z g0 xs, length (log_image L z g0 xs))"
proof -
  have "header_value (log_image L z g0 xs) = new_header L g0" "sizeof_rawheader \<le> length (log_image L z g0 xs)"
    using assms by (simp_all add: log_ok_def log_image_def header_roundtrip header_ok_new length_header_image)
  moreover have "rh_magic (new_header L g0) = MYMAGIC"
    by (simp add: new_header_def)
  ultimately show ?thesis
    using assms by (simp add: rawwopen_def log_ok_def header_facts(1) Let_def)
qed

lemma rawwrite_all_creates:
  assumes "writes_ok L z ((g, c, ws) # ys)" "length (g_utsname g) = sizeof_utsname"
  shows "rawwrite_all L z ((g, c, ws) # ys) (Unopened None) =
    (let bs = log_image L z g (entries ((g, c, ws) # ys)) in Some (Inr (Opened bs (length bs))))"
proof -
  have "complete L z c ws" using assms(1) by (simp add: writes_ok_def)
  then have "rawwrite L z g c ws (Unopened None) = rawwrite L z g c ws (Opened (log_image L z g []) (length (log_image L z g [])))"
    using rawwopen_creates [OF _ assms(2)] by (simp add: rawwrite_def)
  then have "rawwrite_all L z ((g, c, ws) # ys) (Unopened None) =
      rawwrite_all L z ((g, c, ws) # ys) (Opened (log_image L z g []) (length (log_image L z g [])))"
    by simp
  then show ?thesis
    unfolding rawwrite_all_appends [OF assms(1)] by (simp add: log_image_def Let_def)
qed

section \<open>A log without samples\<close>

lemma raw_outer_never:
  assumes "J st"
    and turn: "\<And>st. J st \<Longrightarrow> st_lastcmd st \<noteq> NUL \<and> st_lastcmd st \<noteq> CHR ''q'' \<and> step st = Some (Inr (Ended st)) \<and>
      (\<forall>st'. raw_rewind st = Some st' \<longrightarrow> J st')"
  shows "raw_outer step st = None"
proof -
  have "stp = step \<longrightarrow> \<not> J st" if "raw_outer stp st = Some r" for stp st r
  proof (rule raw_outer.raw_induct [where P = "\<lambda>stp st r. stp = step \<longrightarrow> \<not> J st", OF _ that], intro impI notI)
    fix outer stp st y
    assume IH: "\<And>stp st y. outer stp st = Some y \<Longrightarrow> stp = step \<longrightarrow> \<not> J st" and "stp = step" and "J st"
      and run: "(if st_lastcmd st = NUL \<or> st_lastcmd st = CHR ''q'' then Some (Inr st)
        else raw_inner stp st \<bind> (\<lambda>r. case r of Inl e \<Rightarrow> Some (Inl e)
          | Inr (ret, st) \<Rightarrow> if ret then Some (Inr st) else raw_rewind st \<bind> outer stp)) = Some y"
    then have "raw_rewind st \<bind> outer step = Some y"
      using turn [of st] raw_inner_ended [of step st st] by simp
    then obtain st' where "raw_rewind st = Some st'" "outer step st' = Some y"
      by (auto simp: bind_eq_Some_conv)
    then show False using IH [of step st' y] turn [OF \<open>J st\<close>] by blast
  qed
  then show ?thesis using assms(1) by (cases "raw_outer step st") blast+
qed

text \<open>
  A log with a header only, and a directory whose uninitialised header happens to fit, are read for ever.
\<close>

lemma empty_log_hangs:
  assumes "log_ok L z c g []"
  shows "raw_outer (log_step L z c g [] show e) \<lparr>st_pos = sizeof_rawheader, st_offlist = l[0 := sizeof_rawheader], st_offcur = 1,
      st_lastcmd = CHR ''X'', st_begin = b, st_support = s, st_sampcnt = 0, st_sstat = ss, st_vis = v\<rparr> = None"
proof (rule raw_outer_never [where J = "\<lambda>st. st_lastcmd st = CHR ''X'' \<and> st_pos st = sizeof_rawheader \<and> st_offcur st \<le> 1 \<and>
    (st_offlist st \<noteq> [] \<longrightarrow> st_offlist st ! 0 = sizeof_rawheader)"])
  fix st :: "'a rawstate"
  assume inv: "st_lastcmd st = CHR ''X'' \<and> st_pos st = sizeof_rawheader \<and> st_offcur st \<le> 1 \<and>
    (st_offlist st \<noteq> [] \<longrightarrow> st_offlist st ! 0 = sizeof_rawheader)"
  have "read_at (log_image L z g []) (st_pos st) n = []" for n
    using assms inv by (simp add: read_at_def log_image_def log_ok_def length_header_image header_ok_new)
  moreover have "unat (rh_rawreclen (new_header L g)) = sizeof_rawrecord"
    using assms by (simp add: log_ok_def header_facts)
  ultimately have "log_step L z c g [] show e st = Some (Inr (Ended st))"
    by (simp add: raw_step_def sizeof_rawrecord_def)
  moreover have "st_lastcmd st' = CHR ''X'' \<and> st_pos st' = sizeof_rawheader \<and> st_offcur st' \<le> 1 \<and>
      (st_offlist st' \<noteq> [] \<longrightarrow> st_offlist st' ! 0 = sizeof_rawheader)" if "raw_rewind st = Some st'" for st'
    using that inv by (cases "st_offcur st") (auto simp: raw_rewind_def bind_eq_Some_conv)
  ultimately show "st_lastcmd st \<noteq> NUL \<and> st_lastcmd st \<noteq> CHR ''q'' \<and> log_step L z c g [] show e st = Some (Inr (Ended st)) \<and>
      (\<forall>st'. raw_rewind st = Some st' \<longrightarrow> st_lastcmd st' = CHR ''X'' \<and> st_pos st' = sizeof_rawheader \<and> st_offcur st' \<le> 1 \<and>
        (st_offlist st' \<noteq> [] \<longrightarrow> st_offlist st' ! 0 = sizeof_rawheader))"
    using inv by simp
qed simp

lemma directory_hangs:
  assumes "st_lastcmd st = CHR ''X''"
  shows "raw_outer (raw_step L z c show e None rh) st = None"
  by (rule raw_outer_never [where J = "\<lambda>st. st_lastcmd st = CHR ''X''"])
    (use assms in \<open>auto simp: raw_step_def raw_rewind_def bind_eq_Some_conv Let_def\<close>)

section \<open>What a write leaves behind\<close>

text \<open>The three parts of a sample as they are handed to \<open>write\<close>, and the first bytes of each that arrive.\<close>

definition sample_parts :: "layout \<Rightarrow> zlib \<Rightarrow> rawenv \<Rightarrow> wsample \<Rightarrow> byte list \<times> byte list \<times> byte list" where
  "sample_parts L z g ws =
     (let room = unat (of_nat (sizeof_tstat L) * ntaskall (ws_dev ws) :: u64);
          sbuf = snd (z_compress z (sizeof_sstat L) (sstat_image L (ws_sstat ws)));
          pbuf = snd (z_compress z room (the (task_bytes L (taskall (ws_dev ws)) room)))
      in (record_image (raw_record (g_supportflags g) ws (length sbuf) (length pbuf)), sbuf, pbuf))"

definition sample_arrived :: "layout \<Rightarrow> zlib \<Rightarrow> rawenv \<Rightarrow> wcalls \<Rightarrow> wsample \<Rightarrow> byte list" where
  "sample_arrived L z g c ws = (case sample_parts L z g ws of (rr, sbuf, pbuf) \<Rightarrow>
     take (nat (w_record c)) rr @ take (nat (w_sstat c)) sbuf @ take (nat (w_tstat c)) pbuf)"

text \<open>A log that is there before the call, and what the log holds before the sample: a header that was just written, if it is new.\<close>

fun old_log :: "rawout \<Rightarrow> byte list option" where
  "old_log (Unopened f) = f"
| "old_log (Opened bs pos) = Some bs"

definition log_base :: "layout \<Rightarrow> rawenv \<Rightarrow> wcalls \<Rightarrow> rawout \<Rightarrow> byte list" where
  "log_base L g c out = (case old_log out of Some bs \<Rightarrow> bs | None \<Rightarrow> take (nat (w_header c)) (header_image (new_header L g)))"

text \<open>A log that exists is open at its end already, or can be opened.\<close>

fun reachable_log :: "wcalls \<Rightarrow> rawout \<Rightarrow> bool" where
  "reachable_log c (Opened bs pos) \<longleftrightarrow> pos = length bs"
| "reachable_log c (Unopened f) \<longleftrightarrow> f = None \<or> w_open c"

lemma raw_put_end:
  "raw_put c (length bs) (bs @ t, length (bs @ t)) data n =
     (if n = -1 then Inl (if w_truncate c then (7, Some bs) else (8, Some (bs @ t)))
      else Inr (bs @ t @ take (nat n) data, length (bs @ t @ take (nat n) data)))"
  by (simp add: raw_put_def write_at_def Let_def)

definition write_leaves :: "wcalls \<Rightarrow> byte list \<Rightarrow> byte list \<Rightarrow> (int \<times> byte list option) + rawout \<Rightarrow> bool" where
  "write_leaves c bs new r \<longleftrightarrow> (case r of
      Inl (e, f) \<Rightarrow> e \<in> {7, 8, 13} \<and> (\<exists>tail. f = Some (bs @ tail)) \<and> (w_truncate c \<longrightarrow> f = Some bs)
    | Inr out \<Rightarrow> w_record c \<noteq> -1 \<and> w_sstat c \<noteq> -1 \<and> w_tstat c \<noteq> -1 \<and> out = Opened (bs @ new) (length (bs @ new)))"

lemma write_leaves_puts:
  "write_leaves c bs (take (nat (w_record c)) a @ take (nat (w_sstat c)) b @ take (nat (w_tstat c)) d)
     (case raw_put c (length bs) (bs, length bs) a (w_record c) of Inl e \<Rightarrow> Inl e
      | Inr fp \<Rightarrow> (case raw_put c (length bs) fp b (w_sstat c) of Inl e \<Rightarrow> Inl e
        | Inr fp \<Rightarrow> (case raw_put c (length bs) fp d (w_tstat c) of Inl e \<Rightarrow> Inl e | Inr (bs, pos) \<Rightarrow> Inr (Opened bs pos))))"
  using raw_put_end [of c bs "[]" a] raw_put_end [of c bs "take (nat (w_record c)) a" b]
    raw_put_end [of c bs "take (nat (w_record c)) a @ take (nat (w_sstat c)) b" d]
  by (simp add: write_leaves_def)

lemma rawwrite_opened:
  assumes "rawwrite L z g c ws (Opened bs (length bs)) = Some r"
  shows "write_leaves c bs (sample_arrived L z g c ws) r"
proof -
  have stops: "write_leaves c bs new (Inl (7, Some bs))" "write_leaves c bs new (Inl (13, Some bs))" for new
    by (simp_all add: write_leaves_def)
  let ?room = "unat (of_nat (sizeof_tstat L) * ntaskall (ws_dev ws) :: u64)"
  obtain rv sc where sc: "z_compress z (sizeof_sstat L) (sstat_image L (ws_sstat ws)) = (rv, sc)" by fastforce
  have rv: "testcompval rv = Inl 7 \<or> testcompval rv = Inr ()" for rv
    by (simp add: testcompval_def)
  show ?thesis
  proof (cases "testcompval rv = Inr () \<and> w_malloc c")
    case False
    then show ?thesis
      using assms rv [of rv] stops by (auto simp: rawwrite_def sc)
  next
    case True
    then obtain src where src: "task_bytes L (taskall (ws_dev ws)) ?room = Some src"
      using assms by (auto simp: rawwrite_def sc Let_def bind_eq_Some_conv)
    obtain rv2 pc where pc: "z_compress z ?room src = (rv2, pc)" by fastforce
    show ?thesis
      using assms rv [of rv2] True stops write_leaves_puts [of c bs "record_image (raw_record (g_supportflags g) ws (length sc) (length pc))" sc pc]
      by (auto simp: rawwrite_def sc src pc Let_def sample_arrived_def sample_parts_def)
  qed
qed

lemma rawwrite_unopened:
  "rawwrite L z g c ws (Unopened f) = (case rawwopen L g c f of
     Inl e \<Rightarrow> Some (Inl e) | Inr (bs, pos) \<Rightarrow> rawwrite L z g c ws (Opened bs pos))"
  by (simp add: rawwrite_def split: sum.split prod.split)

lemma rawwopen_cases:
  assumes "f = None \<or> w_open c"
  shows "case rawwopen L g c f of
      Inl (e, f') \<Rightarrow> e = 7 \<and> (f' = f \<or> f = None \<and> f' = Some [])
    | Inr (bs, pos) \<Rightarrow> bs = log_base L g c (Unopened f) \<and> pos = length bs"
  using assms by (cases f) (simp_all add: rawwopen_def log_base_def write_at_def Let_def)

text \<open>
  A log that cannot be opened for reading and writing is replaced: \<open>creat\<close> empties it, and its samples are lost.
\<close>

lemma rawwopen_replaces:
  assumes "\<not> w_open c" "w_creat c"
  shows "rawwopen L g c (Some bs) = (if w_header c = -1 then Inl (7, Some [])
    else Inr (log_base L g c (Unopened None), length (log_base L g c (Unopened None))))"
  using assms by (simp add: rawwopen_def log_base_def write_at_def Let_def)

section \<open>A small instance\<close>

text \<open>A compression that leaves out the zeroes at the end.\<close>

definition stripped :: "byte list \<Rightarrow> byte list" where
  "stripped src = rev (dropWhile (\<lambda>b. b = 0) (rev src))"

definition zlib_ex :: zlib where
  "zlib_ex = \<lparr>
     z_compress = (\<lambda>room src. if length src < 2 ^ 32 \<and> 4 + length (stripped src) \<le> room
       then (0, le 4 (length src) @ stripped src) else (-5, [])),
     z_uncompress = (\<lambda>room out. let n = unle (take 4 out) in
       if n \<le> room then (0, drop 4 out @ replicate (n - length (drop 4 out)) 0) else (-5, []))\<rparr>"

lemma stripped_zeroes: "stripped src @ replicate (length src - length (stripped src)) 0 = src"
proof -
  have "rev (takeWhile (\<lambda>b. b = 0) (rev src)) = replicate (length (takeWhile (\<lambda>b. b = 0) (rev src))) 0"
    by (rule replicate_eqI) (auto dest: set_takeWhileD)
  moreover have src: "src = stripped src @ rev (takeWhile (\<lambda>b. b = 0) (rev src))"
    unfolding stripped_def by (metis rev_append rev_rev_ident takeWhile_dropWhile_id)
  then have "length src - length (stripped src) = length (takeWhile (\<lambda>b. b = 0) (rev src))"
    by (metis add_diff_cancel_left' length_append length_rev)
  ultimately show ?thesis using src by metis
qed

lemma zlib_ok_ex: "zlib_ok zlib_ex"
proof -
  have "length (le 4 n) \<noteq> 0" "n < 2 ^ 32 \<Longrightarrow> unle (le 4 n) = n" for n
    unfolding unle_le by simp_all
  then show ?thesis
    unfolding zlib_ok_def length_0_conv by (simp add: zlib_ex_def stripped_zeroes)
qed

definition layout_ex :: layout where
  "layout_ex = \<lparr>sizeof_sstat = 16, sizeof_tstat = 16, sstat_image = (\<lambda>_. replicate 16 0), sstat_value = (\<lambda>_. sstat0),
     tstat_image = (\<lambda>t. word_le (gen_pid (t_gen t)) @ padding 12),
     tstat_value = (\<lambda>bs. tstat0\<lparr>t_gen := (t_gen tstat0)\<lparr>gen_pid := field_at bs 0\<rparr>\<rparr>)\<rparr>"

definition ws_ex :: "time_t \<Rightarrow> i32 \<Rightarrow> wsample" where
  "ws_ex t pid = \<lparr>ws_curtime = t, ws_numsecs = 600,
     ws_dev = devtstat0\<lparr>taskall := [tstat0\<lparr>t_gen := (t_gen tstat0)\<lparr>gen_pid := pid\<rparr>\<rparr>], ntaskall := 1, ntaskactive := 1\<rparr>,
     ws_sstat = sstat0, ws_nexit = 0, ws_noverflow = 0, ws_flag = 0\<rparr>"

definition env_ex :: rawenv where
  "env_ex = \<lparr>g_supportflags = 5, g_osrel = 4, g_osvers = 9, g_ossub = 0, g_hertz = 100, g_pagesize = 4096,
     g_utsname = replicate 390 0, g_utsnodenamelen = 0, g_interval = 600\<rparr>"

definition rcalls_ex :: "byte list \<Rightarrow> rawcalls" where
  "rcalls_ex bs = \<lparr>r_time = 0,
     r_localtime = (\<lambda>t. \<lparr>tm_sec = 0, tm_min = 0, tm_hour = uint t, tm_mday = 1, tm_mon = 0, tm_year = 118\<rparr>),
     r_access = (\<lambda>s. True), r_readable = (\<lambda>s. False), r_open = (\<lambda>s. Some (Some bs)), r_mkstemp = None,
     r_system = (\<lambda>s. None), r_junk = [], r_argv0 = ''atop'', r_setresuid = True, r_execvp = (\<lambda>s. None),
     r_malloc = (\<lambda>n. Some (replicate n 0)), r_ptrs = (\<lambda>n. True), r_offs = (\<lambda>n. Some (replicate n 0))\<rparr>"

definition wcalls_ex :: "wsample \<Rightarrow> wcalls" where
  "wcalls_ex ws = \<lparr>w_open = False, w_ioerror = False, w_junk = [], w_creat = True, w_header = 480, w_malloc = True,
     w_record = 96, w_sstat = int (length (snd (sys_comp layout_ex zlib_ex ws))),
     w_tstat = int (length (snd (task_comp layout_ex zlib_ex ws))), w_truncate = True\<rparr>"

lemma memory_ok_ex: "memory_ok (rcalls_ex bs)"
  by (simp add: memory_ok_def rcalls_ex_def)

lemma entry_ok_ex: "entry_ok layout_ex zlib_ex (s, ws_ex t pid)"
proof -
  have "field_at (word_le pid @ padding 12) 0 = pid"
    by simp
  then have im: "has_image layout_ex (ws_ex t pid)"
    by (simp add: has_image_def layout_ex_def ws_ex_def)
  have len: "length (task_image layout_ex (ws_ex t pid)) = 16"
    by (simp add: length_task_image im) (simp add: layout_ex_def ws_ex_def)
  have "length (stripped (word_le pid @ padding 12)) \<le> 4"
    using length_dropWhile_le [of "\<lambda>b. b = 0" "rev (word_le pid)"]
      dropWhile_append2 [of "replicate 12 0" "\<lambda>b. b = 0" "rev (word_le pid)"]
    by (simp add: stripped_def padding_def)
  then have pc: "fst (task_comp layout_ex zlib_ex (ws_ex t pid)) = 0"
    unfolding task_comp_def len
    by (simp add: zlib_ex_def len) (simp add: task_image_def layout_ex_def ws_ex_def)
  have sc: "fst (sys_comp layout_ex zlib_ex (ws_ex t pid)) = 0"
    by (simp add: sys_comp_def layout_ex_def zlib_ex_def stripped_def)
  have "dev_ok (ws_dev (ws_ex t pid))"
    by (simp add: dev_ok_def ws_ex_def devtstat0_def)
  then show ?thesis
    using im len pc sc by (simp add: entry_ok_def) (simp add: layout_ex_def)
qed

lemma writes_ok_ex:
  "writes_ok layout_ex zlib_ex [(env_ex, wcalls_ex (ws_ex 1 7), ws_ex 1 7), (env_ex, wcalls_ex (ws_ex 2 8), ws_ex 2 8)]"
  using entry_ok_ex by (simp add: writes_ok_def complete_def wcalls_ex_def sizeof_rawheader_def sizeof_rawrecord_def)

lemma sizes_ex:
  "sizeof_sstat layout_ex < 2 ^ 31" "sizeof_tstat layout_ex < 2 ^ 31" "length (g_utsname env_ex) = sizeof_utsname"
  "raw_name (rcalls_ex bs) ''log'' = Inr ''log''" "r_open (rcalls_ex bs) nm = Some (Some bs)" "sizeof_sstat layout_ex = 16"
  by (simp_all add: layout_ex_def env_ex_def sizeof_utsname_def raw_name_def rcalls_ex_def)

section \<open>Properties\<close>

lemma browse_all: "browse ts 0 [] 0 0 = [0..<length ts]"
proof (cases ts)
  case (Cons t us)
  then show ?thesis
    by (simp add: stop_at_def seek_def late_def takeWhile_eq_all_conv [THEN iffD2])
qed simp

text \<open>
  C26: A log that was written sample by sample is read back completely.  Any number of successful calls of \<open>rawwrite\<close>, the
  first of which creates the file, leave a file from which \<open>rawread\<close> shows every sample once, in order, with the time, the
  interval, all system and task statistics, the pointer lists and counts, the boot flag and the feature flags it was
  written with, marks the last one, and returns.
\<close>

theorem rawlog_roundtrip:
  assumes "zlib_ok z" "writes_ok L z ((g, cw, ws) # ys)" "length (g_utsname g) = sizeof_utsname"
    and "sizeof_sstat L < 2 ^ 31" "sizeof_tstat L < 2 ^ 31" "length sstat = sizeof_sstat L"
  shows "\<exists>bs. rawwrite_all L z ((g, cw, ws) # ys) (Unopened None) = Some (Inr (Opened bs (length bs))) \<and>
    (\<forall>c. memory_ok c \<and> raw_name c rawname = Inr name \<and> r_open c name = Some (Some bs) \<longrightarrow>
      (\<exists>g' st. rawread L z c scripted rawname 0 0 g0 sstat ([], []) = Some (Inr (g', st)) \<and>
        snd (st_vis st) = map (\<lambda>i. shown_entry g (entries ((g, cw, ws) # ys) ! i) (i = length ys)) [0..<Suc (length ys)]))"
proof -
  let ?xs = "entries ((g, cw, ws) # ys)"
  have len: "length ?xs = Suc (length ys)" by (simp add: entries_def)
  have ok: "log_ok L z c g ?xs" if "memory_ok c" for c
    using assms that unfolding log_ok_def by (auto simp: writes_ok_def entries_def)
  have "\<exists>g' st. rawread L z c scripted rawname 0 0 g0 sstat ([], []) = Some (Inr (g', st)) \<and>
      snd (st_vis st) = map (\<lambda>i. shown_entry g (?xs ! i) (i = length ys)) [0..<Suc (length ys)]"
    if "memory_ok c" "raw_name c rawname = Inr name" "r_open c name = Some (Some (log_image L z g ?xs))" for c
    using rawread_log [OF ok [OF that(1)] _ _ that(2,3) assms(6), of "[]" 0 0 g0] browse_all [of "map (entry_secs c) ?xs"] len
    by (simp add: keys_ok_def)
  then show ?thesis
    using rawwrite_all_creates [OF assms(2,3)] by (auto simp: Let_def)
qed

theorem rawlog_roundtrip_witness:
  "\<exists>bs. rawwrite_all layout_ex zlib_ex [(env_ex, wcalls_ex (ws_ex 1 7), ws_ex 1 7), (env_ex, wcalls_ex (ws_ex 2 8), ws_ex 2 8)]
      (Unopened None) = Some (Inr (Opened bs (length bs))) \<and>
    (\<exists>g' st. rawread layout_ex zlib_ex (rcalls_ex bs) scripted ''log'' 0 0 env_ex (replicate 16 0) ([], []) = Some (Inr (g', st)) \<and>
      map sh_curtime (snd (st_vis st)) = [1, 2])"
proof -
  from rawlog_roundtrip [OF zlib_ok_ex writes_ok_ex sizes_ex(3,1,2), of "replicate 16 0" "''log''" "''log''" env_ex]
  obtain bs where bs: "rawwrite_all layout_ex zlib_ex [(env_ex, wcalls_ex (ws_ex 1 7), ws_ex 1 7),
      (env_ex, wcalls_ex (ws_ex 2 8), ws_ex 2 8)] (Unopened None) = Some (Inr (Opened bs (length bs)))"
    "\<exists>g' st. rawread layout_ex zlib_ex (rcalls_ex bs) scripted ''log'' 0 0 env_ex (replicate 16 0) ([], []) = Some (Inr (g', st)) \<and>
      snd (st_vis st) = map (\<lambda>i. shown_entry env_ex (entries [(env_ex, wcalls_ex (ws_ex 1 7), ws_ex 1 7),
        (env_ex, wcalls_ex (ws_ex 2 8), ws_ex 2 8)] ! i) (i = 1)) [0..<2]"
    using memory_ok_ex sizes_ex by (auto simp: numeral_2_eq_2)
  then show ?thesis
    by (intro exI [of _ bs]) (auto simp: upt_rec shown_entry_def entries_def ws_ex_def)
qed

text \<open>
  C27: Moving between samples.  Whatever keys the user presses (next, previous, rewind, branch to a time of day, or any other),
  with any begin and end time, \<open>rawread\<close> shows the samples of the walk over sample numbers \<open>browse\<close> and returns: the list of
  offsets, its two ways to count and its reallocation never lead to a wrong or an unreadable record.
\<close>

theorem rawread_browses:
  assumes "log_ok L z c g xs" "xs \<noteq> []" "keys_ok keys" "raw_name c rawname = Inr name"
    and "r_open c name = Some (Some (log_image L z g xs))" "length sstat = sizeof_sstat L"
  shows "\<exists>g' st. rawread L z c scripted rawname begintime endtime g0 sstat (keys, []) = Some (Inr (g', st)) \<and>
    snd (st_vis st) = map (\<lambda>i. shown_entry g (xs ! i) (Suc i = length xs))
      (browse (map (entry_secs c) xs) endtime keys begintime 0)"
  using rawread_log [OF assms(1) _ assms(3-6)] assms(2) by simp

theorem rawread_browses_witness:
  "\<exists>g' st. rawread layout_ex zlib_ex (rcalls_ex (log_image layout_ex zlib_ex env_ex [(5, ws_ex 1 7), (5, ws_ex 2 8), (5, ws_ex 3 9)]))
      scripted ''log'' 0 0 env_ex (replicate 16 0)
      ([(CHR ''t'', 0), (MSAMPPREV, 0), (MSAMPPREV, 0), (MSAMPPREV, 0), (MSAMPBRANCH, 3 * 3600), (MSAMPBRANCH, 2 * 3600), (MRESET, 0)], []) =
      Some (Inr (g', st)) \<and> map sh_curtime (snd (st_vis st)) = [1, 2, 1, 1, 1, 3, 2, 1, 2, 3]"
proof -
  let ?xs = "[(5, ws_ex 1 7), (5, ws_ex 2 8), (5, ws_ex 3 9)] :: entry list"
  let ?c = "rcalls_ex (log_image layout_ex zlib_ex env_ex ?xs)"
  let ?keys = "[(CHR ''t'', 0), (MSAMPPREV, 0), (MSAMPPREV, 0), (MSAMPPREV, 0), (MSAMPBRANCH, 3 * 3600), (MSAMPBRANCH, 2 * 3600), (MRESET, 0)]"
  have ok: "log_ok layout_ex zlib_ex ?c env_ex ?xs" "keys_ok ?keys"
    using zlib_ok_ex memory_ok_ex sizes_ex entry_ok_ex
    by (simp_all add: log_ok_def keys_ok_def MSAMPPREV_def MSAMPBRANCH_def MRESET_def)
  obtain g' st where res: "rawread layout_ex zlib_ex ?c scripted ''log'' 0 0 env_ex (replicate 16 0) (?keys, []) = Some (Inr (g', st))"
    "snd (st_vis st) = map (\<lambda>i. shown_entry env_ex (?xs ! i) (Suc i = length ?xs)) (browse (map (entry_secs ?c) ?xs) 0 ?keys 0 0)"
    using rawread_browses [OF ok(1) _ ok(2) sizes_ex(4) sizes_ex(5), of "replicate 16 0" 0 0 env_ex] sizes_ex(6) by auto
  have secs: "map (entry_secs ?c) ?xs = [3600, 7200, 10800]"
    by (simp add: entry_secs_def daysecs_def rcalls_ex_def ws_ex_def)
  have walk: "browse [3600, 7200, 10800] 0 ?keys 0 0 = [0, 1, 0, 0, 0, 2, 1, 0, 1, 2]"
    by code_simp
  have times: "map sh_curtime (map (\<lambda>i. shown_entry env_ex (?xs ! i) (Suc i = length ?xs)) [0, 1, 0, 0, 0, 2, 1, 0, 1, 2]) =
      [1, 2, 1, 1, 1, 3, 2, 1, 2, 3]"
    by (simp add: shown_entry_def ws_ex_def)
  show ?thesis
    by (intro exI conjI, rule res(1)) (simp only: res(2) secs walk times)
qed

text \<open>
  C32: What \<open>rawwrite\<close> leaves in the log, whatever its system calls return and zlib answers, provided that an existing log can be
  opened.  When the program stops (exit codes 7, 8 and 13), an existing log still begins with all it had, and with
  a working \<open>ftruncate\<close> it is exactly what it was; a new one is missing, empty, or its header.  When \<open>rawwrite\<close> returns, no
  \<open>write\<close> of the sample has reported an error, and the sample is appended as far as each \<open>write\<close> has taken it: against the
  comment about rolling back, a \<open>write\<close> that takes only some of its bytes leaves these in the log, and the rest of the sample behind them.
\<close>

theorem rawwrite_keeps:
  assumes "rawwrite L z g c ws out = Some r" and "reachable_log c out"
  shows "case r of
      Inl (e, f) \<Rightarrow> e \<in> {7, 8, 13} \<and>
        (case old_log out of
           Some bs \<Rightarrow> (\<exists>tail. f = Some (bs @ tail)) \<and> (w_truncate c \<longrightarrow> f = Some bs)
         | None \<Rightarrow> f \<in> {None, Some []} \<or> (\<exists>tail. f = Some (log_base L g c out @ tail)) \<and> (w_truncate c \<longrightarrow> f = Some (log_base L g c out)))
    | Inr out' \<Rightarrow> w_record c \<noteq> -1 \<and> w_sstat c \<noteq> -1 \<and> w_tstat c \<noteq> -1 \<and>
        out' = Opened (log_base L g c out @ sample_arrived L z g c ws) (length (log_base L g c out @ sample_arrived L z g c ws))"
proof (cases out)
  case (Opened bs pos)
  then show ?thesis
    using rawwrite_opened [of L z g c ws bs r] assms by (auto simp: write_leaves_def log_base_def split: sum.splits)
next
  case (Unopened f)
  then have "f = None \<or> w_open c" using assms(2) by simp
  note opens = rawwopen_cases [OF this, of L g]
  show ?thesis
  proof (cases "rawwopen L g c f")
    case (Inl ef)
    then have "r = Inl ef" using assms(1) Unopened by (simp add: rawwrite_unopened)
    then show ?thesis
      using opens Inl Unopened by (cases ef; cases f) auto
  next
    case (Inr bp)
    let ?bs = "log_base L g c out"
    have "rawwrite L z g c ws (Opened ?bs (length ?bs)) = Some r"
      using assms(1) opens Inr Unopened by (cases bp) (simp add: rawwrite_unopened)
    from rawwrite_opened [OF this] show ?thesis
      using Unopened by (cases f) (auto simp: write_leaves_def log_base_def split: sum.splits)
  qed
qed

theorem rawwrite_keeps_witness:
  "rawwrite layout_ex zlib_ex env_ex (wcalls_ex (ws_ex 1 7) \<lparr>w_sstat := -1\<rparr>) (ws_ex 1 7) (Opened [1, 2] (length [1, 2 :: byte])) = Some (Inl (7, Some [1, 2]))"
proof -
  let ?c = "wcalls_ex (ws_ex 1 7) \<lparr>w_sstat := -1\<rparr>" and ?ws = "ws_ex 1 7"
  obtain sc where sc: "z_compress zlib_ex (sizeof_sstat layout_ex) (sstat_image layout_ex (ws_sstat ?ws)) = (0, sc)"
    using entry_ok_ex [of 0 1 7] by (cases "sys_comp layout_ex zlib_ex ?ws") (simp add: entry_ok_def sys_comp_def)
  obtain pc where pc: "z_compress zlib_ex (length (task_image layout_ex ?ws)) (task_image layout_ex ?ws) = (0, pc)"
    using entry_ok_ex [of 0 1 7] by (cases "task_comp layout_ex zlib_ex ?ws") (simp add: entry_ok_def task_comp_def)
  obtain f where f: "rawwrite layout_ex zlib_ex env_ex ?c ?ws (Opened [1, 2] (length [1, 2 :: byte])) = Some (Inl (7, f))"
    by (simp add: rawwrite_def sc pc task_bytes_all [OF entry_ok_ex] testcompval_def raw_put_def wcalls_ex_def write_at_def)
  have "f = Some [1, 2]"
    using rawwrite_keeps [OF f] by (simp add: wcalls_ex_def)
  then show ?thesis using f by simp
qed

text \<open>
  C33: A log without samples.  \<open>rawread\<close> never returns from a file that has a header and no sample yet, as a writer leaves it
  between creating the file and its first sample: no command of the user can end the outer loop, because none is asked for.
\<close>

theorem rawread_empty_hangs:
  assumes "log_ok L z c g []" "raw_name c rawname = Inr name" "r_open c name = Some (Some (log_image L z g []))"
  shows "rawread L z c show rawname begintime endtime g0 sstat v = None"
proof -
  obtain offs where offs: "r_offs c OFFCHUNK = Some offs" "length offs = OFFCHUNK"
    using assms(1) unfolding log_ok_def memory_ok_def by blast
  then show ?thesis
    by (simp add: rawread_def assms(2) raw_open_def assms(3) raw_header_log [OF assms(1)] empty_log_hangs [OF assms(1)] OFFCHUNK_def
        del: One_nat_def)
qed

theorem rawread_empty_hangs_witness:
  "rawread layout_ex zlib_ex (rcalls_ex (log_image layout_ex zlib_ex env_ex [])) scripted ''log'' 0 0 env_ex (replicate 16 0) ([(CHR ''q'', 0)], []) = None"
proof (rule rawread_empty_hangs)
  show "log_ok layout_ex zlib_ex (rcalls_ex (log_image layout_ex zlib_ex env_ex [])) env_ex []"
    using zlib_ok_ex memory_ok_ex sizes_ex by (simp add: log_ok_def)
qed (rule sizes_ex)+

text \<open>
  When no sample is at or after the begin time, the last sample is shown although it is before it.
\<close>

lemma browse_past_begin:
  assumes "ts \<noteq> []" "b \<noteq> 0" "\<forall>t \<in> set ts. t < b"
  shows "browse ts 0 [] b 0 = [length ts - 1]"
proof -
  have "length (takeWhile (\<lambda>t. truth b \<and> t < b) ts) = length ts"
    using assms(2,3) by (metis (mono_tags, lifting) takeWhile_eq_all_conv)
  then have "stop_at ts b 0 = length ts - 1"
    by (simp add: stop_at_def seek_def)
  then show ?thesis
    using assms(1) by (cases ts) (simp_all add: late_def upt_conv_Cons)
qed

text \<open>
  A write that takes only some of the bytes, as on a full disk, is not noticed: the remains of the sample stay in the file
  and the next sample follows them.
\<close>

lemma rawwrite_short:
  assumes "entry_ok L z (g_supportflags g, ws)" "complete L z c0 ws" "k < length (snd (sys_comp L z ws))"
  shows "rawwrite L z g (c0\<lparr>w_sstat := int k\<rparr>) ws (Opened bs (length bs)) =
    (let bs1 = bs @ record_image (entry_record L z (g_supportflags g, ws)) @ take k (snd (sys_comp L z ws)) @ snd (task_comp L z ws)
     in Some (Inr (Opened bs1 (length bs1))))"
proof -
  obtain sc where sc: "z_compress z (sizeof_sstat L) (sstat_image L (ws_sstat ws)) = (0, sc)" "sys_comp L z ws = (0, sc)"
    using assms(1) by (cases "sys_comp L z ws") (simp add: entry_ok_def sys_comp_def)
  obtain pc where pc: "z_compress z (length (task_image L ws)) (task_image L ws) = (0, pc)" "task_comp L z ws = (0, pc)"
    using assms(1) by (cases "task_comp L z ws") (simp add: entry_ok_def task_comp_def)
  define rb where "rb = record_image (entry_record L z (g_supportflags g, ws))"
  have rec: "record_image (raw_record (g_supportflags g) ws (length sc) (length pc)) = rb"
    by (simp add: rb_def entry_record_def sc(2) pc(2))
  have len: "length rb = sizeof_rawrecord"
    unfolding rb_def by (rule length_record_image) simp
  have w: "w_malloc c0" "w_record c0 = int (length rb)" "w_tstat c0 = int (length pc)" "k < length sc"
    using assms(2,3) len by (simp_all add: complete_def sc(2) pc(2))
  have short: "write_at (bs @ rb) (length (bs @ rb)) sc (int k) = (bs @ rb @ take k sc, length (bs @ rb @ take k sc))"
    using w(4) by (simp add: write_at_def)
  note wr = write_at_end [of bs rb] short write_at_end [of "bs @ rb @ take k sc" pc]
  show ?thesis
    using wr by (simp add: rawwrite_def sc pc task_bytes_all [OF assms(1)] testcompval_def rec w raw_put_def flip: rb_def)
qed

end
