(* ===== verification/Sys_Lines.thy ===== *)
theory Sys_Lines
  imports Sysstat Scanf
begin

text \<open>
  The shape that the parts of \<open>photosyst\<close> (\<^verbatim>\<open>src/Qt/FakeAtop/photosyst.c\<close>) share: a file of \<^verbatim>\<open>/proc\<close> is read line by line into
  \<open>linebuf\<close>, a line is scanned into \<open>nam\<close> and \<open>cnts\<close>, and the loop is left by the end of the file or by \<open>break\<close>.
\<close>

section \<open>Loops over the lines of a file\<close>

text \<open>The body returns whether it executes \<open>break\<close>, and the state; \<open>None\<close> is undefined behaviour.\<close>

fun lines_loop :: "(string \<Rightarrow> 's \<Rightarrow> (bool \<times> 's) option) \<Rightarrow> string list \<Rightarrow> 's \<Rightarrow> 's option" where
  "lines_loop body [] s = Some s"
| "lines_loop body (l # ls) s =
     (case body l s of
        None \<Rightarrow> None
      | Some (stop, s') \<Rightarrow> if stop then Some s' else lines_loop body ls s')"

text \<open>\<open>while (fgets(linebuf, sizeof(linebuf), fp))\<close>: what \<open>linebuf\<close> holds as a string, line by line.\<close>

definition linebufs :: "string \<Rightarrow> string list" where
  "linebufs contents = map cstr (fgets_lines 1024 contents)"

definition each_line :: "(string \<Rightarrow> 's \<Rightarrow> (bool \<times> 's) option) \<Rightarrow> string \<Rightarrow> 's \<Rightarrow> 's option" where
  "each_line body contents s = lines_loop body (linebufs contents) s"

text \<open>A body that never leaves the loop.\<close>

definition go_on :: "(string \<Rightarrow> 's \<Rightarrow> 's option) \<Rightarrow> string \<Rightarrow> 's \<Rightarrow> (bool \<times> 's) option" where
  "go_on body l s = map_option (Pair False) (body l s)"

section \<open>The scan buffers\<close>

text \<open>\<open>nam[64]\<close> as the string it holds and \<open>cnts[MAXCNT]\<close>; both keep their values from line to line and from file to file.\<close>

definition MAXCNT :: nat where "MAXCNT = 64"

record scanbuf =
  sb_nam :: string
  sb_cnts :: "count_t list"

text \<open>
  \<open>nr = sscanf(linebuf, fmt, nam, &cnts[0], &cnts[1], ...)\<close>: a word of 64 or more characters does not fit into \<open>nam\<close>; counters
  that are not assigned keep their values.
\<close>

definition scan_line :: "string \<Rightarrow> string \<Rightarrow> scanbuf \<Rightarrow> (nat \<times> scanbuf) option" where
  "scan_line fmt line sb =
     (case sscanf line fmt of
        [] \<Rightarrow> Some (0, sb)
      | v # vs \<Rightarrow>
          if 64 \<le> length (vstr v) then None
          else Some (length vs + 1, \<lparr>sb_nam = vstr v, sb_cnts = map vnum vs @ drop (length vs) (sb_cnts sb)\<rparr>))"

section \<open>Lemmas\<close>

lemma lines_loop_append:
  "lines_loop (go_on body) (ls @ ls') s = Option.bind (lines_loop (go_on body) ls s) (lines_loop (go_on body) ls')"
  by (induction ls arbitrary: s) (auto simp: go_on_def split: option.split)

lemma lines_loop_go_on:
  "lines_loop (go_on body) (l # ls) s = Option.bind (body l s) (lines_loop (go_on body) ls)"
  by (simp add: go_on_def split: option.split)

text \<open>What holds of every result: \<open>I\<close> while the loop runs, \<open>J\<close> when it was left.\<close>

lemma lines_loop_inv:
  assumes "\<And>l s b s'. body l s = Some (b, s') \<Longrightarrow> I s \<Longrightarrow> if b then J s' else I s'" "\<And>s. I s \<Longrightarrow> J s"
    "I s" "lines_loop body ls s = Some t"
  shows "J t"
  using assms(3,4)
proof (induction ls arbitrary: s)
  case (Cons l ls)
  then obtain b s' where "body l s = Some (b, s')" "if b then Some s' = Some t else lines_loop body ls s' = Some t"
    by (auto split: option.splits if_splits)
  with Cons assms(1) show ?case by (cases b) fastforce+
qed (simp add: assms(2))

lemma go_on_inv:
  assumes "\<And>l s s'. body l s = Some s' \<Longrightarrow> I s \<Longrightarrow> I s'" "I s" "lines_loop (go_on body) ls s = Some t"
  shows "I t"
  by (rule lines_loop_inv [of "go_on body" I I, OF _ _ assms(2,3)]) (auto simp: go_on_def dest: assms(1))

text \<open>A loop that cannot fail: \<open>I\<close> holds while it runs, \<open>J\<close> when it was left.\<close>

lemma lines_loop_total:
  assumes "\<And>l s. I s \<Longrightarrow> \<exists>b s'. body l s = Some (b, s') \<and> (if b then J s' else I s')" "\<And>s. I s \<Longrightarrow> J s" "I s"
  shows "\<exists>t. lines_loop body ls s = Some t \<and> J t"
  using assms(3)
proof (induction ls arbitrary: s)
  case (Cons l ls)
  then obtain b s' where "body l s = Some (b, s')" "if b then J s' else I s'" using assms(1) by blast
  with Cons.IH show ?case by (cases b) simp_all
qed (simp add: assms(2))

lemma linebufs_whole:
  assumes "\<forall>l\<in>set ls. CHR 0x0A \<notin> set l \<and> NUL \<notin> set l \<and> length l < 1023"
  shows "linebufs (concat (map (\<lambda>l. l @ [CHR 0x0A]) ls)) = map (\<lambda>l. l @ [CHR 0x0A]) ls"
proof -
  have "\<forall>l\<in>set ls. CHR 0x0A \<notin> set l \<and> length l + 1 < 1024" using assms by auto
  note fgets_lines_whole [OF this]
  moreover have "map cstr (map (\<lambda>l. l @ [CHR 0x0A]) ls) = map (\<lambda>l. l @ [CHR 0x0A]) ls"
    using assms by (auto intro!: cstr_id)
  ultimately show ?thesis by (simp add: linebufs_def)
qed

lemma skip_blanks [simp]: "dropWhile isspace (replicate n CHR '' '' @ s) = dropWhile isspace s"
  by (induction n) auto

lemma scan_word_word:
  assumes "w \<noteq> []" "\<forall>c\<in>set w. \<not> isspace c" "width = 0 \<or> length w \<le> width" "rest = [] \<or> isspace (hd rest)"
  shows "scan (Str width True # ds) (replicate n CHR '' '' @ w @ rest) = VStr w # scan ds rest"
proof -
  have "dropWhile isspace (replicate n CHR '' '' @ w @ rest) = w @ rest"
    using assms(1,2) by (cases w) auto
  moreover have "takeWhile (\<lambda>c. \<not> isspace c) (w @ rest) = w"
    using assms(2,4) by (cases rest) (simp_all add: takeWhile_append2)
  ultimately show ?thesis using assms(1,3) by (auto simp: scan_word_def Let_def)
qed

section \<open>Rows of numbers\<close>

definition justify :: "nat \<Rightarrow> string \<Rightarrow> string" where
  "justify n s = replicate (n - length s) CHR '' '' @ s"

lemma skip_justify [simp]: "dropWhile isspace (justify n (decz i) @ rest) = decz i @ rest"
  by (simp add: justify_def)

text \<open>Numbers with blanks in front of them, right-justified in columns of given widths, the way the kernel writes a line.\<close>

definition columns_of :: "(nat \<times> int) list \<Rightarrow> string" where
  "columns_of ps = concat (map (\<lambda>(n, i). '' '' @ justify n (decz i)) ps)"

abbreviation row :: "int list \<Rightarrow> string" where
  "row xs \<equiv> columns_of (map (Pair 0) xs)"

lemma columns_of_simps [simp]: "columns_of [] = []" "columns_of ((n, i) # ps) = '' '' @ justify n (decz i) @ columns_of ps"
  by (simp_all add: columns_of_def)

lemma snd_Pair_id: "snd \<circ> Pair n = id"
  by auto

lemma columns_of_end: "number_end rest \<Longrightarrow> number_end (columns_of ps @ rest)"
  by (cases ps) auto

lemma columns_of_hd: "ps \<noteq> [] \<Longrightarrow> columns_of ps @ rest = CHR '' '' # tl (columns_of ps) @ rest"
  by (cases ps) auto

lemma scan_end_Blank: "scan (ds @ [Blank]) s = scan ds s"
  by (induction ds s rule: scan.induct) (auto simp: Let_def split: option.split)

definition i64_range :: "int \<Rightarrow> bool" where
  "i64_range i \<longleftrightarrow> - (2 ^ 63) \<le> i \<and> i < 2 ^ 63"

lemma i64_range_nonneg: "0 \<le> i \<Longrightarrow> i < 2 ^ 63 \<Longrightarrow> i64_range i"
  by (simp add: i64_range_def)

lemma read_first:
  assumes "number_end rest" "i64_range i"
  shows "read_number True (dropWhile isspace (columns_of ((n, i) # ps) @ rest)) = Some (word_of_int i, columns_of ps @ rest)"
  using read_number_decz [OF columns_of_end [OF assms(1), of ps], of i] assms(2) by (simp add: i64_range_def)

lemma scan_columns:
  assumes "length fs \<le> length ps" "\<forall>p\<in>set ps. i64_range (snd p)" "number_end rest"
  shows "scan (numbers fs) (columns_of ps @ rest) = map (VNum \<circ> word_of_int) (picked fs (map snd ps))"
  using assms(1,2)
proof (induction fs arbitrary: ps)
  case (Cons b fs)
  then obtain n i qs where ps: "ps = (n, i) # qs" by (cases ps) auto
  note num = read_first [OF assms(3), of i n qs]
  have "scan (numbers (b # fs)) (columns_of ps @ rest) =
      (if b then [VNum (word_of_int i)] else []) @ scan (numbers fs) (columns_of qs @ rest)"
    using num Cons.prems unfolding ps numbers_simps scan.simps by (simp add: scan_numbers_spaces)
  then show ?case using Cons by (auto simp: ps)
qed simp

text \<open>Blanks in front of a number are skipped anyway.\<close>

definition no_blanks :: "directive list \<Rightarrow> directive list" where
  "no_blanks ds = filter (\<lambda>d. d \<noteq> Blank) ds"

lemma scan_no_blanks:
  assumes "\<forall>d\<in>set ds. d = Blank \<or> d = Num True True"
  shows "scan ds s = scan (no_blanks ds) s"
  using assms
proof (induction ds arbitrary: s)
  case (Cons d ds)
  note prems = Cons.prems
  have idem: "scan (no_blanks ds) (dropWhile isspace s) = scan (no_blanks ds) s" for s
  proof (cases "no_blanks ds")
    case (Cons e es)
    then have "e \<in> set (no_blanks ds)" by simp
    then have "e = Num True True" using prems by (auto simp: no_blanks_def)
    moreover have "dropWhile isspace (dropWhile isspace s) = dropWhile isspace s" by (rule dropWhile_idem)
    ultimately show ?thesis unfolding Cons by (simp only: scan.simps)
  qed simp
  show ?case
  proof (cases "d = Blank")
    case True
    with Cons idem show ?thesis by (simp add: no_blanks_def)
  next
    case False
    with Cons show ?thesis by (simp add: no_blanks_def split: option.split)
  qed
qed (simp add: no_blanks_def)

text \<open>No line ends inside a number or a row.\<close>

definition one_line :: "string \<Rightarrow> bool" where
  "one_line s \<longleftrightarrow> CHR 0x0A \<notin> set s \<and> NUL \<notin> set s"

lemma one_line_append [simp]: "one_line (s @ t) \<longleftrightarrow> one_line s \<and> one_line t" "one_line []"
  by (auto simp: one_line_def)

lemma one_line_Cons [simp]: "one_line (c # s) \<longleftrightarrow> c \<noteq> CHR 0x0A \<and> c \<noteq> NUL \<and> one_line s"
  by (auto simp: one_line_def)

lemma one_line_decz [simp]: "one_line (decz i)"
proof -
  have "one_line (dec n)" for n using dec_digits [of n] by (auto simp: one_line_def isdigit_iff [symmetric] isdigit_def)
  then show ?thesis by (simp add: decz_def)
qed

lemma one_line_justify [simp]: "one_line s \<Longrightarrow> one_line (justify n s)"
  by (auto simp: justify_def one_line_def)

lemma one_line_columns [simp]: "one_line (columns_of ps)"
  by (induction ps) auto

text \<open>Numbers are read until the columns or the variables end.\<close>

definition row_end :: "string \<Rightarrow> bool" where
  "row_end rest \<longleftrightarrow> number_end rest \<and> read_number True (dropWhile isspace rest) = None"

lemma row_end_space [simp]: "isspace c \<Longrightarrow> row_end [c]"
  by (simp add: row_end_def read_number_def)

lemma scan_row:
  assumes "\<forall>p\<in>set ps. i64_range (snd p)" "row_end rest"
  shows "scan (replicate k (Num True True)) (columns_of ps @ rest) = map (VNum \<circ> word_of_int) (take k (map snd ps))"
  using assms(1)
proof (induction k arbitrary: ps)
  case (Suc k)
  show ?case
  proof (cases ps)
    case Nil
    then show ?thesis using assms(2) by (simp add: row_end_def)
  next
    case (Cons p qs)
    obtain n i where p: "p = (n, i)" by (cases p)
    have "number_end rest" using assms(2) by (simp add: row_end_def)
    from read_first [OF this, of i n qs] show ?thesis
      using Suc Cons p unfolding Cons p replicate_Suc scan.simps by simp
  qed
qed simp

text \<open>A line with a label, numbers and possibly something else behind them.\<close>

definition word_ok :: "string \<Rightarrow> bool" where
  "word_ok w \<longleftrightarrow> w \<noteq> [] \<and> (\<forall>c\<in>set w. \<not> isspace c \<and> c \<noteq> NUL)"

lemma word_ok_one_line: "word_ok w \<Longrightarrow> one_line w"
  by (auto simp: word_ok_def one_line_def isspace_def)

lemma scan_labelled:
  assumes "word_ok w" "width = 0 \<or> length w \<le> width" "ps \<noteq> []" "\<forall>p\<in>set ps. i64_range (snd p)"
    "no_blanks ds = replicate k (Num True True)" "set ds \<subseteq> {Blank, Num True True}" "row_end rest"
  shows "scan (Str width True # ds) (w @ columns_of ps @ rest) = VStr w # map (VNum \<circ> word_of_int) (take k (map snd ps))"
proof -
  have "scan ds s = scan (replicate k (Num True True)) s" for s
    using scan_no_blanks [of ds s] assms(5,6) by auto
  then show ?thesis
    using scan_word_word [of w width "columns_of ps @ rest" ds 0] scan_row [OF assms(4,7), of k] assms(1-3)
    by (simp add: word_ok_def columns_of_hd)
qed

type_synonym krow = "string \<times> (nat \<times> int) list \<times> string"

definition row_text :: "krow \<Rightarrow> string" where
  "row_text = (\<lambda>(w, ps, sfx). w @ columns_of ps @ sfx)"

definition krow_ok :: "krow \<Rightarrow> bool" where
  "krow_ok = (\<lambda>(w, ps, sfx). word_ok w \<and> length w < 64 \<and> ps \<noteq> [] \<and> (\<forall>p\<in>set ps. i64_range (snd p)) \<and>
     one_line sfx \<and> row_end (sfx @ [CHR 0x0A]) \<and> length (row_text (w, ps, sfx)) < 1023)"

text \<open>What a scan of at most \<open>k\<close> numbers makes of it.\<close>

definition row_counts :: "nat \<Rightarrow> krow \<Rightarrow> count_t list" where
  "row_counts k = (\<lambda>(w, ps, sfx). map word_of_int (take k (map snd ps)))"

definition row_scanned :: "nat \<Rightarrow> krow \<Rightarrow> scanbuf \<Rightarrow> scanbuf" where
  "row_scanned k r sb = \<lparr>sb_nam = fst r, sb_cnts = row_counts k r @ drop (length (row_counts k r)) (sb_cnts sb)\<rparr>"

lemma scan_line_row:
  assumes "krow_ok r" "directives fmt = Str 0 True # ds" "no_blanks ds = replicate k (Num True True)" "set ds \<subseteq> {Blank, Num True True}"
  shows "scan_line fmt (row_text r @ [CHR 0x0A]) sb = Some (length (row_counts k r) + 1, row_scanned k r sb)"
proof -
  obtain w ps sfx where r: "r = (w, ps, sfx)" by (cases r)
  have "scan (Str 0 True # ds) (w @ columns_of ps @ sfx @ [CHR 0x0A]) = VStr w # map (VNum \<circ> word_of_int) (take k (map snd ps))"
    using assms(1,3,4) by (intro scan_labelled) (auto simp: krow_ok_def r)
  then show ?thesis
    using assms(1) by (simp add: scan_line_def sscanf_def assms(2) r row_text_def row_counts_def row_scanned_def krow_ok_def comp_def)
qed

definition kernel_rows :: "krow list \<Rightarrow> string" where
  "kernel_rows rs = concat (map (\<lambda>l. l @ [CHR 0x0A]) (map row_text rs))"

lemma linebufs_rows:
  assumes "\<forall>r\<in>set rs. krow_ok r"
  shows "linebufs (kernel_rows rs) = map (\<lambda>r. row_text r @ [CHR 0x0A]) rs"
proof -
  have "one_line (row_text r) \<and> length (row_text r) < 1023" if "krow_ok r" for r
  proof -
    obtain w ps sfx where r: "r = (w, ps, sfx)" by (cases r)
    have "word_ok w" "one_line sfx" "length (row_text r) < 1023" using that by (simp_all add: krow_ok_def r)
    then show ?thesis using word_ok_one_line by (simp add: r row_text_def)
  qed
  then have "\<forall>l\<in>set (map row_text rs). CHR 0x0A \<notin> set l \<and> NUL \<notin> set l \<and> length l < 1023"
    using assms by (auto simp: one_line_def)
  from linebufs_whole [OF this] show ?thesis by (simp add: kernel_rows_def comp_def)
qed

text \<open>Lines with different labels: a member that only one label sets has the value of that line.\<close>

lemma fold_label:
  assumes "\<And>r m. r \<in> set rs \<Longrightarrow> get (g r m) = (if fst r = lab then h r (get m) else get m)" "distinct (map fst rs)"
  shows "get (fold g rs m) = (case map_of rs lab of None \<Rightarrow> get m | Some x \<Rightarrow> h (lab, x) (get m))"
  using assms
proof (induction rs arbitrary: m)
  case (Cons r rs)
  note step = Cons.prems(1) [of r m]
  have IH: "get (fold g rs (g r m)) = (case map_of rs lab of None \<Rightarrow> get (g r m) | Some x \<Rightarrow> h (lab, x) (get (g r m)))"
    using Cons.prems by (intro Cons.IH) auto
  show ?case
  proof (cases "fst r = lab")
    case True
    then have "map_of rs lab = None" using Cons.prems(2) by (simp add: map_of_eq_None_iff)
    moreover have "r = (lab, snd r)" using True by (metis prod.collapse)
    ultimately show ?thesis using IH step True by (cases r) simp
  next
    case False
    then have "get (g r m) = get m" "map_of (r # rs) lab = map_of rs lab" using step by (cases r; simp)+
    then show ?thesis using IH by (cases "map_of rs lab") simp_all
  qed
qed simp

lemma directives_pair: "directives ''%s %lld'' = [Str 0 True, Blank, Num True True]"
  by code_simp

lemma sscanf_pair:
  assumes "word_ok w" "i64_range i"
  shows "sscanf (w @ row [i] @ [CHR 0x0A]) ''%s %lld'' = [VStr w, VNum (word_of_int i)]"
  using scan_labelled [of w 0 "[(0, i)]" "[Blank, Num True True]" 1 "[CHR 0x0A]"] assms
  by (simp add: sscanf_def directives_pair no_blanks_def isspace_def)

text \<open>The formats are long; they are cut into directives column by column.\<close>

lemma conversion_lld: "conversion (''lld'' @ r) = Some (Num True True, r)"
  by (simp add: conversion_def conv_char_def is_digit_in_def digit_of_def)

lemma directives_lld: "directives (''%lld'' @ r) = Num True True # directives r"
  using conversion_lld [of r] by (subst directives.simps) (simp add: isspace_def)

lemma directives_space: "isspace c \<Longrightarrow> directives (c # r) = Blank # directives (dropWhile isspace r)"
  by (subst directives.simps) simp

lemma isspace_percent: "\<not> isspace CHR ''%''"
  by (simp add: isspace_def)

lemma directives_word: "directives (''%s   '' @ r) = Str 0 True # Blank # directives (dropWhile isspace r)"
  using directives_space [of "CHR '' ''" "''  '' @ r"] isspace_percent
  by (subst directives.simps) (simp add: conversion_def conv_char_def is_digit_in_def digit_of_def)

lemma directives_columns:
  "dropWhile isspace r = r \<Longrightarrow> directives (concat (replicate k ''%lld '') @ r) = numbers (replicate k True) @ directives r"
proof (induction k)
  case (Suc k)
  have "dropWhile isspace (concat (replicate k ''%lld '') @ r) = concat (replicate k ''%lld '') @ r"
    using Suc.prems isspace_percent by (cases k) simp_all
  with Suc directives_lld [of "'' '' @ concat (replicate k ''%lld '') @ r"] show ?case
    by (simp add: directives_space)
qed (simp add: numbers_def)

lemma no_blanks_simps [simp]:
  "no_blanks [] = []" "no_blanks (d # ds) = (if d = Blank then no_blanks ds else d # no_blanks ds)"
  "no_blanks (ds @ es) = no_blanks ds @ no_blanks es"
  by (simp_all add: no_blanks_def)

lemma no_blanks_numbers [simp]: "no_blanks (numbers (replicate k True)) = replicate k (Num True True)"
  by (induction k) simp_all

lemma set_numbers: "set (numbers (replicate k True)) \<subseteq> {Blank, Num True True}"
  by (auto simp: numbers_def)

lemma ucast_of_nat_down: "(ucast (of_nat n :: 64 word) :: 32 word) = of_nat n"
  by (simp add: unsigned_of_nat word_of_nat_eq_iff)

end
