(* ===== verification/Sys_Cpu.thy ===== *)
theory Sys_Cpu
  imports Sys_Lines
begin

text \<open>
  The processor statistics of \<open>photosyst\<close> (\<^verbatim>\<open>src/Qt/FakeAtop/photosyst.c\<close>): \<^verbatim>\<open>/proc/stat\<close>, \<^verbatim>\<open>/proc/loadavg\<close>, the frequencies below
  \<^verbatim>\<open>/sys/devices/system/cpu\<close> and, where there are none, \<^verbatim>\<open>/proc/cpuinfo\<close>.
\<close>

section \<open>The statistics file\<close>

definition MAXCPU :: nat where "MAXCPU = 2048"

definition stat_fmt :: string where
  "stat_fmt = ''%s   '' @ concat (replicate 15 ''%lld '')"

text \<open>The assignments that the line of all processors and the line of one processor have in common.\<close>

definition put_times :: "nat \<Rightarrow> count_t list \<Rightarrow> percpu \<Rightarrow> percpu" where
  "put_times nr cnts pc =
     (let pc = pc\<lparr>pcp_utime := cnts ! 0, pcp_ntime := cnts ! 1, pcp_stime := cnts ! 2, pcp_itime := cnts ! 3\<rparr> in
      if 5 < nr then
        let pc = pc\<lparr>pcp_wtime := cnts ! 4, pcp_Itime := cnts ! 5, pcp_Stime := cnts ! 6\<rparr>;
            pc = (if 8 < nr then pc\<lparr>pcp_steal := cnts ! 7\<rparr> else pc)
        in if 9 < nr then pc\<lparr>pcp_guest := cnts ! 8\<rparr> else pc
      else pc)"

text \<open>One processor: a number that is too large is reported; a negative one would be written in front of the array.\<close>

definition stat_percpu :: "nat \<Rightarrow> string \<Rightarrow> count_t list \<Rightarrow> cpustat \<Rightarrow> cpustat option" where
  "stat_percpu nr nam cnts c =
     (let i = atoi (drop 3 nam) in
      if of_nat MAXCPU \<le>s i then Some c
      else if i <s 0 \<or> length (cst_cpu c) \<le> unat i then None
      else Some (c\<lparr>cst_cpu := (cst_cpu c)[unat i := put_times nr cnts ((cst_cpu c ! unat i)\<lparr>pcp_cpunr := i\<rparr>)],
                   cst_nrcpu := cst_nrcpu c + 1\<rparr>))"

definition stat_store :: "nat \<Rightarrow> string \<Rightarrow> count_t list \<Rightarrow> sstat \<Rightarrow> sstat option" where
  "stat_store nr nam cnts si =
     (let c = ss_cpu si in
      if nam = ''cpu'' then Some (si\<lparr>ss_cpu := c\<lparr>cst_all := put_times nr cnts (cst_all c)\<rparr>\<rparr>)
      else if take 3 nam = ''cpu'' then map_option (\<lambda>c. si\<lparr>ss_cpu := c\<rparr>) (stat_percpu nr nam cnts c)
      else if nam = ''ctxt'' then Some (si\<lparr>ss_cpu := c\<lparr>cst_csw := cnts ! 0\<rparr>\<rparr>)
      else if nam = ''intr'' then Some (si\<lparr>ss_cpu := c\<lparr>cst_devint := cnts ! 0\<rparr>\<rparr>)
      else if nam = ''processes'' then Some (si\<lparr>ss_cpu := c\<lparr>cst_nprocs := cnts ! 0\<rparr>\<rparr>)
      else if nam = ''swap'' then Some (si\<lparr>ss_mem := (ss_mem si)\<lparr>mst_swins := cnts ! 0, mst_swouts := cnts ! 1\<rparr>\<rparr>)
      else Some si)"

definition procstat_line :: "string \<Rightarrow> scanbuf \<times> sstat \<Rightarrow> (scanbuf \<times> sstat) option" where
  "procstat_line line = (\<lambda>(sb, si).
     do {
       (nr, sb) \<leftarrow> scan_line stat_fmt line sb;
       if nr < 2 then Some (sb, si)
       else map_option (Pair sb) (stat_store nr (sb_nam sb) (sb_cnts sb) si)
     })"

definition proc_stat :: "string option \<Rightarrow> scanbuf \<Rightarrow> sstat \<Rightarrow> (scanbuf \<times> sstat) option" where
  "proc_stat contents sb si =
     (case contents of
        None \<Rightarrow> Some (sb, si)
      | Some txt \<Rightarrow>
          do {
            (sb, si) \<leftarrow> each_line (go_on procstat_line) txt (sb, si);
            Some (sb, if cst_nrcpu (ss_cpu si) = 0 then si\<lparr>ss_cpu := (ss_cpu si)\<lparr>cst_nrcpu := 1\<rparr>\<rparr> else si)
          })"

section \<open>Load\<close>

text \<open>\<open>floats line\<close> are the values that \<open>sscanf(linebuf, "%f %f %f", ...)\<close> assigns, as bit patterns.\<close>

definition loadavg :: "(string \<Rightarrow> u32 list) \<Rightarrow> string option \<Rightarrow> cpustat \<Rightarrow> cpustat" where
  "loadavg floats contents c =
     (case contents of
        None \<Rightarrow> c
      | Some txt \<Rightarrow>
          (case linebufs txt of
             [] \<Rightarrow> c
           | line # _ \<Rightarrow>
               let v = floats line in
               if length v = 3 then c\<lparr>cst_lavg1 := v ! 0, cst_lavg5 := v ! 1, cst_lavg15 := v ! 2\<rparr> else c))"

section \<open>Frequencies\<close>

text \<open>The local variables of the loop over \<^verbatim>\<open>time_in_state\<close>.\<close>

record freqvars =
  fv_hits :: i64
  fv_maxfreq :: i64
  fv_sum :: i64

lemma spaces_shorter: "length (dropWhile isspace s) \<le> length s"
  by (rule length_dropWhile_le)

function time_in_state :: "string \<Rightarrow> freqvars \<Rightarrow> bool \<Rightarrow> freqvars \<times> bool" where
  "time_in_state s v didone =
     (case read_number True (dropWhile isspace s) of
        None \<Rightarrow> (v, didone)
      | Some (f, r) \<Rightarrow>
          (case read_number True (dropWhile isspace r) of
             None \<Rightarrow> (v, didone)
           | Some (cnt, r') \<Rightarrow>
               let f = cdiv f 1000;
                   v = v\<lparr>fv_sum := fv_sum v + f * cnt, fv_hits := fv_hits v + cnt\<rparr>;
                   v = (if fv_maxfreq v <s f then v\<lparr>fv_maxfreq := f\<rparr> else v)
               in time_in_state r' v True))"
  by pat_completeness auto

termination
proof (relation "measure (\<lambda>(s, _, _). length s)")
  fix s :: string and v :: freqvars and d :: bool and x f r x' cnt r' f' v' v''
  assume "read_number True (dropWhile isspace s) = Some x" "(f, r) = x" "read_number True (dropWhile isspace r) = Some x'" "(cnt, r') = x'"
  then have "length r < length (dropWhile isspace s)" "length r' < length (dropWhile isspace r)"
    by (auto dest: read_number_shorter)
  then show "((r', v'' :: freqvars, True), s, v, d) \<in> measure (\<lambda>(s, _, _). length s)"
    using spaces_shorter [of s] spaces_shorter [of r] by simp
qed simp

declare time_in_state.simps [simp del]

text \<open>\<open>fscanf(fp, "%lld", &f)\<close> on a file.\<close>

definition read_one :: "string \<Rightarrow> i64 option" where
  "read_one txt = map_option fst (read_number True (dropWhile isspace txt))"

definition cpu_path :: "nat \<Rightarrow> string \<Rightarrow> string" where
  "cpu_path i name = ''/sys/devices/system/cpu/cpu'' @ dec i @ ''/cpufreq/'' @ name"

text \<open>One processor; \<open>fopen\<close> yields the contents of a file that can be opened.\<close>

definition cpu_freq :: "(string \<Rightarrow> string option) \<Rightarrow> nat \<Rightarrow> freqcnt \<Rightarrow> bool \<Rightarrow> freqcnt \<times> bool" where
  "cpu_freq fopen i fc didone =
     (case fopen (cpu_path i ''stats/time_in_state'') of
        Some txt \<Rightarrow>
          (let (v, didone) = time_in_state txt \<lparr>fv_hits = 0, fv_maxfreq = 0, fv_sum = 0\<rparr> didone in
           (fc\<lparr>frq_maxfreq := fv_maxfreq v, frq_cnt := fv_sum v, frq_ticks := fv_hits v\<rparr>, didone))
      | None \<Rightarrow>
          let fc = (case fopen (cpu_path i ''cpuinfo_max_freq'') of
                      Some txt \<Rightarrow> (case read_one txt of Some f \<Rightarrow> fc\<lparr>frq_maxfreq := cdiv f 1000\<rparr> | None \<Rightarrow> fc)
                    | None \<Rightarrow> fc\<lparr>frq_maxfreq := 0\<rparr>)
          in
          case fopen (cpu_path i ''scaling_cur_freq'') of
            Some txt \<Rightarrow> (case read_one txt of Some f \<Rightarrow> (fc\<lparr>frq_cnt := cdiv f 1000, frq_ticks := 0\<rparr>, True) | None \<Rightarrow> (fc, didone))
          | None \<Rightarrow> (fc\<lparr>frq_cnt := 0, frq_ticks := 0\<rparr>, didone))"

fun cpu_freqs :: "(string \<Rightarrow> string option) \<Rightarrow> nat list \<Rightarrow> percpu list \<times> bool \<Rightarrow> (percpu list \<times> bool) option" where
  "cpu_freqs fopen [] s = Some s"
| "cpu_freqs fopen (i # is) (cpu, didone) =
     (if length cpu \<le> i then None
      else
        let (fc, didone) = cpu_freq fopen i (pcp_freqcnt (cpu ! i)) didone in
        cpu_freqs fopen is (cpu[i := (cpu ! i)\<lparr>pcp_freqcnt := fc\<rparr>], didone))"

text \<open>A line of \<^verbatim>\<open>cpuinfo\<close>; the state is \<open>cpuno\<close> and the table.\<close>

definition cpuinfo_line :: "count_t \<Rightarrow> string \<Rightarrow> i32 \<times> percpu list \<Rightarrow> (i32 \<times> percpu list) option" where
  "cpuinfo_line nrcpu line = (\<lambda>(cpuno, cpu).
     let cpuno = (if prefix ''processor'' line then assign [\<lambda>v _. ucast (vnum v)] (sscanf line ''%*s %*s %d'') cpuno else cpuno) in
     if prefix ''cpu MHz'' line \<and> 0 \<le>s cpuno \<and> scast cpuno <s nrcpu then
       if length cpu \<le> unat cpuno then None
       else
         let pc = cpu ! unat cpuno in
         Some (cpuno, cpu[unat cpuno := pc\<lparr>pcp_freqcnt := assign [\<lambda>v fc. fc\<lparr>frq_cnt := vnum v\<rparr>] (sscanf line ''%*s %*s %*s %lld'') (pcp_freqcnt pc)\<rparr>])
     else Some (cpuno, cpu))"

definition frequencies :: "(string \<Rightarrow> string option) \<Rightarrow> cpustat \<Rightarrow> cpustat option" where
  "frequencies fopen c =
     do {
       (cpu, didone) \<leftarrow> cpu_freqs fopen [0..<nat (sint (cst_nrcpu c))] (cst_cpu c, False);
       cpu \<leftarrow> (case fopen ''cpuinfo'' of
                 Some txt \<Rightarrow>
                   if didone then Some cpu
                   else map_option snd (each_line (go_on (cpuinfo_line (cst_nrcpu c))) txt (-1, cpu))
               | None \<Rightarrow> Some cpu);
       Some (c\<lparr>cst_cpu := cpu\<rparr>)
     }"

section \<open>The statistics file as the kernel writes it\<close>

lemma directives_stat:
  "directives stat_fmt = Str 0 True # Blank # numbers (replicate 15 True)"
proof -
  have "directives [] = []" by (subst directives.simps) simp
  moreover have "dropWhile isspace (concat (replicate 15 ''%lld '')) = concat (replicate 15 ''%lld '')"
    by (simp add: numeral_eq_Suc isspace_percent)
  ultimately show ?thesis
    using directives_columns [of "[]" 15] directives_word by (simp add: stat_fmt_def del: append_Cons)
qed

lemma scan_stat_row: "krow_ok r \<Longrightarrow> scan_line stat_fmt (row_text r @ [CHR 0x0A]) sb = Some (length (row_counts 15 r) + 1, row_scanned 15 r sb)"
  using set_numbers [of 15] by (intro scan_line_row [OF _ directives_stat]) auto

text \<open>
  The times of a line with at least seven of them, column by column: user, nice, system, idle, waiting, interrupts and soft interrupts;
  stolen time is the eighth and guest time the ninth column, if they are there.
\<close>

definition row_times :: "krow \<Rightarrow> percpu \<Rightarrow> percpu" where
  "row_times r pc =
     (let ps = fst (snd r); x = \<lambda>i. word_of_int (snd (ps ! i)) in
      pc\<lparr>pcp_utime := x 0, pcp_ntime := x 1, pcp_stime := x 2, pcp_itime := x 3, pcp_wtime := x 4, pcp_Itime := x 5, pcp_Stime := x 6,
         pcp_steal := (if 8 \<le> length ps then x 7 else pcp_steal pc), pcp_guest := (if 9 \<le> length ps then x 8 else pcp_guest pc)\<rparr>)"

lemma put_times_append:
  assumes "7 \<le> length xs"
  shows "put_times (length xs + 1) (xs @ ys) pc = put_times (length xs + 1) xs pc"
proof -
  have "xs \<noteq> []" using assms by auto
  then show ?thesis using assms by (auto simp: put_times_def Let_def nth_append)
qed

lemma row_times_scanned:
  assumes "7 \<le> length (row_counts 15 r)"
  shows "put_times (length (row_counts 15 r) + 1) (sb_cnts (row_scanned 15 r sb)) pc = row_times r pc"
proof -
  obtain w ps sfx where r: "r = (w, ps, sfx)" by (cases r)
  have "put_times (length (row_counts 15 r) + 1) (sb_cnts (row_scanned 15 r sb)) pc =
      put_times (length (row_counts 15 r) + 1) (row_counts 15 r) pc"
    using put_times_append [OF assms] by (simp add: row_scanned_def)
  moreover have "put_times (length (row_counts 15 r) + 1) (row_counts 15 r) pc = row_times r pc"
  proof -
    have "ps \<noteq> []" using assms by (auto simp: row_counts_def r)
    then have "map word_of_int (take 15 (map snd ps)) ! 0 = (word_of_int (snd (ps ! 0)) :: count_t)"
      "map (word_of_int \<circ> snd) ps ! 0 = (word_of_int (snd (ps ! 0)) :: count_t)" by (cases ps; simp)+
    then show ?thesis using assms by (simp add: put_times_def row_times_def row_counts_def r Let_def)
  qed
  ultimately show ?thesis by simp
qed

lemma atoi_dec:
  assumes "n < 2 ^ 31"
  shows "atoi (dec n) = of_nat n"
proof -
  have "read_number True (decz (int n) @ []) = Some (word_of_int (int n), [])"
    using assms by (intro read_number_decz) (auto simp: number_end_def)
  moreover have "dropWhile isspace (dec n) = dec n" using drop_spaces_decz [of "int n" "[]"] by (simp add: decz_def)
  ultimately show ?thesis by (simp add: atoi_def decz_def ucast_of_nat_down)
qed

text \<open>The line of one processor.\<close>

definition cpu_row :: "nat \<Rightarrow> (nat \<times> int) list \<Rightarrow> krow" where
  "cpu_row i ps = (''cpu'' @ dec i, ps, [])"

definition cpu_row_ok :: "nat \<Rightarrow> (nat \<times> int) list \<Rightarrow> bool" where
  "cpu_row_ok i ps \<longleftrightarrow> krow_ok (cpu_row i ps) \<and> 7 \<le> length ps"

definition put_cpu :: "nat \<Rightarrow> (nat \<times> int) list \<Rightarrow> cpustat \<Rightarrow> cpustat" where
  "put_cpu i ps c = c\<lparr>cst_cpu := (cst_cpu c)[i := row_times (cpu_row i ps) ((cst_cpu c ! i)\<lparr>pcp_cpunr := of_nat i\<rparr>)],
     cst_nrcpu := cst_nrcpu c + 1\<rparr>"

lemma stat_line_cpu:
  assumes "cpu_row_ok i ps" "i < MAXCPU" "length (cst_cpu (ss_cpu si)) = MAXCPU"
  shows "procstat_line (row_text (cpu_row i ps) @ [CHR 0x0A]) (sb, si) =
    Some (row_scanned 15 (cpu_row i ps) sb, si\<lparr>ss_cpu := put_cpu i ps (ss_cpu si)\<rparr>)"
proof -
  have len: "7 \<le> length (row_counts 15 (cpu_row i ps))" using assms(1) by (simp add: cpu_row_ok_def row_counts_def cpu_row_def)
  have i: "i < 2048" using assms(2) by (simp add: MAXCPU_def)
  then have "atoi (drop 3 (''cpu'' @ dec i)) = of_nat i" by (simp add: atoi_dec)
  moreover have "sint (of_nat i :: i32) = int i" "unat (of_nat i :: i32) = i"
    using i by (simp_all add: signed_of_nat signed_take_bit_int_eq_self unat_of_nat)
  ultimately have "stat_percpu (length (row_counts 15 (cpu_row i ps)) + 1) (''cpu'' @ dec i) (sb_cnts (row_scanned 15 (cpu_row i ps) sb)) (ss_cpu si) =
      Some (put_cpu i ps (ss_cpu si))"
    using i assms(3) row_times_scanned [OF len]
    by (simp add: stat_percpu_def put_cpu_def word_sle_eq word_sless_alt MAXCPU_def)
  moreover have "dec i \<noteq> []" using hd_decz(2) [of "int i"] by (simp add: decz_def)
  ultimately show ?thesis
    using assms(1) len scan_stat_row [of "cpu_row i ps" sb]
    by (auto simp: procstat_line_def cpu_row_ok_def stat_store_def row_scanned_def cpu_row_def)
qed

lemma stat_line_all:
  assumes "krow_ok (''cpu'', ps, sfx)" "7 \<le> length ps"
  shows "procstat_line (row_text (''cpu'', ps, sfx) @ [CHR 0x0A]) (sb, si) = Some (row_scanned 15 (''cpu'', ps, sfx) sb,
    si\<lparr>ss_cpu := (ss_cpu si)\<lparr>cst_all := row_times (''cpu'', ps, sfx) (cst_all (ss_cpu si))\<rparr>\<rparr>)"
proof -
  have len: "7 \<le> length (row_counts 15 (''cpu'', ps, sfx))" using assms(2) by (simp add: row_counts_def)
  then have "row_counts 15 (''cpu'', ps, sfx) \<noteq> []" by auto
  then show ?thesis
    using row_times_scanned [OF len] scan_stat_row [OF assms(1), of sb]
    by (simp add: procstat_line_def stat_store_def row_scanned_def Let_def)
qed

text \<open>Any other line.\<close>

definition stat_misc :: "string \<Rightarrow> count_t \<Rightarrow> cpustat \<Rightarrow> cpustat" where
  "stat_misc nam x c =
     (if nam = ''ctxt'' then c\<lparr>cst_csw := x\<rparr> else if nam = ''intr'' then c\<lparr>cst_devint := x\<rparr>
      else if nam = ''processes'' then c\<lparr>cst_nprocs := x\<rparr> else c)"

definition misc_row_ok :: "krow \<Rightarrow> bool" where
  "misc_row_ok r \<longleftrightarrow> krow_ok r \<and> take 3 (fst r) \<noteq> ''cpu'' \<and> fst r \<noteq> ''swap''"

lemma stat_line_misc:
  assumes "misc_row_ok r"
  shows "procstat_line (row_text r @ [CHR 0x0A]) (sb, si) =
    Some (row_scanned 15 r sb, si\<lparr>ss_cpu := stat_misc (fst r) (hd (row_counts 15 r)) (ss_cpu si)\<rparr>)"
proof -
  obtain w ps sfx where r: "r = (w, ps, sfx)" by (cases r)
  have "krow_ok r" "take 3 w \<noteq> ''cpu''" "w \<noteq> ''swap''" "ps \<noteq> []" using assms by (auto simp: misc_row_ok_def r krow_ok_def)
  moreover from this(2) have "w \<noteq> ''cpu''" by auto
  moreover from \<open>ps \<noteq> []\<close> have "row_counts 15 r \<noteq> []" by (simp add: r row_counts_def)
  ultimately show ?thesis
    using scan_stat_row [of r sb]
    by (auto simp: procstat_line_def stat_store_def stat_misc_def row_scanned_def r hd_conv_nth nth_append Let_def)
qed

abbreviation put_cpus :: "(nat \<times> (nat \<times> int) list) list \<Rightarrow> cpustat \<Rightarrow> cpustat" where
  "put_cpus \<equiv> fold (\<lambda>(i, ps). put_cpu i ps)"

abbreviation put_misc :: "krow list \<Rightarrow> cpustat \<Rightarrow> cpustat" where
  "put_misc \<equiv> fold (\<lambda>r. stat_misc (fst r) (hd (row_counts 15 r)))"

lemma length_put_cpu [simp]: "length (cst_cpu (put_cpu i ps c)) = length (cst_cpu c)"
  by (simp add: put_cpu_def)

lemma stat_lines_cpus:
  assumes "\<forall>(i, ps)\<in>set cs. i < MAXCPU \<and> cpu_row_ok i ps" "length (cst_cpu (ss_cpu si)) = MAXCPU"
  shows "\<exists>sb'. lines_loop (go_on procstat_line) (map (\<lambda>r. row_text r @ [CHR 0x0A]) (map (\<lambda>(i, ps). cpu_row i ps) cs)) (sb, si) =
    Some (sb', si\<lparr>ss_cpu := put_cpus cs (ss_cpu si)\<rparr>)"
  using assms
proof (induction cs arbitrary: sb si)
  case (Cons c cs)
  obtain i ps where c: "c = (i, ps)" by (cases c)
  then have "procstat_line (row_text (cpu_row i ps) @ [CHR 0x0A]) (sb, si) =
      Some (row_scanned 15 (cpu_row i ps) sb, si\<lparr>ss_cpu := put_cpu i ps (ss_cpu si)\<rparr>)"
    using Cons.prems by (intro stat_line_cpu) auto
  with Cons.IH [of "si\<lparr>ss_cpu := put_cpu i ps (ss_cpu si)\<rparr>"] Cons.prems show ?case
    by (simp add: c lines_loop_go_on del: lines_loop.simps(2))
qed simp

lemma stat_lines_misc:
  assumes "\<forall>r\<in>set rs. misc_row_ok r"
  shows "\<exists>sb'. lines_loop (go_on procstat_line) (map (\<lambda>r. row_text r @ [CHR 0x0A]) rs) (sb, si) =
    Some (sb', si\<lparr>ss_cpu := put_misc rs (ss_cpu si)\<rparr>)"
  using assms
proof (induction rs arbitrary: sb si)
  case (Cons r rs)
  with stat_line_misc [of r sb si] Cons.IH [of _ "si\<lparr>ss_cpu := stat_misc (fst r) (hd (row_counts 15 r)) (ss_cpu si)\<rparr>"] show ?case
    by (simp add: lines_loop_go_on del: lines_loop.simps(2))
qed simp

lemma put_misc_simps:
  "cst_cpu (put_misc rs c) = cst_cpu c" "cst_nrcpu (put_misc rs c) = cst_nrcpu c" "cst_all (put_misc rs c) = cst_all c"
  by (induction rs arbitrary: c) (auto simp: stat_misc_def)

lemma put_cpus_simps:
  "cst_all (put_cpus cs c) = cst_all c" "cst_nrcpu (put_cpus cs c) = cst_nrcpu c + of_nat (length cs)"
  "length (cst_cpu (put_cpus cs c)) = length (cst_cpu c)" "i \<notin> fst ` set cs \<Longrightarrow> cst_cpu (put_cpus cs c) ! i = cst_cpu c ! i"
  by (induction cs arbitrary: c) (auto simp: put_cpu_def)

lemma put_cpus_misc:
  "cst_csw (put_cpus cs c) = cst_csw c" "cst_devint (put_cpus cs c) = cst_devint c" "cst_nprocs (put_cpus cs c) = cst_nprocs c"
  by (induction cs arbitrary: c) (auto simp: put_cpu_def)

lemma put_cpus_nth:
  assumes "distinct (map fst cs)" "(i, ps) \<in> set cs" "i < length (cst_cpu c)"
  shows "cst_cpu (put_cpus cs c) ! i = row_times (cpu_row i ps) ((cst_cpu c ! i)\<lparr>pcp_cpunr := of_nat i\<rparr>)"
  using assms
proof (induction cs arbitrary: c)
  case (Cons a cs)
  then show ?case
  proof (cases "a = (i, ps)")
    case True
    with Cons.prems show ?thesis by (simp add: put_cpus_simps(4)) (simp add: put_cpu_def)
  next
    case False
    obtain j qs where a: "a = (j, qs)" by (cases a)
    have "(i, ps) \<in> set cs" using False Cons.prems(2) by simp
    then have "i \<noteq> j" using Cons.prems(1) a by (auto simp: image_iff)
    with Cons.IH [of "put_cpu j qs c"] Cons.prems \<open>(i, ps) \<in> set cs\<close> show ?thesis by (simp add: a) (simp add: put_cpu_def)
  qed
qed simp

lemma proc_stat_rows:
  assumes "krow_ok (''cpu'', ps0, sfx)" "7 \<le> length ps0" "\<forall>(i, ps)\<in>set cs. i < MAXCPU \<and> cpu_row_ok i ps" "\<forall>r\<in>set rs. misc_row_ok r"
    "length (cst_cpu (ss_cpu si)) = MAXCPU"
  shows "\<exists>sb'. each_line (go_on procstat_line) (kernel_rows ((''cpu'', ps0, sfx) # map (\<lambda>(i, ps). cpu_row i ps) cs @ rs)) (sb, si) =
    Some (sb', si\<lparr>ss_cpu := put_misc rs (put_cpus cs ((ss_cpu si)\<lparr>cst_all := row_times (''cpu'', ps0, sfx) (cst_all (ss_cpu si))\<rparr>))\<rparr>)"
proof -
  let ?c = "(ss_cpu si)\<lparr>cst_all := row_times (''cpu'', ps0, sfx) (cst_all (ss_cpu si))\<rparr>"
  let ?ls = "map (\<lambda>r. row_text r @ [CHR 0x0A])"
  have "\<forall>r\<in>set ((''cpu'', ps0, sfx) # map (\<lambda>(i, ps). cpu_row i ps) cs @ rs). krow_ok r"
    using assms(1,3,4) by (auto simp: cpu_row_ok_def misc_row_ok_def)
  note l = linebufs_rows [OF this]
  have "length (cst_cpu (ss_cpu (si\<lparr>ss_cpu := ?c\<rparr>))) = MAXCPU" using assms(5) by simp
  from stat_lines_cpus [OF assms(3) this, of "row_scanned 15 (''cpu'', ps0, sfx) sb"] obtain sb1 where s1:
    "lines_loop (go_on procstat_line) (?ls (map (\<lambda>(i, ps). cpu_row i ps) cs)) (row_scanned 15 (''cpu'', ps0, sfx) sb, si\<lparr>ss_cpu := ?c\<rparr>) =
      Some (sb1, si\<lparr>ss_cpu := put_cpus cs ?c\<rparr>)" by auto
  from stat_lines_misc [OF assms(4), of sb1 "si\<lparr>ss_cpu := put_cpus cs ?c\<rparr>"] obtain sb2 where s2:
    "lines_loop (go_on procstat_line) (?ls rs) (sb1, si\<lparr>ss_cpu := put_cpus cs ?c\<rparr>) = Some (sb2, si\<lparr>ss_cpu := put_misc rs (put_cpus cs ?c)\<rparr>)"
    by auto
  show ?thesis
    unfolding each_line_def l list.map map_append lines_loop_go_on stat_line_all [OF assms(1,2)] bind.bind_lunit lines_loop_append s1 s2
    by blast
qed

definition misc_value :: "string \<Rightarrow> krow list \<Rightarrow> count_t \<Rightarrow> count_t" where
  "misc_value nam rs d = (case map_of rs nam of None \<Rightarrow> d | Some r \<Rightarrow> hd (row_counts 15 (nam, r)))"

lemma put_misc_values:
  assumes "distinct (map fst rs)"
  shows "cst_csw (put_misc rs c) = misc_value ''ctxt'' rs (cst_csw c)" "cst_devint (put_misc rs c) = misc_value ''intr'' rs (cst_devint c)"
    "cst_nprocs (put_misc rs c) = misc_value ''processes'' rs (cst_nprocs c)"
  unfolding misc_value_def
  by (rule fold_label [OF _ assms]; simp add: stat_misc_def)+

text \<open>
  C14: The processors of \<^verbatim>\<open>/proc/stat\<close>.  After the line of all processors, a line for each processor that is online, whatever its
  number, and any other lines, the totals and the entry of every processor have the times of the columns of their lines, an entry without a line is
  as before, the number of processors is the number of lines, and context switches, interrupts and processes come from theirs.
\<close>

theorem proc_stat_cpus:
  assumes "krow_ok (''cpu'', ps0, sfx)" "7 \<le> length ps0" "\<forall>(i, ps)\<in>set cs. i < MAXCPU \<and> cpu_row_ok i ps" "\<forall>r\<in>set rs. misc_row_ok r"
    and "distinct (map fst cs)" "cs \<noteq> []" "distinct (map fst rs)"
    and "length (cst_cpu (ss_cpu si)) = MAXCPU" "cst_nrcpu (ss_cpu si) = 0"
  shows "\<exists>sb' si'. proc_stat (Some (kernel_rows ((''cpu'', ps0, sfx) # map (\<lambda>(i, ps). cpu_row i ps) cs @ rs))) sb si = Some (sb', si') \<and>
    cst_all (ss_cpu si') = row_times (''cpu'', ps0, sfx) (cst_all (ss_cpu si)) \<and>
    sint (cst_nrcpu (ss_cpu si')) = int (length cs) \<and>
    (\<forall>i<MAXCPU. cst_cpu (ss_cpu si') ! i =
       (case map_of cs i of
          None \<Rightarrow> cst_cpu (ss_cpu si) ! i
        | Some ps \<Rightarrow> row_times (cpu_row i ps) ((cst_cpu (ss_cpu si) ! i)\<lparr>pcp_cpunr := of_nat i\<rparr>))) \<and>
    cst_csw (ss_cpu si') = misc_value ''ctxt'' rs (cst_csw (ss_cpu si)) \<and>
    cst_devint (ss_cpu si') = misc_value ''intr'' rs (cst_devint (ss_cpu si)) \<and>
    cst_nprocs (ss_cpu si') = misc_value ''processes'' rs (cst_nprocs (ss_cpu si))"
proof -
  define c where "c = (ss_cpu si)\<lparr>cst_all := row_times (''cpu'', ps0, sfx) (cst_all (ss_cpu si))\<rparr>"
  have c: "cst_cpu c = cst_cpu (ss_cpu si)" "cst_nrcpu c = cst_nrcpu (ss_cpu si)" "cst_csw c = cst_csw (ss_cpu si)"
    "cst_devint c = cst_devint (ss_cpu si)" "cst_nprocs c = cst_nprocs (ss_cpu si)"
    "cst_all c = row_times (''cpu'', ps0, sfx) (cst_all (ss_cpu si))" by (simp_all add: c_def)
  obtain sb' where loop: "each_line (go_on procstat_line) (kernel_rows ((''cpu'', ps0, sfx) # map (\<lambda>(i, ps). cpu_row i ps) cs @ rs)) (sb, si) =
      Some (sb', si\<lparr>ss_cpu := put_misc rs (put_cpus cs c)\<rparr>)"
    using proc_stat_rows [OF assms(1-4,8)] c_def by blast
  have "fst ` set cs \<subseteq> {..<MAXCPU}" using assms(3) by auto
  then have "card (fst ` set cs) \<le> MAXCPU" using card_mono [of "{..<MAXCPU}"] by fastforce
  then have len: "length cs \<le> 2048" using distinct_card [OF assms(5)] by (simp add: MAXCPU_def)
  then have nr: "sint (of_nat (length cs) :: count_t) = int (length cs)"
    by (simp add: signed_of_nat signed_take_bit_int_eq_self)
  then have "(of_nat (length cs) :: count_t) \<noteq> 0" using assms(6) by auto
  then have "proc_stat (Some (kernel_rows ((''cpu'', ps0, sfx) # map (\<lambda>(i, ps). cpu_row i ps) cs @ rs))) sb si =
      Some (sb', si\<lparr>ss_cpu := put_misc rs (put_cpus cs c)\<rparr>)"
    using loop assms(9) by (simp add: proc_stat_def put_misc_simps put_cpus_simps c_def)
  moreover have "cst_cpu (put_cpus cs c) ! i =
      (case map_of cs i of
         None \<Rightarrow> cst_cpu (ss_cpu si) ! i
       | Some ps \<Rightarrow> row_times (cpu_row i ps) ((cst_cpu (ss_cpu si) ! i)\<lparr>pcp_cpunr := of_nat i\<rparr>))" if "i < MAXCPU" for i
  proof (cases "map_of cs i")
    case None
    moreover from None have "i \<notin> fst ` set cs" by (simp add: map_of_eq_None_iff)
    ultimately show ?thesis by (simp add: put_cpus_simps(4) c)
  next
    case (Some ps)
    with put_cpus_nth [OF assms(5) map_of_SomeD, of i ps c] that assms(8) show ?thesis by (simp add: c)
  qed
  ultimately show ?thesis
    using nr assms(9)
    by (intro exI [of _ sb'] exI [of _ "si\<lparr>ss_cpu := put_misc rs (put_cpus cs c)\<rparr>"] conjI)
      (simp_all add: put_misc_values [OF assms(7)] put_misc_simps put_cpus_simps(1,2) put_cpus_misc c)
qed

text \<open>
  Two processors of three are online.  The entry of the one with number 2 is filled, but the number of processors is 2: loops over
  that many entries end in front of it.
\<close>

definition times_ex :: "(nat \<times> int) list" where
  "times_ex = map (Pair 0) [4, 5, 3, 9, 1, 6, 2, 8, 7, 0]"

theorem proc_stat_cpus_witness:
  "\<exists>sb' si'. proc_stat (Some (kernel_rows ((''cpu'', times_ex, []) # map (\<lambda>(i, ps). cpu_row i ps) [(0, times_ex), (2, times_ex)] @
       [(''ctxt'', [(0, 7)], [])]))) \<lparr>sb_nam = [], sb_cnts = replicate 64 0\<rparr> sstat0 = Some (sb', si') \<and>
     sint (cst_nrcpu (ss_cpu si')) = 2 \<and> cst_cpu (ss_cpu si') ! 1 = percpu0 \<and>
     (let pc = cst_cpu (ss_cpu si') ! 2 in
       [pcp_utime pc, pcp_ntime pc, pcp_stime pc, pcp_itime pc, pcp_wtime pc, pcp_Itime pc, pcp_Stime pc, pcp_steal pc, pcp_guest pc] =
       [4, 5, 3, 9, 1, 6, 2, 8, 7]) \<and>
     cst_csw (ss_cpu si') = 7"
proof -
  have len: "length (row_text (''cpu'', times_ex, [])) < 100" "length (row_text (cpu_row 0 times_ex)) < 100"
    "length (row_text (cpu_row 2 times_ex)) < 100" "length (row_text (''ctxt'', [(0, 7)], [])) < 100"
    by code_simp+
  have dec: "dec 0 = ''0''" "dec 2 = ''2''" by code_simp+
  have ok: "krow_ok (''cpu'', times_ex, [])" "7 \<le> length times_ex"
    using len(1) by (simp_all add: krow_ok_def word_ok_def isspace_def times_ex_def i64_range_def)
  have "cpu_row_ok 0 times_ex" "cpu_row_ok 2 times_ex"
    using len(2,3) by (simp_all add: cpu_row_ok_def cpu_row_def dec krow_ok_def word_ok_def isspace_def times_ex_def i64_range_def)
  then have cs: "\<forall>(i, ps)\<in>set [(0, times_ex), (2, times_ex)]. i < MAXCPU \<and> cpu_row_ok i ps" by (simp add: MAXCPU_def)
  have rs: "\<forall>r\<in>set [(''ctxt'', [(0, 7)], [])]. misc_row_ok r"
    using len(4) by (simp add: misc_row_ok_def krow_ok_def word_ok_def isspace_def i64_range_def)
  have si: "length (cst_cpu (ss_cpu sstat0)) = MAXCPU" "cst_nrcpu (ss_cpu sstat0) = 0" "(1::nat) < MAXCPU" "(2::nat) < MAXCPU"
    "cst_cpu (ss_cpu sstat0) ! 1 = percpu0" by (simp_all add: sstat0_def cpustat0_def MAXCPU_def)
  have u: "let pc = row_times (cpu_row 2 times_ex) pc in
      [pcp_utime pc, pcp_ntime pc, pcp_stime pc, pcp_itime pc, pcp_wtime pc, pcp_Itime pc, pcp_Stime pc, pcp_steal pc, pcp_guest pc] =
      [4, 5, 3, 9, 1, 6, 2, 8, 7]" for pc
    by (simp add: row_times_def cpu_row_def times_ex_def Let_def)
  have m: "misc_value ''ctxt'' [(''ctxt'', [(0, 7)], [])] x = 7" for x by (simp add: misc_value_def row_counts_def)
  obtain sb' si' where "proc_stat (Some (kernel_rows ((''cpu'', times_ex, []) # map (\<lambda>(i, ps). cpu_row i ps) [(0, times_ex), (2, times_ex)] @
       [(''ctxt'', [(0, 7)], [])]))) \<lparr>sb_nam = [], sb_cnts = replicate 64 0\<rparr> sstat0 = Some (sb', si')"
    "sint (cst_nrcpu (ss_cpu si')) = int (length [(0::nat, times_ex), (2, times_ex)])"
    "\<forall>i<MAXCPU. cst_cpu (ss_cpu si') ! i =
       (case map_of [(0, times_ex), (2, times_ex)] i of
          None \<Rightarrow> cst_cpu (ss_cpu sstat0) ! i
        | Some ps \<Rightarrow> row_times (cpu_row i ps) ((cst_cpu (ss_cpu sstat0) ! i)\<lparr>pcp_cpunr := of_nat i\<rparr>))"
    "cst_csw (ss_cpu si') = misc_value ''ctxt'' [(''ctxt'', [(0, 7)], [])] (cst_csw (ss_cpu sstat0))"
    using proc_stat_cpus [OF ok cs rs _ _ _ si(1,2), of "\<lparr>sb_nam = [], sb_cnts = replicate 64 0\<rparr>"] by auto
  then show ?thesis using si u m by auto
qed

end
