(* ===== verification/Sys_Mem.thy ===== *)
theory Sys_Mem
  imports Sys_Lines
begin

text \<open>
  The memory statistics of \<open>photosyst\<close> (\<^verbatim>\<open>src/Qt/FakeAtop/photosyst.c\<close>): \<^verbatim>\<open>/proc/vmstat\<close>, \<^verbatim>\<open>/proc/meminfo\<close>, \<^verbatim>\<open>/proc/vmmemctl\<close> and
  the system call for shared memory.
\<close>

section \<open>Virtual memory\<close>

definition vmstat_store :: "string \<Rightarrow> count_t \<Rightarrow> memstat \<Rightarrow> memstat" where
  "vmstat_store nam x m =
     (if nam = ''pswpin'' then m\<lparr>mst_swins := x\<rparr>
      else if nam = ''pswpout'' then m\<lparr>mst_swouts := x\<rparr>
      else if take 7 nam = ''pgscan_'' then m\<lparr>mst_pgscans := mst_pgscans m + x\<rparr>
      else if take 8 nam = ''pgsteal_'' then m\<lparr>mst_pgsteal := mst_pgsteal m + x\<rparr>
      else if nam = ''allocstall'' then m\<lparr>mst_allocstall := x\<rparr>
      else m)"

definition vmstat_line :: "string \<Rightarrow> scanbuf \<times> memstat \<Rightarrow> (scanbuf \<times> memstat) option" where
  "vmstat_line line = (\<lambda>(sb, m).
     do {
       (nr, sb) \<leftarrow> scan_line ''%s %lld'' line sb;
       Some (sb, if nr < 2 then m else vmstat_store (sb_nam sb) (sb_cnts sb ! 0) m)
     })"

definition vmstat :: "string option \<Rightarrow> scanbuf \<Rightarrow> memstat \<Rightarrow> (scanbuf \<times> memstat) option" where
  "vmstat contents sb m = (case contents of None \<Rightarrow> Some (sb, m) | Some txt \<Rightarrow> each_line (go_on vmstat_line) txt (sb, m))"

section \<open>Memory\<close>

text \<open>\<open>cnts[0]*1024/pagesize\<close>: kilobytes as pages.\<close>

definition pages :: "u32 \<Rightarrow> count_t \<Rightarrow> count_t" where
  "pages pagesize x = cdiv (x * 1024) (ucast pagesize)"

text \<open>The values before the file is read.\<close>

definition meminfo_init :: "memstat \<Rightarrow> memstat" where
  "meminfo_init m = m\<lparr>mst_physmem := -1, mst_freemem := -1, mst_buffermem := -1, mst_cachemem := -1, mst_slabmem := 0,
     mst_slabreclaim := 0, mst_shmem := 0, mst_totswap := -1, mst_freeswap := -1, mst_committed := 0\<rparr>"

definition meminfo_store :: "u32 \<Rightarrow> string \<Rightarrow> count_t list \<Rightarrow> memstat \<Rightarrow> memstat" where
  "meminfo_store pagesize nam cnts m =
     (let bytes = (\<lambda>x. cdiv x (ucast pagesize)); p = pages pagesize (cnts ! 0) in
      if nam = ''Mem:'' then
        m\<lparr>mst_physmem := bytes (cnts ! 0), mst_freemem := bytes (cnts ! 2), mst_buffermem := bytes (cnts ! 4)\<rparr>
      else if nam = ''Swap:'' then m\<lparr>mst_totswap := bytes (cnts ! 0), mst_freeswap := bytes (cnts ! 2)\<rparr>
      else if nam = ''Cached:'' then (if mst_cachemem m = -1 then m\<lparr>mst_cachemem := p\<rparr> else m)
      else if nam = ''Dirty:'' then m\<lparr>mst_cachedrt := p\<rparr>
      else if nam = ''MemTotal:'' then (if mst_physmem m = -1 then m\<lparr>mst_physmem := p\<rparr> else m)
      else if nam = ''MemFree:'' then (if mst_freemem m = -1 then m\<lparr>mst_freemem := p\<rparr> else m)
      else if nam = ''Buffers:'' then (if mst_buffermem m = -1 then m\<lparr>mst_buffermem := p\<rparr> else m)
      else if nam = ''Shmem:'' then m\<lparr>mst_shmem := p\<rparr>
      else if nam = ''SwapTotal:'' then (if mst_totswap m = -1 then m\<lparr>mst_totswap := p\<rparr> else m)
      else if nam = ''SwapFree:'' then (if mst_freeswap m = -1 then m\<lparr>mst_freeswap := p\<rparr> else m)
      else if nam = ''Slab:'' then m\<lparr>mst_slabmem := p\<rparr>
      else if nam = ''SReclaimable:'' then m\<lparr>mst_slabreclaim := p\<rparr>
      else if nam = ''Committed_AS:'' then m\<lparr>mst_committed := p\<rparr>
      else if nam = ''CommitLimit:'' then m\<lparr>mst_commitlim := p\<rparr>
      else if nam = ''HugePages_Total:'' then m\<lparr>mst_tothugepage := cnts ! 0\<rparr>
      else if nam = ''HugePages_Free:'' then m\<lparr>mst_freehugepage := cnts ! 0\<rparr>
      else if nam = ''Hugepagesize:'' then m\<lparr>mst_hugepagesz := cnts ! 0 * 1024\<rparr>
      else m)"

definition meminfo_fmt :: string where
  "meminfo_fmt = ''%s '' @ concat (replicate 9 ''%lld '') @ ''%lld'' @ [CHR 0x0A]"

text \<open>The size of a page is not 0; with 0 the divisions would not be defined.\<close>

definition meminfo_line :: "u32 \<Rightarrow> string \<Rightarrow> scanbuf \<times> memstat \<Rightarrow> (scanbuf \<times> memstat) option" where
  "meminfo_line pagesize line = (\<lambda>(sb, m).
     do {
       (nr, sb) \<leftarrow> scan_line meminfo_fmt line sb;
       if nr < 2 then Some (sb, m)
       else if pagesize = 0 then None
       else Some (sb, meminfo_store pagesize (sb_nam sb) (sb_cnts sb) m)
     })"

definition meminfo :: "u32 \<Rightarrow> string option \<Rightarrow> scanbuf \<Rightarrow> memstat \<Rightarrow> (scanbuf \<times> memstat) option" where
  "meminfo pagesize contents sb m =
     (case contents of
        None \<Rightarrow> Some (sb, meminfo_init m)
      | Some txt \<Rightarrow> each_line (go_on (meminfo_line pagesize)) txt (sb, meminfo_init m))"

section \<open>The balloon driver and shared memory\<close>

text \<open>Whether the line was scanned is not tested.\<close>

definition vmmemctl_line :: "string \<Rightarrow> scanbuf \<times> memstat \<Rightarrow> (bool \<times> scanbuf \<times> memstat) option" where
  "vmmemctl_line line = (\<lambda>(sb, m).
     do {
       (nr, sb) \<leftarrow> scan_line ''%s %lld '' line sb;
       Some (if sb_nam sb = ''current:'' then (True, sb, m\<lparr>mst_vmwballoon := sb_cnts sb ! 0\<rparr>) else (False, sb, m))
     })"

definition vmmemctl :: "string option \<Rightarrow> scanbuf \<Rightarrow> memstat \<Rightarrow> (scanbuf \<times> memstat) option" where
  "vmmemctl contents sb m =
     (let m = m\<lparr>mst_vmwballoon := 0\<rparr> in
      case contents of None \<Rightarrow> Some (sb, m) | Some txt \<Rightarrow> each_line vmmemctl_line txt (sb, m))"

text \<open>What \<open>shmctl\<close> reports: resident and swapped pages.\<close>

definition shm_stat :: "(u64 \<times> u64) option \<Rightarrow> memstat \<Rightarrow> memstat" where
  "shm_stat shminfo m = (case shminfo of None \<Rightarrow> m | Some (rss, swp) \<Rightarrow> m\<lparr>mst_shmrss := rss, mst_shmswp := swp\<rparr>)"

section \<open>Files of labelled values\<close>

lemma directives_meminfo:
  "directives meminfo_fmt = Str 0 True # Blank # numbers (replicate 9 True) @ [Num True True, Blank]"
  by code_simp

lemma directives_pair_row: "no_blanks [Blank, Num True True] = replicate 1 (Num True True)" "set [Blank, Num True True] \<subseteq> {Blank, Num True True}"
  by (simp_all add: no_blanks_def)

lemma row_counts_Cons:
  assumes "krow_ok r" "0 < k"
  shows "\<exists>x xs. row_counts k r = x # xs"
  using assms by (cases r) (cases "fst (snd r)"; cases k; auto simp: krow_ok_def row_counts_def)

text \<open>The first counter of a line.\<close>

definition row_value :: "krow \<Rightarrow> count_t" where
  "row_value r = hd (row_counts 1 r)"

lemma row_value_scanned:
  assumes "krow_ok r" "0 < k"
  shows "sb_cnts (row_scanned k r sb) ! 0 = row_value r"
  using assms by (cases r) (cases "fst (snd r)"; cases k; auto simp: krow_ok_def row_counts_def row_scanned_def row_value_def)

lemma vmstat_rows:
  assumes "\<forall>r\<in>set rs. krow_ok r"
  shows "\<exists>sb'. vmstat (Some (kernel_rows rs)) sb m = Some (sb', fold (\<lambda>r. vmstat_store (fst r) (row_value r)) rs m)"
proof -
  have "\<exists>sb'. lines_loop (go_on vmstat_line) (map (\<lambda>r. row_text r @ [CHR 0x0A]) rs) (sb, m) =
      Some (sb', fold (\<lambda>r. vmstat_store (fst r) (row_value r)) rs m)"
    using assms
  proof (induction rs arbitrary: sb m)
    case (Cons r rs)
    have r: "krow_ok r" using Cons.prems by simp
    obtain x xs where "row_counts 1 r = x # xs" using row_counts_Cons [OF r, of 1] by auto
    then have "vmstat_line (row_text r @ [CHR 0x0A]) (sb, m) = Some (row_scanned 1 r sb, vmstat_store (fst r) (row_value r) m)"
      using scan_line_row [OF r directives_pair directives_pair_row, of sb] row_value_scanned [OF r, of 1 sb]
      by (simp add: vmstat_line_def) (simp add: row_scanned_def)
    with Cons show ?case by (simp add: lines_loop_go_on del: lines_loop.simps(2))
  qed simp
  then show ?thesis by (simp add: vmstat_def each_line_def linebufs_rows [OF assms])
qed

definition label_value :: "string \<Rightarrow> (count_t \<Rightarrow> count_t) \<Rightarrow> krow list \<Rightarrow> count_t \<Rightarrow> count_t" where
  "label_value lab f rs d = (case map_of rs lab of None \<Rightarrow> d | Some x \<Rightarrow> f (row_value (lab, x)))"

lemma fold_add:
  fixes get :: "'m \<Rightarrow> count_t"
  assumes "\<And>r m. r \<in> set rs \<Longrightarrow> get (g r m) = (if P (fst r) then get m + v r else get m)"
  shows "get (fold g rs m) = get m + sum_list (map v (filter (P \<circ> fst) rs))"
  using assms by (induction rs arbitrary: m) (auto simp: add.assoc)

lemma vmstat_fields:
  "mst_swins (vmstat_store nam x m) = (if nam = ''pswpin'' then x else mst_swins m)"
  "mst_swouts (vmstat_store nam x m) = (if nam = ''pswpout'' then x else mst_swouts m)"
  "mst_allocstall (vmstat_store nam x m) = (if nam = ''allocstall'' then x else mst_allocstall m)"
  "mst_pgscans (vmstat_store nam x m) = (if take 7 nam = ''pgscan_'' then mst_pgscans m + x else mst_pgscans m)"
  "mst_pgsteal (vmstat_store nam x m) = (if take 8 nam = ''pgsteal_'' then mst_pgsteal m + x else mst_pgsteal m)"
proof -
  have "take 8 nam = ''pgsteal_'' \<Longrightarrow> take 7 nam \<noteq> ''pgscan_''" using take_take [of 7 8 nam] by auto
  then show "mst_pgsteal (vmstat_store nam x m) = (if take 8 nam = ''pgsteal_'' then mst_pgsteal m + x else mst_pgsteal m)"
    by (auto simp: vmstat_store_def)
qed (auto simp: vmstat_store_def)

text \<open>
  Paging activity from \<^verbatim>\<open>/proc/vmstat\<close>.  Whatever lines the kernel writes (each label once, in any order), the pages swapped in and
  out are those of their lines, and scans and steals are the sums over all lines whose label begins with \<open>pgscan_\<close> or \<open>pgsteal_\<close>.
\<close>

theorem vmstat_sums:
  assumes "\<forall>r\<in>set rs. krow_ok r" "distinct (map fst rs)"
  shows "\<exists>sb' m'. vmstat (Some (kernel_rows rs)) sb m = Some (sb', m') \<and>
    mst_swins m' = label_value ''pswpin'' id rs (mst_swins m) \<and> mst_swouts m' = label_value ''pswpout'' id rs (mst_swouts m) \<and>
    mst_allocstall m' = label_value ''allocstall'' id rs (mst_allocstall m) \<and>
    mst_pgscans m' = mst_pgscans m + sum_list (map row_value (filter ((\<lambda>w. take 7 w = ''pgscan_'') \<circ> fst) rs)) \<and>
    mst_pgsteal m' = mst_pgsteal m + sum_list (map row_value (filter ((\<lambda>w. take 8 w = ''pgsteal_'') \<circ> fst) rs))"
proof -
  let ?g = "\<lambda>r. vmstat_store (fst r) (row_value r)"
  obtain sb' where "vmstat (Some (kernel_rows rs)) sb m = Some (sb', fold ?g rs m)" using vmstat_rows [OF assms(1)] by blast
  moreover have "mst_swins (fold ?g rs m) = label_value ''pswpin'' id rs (mst_swins m)"
    "mst_swouts (fold ?g rs m) = label_value ''pswpout'' id rs (mst_swouts m)"
    "mst_allocstall (fold ?g rs m) = label_value ''allocstall'' id rs (mst_allocstall m)"
    unfolding label_value_def by (rule fold_label [OF _ assms(2)]; simp add: vmstat_fields)+
  moreover have "mst_pgscans (fold ?g rs m) = mst_pgscans m + sum_list (map row_value (filter ((\<lambda>w. take 7 w = ''pgscan_'') \<circ> fst) rs))"
    "mst_pgsteal (fold ?g rs m) = mst_pgsteal m + sum_list (map row_value (filter ((\<lambda>w. take 8 w = ''pgsteal_'') \<circ> fst) rs))"
    by (rule fold_add; simp add: vmstat_fields)+
  ultimately show ?thesis by blast
qed

section \<open>The memory file\<close>

definition mem_row_ok :: "krow \<Rightarrow> bool" where
  "mem_row_ok r \<longleftrightarrow> krow_ok r \<and> fst r \<notin> {''Mem:'', ''Swap:''}"

lemma meminfo_store_first:
  "nam \<notin> {''Mem:'', ''Swap:''} \<Longrightarrow> meminfo_store pagesize nam cnts m = meminfo_store pagesize nam [cnts ! 0] m"
  by (simp add: meminfo_store_def)

lemma meminfo_rows:
  assumes "\<forall>r\<in>set rs. mem_row_ok r" "pagesize \<noteq> 0"
  shows "\<exists>sb'. meminfo pagesize (Some (kernel_rows rs)) sb m =
    Some (sb', fold (\<lambda>r. meminfo_store pagesize (fst r) [row_value r]) rs (meminfo_init m))"
proof -
  have fmt: "no_blanks (Blank # numbers (replicate 9 True) @ [Num True True, Blank]) = replicate 10 (Num True True)"
    "set (Blank # numbers (replicate 9 True) @ [Num True True, Blank]) \<subseteq> {Blank, Num True True}"
    using set_numbers [of 9] by (simp_all add: numeral_eq_Suc)
  have "\<exists>sb'. lines_loop (go_on (meminfo_line pagesize)) (map (\<lambda>r. row_text r @ [CHR 0x0A]) rs) (sb, m) =
      Some (sb', fold (\<lambda>r. meminfo_store pagesize (fst r) [row_value r]) rs m)" for m
    using assms(1)
  proof (induction rs arbitrary: sb m)
    case (Cons r rs)
    have r: "krow_ok r" "fst r \<notin> {''Mem:'', ''Swap:''}" using Cons.prems by (simp_all add: mem_row_ok_def)
    obtain x xs where "row_counts 10 r = x # xs" using row_counts_Cons [OF r(1), of 10] by auto
    then have "meminfo_line pagesize (row_text r @ [CHR 0x0A]) (sb, m) =
        Some (row_scanned 10 r sb, meminfo_store pagesize (fst r) (sb_cnts (row_scanned 10 r sb)) m)"
      using scan_line_row [OF r(1) directives_meminfo fmt, of sb] assms(2)
      by (simp add: meminfo_line_def) (simp add: row_scanned_def)
    then have "meminfo_line pagesize (row_text r @ [CHR 0x0A]) (sb, m) = Some (row_scanned 10 r sb, meminfo_store pagesize (fst r) [row_value r] m)"
      using meminfo_store_first [OF r(2), of pagesize "sb_cnts (row_scanned 10 r sb)" m] row_value_scanned [OF r(1), of 10 sb] by simp
    with Cons show ?case by (simp add: lines_loop_go_on del: lines_loop.simps(2))
  qed simp
  moreover have "\<forall>r\<in>set rs. krow_ok r" using assms(1) by (simp add: mem_row_ok_def)
  ultimately show ?thesis by (simp add: meminfo_def each_line_def linebufs_rows)
qed

lemma meminfo_guarded:
  "nam \<notin> {''Mem:'', ''Swap:''} \<Longrightarrow> mst_physmem (meminfo_store pagesize nam [x] m) =
     (if nam = ''MemTotal:'' then if mst_physmem m = -1 then pages pagesize x else mst_physmem m else mst_physmem m)"
  "nam \<notin> {''Mem:'', ''Swap:''} \<Longrightarrow> mst_freemem (meminfo_store pagesize nam [x] m) =
     (if nam = ''MemFree:'' then if mst_freemem m = -1 then pages pagesize x else mst_freemem m else mst_freemem m)"
  "nam \<notin> {''Mem:'', ''Swap:''} \<Longrightarrow> mst_buffermem (meminfo_store pagesize nam [x] m) =
     (if nam = ''Buffers:'' then if mst_buffermem m = -1 then pages pagesize x else mst_buffermem m else mst_buffermem m)"
  "nam \<notin> {''Mem:'', ''Swap:''} \<Longrightarrow> mst_cachemem (meminfo_store pagesize nam [x] m) =
     (if nam = ''Cached:'' then if mst_cachemem m = -1 then pages pagesize x else mst_cachemem m else mst_cachemem m)"
  "nam \<notin> {''Mem:'', ''Swap:''} \<Longrightarrow> mst_totswap (meminfo_store pagesize nam [x] m) =
     (if nam = ''SwapTotal:'' then if mst_totswap m = -1 then pages pagesize x else mst_totswap m else mst_totswap m)"
  "nam \<notin> {''Mem:'', ''Swap:''} \<Longrightarrow> mst_freeswap (meminfo_store pagesize nam [x] m) =
     (if nam = ''SwapFree:'' then if mst_freeswap m = -1 then pages pagesize x else mst_freeswap m else mst_freeswap m)"
  by (auto simp: meminfo_store_def Let_def)

lemma meminfo_direct:
  "nam \<notin> {''Mem:'', ''Swap:''} \<Longrightarrow> mst_slabmem (meminfo_store pagesize nam [x] m) =
     (if nam = ''Slab:'' then pages pagesize x else mst_slabmem m)"
  "nam \<notin> {''Mem:'', ''Swap:''} \<Longrightarrow> mst_slabreclaim (meminfo_store pagesize nam [x] m) =
     (if nam = ''SReclaimable:'' then pages pagesize x else mst_slabreclaim m)"
  "nam \<notin> {''Mem:'', ''Swap:''} \<Longrightarrow> mst_shmem (meminfo_store pagesize nam [x] m) =
     (if nam = ''Shmem:'' then pages pagesize x else mst_shmem m)"
  "nam \<notin> {''Mem:'', ''Swap:''} \<Longrightarrow> mst_committed (meminfo_store pagesize nam [x] m) =
     (if nam = ''Committed_AS:'' then pages pagesize x else mst_committed m)"
  "nam \<notin> {''Mem:'', ''Swap:''} \<Longrightarrow> mst_commitlim (meminfo_store pagesize nam [x] m) =
     (if nam = ''CommitLimit:'' then pages pagesize x else mst_commitlim m)"
  "nam \<notin> {''Mem:'', ''Swap:''} \<Longrightarrow> mst_cachedrt (meminfo_store pagesize nam [x] m) =
     (if nam = ''Dirty:'' then pages pagesize x else mst_cachedrt m)"
  "nam \<notin> {''Mem:'', ''Swap:''} \<Longrightarrow> mst_tothugepage (meminfo_store pagesize nam [x] m) =
     (if nam = ''HugePages_Total:'' then id x else mst_tothugepage m)"
  "nam \<notin> {''Mem:'', ''Swap:''} \<Longrightarrow> mst_freehugepage (meminfo_store pagesize nam [x] m) =
     (if nam = ''HugePages_Free:'' then id x else mst_freehugepage m)"
  "nam \<notin> {''Mem:'', ''Swap:''} \<Longrightarrow> mst_hugepagesz (meminfo_store pagesize nam [x] m) =
     (if nam = ''Hugepagesize:'' then (\<lambda>x. x * 1024) x else mst_hugepagesz m)"
  by (auto simp: meminfo_store_def Let_def)

text \<open>
  C17: Memory from \<^verbatim>\<open>/proc/meminfo\<close>.  With each label once and in any order, every member has the value of its line, kilobytes turned
  into pages; a size of memory or swap whose line is missing stays \<open>-1\<close>, other members stay as they were set before.
\<close>

theorem meminfo_values:
  assumes "\<forall>r\<in>set rs. mem_row_ok r" "distinct (map fst rs)" "pagesize \<noteq> 0"
  shows "\<exists>sb' m'. meminfo pagesize (Some (kernel_rows rs)) sb m = Some (sb', m') \<and>
    mst_physmem m' = label_value ''MemTotal:'' (pages pagesize) rs (-1) \<and>
    mst_freemem m' = label_value ''MemFree:'' (pages pagesize) rs (-1) \<and>
    mst_buffermem m' = label_value ''Buffers:'' (pages pagesize) rs (-1) \<and>
    mst_cachemem m' = label_value ''Cached:'' (pages pagesize) rs (-1) \<and>
    mst_totswap m' = label_value ''SwapTotal:'' (pages pagesize) rs (-1) \<and>
    mst_freeswap m' = label_value ''SwapFree:'' (pages pagesize) rs (-1) \<and>
    mst_slabmem m' = label_value ''Slab:'' (pages pagesize) rs 0 \<and>
    mst_slabreclaim m' = label_value ''SReclaimable:'' (pages pagesize) rs 0 \<and>
    mst_shmem m' = label_value ''Shmem:'' (pages pagesize) rs 0 \<and>
    mst_committed m' = label_value ''Committed_AS:'' (pages pagesize) rs 0 \<and>
    mst_commitlim m' = label_value ''CommitLimit:'' (pages pagesize) rs (mst_commitlim m) \<and>
    mst_cachedrt m' = label_value ''Dirty:'' (pages pagesize) rs (mst_cachedrt m) \<and>
    mst_tothugepage m' = label_value ''HugePages_Total:'' id rs (mst_tothugepage m) \<and>
    mst_freehugepage m' = label_value ''HugePages_Free:'' id rs (mst_freehugepage m) \<and>
    mst_hugepagesz m' = label_value ''Hugepagesize:'' (\<lambda>x. x * 1024) rs (mst_hugepagesz m)"
proof -
  let ?g = "\<lambda>r. meminfo_store pagesize (fst r) [row_value r]" and ?m = "meminfo_init m"
  have lab: "fst r \<notin> {''Mem:'', ''Swap:''}" if "r \<in> set rs" for r using assms(1) that by (auto simp: mem_row_ok_def)
  have guard: "get (fold ?g rs ?m) = label_value lab (pages pagesize) rs (-1)"
    if "\<And>r m. r \<in> set rs \<Longrightarrow> get (?g r m) =
      (if fst r = lab then if get m = -1 then pages pagesize (row_value r) else get m else get m)" "get ?m = -1" for get lab
    using fold_label [of rs get ?g lab "\<lambda>r old. if old = -1 then pages pagesize (row_value r) else old" ?m, OF that(1) assms(2)] that(2)
    by (cases "map_of rs lab") (simp_all add: label_value_def)
  have g: "mst_physmem (fold ?g rs ?m) = label_value ''MemTotal:'' (pages pagesize) rs (-1)"
    "mst_freemem (fold ?g rs ?m) = label_value ''MemFree:'' (pages pagesize) rs (-1)"
    "mst_buffermem (fold ?g rs ?m) = label_value ''Buffers:'' (pages pagesize) rs (-1)"
    "mst_cachemem (fold ?g rs ?m) = label_value ''Cached:'' (pages pagesize) rs (-1)"
    "mst_totswap (fold ?g rs ?m) = label_value ''SwapTotal:'' (pages pagesize) rs (-1)"
    "mst_freeswap (fold ?g rs ?m) = label_value ''SwapFree:'' (pages pagesize) rs (-1)"
    by (rule guard; use lab in \<open>simp add: meminfo_guarded meminfo_init_def\<close>)+
  have d: "mst_slabmem (fold ?g rs ?m) = label_value ''Slab:'' (pages pagesize) rs (mst_slabmem ?m)"
    "mst_slabreclaim (fold ?g rs ?m) = label_value ''SReclaimable:'' (pages pagesize) rs (mst_slabreclaim ?m)"
    "mst_shmem (fold ?g rs ?m) = label_value ''Shmem:'' (pages pagesize) rs (mst_shmem ?m)"
    "mst_committed (fold ?g rs ?m) = label_value ''Committed_AS:'' (pages pagesize) rs (mst_committed ?m)"
    "mst_commitlim (fold ?g rs ?m) = label_value ''CommitLimit:'' (pages pagesize) rs (mst_commitlim ?m)"
    "mst_cachedrt (fold ?g rs ?m) = label_value ''Dirty:'' (pages pagesize) rs (mst_cachedrt ?m)"
    "mst_tothugepage (fold ?g rs ?m) = label_value ''HugePages_Total:'' id rs (mst_tothugepage ?m)"
    "mst_freehugepage (fold ?g rs ?m) = label_value ''HugePages_Free:'' id rs (mst_freehugepage ?m)"
    "mst_hugepagesz (fold ?g rs ?m) = label_value ''Hugepagesize:'' (\<lambda>x. x * 1024) rs (mst_hugepagesz ?m)"
    unfolding label_value_def
    by (rule fold_label [OF _ assms(2)]; use lab in \<open>simp add: meminfo_direct\<close>)+
  obtain sb' where "meminfo pagesize (Some (kernel_rows rs)) sb m = Some (sb', fold ?g rs ?m)"
    using meminfo_rows [OF assms(1,3)] by blast
  then show ?thesis using g d by (intro exI [of _ sb'] exI [of _ "fold ?g rs ?m"] conjI) (simp_all add: meminfo_init_def)
qed

definition vmstat_ex :: "krow list" where
  "vmstat_ex = [(''nr_free_pages'', [(0, 9)], []), (''pswpin'', [(0, 3)], []), (''pgscan_kswapd'', [(0, 5)], []), (''pgscan_direct'', [(0, 4)], [])]"

lemma vmstat_ex_ok: "\<forall>r\<in>set vmstat_ex. krow_ok r"
proof -
  have "list_all (\<lambda>r. length (row_text r) < 100) vmstat_ex" by code_simp
  then show ?thesis by (simp add: vmstat_ex_def krow_ok_def word_ok_def isspace_def i64_range_def)
qed

theorem vmstat_sums_witness:
  "\<exists>sb' m'. vmstat (Some (kernel_rows vmstat_ex)) \<lparr>sb_nam = [], sb_cnts = replicate 64 0\<rparr> memstat0 = Some (sb', m') \<and>
     mst_swins m' = 3 \<and> mst_swouts m' = 0 \<and> mst_pgscans m' = 9"
proof -
  have "distinct (map fst vmstat_ex)" by (simp add: vmstat_ex_def)
  note vmstat_sums [OF vmstat_ex_ok this, of "\<lparr>sb_nam = [], sb_cnts = replicate 64 0\<rparr>" memstat0]
  moreover have "label_value ''pswpin'' id vmstat_ex (mst_swins memstat0) = 3" "label_value ''pswpout'' id vmstat_ex (mst_swouts memstat0) = 0"
    "mst_pgscans memstat0 + sum_list (map row_value (filter ((\<lambda>w. take 7 w = ''pgscan_'') \<circ> fst) vmstat_ex)) = 9"
    by (simp_all add: vmstat_ex_def label_value_def row_value_def row_counts_def memstat0_def)
  ultimately show ?thesis by (elim exE conjE) (intro exI conjI, assumption, simp_all)
qed

definition meminfo_ex :: "krow list" where
  "meminfo_ex = [(''MemTotal:'', [(9, 96)], '' kB''), (''MemFree:'', [(9, 40)], '' kB''), (''Slab:'', [(9, 8)], '' kB''), (''HugePages_Total:'', [(5, 2)], [])]"

lemma row_end_kB: "row_end ('' kB'' @ [CHR 0x0A])"
  by (simp add: row_end_def read_number_def isspace_def isdigit_def)

lemma meminfo_ex_ok: "\<forall>r\<in>set meminfo_ex. mem_row_ok r"
proof -
  have "list_all (\<lambda>r. length (row_text r) < 100) meminfo_ex" by code_simp
  then show ?thesis using row_end_kB by (simp add: meminfo_ex_def mem_row_ok_def krow_ok_def word_ok_def isspace_def i64_range_def)
qed

theorem meminfo_values_witness:
  "\<exists>sb' m'. meminfo 4096 (Some (kernel_rows meminfo_ex)) \<lparr>sb_nam = [], sb_cnts = replicate 64 0\<rparr> memstat0 = Some (sb', m') \<and>
     mst_physmem m' = 24 \<and> mst_freemem m' = 10 \<and> mst_totswap m' = -1 \<and> mst_slabmem m' = 2 \<and> mst_tothugepage m' = 2"
proof -
  have "distinct (map fst meminfo_ex)" "(4096 :: u32) \<noteq> 0" by (simp_all add: meminfo_ex_def)
  note meminfo_values [OF meminfo_ex_ok this, of "\<lparr>sb_nam = [], sb_cnts = replicate 64 0\<rparr>" memstat0]
  moreover have "label_value ''MemTotal:'' (pages 4096) meminfo_ex (-1) = 24" "label_value ''MemFree:'' (pages 4096) meminfo_ex (-1) = 10"
    "label_value ''SwapTotal:'' (pages 4096) meminfo_ex (-1) = -1" "label_value ''Slab:'' (pages 4096) meminfo_ex 0 = 2"
    "label_value ''HugePages_Total:'' id meminfo_ex (mst_tothugepage memstat0) = 2"
    by (simp_all add: meminfo_ex_def label_value_def row_value_def row_counts_def pages_def cdiv_def)
  ultimately show ?thesis by (elim exE conjE) (intro exI conjI, assumption, simp_all)
qed

end
