(* ===== verification/Sys_Net.thy ===== *)
theory Sys_Net
  imports Sys_Lines Ifprop
begin

text \<open>
  The network statistics of \<open>photosyst\<close> (\<^verbatim>\<open>src/Qt/FakeAtop/photosyst.c\<close>): the interfaces from \<^verbatim>\<open>/proc/net/dev\<close>, the counters of
  IP version 4 from \<^verbatim>\<open>/proc/net/snmp\<close> and those of version 6 from \<^verbatim>\<open>/proc/net/snmp6\<close>.
\<close>

section \<open>Interfaces\<close>

definition intf_vars :: "(scanval \<Rightarrow> perintf \<Rightarrow> perintf) list" where
  "intf_vars =
     [\<lambda>v x. x\<lparr>pif_name := strcpy (pif_name x) (vstr v)\<rparr>,
      \<lambda>v x. x\<lparr>pif_rbyte := vnum v\<rparr>, \<lambda>v x. x\<lparr>pif_rpack := vnum v\<rparr>, \<lambda>v x. x\<lparr>pif_rerrs := vnum v\<rparr>, \<lambda>v x. x\<lparr>pif_rdrop := vnum v\<rparr>,
      \<lambda>v x. x\<lparr>pif_rfifo := vnum v\<rparr>, \<lambda>v x. x\<lparr>pif_rframe := vnum v\<rparr>, \<lambda>v x. x\<lparr>pif_rcompr := vnum v\<rparr>, \<lambda>v x. x\<lparr>pif_rmultic := vnum v\<rparr>,
      \<lambda>v x. x\<lparr>pif_sbyte := vnum v\<rparr>, \<lambda>v x. x\<lparr>pif_spack := vnum v\<rparr>, \<lambda>v x. x\<lparr>pif_serrs := vnum v\<rparr>, \<lambda>v x. x\<lparr>pif_sdrop := vnum v\<rparr>,
      \<lambda>v x. x\<lparr>pif_sfifo := vnum v\<rparr>, \<lambda>v x. x\<lparr>pif_scollis := vnum v\<rparr>, \<lambda>v x. x\<lparr>pif_scarrier := vnum v\<rparr>, \<lambda>v x. x\<lparr>pif_scompr := vnum v\<rparr>]"

text \<open>The first colon becomes a blank.\<close>

definition no_colon :: "string \<Rightarrow> string" where
  "no_colon line = takeWhile (\<lambda>c. c \<noteq> CHR '':'') line @
     (case dropWhile (\<lambda>c. c \<noteq> CHR '':'') line of [] \<Rightarrow> [] | _ # cs \<Rightarrow> CHR '' '' # cs)"

definition netdev_fmt :: string where
  "netdev_fmt = ''%15s %lld %lld %lld %lld %lld %lld %lld %lld %lld %lld %lld %lld %lld %lld %lld %lld'' @ [CHR 0x0A]"

text \<open>A line is scanned into the next entry of the table itself.\<close>

definition netdev_line :: "string \<Rightarrow> nat \<times> perintf list \<Rightarrow> (bool \<times> nat \<times> perintf list) option" where
  "netdev_line line = (\<lambda>(i, intf).
     if length intf \<le> i then None
     else
       let vals = sscanf (no_colon line) netdev_fmt; intf = intf[i := assign intf_vars vals (intf ! i)] in
       if length vals = 17 then Some (MAXINTF - 1 \<le> i + 1, i + 1, intf) else Some (False, i, intf))"

definition netdev :: "string option \<Rightarrow> intfstat \<Rightarrow> intfstat option" where
  "netdev contents s =
     (case contents of
        None \<Rightarrow> Some s
      | Some txt \<Rightarrow>
          do {
            (i, intf) \<leftarrow> each_line netdev_line txt (0, ifs_intf s);
            if i < length intf
            then Some (s\<lparr>ifs_intf := intf[i := (intf ! i)\<lparr>pif_name := cclear (pif_name (intf ! i))\<rparr>], ifs_nrintf := of_nat i\<rparr>)
            else None
          })"

section \<open>IP version 4\<close>

text \<open>The copies of \<open>cnts\<close> over a struct of counters.\<close>

definition ipv4_of :: "count_t list \<Rightarrow> ipv4_stats" where
  "ipv4_of cnts = \<lparr>ip4_Forwarding = cnts ! 0, ip4_DefaultTTL = cnts ! 1, ip4_InReceives = cnts ! 2, ip4_InHdrErrors = cnts ! 3,
     ip4_InAddrErrors = cnts ! 4, ip4_ForwDatagrams = cnts ! 5, ip4_InUnknownProtos = cnts ! 6, ip4_InDiscards = cnts ! 7,
     ip4_InDelivers = cnts ! 8, ip4_OutRequests = cnts ! 9, ip4_OutDiscards = cnts ! 10, ip4_OutNoRoutes = cnts ! 11,
     ip4_ReasmTimeout = cnts ! 12, ip4_ReasmReqds = cnts ! 13, ip4_ReasmOKs = cnts ! 14, ip4_ReasmFails = cnts ! 15,
     ip4_FragOKs = cnts ! 16, ip4_FragFails = cnts ! 17, ip4_FragCreates = cnts ! 18\<rparr>"

definition icmpv4_of :: "count_t list \<Rightarrow> icmpv4_stats" where
  "icmpv4_of cnts = \<lparr>ic4_InMsgs = cnts ! 0, ic4_InErrors = cnts ! 1, ic4_InDestUnreachs = cnts ! 2, ic4_InTimeExcds = cnts ! 3,
     ic4_InParmProbs = cnts ! 4, ic4_InSrcQuenchs = cnts ! 5, ic4_InRedirects = cnts ! 6, ic4_InEchos = cnts ! 7,
     ic4_InEchoReps = cnts ! 8, ic4_InTimestamps = cnts ! 9, ic4_InTimestampReps = cnts ! 10, ic4_InAddrMasks = cnts ! 11,
     ic4_InAddrMaskReps = cnts ! 12, ic4_OutMsgs = cnts ! 13, ic4_OutErrors = cnts ! 14, ic4_OutDestUnreachs = cnts ! 15,
     ic4_OutTimeExcds = cnts ! 16, ic4_OutParmProbs = cnts ! 17, ic4_OutSrcQuenchs = cnts ! 18, ic4_OutRedirects = cnts ! 19,
     ic4_OutEchos = cnts ! 20, ic4_OutEchoReps = cnts ! 21, ic4_OutTimestamps = cnts ! 22, ic4_OutTimestampReps = cnts ! 23,
     ic4_OutAddrMasks = cnts ! 24, ic4_OutAddrMaskReps = cnts ! 25\<rparr>"

definition tcp_of :: "count_t list \<Rightarrow> tcp_stats" where
  "tcp_of cnts = \<lparr>tcp_RtoAlgorithm = cnts ! 0, tcp_RtoMin = cnts ! 1, tcp_RtoMax = cnts ! 2, tcp_MaxConn = cnts ! 3,
     tcp_ActiveOpens = cnts ! 4, tcp_PassiveOpens = cnts ! 5, tcp_AttemptFails = cnts ! 6, tcp_EstabResets = cnts ! 7,
     tcp_CurrEstab = cnts ! 8, tcp_InSegs = cnts ! 9, tcp_OutSegs = cnts ! 10, tcp_RetransSegs = cnts ! 11,
     tcp_InErrs = cnts ! 12, tcp_OutRsts = cnts ! 13\<rparr>"

definition udpv4_of :: "count_t list \<Rightarrow> udpv4_stats" where
  "udpv4_of cnts = \<lparr>ud4_InDatagrams = cnts ! 0, ud4_NoPorts = cnts ! 1, ud4_InErrors = cnts ! 2, ud4_OutDatagrams = cnts ! 3\<rparr>"

definition snmp_fmt :: string where
  "snmp_fmt = ''%s   '' @ concat (replicate 39 ''%lld '') @ ''%lld'' @ [CHR 0x0A]"

definition snmp_store :: "string \<Rightarrow> count_t list \<Rightarrow> netstat \<Rightarrow> netstat" where
  "snmp_store nam cnts n =
     (if nam = ''Ip:'' then n\<lparr>nst_ipv4 := ipv4_of cnts\<rparr>
      else if nam = ''Icmp:'' then n\<lparr>nst_icmpv4 := icmpv4_of cnts\<rparr>
      else if nam = ''Tcp:'' then n\<lparr>nst_tcp := tcp_of cnts\<rparr>
      else if nam = ''Udp:'' then n\<lparr>nst_udpv4 := udpv4_of cnts\<rparr>
      else n)"

definition snmp_line :: "string \<Rightarrow> scanbuf \<times> netstat \<Rightarrow> (scanbuf \<times> netstat) option" where
  "snmp_line line = (\<lambda>(sb, n).
     do {
       (nr, sb) \<leftarrow> scan_line snmp_fmt line sb;
       Some (sb, if nr < 2 then n else snmp_store (sb_nam sb) (sb_cnts sb) n)
     })"

definition snmp :: "string option \<Rightarrow> scanbuf \<Rightarrow> netstat \<Rightarrow> (scanbuf \<times> netstat) option" where
  "snmp contents sb n = (case contents of None \<Rightarrow> Some (sb, n) | Some txt \<Rightarrow> each_line (go_on snmp_line) txt (sb, n))"

section \<open>IP version 6\<close>

text \<open>The static structs, and the table of names and members.\<close>

record v6tmp =
  tmp_ipv6 :: ipv6_stats
  tmp_icmpv6 :: icmpv6_stats
  tmp_udpv6 :: udpv6_stats

definition v6tab :: "(string \<times> (count_t \<Rightarrow> v6tmp \<Rightarrow> v6tmp)) list" where
  "v6tab =
     [(''Ip6InReceives'', \<lambda>v t. t\<lparr>tmp_ipv6 := (tmp_ipv6 t)\<lparr>ip6_Ip6InReceives := v\<rparr>\<rparr>),
      (''Ip6InHdrErrors'', \<lambda>v t. t\<lparr>tmp_ipv6 := (tmp_ipv6 t)\<lparr>ip6_Ip6InHdrErrors := v\<rparr>\<rparr>),
      (''Ip6InTooBigErrors'', \<lambda>v t. t\<lparr>tmp_ipv6 := (tmp_ipv6 t)\<lparr>ip6_Ip6InTooBigErrors := v\<rparr>\<rparr>),
      (''Ip6InNoRoutes'', \<lambda>v t. t\<lparr>tmp_ipv6 := (tmp_ipv6 t)\<lparr>ip6_Ip6InNoRoutes := v\<rparr>\<rparr>),
      (''Ip6InAddrErrors'', \<lambda>v t. t\<lparr>tmp_ipv6 := (tmp_ipv6 t)\<lparr>ip6_Ip6InAddrErrors := v\<rparr>\<rparr>),
      (''Ip6InUnknownProtos'', \<lambda>v t. t\<lparr>tmp_ipv6 := (tmp_ipv6 t)\<lparr>ip6_Ip6InUnknownProtos := v\<rparr>\<rparr>),
      (''Ip6InTruncatedPkts'', \<lambda>v t. t\<lparr>tmp_ipv6 := (tmp_ipv6 t)\<lparr>ip6_Ip6InTruncatedPkts := v\<rparr>\<rparr>),
      (''Ip6InDiscards'', \<lambda>v t. t\<lparr>tmp_ipv6 := (tmp_ipv6 t)\<lparr>ip6_Ip6InDiscards := v\<rparr>\<rparr>),
      (''Ip6InDelivers'', \<lambda>v t. t\<lparr>tmp_ipv6 := (tmp_ipv6 t)\<lparr>ip6_Ip6InDelivers := v\<rparr>\<rparr>),
      (''Ip6OutForwDatagrams'', \<lambda>v t. t\<lparr>tmp_ipv6 := (tmp_ipv6 t)\<lparr>ip6_Ip6OutForwDatagrams := v\<rparr>\<rparr>),
      (''Ip6OutRequests'', \<lambda>v t. t\<lparr>tmp_ipv6 := (tmp_ipv6 t)\<lparr>ip6_Ip6OutRequests := v\<rparr>\<rparr>),
      (''Ip6OutDiscards'', \<lambda>v t. t\<lparr>tmp_ipv6 := (tmp_ipv6 t)\<lparr>ip6_Ip6OutDiscards := v\<rparr>\<rparr>),
      (''Ip6OutNoRoutes'', \<lambda>v t. t\<lparr>tmp_ipv6 := (tmp_ipv6 t)\<lparr>ip6_Ip6OutNoRoutes := v\<rparr>\<rparr>),
      (''Ip6ReasmTimeout'', \<lambda>v t. t\<lparr>tmp_ipv6 := (tmp_ipv6 t)\<lparr>ip6_Ip6ReasmTimeout := v\<rparr>\<rparr>),
      (''Ip6ReasmReqds'', \<lambda>v t. t\<lparr>tmp_ipv6 := (tmp_ipv6 t)\<lparr>ip6_Ip6ReasmReqds := v\<rparr>\<rparr>),
      (''Ip6ReasmOKs'', \<lambda>v t. t\<lparr>tmp_ipv6 := (tmp_ipv6 t)\<lparr>ip6_Ip6ReasmOKs := v\<rparr>\<rparr>),
      (''Ip6ReasmFails'', \<lambda>v t. t\<lparr>tmp_ipv6 := (tmp_ipv6 t)\<lparr>ip6_Ip6ReasmFails := v\<rparr>\<rparr>),
      (''Ip6FragOKs'', \<lambda>v t. t\<lparr>tmp_ipv6 := (tmp_ipv6 t)\<lparr>ip6_Ip6FragOKs := v\<rparr>\<rparr>),
      (''Ip6FragFails'', \<lambda>v t. t\<lparr>tmp_ipv6 := (tmp_ipv6 t)\<lparr>ip6_Ip6FragFails := v\<rparr>\<rparr>),
      (''Ip6FragCreates'', \<lambda>v t. t\<lparr>tmp_ipv6 := (tmp_ipv6 t)\<lparr>ip6_Ip6FragCreates := v\<rparr>\<rparr>),
      (''Ip6InMcastPkts'', \<lambda>v t. t\<lparr>tmp_ipv6 := (tmp_ipv6 t)\<lparr>ip6_Ip6InMcastPkts := v\<rparr>\<rparr>),
      (''Ip6OutMcastPkts'', \<lambda>v t. t\<lparr>tmp_ipv6 := (tmp_ipv6 t)\<lparr>ip6_Ip6OutMcastPkts := v\<rparr>\<rparr>),
      (''Icmp6InMsgs'', \<lambda>v t. t\<lparr>tmp_icmpv6 := (tmp_icmpv6 t)\<lparr>ic6_Icmp6InMsgs := v\<rparr>\<rparr>),
      (''Icmp6InErrors'', \<lambda>v t. t\<lparr>tmp_icmpv6 := (tmp_icmpv6 t)\<lparr>ic6_Icmp6InErrors := v\<rparr>\<rparr>),
      (''Icmp6InDestUnreachs'', \<lambda>v t. t\<lparr>tmp_icmpv6 := (tmp_icmpv6 t)\<lparr>ic6_Icmp6InDestUnreachs := v\<rparr>\<rparr>),
      (''Icmp6InPktTooBigs'', \<lambda>v t. t\<lparr>tmp_icmpv6 := (tmp_icmpv6 t)\<lparr>ic6_Icmp6InPktTooBigs := v\<rparr>\<rparr>),
      (''Icmp6InTimeExcds'', \<lambda>v t. t\<lparr>tmp_icmpv6 := (tmp_icmpv6 t)\<lparr>ic6_Icmp6InTimeExcds := v\<rparr>\<rparr>),
      (''Icmp6InParmProblems'', \<lambda>v t. t\<lparr>tmp_icmpv6 := (tmp_icmpv6 t)\<lparr>ic6_Icmp6InParmProblems := v\<rparr>\<rparr>),
      (''Icmp6InEchos'', \<lambda>v t. t\<lparr>tmp_icmpv6 := (tmp_icmpv6 t)\<lparr>ic6_Icmp6InEchos := v\<rparr>\<rparr>),
      (''Icmp6InEchoReplies'', \<lambda>v t. t\<lparr>tmp_icmpv6 := (tmp_icmpv6 t)\<lparr>ic6_Icmp6InEchoReplies := v\<rparr>\<rparr>),
      (''Icmp6InGroupMembQueries'', \<lambda>v t. t\<lparr>tmp_icmpv6 := (tmp_icmpv6 t)\<lparr>ic6_Icmp6InGroupMembQueries := v\<rparr>\<rparr>),
      (''Icmp6InGroupMembResponses'', \<lambda>v t. t\<lparr>tmp_icmpv6 := (tmp_icmpv6 t)\<lparr>ic6_Icmp6InGroupMembResponses := v\<rparr>\<rparr>),
      (''Icmp6InGroupMembReductions'', \<lambda>v t. t\<lparr>tmp_icmpv6 := (tmp_icmpv6 t)\<lparr>ic6_Icmp6InGroupMembReductions := v\<rparr>\<rparr>),
      (''Icmp6InRouterSolicits'', \<lambda>v t. t\<lparr>tmp_icmpv6 := (tmp_icmpv6 t)\<lparr>ic6_Icmp6InRouterSolicits := v\<rparr>\<rparr>),
      (''Icmp6InRouterAdvertisements'', \<lambda>v t. t\<lparr>tmp_icmpv6 := (tmp_icmpv6 t)\<lparr>ic6_Icmp6InRouterAdvertisements := v\<rparr>\<rparr>),
      (''Icmp6InNeighborSolicits'', \<lambda>v t. t\<lparr>tmp_icmpv6 := (tmp_icmpv6 t)\<lparr>ic6_Icmp6InNeighborSolicits := v\<rparr>\<rparr>),
      (''Icmp6InNeighborAdvertisements'', \<lambda>v t. t\<lparr>tmp_icmpv6 := (tmp_icmpv6 t)\<lparr>ic6_Icmp6InNeighborAdvertisements := v\<rparr>\<rparr>),
      (''Icmp6InRedirects'', \<lambda>v t. t\<lparr>tmp_icmpv6 := (tmp_icmpv6 t)\<lparr>ic6_Icmp6InRedirects := v\<rparr>\<rparr>),
      (''Icmp6OutMsgs'', \<lambda>v t. t\<lparr>tmp_icmpv6 := (tmp_icmpv6 t)\<lparr>ic6_Icmp6OutMsgs := v\<rparr>\<rparr>),
      (''Icmp6OutDestUnreachs'', \<lambda>v t. t\<lparr>tmp_icmpv6 := (tmp_icmpv6 t)\<lparr>ic6_Icmp6OutDestUnreachs := v\<rparr>\<rparr>),
      (''Icmp6OutPktTooBigs'', \<lambda>v t. t\<lparr>tmp_icmpv6 := (tmp_icmpv6 t)\<lparr>ic6_Icmp6OutPktTooBigs := v\<rparr>\<rparr>),
      (''Icmp6OutTimeExcds'', \<lambda>v t. t\<lparr>tmp_icmpv6 := (tmp_icmpv6 t)\<lparr>ic6_Icmp6OutTimeExcds := v\<rparr>\<rparr>),
      (''Icmp6OutParmProblems'', \<lambda>v t. t\<lparr>tmp_icmpv6 := (tmp_icmpv6 t)\<lparr>ic6_Icmp6OutParmProblems := v\<rparr>\<rparr>),
      (''Icmp6OutEchoReplies'', \<lambda>v t. t\<lparr>tmp_icmpv6 := (tmp_icmpv6 t)\<lparr>ic6_Icmp6OutEchoReplies := v\<rparr>\<rparr>),
      (''Icmp6OutRouterSolicits'', \<lambda>v t. t\<lparr>tmp_icmpv6 := (tmp_icmpv6 t)\<lparr>ic6_Icmp6OutRouterSolicits := v\<rparr>\<rparr>),
      (''Icmp6OutNeighborSolicits'', \<lambda>v t. t\<lparr>tmp_icmpv6 := (tmp_icmpv6 t)\<lparr>ic6_Icmp6OutNeighborSolicits := v\<rparr>\<rparr>),
      (''Icmp6OutNeighborAdvertisements'', \<lambda>v t. t\<lparr>tmp_icmpv6 := (tmp_icmpv6 t)\<lparr>ic6_Icmp6OutNeighborAdvertisements := v\<rparr>\<rparr>),
      (''Icmp6OutRedirects'', \<lambda>v t. t\<lparr>tmp_icmpv6 := (tmp_icmpv6 t)\<lparr>ic6_Icmp6OutRedirects := v\<rparr>\<rparr>),
      (''Icmp6OutGroupMembResponses'', \<lambda>v t. t\<lparr>tmp_icmpv6 := (tmp_icmpv6 t)\<lparr>ic6_Icmp6OutGroupMembResponses := v\<rparr>\<rparr>),
      (''Icmp6OutGroupMembReductions'', \<lambda>v t. t\<lparr>tmp_icmpv6 := (tmp_icmpv6 t)\<lparr>ic6_Icmp6OutGroupMembReductions := v\<rparr>\<rparr>),
      (''Udp6InDatagrams'', \<lambda>v t. t\<lparr>tmp_udpv6 := (tmp_udpv6 t)\<lparr>ud6_Udp6InDatagrams := v\<rparr>\<rparr>),
      (''Udp6NoPorts'', \<lambda>v t. t\<lparr>tmp_udpv6 := (tmp_udpv6 t)\<lparr>ud6_Udp6NoPorts := v\<rparr>\<rparr>),
      (''Udp6InErrors'', \<lambda>v t. t\<lparr>tmp_udpv6 := (tmp_udpv6 t)\<lparr>ud6_Udp6InErrors := v\<rparr>\<rparr>),
      (''Udp6OutDatagrams'', \<lambda>v t. t\<lparr>tmp_udpv6 := (tmp_udpv6 t)\<lparr>ud6_Udp6OutDatagrams := v\<rparr>\<rparr>)]"

definition v6tab_entries :: nat where "v6tab_entries = length v6tab"

text \<open>The search from the begin of the table.\<close>

fun v6find :: "string \<Rightarrow> (string \<times> 'a) list \<Rightarrow> nat \<Rightarrow> nat" where
  "v6find nam [] cur = cur"
| "v6find nam ((n, _) # tab) cur = (if n = nam then cur else v6find nam tab (cur + 1))"

definition v6store :: "string \<Rightarrow> count_t \<Rightarrow> nat \<times> v6tmp \<Rightarrow> nat \<times> v6tmp" where
  "v6store nam countval = (\<lambda>(cur, t).
     let (cur, t) =
           (if fst (v6tab ! cur) = nam then (cur, snd (v6tab ! cur) countval t)
            else
              let cur = v6find nam v6tab 0 in
              if cur < v6tab_entries then (cur, snd (v6tab ! cur) countval t) else (cur, t))
     in (if v6tab_entries \<le> cur + 1 then 0 else cur + 1, t))"

text \<open>The counter goes to a variable of its own, not to \<open>cnts\<close>; it is used only when it was scanned.\<close>

definition snmp6_line :: "string \<Rightarrow> string \<times> nat \<times> v6tmp \<Rightarrow> (string \<times> nat \<times> v6tmp) option" where
  "snmp6_line line = (\<lambda>(nam, s).
     case sscanf line ''%s %lld'' of
       [] \<Rightarrow> Some (nam, s)
     | v # vs \<Rightarrow>
         if 64 \<le> length (vstr v) then None
         else Some (vstr v, if vs = [] then s else v6store (vstr v) (vnum (hd vs)) s))"

definition snmp6 :: "string option \<Rightarrow> scanbuf \<Rightarrow> netstat \<Rightarrow> (scanbuf \<times> netstat) option" where
  "snmp6 contents sb n =
     (case contents of
        None \<Rightarrow> Some (sb, n)
      | Some txt \<Rightarrow>
          do {
            (nam, _, t) \<leftarrow> each_line (go_on snmp6_line) txt
              (sb_nam sb, 0, \<lparr>tmp_ipv6 = ipv6_stats0, tmp_icmpv6 = icmpv6_stats0, tmp_udpv6 = udpv6_stats0\<rparr>);
            Some (sb\<lparr>sb_nam := nam\<rparr>, n\<lparr>nst_ipv6 := tmp_ipv6 t, nst_icmpv6 := tmp_icmpv6 t, nst_udpv6 := tmp_udpv6 t\<rparr>)
          })"

section \<open>Interfaces as the kernel writes them\<close>

text \<open>An interface: its name, and its counters with the widths of their columns.\<close>

type_synonym kintf = "string \<times> (nat \<times> int) list"

definition kernel_intf :: "kintf \<Rightarrow> string" where
  "kernel_intf = (\<lambda>(name, ps). justify 6 name @ '':'' @ columns_of ps)"

definition kintf_ok :: "kintf \<Rightarrow> bool" where
  "kintf_ok = (\<lambda>(name, ps). word_ok name \<and> CHR '':'' \<notin> set name \<and> length name \<le> 15 \<and> 16 \<le> length ps \<and>
     (\<forall>p\<in>set ps. i64_range (snd p)) \<and> length (kernel_intf (name, ps)) < 1023)"

definition intf_vals :: "kintf \<Rightarrow> scanval list" where
  "intf_vals = (\<lambda>(name, ps). VStr name # map (VNum \<circ> word_of_int) (take 16 (map snd ps)))"

text \<open>The counters of an entry in the order of the columns.\<close>

definition intf_columns :: "perintf \<Rightarrow> count_t list" where
  "intf_columns p = [pif_rbyte p, pif_rpack p, pif_rerrs p, pif_rdrop p, pif_rfifo p, pif_rframe p, pif_rcompr p, pif_rmultic p,
     pif_sbyte p, pif_spack p, pif_serrs p, pif_sdrop p, pif_sfifo p, pif_scollis p, pif_scarrier p, pif_scompr p]"

lemma directives_netdev:
  "\<exists>ds. directives netdev_fmt = Str 15 True # ds \<and> no_blanks ds = replicate 16 (Num True True) \<and> set ds \<subseteq> {Blank, Num True True}"
proof -
  have "directives netdev_fmt = Str 15 True # Blank # numbers (replicate 16 True)" by code_simp
  then show ?thesis using set_numbers [of 16] by auto
qed

lemma scan_nums_blank: "isspace c \<Longrightarrow> scan (replicate k (Num True True)) (c # s) = scan (replicate k (Num True True)) s"
  by (cases k) simp_all

lemma no_colon_intf:
  assumes "kintf_ok (name, ps)"
  shows "no_colon (kernel_intf (name, ps) @ rest) = replicate (6 - length name) CHR '' '' @ name @ '' '' @ columns_of ps @ rest"
proof -
  have "CHR '':'' \<notin> set (justify 6 name)" using assms by (auto simp: kintf_ok_def justify_def)
  then have "takeWhile (\<lambda>c. c \<noteq> CHR '':'') (justify 6 name @ CHR '':'' # s) = justify 6 name \<and>
      dropWhile (\<lambda>c. c \<noteq> CHR '':'') (justify 6 name @ CHR '':'' # s) = CHR '':'' # s" for s
    by (auto simp: takeWhile_append dropWhile_append)
  then show ?thesis by (simp add: no_colon_def kernel_intf_def justify_def)
qed

lemma sscanf_intf:
  assumes "kintf_ok k"
  shows "sscanf (no_colon (kernel_intf k @ [CHR 0x0A])) netdev_fmt = intf_vals k"
proof -
  obtain name ps where k: "k = (name, ps)" by (cases k)
  obtain ds where ds: "directives netdev_fmt = Str 15 True # ds" "no_blanks ds = replicate 16 (Num True True)" "set ds \<subseteq> {Blank, Num True True}"
    using directives_netdev by blast
  have ok: "word_ok name" "length name \<le> 15" "\<forall>p\<in>set ps. i64_range (snd p)" using assms by (simp_all add: k kintf_ok_def)
  have "\<forall>d\<in>set ds. d = Blank \<or> d = Num True True" using ds(3) by auto
  note scan_no_blanks [OF this, of "'' '' @ columns_of ps @ [CHR 0x0A]"]
  moreover have "isspace CHR 0x0A" by (simp add: isspace_def)
  ultimately have "scan ds ('' '' @ columns_of ps @ [CHR 0x0A]) = map (VNum \<circ> word_of_int) (take 16 (map snd ps))"
    using scan_row [OF ok(3), of "[CHR 0x0A]"] ds(2) by (simp add: scan_nums_blank)
  then show ?thesis
    using scan_word_word [of name 15 "'' '' @ columns_of ps @ [CHR 0x0A]" ds "6 - length name"] ok(1,2) assms
    by (simp add: k no_colon_intf sscanf_def ds(1) word_ok_def intf_vals_def)
qed

lemma length_16:
  assumes "16 \<le> length xs"
  shows "\<exists>a b c d e f g h i j k l m n p q ys. xs = a # b # c # d # e # f # g # h # i # j # k # l # m # n # p # q # ys"
  using assms by (auto simp: numeral_eq_Suc Suc_le_length_iff)

lemma assign_intf:
  assumes "kintf_ok k"
  shows "cstr (pif_name (assign intf_vars (intf_vals k) p)) = fst k"
    "intf_columns (assign intf_vars (intf_vals k) p) = map word_of_int (take 16 (map snd (snd k)))"
    "length (intf_vals k) = 17"
proof -
  obtain name ps where k: "k = (name, ps)" by (cases k)
  have "16 \<le> length (map snd ps)" "cstr name = name"
    using assms by (auto simp: k kintf_ok_def word_ok_def intro: cstr_id)
  with length_16 [OF this(1)] show "cstr (pif_name (assign intf_vars (intf_vals k) p)) = fst k"
    "intf_columns (assign intf_vars (intf_vals k) p) = map word_of_int (take 16 (map snd (snd k)))" "length (intf_vals k) = 17"
    by (auto simp: k intf_vals_def intf_vars_def intf_columns_def)
qed

text \<open>A line without numbers only touches the entry that comes next.\<close>

lemma netdev_headers:
  assumes "\<forall>l\<in>set hs. length (sscanf (no_colon l) netdev_fmt) \<noteq> 17" "i < length intf"
  shows "\<exists>p. lines_loop netdev_line (hs @ ls) (i, intf) = lines_loop netdev_line ls (i, intf[i := p])"
  using assms
proof (induction hs arbitrary: intf)
  case Nil
  then show ?case by (metis append_Nil list_update_id)
next
  case (Cons h hs)
  then obtain p where "lines_loop netdev_line ((h # hs) @ ls) (i, intf) = lines_loop netdev_line (hs @ ls) (i, intf[i := p])"
    by (auto simp: netdev_line_def Let_def)
  with Cons.IH [of "intf[i := p]"] Cons.prems show ?case by auto
qed

lemma netdev_intfs:
  assumes "\<forall>k\<in>set ks. kintf_ok k" "length intf = MAXINTF" "i < MAXINTF - 1"
  shows "\<exists>intf'. lines_loop netdev_line (map (\<lambda>k. kernel_intf k @ [CHR 0x0A]) ks) (i, intf) = Some (min (i + length ks) (MAXINTF - 1), intf') \<and>
    length intf' = MAXINTF \<and>
    (\<forall>j<MAXINTF. intf' ! j = (if i \<le> j \<and> j < min (i + length ks) (MAXINTF - 1)
       then assign intf_vars (intf_vals (ks ! (j - i))) (intf ! j) else intf ! j))"
  using assms
proof (induction ks arbitrary: i intf)
  case Nil
  then show ?case by (auto simp: min_def)
next
  case (Cons k ks)
  define intf1 where "intf1 = intf[i := assign intf_vars (intf_vals k) (intf ! i)]"
  have k: "kintf_ok k" and i: "i < length intf" using Cons.prems by (simp_all add: MAXINTF_def)
  have step: "netdev_line (kernel_intf k @ [CHR 0x0A]) (i, intf) = Some (MAXINTF - 1 \<le> i + 1, i + 1, intf1)"
    using i assign_intf(3) [OF k] by (simp add: netdev_line_def sscanf_intf [OF k] intf1_def Let_def)
  have len: "length intf1 = MAXINTF" using Cons.prems(2) by (simp add: intf1_def)
  show ?case
  proof (cases "MAXINTF - 1 \<le> i + 1")
    case True
    then have "min (i + length (k # ks)) (MAXINTF - 1) = i + 1" "min (Suc (i + length ks)) (MAXINTF - Suc 0) = i + 1"
      using Cons.prems(3) by simp_all
    with True step len i show ?thesis by (auto simp: intf1_def nth_list_update)
  next
    case False
    then obtain intf' where t: "lines_loop netdev_line (map (\<lambda>k. kernel_intf k @ [CHR 0x0A]) ks) (i + 1, intf1) =
        Some (min (i + 1 + length ks) (MAXINTF - 1), intf')" "length intf' = MAXINTF"
      "\<forall>j<MAXINTF. intf' ! j = (if i + 1 \<le> j \<and> j < min (i + 1 + length ks) (MAXINTF - 1)
         then assign intf_vars (intf_vals (ks ! (j - (i + 1)))) (intf1 ! j) else intf1 ! j)"
      using Cons.IH [of intf1 "i + 1"] Cons.prems(1) len by auto
    have "intf' ! j = (if i \<le> j \<and> j < min (i + length (k # ks)) (MAXINTF - 1)
        then assign intf_vars (intf_vals ((k # ks) ! (j - i))) (intf ! j) else intf ! j)" if "j < MAXINTF" for j
      using t(3) that i False by (cases "j = i") (auto simp: intf1_def nth_Cons')
    with t step False show ?thesis by simp
  qed
qed

definition kernel_netdev :: "string list \<Rightarrow> kintf list \<Rightarrow> string" where
  "kernel_netdev hs ks = concat (map (\<lambda>l. l @ [CHR 0x0A]) (hs @ map kernel_intf ks))"

definition heading_ok :: "string \<Rightarrow> bool" where
  "heading_ok h \<longleftrightarrow> one_line h \<and> length h < 1023 \<and> length (sscanf (no_colon (h @ [CHR 0x0A])) netdev_fmt) \<noteq> 17"

lemma netdev_kernel:
  assumes "\<forall>h\<in>set hs. heading_ok h" "\<forall>k\<in>set ks. kintf_ok k" "length (ifs_intf s) = MAXINTF"
  defines "n \<equiv> min (length ks) (MAXINTF - 1)"
  shows "\<exists>intf. netdev (Some (kernel_netdev hs ks)) s = Some (s\<lparr>ifs_intf := intf, ifs_nrintf := of_nat n\<rparr>) \<and>
    length intf = MAXINTF \<and> \<not> cnonempty (pif_name (intf ! n)) \<and>
    map (\<lambda>p. (cstr (pif_name p), intf_columns p)) (take n intf) =
      map (\<lambda>(name, ps). (name, map word_of_int (take 16 (map snd ps)))) (take n ks)"
proof -
  have n: "n < MAXINTF" "n \<le> length ks" by (simp_all add: n_def MAXINTF_def)
  have "one_line (kernel_intf k) \<and> length (kernel_intf k) < 1023" if "kintf_ok k" for k
  proof -
    obtain name ps where k: "k = (name, ps)" by (cases k)
    have "word_ok name" "length (kernel_intf k) < 1023" using that by (simp_all add: k kintf_ok_def)
    moreover from this(1) have "one_line name" by (auto simp: word_ok_def one_line_def isspace_def)
    ultimately show ?thesis by (simp add: k kernel_intf_def)
  qed
  then have "\<forall>l\<in>set (hs @ map kernel_intf ks). CHR 0x0A \<notin> set l \<and> NUL \<notin> set l \<and> length l < 1023"
    using assms(1,2) by (auto simp: heading_ok_def one_line_def)
  from linebufs_whole [OF this] have l: "linebufs (kernel_netdev hs ks) =
      map (\<lambda>h. h @ [CHR 0x0A]) hs @ map (\<lambda>k. kernel_intf k @ [CHR 0x0A]) ks"
    by (simp add: kernel_netdev_def comp_def)
  have "\<forall>l\<in>set (map (\<lambda>h. h @ [CHR 0x0A]) hs). length (sscanf (no_colon l) netdev_fmt) \<noteq> 17"
    using assms(1) by (auto simp: heading_ok_def)
  moreover have "0 < length (ifs_intf s)" using assms(3) by (simp add: MAXINTF_def)
  ultimately obtain p where p: "lines_loop netdev_line (linebufs (kernel_netdev hs ks)) (0, ifs_intf s) =
      lines_loop netdev_line (map (\<lambda>k. kernel_intf k @ [CHR 0x0A]) ks) (0, (ifs_intf s)[0 := p])"
    unfolding l using netdev_headers by blast
  have "length ((ifs_intf s)[0 := p]) = MAXINTF" "0 < MAXINTF - 1" using assms(3) by (simp_all add: MAXINTF_def)
  from netdev_intfs [OF assms(2) this] obtain intf where i: "lines_loop netdev_line (linebufs (kernel_netdev hs ks)) (0, ifs_intf s) = Some (n, intf)"
    "length intf = MAXINTF" and i0: "\<forall>j<MAXINTF. intf ! j = (if 0 \<le> j \<and> j < min (0 + length ks) (MAXINTF - 1)
       then assign intf_vars (intf_vals (ks ! (j - 0))) ((ifs_intf s)[0 := p] ! j) else (ifs_intf s)[0 := p] ! j)"
    unfolding p n_def by auto
  have i3: "\<forall>j<n. intf ! j = assign intf_vars (intf_vals (ks ! j)) ((ifs_intf s)[0 := p] ! j)"
    using i0 n(1) by (auto simp: n_def)
  define intf' where "intf' = intf[n := (intf ! n)\<lparr>pif_name := cclear (pif_name (intf ! n))\<rparr>]"
  have "netdev (Some (kernel_netdev hs ks)) s = Some (s\<lparr>ifs_intf := intf', ifs_nrintf := of_nat n\<rparr>)"
    using i(1,2) n(1) by (simp add: netdev_def each_line_def intf'_def)
  moreover have "\<not> cnonempty (pif_name (intf' ! n))" "length intf' = MAXINTF"
    using i(2) n(1) by (simp_all add: intf'_def cclear_def cnonempty_def)
  moreover have "map (\<lambda>p. (cstr (pif_name p), intf_columns p)) (take n intf') =
      map (\<lambda>(name, ps). (name, map word_of_int (take 16 (map snd ps)))) (take n ks)"
    using i(2) i3 n assms(2) by (intro nth_equalityI) (auto simp: intf'_def assign_intf split_beta)
  ultimately show ?thesis by blast
qed

text \<open>
  The interfaces of \<^verbatim>\<open>/proc/net/dev\<close>.  After any headings, the table holds the interfaces in the order of the file, each with
  its name and its sixteen counters, as many as fit; the count says how many, and the entry behind the last has an empty name.
\<close>

theorem netdev_table:
  assumes "\<forall>h\<in>set hs. heading_ok h" "\<forall>k\<in>set ks. kintf_ok k" "length (ifs_intf s) = MAXINTF" "n = min (length ks) (MAXINTF - 1)"
  shows "\<exists>intf. netdev (Some (kernel_netdev hs ks)) s = Some (s\<lparr>ifs_intf := intf, ifs_nrintf := of_nat n\<rparr>) \<and>
    length intf = MAXINTF \<and> \<not> cnonempty (pif_name (intf ! n)) \<and>
    map (\<lambda>p. (cstr (pif_name p), intf_columns p)) (take n intf) =
      map (\<lambda>(name, ps). (name, map word_of_int (take 16 (map snd ps)))) (take n ks)"
  unfolding assms(4) using assms(1-3) by (rule netdev_kernel)

definition netdev_ex :: "kintf list" where
  "netdev_ex = [(''lo'', map (Pair 7) [5, 1, 0, 0, 0, 0, 0, 0, 5, 1, 0, 0, 0, 0, 0, 0]),
     (''eth0'', map (Pair 7) [90, 8, 0, 1, 0, 0, 0, 2, 70, 6, 0, 0, 0, 0, 0, 0])]"

definition netdev_heads :: "string list" where
  "netdev_heads = [''Inter-|   Receive                            |  Transmit'',
     '' face |bytes    packets errs drop fifo frame compressed multicast|bytes    packets errs drop fifo colls carrier compressed'']"

theorem netdev_table_witness:
  "\<exists>intf. netdev (Some (kernel_netdev netdev_heads netdev_ex)) intfstat0 = Some (intfstat0\<lparr>ifs_intf := intf, ifs_nrintf := 2\<rparr>) \<and>
     map (\<lambda>p. cstr (pif_name p)) (take 2 intf) = [''lo'', ''eth0''] \<and> \<not> cnonempty (pif_name (intf ! 2))"
proof -
  have "list_all (\<lambda>h. length (sscanf (no_colon (h @ [CHR 0x0A])) netdev_fmt) = 1) netdev_heads" by code_simp
  then have h: "\<forall>h\<in>set netdev_heads. heading_ok h" by (simp add: netdev_heads_def heading_ok_def)
  have "list_all (\<lambda>k. length (kernel_intf k) < 1000) netdev_ex" by code_simp
  then have k: "\<forall>k\<in>set netdev_ex. kintf_ok k" by (simp add: netdev_ex_def kintf_ok_def word_ok_def isspace_def i64_range_def)
  have "length (ifs_intf intfstat0) = MAXINTF" "2 = min (length netdev_ex) (MAXINTF - 1)"
    by (simp_all add: intfstat0_def MAXINTF_def netdev_ex_def)
  from netdev_table [OF h k this] obtain intf where i:
    "netdev (Some (kernel_netdev netdev_heads netdev_ex)) intfstat0 = Some (intfstat0\<lparr>ifs_intf := intf, ifs_nrintf := of_nat 2\<rparr>)"
    "\<not> cnonempty (pif_name (intf ! 2))" "map (\<lambda>p. (cstr (pif_name p), intf_columns p)) (take 2 intf) =
      map (\<lambda>(name, ps). (name, map word_of_int (take 16 (map snd ps)))) (take 2 netdev_ex)" by blast
  then have "map fst (map (\<lambda>p. (cstr (pif_name p), intf_columns p)) (take 2 intf)) = [''lo'', ''eth0'']"
    unfolding i(3) by (simp add: netdev_ex_def)
  then show ?thesis using i(1,2) by (auto simp: comp_def)
qed

section \<open>Version 4 as the kernel writes it\<close>

lemma directives_snmp:
  "\<exists>ds. directives snmp_fmt = Str 0 True # ds \<and> no_blanks ds = replicate 40 (Num True True) \<and> set ds \<subseteq> {Blank, Num True True}"
proof -
  have "directives snmp_fmt = Str 0 True # Blank # numbers (replicate 39 True) @ [Num True True, Blank]"
  proof -
    have "dropWhile isspace (concat (replicate 39 ''%lld '') @ ''%lld'' @ [CHR 0x0A]) =
        concat (replicate 39 ''%lld '') @ ''%lld'' @ [CHR 0x0A]"
      by (simp add: numeral_eq_Suc isspace_def)
    moreover have "directives (''%lld'' @ [CHR 0x0A]) = [Num True True, Blank]" by code_simp
    moreover have "dropWhile isspace (''%lld'' @ [CHR 0x0A]) = ''%lld'' @ [CHR 0x0A]" by (simp add: isspace_percent)
    ultimately show ?thesis
      using directives_columns [of "''%lld'' @ [CHR 0x0A]" 39] directives_word by (simp add: snmp_fmt_def del: append_Cons)
  qed
  moreover have "replicate 39 (Num True True) @ [Num True True] = replicate 40 (Num True True)"
    by (simp add: numeral_eq_Suc)
  ultimately show ?thesis using set_numbers [of 39] by auto
qed

text \<open>A block is a line of headings and a line of numbers, both with the label.\<close>

type_synonym snmp_block = "string \<times> string \<times> int list"

definition snmp_cols :: "string \<Rightarrow> nat" where
  "snmp_cols lab = (if lab = ''Ip:'' then 19 else if lab = ''Icmp:'' then 26 else if lab = ''Tcp:'' then 14 else if lab = ''Udp:'' then 4 else 1)"

definition block_ok :: "snmp_block \<Rightarrow> bool" where
  "block_ok = (\<lambda>(lab, heads, xs). word_ok lab \<and> length lab < 64 \<and> snmp_cols lab \<le> length xs \<and> length xs \<le> 40 \<and>
     (\<forall>i\<in>set xs. i64_range i) \<and> one_line heads \<and> heads \<noteq> [] \<and> \<not> isspace (hd heads) \<and> \<not> isdigit (hd heads) \<and>
     hd heads \<noteq> CHR ''-'' \<and> hd heads \<noteq> CHR ''+'' \<and> length lab + length heads < 1000 \<and> length (lab @ row xs) < 1023)"

definition block_lines :: "snmp_block \<Rightarrow> string list" where
  "block_lines = (\<lambda>(lab, heads, xs). [lab @ '' '' @ heads, lab @ row xs])"

definition kernel_snmp :: "snmp_block list \<Rightarrow> string" where
  "kernel_snmp bs = concat (map (\<lambda>l. l @ [CHR 0x0A]) (concat (map block_lines bs)))"

text \<open>Counters behind those of the struct play no part.\<close>

lemma struct_append:
  "19 \<le> length xs \<Longrightarrow> ipv4_of (xs @ ys) = ipv4_of xs" "26 \<le> length xs \<Longrightarrow> icmpv4_of (xs @ ys) = icmpv4_of xs"
  "14 \<le> length xs \<Longrightarrow> tcp_of (xs @ ys) = tcp_of xs" "4 \<le> length xs \<Longrightarrow> udpv4_of (xs @ ys) = udpv4_of xs"
  by (simp_all add: ipv4_of_def icmpv4_of_def tcp_of_def udpv4_of_def nth_append) auto

lemma snmp_store_append:
  "snmp_cols lab \<le> length xs \<Longrightarrow> snmp_store lab (xs @ ys) n = snmp_store lab xs n"
  by (simp add: snmp_cols_def snmp_store_def struct_append split: if_splits)

lemma scan_heading:
  assumes "block_ok (lab, heads, xs)"
  shows "scan_line snmp_fmt ((lab @ '' '' @ heads) @ [CHR 0x0A]) sb = Some (1, sb\<lparr>sb_nam := lab\<rparr>)"
proof -
  obtain ds where ds: "directives snmp_fmt = Str 0 True # ds" "no_blanks ds = replicate 40 (Num True True)" "set ds \<subseteq> {Blank, Num True True}"
    using directives_snmp by blast
  obtain c cs where h: "heads = c # cs" using assms by (cases heads) (auto simp: block_ok_def)
  have c: "\<not> isspace c" "\<not> isdigit c" "c \<noteq> CHR ''-''" "c \<noteq> CHR ''+''" using assms h by (auto simp: block_ok_def)
  have "\<forall>d\<in>set ds. d = Blank \<or> d = Num True True" using ds(3) by auto
  note scan_no_blanks [OF this, of "'' '' @ heads @ [CHR 0x0A]"]
  moreover have "scan (replicate 40 (Num True True)) ('' '' @ heads @ [CHR 0x0A]) = []"
    using c by (simp add: numeral_eq_Suc h read_number_def)
  ultimately have "scan ds ('' '' @ heads @ [CHR 0x0A]) = []" using ds(2) by simp
  moreover have "word_ok lab" "length lab < 64" using assms by (simp_all add: block_ok_def)
  ultimately show ?thesis
    using scan_word_word [of lab 0 "'' '' @ heads @ [CHR 0x0A]" ds 0] by (simp add: scan_line_def sscanf_def ds(1) word_ok_def)
qed

lemma scan_values:
  assumes "block_ok (lab, heads, xs)"
  shows "scan_line snmp_fmt ((lab @ row xs) @ [CHR 0x0A]) sb =
    Some (length xs + 1, \<lparr>sb_nam = lab, sb_cnts = map word_of_int xs @ drop (length xs) (sb_cnts sb)\<rparr>)"
proof -
  obtain ds where ds: "directives snmp_fmt = Str 0 True # ds" "no_blanks ds = replicate 40 (Num True True)" "set ds \<subseteq> {Blank, Num True True}"
    using directives_snmp by blast
  have b: "word_ok lab" "length lab < 64" "snmp_cols lab \<le> length xs" "length xs \<le> 40" "\<forall>i\<in>set xs. i64_range i"
    using assms by (simp_all add: block_ok_def)
  then have "krow_ok (lab, map (Pair 0) xs, [])"
    using assms by (auto simp: krow_ok_def block_ok_def row_text_def snmp_cols_def isspace_def split: if_splits)
  from scan_line_row [OF this ds] show ?thesis
    using b(4) by (simp add: row_text_def row_counts_def row_scanned_def comp_def)
qed

lemma snmp_blocks:
  assumes "\<forall>b\<in>set bs. block_ok b"
  shows "\<exists>sb'. lines_loop (go_on snmp_line) (map (\<lambda>l. l @ [CHR 0x0A]) (concat (map block_lines bs))) (sb, n) =
    Some (sb', fold (\<lambda>(lab, _, xs). snmp_store lab (map word_of_int xs)) bs n)"
  using assms
proof (induction bs arbitrary: sb n)
  case (Cons b bs)
  obtain lab heads xs where b: "b = (lab, heads, xs)" by (cases b)
  then have ok: "block_ok (lab, heads, xs)" using Cons.prems by simp
  have cols: "snmp_cols lab \<le> length xs" "0 < length xs" using ok by (auto simp: block_ok_def snmp_cols_def split: if_splits)
  then have "snmp_line ((lab @ row xs) @ [CHR 0x0A]) (sb\<lparr>sb_nam := lab\<rparr>, n) =
      Some (\<lparr>sb_nam = lab, sb_cnts = map word_of_int xs @ drop (length xs) (sb_cnts sb)\<rparr>, snmp_store lab (map word_of_int xs) n)"
    using scan_values [OF ok] snmp_store_append [of lab "map word_of_int xs"] by (simp add: snmp_line_def)
  moreover have "snmp_line ((lab @ '' '' @ heads) @ [CHR 0x0A]) (sb, n) = Some (sb\<lparr>sb_nam := lab\<rparr>, n)"
    using scan_heading [OF ok] by (simp add: snmp_line_def)
  ultimately show ?case
    using Cons.IH [of "\<lparr>sb_nam = lab, sb_cnts = map word_of_int xs @ drop (length xs) (sb_cnts sb)\<rparr>" "snmp_store lab (map word_of_int xs) n"] Cons.prems
    by (simp add: b block_lines_def lines_loop_go_on del: lines_loop.simps(2))
qed simp

text \<open>
  The counters of IP version 4.  From a file of blocks of headings and numbers, every known block fills its struct, column by
  column in the order of its members; headings and unknown blocks (as those of newer kernels) change nothing, and no counter is left
  over from another line.
\<close>

theorem snmp_by_block:
  assumes "\<forall>b\<in>set bs. block_ok b"
  shows "\<exists>sb'. snmp (Some (kernel_snmp bs)) sb n =
    Some (sb', fold (\<lambda>(lab, _, xs). snmp_store lab (map word_of_int xs)) bs n)"
proof -
  have "\<forall>l\<in>set (block_lines b). CHR 0x0A \<notin> set l \<and> NUL \<notin> set l \<and> length l < 1023" if "block_ok b" for b
  proof -
    obtain lab heads xs where b: "b = (lab, heads, xs)" by (cases b)
    have "one_line lab" "one_line heads" "length lab + length heads < 1000" "length (lab @ row xs) < 1023"
      using that by (auto simp: b block_ok_def word_ok_def one_line_def isspace_def)
    then have "one_line (lab @ '' '' @ heads)" "one_line (lab @ row xs)" by simp_all
    then show ?thesis
      using \<open>length lab + length heads < 1000\<close> \<open>length (lab @ row xs) < 1023\<close> by (simp add: b block_lines_def one_line_def)
  qed
  then have "linebufs (kernel_snmp bs) = map (\<lambda>l. l @ [CHR 0x0A]) (concat (map block_lines bs))"
    unfolding kernel_snmp_def using assms by (intro linebufs_whole) auto
  with snmp_blocks [OF assms] show ?thesis by (simp add: snmp_def each_line_def)
qed

definition snmp_ex :: "snmp_block list" where
  "snmp_ex = [(''Udp:'', ''InDatagrams NoPorts InErrors OutDatagrams'', [7, 1, 0, 9]), (''UdpLite:'', ''InDatagrams'', [3]),
     (''Tcp:'', ''RtoAlgorithm'', [1, 20, 12, -1, 5, 4, 3, 2, 1, 16, 15, 6, 0, 8])]"

theorem snmp_by_block_witness:
  "\<exists>sb' n'. snmp (Some (kernel_snmp snmp_ex)) \<lparr>sb_nam = [], sb_cnts = replicate 64 0\<rparr> netstat0 = Some (sb', n') \<and>
     ud4_InDatagrams (nst_udpv4 n') = 7 \<and> tcp_MaxConn (nst_tcp n') = -1 \<and> tcp_OutRsts (nst_tcp n') = 8 \<and> nst_ipv4 n' = nst_ipv4 netstat0"
proof -
  have "list_all (\<lambda>(lab, heads, xs). length (lab @ row xs) < 100) snmp_ex" by code_simp
  then have "\<forall>b\<in>set snmp_ex. block_ok b"
    by (simp add: snmp_ex_def block_ok_def word_ok_def isspace_def isdigit_def i64_range_def snmp_cols_def)
  note snmp_by_block [OF this, of "\<lparr>sb_nam = [], sb_cnts = replicate 64 0\<rparr>" netstat0]
  moreover have "fold (\<lambda>(lab, _, xs). snmp_store lab (map word_of_int xs)) snmp_ex netstat0 =
      netstat0\<lparr>nst_udpv4 := udpv4_of [7, 1, 0, 9], nst_tcp := tcp_of [1, 20, 12, -1, 5, 4, 3, 2, 1, 16, 15, 6, 0, 8]\<rparr>"
    by (simp add: snmp_ex_def snmp_store_def)
  ultimately show ?thesis by (auto simp: udpv4_of_def tcp_of_def)
qed

section \<open>The search of version 6\<close>

text \<open>The counter by its name, without a cursor.\<close>

definition v6put :: "string \<Rightarrow> count_t \<Rightarrow> v6tmp \<Rightarrow> v6tmp" where
  "v6put nam v t = (case map_of v6tab nam of None \<Rightarrow> t | Some set_val \<Rightarrow> set_val v t)"

lemma v6find_takeWhile: "v6find nam tab cur = cur + length (takeWhile (\<lambda>p. fst p \<noteq> nam) tab)"
  by (induction nam tab cur rule: v6find.induct) auto

lemma v6find_found:
  "v6find nam tab 0 < length tab \<Longrightarrow> fst (tab ! v6find nam tab 0) = nam"
  "length tab \<le> v6find nam tab 0 \<Longrightarrow> map_of tab nam = None"
  using nth_length_takeWhile [of "\<lambda>p. fst p \<noteq> nam" tab]
  by (auto simp: v6find_takeWhile map_of_eq_None_iff dest: set_takeWhileD)
    (metis (mono_tags, lifting) length_takeWhile_le le_antisym takeWhile_eq_all_conv takeWhile_eq_take take_all_iff fst_conv)

lemma v6names_distinct: "distinct (map fst v6tab)"
  by (simp add: v6tab_def)

lemma v6put_nth: "k < v6tab_entries \<Longrightarrow> snd (v6tab ! k) v t = v6put (fst (v6tab ! k)) v t"
  using map_of_is_SomeI [OF v6names_distinct, of "fst (v6tab ! k)" "snd (v6tab ! k)"]
  by (simp add: v6put_def v6tab_entries_def)

lemma v6store_put:
  assumes "cur < v6tab_entries"
  shows "\<exists>cur'. v6store nam v (cur, t) = (cur', v6put nam v t) \<and> cur' < v6tab_entries"
proof -
  have "0 < v6tab_entries" using assms by simp
  moreover have "\<not> v6find nam v6tab 0 < v6tab_entries \<Longrightarrow> v6put nam v t = t"
    using v6find_found(2) [of v6tab nam] by (simp add: v6put_def v6tab_entries_def)
  ultimately show ?thesis
    using assms v6put_nth v6find_found(1) [of nam v6tab]
    by (auto simp: v6store_def Let_def v6tab_entries_def [symmetric])
qed

definition v6pair :: "string \<Rightarrow> (string \<times> count_t) option" where
  "v6pair line = (case sscanf line ''%s %lld'' of v # w # _ \<Rightarrow> Some (vstr v, vnum w) | _ \<Rightarrow> None)"

definition v6fits :: "string \<Rightarrow> bool" where
  "v6fits line = (case sscanf line ''%s %lld'' of [] \<Rightarrow> True | v # _ \<Rightarrow> length (vstr v) < 64)"

abbreviation v6puts :: "(string \<times> count_t) list \<Rightarrow> v6tmp \<Rightarrow> v6tmp" where
  "v6puts \<equiv> fold (\<lambda>(nam, v). v6put nam v)"

lemma snmp6_loop:
  assumes "\<forall>l\<in>set ls. v6fits l" "cur < v6tab_entries"
  shows "\<exists>nam' cur'. lines_loop (go_on snmp6_line) ls (nam, cur, t) = Some (nam', cur', v6puts (List.map_filter v6pair ls) t)"
  using assms
proof (induction ls arbitrary: nam cur t)
  case Nil
  then show ?case by (simp add: map_filter_simps)
next
  case (Cons l ls)
  have l: "v6fits l" using Cons.prems(1) by simp
  have "\<exists>nam' cur'. snmp6_line l (nam, cur, t) = Some (nam', cur', case v6pair l of None \<Rightarrow> t | Some (m, v) \<Rightarrow> v6put m v t) \<and>
      cur' < v6tab_entries"
  proof (cases "sscanf l ''%s %lld''")
    case Nil
    then show ?thesis using Cons.prems(2) by (simp add: snmp6_line_def v6pair_def)
  next
    case (Cons v vs)
    then show ?thesis
      using l v6store_put [OF \<open>cur < v6tab_entries\<close>, of "vstr v" "vnum (hd vs)" t] \<open>cur < v6tab_entries\<close>
      by (cases vs) (auto simp: snmp6_line_def v6pair_def v6fits_def)
  qed
  then obtain nam' cur' where "snmp6_line l (nam, cur, t) = Some (nam', cur', case v6pair l of None \<Rightarrow> t | Some (m, v) \<Rightarrow> v6put m v t)"
    "cur' < v6tab_entries" by blast
  with Cons.IH [of cur'] Cons.prems(1) show ?case
    by (cases "v6pair l") (simp_all add: lines_loop_go_on map_filter_simps split_beta del: lines_loop.simps(2))
qed

definition v6tmp0 :: v6tmp where
  "v6tmp0 = \<lparr>tmp_ipv6 = ipv6_stats0, tmp_icmpv6 = icmpv6_stats0, tmp_udpv6 = udpv6_stats0\<rparr>"

text \<open>
  C16: The counters of IP version 6.  The search that starts at the entry behind the one found last is a look-up by name: in
  whatever order \<^verbatim>\<open>/proc/net/snmp6\<close> lists the counters, with unknown ones among them, every line stores its value in the member of
  its name and no other, from zeros on.
\<close>

theorem snmp6_by_name:
  assumes "\<forall>l\<in>set (linebufs txt). v6fits l"
  shows "\<exists>nam. snmp6 (Some txt) sb n = Some (sb\<lparr>sb_nam := nam\<rparr>,
    let t = v6puts (List.map_filter v6pair (linebufs txt)) v6tmp0
    in n\<lparr>nst_ipv6 := tmp_ipv6 t, nst_icmpv6 := tmp_icmpv6 t, nst_udpv6 := tmp_udpv6 t\<rparr>)"
proof -
  have "0 < v6tab_entries" by (simp add: v6tab_entries_def v6tab_def)
  then obtain nam cur where "lines_loop (go_on snmp6_line) (linebufs txt) (sb_nam sb, 0, v6tmp0) =
      Some (nam, cur, v6puts (List.map_filter v6pair (linebufs txt)) v6tmp0)"
    using snmp6_loop [OF assms] by blast
  then show ?thesis by (auto simp: snmp6_def each_line_def v6tmp0_def Let_def)
qed

definition snmp6_ex :: "(string \<times> int) list" where
  "snmp6_ex = [(''Udp6InErrors'', 4), (''Ip6InReceives'', 5), (''Ip6InOctets'', 9), (''Ip6InHdrErrors'', 2)]"

definition kernel_pairs :: "(string \<times> int) list \<Rightarrow> string" where
  "kernel_pairs ks = concat (map (\<lambda>l. l @ [CHR 0x0A]) (map (\<lambda>(w, i). w @ row [i]) ks))"

lemma kernel_pairs_lines:
  assumes "\<forall>(w, i)\<in>set ks. word_ok w \<and> length w < 64 \<and> i64_range i \<and> length (w @ row [i]) < 1023"
  shows "linebufs (kernel_pairs ks) = map (\<lambda>(w, i). w @ row [i] @ [CHR 0x0A]) ks"
    "\<forall>l\<in>set (linebufs (kernel_pairs ks)). v6fits l"
    "List.map_filter v6pair (linebufs (kernel_pairs ks)) = map (\<lambda>(w, i). (w, word_of_int i)) ks"
proof -
  have "one_line (w @ row [i])" if "word_ok w" for w i
    using that by (auto simp: word_ok_def one_line_def [of w] isspace_def)
  then have "\<forall>l\<in>set (map (\<lambda>(w, i). w @ row [i]) ks). CHR 0x0A \<notin> set l \<and> NUL \<notin> set l \<and> length l < 1023"
    using assms unfolding one_line_def by fastforce
  from linebufs_whole [OF this] show l: "linebufs (kernel_pairs ks) = map (\<lambda>(w, i). w @ row [i] @ [CHR 0x0A]) ks"
    by (simp add: kernel_pairs_def split_beta comp_def)
  have s: "sscanf (w @ row [i] @ [CHR 0x0A]) ''%s %lld'' = [VStr w, VNum (word_of_int i)] \<and> length w < 64" if "(w, i) \<in> set ks" for w i
    using assms that sscanf_pair by fastforce
  show "\<forall>l\<in>set (linebufs (kernel_pairs ks)). v6fits l"
    unfolding l using s by (auto simp: v6fits_def)
  have "List.map_filter v6pair (map (\<lambda>(w, i). w @ row [i] @ [CHR 0x0A]) js) = map (\<lambda>(w, i). (w, word_of_int i)) js" if "set js \<subseteq> set ks" for js
    using that by (induction js) (use s in \<open>auto simp: map_filter_simps v6pair_def\<close>)
  then show "List.map_filter v6pair (linebufs (kernel_pairs ks)) = map (\<lambda>(w, i). (w, word_of_int i)) ks"
    unfolding l by simp
qed

theorem snmp6_by_name_witness:
  "\<exists>sb n. snmp6 (Some (kernel_pairs snmp6_ex)) \<lparr>sb_nam = [], sb_cnts = replicate 64 0\<rparr> netstat0 = Some (sb, n) \<and>
     ip6_Ip6InReceives (nst_ipv6 n) = 5 \<and> ip6_Ip6InHdrErrors (nst_ipv6 n) = 2 \<and> ud6_Udp6InErrors (nst_udpv6 n) = 4"
proof -
  have "list_all (\<lambda>(w, i). length (w @ row [i]) < 100) snmp6_ex" by code_simp
  then have "\<forall>(w, i)\<in>set snmp6_ex. word_ok w \<and> length w < 64 \<and> i64_range i \<and> length (w @ row [i]) < 1023"
    by (simp add: snmp6_ex_def word_ok_def isspace_def i64_range_def)
  note k = kernel_pairs_lines [OF this]
  have "v6puts (map (\<lambda>(w, i). (w, word_of_int i)) snmp6_ex) v6tmp0 =
      v6put ''Ip6InHdrErrors'' 2 (v6put ''Ip6InOctets'' 9 (v6put ''Ip6InReceives'' 5 (v6put ''Udp6InErrors'' 4 v6tmp0)))"
    by (simp add: snmp6_ex_def)
  with snmp6_by_name [OF k(2), of "\<lparr>sb_nam = [], sb_cnts = replicate 64 0\<rparr>" netstat0] show ?thesis
    unfolding k(3) by (auto simp: v6put_def v6tab_def v6tmp0_def Let_def)
qed

end
