(* ===== verification/Disk_Names.thy ===== *)
theory Disk_Names
  imports Sysstat Scanf
begin

text \<open>
  Which lines of \<^verbatim>\<open>/proc/diskstats\<close> are disks: \<open>isdisk\<close> of \<^verbatim>\<open>src/Qt/FakeAtop/photosyst.c\<close> with its table of regular expressions and
  the functions that shorten or translate names.  Of \<open>regcomp\<close> and \<open>regexec\<close> the part is modelled that the table uses:
  anchors, single characters, ranges, any character, and repetition of one of these.
\<close>

section \<open>Regular expressions\<close>

datatype atom = Char1 char | Range char char | Any1

datatype item = Once atom | Many atom

record regex =
  re_begin :: bool
  re_items :: "item list"
  re_end :: bool

fun atom_ok :: "atom \<Rightarrow> char \<Rightarrow> bool" where
  "atom_ok (Char1 d) c \<longleftrightarrow> c = d"
| "atom_ok (Range a b) c \<longleftrightarrow> (of_char a :: nat) \<le> of_char c \<and> (of_char c :: nat) \<le> of_char b"
| "atom_ok Any1 c \<longleftrightarrow> True"

text \<open>The atom at the front of an expression.\<close>

definition take_atom :: "string \<Rightarrow> atom \<times> string" where
  "take_atom re =
     (if hd re = CHR ''['' \<and> 5 \<le> length re then (Range (re ! 1) (re ! 3), drop 5 re)
      else if hd re = CHR ''.'' then (Any1, tl re)
      else (Char1 (hd re), tl re))"

function re_parse :: "string \<Rightarrow> item list" where
  "re_parse re =
     (if re = [] then []
      else let (a, r) = take_atom re in
        if prefix ''*'' r then Many a # re_parse (tl r) else Once a # re_parse r)"
  by pat_completeness auto

termination
  by (relation "measure length") (auto simp: take_atom_def neq_Nil_conv split: if_splits)

declare re_parse.simps [simp del]

definition regcomp :: "string \<Rightarrow> regex" where
  "regcomp re =
     (let b = prefix ''^'' re; re = (if b then tl re else re); e = (re \<noteq> [] \<and> List.last re = CHR ''$'')
      in \<lparr>re_begin = b, re_items = re_parse (if e then butlast re else re), re_end = e\<rparr>)"

text \<open>A match from the front of a string on, by trying.\<close>

fun re_match :: "item list \<Rightarrow> bool \<Rightarrow> string \<Rightarrow> bool" where
  "re_match [] e s \<longleftrightarrow> (e \<longrightarrow> s = [])"
| "re_match (Once a # is) e [] \<longleftrightarrow> False"
| "re_match (Once a # is) e (c # s) \<longleftrightarrow> atom_ok a c \<and> re_match is e s"
| "re_match (Many a # is) e [] \<longleftrightarrow> re_match is e []"
| "re_match (Many a # is) e (c # s) \<longleftrightarrow> re_match is e (c # s) \<or> atom_ok a c \<and> re_match (Many a # is) e s"

text \<open>\<open>regexec\<close> returns 0: the expression matches somewhere in the string, or at its begin.\<close>

definition regexec :: "regex \<Rightarrow> string \<Rightarrow> bool" where
  "regexec re s =
     (if re_begin re then re_match (re_items re) (re_end re) s
      else list_ex (re_match (re_items re) (re_end re)) (suffixes s))"

section \<open>Names\<close>

definition MAXDKNAM :: nat where "MAXDKNAM = 32"

text \<open>\<open>strncpy(px->name, s, maxlen-1)\<close> and the NUL behind it; both names have \<open>MAXDKNAM\<close> bytes.\<close>

definition put_name :: "string \<Rightarrow> nat \<Rightarrow> perdsk \<Rightarrow> perdsk" where
  "put_name s maxlen px = px\<lparr>pdk_name := (strncpy (pdk_name px) s (maxlen - 1))[maxlen - 1 := NUL]\<rparr>"

definition nullmodname :: "string \<Rightarrow> perdsk \<Rightarrow> nat \<Rightarrow> perdsk" where
  "nullmodname curname px maxlen = put_name curname maxlen px"

text \<open>
  The uninitialised local variables of \<open>abbrevname1\<close>: the first character of \<open>cutype\<close> and three numbers (the fourth is not
  used).
\<close>

record scsivars =
  cutype :: string
  hostnum :: i32
  busnum :: i32
  targetnum :: i32

text \<open>A first part of 128 or more characters does not fit into \<open>cutype\<close>.\<close>

definition abbrevname1 :: "scsivars \<Rightarrow> string \<Rightarrow> perdsk \<Rightarrow> nat \<Rightarrow> perdsk option" where
  "abbrevname1 junk curname px maxlen =
     (let vals = sscanf curname ''%[^/]/host%d/bus%d/target%d/lun%d'';
          v = assign [\<lambda>v x. x\<lparr>cutype := vstr v\<rparr>, \<lambda>v x. x\<lparr>hostnum := ucast (vnum v)\<rparr>, \<lambda>v x. x\<lparr>busnum := ucast (vnum v)\<rparr>,
                \<lambda>v x. x\<lparr>targetnum := ucast (vnum v)\<rparr>] vals junk
      in
      if 128 \<le> length (cutype v) then None
      else
        let c = (case cutype v of [] \<Rightarrow> NUL | c # _ \<Rightarrow> c);
            s = take (maxlen - 1) (c # ''-h'' @ decz (sint (hostnum v)) @ ''b'' @ decz (sint (busnum v)) @ ''t'' @ decz (sint (targetnum v)))
        in Some (px\<lparr>pdk_name := s @ [NUL] @ drop (length s + 1) (pdk_name px)\<rparr>))"

section \<open>Logical volumes\<close>

definition NUMDMHASH :: nat where "NUMDMHASH = 64"

definition DMHASH :: "u32 \<Rightarrow> u32 \<Rightarrow> nat" where
  "DMHASH x y = unat (x + y) mod NUMDMHASH"

record devmap =
  dm_major :: u32
  dm_minor :: u32
  dm_name :: chars

text \<open>
  The directory \<^verbatim>\<open>/dev/mapper\<close>: its entries, if it can be opened, each with the success of \<open>malloc\<close>; and \<open>stat\<close>, which
  tells of a path whether it is a block device and its numbers.
\<close>

record mapdir =
  md_entries :: "(string \<times> bool) list option"
  md_stat :: "string \<Rightarrow> (bool \<times> u32 \<times> u32) option"

text \<open>One entry of the directory goes to the front of its bucket.\<close>

definition dm_insert :: "mapdir \<Rightarrow> string \<times> bool \<Rightarrow> (nat \<Rightarrow> devmap list) \<Rightarrow> nat \<Rightarrow> devmap list" where
  "dm_insert md = (\<lambda>(d_name, malloc) devmaps.
     case md_stat md (take 63 (''/dev/mapper/'' @ d_name)) of
       None \<Rightarrow> devmaps
     | Some (isblk, major, minor) \<Rightarrow>
         if \<not> isblk \<or> \<not> malloc then devmaps
         else
           let dmp = \<lparr>dm_major = major, dm_minor = minor,
                      dm_name = (strncpy (replicate MAXDKNAM NUL) d_name MAXDKNAM)[MAXDKNAM - 1 := NUL]\<rparr>;
               h = DMHASH major minor
           in devmaps(h := dmp # devmaps h))"

text \<open>The static variables: \<open>None\<close> before the first call.\<close>

type_synonym lvmcache = "(nat \<Rightarrow> devmap list) option"

definition lvm_load :: "mapdir \<Rightarrow> lvmcache \<Rightarrow> nat \<Rightarrow> devmap list" where
  "lvm_load md cache =
     (case cache of
        Some devmaps \<Rightarrow> devmaps
      | None \<Rightarrow> (case md_entries md of None \<Rightarrow> (\<lambda>_. []) | Some es \<Rightarrow> fold (dm_insert md) es (\<lambda>_. [])))"

definition lvmmapname :: "mapdir \<Rightarrow> u32 \<Rightarrow> u32 \<Rightarrow> string \<Rightarrow> perdsk \<Rightarrow> nat \<Rightarrow> lvmcache \<Rightarrow> perdsk \<times> lvmcache" where
  "lvmmapname md major minor curname px maxlen cache =
     (let devmaps = lvm_load md cache in
      (case List.find (\<lambda>dmp. dm_major dmp = major \<and> dm_minor dmp = minor) (devmaps (DMHASH major minor)) of
         Some dmp \<Rightarrow> put_name (dm_name dmp) maxlen px
       | None \<Rightarrow> put_name curname maxlen px,
       Some devmaps))"

section \<open>The table of disks\<close>

datatype disktype = NONTYPE | DSKTYPE | MDDTYPE | LVMTYPE

datatype modname = Nullmod | Lvmmap | Abbrev1 | NoMod

definition validdisk :: "(string \<times> modname \<times> disktype) list" where
  "validdisk =
     [(''^ram[0-9][0-9]*$'', NoMod, NONTYPE),
      (''^loop[0-9][0-9]*$'', NoMod, NONTYPE),
      (''^sd[a-z][a-z]*$'', Nullmod, DSKTYPE),
      (''^dm-[0-9][0-9]*$'', Lvmmap, LVMTYPE),
      (''^md[0-9][0-9]*$'', Nullmod, MDDTYPE),
      (''^vd[a-z][a-z]*$'', Nullmod, DSKTYPE),
      (''^nvme[0-9][0-9]*n[0-9][0-9]*$'', Nullmod, DSKTYPE),
      (''^nbd[0-9][0-9]*$'', Nullmod, DSKTYPE),
      (''^hd[a-z]$'', Nullmod, DSKTYPE),
      (''^rd/c[0-9][0-9]*d[0-9][0-9]*$'', Nullmod, DSKTYPE),
      (''^cciss/c[0-9][0-9]*d[0-9][0-9]*$'', Nullmod, DSKTYPE),
      (''^fio[a-z][a-z]*$'', Nullmod, DSKTYPE),
      (''/host.*/bus.*/target.*/lun.*/disc'', Abbrev1, DSKTYPE),
      (''^xvd[a-z][a-z]*[0-9]*$'', Nullmod, DSKTYPE),
      (''^dasd[a-z][a-z]*$'', Nullmod, DSKTYPE),
      (''^mmcblk[0-9][0-9]*$'', Nullmod, DSKTYPE),
      (''^emcpower[a-z][a-z]*$'', Nullmod, DSKTYPE)]"

text \<open>What surrounds \<open>isdisk\<close>: the directory of logical volumes and the local variables of \<open>abbrevname1\<close>.\<close>

record diskenv =
  de_mapdir :: mapdir
  de_junk :: scsivars

definition isdisk :: "diskenv \<Rightarrow> u32 \<Rightarrow> u32 \<Rightarrow> string \<Rightarrow> perdsk \<Rightarrow> nat \<Rightarrow> lvmcache \<Rightarrow> (disktype \<times> perdsk \<times> lvmcache) option" where
  "isdisk e major minor curname px maxlen cache =
     (case List.find (\<lambda>(re, _). regexec (regcomp re) curname) validdisk of
        None \<Rightarrow> Some (NONTYPE, px, cache)
      | Some (_, m, retval) \<Rightarrow>
          (case m of
             NoMod \<Rightarrow> Some (retval, px, cache)
           | Nullmod \<Rightarrow> Some (retval, nullmodname curname px maxlen, cache)
           | Abbrev1 \<Rightarrow> map_option (\<lambda>px. (retval, px, cache)) (abbrevname1 (de_junk e) curname px maxlen)
           | Lvmmap \<Rightarrow>
               (case lvmmapname (de_mapdir e) major minor curname px maxlen cache of (px, cache) \<Rightarrow> Some (retval, px, cache))))"

section \<open>What the table recognises\<close>

abbreviation digit :: atom where "digit \<equiv> Range CHR ''0'' CHR ''9''"
abbreviation letter :: atom where "letter \<equiv> Range CHR ''a'' CHR ''z''"

primrec lits :: "string \<Rightarrow> item list" where
  "lits [] = []"
| "lits (c # s) = Once (Char1 c) # lits s"

lemma regcomps:
  "regcomp ''^ram[0-9][0-9]*$'' = \<lparr>re_begin = True, re_items = lits ''ram'' @ [Once digit, Many digit], re_end = True\<rparr>"
  "regcomp ''^loop[0-9][0-9]*$'' = \<lparr>re_begin = True, re_items = lits ''loop'' @ [Once digit, Many digit], re_end = True\<rparr>"
  "regcomp ''^sd[a-z][a-z]*$'' = \<lparr>re_begin = True, re_items = lits ''sd'' @ [Once letter, Many letter], re_end = True\<rparr>"
  "regcomp ''^dm-[0-9][0-9]*$'' = \<lparr>re_begin = True, re_items = lits ''dm-'' @ [Once digit, Many digit], re_end = True\<rparr>"
  "regcomp ''^md[0-9][0-9]*$'' = \<lparr>re_begin = True, re_items = lits ''md'' @ [Once digit, Many digit], re_end = True\<rparr>"
  "regcomp ''^vd[a-z][a-z]*$'' = \<lparr>re_begin = True, re_items = lits ''vd'' @ [Once letter, Many letter], re_end = True\<rparr>"
  "regcomp ''^nvme[0-9][0-9]*n[0-9][0-9]*$'' = \<lparr>re_begin = True, re_items = lits ''nvme'' @ [Once digit, Many digit] @ lits ''n'' @ [Once digit, Many digit], re_end = True\<rparr>"
  "regcomp ''^nbd[0-9][0-9]*$'' = \<lparr>re_begin = True, re_items = lits ''nbd'' @ [Once digit, Many digit], re_end = True\<rparr>"
  "regcomp ''^hd[a-z]$'' = \<lparr>re_begin = True, re_items = lits ''hd'' @ [Once letter], re_end = True\<rparr>"
  "regcomp ''^rd/c[0-9][0-9]*d[0-9][0-9]*$'' = \<lparr>re_begin = True, re_items = lits ''rd/c'' @ [Once digit, Many digit] @ lits ''d'' @ [Once digit, Many digit], re_end = True\<rparr>"
  "regcomp ''^cciss/c[0-9][0-9]*d[0-9][0-9]*$'' = \<lparr>re_begin = True, re_items = lits ''cciss/c'' @ [Once digit, Many digit] @ lits ''d'' @ [Once digit, Many digit], re_end = True\<rparr>"
  "regcomp ''^fio[a-z][a-z]*$'' = \<lparr>re_begin = True, re_items = lits ''fio'' @ [Once letter, Many letter], re_end = True\<rparr>"
  "regcomp ''/host.*/bus.*/target.*/lun.*/disc'' = \<lparr>re_begin = False, re_items = lits ''/host'' @ [Many Any1] @ lits ''/bus'' @ [Many Any1] @ lits ''/target'' @ [Many Any1] @ lits ''/lun'' @ [Many Any1] @ lits ''/disc'', re_end = False\<rparr>"
  "regcomp ''^xvd[a-z][a-z]*[0-9]*$'' = \<lparr>re_begin = True, re_items = lits ''xvd'' @ [Once letter, Many letter] @ [Many digit], re_end = True\<rparr>"
  "regcomp ''^dasd[a-z][a-z]*$'' = \<lparr>re_begin = True, re_items = lits ''dasd'' @ [Once letter, Many letter], re_end = True\<rparr>"
  "regcomp ''^mmcblk[0-9][0-9]*$'' = \<lparr>re_begin = True, re_items = lits ''mmcblk'' @ [Once digit, Many digit], re_end = True\<rparr>"
  "regcomp ''^emcpower[a-z][a-z]*$'' = \<lparr>re_begin = True, re_items = lits ''emcpower'' @ [Once letter, Many letter], re_end = True\<rparr>"
  by code_simp+

lemma re_match_all: "re_match [Many a] True s \<longleftrightarrow> list_all (atom_ok a) s"
  by (induction s) auto

lemma re_match_some: "re_match [Once a, Many a] True s \<longleftrightarrow> s \<noteq> [] \<and> list_all (atom_ok a) s"
  by (cases s) (simp_all add: re_match_all)

text \<open>Past a run of characters that the next item does not accept, there is only one way to match.\<close>

lemma re_match_run:
  assumes "list_all (atom_ok a) w" "s = [] \<or> \<not> atom_ok a (hd s)" "\<forall>c. atom_ok a c \<longrightarrow> \<not> atom_ok b c"
  shows "re_match (Many a # Once b # is) e (w @ s) \<longleftrightarrow> re_match (Once b # is) e s"
  using assms by (induction w) (cases s; auto)+

lemma re_match_lit_absent: "c \<notin> set s \<Longrightarrow> \<not> re_match (Once (Char1 c) # is) e s"
  by (cases s) auto

lemma regexec_anchored [simp]:
  "regexec \<lparr>re_begin = True, re_items = is, re_end = e\<rparr> s = re_match is e s"
  by (simp add: regexec_def)

lemma regexec_no_slash:
  assumes "CHR ''/'' \<notin> set s"
  shows "\<not> regexec \<lparr>re_begin = False, re_items = Once (Char1 CHR ''/'') # is, re_end = e\<rparr> s"
proof -
  have "\<not> re_match (Once (Char1 CHR ''/'') # is) e t" if "suffix t s" for t
    using assms set_mono_suffix [OF that] by (intro re_match_lit_absent) auto
  then show ?thesis by (auto simp: regexec_def list_ex_iff)
qed

definition kind_of_disk :: "string \<Rightarrow> (modname \<times> disktype) option" where
  "kind_of_disk s = map_option snd (List.find (\<lambda>(re, _). regexec (regcomp re) s) validdisk)"

lemma isdisk_kind:
  "isdisk e major minor curname px maxlen cache =
     (case kind_of_disk curname of
        None \<Rightarrow> Some (NONTYPE, px, cache)
      | Some (NoMod, retval) \<Rightarrow> Some (retval, px, cache)
      | Some (Nullmod, retval) \<Rightarrow> Some (retval, nullmodname curname px maxlen, cache)
      | Some (Abbrev1, retval) \<Rightarrow> map_option (\<lambda>px. (retval, px, cache)) (abbrevname1 (de_junk e) curname px maxlen)
      | Some (Lvmmap, retval) \<Rightarrow>
          (case lvmmapname (de_mapdir e) major minor curname px maxlen cache of (px, cache) \<Rightarrow> Some (retval, px, cache)))"
  by (auto simp: isdisk_def kind_of_disk_def split: option.split modname.split)

abbreviation digits :: "string \<Rightarrow> bool" where "digits s \<equiv> s \<noteq> [] \<and> list_all (atom_ok digit) s"
abbreviation letters :: "string \<Rightarrow> bool" where "letters s \<equiv> s \<noteq> [] \<and> list_all (atom_ok letter) s"

lemma digits_no_letters: "digits d \<Longrightarrow> \<not> list_all (atom_ok letter) d"
  by (cases d) auto

lemma no_slash: "list_all (atom_ok digit) w \<Longrightarrow> CHR ''/'' \<notin> set w" "list_all (atom_ok letter) w \<Longrightarrow> CHR ''/'' \<notin> set w"
  by (auto simp: list_all_iff)

lemma re_match_digits:
  assumes "digits w" "s = [] \<or> \<not> atom_ok digit (hd s)" "\<not> atom_ok digit b"
  shows "re_match (Once digit # Many digit # Once (Char1 b) # is) e (w @ s) \<longleftrightarrow> re_match (Once (Char1 b) # is) e s"
proof -
  obtain c w' where w: "w = c # w'" "atom_ok digit c" "list_all (atom_ok digit) w'" using assms(1) by (cases w) auto
  have "re_match (Many digit # Once (Char1 b) # is) e (w' @ s) \<longleftrightarrow> re_match (Once (Char1 b) # is) e s"
    using w(3) assms(2,3) by (intro re_match_run) auto
  then show ?thesis using w(1,2) by simp
qed

lemmas kind_simps = kind_of_disk_def validdisk_def regcomps regexec_no_slash no_slash re_match_some re_match_all
  digits_no_letters

lemma kind_whole:
  assumes "letters w" "digits d" "digits d'"
  shows "kind_of_disk (''sd'' @ w) = Some (Nullmod, DSKTYPE)" "kind_of_disk (''vd'' @ w) = Some (Nullmod, DSKTYPE)"
    "kind_of_disk (''nvme'' @ d @ ''n'' @ d') = Some (Nullmod, DSKTYPE)"
    "kind_of_disk (''mmcblk'' @ d) = Some (Nullmod, DSKTYPE)" "kind_of_disk (''md'' @ d) = Some (Nullmod, MDDTYPE)"
    "kind_of_disk (''dm-'' @ d) = Some (Lvmmap, LVMTYPE)"
  using assms re_match_digits [of d "''n'' @ d'" "CHR ''n''" "[Once digit, Many digit]" True] by (simp_all add: kind_simps)

lemma kind_partition:
  assumes "letters w" "digits d" "digits d'" "digits d''"
  shows "kind_of_disk (''sd'' @ w @ d) = None" "kind_of_disk (''vd'' @ w @ d) = None"
    "kind_of_disk (''nvme'' @ d @ ''n'' @ d' @ ''p'' @ d'') = None" "kind_of_disk (''mmcblk'' @ d @ ''p'' @ d') = None"
  using assms re_match_digits [of d "''n'' @ d' @ ''p'' @ d''" "CHR ''n''" "[Once digit, Many digit]" True] by (simp_all add: kind_simps)

lemma re_match_skip: "list_all (atom_ok a) w \<Longrightarrow> re_match is e s \<Longrightarrow> re_match (Many a # is) e (w @ s)"
proof (induction w)
  case Nil
  then show ?case by (cases s) auto
qed simp

lemma kind_xvd:
  assumes "letters w" "list_all (atom_ok digit) d"
  shows "kind_of_disk (''xvd'' @ w @ d) = Some (Nullmod, DSKTYPE)"
proof -
  obtain c w' where w: "w = c # w'" "atom_ok letter c" "list_all (atom_ok letter) w'" using assms(1) by (cases w) auto
  have "re_match [Once letter, Many letter, Many digit] True (w @ d)"
    using w assms(2) re_match_skip [OF w(3), of "[Many digit]" True d] by (simp add: re_match_all)
  then show ?thesis using assms by (simp add: kind_simps)
qed

section \<open>The kind of a device from its name\<close>

text \<open>
  What the table means, without regular expressions: a name is a stem followed by letters or digits, or a stem, a number, a letter and
  a number.  The names of whole Xen disks and of their partitions are not told apart.
\<close>

definition named :: "string \<Rightarrow> atom \<Rightarrow> string \<Rightarrow> bool" where
  "named stem a s \<longleftrightarrow> prefix stem s \<and> drop (length stem) s \<noteq> [] \<and> list_all (atom_ok a) (drop (length stem) s)"

definition numbered :: "string \<Rightarrow> char \<Rightarrow> string \<Rightarrow> bool" where
  "numbered stem c s \<longleftrightarrow> prefix stem s \<and>
     (let r = drop (length stem) s; t = dropWhile (atom_ok digit) r
      in takeWhile (atom_ok digit) r \<noteq> [] \<and> prefix [c] t \<and> tl t \<noteq> [] \<and> list_all (atom_ok digit) (tl t))"

definition whole_disk :: "string \<Rightarrow> bool" where
  "whole_disk s \<longleftrightarrow> named ''sd'' letter s \<or> named ''vd'' letter s \<or> named ''fio'' letter s \<or> named ''dasd'' letter s \<or>
     named ''emcpower'' letter s \<or> (named ''hd'' letter s \<and> length s = 3) \<or> named ''nbd'' digit s \<or> named ''mmcblk'' digit s \<or>
     numbered ''nvme'' CHR ''n'' s \<or> numbered ''rd/c'' CHR ''d'' s \<or> numbered ''cciss/c'' CHR ''d'' s"

definition xen_disk :: "string \<Rightarrow> bool" where
  "xen_disk s \<longleftrightarrow> prefix ''xvd'' s \<and> takeWhile (atom_ok letter) (drop 3 s) \<noteq> [] \<and>
     list_all (atom_ok digit) (dropWhile (atom_ok letter) (drop 3 s))"

definition device_type :: "string \<Rightarrow> disktype" where
  "device_type s =
     (if whole_disk s \<or> xen_disk s then DSKTYPE
      else if named ''md'' digit s then MDDTYPE
      else if named ''dm-'' digit s then LVMTYPE
      else NONTYPE)"

text \<open>The names of the old device file system, which are shortened.\<close>

definition devfs_name :: "string \<Rightarrow> bool" where
  "devfs_name s \<longleftrightarrow> list_ex (prefix ''/host'') (suffixes s)"

lemma re_match_lits: "re_match (lits stem @ is) e s \<longleftrightarrow> prefix stem s \<and> re_match is e (drop (length stem) s)"
proof (induction stem arbitrary: s)
  case (Cons c stem)
  then show ?case by (cases s) auto
qed simp

lemma re_match_named:
  "re_match (lits stem @ [Once a, Many a]) True s \<longleftrightarrow> named stem a s"
  by (simp add: re_match_lits re_match_some named_def)

lemma re_match_two:
  assumes "\<forall>c. atom_ok a c \<longrightarrow> \<not> atom_ok b c"
  shows "re_match [Many a, Many b] True s \<longleftrightarrow> list_all (atom_ok b) (dropWhile (atom_ok a) s)"
proof (induction s)
  case (Cons c s)
  have "\<not> re_match [Many b] True (c # s)" if "atom_ok a c" using that assms by (simp add: re_match_all)
  then show ?case using Cons by (auto simp: re_match_all)
qed simp

lemma re_match_number:
  assumes "\<not> atom_ok digit c"
  shows "re_match (Once digit # Many digit # Once (Char1 c) # [Once digit, Many digit]) True s \<longleftrightarrow>
    (let t = dropWhile (atom_ok digit) s
     in takeWhile (atom_ok digit) s \<noteq> [] \<and> prefix [c] t \<and> tl t \<noteq> [] \<and> list_all (atom_ok digit) (tl t))"
proof (cases "takeWhile (atom_ok digit) s = []")
  case True
  then show ?thesis by (cases s) (auto split: if_splits)
next
  case False
  define w where "w = takeWhile (atom_ok digit) s"
  define t where "t = dropWhile (atom_ok digit) s"
  have s: "s = w @ t" by (simp add: w_def t_def)
  have w: "digits w" using False by (auto simp: w_def list_all_iff dest: set_takeWhileD)
  have t: "t = [] \<or> \<not> atom_ok digit (hd t)" unfolding t_def by (metis hd_dropWhile)
  have "re_match (Once digit # Many digit # Once (Char1 c) # [Once digit, Many digit]) True s \<longleftrightarrow>
      re_match (Once (Char1 c) # [Once digit, Many digit]) True t"
    unfolding s using w t assms by (rule re_match_digits)
  also have "\<dots> \<longleftrightarrow> prefix [c] t \<and> tl t \<noteq> [] \<and> list_all (atom_ok digit) (tl t)"
    by (cases t) (auto simp: re_match_some)
  finally show ?thesis using False by (simp add: Let_def flip: w_def t_def)
qed

lemma re_match_numbered:
  assumes "\<not> atom_ok digit c"
  shows "re_match (lits stem @ [Once digit, Many digit] @ lits [c] @ [Once digit, Many digit]) True s \<longleftrightarrow> numbered stem c s"
  using re_match_number [OF assms, of "drop (length stem) s"] by (simp add: re_match_lits numbered_def Let_def)

lemma re_match_hd: "re_match (lits ''hd'' @ [Once letter]) True s \<longleftrightarrow> named ''hd'' letter s \<and> length s = 3"
proof (cases "prefix ''hd'' s")
  case True
  then obtain t where s: "s = ''hd'' @ t" by (rule prefixE)
  have "re_match [Once letter] True t \<longleftrightarrow> t \<noteq> [] \<and> list_all (atom_ok letter) t \<and> length t = 1"
    by (cases t) auto
  then show ?thesis by (auto simp: s named_def)
next
  case False
  then show ?thesis using re_match_lits [of "''hd''" "[Once letter]" True s] by (simp add: named_def del: lits.simps)
qed

lemma re_match_xvd: "re_match (lits ''xvd'' @ [Once letter, Many letter] @ [Many digit]) True s \<longleftrightarrow> xen_disk s"
proof -
  have "\<forall>c. atom_ok letter c \<longrightarrow> \<not> atom_ok digit c" by auto
  note two = re_match_two [OF this]
  have "re_match [Once letter, Many letter, Many digit] True t \<longleftrightarrow>
      takeWhile (atom_ok letter) t \<noteq> [] \<and> list_all (atom_ok digit) (dropWhile (atom_ok letter) t)" for t
    by (cases t) (auto simp: two)
  then show ?thesis unfolding re_match_lits xen_disk_def by (simp add: numeral_3_eq_3)
qed

lemma regexec_devfs:
  assumes "\<not> devfs_name s"
  shows "\<not> regexec \<lparr>re_begin = False, re_items = lits ''/host'' @ is, re_end = e\<rparr> s"
  using assms by (simp add: regexec_def devfs_name_def re_match_lits list_ex_iff del: lits.simps)

text \<open>The stems exclude each other.\<close>

lemma stems_apart:
  "named ''md'' digit s \<Longrightarrow> \<not> whole_disk s \<and> \<not> xen_disk s" "named ''dm-'' digit s \<Longrightarrow> \<not> whole_disk s \<and> \<not> xen_disk s"
  "named ''md'' digit s \<Longrightarrow> \<not> named ''dm-'' digit s"
  "named ''ram'' digit s \<Longrightarrow> device_type s = NONTYPE" "named ''loop'' digit s \<Longrightarrow> device_type s = NONTYPE"
  by (auto simp: named_def numbered_def whole_disk_def xen_disk_def device_type_def prefix_def)

lemma device_type_kind:
  assumes "\<not> devfs_name s"
  shows "device_type s = (case kind_of_disk s of None \<Rightarrow> NONTYPE | Some (_, ty) \<Rightarrow> ty)" "kind_of_disk s \<noteq> Some (Abbrev1, ty)"
proof -
  have apart: "\<not> atom_ok digit CHR ''n''" "\<not> atom_ok digit CHR ''d''" by simp_all
  note matches = re_match_named re_match_hd re_match_xvd re_match_numbered [OF apart(1)] re_match_numbered [OF apart(2)]
  note table = kind_of_disk_def validdisk_def regcomps regexec_anchored matches regexec_devfs [OF assms]
  have "kind_of_disk s = map_option snd (List.find (\<lambda>(p, _). p)
     [(named ''ram'' digit s, NoMod, NONTYPE), (named ''loop'' digit s, NoMod, NONTYPE), (named ''sd'' letter s, Nullmod, DSKTYPE),
      (named ''dm-'' digit s, Lvmmap, LVMTYPE), (named ''md'' digit s, Nullmod, MDDTYPE), (named ''vd'' letter s, Nullmod, DSKTYPE),
      (numbered ''nvme'' CHR ''n'' s, Nullmod, DSKTYPE), (named ''nbd'' digit s, Nullmod, DSKTYPE),
      (named ''hd'' letter s \<and> length s = 3, Nullmod, DSKTYPE), (numbered ''rd/c'' CHR ''d'' s, Nullmod, DSKTYPE),
      (numbered ''cciss/c'' CHR ''d'' s, Nullmod, DSKTYPE), (named ''fio'' letter s, Nullmod, DSKTYPE), (False, Abbrev1, DSKTYPE),
      (xen_disk s, Nullmod, DSKTYPE), (named ''dasd'' letter s, Nullmod, DSKTYPE), (named ''mmcblk'' digit s, Nullmod, DSKTYPE),
      (named ''emcpower'' letter s, Nullmod, DSKTYPE)])" (is "_ = map_option snd ?f")
    unfolding kind_of_disk_def validdisk_def List.find.simps case_prod_conv regcomps regexec_anchored matches by (simp add: regexec_devfs [OF assms] del: lits.simps)
  moreover have "(case map_option snd ?f of None \<Rightarrow> NONTYPE | Some (_, ty) \<Rightarrow> ty) = device_type s \<and> map_option snd ?f \<noteq> Some (Abbrev1, ty)"
  proof (cases "named ''ram'' digit s \<or> named ''loop'' digit s \<or> named ''md'' digit s \<or> named ''dm-'' digit s")
    case True
    then show ?thesis using stems_apart [of s] by (auto simp: device_type_def whole_disk_def)
  next
    case False
    then show ?thesis by (simp add: device_type_def whole_disk_def)
  qed
  ultimately show "device_type s = (case kind_of_disk s of None \<Rightarrow> NONTYPE | Some (_, ty) \<Rightarrow> ty)" "kind_of_disk s \<noteq> Some (Abbrev1, ty)"
    by simp_all
qed

section \<open>The names that are stored\<close>

lemma cstr_put_name:
  assumes "0 < maxlen" "maxlen \<le> length (pdk_name px)"
  shows "cstr (pdk_name (put_name s maxlen px)) = take (maxlen - 1) (cstr s)"
proof -
  define t where "t = take (maxlen - 1) (cstr s)"
  obtain k where k: "maxlen = Suc k" using assms(1) by (cases maxlen) auto
  have d: "drop k (pdk_name px) = pdk_name px ! k # drop (Suc k) (pdk_name px)"
    using assms(2) k by (intro Cons_nth_drop_Suc [symmetric]) simp
  have t: "length t \<le> k" "NUL \<notin> set t"
    using cstr_no_NUL [of s] by (auto simp: t_def k dest: in_set_takeD)
  have "(t @ replicate (k - length t) NUL @ drop k (pdk_name px))[k := NUL] =
      t @ replicate (k - length t) NUL @ NUL # drop (Suc k) (pdk_name px)"
    using t by (simp add: d list_update_append)
  moreover have "replicate (k - length t) NUL @ NUL # r = NUL # replicate (k - length t) NUL @ r" for r
    by (metis append.assoc append_Cons append_Nil replicate_append_same)
  ultimately have "pdk_name (put_name s maxlen px) = t @ NUL # replicate (k - length t) NUL @ drop (Suc k) (pdk_name px)"
    by (simp add: put_name_def strncpy_def t_def k)
  then show ?thesis using t(2) unfolding t_def by simp
qed

text \<open>
  C18: On names of the usual kinds of disks, \<open>isdisk\<close> tells the disk from its partitions: SCSI, virtio, NVMe and MMC disks are
  recognised and get their name (cut to \<open>maxlen - 1\<close> characters), a partition of one of them is not a disk and leaves the entry
  alone.
\<close>

theorem isdisk_partitions:
  assumes "letters w" "digits d" "digits d'" "digits d''" "0 < maxlen" "maxlen \<le> length (pdk_name px)"
  shows "(\<forall>name \<in> {''sd'' @ w, ''vd'' @ w, ''nvme'' @ d @ ''n'' @ d', ''mmcblk'' @ d}.
            \<exists>px'. isdisk e major minor name px maxlen cache = Some (DSKTYPE, px', cache) \<and>
                  cstr (pdk_name px') = take (maxlen - 1) (cstr name)) \<and>
         (\<forall>name \<in> {''sd'' @ w @ d, ''vd'' @ w @ d, ''nvme'' @ d @ ''n'' @ d' @ ''p'' @ d'', ''mmcblk'' @ d @ ''p'' @ d'}.
            isdisk e major minor name px maxlen cache = Some (NONTYPE, px, cache))"
proof -
  have "isdisk e major minor name px maxlen cache = Some (DSKTYPE, put_name name maxlen px, cache)"
    if "name \<in> {''sd'' @ w, ''vd'' @ w, ''nvme'' @ d @ ''n'' @ d', ''mmcblk'' @ d}" for name
    using that kind_whole [OF assms(1,2,3)] unfolding isdisk_kind nullmodname_def by (elim insertE) simp_all
  moreover have "isdisk e major minor name px maxlen cache = Some (NONTYPE, px, cache)"
    if "name \<in> {''sd'' @ w @ d, ''vd'' @ w @ d, ''nvme'' @ d @ ''n'' @ d' @ ''p'' @ d'', ''mmcblk'' @ d @ ''p'' @ d'}" for name
    using that kind_partition [OF assms(1-4)] unfolding isdisk_kind by (elim insertE) simp_all
  ultimately show ?thesis using cstr_put_name [OF assms(5,6)] by blast
qed

text \<open>A partition of a Xen disk is counted as a disk of its own.\<close>

lemma isdisk_xvd:
  assumes "letters w" "digits d"
  shows "isdisk e major minor (''xvd'' @ w @ d) px maxlen cache =
    Some (DSKTYPE, nullmodname (''xvd'' @ w @ d) px maxlen, cache)"
  using kind_xvd [of w d] assms unfolding isdisk_kind by simp

section \<open>Logical volumes\<close>

text \<open>What an entry of the directory contributes.\<close>

definition dm_of :: "mapdir \<Rightarrow> string \<times> bool \<Rightarrow> devmap option" where
  "dm_of md = (\<lambda>(d_name, malloc).
     case md_stat md (take 63 (''/dev/mapper/'' @ d_name)) of
       Some (True, major, minor) \<Rightarrow>
         if malloc then Some \<lparr>dm_major = major, dm_minor = minor,
           dm_name = (strncpy (replicate MAXDKNAM NUL) d_name MAXDKNAM)[MAXDKNAM - 1 := NUL]\<rparr> else None
     | _ \<Rightarrow> None)"

definition dm_all :: "mapdir \<Rightarrow> devmap list" where
  "dm_all md = (case md_entries md of None \<Rightarrow> [] | Some es \<Rightarrow> List.map_filter (dm_of md) es)"

definition dm_hash :: "devmap \<Rightarrow> nat" where
  "dm_hash dmp = DMHASH (dm_major dmp) (dm_minor dmp)"

lemma dm_insert_of:
  "dm_insert md en devmaps =
     (case dm_of md en of None \<Rightarrow> devmaps | Some dmp \<Rightarrow> devmaps(dm_hash dmp := dmp # devmaps (dm_hash dmp)))"
  by (auto simp: dm_insert_def dm_of_def dm_hash_def Let_def split: option.split prod.split bool.split)

lemma fold_dm_insert:
  "fold (dm_insert md) es devmaps h = rev (filter (\<lambda>dmp. dm_hash dmp = h) (List.map_filter (dm_of md) es)) @ devmaps h"
  by (induction es arbitrary: devmaps) (auto simp: dm_insert_of map_filter_simps split: option.split)

lemma find_in_bucket: "(\<And>x. P x \<Longrightarrow> Q x) \<Longrightarrow> List.find P (filter Q xs) = List.find P xs"
  by (induction xs) auto

lemma lvmmapname_find:
  assumes "cache \<in> {None, Some (lvm_load md None)}"
  shows "lvmmapname md major minor curname px maxlen cache =
    (put_name (case List.find (\<lambda>dmp. dm_major dmp = major \<and> dm_minor dmp = minor) (rev (dm_all md)) of
                 None \<Rightarrow> curname | Some dmp \<Rightarrow> dm_name dmp) maxlen px,
     Some (lvm_load md None))"
proof -
  let ?P = "\<lambda>dmp. dm_major dmp = major \<and> dm_minor dmp = minor"
  have "lvm_load md None (DMHASH major minor) = filter (\<lambda>dmp. dm_hash dmp = DMHASH major minor) (rev (dm_all md))"
    by (simp add: lvm_load_def dm_all_def fold_dm_insert rev_filter split: option.split)
  moreover have "?P dmp \<Longrightarrow> dm_hash dmp = DMHASH major minor" for dmp
    by (simp add: dm_hash_def)
  ultimately have "List.find ?P (lvm_load md None (DMHASH major minor)) = List.find ?P (rev (dm_all md))"
    by (simp only: find_in_bucket)
  moreover have "lvm_load md cache = lvm_load md None" using assms by (auto simp: lvm_load_def)
  ultimately show ?thesis
    by (simp add: lvmmapname_def Let_def split: option.split)
qed

text \<open>
  C15: The name of a logical volume: on the first call and on every later one, whatever the buckets of the hash table hold,
  \<open>lvmmapname\<close> stores the name of the block device with these numbers in \<^verbatim>\<open>/dev/mapper\<close> that was read last, and the name from
  the kernel if there is none.
\<close>

theorem lvmmapname_lookup:
  assumes "cache \<in> {None, Some (lvm_load md None)}"
  shows "lvmmapname md major minor curname px maxlen cache =
    (put_name (case List.find (\<lambda>dmp. dm_major dmp = major \<and> dm_minor dmp = minor) (rev (dm_all md)) of
                 None \<Rightarrow> curname | Some dmp \<Rightarrow> dm_name dmp) maxlen px,
     Some (lvm_load md None))"
  using assms by (rule lvmmapname_find)

text \<open>The volumes of the example: two names for the device 253:0 and one for 252:1, in the same bucket.\<close>

definition mapdir_ex :: mapdir where
  "mapdir_ex = \<lparr>md_entries = Some [(''root'', True), (''control'', True), (''vg-root'', True), (''swap'', True)],
     md_stat = (\<lambda>path. if path = ''/dev/mapper/root'' \<or> path = ''/dev/mapper/vg-root'' then Some (True, 253, 0)
        else if path = ''/dev/mapper/control'' then Some (False, 10, 236)
        else if path = ''/dev/mapper/swap'' then Some (True, 252, 1) else None)\<rparr>"

definition diskenv_ex :: diskenv where
  "diskenv_ex = \<lparr>de_mapdir = mapdir_ex, de_junk = \<lparr>cutype = [], hostnum = 0, busnum = 0, targetnum = 0\<rparr>\<rparr>"

theorem lvmmapname_lookup_witness:
  "cstr (pdk_name (fst (lvmmapname mapdir_ex 253 0 ''dm-0'' perdsk0 MAXDKNAM None))) = ''vg-root''"
proof -
  have "None \<in> {None, Some (lvm_load mapdir_ex None)}" by simp
  note lvmmapname_lookup [OF this, of 253 0 "''dm-0''" perdsk0 MAXDKNAM]
  moreover have "cstr (pdk_name (put_name (case List.find (\<lambda>dmp. dm_major dmp = 253 \<and> dm_minor dmp = 0) (rev (dm_all mapdir_ex)) of
      None \<Rightarrow> ''dm-0'' | Some dmp \<Rightarrow> dm_name dmp) MAXDKNAM perdsk0)) = ''vg-root''"
    by code_simp
  ultimately show ?thesis by (simp only: fst_conv)
qed

theorem isdisk_partitions_witness:
  "(\<exists>px'. isdisk diskenv_ex 8 0 ''sda'' perdsk0 MAXDKNAM None = Some (DSKTYPE, px', None) \<and> cstr (pdk_name px') = ''sda'') \<and>
   isdisk diskenv_ex 8 1 ''sda1'' perdsk0 MAXDKNAM None = Some (NONTYPE, perdsk0, None)"
proof -
  have "letters ''a''" "digits ''1''" "(0::nat) < MAXDKNAM" "MAXDKNAM \<le> length (pdk_name perdsk0)"
    by (simp_all add: perdsk0_def MAXDKNAM_def)
  note t = isdisk_partitions [OF this(1,2,2,2,3,4)]
  show ?thesis
    using t [of diskenv_ex 8 0 None] t [of diskenv_ex 8 1 None] by (simp add: MAXDKNAM_def)
qed

end
