(* ===== verification/Sys_Disk.thy ===== *)
theory Sys_Disk
  imports Sys_Lines Disk_Names
begin

text \<open>
  The disk statistics of \<open>photosyst\<close> (\<^verbatim>\<open>src/Qt/FakeAtop/photosyst.c\<close>): \<^verbatim>\<open>/proc/partitions\<close> of old kernels and
  \<^verbatim>\<open>/proc/diskstats\<close>.  The tables of \<open>dskstat\<close> are filled with the disks, the multiple devices and the logical volumes, and closed
  by an entry with an empty name.
\<close>

section \<open>The operations\<close>

definition MAXDSK :: nat where "MAXDSK = 1024"
definition MAXMDD :: nat where "MAXMDD = 256"
definition MAXLVM :: nat where "MAXLVM = 2048"

text \<open>\<open>name[0] = '\0'\<close> of one entry of a table.\<close>

definition end_table :: "nat \<Rightarrow> perdsk list \<Rightarrow> perdsk list option" where
  "end_table i t = (if i < length t then Some (t[i := (t ! i)\<lparr>pdk_name := cclear (pdk_name (t ! i))\<rparr>]) else None)"

text \<open>The counters of a disk, in the order in which a line has them.\<close>

definition disk_vars :: "(scanval \<Rightarrow> perdsk \<Rightarrow> perdsk) list" where
  "disk_vars = [\<lambda>v x. x\<lparr>pdk_nread := vnum v\<rparr>, \<lambda>v x. x\<lparr>pdk_nrsect := vnum v\<rparr>, \<lambda>v x. x\<lparr>pdk_nwrite := vnum v\<rparr>,
     \<lambda>v x. x\<lparr>pdk_nwsect := vnum v\<rparr>, \<lambda>v x. x\<lparr>pdk_io_ms := vnum v\<rparr>, \<lambda>v x. x\<lparr>pdk_avque := vnum v\<rparr>]"

text \<open>
  A line of \<^verbatim>\<open>partitions\<close> is scanned into the next entry of the table itself.  The state: \<open>i\<close>, the table, the cache of the logical
  volumes.
\<close>

definition partitions_line :: "diskenv \<Rightarrow> string \<Rightarrow> nat \<times> perdsk list \<times> lvmcache \<Rightarrow> (bool \<times> nat \<times> perdsk list \<times> lvmcache) option" where
  "partitions_line e line = (\<lambda>(i, dsk, cache).
     if length dsk \<le> i then None
     else
       let vals = sscanf line ''%*d %*d %*d %255s %lld %*d %lld %*d %lld %*d %lld %*d %*d %lld %lld'';
           px = assign ((\<lambda>v x. x) # disk_vars) vals (dsk ! i)
       in
       if length vals \<noteq> 7 then Some (False, i, dsk[i := px], cache)
       else
         case isdisk e 0 0 (vstr (vals ! 0)) px MAXDKNAM cache of
           None \<Rightarrow> None
         | Some (ty, px, cache) \<Rightarrow>
             if ty \<noteq> DSKTYPE then Some (False, i, dsk[i := px], cache)
             else Some (MAXDSK - 1 \<le> i + 1, i + 1, dsk[i := px], cache))"

text \<open>The static variable \<open>part_stats\<close> is returned.\<close>

definition partitions :: "diskenv \<Rightarrow> string option \<Rightarrow> bool \<Rightarrow> lvmcache \<Rightarrow> dskstat \<Rightarrow> (bool \<times> lvmcache \<times> dskstat) option" where
  "partitions e contents part_stats cache d =
     (case contents of
        None \<Rightarrow> Some (part_stats, cache, d)
      | Some txt \<Rightarrow>
          if \<not> part_stats then Some (part_stats, cache, d)
          else
            do {
              (i, dsk, cache) \<leftarrow> each_line (partitions_line e) txt (0, dks_dsk d, cache);
              dsk \<leftarrow> end_table i dsk;
              Some (i \<noteq> 0, cache, d\<lparr>dks_dsk := dsk, dks_ndsk := of_nat i\<rparr>)
            })"

text \<open>The local variables of the loop over \<^verbatim>\<open>diskstats\<close>.\<close>

record diskvars =
  dv_major :: u32
  dv_minor :: u32
  dv_diskname :: string
  dv_tmpdsk :: perdsk

definition diskstats_vars :: "(scanval \<Rightarrow> diskvars \<Rightarrow> diskvars) list" where
  "diskstats_vars = [\<lambda>v x. x\<lparr>dv_major := ucast (vnum v)\<rparr>, \<lambda>v x. x\<lparr>dv_minor := ucast (vnum v)\<rparr>, \<lambda>v x. x\<lparr>dv_diskname := vstr v\<rparr>] @
     map (\<lambda>f v x. x\<lparr>dv_tmpdsk := f v (dv_tmpdsk x)\<rparr>) disk_vars"

text \<open>What a line is, and the variables afterwards; an incomplete line is no disk.\<close>

definition diskstats_scan :: "diskenv \<Rightarrow> string \<Rightarrow> diskvars \<times> lvmcache \<Rightarrow> (disktype \<times> diskvars \<times> lvmcache) option" where
  "diskstats_scan e line = (\<lambda>(dv, cache).
     let vals = sscanf line ''%d %d %255s %lld %*d %lld %*d %lld %*d %lld %*d %*d %lld %lld'';
         dv = assign diskstats_vars vals dv
     in
     if length vals \<noteq> 9 then Some (NONTYPE, dv, cache)
     else
       case isdisk e (dv_major dv) (dv_minor dv) (dv_diskname dv) (dv_tmpdsk dv) MAXDKNAM cache of
         None \<Rightarrow> None
       | Some (ty, px, cache) \<Rightarrow> Some (ty, dv\<lparr>dv_tmpdsk := px\<rparr>, cache))"

text \<open>\<open>table[n++] = tmpdsk\<close> if there is room for it and the terminator.\<close>

definition add_disk :: "nat \<Rightarrow> perdsk \<Rightarrow> i32 \<times> perdsk list \<Rightarrow> i32 \<times> perdsk list" where
  "add_disk maxn px = (\<lambda>(n, t). if n <s of_nat (maxn - 1) then (n + 1, t[unat n := px]) else (n, t))"

definition diskstats_store :: "disktype \<Rightarrow> perdsk \<Rightarrow> dskstat \<Rightarrow> dskstat" where
  "diskstats_store ty px d =
     (case ty of
        NONTYPE \<Rightarrow> d
      | DSKTYPE \<Rightarrow> (case add_disk MAXDSK px (dks_ndsk d, dks_dsk d) of (n, t) \<Rightarrow> d\<lparr>dks_ndsk := n, dks_dsk := t\<rparr>)
      | MDDTYPE \<Rightarrow> (case add_disk MAXMDD px (dks_nmdd d, dks_mdd d) of (n, t) \<Rightarrow> d\<lparr>dks_nmdd := n, dks_mdd := t\<rparr>)
      | LVMTYPE \<Rightarrow> (case add_disk MAXLVM px (dks_nlvm d, dks_lvm d) of (n, t) \<Rightarrow> d\<lparr>dks_nlvm := n, dks_lvm := t\<rparr>))"

definition diskstats_line :: "diskenv \<Rightarrow> string \<Rightarrow> (diskvars \<times> lvmcache) \<times> dskstat \<Rightarrow> ((diskvars \<times> lvmcache) \<times> dskstat) option" where
  "diskstats_line e line = (\<lambda>(s, d).
     case diskstats_scan e line s of
       None \<Rightarrow> None
     | Some (ty, dv, cache) \<Rightarrow> Some ((dv, cache), diskstats_store ty (dv_tmpdsk dv) d))"

text \<open>\<open>junk\<close> are the variables before the first line.\<close>

definition diskstats :: "diskenv \<Rightarrow> string option \<Rightarrow> diskvars \<Rightarrow> lvmcache \<Rightarrow> dskstat \<Rightarrow> (lvmcache \<times> dskstat) option" where
  "diskstats e contents junk cache d =
     (case contents of
        None \<Rightarrow> Some (cache, d)
      | Some txt \<Rightarrow>
          do {
            ((_, cache), d) \<leftarrow> each_line (go_on (diskstats_line e)) txt ((junk, cache), d\<lparr>dks_ndsk := 0, dks_nmdd := 0, dks_nlvm := 0\<rparr>);
            dsk \<leftarrow> end_table (unat (dks_ndsk d)) (dks_dsk d);
            mdd \<leftarrow> end_table (unat (dks_nmdd d)) (dks_mdd d);
            lvm \<leftarrow> end_table (unat (dks_nlvm d)) (dks_lvm d);
            Some (cache, d\<lparr>dks_dsk := dsk, dks_mdd := mdd, dks_lvm := lvm\<rparr>)
          })"

section \<open>The tables\<close>

text \<open>The entries that the lines yield, without the tables.\<close>

fun disk_list :: "diskenv \<Rightarrow> string list \<Rightarrow> diskvars \<times> lvmcache \<Rightarrow> ((disktype \<times> perdsk) list \<times> diskvars \<times> lvmcache) option" where
  "disk_list e [] s = Some ([], s)"
| "disk_list e (l # ls) s =
     do {
       (ty, s) \<leftarrow> diskstats_scan e l s;
       (rs, t) \<leftarrow> disk_list e ls s;
       Some ((ty, dv_tmpdsk (fst s)) # rs, t)
     }"

definition of_type :: "disktype \<Rightarrow> (disktype \<times> perdsk) list \<Rightarrow> perdsk list" where
  "of_type ty rs = map snd (filter (\<lambda>r. fst r = ty) rs)"

abbreviation store_all :: "(disktype \<times> perdsk) list \<Rightarrow> dskstat \<Rightarrow> dskstat" where
  "store_all \<equiv> fold (\<lambda>(ty, px). diskstats_store ty px)"

lemma diskstats_loop:
  "lines_loop (go_on (diskstats_line e)) ls (s, d) = map_option (\<lambda>(rs, t). (t, store_all rs d)) (disk_list e ls s)"
proof (induction ls arbitrary: s d)
  case (Cons l ls)
  then show ?case
    by (auto simp: lines_loop_go_on diskstats_line_def option.map_comp comp_def split_beta
        simp del: lines_loop.simps(2) split: option.split bind_split)
qed simp

text \<open>A table of \<open>maxn\<close> entries after some were added: the first \<open>maxn - 1\<close> of them are in it.\<close>

definition filled :: "nat \<Rightarrow> perdsk list \<Rightarrow> perdsk list \<Rightarrow> i32 \<times> perdsk list" where
  "filled maxn t0 xs = (of_nat (min (length xs) (maxn - 1)), take (maxn - 1) xs @ drop (min (length xs) (maxn - 1)) t0)"

lemma add_filled:
  assumes "maxn \<le> length t0" "0 < maxn" "maxn < 2 ^ 31"
  shows "add_disk maxn px (filled maxn t0 xs) = filled maxn t0 (xs @ [px])"
proof -
  have s: "sint (of_nat n :: i32) = int n" "unat (of_nat n :: i32) = n" if "n < 2 ^ 31" for n
    using that by (simp_all add: signed_of_nat signed_take_bit_int_eq_self unat_of_nat)
  show ?thesis
  proof (cases "length xs < maxn - 1")
    case True
    have "drop (length xs) t0 = t0 ! length xs # drop (Suc (length xs)) t0"
      using True assms(1) by (intro Cons_nth_drop_Suc [symmetric]) simp
    then show ?thesis
      using True assms s [of "length xs"] s [of "maxn - 1"]
      by (simp add: add_disk_def filled_def word_sless_alt min_def list_update_append)
  next
    case False
    then show ?thesis using assms s [of "maxn - 1"] by (simp add: add_disk_def filled_def word_sless_alt min_def)
  qed
qed

definition dsk_tables_ok :: "dskstat \<Rightarrow> bool" where
  "dsk_tables_ok d \<longleftrightarrow> length (dks_dsk d) = MAXDSK \<and> length (dks_mdd d) = MAXMDD \<and> length (dks_lvm d) = MAXLVM"

lemma store_all_filled:
  assumes "dsk_tables_ok d" "dks_ndsk d = 0" "dks_nmdd d = 0" "dks_nlvm d = 0"
  shows "(dks_ndsk (store_all rs d), dks_dsk (store_all rs d)) = filled MAXDSK (dks_dsk d) (of_type DSKTYPE rs) \<and>
    (dks_nmdd (store_all rs d), dks_mdd (store_all rs d)) = filled MAXMDD (dks_mdd d) (of_type MDDTYPE rs) \<and>
    (dks_nlvm (store_all rs d), dks_lvm (store_all rs d)) = filled MAXLVM (dks_lvm d) (of_type LVMTYPE rs)"
proof (induction rs rule: rev_induct)
  case Nil
  then show ?case using assms by (simp add: filled_def of_type_def)
next
  case (snoc r rs)
  have "(0::nat) < MAXDSK" "MAXDSK < 2 ^ 31" "0 < MAXMDD" "MAXMDD < 2 ^ 31" "0 < MAXLVM" "MAXLVM < 2 ^ 31"
    by (simp_all add: MAXDSK_def MAXMDD_def MAXLVM_def)
  moreover have "MAXDSK \<le> length (dks_dsk d)" "MAXMDD \<le> length (dks_mdd d)" "MAXLVM \<le> length (dks_lvm d)"
    using assms(1) by (simp_all add: dsk_tables_ok_def)
  moreover obtain ty px where "r = (ty, px)" by (cases r)
  ultimately show ?case
    using snoc by (cases ty) (simp_all add: diskstats_store_def of_type_def add_filled split: prod.split)
qed

text \<open>The end of a table, and what is in front of it.\<close>

definition table_holds :: "nat \<Rightarrow> perdsk list \<Rightarrow> i32 \<Rightarrow> perdsk list \<Rightarrow> bool" where
  "table_holds maxn xs n t \<longleftrightarrow>
     sint n = int (min (length xs) (maxn - 1)) \<and> length t = maxn \<and>
     take (unat n) t = take (maxn - 1) xs \<and> \<not> cnonempty (pdk_name (t ! unat n))"

lemma filled_holds:
  assumes "length t0 = maxn" "0 < maxn" "maxn < 2 ^ 31" "(n, t) = filled maxn t0 xs"
  shows "\<exists>t'. end_table (unat n) t = Some t' \<and> table_holds maxn xs n t'"
proof -
  have m: "min (length xs) (maxn - 1) < maxn" using assms(2) by auto
  have n: "unat n = min (length xs) (maxn - 1)" "sint n = int (min (length xs) (maxn - 1))"
    using assms m by (simp_all add: filled_def signed_of_nat signed_take_bit_int_eq_self unat_of_nat)
  have t: "length t = maxn" "take (unat n) t = take (maxn - 1) xs"
    using assms n by (simp_all add: filled_def min_def)
  have "\<not> cnonempty (cclear a)" for a by (simp add: cclear_def cnonempty_def)
  then show ?thesis using n t m by (simp add: end_table_def table_holds_def)
qed

lemma diskstats_holds:
  assumes "dsk_tables_ok d" "disk_list e (linebufs txt) (junk, cache) = Some (rs, s)"
  shows "\<exists>d'. diskstats e (Some txt) junk cache d = Some (snd s, d') \<and>
    table_holds MAXDSK (of_type DSKTYPE rs) (dks_ndsk d') (dks_dsk d') \<and>
    table_holds MAXMDD (of_type MDDTYPE rs) (dks_nmdd d') (dks_mdd d') \<and>
    table_holds MAXLVM (of_type LVMTYPE rs) (dks_nlvm d') (dks_lvm d')"
proof -
  define d0 where "d0 = d\<lparr>dks_ndsk := 0, dks_nmdd := 0, dks_nlvm := 0\<rparr>"
  define r where "r = store_all rs d0"
  have l: "length (dks_dsk d0) = MAXDSK" "length (dks_mdd d0) = MAXMDD" "length (dks_lvm d0) = MAXLVM"
    using assms(1) by (simp_all add: d0_def dsk_tables_ok_def)
  have "dsk_tables_ok d0" using l by (simp add: dsk_tables_ok_def)
  then have f: "(dks_ndsk r, dks_dsk r) = filled MAXDSK (dks_dsk d0) (of_type DSKTYPE rs)"
    "(dks_nmdd r, dks_mdd r) = filled MAXMDD (dks_mdd d0) (of_type MDDTYPE rs)"
    "(dks_nlvm r, dks_lvm r) = filled MAXLVM (dks_lvm d0) (of_type LVMTYPE rs)"
    using store_all_filled [of d0 rs] by (simp_all add: r_def d0_def)
  have m: "(0::nat) < MAXDSK" "MAXDSK < 2 ^ 31" "0 < MAXMDD" "MAXMDD < 2 ^ 31" "0 < MAXLVM" "MAXLVM < 2 ^ 31"
    by (simp_all add: MAXDSK_def MAXMDD_def MAXLVM_def)
  obtain t1 t2 t3 where
    "end_table (unat (dks_ndsk r)) (dks_dsk r) = Some t1 \<and> table_holds MAXDSK (of_type DSKTYPE rs) (dks_ndsk r) t1"
    "end_table (unat (dks_nmdd r)) (dks_mdd r) = Some t2 \<and> table_holds MAXMDD (of_type MDDTYPE rs) (dks_nmdd r) t2"
    "end_table (unat (dks_nlvm r)) (dks_lvm r) = Some t3 \<and> table_holds MAXLVM (of_type LVMTYPE rs) (dks_nlvm r) t3"
    using filled_holds [OF l(1) m(1,2) f(1)] filled_holds [OF l(2) m(3,4) f(2)] filled_holds [OF l(3) m(5,6) f(3)] by blast
  moreover have "lines_loop (go_on (diskstats_line e)) (linebufs txt) ((junk, cache), d0) = Some (s, r)"
    by (simp add: diskstats_loop assms(2) r_def)
  ultimately show ?thesis by (simp add: diskstats_def each_line_def d0_def split_beta)
qed

section \<open>Lines of the kernel\<close>

record kdisk =
  kd_major :: nat
  kd_minor :: nat
  kd_name :: string
  kd_counts :: "int list"

text \<open>The line the kernel writes for a block device, newer fields at its end included.\<close>

definition kernel_disk :: "kdisk \<Rightarrow> string" where
  "kernel_disk k = justify 4 (decz (int (kd_major k))) @ '' '' @ justify 7 (decz (int (kd_minor k))) @ '' '' @ kd_name k @ row (kd_counts k)"

definition kdisk_ok :: "kdisk \<Rightarrow> bool" where
  "kdisk_ok k \<longleftrightarrow> kd_major k < 2 ^ 32 \<and> kd_minor k < 2 ^ 32 \<and> kd_name k \<noteq> [] \<and> length (kd_name k) \<le> 255 \<and>
     (\<forall>c\<in>set (kd_name k). \<not> isspace c \<and> c \<noteq> NUL) \<and> 11 \<le> length (kd_counts k) \<and>
     (\<forall>i\<in>set (kd_counts k). 0 \<le> i \<and> i < 2 ^ 63) \<and> length (kernel_disk k) < 1023"

definition disk_fields :: "bool list" where
  "disk_fields = [True, False, True, False, True, False, True, False, False, True, True]"

lemma directives_diskstats:
  "directives ''%d %d %255s %lld %*d %lld %*d %lld %*d %lld %*d %*d %lld %lld'' @ [Blank] =
     Num True True # Blank # Num True True # Blank # Str 255 True # Blank # numbers disk_fields"
  by code_simp

lemma length_11:
  assumes "11 \<le> length xs"
  shows "\<exists>a b c d e f g h i j k ys. xs = a # b # c # d # e # f # g # h # i # j # k # ys"
  using assms by (auto simp: numeral_eq_Suc Suc_le_length_iff)

lemma sscanf_kernel_disk:
  assumes "kdisk_ok k"
  shows "sscanf (kernel_disk k @ [CHR 0x0A]) ''%d %d %255s %lld %*d %lld %*d %lld %*d %lld %*d %*d %lld %lld'' =
    VNum (of_nat (kd_major k)) # VNum (of_nat (kd_minor k)) # VStr (kd_name k) #
      map (\<lambda>i. VNum (word_of_int (kd_counts k ! i))) [0, 2, 4, 6, 9, 10]"
proof -
  obtain a b c d e f g h i j l ys where xs: "kd_counts k = a # b # c # d # e # f # g # h # i # j # l # ys"
    using length_11 [of "kd_counts k"] assms by (auto simp: kdisk_ok_def)
  have nl: "number_end [CHR 0x0A]" "isspace CHR 0x0A" by (simp_all add: isspace_def)
  have "scan (numbers disk_fields) (row (kd_counts k) @ [CHR 0x0A]) = map (VNum \<circ> word_of_int) (picked disk_fields (kd_counts k))"
  proof -
    have "length disk_fields \<le> length (map (Pair (0::nat)) (kd_counts k))" by (simp add: xs disk_fields_def)
    moreover have "\<forall>i\<in>set (kd_counts k). 0 \<le> i \<and> i < 2 ^ 63" using assms unfolding kdisk_ok_def by blast
    then have "\<forall>p\<in>set (map (Pair (0::nat)) (kd_counts k)). i64_range (snd p)" by (simp add: i64_range_nonneg)
    ultimately have "scan (numbers disk_fields) (row (kd_counts k) @ [CHR 0x0A]) =
        map (VNum \<circ> word_of_int) (picked disk_fields (map snd (map (Pair (0::nat)) (kd_counts k))))"
      using nl(1) by (rule scan_columns)
    then show ?thesis by (simp only: map_map snd_Pair_id list.map_id)
  qed
  then have r: "scan (numbers disk_fields) (row (kd_counts k) @ [CHR 0x0A]) =
      map (\<lambda>i. VNum (word_of_int (kd_counts k ! i))) [0, 2, 4, 6, 9, 10]"
    by (simp add: xs disk_fields_def)
  have "isspace (hd (row (kd_counts k) @ [CHR 0x0A]))" by (simp add: xs)
  then have w: "scan (Str 255 True # ds) (kd_name k @ row (kd_counts k) @ [CHR 0x0A]) =
      VStr (kd_name k) # scan ds (row (kd_counts k) @ [CHR 0x0A])" for ds
    using scan_word_word [of "kd_name k" 255 "row (kd_counts k) @ [CHR 0x0A]" ds 0] assms by (simp add: kdisk_ok_def)
  have b: "dropWhile isspace (kd_name k @ s) = kd_name k @ s" for s
    using assms by (cases "kd_name k") (auto simp: kdisk_ok_def)
  have n: "read_number True (decz (int m) @ CHR '' '' # s) = Some (of_nat m, CHR '' '' # s)" if "m < 2 ^ 32" for m s
    using that by (simp add: read_number_decz)
  have "scan (Num True True # Blank # Num True True # Blank # Str 255 True # Blank # numbers disk_fields) (kernel_disk k @ [CHR 0x0A]) =
      VNum (of_nat (kd_major k)) # VNum (of_nat (kd_minor k)) # scan (Str 255 True # Blank # numbers disk_fields)
        (kd_name k @ row (kd_counts k) @ [CHR 0x0A])"
    using assms by (simp add: kernel_disk_def kdisk_ok_def n b del: scan.simps(6))
  then show ?thesis
    unfolding sscanf_def scan_end_Blank [symmetric, of "directives _"] directives_diskstats w
    by (simp add: scan_numbers_spaces r)
qed

text \<open>What the sampler makes of a device: its kind, the name it gets, its entry.\<close>

definition kd_type :: "kdisk \<Rightarrow> disktype" where
  "kd_type k = device_type (kd_name k)"

definition kd_label :: "mapdir \<Rightarrow> kdisk \<Rightarrow> string" where
  "kd_label md k =
     (if kd_type k = LVMTYPE then
        case List.find (\<lambda>dmp. dm_major dmp = of_nat (kd_major k) \<and> dm_minor dmp = of_nat (kd_minor k)) (rev (dm_all md)) of
          None \<Rightarrow> kd_name k
        | Some dmp \<Rightarrow> cstr (dm_name dmp)
      else kd_name k)"

definition kd_entry :: "mapdir \<Rightarrow> count_t list \<Rightarrow> kdisk \<Rightarrow> perdsk" where
  "kd_entry md cfuture k =
     (let x = \<lambda>i. word_of_int (kd_counts k ! i); nm = take (MAXDKNAM - 1) (kd_label md k) in
      \<lparr>pdk_name = nm @ replicate (MAXDKNAM - length nm) NUL, pdk_nread = x 0, pdk_nrsect = x 2, pdk_nwrite = x 4, pdk_nwsect = x 6,
       pdk_io_ms = x 9, pdk_avque = x 10, pdk_cfuture = cfuture\<rparr>)"

lemma put_name_full:
  assumes "length (pdk_name px) = maxlen" "0 < maxlen"
  shows "pdk_name (put_name s maxlen px) = take (maxlen - 1) (cstr s) @ replicate (maxlen - length (take (maxlen - 1) (cstr s))) NUL"
proof -
  define t where "t = take (maxlen - 1) (cstr s)"
  obtain k where k: "maxlen = Suc k" using assms(2) by (cases maxlen) auto
  have d: "drop k (pdk_name px) = [pdk_name px ! k]"
    using assms(1) k Cons_nth_drop_Suc [of k "pdk_name px"] by simp
  have t: "length t \<le> k" by (simp add: t_def k)
  have "(t @ replicate (k - length t) NUL @ drop k (pdk_name px))[k := NUL] = t @ replicate (k - length t) NUL @ [NUL]"
    using t by (simp add: d list_update_append)
  also have "\<dots> = t @ replicate (Suc k - length t) NUL"
    using t by (simp add: Suc_diff_le replicate_append_same)
  finally show ?thesis by (simp add: put_name_def strncpy_def t_def k)
qed

text \<open>The kinds of the table, but for the one whose names are abbreviated.\<close>

lemma kind_types:
  assumes "kind_of_disk s = Some (m, ty)"
  shows "(m = NoMod \<longleftrightarrow> ty = NONTYPE) \<and> (m = Lvmmap \<longleftrightarrow> ty = LVMTYPE)"
proof -
  have "(m, ty) \<in> snd ` set validdisk"
    using assms by (auto simp: kind_of_disk_def find_Some_iff image_iff) (metis nth_mem snd_conv)
  then show ?thesis by (auto simp: validdisk_def)
qed

lemma isdisk_entry:
  assumes "kdisk_ok k" "\<not> devfs_name (kd_name k)" "length (pdk_name px) = MAXDKNAM"
    "cache \<in> {None, Some (lvm_load (de_mapdir e) None)}"
  shows "\<exists>px' cache'. isdisk e (of_nat (kd_major k)) (of_nat (kd_minor k)) (kd_name k) px MAXDKNAM cache = Some (kd_type k, px', cache') \<and>
    length (pdk_name px') = MAXDKNAM \<and> cache' \<in> {None, Some (lvm_load (de_mapdir e) None)} \<and>
    (kd_type k = NONTYPE \<longrightarrow> px' = px) \<and>
    (kd_type k \<noteq> NONTYPE \<longrightarrow> px' = put_name (kd_label (de_mapdir e) k) MAXDKNAM px)"
proof -
  have len: "length (pdk_name (put_name s MAXDKNAM px)) = MAXDKNAM" for s
    using put_name_full [OF assms(3)] by (simp add: MAXDKNAM_def min_def)
  have same: "put_name (cstr s) n px = put_name s n px" for s n
    by (simp add: put_name_def strncpy_def)
  note kind = device_type_kind [OF assms(2)]
  note lookup = lvmmapname_find [OF assms(4), of "of_nat (kd_major k)" "of_nat (kd_minor k)" "kd_name k" px MAXDKNAM]
  show ?thesis
  proof (cases "kind_of_disk (kd_name k)")
    case None
    then show ?thesis using assms(3,4) kind(1) by (simp add: isdisk_kind kd_type_def)
  next
    case (Some mt)
    obtain m ty where m: "mt = (m, ty)" by (cases mt)
    note ty = kind_types [OF Some [unfolded m]]
    have "m \<noteq> Abbrev1" using kind(2) Some m by auto
    moreover have "kd_type k = ty" using kind(1) Some m by (simp add: kd_type_def)
    ultimately show ?thesis
      using Some m ty assms(3,4) len lookup
      by (cases m) (auto simp: isdisk_kind kd_label_def nullmodname_def same split: option.split)
  qed
qed

definition dv_ok :: "diskenv \<Rightarrow> count_t list \<Rightarrow> diskvars \<times> lvmcache \<Rightarrow> bool" where
  "dv_ok e cf = (\<lambda>(dv, cache). length (pdk_name (dv_tmpdsk dv)) = MAXDKNAM \<and> pdk_cfuture (dv_tmpdsk dv) = cf \<and>
     cache \<in> {None, Some (lvm_load (de_mapdir e) None)})"

lemma diskstats_scan_kernel:
  assumes "kdisk_ok k" "\<not> devfs_name (kd_name k)" "dv_ok e cf s"
  shows "\<exists>dv cache. diskstats_scan e (kernel_disk k @ [CHR 0x0A]) s = Some (kd_type k, dv, cache) \<and> dv_ok e cf (dv, cache) \<and>
    (kd_type k \<noteq> NONTYPE \<longrightarrow> dv_tmpdsk dv = kd_entry (de_mapdir e) cf k)"
proof -
  obtain dv cache where s: "s = (dv, cache)" by (cases s)
  let ?x = "\<lambda>i. word_of_int (kd_counts k ! i) :: count_t"
  define px where "px = (dv_tmpdsk dv)\<lparr>pdk_nread := ?x 0, pdk_nrsect := ?x 2, pdk_nwrite := ?x 4, pdk_nwsect := ?x 6,
    pdk_io_ms := ?x 9, pdk_avque := ?x 10\<rparr>"
  define dv' where "dv' = dv\<lparr>dv_major := of_nat (kd_major k), dv_minor := of_nat (kd_minor k), dv_diskname := kd_name k, dv_tmpdsk := px\<rparr>"
  have a: "assign diskstats_vars (sscanf (kernel_disk k @ [CHR 0x0A])
      ''%d %d %255s %lld %*d %lld %*d %lld %*d %lld %*d %*d %lld %lld'') dv = dv'"
    unfolding sscanf_kernel_disk [OF assms(1)] by (simp add: diskstats_vars_def disk_vars_def dv'_def px_def ucast_of_nat_down)
  have l: "length (sscanf (kernel_disk k @ [CHR 0x0A]) ''%d %d %255s %lld %*d %lld %*d %lld %*d %lld %*d %*d %lld %lld'') = 9"
    unfolding sscanf_kernel_disk [OF assms(1)] by simp
  have px: "length (pdk_name px) = MAXDKNAM" "pdk_cfuture px = cf" "cache \<in> {None, Some (lvm_load (de_mapdir e) None)}"
    using assms(3) by (simp_all add: dv_ok_def s px_def)
  obtain px' cache' where i: "isdisk e (of_nat (kd_major k)) (of_nat (kd_minor k)) (kd_name k) px MAXDKNAM cache = Some (kd_type k, px', cache')"
    "length (pdk_name px') = MAXDKNAM" "cache' \<in> {None, Some (lvm_load (de_mapdir e) None)}"
    "kd_type k = NONTYPE \<longrightarrow> px' = px" "kd_type k \<noteq> NONTYPE \<longrightarrow> px' = put_name (kd_label (de_mapdir e) k) MAXDKNAM px"
    using isdisk_entry [OF assms(1,2) px(1,3)] by blast
  have "pdk_cfuture px' = cf" using i(4,5) px(2) by (cases "kd_type k = NONTYPE") (simp_all add: put_name_def)
  moreover have "px' = kd_entry (de_mapdir e) cf k" if "kd_type k \<noteq> NONTYPE"
  proof -
    have "cstr (kd_label (de_mapdir e) k) = kd_label (de_mapdir e) k"
      using assms(1) by (auto simp: kd_label_def kdisk_ok_def split: option.split intro!: cstr_id)
    then have "pdk_name px' = pdk_name (kd_entry (de_mapdir e) cf k)"
      using i(5) that put_name_full [OF px(1)] by (simp add: kd_entry_def MAXDKNAM_def Let_def)
    moreover have "px' = px\<lparr>pdk_name := pdk_name px'\<rparr>" using i(5) that by (simp add: put_name_def)
    ultimately show ?thesis using px(2) by (simp add: px_def kd_entry_def Let_def)
  qed
  ultimately show ?thesis
    using i(1-3) unfolding diskstats_scan_def s prod.case Let_def a l by (simp add: dv'_def dv_ok_def)
qed

lemma disk_list_kernel:
  assumes "\<forall>k\<in>set ks. kdisk_ok k \<and> \<not> devfs_name (kd_name k)" "dv_ok e cf s"
  shows "\<exists>rs t. disk_list e (map (\<lambda>k. kernel_disk k @ [CHR 0x0A]) ks) s = Some (rs, t) \<and> dv_ok e cf t \<and>
    (\<forall>ty. ty \<noteq> NONTYPE \<longrightarrow> of_type ty rs = map (kd_entry (de_mapdir e) cf) (filter (\<lambda>k. kd_type k = ty) ks))"
  using assms
proof (induction ks arbitrary: s)
  case Nil
  then show ?case by (simp add: of_type_def)
next
  case (Cons k ks)
  obtain dv cache where d: "diskstats_scan e (kernel_disk k @ [CHR 0x0A]) s = Some (kd_type k, dv, cache)" "dv_ok e cf (dv, cache)"
    "kd_type k \<noteq> NONTYPE \<longrightarrow> dv_tmpdsk dv = kd_entry (de_mapdir e) cf k"
    using diskstats_scan_kernel [of k e cf s] Cons.prems by auto
  obtain rs t where "disk_list e (map (\<lambda>k. kernel_disk k @ [CHR 0x0A]) ks) (dv, cache) = Some (rs, t)" "dv_ok e cf t"
    "\<forall>ty. ty \<noteq> NONTYPE \<longrightarrow> of_type ty rs = map (kd_entry (de_mapdir e) cf) (filter (\<lambda>k. kd_type k = ty) ks)"
    using Cons.IH [OF _ d(2)] Cons.prems(1) by auto
  with d(1,3) show ?case by (auto simp: of_type_def)
qed

definition kd_entries :: "diskenv \<Rightarrow> diskvars \<Rightarrow> disktype \<Rightarrow> kdisk list \<Rightarrow> perdsk list" where
  "kd_entries e junk ty ks =
     map (kd_entry (de_mapdir e) (pdk_cfuture (dv_tmpdsk junk))) (filter (\<lambda>k. kd_type k = ty) ks)"

text \<open>The file \<^verbatim>\<open>diskstats\<close> with a line for every device.\<close>

definition kernel_diskstats :: "kdisk list \<Rightarrow> string" where
  "kernel_diskstats ks = concat (map (\<lambda>l. l @ [CHR 0x0A]) (map kernel_disk ks))"

lemma linebufs_diskstats:
  assumes "\<forall>k\<in>set ks. kdisk_ok k"
  shows "linebufs (kernel_diskstats ks) = map (\<lambda>k. kernel_disk k @ [CHR 0x0A]) ks"
proof -
  have "one_line (kernel_disk k) \<and> length (kernel_disk k) < 1023" if "kdisk_ok k" for k
  proof -
    have "\<forall>c\<in>set (kd_name k). \<not> isspace c \<and> c \<noteq> NUL" "length (kernel_disk k) < 1023" using that by (simp_all add: kdisk_ok_def)
    then show ?thesis by (auto simp: kernel_disk_def one_line_def [of "kd_name k"] isspace_def)
  qed
  then have "\<forall>l\<in>set (map kernel_disk ks). CHR 0x0A \<notin> set l \<and> NUL \<notin> set l \<and> length l < 1023"
    using assms by (auto simp: one_line_def)
  then show ?thesis unfolding kernel_diskstats_def by (simp add: linebufs_whole del: map_map) simp
qed

lemma diskstats_kernel:
  assumes "\<forall>k\<in>set ks. kdisk_ok k \<and> \<not> devfs_name (kd_name k)"
    and "length (pdk_name (dv_tmpdsk junk)) = MAXDKNAM" "cache \<in> {None, Some (lvm_load (de_mapdir e) None)}" "dsk_tables_ok d"
  shows "\<exists>cache' d'. diskstats e (Some (kernel_diskstats ks)) junk cache d = Some (cache', d') \<and>
    cache' \<in> {None, Some (lvm_load (de_mapdir e) None)} \<and>
    table_holds MAXDSK (kd_entries e junk DSKTYPE ks) (dks_ndsk d') (dks_dsk d') \<and>
    table_holds MAXMDD (kd_entries e junk MDDTYPE ks) (dks_nmdd d') (dks_mdd d') \<and>
    table_holds MAXLVM (kd_entries e junk LVMTYPE ks) (dks_nlvm d') (dks_lvm d')"
proof -
  have "dv_ok e (pdk_cfuture (dv_tmpdsk junk)) (junk, cache)" using assms(2,3) by (simp add: dv_ok_def)
  then obtain rs t where r: "disk_list e (map (\<lambda>k. kernel_disk k @ [CHR 0x0A]) ks) (junk, cache) = Some (rs, t)"
    "dv_ok e (pdk_cfuture (dv_tmpdsk junk)) t" "\<forall>ty. ty \<noteq> NONTYPE \<longrightarrow> of_type ty rs = kd_entries e junk ty ks"
    unfolding kd_entries_def using disk_list_kernel [OF assms(1)] by blast
  then have "disk_list e (linebufs (kernel_diskstats ks)) (junk, cache) = Some (rs, t)"
    using assms(1) by (simp add: linebufs_diskstats)
  from diskstats_holds [OF assms(4) this] r(2,3) show ?thesis by (auto simp: dv_ok_def split_beta)
qed

text \<open>
  C13: The disk tables after \<^verbatim>\<open>diskstats\<close> was read.  Whatever devices the kernel lists, in whatever order, the three tables
  hold exactly the multiple devices, the logical volumes and the disks among them, in the order of the file, with their
  names and with the six counters from the columns of their lines.  Disks are the whole disks of the known kinds, not their partitions,
  except that the partitions of Xen disks are stored beside their disks although the code means to skip partitions.  Each table keeps
  at most all but one of its entries, and the one behind the last is closed with an empty name.  (Names of the old device file system,
  which \<open>abbrevname1\<close> shortens, are excluded.)
\<close>

theorem diskstats_tables:
  assumes "\<forall>k\<in>set ks. kdisk_ok k \<and> \<not> devfs_name (kd_name k)"
    and "length (pdk_name (dv_tmpdsk junk)) = MAXDKNAM" "cache \<in> {None, Some (lvm_load (de_mapdir e) None)}" "dsk_tables_ok d"
  shows "\<exists>cache' d'. diskstats e (Some (kernel_diskstats ks)) junk cache d = Some (cache', d') \<and>
    cache' \<in> {None, Some (lvm_load (de_mapdir e) None)} \<and>
    table_holds MAXDSK (kd_entries e junk DSKTYPE ks) (dks_ndsk d') (dks_dsk d') \<and>
    table_holds MAXMDD (kd_entries e junk MDDTYPE ks) (dks_nmdd d') (dks_mdd d') \<and>
    table_holds MAXLVM (kd_entries e junk LVMTYPE ks) (dks_nlvm d') (dks_lvm d')"
  using assms by (rule diskstats_kernel)

text \<open>A disk with a partition, a logical volume, and a partition of a Xen disk.\<close>

definition disks_ex :: "kdisk list" where
  "disks_ex =
     [\<lparr>kd_major = 8, kd_minor = 0, kd_name = ''sda'', kd_counts = [5, 0, 40, 7, 3, 0, 24, 9, 0, 12, 16]\<rparr>,
      \<lparr>kd_major = 8, kd_minor = 1, kd_name = ''sda1'', kd_counts = [4, 0, 32, 6, 3, 0, 24, 9, 0, 11, 15]\<rparr>,
      \<lparr>kd_major = 253, kd_minor = 0, kd_name = ''dm-0'', kd_counts = [2, 0, 16, 1, 0, 0, 0, 0, 0, 1, 1]\<rparr>,
      \<lparr>kd_major = 202, kd_minor = 1, kd_name = ''xvda1'', kd_counts = [9, 0, 72, 2, 0, 0, 0, 0, 0, 3, 3]\<rparr>]"

definition diskvars_ex :: diskvars where
  "diskvars_ex = \<lparr>dv_major = 0, dv_minor = 0, dv_diskname = [], dv_tmpdsk = perdsk0\<rparr>"

lemma kinds_ex:
  "device_type ''sda'' = DSKTYPE" "device_type ''sda1'' = NONTYPE" "device_type ''dm-0'' = LVMTYPE" "device_type ''xvda1'' = DSKTYPE"
  by code_simp+

lemma disks_ex_ok: "\<forall>k\<in>set disks_ex. kdisk_ok k \<and> \<not> devfs_name (kd_name k)"
proof -
  have "list_all (\<lambda>k. length (kernel_disk k) < 100 \<and> \<not> devfs_name (kd_name k)) disks_ex" by code_simp
  then show ?thesis by (simp add: disks_ex_def kdisk_ok_def isspace_def)
qed

lemma volume_ex:
  "\<exists>dmp. List.find (\<lambda>dmp. dm_major dmp = 253 \<and> dm_minor dmp = 0) (rev (dm_all mapdir_ex)) = Some dmp \<and> cstr (dm_name dmp) = ''vg-root''"
proof -
  have "map_option (cstr \<circ> dm_name) (List.find (\<lambda>dmp. dm_major dmp = 253 \<and> dm_minor dmp = 0) (rev (dm_all mapdir_ex))) = Some ''vg-root''"
    by code_simp
  then show ?thesis by (simp add: map_option_eq_Some)
qed

lemma filter_ex:
  "filter (\<lambda>k. kd_type k = DSKTYPE) disks_ex = [disks_ex ! 0, disks_ex ! 3]" "filter (\<lambda>k. kd_type k = LVMTYPE) disks_ex = [disks_ex ! 2]"
  by (simp_all add: disks_ex_def kd_type_def kinds_ex)

lemma labels_ex:
  "kd_label mapdir_ex (disks_ex ! 0) = ''sda''" "kd_label mapdir_ex (disks_ex ! 2) = ''vg-root''" "kd_label mapdir_ex (disks_ex ! 3) = ''xvda1''"
proof -
  show "kd_label mapdir_ex (disks_ex ! 0) = ''sda''" "kd_label mapdir_ex (disks_ex ! 3) = ''xvda1''"
    by (simp_all add: kd_label_def kd_type_def disks_ex_def kinds_ex)
  obtain dmp where "List.find (\<lambda>dmp. dm_major dmp = 253 \<and> dm_minor dmp = 0) (rev (dm_all mapdir_ex)) = Some dmp"
    "cstr (dm_name dmp) = ''vg-root''" using volume_ex by blast
  then show "kd_label mapdir_ex (disks_ex ! 2) = ''vg-root''" by (simp add: kd_label_def kd_type_def disks_ex_def kinds_ex)
qed

lemma kd_entry_fields:
  "cstr (pdk_name (kd_entry md cf k)) = cstr (take (MAXDKNAM - 1) (kd_label md k) @ replicate (MAXDKNAM - length (take (MAXDKNAM - 1) (kd_label md k))) NUL)"
  "pdk_nread (kd_entry md cf k) = word_of_int (kd_counts k ! 0)" "pdk_avque (kd_entry md cf k) = word_of_int (kd_counts k ! 10)"
  by (simp_all add: kd_entry_def Let_def)

lemma kd_entries_ex:
  "map f (kd_entries diskenv_ex diskvars_ex DSKTYPE disks_ex) =
     map (\<lambda>i. f (kd_entry mapdir_ex (pdk_cfuture (dv_tmpdsk diskvars_ex)) (disks_ex ! i))) [0, 3]"
  "map f (kd_entries diskenv_ex diskvars_ex LVMTYPE disks_ex) =
     map (\<lambda>i. f (kd_entry mapdir_ex (pdk_cfuture (dv_tmpdsk diskvars_ex)) (disks_ex ! i))) [2]"
  by (simp_all add: kd_entries_def filter_ex diskenv_ex_def)

definition disk_view :: "perdsk \<Rightarrow> string \<times> count_t \<times> count_t" where
  "disk_view px = (cstr (pdk_name px), pdk_nread px, pdk_avque px)"

lemma disk_view_ex:
  "map (\<lambda>i. disk_view (kd_entry mapdir_ex cf (disks_ex ! i))) [0, 3] = [(''sda'', 5, 16), (''xvda1'', 9, 3)]"
  "map (\<lambda>i. disk_view (kd_entry mapdir_ex cf (disks_ex ! i))) [2] = [(''vg-root'', 2, 1)]"
  unfolding disk_view_def kd_entry_fields list.map labels_ex by (simp_all add: MAXDKNAM_def) (simp_all add: disks_ex_def)

lemma table_holds_map:
  assumes "table_holds maxn xs n t" "map f xs = ys" "length ys < maxn" "maxn < 2 ^ 31"
  shows "n = of_nat (length ys) \<and> map f (take (length ys) t) = ys"
proof -
  have l: "length xs = length ys" using assms(2) by auto
  have "sint n = int (length ys)" "take (unat n) t = xs" using assms(1,3) l by (simp_all add: table_holds_def)
  moreover from this(1) have "n = of_nat (length ys)"
    using assms(3,4) by (intro signed_word_eqI [where ?'a = int]) (simp add: signed_of_nat signed_take_bit_int_eq_self)
  moreover from this have "unat n = length ys" using assms(3,4) by (simp add: unat_of_nat)
  ultimately show ?thesis using assms(2) by simp
qed

theorem diskstats_tables_witness:
  "\<exists>cache d. diskstats diskenv_ex (Some (kernel_diskstats disks_ex)) diskvars_ex None dskstat0 = Some (cache, d) \<and>
     dks_ndsk d = 2 \<and> map disk_view (take 2 (dks_dsk d)) = [(''sda'', 5, 16), (''xvda1'', 9, 3)] \<and>
     dks_nlvm d = 1 \<and> map disk_view (take 1 (dks_lvm d)) = [(''vg-root'', 2, 1)]"
proof -
  have "length (pdk_name (dv_tmpdsk diskvars_ex)) = MAXDKNAM" "None \<in> {None, Some (lvm_load (de_mapdir diskenv_ex) None)}"
    "dsk_tables_ok dskstat0"
    by (simp_all add: diskvars_ex_def perdsk0_def MAXDKNAM_def dsk_tables_ok_def dskstat0_def MAXDSK_def MAXMDD_def MAXLVM_def)
  from diskstats_tables [OF disks_ex_ok this] obtain cache d where
    d: "diskstats diskenv_ex (Some (kernel_diskstats disks_ex)) diskvars_ex None dskstat0 = Some (cache, d)"
    and t: "table_holds MAXDSK (kd_entries diskenv_ex diskvars_ex DSKTYPE disks_ex) (dks_ndsk d) (dks_dsk d)"
      "table_holds MAXLVM (kd_entries diskenv_ex diskvars_ex LVMTYPE disks_ex) (dks_nlvm d) (dks_lvm d)" by blast
  have "dks_ndsk d = of_nat (length [(''sda'', 5 :: count_t, 16 :: count_t), (''xvda1'', 9, 3)]) \<and>
      map disk_view (take (length [(''sda'', 5 :: count_t, 16 :: count_t), (''xvda1'', 9, 3)]) (dks_dsk d)) = [(''sda'', 5, 16), (''xvda1'', 9, 3)]"
    by (rule table_holds_map [OF t(1)]) (simp_all only: kd_entries_ex(1) disk_view_ex, simp_all add: MAXDSK_def)
  moreover have "dks_nlvm d = of_nat (length [(''vg-root'', 2 :: count_t, 1 :: count_t)]) \<and>
      map disk_view (take (length [(''vg-root'', 2 :: count_t, 1 :: count_t)]) (dks_lvm d)) = [(''vg-root'', 2, 1)]"
    by (rule table_holds_map [OF t(2)]) (simp_all only: kd_entries_ex(2) disk_view_ex, simp_all add: MAXLVM_def)
  ultimately show ?thesis using d by (intro exI [of _ cache] exI [of _ d]) (simp add: numeral_2_eq_2)
qed

end
