(* ===== verification/Sys_Nfs.thy ===== *)
theory Sys_Nfs
  imports Sys_Lines
begin

text \<open>
  The statistics of NFS and of containers of \<open>photosyst\<close> (\<^verbatim>\<open>src/Qt/FakeAtop/photosyst.c\<close>): \<^verbatim>\<open>/proc/net/rpc/nfsd\<close>, \<^verbatim>\<open>/proc/net/rpc/nfs\<close>,
  \<^verbatim>\<open>/proc/self/mountstats\<close>, \<^verbatim>\<open>/proc/user_beancounters\<close> and \<^verbatim>\<open>/proc/vz/vestat\<close>.
\<close>

section \<open>Server and client\<close>

text \<open>A label and counters, all zero before the scan: the number of values, the label, the counters.\<close>

definition scan_counters :: "nat \<Rightarrow> string \<Rightarrow> string \<Rightarrow> nat \<times> string \<times> count_t list" where
  "scan_counters k fmt line =
     (case sscanf line fmt of
        [] \<Rightarrow> (0, [], replicate k 0)
      | v # vs \<Rightarrow> (length vs + 1, vstr v, map vnum vs @ replicate (k - length vs) 0))"

definition five :: string where "five = ''%lld %lld %lld %lld %lld''"

definition nfsd_fmt :: string where "nfsd_fmt = ''%31s '' @ concat (replicate 8 five)"
definition nfs_fmt :: string where "nfs_fmt = ''%31s '' @ concat (replicate 2 five)"

definition nfsd_store :: "string \<Rightarrow> count_t list \<Rightarrow> nfsserver \<Rightarrow> nfsserver" where
  "nfsd_store label cnt s =
     (let add = (\<lambda>r w. s\<lparr>nsv_rpcread := nsv_rpcread s + cnt ! r, nsv_rpcwrite := nsv_rpcwrite s + cnt ! w\<rparr>) in
      if label = ''rc'' then s\<lparr>nsv_rchits := cnt ! 0, nsv_rcmiss := cnt ! 1, nsv_rcnoca := cnt ! 2\<rparr>
      else if label = ''io'' then s\<lparr>nsv_nrbytes := cnt ! 0, nsv_nwbytes := cnt ! 1\<rparr>
      else if label = ''net'' then
        s\<lparr>nsv_netcnt := cnt ! 0, nsv_netudpcnt := cnt ! 1, nsv_nettcpcnt := cnt ! 2, nsv_nettcpcon := cnt ! 3\<rparr>
      else if label = ''rpc'' then
        s\<lparr>nsv_rpccnt := cnt ! 0, nsv_rpcbadfmt := cnt ! 1, nsv_rpcbadaut := cnt ! 2, nsv_rpcbadcln := cnt ! 3\<rparr>
      else if label = ''proc2'' then add 7 9
      else if label = ''proc3'' then add 7 8
      else if label = ''proc4ops'' then add 26 39
      else s)"

definition nfsd_line :: "string \<Rightarrow> nfsserver \<Rightarrow> nfsserver" where
  "nfsd_line line s = (case scan_counters 40 nfsd_fmt line of (nr, label, cnt) \<Rightarrow> if nr < 2 then s else nfsd_store label cnt s)"

definition nfsd :: "string option \<Rightarrow> nfsserver \<Rightarrow> nfsserver" where
  "nfsd contents s = (case contents of None \<Rightarrow> s | Some txt \<Rightarrow> fold nfsd_line (linebufs txt) s)"

definition nfs_store :: "string \<Rightarrow> count_t list \<Rightarrow> nfsclient \<Rightarrow> nfsclient" where
  "nfs_store label cnt c =
     (let add = (\<lambda>r w. c\<lparr>ncl_rpcread := ncl_rpcread c + cnt ! r, ncl_rpcwrite := ncl_rpcwrite c + cnt ! w\<rparr>) in
      if label = ''rpc'' then c\<lparr>ncl_rpccnt := cnt ! 0, ncl_rpcretrans := cnt ! 1, ncl_rpcautrefresh := cnt ! 2\<rparr>
      else if label = ''proc2'' then add 7 9
      else if label = ''proc3'' then add 7 8
      else if label = ''proc4'' then add 2 3
      else c)"

definition nfs_line :: "string \<Rightarrow> nfsclient \<Rightarrow> nfsclient" where
  "nfs_line line c = (case scan_counters 10 nfs_fmt line of (nr, label, cnt) \<Rightarrow> if nr < 2 then c else nfs_store label cnt c)"

definition nfs_rpc :: "string option \<Rightarrow> nfsclient \<Rightarrow> nfsclient" where
  "nfs_rpc contents c = (case contents of None \<Rightarrow> c | Some txt \<Rightarrow> fold nfs_line (linebufs txt) c)"

section \<open>Mounts\<close>

definition MAXNFSMOUNT :: nat where "MAXNFSMOUNT = 64"

text \<open>The local variables: strings and counters that are not initialised, \<open>i\<close>, and the table.\<close>

record mountvars =
  mv_mountdev :: string
  mv_fstype :: string
  mv_cnt :: "count_t list"
  mv_i :: nat
  mv_nfsmnt :: "pernfsmount list"

definition upd_mount :: "(pernfsmount \<Rightarrow> pernfsmount) \<Rightarrow> mountvars \<Rightarrow> mountvars" where
  "upd_mount f v = v\<lparr>mv_nfsmnt := (mv_nfsmnt v)[mv_i v := f (mv_nfsmnt v ! mv_i v)]\<rparr>"

definition mount_bytes :: "count_t list \<Rightarrow> pernfsmount \<Rightarrow> pernfsmount" where
  "mount_bytes cnt p = p\<lparr>nmt_bytesread := cnt ! 0, nmt_byteswrite := cnt ! 1, nmt_bytesdread := cnt ! 2, nmt_bytesdwrite := cnt ! 3,
     nmt_bytestotread := cnt ! 4, nmt_bytestotwrite := cnt ! 5, nmt_pagesmread := cnt ! 6, nmt_pagesmwrite := cnt ! 7\<rparr>"

definition mountstats_line :: "string \<Rightarrow> mountvars \<Rightarrow> (bool \<times> mountvars) option" where
  "mountstats_line line v =
     (if length (mv_nfsmnt v) \<le> mv_i v then None
      else
        let dev = sscanf line ''device %127s mounted on %*s with fstype %31s'';
            v = assign [\<lambda>x v. v\<lparr>mv_mountdev := vstr x\<rparr>, \<lambda>x v. v\<lparr>mv_fstype := vstr x\<rparr>] dev v
        in
        if length dev = 2 \<or> \<not> prefix ''nfs'' (mv_fstype v) then Some (False, v)
        else
          case sscanf line ''%31s %lld %lld %lld %lld %lld %lld %lld %lld'' of
            [] \<Rightarrow> Some (False, v)
          | x # vs \<Rightarrow>
              let v = v\<lparr>mv_cnt := map vnum vs @ drop (length vs) (mv_cnt v)\<rparr>; cnt = mv_cnt v in
              if vs = [] then Some (False, v)
              else if vstr x = ''age:'' then
                Some (False, upd_mount (\<lambda>p. p\<lparr>nmt_mountdev := strcpy (nmt_mountdev p) (mv_mountdev v), nmt_age := cnt ! 0\<rparr>) v)
              else if vstr x = ''bytes:'' then
                let v = upd_mount (mount_bytes cnt) v in
                Some (MAXNFSMOUNT - 1 \<le> mv_i v + 1, v\<lparr>mv_i := mv_i v + 1\<rparr>)
              else Some (False, v))"

text \<open>\<open>junk\<close>: the variables before the first line.\<close>

definition mountstats :: "string option \<Rightarrow> mountvars \<Rightarrow> nfsmounts \<Rightarrow> nfsmounts option" where
  "mountstats contents junk n =
     (case contents of
        None \<Rightarrow> Some n
      | Some txt \<Rightarrow>
          do {
            v \<leftarrow> each_line mountstats_line txt (junk\<lparr>mv_i := 0, mv_nfsmnt := nmts_nfsmnt n\<rparr>);
            Some (n\<lparr>nmts_nfsmnt := mv_nfsmnt v, nmts_nrmounts := of_nat (mv_i v)\<rparr>)
          })"

section \<open>Containers\<close>

definition MAXCONTAINER :: nat where "MAXCONTAINER = 128"

definition cont_store :: "string \<Rightarrow> count_t \<Rightarrow> percontainer \<Rightarrow> percontainer" where
  "cont_store label cnt p =
     (if label = ''numproc'' then p\<lparr>ctr_numproc := cnt\<rparr> else if label = ''physpages'' then p\<lparr>ctr_physpages := cnt\<rparr> else p)"

text \<open>The state is \<open>i\<close>, \<open>-1\<close> before the first container, and the table.\<close>

definition beans_line :: "string \<Rightarrow> int \<times> percontainer list \<Rightarrow> (bool \<times> int \<times> percontainer list) option" where
  "beans_line line = (\<lambda>(i, cont).
     let put = (\<lambda>i cont label cnt.
           if i = -1 then Some (False, i, cont)
           else if length cont \<le> nat i then None
           else Some (False, i, cont[nat i := cont_store label cnt (cont ! nat i)]))
     in
     case sscanf line ''%lu: %31s %lld'' of
       [ctid, label, cnt] \<Rightarrow>
         if int MAXCONTAINER \<le> i + 1 then Some (True, i + 1, cont)
         else if length cont \<le> nat (i + 1) then None
         else put (i + 1) (cont[nat (i + 1) := (cont ! nat (i + 1))\<lparr>ctr_ctid := vnum ctid\<rparr>]) (vstr label) (vnum cnt)
     | _ \<Rightarrow>
         (case sscanf line ''%31s %lld'' of
            [label, cnt] \<Rightarrow> put i cont (vstr label) (vnum cnt)
          | _ \<Rightarrow> Some (False, i, cont)))"

text \<open>The search for a container by its number: beyond the end of the array the read is not defined.\<close>

function find_cont :: "u64 \<Rightarrow> nat \<Rightarrow> percontainer list \<Rightarrow> nat \<Rightarrow> nat option option" where
  "find_cont ctid nr cont i =
     (if nr \<le> i then Some None
      else if length cont \<le> i then None
      else if ctr_ctid (cont ! i) = ctid then Some (Some i)
      else find_cont ctid nr cont (i + 1))"
  by pat_completeness auto

termination
  by (relation "measure (\<lambda>(_, nr, _, i). nr - i)") auto

declare find_cont.simps [simp del]

text \<open>\<open>cnt\<close> has 8 members, the format 9 counters: the ninth is stored behind the array.\<close>

definition vestat_line :: "string \<Rightarrow> contstat \<Rightarrow> contstat option" where
  "vestat_line line c =
     (let vals = sscanf line ''%lu  %lld %lld %lld %lld%lld %lld %lld %lld %lld'' in
      if length vals = 10 then None
      else if length vals < 9 then Some c
      else
        case find_cont (vnum (vals ! 0)) (unat (cts_nrcontainer c)) (cts_cont c) 0 of
          None \<Rightarrow> None
        | Some None \<Rightarrow> Some c
        | Some (Some i) \<Rightarrow>
            Some (c\<lparr>cts_cont := (cts_cont c)[i := (cts_cont c ! i)\<lparr>ctr_user := vnum (vals ! 1), ctr_nice := vnum (vals ! 2),
              ctr_system := vnum (vals ! 3), ctr_uptime := vnum (vals ! 4)\<rparr>]\<rparr>))"

definition containers :: "string option \<Rightarrow> string option \<Rightarrow> contstat \<Rightarrow> contstat option" where
  "containers beans vestat c =
     (case beans of
        None \<Rightarrow> Some c
      | Some txt \<Rightarrow>
          do {
            (i, cont) \<leftarrow> each_line beans_line txt (-1, cts_cont c);
            let c = c\<lparr>cts_cont := cont, cts_nrcontainer := word_of_int (i + 1)\<rparr>;
            (case vestat of None \<Rightarrow> Some c | Some txt \<Rightarrow> each_line (go_on vestat_line) txt c)
          })"

section \<open>The table of mounts\<close>

definition mounts_ok :: "mountvars \<Rightarrow> bool" where
  "mounts_ok v \<longleftrightarrow> mv_i v < MAXNFSMOUNT - 1 \<and> length (mv_nfsmnt v) = MAXNFSMOUNT"

lemma mountstats_step:
  assumes "mounts_ok v"
  shows "\<exists>b v'. mountstats_line line v = Some (b, v') \<and>
    (if b then mv_i v' \<le> MAXNFSMOUNT - 1 \<and> length (mv_nfsmnt v') = MAXNFSMOUNT else mounts_ok v')"
proof -
  define dev where "dev = sscanf line ''device %127s mounted on %*s with fstype %31s''"
  define v1 where "v1 = assign [\<lambda>x v. v\<lparr>mv_mountdev := vstr x\<rparr>, \<lambda>x v. v\<lparr>mv_fstype := vstr x\<rparr>] dev v"
  have v1: "mv_i v1 = mv_i v" "mv_nfsmnt v1 = mv_nfsmnt v"
    unfolding v1_def by (cases dev; cases "tl dev"; auto)+
  have ok: "mv_i v < length (mv_nfsmnt v)" "mounts_ok v1" using assms v1 by (simp_all add: mounts_ok_def MAXNFSMOUNT_def)
  show ?thesis
  proof (cases "length dev = 2 \<or> \<not> prefix ''nfs'' (mv_fstype v1)")
    case True
    then show ?thesis using ok by (simp add: mountstats_line_def dev_def [symmetric] v1_def [symmetric] Let_def) blast
  next
    case False
    show ?thesis
    proof (cases "sscanf line ''%31s %lld %lld %lld %lld %lld %lld %lld %lld''")
      case Nil
      then show ?thesis using False ok by (simp add: mountstats_line_def dev_def [symmetric] v1_def [symmetric] Let_def) blast
    next
      case (Cons x vs)
      then show ?thesis using False ok
        by (simp add: mountstats_line_def dev_def [symmetric] v1_def [symmetric] Let_def) (auto simp: mounts_ok_def upd_mount_def)
    qed
  qed
qed

lemma mountstats_range:
  assumes "length (nmts_nfsmnt n) = MAXNFSMOUNT"
  shows "\<exists>n'. mountstats contents junk n = Some n' \<and> length (nmts_nfsmnt n') = MAXNFSMOUNT \<and>
    (contents = None \<or> 0 \<le> sint (nmts_nrmounts n') \<and> sint (nmts_nrmounts n') < int MAXNFSMOUNT)"
proof (cases contents)
  case None
  then show ?thesis using assms by (simp add: mountstats_def)
next
  case (Some contents')
  let ?J = "\<lambda>v. mv_i v \<le> MAXNFSMOUNT - 1 \<and> length (mv_nfsmnt v) = MAXNFSMOUNT"
  have "mounts_ok (junk\<lparr>mv_i := 0, mv_nfsmnt := nmts_nfsmnt n\<rparr>)" using assms by (simp add: mounts_ok_def MAXNFSMOUNT_def)
  from lines_loop_total [of mounts_ok mountstats_line ?J, OF mountstats_step _ this] obtain v where
    v: "each_line mountstats_line contents' (junk\<lparr>mv_i := 0, mv_nfsmnt := nmts_nfsmnt n\<rparr>) = Some v" "?J v"
    by (auto simp: mounts_ok_def each_line_def)
  have "mv_i v < 2 ^ 31" using v(2) by (simp add: MAXNFSMOUNT_def)
  then have "sint (of_nat (mv_i v) :: i32) = int (mv_i v)" by (simp add: signed_of_nat signed_take_bit_int_eq_self)
  with v Some show ?thesis by (simp add: mountstats_def MAXNFSMOUNT_def)
qed

text \<open>
  C20: Whatever \<^verbatim>\<open>/proc/self/mountstats\<close> contains, the table of mounts is never written outside its entries, and at most all but one of
  them are in use.
\<close>

theorem mountstats_bounded:
  assumes "length (nmts_nfsmnt n) = MAXNFSMOUNT"
  shows "\<exists>n'. mountstats contents junk n = Some n' \<and> length (nmts_nfsmnt n') = MAXNFSMOUNT \<and>
    (contents = None \<or> 0 \<le> sint (nmts_nrmounts n') \<and> sint (nmts_nrmounts n') < int MAXNFSMOUNT)"
  using assms by (rule mountstats_range)

theorem mountstats_bounded_witness:
  "\<exists>n'. mountstats (Some ''device a:/b mounted on /c with fstype nfs4'') \<lparr>mv_mountdev = [], mv_fstype = [], mv_cnt = replicate 8 0, mv_i = 0, mv_nfsmnt = []\<rparr>
     nfsmounts0 = Some n' \<and> sint (nmts_nrmounts n') < 64"
proof -
  have "length (nmts_nfsmnt nfsmounts0) = MAXNFSMOUNT" by (simp add: nfsmounts0_def MAXNFSMOUNT_def)
  from mountstats_bounded [OF this, of "Some ''device a:/b mounted on /c with fstype nfs4''"] show ?thesis
    by (fastforce simp: MAXNFSMOUNT_def)
qed

section \<open>Containers as the kernel writes them\<close>

text \<open>A container: its number, and its resources with their counters, of which the first is what is held.\<close>

type_synonym kcont = "nat \<times> (string \<times> (nat \<times> int) list) list"

definition res_line :: "string \<times> (nat \<times> int) list \<Rightarrow> string" where
  "res_line = (\<lambda>(w, ps). ''             '' @ w @ columns_of ps)"

fun cont_lines :: "kcont \<Rightarrow> string list" where
  "cont_lines (ctid, []) = []"
| "cont_lines (ctid, (w, ps) # rs) =
     (justify 10 (decz (int ctid)) @ '':  '' @ w @ columns_of ps) # map res_line rs"

definition res_ok :: "string \<times> (nat \<times> int) list \<Rightarrow> bool" where
  "res_ok = (\<lambda>(w, ps). word_ok w \<and> length w \<le> 31 \<and> \<not> isdigit (hd w) \<and> hd w \<noteq> CHR ''-'' \<and> hd w \<noteq> CHR ''+'' \<and>
     ps \<noteq> [] \<and> (\<forall>p\<in>set ps. i64_range (snd p)))"

definition kcont_ok :: "kcont \<Rightarrow> bool" where
  "kcont_ok k \<longleftrightarrow> fst k < 2 ^ 32 \<and> snd k \<noteq> [] \<and> (\<forall>r\<in>set (snd k). res_ok r) \<and> (\<forall>l\<in>set (cont_lines k). length l < 1023)"

definition cont_entry :: "kcont \<Rightarrow> percontainer \<Rightarrow> percontainer" where
  "cont_entry = (\<lambda>(ctid, rs) p. fold (\<lambda>(w, ps). cont_store w (word_of_int (snd (hd ps)))) rs (p\<lparr>ctr_ctid := of_nat ctid\<rparr>))"

lemma directives_beans:
  "directives ''%lu: %31s %lld'' = [Num False True, Lit CHR '':'', Blank, Str 31 True, Blank, Num True True]"
  "directives ''%31s %lld'' = [Str 31 True, Blank, Num True True]"
  by code_simp+

lemma scan_resource:
  assumes "res_ok (w, ps)"
  shows "scan [Str 31 True, Blank, Num True True] (replicate n CHR '' '' @ w @ columns_of ps @ [CHR 0x0A]) = [VStr w, VNum (word_of_int (snd (hd ps)))]"
proof -
  have ok: "word_ok w" "length w \<le> 31" "ps \<noteq> []" "\<forall>p\<in>set ps. i64_range (snd p)" using assms by (simp_all add: res_ok_def)
  obtain p qs where ps: "ps = p # qs" using ok(3) by (cases ps) auto
  have "isspace CHR 0x0A" by (simp add: isspace_def)
  then have "scan [Str 31 True, Blank, Num True True] (w @ columns_of ps @ [CHR 0x0A]) = [VStr w, VNum (word_of_int (snd (hd ps)))]"
    using scan_labelled [of w 31 ps "[Blank, Num True True]" 1 "[CHR 0x0A]"] ok by (simp add: ps no_blanks_def)
  moreover have "scan (Str 31 True # ds) (replicate n CHR '' '' @ s) = scan (Str 31 True # ds) s" for ds s by simp
  ultimately show ?thesis by simp
qed

lemma sscanf_first:
  assumes "res_ok (w, ps)" "ctid < 2 ^ 32"
  shows "sscanf (justify 10 (decz (int ctid)) @ '':  '' @ w @ columns_of ps @ [CHR 0x0A]) ''%lu: %31s %lld'' =
    [VNum (of_nat ctid), VStr w, VNum (word_of_int (snd (hd ps)))]"
proof -
  have "number_end ('':'' @ s)" for s by (simp add: number_end_def isdigit_def)
  then have n: "read_number False (decz (int ctid) @ CHR '':'' # s) = Some (of_nat ctid, CHR '':'' # s)" for s
    using read_number_decz_strto [of "CHR '':'' # s" False "int ctid"] assms(2) by (simp add: strto_def)
  have w: "dropWhile isspace (w @ s) = w @ s" for s
    using assms(1) by (cases w) (auto simp: res_ok_def word_ok_def)
  show ?thesis
    using scan_resource [OF assms(1), of 0] by (simp add: sscanf_def directives_beans n w)
qed

lemma sscanf_next:
  assumes "res_ok (w, ps)"
  shows "sscanf (''             '' @ w @ columns_of ps @ [CHR 0x0A]) ''%lu: %31s %lld'' = []"
    "sscanf (''             '' @ w @ columns_of ps @ [CHR 0x0A]) ''%31s %lld'' = [VStr w, VNum (word_of_int (snd (hd ps)))]"
proof -
  obtain c cs where "w = c # cs" using assms by (cases w) (auto simp: res_ok_def word_ok_def)
  then show "sscanf (''             '' @ w @ columns_of ps @ [CHR 0x0A]) ''%lu: %31s %lld'' = []"
    using assms by (auto simp: sscanf_def directives_beans read_number_def res_ok_def word_ok_def Let_def)
  have "''             '' = replicate 13 CHR '' ''" by (simp add: numeral_eq_Suc)
  then show "sscanf (''             '' @ w @ columns_of ps @ [CHR 0x0A]) ''%31s %lld'' = [VStr w, VNum (word_of_int (snd (hd ps)))]"
    using scan_resource [OF assms, of 13] by (simp only: sscanf_def directives_beans)
qed

abbreviation nl :: "string \<Rightarrow> string" where "nl l \<equiv> l @ [CHR 0x0A]"

lemma beans_next:
  assumes "res_ok (w, ps)" "0 \<le> i" "nat i < length cont"
  shows "beans_line (nl (res_line (w, ps))) (i, cont) =
    Some (False, i, cont[nat i := cont_store w (word_of_int (snd (hd ps))) (cont ! nat i)])"
  using sscanf_next [OF assms(1)] assms(2,3) by (simp add: beans_line_def res_line_def)

lemma beans_first:
  assumes "res_ok (w, ps)" "ctid < 2 ^ 32" "-1 \<le> i" "nat (i + 1) < length cont" "i + 1 < int MAXCONTAINER"
  shows "beans_line (nl (justify 10 (decz (int ctid)) @ '':  '' @ w @ columns_of ps)) (i, cont) =
    Some (False, i + 1, cont[nat (i + 1) := cont_store w (word_of_int (snd (hd ps))) ((cont ! nat (i + 1))\<lparr>ctr_ctid := of_nat ctid\<rparr>)])"
  using sscanf_first [OF assms(1,2)] assms(3-5) by (simp add: beans_line_def)

lemma beans_full:
  assumes "res_ok (w, ps)" "ctid < 2 ^ 32" "int MAXCONTAINER \<le> i + 1"
  shows "beans_line (nl (justify 10 (decz (int ctid)) @ '':  '' @ w @ columns_of ps)) (i, cont) = Some (True, i + 1, cont)"
  using sscanf_first [OF assms(1,2)] assms(3) by (simp add: beans_line_def)

lemma beans_resources:
  assumes "\<forall>r\<in>set rs. res_ok r" "0 \<le> i" "nat i < length cont"
  shows "lines_loop beans_line (map nl (map res_line rs) @ ls) (i, cont) =
    lines_loop beans_line ls (i, cont[nat i := fold (\<lambda>(w, ps). cont_store w (word_of_int (snd (hd ps)))) rs (cont ! nat i)])"
  using assms
proof (induction rs arbitrary: cont)
  case (Cons r rs)
  obtain w ps where r: "r = (w, ps)" by (cases r)
  have "beans_line (nl (res_line (w, ps))) (i, cont) =
      Some (False, i, cont[nat i := cont_store w (word_of_int (snd (hd ps))) (cont ! nat i)])"
    using Cons.prems by (intro beans_next) (auto simp: r)
  then show ?case
    using Cons.IH [of "cont[nat i := cont_store w (word_of_int (snd (hd ps))) (cont ! nat i)]"] Cons.prems by (simp add: r)
qed simp

lemma beans_block:
  assumes "kcont_ok k" "-1 \<le> i" "nat (i + 1) < length cont" "i + 1 < int MAXCONTAINER"
  shows "lines_loop beans_line (map nl (cont_lines k) @ ls) (i, cont) =
    lines_loop beans_line ls (i + 1, cont[nat (i + 1) := cont_entry k (cont ! nat (i + 1))])"
proof -
  obtain ctid w ps rs where k: "k = (ctid, (w, ps) # rs)" using assms(1) by (cases k; cases "snd k") (auto simp: kcont_ok_def)
  have ok: "res_ok (w, ps)" "ctid < 2 ^ 32" "\<forall>r\<in>set rs. res_ok r" using assms(1) by (simp_all add: k kcont_ok_def)
  show ?thesis
    using beans_first [OF ok(1,2) assms(2-4)] beans_resources [OF ok(3), of "i + 1"] assms(2,3)
    by (simp add: k cont_entry_def del: map_map)
qed

lemma beans_stop:
  assumes "kcont_ok k" "int MAXCONTAINER \<le> i + 1"
  shows "lines_loop beans_line (map nl (cont_lines k) @ ls) (i, cont) = Some (i + 1, cont)"
proof -
  obtain ctid w ps rs where k: "k = (ctid, (w, ps) # rs)" using assms(1) by (cases k; cases "snd k") (auto simp: kcont_ok_def)
  have "res_ok (w, ps)" "ctid < 2 ^ 32" using assms(1) by (simp_all add: k kcont_ok_def)
  from beans_full [OF this assms(2)] show ?thesis by (simp add: k)
qed

lemma beans_blocks:
  assumes "\<forall>k\<in>set ks. kcont_ok k" "m \<le> MAXCONTAINER" "length cont = MAXCONTAINER"
  shows "\<exists>cont'. lines_loop beans_line (concat (map (\<lambda>k. map nl (cont_lines k)) ks)) (int m - 1, cont) =
      Some (min (int (m + length ks) - 1) (int MAXCONTAINER), cont') \<and> length cont' = MAXCONTAINER \<and>
    (\<forall>j<MAXCONTAINER. cont' ! j = (if m \<le> j \<and> j < m + length ks then cont_entry (ks ! (j - m)) (cont ! j) else cont ! j))"
  using assms
proof (induction ks arbitrary: m cont)
  case Nil
  then show ?case by auto
next
  case (Cons k ks)
  show ?case
  proof (cases "m < MAXCONTAINER")
    case True
    define cont1 where "cont1 = cont[m := cont_entry k (cont ! m)]"
    have step: "lines_loop beans_line (concat (map (\<lambda>k. map nl (cont_lines k)) (k # ks))) (int m - 1, cont) =
        lines_loop beans_line (concat (map (\<lambda>k. map nl (cont_lines k)) ks)) (int (Suc m) - 1, cont1)"
      using beans_block [of k "int m - 1" cont] Cons.prems True by (simp add: cont1_def)
    obtain cont' where c: "lines_loop beans_line (concat (map (\<lambda>k. map nl (cont_lines k)) ks)) (int (Suc m) - 1, cont1) =
        Some (min (int (Suc m + length ks) - 1) (int MAXCONTAINER), cont')" "length cont' = MAXCONTAINER"
      "\<forall>j<MAXCONTAINER. cont' ! j = (if Suc m \<le> j \<and> j < Suc m + length ks then cont_entry (ks ! (j - Suc m)) (cont1 ! j) else cont1 ! j)"
      using Cons.IH [of "Suc m" cont1] Cons.prems True by (auto simp: cont1_def)
    have "cont' ! j = (if m \<le> j \<and> j < m + length (k # ks) then cont_entry ((k # ks) ! (j - m)) (cont ! j) else cont ! j)"
      if "j < MAXCONTAINER" for j
      using c(3) that True Cons.prems(3) by (cases "j = m") (auto simp: cont1_def nth_Cons')
    then show ?thesis using step c(1,2) by (intro exI [of _ cont']) simp
  next
    case False
    then have "m = MAXCONTAINER" using Cons.prems(2) by simp
    then show ?thesis using beans_stop [of k "int m - 1"] Cons.prems(1,3) by simp
  qed
qed

text \<open>Lines in front of the first container change nothing.\<close>

definition beans_head :: "string \<Rightarrow> bool" where
  "beans_head h \<longleftrightarrow> one_line h \<and> length h < 1023 \<and> length (sscanf (nl h) ''%lu: %31s %lld'') \<noteq> 3"

lemma beans_heads:
  assumes "\<forall>h\<in>set hs. beans_head h"
  shows "lines_loop beans_line (map nl hs @ ls) (-1, cont) = lines_loop beans_line ls (-1, cont)"
  using assms
proof (induction hs)
  case (Cons h hs)
  then have "beans_line (nl h) (-1, cont) = Some (False, -1, cont)"
    by (auto simp: beans_line_def beans_head_def Let_def split: list.split)
  with Cons show ?case by simp
qed simp

definition kernel_beans :: "string list \<Rightarrow> kcont list \<Rightarrow> string" where
  "kernel_beans hs ks = concat (map nl (hs @ concat (map cont_lines ks)))"

lemma one_line_cont: "kcont_ok k \<Longrightarrow> l \<in> set (cont_lines k) \<Longrightarrow> one_line l \<and> length l < 1023"
proof (cases k rule: cont_lines.cases)
  case (2 ctid w ps rs)
  assume k: "kcont_ok k" "l \<in> set (cont_lines k)"
  have "one_line w" if "res_ok (w, ps)" for w ps using that word_ok_one_line by (simp add: res_ok_def)
  with k 2 show ?thesis by (auto simp: kcont_ok_def res_line_def)
qed simp

lemma linebufs_beans:
  assumes "\<forall>h\<in>set hs. beans_head h" "\<forall>k\<in>set ks. kcont_ok k"
  shows "linebufs (kernel_beans hs ks) = map nl hs @ concat (map (\<lambda>k. map nl (cont_lines k)) ks)"
proof -
  have "\<forall>l\<in>set (hs @ concat (map cont_lines ks)). CHR 0x0A \<notin> set l \<and> NUL \<notin> set l \<and> length l < 1023"
    using assms one_line_cont by (fastforce simp: beans_head_def one_line_def)
  from linebufs_whole [OF this] show ?thesis by (simp add: kernel_beans_def map_concat comp_def)
qed

text \<open>
  C19: Containers.  From a file with any number of containers, the table gets the first 128 of them in the order of the file, each with
  its number and the processes and pages it holds; with at most 128 containers their number is right.  With more of them the number
  becomes 129, one more than the table has entries.
\<close>

theorem containers_table:
  assumes "\<forall>h\<in>set hs. beans_head h" "\<forall>k\<in>set ks. kcont_ok k" "length (cts_cont c) = MAXCONTAINER"
  shows "\<exists>c'. containers (Some (kernel_beans hs ks)) None c = Some c' \<and> length (cts_cont c') = MAXCONTAINER \<and>
    sint (cts_nrcontainer c') = int (min (length ks) (MAXCONTAINER + 1)) \<and>
    (\<forall>j<MAXCONTAINER. cts_cont c' ! j = (if j < length ks then cont_entry (ks ! j) (cts_cont c ! j) else cts_cont c ! j))"
proof -
  define i where "i = min (int (length ks) - 1) (int MAXCONTAINER)"
  obtain cont' where c: "lines_loop beans_line (concat (map (\<lambda>k. map nl (cont_lines k)) ks)) (-1, cts_cont c) = Some (i, cont')"
    "length cont' = MAXCONTAINER" "\<forall>j<MAXCONTAINER. cont' ! j = (if j < length ks then cont_entry (ks ! j) (cts_cont c ! j) else cts_cont c ! j)"
    unfolding i_def using beans_blocks [OF assms(2) _ assms(3), of 0] by auto
  have "i + 1 = int (min (length ks) (MAXCONTAINER + 1))" by (simp add: i_def min_def)
  moreover have "sint (of_nat n :: i32) = int n" if "n < 2 ^ 31" for n
    using that by (simp add: signed_of_nat signed_take_bit_int_eq_self)
  moreover have "min (length ks) (MAXCONTAINER + 1) < 2 ^ 31" by (simp add: MAXCONTAINER_def)
  ultimately have "sint (word_of_int (i + 1) :: i32) = int (min (length ks) (MAXCONTAINER + 1))" by simp
  moreover have "containers (Some (kernel_beans hs ks)) None c = Some (c\<lparr>cts_cont := cont', cts_nrcontainer := word_of_int (i + 1)\<rparr>)"
    using c(1) linebufs_beans [OF assms(1,2)] beans_heads [OF assms(1)] by (simp add: containers_def each_line_def)
  ultimately show ?thesis
    using c(2,3) by (intro exI [of _ "c\<lparr>cts_cont := cont', cts_nrcontainer := word_of_int (i + 1)\<rparr>"] conjI) simp_all
qed

text \<open>The search for a container that is not in the table then reads behind it.\<close>

lemma find_cont_overrun:
  assumes "length cont < nr" "\<forall>p\<in>set cont. ctr_ctid p \<noteq> ctid"
  shows "find_cont ctid nr cont i = (if nr \<le> i then Some None else None)"
proof (induction "nr - i" arbitrary: i)
  case 0
  then show ?case by (simp add: find_cont.simps)
next
  case (Suc n)
  then have "find_cont ctid nr cont (i + 1) = (if nr \<le> i + 1 then Some None else None)" 
    by (intro Suc.hyps(1)) (use Suc.hyps(2) in arith)
  moreover have "i < length cont \<Longrightarrow> ctr_ctid (cont ! i) \<noteq> ctid" using assms(2) by simp
  ultimately show ?case using assms(1) by (subst find_cont.simps) auto
qed

text \<open>A line of \<^verbatim>\<open>vestat\<close> with all its columns is stored beyond the end of \<open>cnt\<close>.\<close>

lemma directives_vestat:
  "directives ''%lu  %lld %lld %lld %lld%lld %lld %lld %lld %lld'' =
     Num False True # [Blank, Num True True, Blank, Num True True, Blank, Num True True, Blank, Num True True, Num True True,
       Blank, Num True True, Blank, Num True True, Blank, Num True True, Blank, Num True True]"
  by code_simp

lemma vestat_full_line:
  assumes "ctid < 2 ^ 32" "9 \<le> length ps" "\<forall>p\<in>set ps. i64_range (snd p)"
  shows "vestat_line (nl (decz (int ctid) @ columns_of ps)) c = None"
proof -
  let ?ds = "[Blank, Num True True, Blank, Num True True, Blank, Num True True, Blank, Num True True, Num True True,
       Blank, Num True True, Blank, Num True True, Blank, Num True True, Blank, Num True True]"
  have nl: "isspace CHR 0x0A" by (simp add: isspace_def)
  have "number_end (columns_of ps @ [CHR 0x0A])" using nl by (intro columns_of_end) simp
  from read_number_decz_strto [OF this, of False "int ctid"] assms(1)
  have "read_number False (decz (int ctid) @ columns_of ps @ [CHR 0x0A]) = Some (of_nat ctid, columns_of ps @ [CHR 0x0A])"
    by (simp add: strto_def)
  moreover have "no_blanks ?ds = replicate 9 (Num True True)" by (simp add: no_blanks_def numeral_eq_Suc)
  then have "scan ?ds (columns_of ps @ [CHR 0x0A]) = map (VNum \<circ> word_of_int) (take 9 (map snd ps))"
    using scan_no_blanks [of ?ds "columns_of ps @ [CHR 0x0A]"] scan_row [OF assms(3) row_end_space [OF nl], of 9]
    by (simp del: no_blanks_simps scan.simps)
  ultimately have "sscanf (nl (decz (int ctid) @ columns_of ps)) ''%lu  %lld %lld %lld %lld%lld %lld %lld %lld %lld'' =
      VNum (of_nat ctid) # map (VNum \<circ> word_of_int) (take 9 (map snd ps))"
    unfolding sscanf_def directives_vestat scan.simps by simp
  then show ?thesis using assms(2) by (simp add: vestat_line_def)
qed

definition conts_ex :: "kcont list" where
  "conts_ex = [(101, [(''kmemsize'', [(20, 9), (20, 9)]), (''numproc'', [(20, 4)]), (''physpages'', [(20, 30)])]), (102, [(''numproc'', [(20, 2)])])]"

theorem containers_table_witness:
  "\<exists>c'. containers (Some (kernel_beans [''Version: 2.5''] conts_ex)) None contstat0 = Some c' \<and> sint (cts_nrcontainer c') = 2 \<and>
     ctr_ctid (cts_cont c' ! 0) = 101 \<and> ctr_numproc (cts_cont c' ! 0) = 4 \<and> ctr_physpages (cts_cont c' ! 0) = 30 \<and> ctr_numproc (cts_cont c' ! 1) = 2"
proof -
  have "sscanf (nl ''Version: 2.5'') ''%lu: %31s %lld'' = []" by code_simp
  then have h: "\<forall>h\<in>set [''Version: 2.5'']. beans_head h" by (simp add: beans_head_def)
  have "list_all (\<lambda>k. list_all (\<lambda>l. length l < 100) (cont_lines k)) conts_ex" by code_simp
  then have k: "\<forall>k\<in>set conts_ex. kcont_ok k"
    by (simp add: conts_ex_def kcont_ok_def res_ok_def word_ok_def isspace_def isdigit_def i64_range_def)
  have "length (cts_cont contstat0) = MAXCONTAINER" by (simp add: contstat0_def MAXCONTAINER_def)
  from containers_table [OF h k this] obtain c' where c: "containers (Some (kernel_beans [''Version: 2.5''] conts_ex)) None contstat0 = Some c'"
    "sint (cts_nrcontainer c') = int (min (length conts_ex) (MAXCONTAINER + 1))"
    "\<forall>j<MAXCONTAINER. cts_cont c' ! j = (if j < length conts_ex then cont_entry (conts_ex ! j) (cts_cont contstat0 ! j) else cts_cont contstat0 ! j)"
    by blast
  have "cts_cont c' ! 0 = cont_entry (conts_ex ! 0) (cts_cont contstat0 ! 0)" "cts_cont c' ! 1 = cont_entry (conts_ex ! 1) (cts_cont contstat0 ! 1)"
    using c(3) by (simp_all add: MAXCONTAINER_def conts_ex_def)
  then show ?thesis using c(1,2) by (simp add: conts_ex_def MAXCONTAINER_def cont_entry_def cont_store_def)
qed

end
