(* ===== verification/Photosyst.thy ===== *)
theory Photosyst
  imports Sys_Cpu Sys_Mem Sys_Net Sys_Disk Sys_Nfs Photoproc
begin

text \<open>
  The system-level sampler as a whole: \<open>photosyst\<close>, \<open>getperfevents\<close> and \<open>getbootlinux\<close> of \<^verbatim>\<open>src/Qt/FakeAtop/photosyst.c\<close>.  The parts are
  composed in the order of the code; what the operating system answers is in a record of its own.
\<close>

section \<open>Events of the processors\<close>

text \<open>The static variables of \<open>getperfevents\<close>.\<close>

record perfvars =
  pf_firstcall :: bool
  pf_cpualloced :: i32
  pf_fdi :: "i32 list"
  pf_fdc :: "i32 list"

text \<open>
  What the kernel answers: the descriptor for the instructions (\<open>False\<close>) or cycles (\<open>True\<close>) of a processor, the counter that can be
  read from a descriptor; and whether memory was allocated and the privileges could be dropped.
\<close>

record perfenv =
  pe_malloc :: bool
  pe_open :: "bool \<Rightarrow> nat \<Rightarrow> i32"
  pe_drop :: bool
  pe_read :: "i32 \<Rightarrow> count_t option"

definition perf_init :: "perfenv \<Rightarrow> cpustat \<Rightarrow> perfvars \<Rightarrow> (int + cpustat \<times> perfvars) option" where
  "perf_init e cs pf =
     (let n = (ucast (cst_nrcpu cs) :: i32); k = nat (sint n);
          fdi = map (pe_open e False) [0..<k]; fdc = map (pe_open e True) [0..<k];
          success = length (filter (\<lambda>fd. 0 \<le>s fd) (fdi @ fdc))
      in
      if \<not> pe_malloc e \<and> 0 < k then None
      else if \<not> pe_drop e then Some (Inl 42)
      else if success = 0 then Some (Inr (cs, \<lparr>pf_firstcall = False, pf_cpualloced = 0, pf_fdi = [], pf_fdc = []\<rparr>))
      else Some (Inr (cs\<lparr>cst_all := (cst_all cs)\<lparr>pcp_instr := 1, pcp_cycle := 1\<rparr>\<rparr>,
                      \<lparr>pf_firstcall = False, pf_cpualloced = n, pf_fdi = fdi, pf_fdc = fdc\<rparr>)))"

text \<open>One processor: the cycles are read whenever there is a descriptor for the instructions.\<close>

definition perf_read :: "perfenv \<Rightarrow> i32 \<Rightarrow> i32 \<Rightarrow> percpu \<Rightarrow> percpu" where
  "perf_read e fi fc pc =
     (let pc = (case pe_read e fi of Some v \<Rightarrow> pc\<lparr>pcp_instr := v\<rparr> | None \<Rightarrow> pc)
      in case pe_read e fc of Some v \<Rightarrow> pc\<lparr>pcp_cycle := v\<rparr> | None \<Rightarrow> pc)"

fun perf_loop :: "perfenv \<Rightarrow> perfvars \<Rightarrow> nat list \<Rightarrow> cpustat \<Rightarrow> cpustat option" where
  "perf_loop e pf [] cs = Some cs"
| "perf_loop e pf (i # is) cs =
     (if length (pf_fdi pf) \<le> i \<or> length (cst_cpu cs) \<le> i then None
      else if pf_fdi pf ! i = -1 then perf_loop e pf is cs
      else
        let pc = perf_read e (pf_fdi pf ! i) (pf_fdc pf ! i) (cst_cpu cs ! i); a = cst_all cs in
        perf_loop e pf is (cs\<lparr>cst_cpu := (cst_cpu cs)[i := pc],
          cst_all := a\<lparr>pcp_instr := pcp_instr a + pcp_instr pc, pcp_cycle := pcp_cycle a + pcp_cycle pc\<rparr>\<rparr>))"

definition getperfevents :: "perfenv \<Rightarrow> cpustat \<Rightarrow> perfvars \<Rightarrow> (int + cpustat \<times> perfvars) option" where
  "getperfevents e cs pf =
     (if pf_firstcall pf then perf_init e cs pf
      else if pf_cpualloced pf = 0 then Some (Inr (cs, pf))
      else
        map_option (\<lambda>cs. Inr (cs, pf))
          (perf_loop e pf [0..<nat (sint (pf_cpualloced pf))] (cs\<lparr>cst_all := (cst_all cs)\<lparr>pcp_instr := 0, pcp_cycle := 0\<rparr>\<rparr>)))"

section \<open>The sampler\<close>

text \<open>The static variables.\<close>

record sysstatics =
  sys_part_stats :: bool
  sys_lvmcache :: lvmcache
  sys_perf :: perfvars

text \<open>
  What surrounds the sampler: the working directory can be read, changed and restored; files; the conversion \<open>%f\<close>; the size of a page;
  shared memory; disks; privileges; events; and the local variables before they are set.
\<close>

record sysenv =
  se_getcwd :: bool
  se_chdir :: bool
  se_chdir_back :: bool
  se_fopen :: "string \<Rightarrow> string option"
  se_floats :: "string \<Rightarrow> u32 list"
  se_pagesize :: u32
  se_shm :: "(u64 \<times> u64) option"
  se_disk :: diskenv
  se_drop :: bool
  se_perfenv :: perfenv
  se_scanbuf :: scanbuf
  se_diskvars :: diskvars
  se_mountvars :: mountvars

text \<open>The parts that read the files below \<^verbatim>\<open>/proc\<close>, up to the mounts.\<close>

definition photo_cpu_mem :: "sysenv \<Rightarrow> sstat \<Rightarrow> (scanbuf \<times> sstat) option" where
  "photo_cpu_mem e si =
     do {
       let fopen = se_fopen e;
       (sb, si) \<leftarrow> proc_stat (fopen ''stat'') (se_scanbuf e) si;
       c \<leftarrow> frequencies fopen (loadavg (se_floats e) (fopen ''loadavg'') (ss_cpu si));
       (sb, m) \<leftarrow> vmstat (fopen ''vmstat'') sb (ss_mem si);
       (sb, m) \<leftarrow> meminfo (se_pagesize e) (fopen ''meminfo'') sb m;
       (sb, m) \<leftarrow> vmmemctl (fopen ''vmmemctl'') sb m;
       Some (sb, si\<lparr>ss_cpu := c, ss_mem := m\<rparr>)
     }"

definition photo_net :: "sysenv \<Rightarrow> scanbuf \<Rightarrow> sstat \<Rightarrow> sstat option" where
  "photo_net e sb si =
     do {
       let fopen = se_fopen e;
       f \<leftarrow> netdev (fopen ''net/dev'') (ss_intf si);
       (sb, n) \<leftarrow> snmp (fopen ''net/snmp'') sb (ss_net si);
       (sb, n) \<leftarrow> snmp6 (fopen ''net/snmp6'') sb n;
       Some (si\<lparr>ss_intf := f, ss_net := n\<rparr>)
     }"

definition photo_disk :: "sysenv \<Rightarrow> sysstatics \<Rightarrow> sstat \<Rightarrow> (sstat \<times> sysstatics) option" where
  "photo_disk e st si =
     do {
       let fopen = se_fopen e;
       (part_stats, cache, d) \<leftarrow> partitions (se_disk e) (fopen ''partitions'') (sys_part_stats st) (sys_lvmcache st) (ss_dsk si);
       (cache, d) \<leftarrow> diskstats (se_disk e) (fopen ''diskstats'') (se_diskvars e) cache d;
       Some (si\<lparr>ss_dsk := d\<rparr>, st\<lparr>sys_part_stats := part_stats, sys_lvmcache := cache\<rparr>)
     }"

definition photo_nfs :: "sysenv \<Rightarrow> sstat \<Rightarrow> sstat option" where
  "photo_nfs e si =
     do {
       let fopen = se_fopen e;
       let n = ss_nfs si;
       mounts \<leftarrow> mountstats (fopen ''self/mountstats'') (se_mountvars e) (nfs_nfsmounts n);
       Some (si\<lparr>ss_mem := shm_stat (se_shm e) (ss_mem si),
         ss_nfs := n\<lparr>nfs_server := nfsd (fopen ''net/rpc/nfsd'') (nfs_server n),
                     nfs_client := nfs_rpc (fopen ''net/rpc/nfs'') (nfs_client n), nfs_nfsmounts := mounts\<rparr>\<rparr>)
     }"

definition photosyst :: "sysenv \<Rightarrow> sysstatics \<Rightarrow> (int + sstat \<times> sysstatics) option" where
  "photosyst e st =
     (if \<not> se_getcwd e \<or> \<not> se_chdir e then Some (Inl 53)
      else
        do {
          (sb, si) \<leftarrow> photo_cpu_mem e sstat0;
          si \<leftarrow> photo_net e sb si;
          (si, st) \<leftarrow> photo_disk e st si;
          si \<leftarrow> photo_nfs e si;
          if \<not> se_drop e then Some (Inl 42)
          else
            do {
              cfs \<leftarrow> containers (se_fopen e ''user_beancounters'') (se_fopen e ''vz/vestat'') (ss_cfs si);
              if \<not> se_chdir_back e then Some (Inl 53)
              else
                map_option
                  (map_sum id (\<lambda>(c, pf). (si\<lparr>ss_cfs := cfs, ss_cpu := c\<rparr>, st\<lparr>sys_perf := pf\<rparr>)))
                  (getperfevents (se_perfenv e) (ss_cpu si) (sys_perf st))
            }
        })"

section \<open>Boot time\<close>

text \<open>The pid that \<open>fork\<close> returned, the time, and files.\<close>

record bootenv =
  be_fork :: i32
  be_sec :: i64
  be_nsec :: i64
  be_fopen :: "string \<Rightarrow> string option"

definition boot_fmt :: string where
  "boot_fmt = ''%*d (%*[^)]) %*c %*d %*d %*d %*d %*d %*d %*d %*d %*d %*d %*d %*d %*d %*d %*d %*d %*d %*d %lu''"

text \<open>The parent: the boot time, and the process it kills afterwards.\<close>

definition getbootlinux :: "bootenv \<Rightarrow> i64 \<Rightarrow> u64 \<times> i32" where
  "getbootlinux e hz =
     (let cpid = be_fork e;
          bootjiffies = be_sec e * hz + cdiv (be_nsec e * hz) 1000000000;
          bootjiffies =
            (case be_fopen e (''/proc/'' @ decz (sint cpid) @ ''/stat'') of
               Some txt \<Rightarrow> (case sscanf txt boot_fmt of [startticks] \<Rightarrow> bootjiffies - vnum startticks | _ \<Rightarrow> bootjiffies)
             | None \<Rightarrow> bootjiffies)
      in (bootjiffies, cpid))"

section \<open>What holds of every sample\<close>

text \<open>A table of devices that is closed behind as many entries as its counter says.\<close>

definition closed_table :: "nat \<Rightarrow> ('a \<Rightarrow> chars) \<Rightarrow> i32 \<Rightarrow> 'a list \<Rightarrow> bool" where
  "closed_table maxn nm n t \<longleftrightarrow> length t = maxn \<and> 0 \<le> sint n \<and> sint n < int maxn \<and> \<not> cnonempty (nm (t ! unat n))"

definition sample_ok :: "sstat \<Rightarrow> bool" where
  "sample_ok si \<longleftrightarrow>
     length (cst_cpu (ss_cpu si)) = MAXCPU \<and>
     closed_table MAXINTF pif_name (ifs_nrintf (ss_intf si)) (ifs_intf (ss_intf si)) \<and>
     closed_table MAXDSK pdk_name (dks_ndsk (ss_dsk si)) (dks_dsk (ss_dsk si)) \<and>
     closed_table MAXMDD pdk_name (dks_nmdd (ss_dsk si)) (dks_mdd (ss_dsk si)) \<and>
     closed_table MAXLVM pdk_name (dks_nlvm (ss_dsk si)) (dks_lvm (ss_dsk si)) \<and>
     length (nmts_nfsmnt (nfs_nfsmounts (ss_nfs si))) = MAXNFSMOUNT \<and>
     0 \<le> sint (nmts_nrmounts (nfs_nfsmounts (ss_nfs si))) \<and> sint (nmts_nrmounts (nfs_nfsmounts (ss_nfs si))) < int MAXNFSMOUNT \<and>
     length (cts_cont (ss_cfs si)) = MAXCONTAINER \<and>
     0 \<le> sint (cts_nrcontainer (ss_cfs si)) \<and> sint (cts_nrcontainer (ss_cfs si)) \<le> int MAXCONTAINER + 1"

lemma closed_table_of_nat:
  assumes "n < maxn" "length t = maxn" "maxn < 2 ^ 31" "\<not> cnonempty (nm (t ! n))"
  shows "closed_table maxn nm (of_nat n) t"
  using assms by (simp add: closed_table_def signed_of_nat signed_take_bit_int_eq_self unat_of_nat)

lemma not_cnonempty_cclear [simp]: "\<not> cnonempty (cclear a)"
  by (simp add: cclear_def cnonempty_def)

subsection \<open>Interfaces\<close>

lemma netdev_any:
  assumes "closed_table MAXINTF pif_name (ifs_nrintf s) (ifs_intf s)"
  shows "\<exists>s'. netdev contents s = Some s' \<and> closed_table MAXINTF pif_name (ifs_nrintf s') (ifs_intf s')"
proof (cases contents)
  case None
  then show ?thesis using assms by (simp add: netdev_def)
next
  case (Some contents')
  let ?I = "\<lambda>(i, intf :: perintf list). i < MAXINTF - 1 \<and> length intf = MAXINTF"
  let ?J = "\<lambda>(i, intf :: perintf list). i < MAXINTF \<and> length intf = MAXINTF"
  have step: "\<exists>b s'. netdev_line l s = Some (b, s') \<and> (if b then ?J s' else ?I s')" if "?I s" for l s
    using that by (cases s) (auto simp: netdev_line_def Let_def MAXINTF_def)
  have weak: "?J s" if "?I s" for s using that by (cases s) auto
  have "?I (0, ifs_intf s)" using assms by (simp add: closed_table_def MAXINTF_def)
  from lines_loop_total [of ?I netdev_line ?J, OF step weak this, of "linebufs contents'"] obtain i intf where "each_line netdev_line contents' (0, ifs_intf s) = Some (i, intf)" "i < MAXINTF" "length intf = MAXINTF"
    by (auto simp: each_line_def)
  moreover from this(2,3) have "closed_table MAXINTF pif_name (of_nat i) (intf[i := (intf ! i)\<lparr>pif_name := cclear (pif_name (intf ! i))\<rparr>])"
    by (intro closed_table_of_nat) (simp_all add: MAXINTF_def)
  ultimately show ?thesis by (simp add: Some netdev_def)
qed

subsection \<open>Disks\<close>

definition closed_disks :: "dskstat \<Rightarrow> bool" where
  "closed_disks d \<longleftrightarrow> closed_table MAXDSK pdk_name (dks_ndsk d) (dks_dsk d) \<and> closed_table MAXMDD pdk_name (dks_nmdd d) (dks_mdd d) \<and>
     closed_table MAXLVM pdk_name (dks_nlvm d) (dks_lvm d)"

lemma partitions_step:
  assumes "partitions_line e l (i, dsk, c) = Some (b, i', dsk', c')"
  shows "length dsk' = length dsk \<and> (\<not> b \<and> i' = i \<or> i' = i + 1 \<and> b = (MAXDSK - 1 \<le> i + 1))"
proof -
  define vals where "vals = sscanf l ''%*d %*d %*d %255s %lld %*d %lld %*d %lld %*d %lld %*d %*d %lld %lld''"
  define px where "px = assign ((\<lambda>v x. x) # disk_vars) vals (dsk ! i)"
  have body: "partitions_line e l (i, dsk, c) =
      (if length dsk \<le> i then None
       else if length vals \<noteq> 7 then Some (False, i, dsk[i := px], c)
       else case isdisk e 0 0 (vstr (vals ! 0)) px MAXDKNAM c of
         None \<Rightarrow> None
       | Some (ty, px, c) \<Rightarrow>
           if ty \<noteq> DSKTYPE then Some (False, i, dsk[i := px], c) else Some (MAXDSK - 1 \<le> i + 1, i + 1, dsk[i := px], c))"
    unfolding partitions_line_def prod.case Let_def vals_def px_def ..
  show ?thesis
  proof (cases "length dsk \<le> i \<or> length vals \<noteq> 7")
    case True
    then show ?thesis using assms unfolding body by (auto split: if_splits)
  next
    case False
    then obtain ty px' c'' where "isdisk e 0 0 (vstr (vals ! 0)) px MAXDKNAM c = Some (ty, px', c'')"
      using assms unfolding body by (auto split: option.splits)
    then show ?thesis using assms False unfolding body by (auto split: if_splits)
  qed
qed

lemma partitions_any:
  assumes "closed_disks d" "partitions e contents part_stats cache d = Some (ps, cache', d')"
  shows "closed_disks d'"
proof (cases contents)
  case None
  then show ?thesis using assms by (simp add: partitions_def)
next
  case (Some contents')
  show ?thesis
  proof (cases part_stats)
    case False
    then show ?thesis using assms Some by (simp add: partitions_def)
  next
    case True
    let ?I = "\<lambda>(i, dsk :: perdsk list, _ :: lvmcache). i < MAXDSK - 1 \<and> length dsk = MAXDSK"
    let ?J = "\<lambda>(i, dsk :: perdsk list, _ :: lvmcache). i < MAXDSK \<and> length dsk = MAXDSK"
    obtain i dsk t where l: "lines_loop (partitions_line e) (linebufs contents') (0, dks_dsk d, cache) = Some (i, dsk, cache')"
      "end_table i dsk = Some t" "d' = d\<lparr>dks_dsk := t, dks_ndsk := of_nat i\<rparr>"
      using assms(2) Some True by (auto simp: partitions_def each_line_def bind_eq_Some_conv)
    have step: "if b then ?J s' else ?I s'" if "partitions_line e l s = Some (b, s')" "?I s" for l s b s'
      using that partitions_step [of e l "fst s" "fst (snd s)" "snd (snd s)" b "fst s'" "fst (snd s')" "snd (snd s')"]
      by (auto simp: split_beta)
    have weak: "?J s" if "?I s" for s using that by (cases s) auto
    have "?I (0, dks_dsk d, cache)" using assms(1) by (simp add: closed_disks_def closed_table_def MAXDSK_def)
    from lines_loop_inv [of "partitions_line e" ?I ?J, OF step weak this l(1)] have "closed_table MAXDSK pdk_name (of_nat i) t"
      using l(2) by (intro closed_table_of_nat) (auto simp: end_table_def MAXDSK_def split: if_splits)
    then show ?thesis using assms(1) l(3) by (simp add: closed_disks_def)
  qed
qed

lemma table_holds_closed: "table_holds maxn xs n t \<Longrightarrow> 0 < maxn \<Longrightarrow> closed_table maxn pdk_name n t"
  by (auto simp: table_holds_def closed_table_def)

lemma diskstats_any:
  assumes "closed_disks d" "diskstats e contents junk cache d = Some (cache', d')"
  shows "closed_disks d'"
proof (cases contents)
  case None
  then show ?thesis using assms by (simp add: diskstats_def)
next
  case (Some contents')
  have ok: "dsk_tables_ok d" using assms(1) by (simp add: closed_disks_def closed_table_def dsk_tables_ok_def)
  obtain rs s where "disk_list e (linebufs contents') (junk, cache) = Some (rs, s)"
    using assms(2) Some by (auto simp: diskstats_def each_line_def diskstats_loop bind_eq_Some_conv)
  from diskstats_holds [OF ok this] assms(2) Some show ?thesis
    by (auto simp: closed_disks_def MAXDSK_def MAXMDD_def MAXLVM_def intro!: table_holds_closed)
qed

subsection \<open>Processors\<close>

lemma stat_percpu_length: "stat_percpu nr nam cnts c = Some c' \<Longrightarrow> length (cst_cpu c') = length (cst_cpu c)"
  by (auto simp: stat_percpu_def Let_def split: if_splits)

lemma proc_stat_frame:
  assumes "proc_stat contents sb si = Some (sb', si')"
  shows "length (cst_cpu (ss_cpu si')) = length (cst_cpu (ss_cpu si)) \<and> ss_intf si' = ss_intf si \<and> ss_dsk si' = ss_dsk si \<and>
    ss_nfs si' = ss_nfs si \<and> ss_cfs si' = ss_cfs si \<and> ss_net si' = ss_net si"
proof (cases contents)
  case None
  then show ?thesis using assms by (simp add: proc_stat_def)
next
  case (Some contents')
  let ?I = "\<lambda>(_ :: scanbuf, si'). length (cst_cpu (ss_cpu si')) = length (cst_cpu (ss_cpu si)) \<and> ss_intf si' = ss_intf si \<and>
    ss_dsk si' = ss_dsk si \<and> ss_nfs si' = ss_nfs si \<and> ss_cfs si' = ss_cfs si \<and> ss_net si' = ss_net si"
  have store: "?I (sb', t')" if "stat_store nr nam cnts t = Some t'" "?I (sb, t)" for nr nam cnts t t' sb sb'
    using that by (auto simp: stat_store_def Let_def stat_percpu_length split: if_splits)
  have step: "?I s'" if a: "procstat_line l s = Some s'" "?I s" for l s s'
  proof -
    obtain sb1 t sb2 t' where s: "s = (sb1, t)" "s' = (sb2, t')" by (cases s; cases s')
    then obtain nr sb3 where "scan_line stat_fmt l sb1 = Some (nr, sb3)"
      using a(1) by (cases "scan_line stat_fmt l sb1") (auto simp: procstat_line_def)
    then have "t' = t \<or> stat_store nr (sb_nam sb3) (sb_cnts sb3) t = Some t'"
      using a(1) s by (auto simp: procstat_line_def split: if_splits)
    then show ?thesis using store a(2) s by blast
  qed
  obtain t where l: "lines_loop (go_on procstat_line) (linebufs contents') (sb, si) = Some (sb', t)"
    "si' = (if cst_nrcpu (ss_cpu t) = 0 then t\<lparr>ss_cpu := (ss_cpu t)\<lparr>cst_nrcpu := 1\<rparr>\<rparr> else t)"
    using assms Some by (auto simp: proc_stat_def each_line_def bind_eq_Some_conv)
  have "?I (sb, si)" by simp
  from go_on_inv [of procstat_line ?I, OF step this l(1)] show ?thesis using l(2) by auto
qed

lemma cpu_freqs_length: "cpu_freqs fopen is (cpu, d) = Some (cpu', d') \<Longrightarrow> length cpu' = length cpu"
proof (induction "is" arbitrary: cpu d)
  case (Cons i "is")
  obtain fc d1 where "cpu_freq fopen i (pcp_freqcnt (cpu ! i)) d = (fc, d1)" by fastforce
  with Cons show ?case by (auto split: if_splits)
qed simp

lemma cpuinfo_line_length: "cpuinfo_line n l (k, cpu) = Some (k', cpu') \<Longrightarrow> length cpu' = length cpu"
  by (auto simp: cpuinfo_line_def Let_def split: if_splits)

lemma frequencies_length:
  assumes "frequencies fopen c = Some c'"
  shows "length (cst_cpu c') = length (cst_cpu c)"
proof -
  obtain cpu d cpu' where c: "cpu_freqs fopen [0..<nat (sint (cst_nrcpu c))] (cst_cpu c, False) = Some (cpu, d)"
    "(case fopen ''cpuinfo'' of
        Some txt \<Rightarrow> if d then Some cpu else map_option snd (each_line (go_on (cpuinfo_line (cst_nrcpu c))) txt (-1, cpu))
      | None \<Rightarrow> Some cpu) = Some cpu'" "c' = c\<lparr>cst_cpu := cpu'\<rparr>"
    using assms by (auto simp: frequencies_def bind_eq_Some_conv)
  let ?I = "\<lambda>(_ :: i32, cpu' :: percpu list). length cpu' = length cpu"
  have step: "?I s'" if "cpuinfo_line (cst_nrcpu c) l s = Some s'" "?I s" for l s s'
    using that cpuinfo_line_length by (cases s; cases s') fastforce
  have "length cpu' = length cpu"
  proof (cases "fopen ''cpuinfo'' = None \<or> d")
    case True
    then show ?thesis using c(2) by (auto split: option.splits)
  next
    case False
    then obtain contents k where "lines_loop (go_on (cpuinfo_line (cst_nrcpu c))) (linebufs contents) (-1, cpu) = Some (k, cpu')"
      using c(2) by (auto simp: each_line_def)
    then have "?I (k, cpu')"
      by (rule go_on_inv [of "cpuinfo_line (cst_nrcpu c)" ?I, rotated 2]) (use step in auto)
    then show ?thesis by simp
  qed
  then show ?thesis using cpu_freqs_length [OF c(1)] c(3) by simp
qed

lemma perf_loop_length: "perf_loop e pf is cs = Some cs' \<Longrightarrow> length (cst_cpu cs') = length (cst_cpu cs)"
  by (induction e pf "is" cs rule: perf_loop.induct) (auto simp: Let_def split: if_splits)

lemma getperfevents_length: "getperfevents e cs pf = Some (Inr (cs', pf')) \<Longrightarrow> length (cst_cpu cs') = length (cst_cpu cs)"
  by (auto simp: getperfevents_def perf_init_def Let_def split: if_splits dest: perf_loop_length)

subsection \<open>Containers\<close>

lemma beans_step:
  assumes "beans_line l (i, cont) = Some (b, i', cont')" "-1 \<le> i" "i < int MAXCONTAINER"
  shows "length cont' = length cont \<and> -1 \<le> i' \<and> (if b then i' \<le> int MAXCONTAINER else i' < int MAXCONTAINER)"
  using assms by (auto simp: beans_line_def Let_def split: list.splits if_splits)

lemma vestat_length: "vestat_line l c = Some c' \<Longrightarrow> length (cts_cont c') = length (cts_cont c) \<and> cts_nrcontainer c' = cts_nrcontainer c"
  by (auto simp: vestat_line_def Let_def split: if_splits option.splits)

lemma mountstats_any:
  assumes "length (nmts_nfsmnt n) = MAXNFSMOUNT \<and> 0 \<le> sint (nmts_nrmounts n) \<and> sint (nmts_nrmounts n) < int MAXNFSMOUNT"
    "mountstats contents junk n = Some n'"
  shows "length (nmts_nfsmnt n') = MAXNFSMOUNT \<and> 0 \<le> sint (nmts_nrmounts n') \<and> sint (nmts_nrmounts n') < int MAXNFSMOUNT"
  using mountstats_range [of n contents junk] assms by (cases contents) (auto simp: mountstats_def)

lemma containers_any:
  assumes "length (cts_cont c) = MAXCONTAINER" "0 \<le> sint (cts_nrcontainer c)" "sint (cts_nrcontainer c) \<le> int MAXCONTAINER + 1"
    "containers beans vestat c = Some c'"
  shows "length (cts_cont c') = MAXCONTAINER \<and> 0 \<le> sint (cts_nrcontainer c') \<and> sint (cts_nrcontainer c') \<le> int MAXCONTAINER + 1"
proof (cases beans)
  case None
  then show ?thesis using assms by (simp add: containers_def)
next
  case (Some contents')
  let ?I = "\<lambda>(i, cont :: percontainer list). -1 \<le> i \<and> i < int MAXCONTAINER \<and> length cont = MAXCONTAINER"
  let ?J = "\<lambda>(i, cont :: percontainer list). -1 \<le> i \<and> i \<le> int MAXCONTAINER \<and> length cont = MAXCONTAINER"
  have step: "if b then ?J s' else ?I s'" if "beans_line l s = Some (b, s')" "?I s" for l s b s'
    using that beans_step by (cases s; cases s') (fastforce split: if_splits)
  have weak: "?J s" if "?I s" for s using that by (cases s) auto
  obtain i cont c1 where l: "lines_loop beans_line (linebufs contents') (-1, cts_cont c) = Some (i, cont)"
    "(case vestat of None \<Rightarrow> Some c1 | Some txt \<Rightarrow> each_line (go_on vestat_line) txt c1) = Some c'"
    "c1 = c\<lparr>cts_cont := cont, cts_nrcontainer := word_of_int (i + 1)\<rparr>"
    using assms(4) Some by (auto simp: containers_def each_line_def bind_eq_Some_conv Let_def)
  have "?I (-1, cts_cont c)" using assms(1) by (simp add: MAXCONTAINER_def)
  from lines_loop_inv [of beans_line ?I ?J, OF step weak this l(1)] have i: "-1 \<le> i" "i \<le> int MAXCONTAINER" "length cont = MAXCONTAINER" by auto
  then have "sint (word_of_int (i + 1) :: i32) = i + 1"
    by (simp only: signed_of_int) (simp add: signed_take_bit_int_eq_self MAXCONTAINER_def)
  moreover have "length (cts_cont c') = length cont \<and> cts_nrcontainer c' = word_of_int (i + 1)"
  proof (cases vestat)
    case None
    then show ?thesis using l(2,3) by auto
  next
    case (Some txt')
    let ?K = "\<lambda>c'. length (cts_cont c') = length cont \<and> cts_nrcontainer c' = word_of_int (i + 1)"
    have step: "?K s'" if "vestat_line l s = Some s'" "?K s" for l s s' using that vestat_length by metis
    have "?K c1" by (simp add: l(3))
    from go_on_inv [of vestat_line ?K, OF step this] show ?thesis using l(2) Some by (simp add: each_line_def)
  qed
  ultimately show ?thesis using i by simp
qed

subsection \<open>The whole sample\<close>

lemma photo_cpu_mem_frame:
  assumes "photo_cpu_mem e si = Some (sb, si')"
  shows "length (cst_cpu (ss_cpu si')) = length (cst_cpu (ss_cpu si)) \<and> ss_intf si' = ss_intf si \<and> ss_dsk si' = ss_dsk si \<and>
    ss_nfs si' = ss_nfs si \<and> ss_cfs si' = ss_cfs si"
proof -
  obtain sb1 si1 c where c: "proc_stat (se_fopen e ''stat'') (se_scanbuf e) si = Some (sb1, si1)"
    "frequencies (se_fopen e) (loadavg (se_floats e) (se_fopen e ''loadavg'') (ss_cpu si1)) = Some c"
    "ss_cpu si' = c" "ss_intf si' = ss_intf si1" "ss_dsk si' = ss_dsk si1" "ss_nfs si' = ss_nfs si1" "ss_cfs si' = ss_cfs si1"
    using assms by (auto simp: photo_cpu_mem_def bind_eq_Some_conv Let_def)
  have "cst_cpu (loadavg (se_floats e) (se_fopen e ''loadavg'') (ss_cpu si1)) = cst_cpu (ss_cpu si1)"
    by (auto simp: loadavg_def Let_def split: option.split list.split)
  then show ?thesis using frequencies_length [OF c(2)] proc_stat_frame [OF c(1)] c(3-) by simp
qed

lemma photo_net_frame:
  "photo_net e sb si = Some si' \<Longrightarrow> netdev (se_fopen e ''net/dev'') (ss_intf si) = Some (ss_intf si') \<and> ss_cpu si' = ss_cpu si \<and>
     ss_dsk si' = ss_dsk si \<and> ss_nfs si' = ss_nfs si \<and> ss_cfs si' = ss_cfs si"
  by (auto simp: photo_net_def bind_eq_Some_conv Let_def)

lemma photo_disk_frame:
  "photo_disk e st si = Some (si', st') \<Longrightarrow>
     (\<exists>ps cache d. partitions (se_disk e) (se_fopen e ''partitions'') (sys_part_stats st) (sys_lvmcache st) (ss_dsk si) = Some (ps, cache, d) \<and>
        diskstats (se_disk e) (se_fopen e ''diskstats'') (se_diskvars e) cache d = Some (sys_lvmcache st', ss_dsk si')) \<and>
     ss_cpu si' = ss_cpu si \<and> ss_intf si' = ss_intf si \<and> ss_nfs si' = ss_nfs si \<and> ss_cfs si' = ss_cfs si \<and> sys_perf st' = sys_perf st"
  by (auto simp: photo_disk_def bind_eq_Some_conv Let_def)

lemma photo_nfs_frame:
  "photo_nfs e si = Some si' \<Longrightarrow>
     mountstats (se_fopen e ''self/mountstats'') (se_mountvars e) (nfs_nfsmounts (ss_nfs si)) = Some (nfs_nfsmounts (ss_nfs si')) \<and>
     ss_cpu si' = ss_cpu si \<and> ss_intf si' = ss_intf si \<and> ss_dsk si' = ss_dsk si \<and> ss_cfs si' = ss_cfs si"
  by (auto simp: photo_nfs_def bind_eq_Some_conv Let_def)

lemma map_sum_Inr: "map_sum f g x = Inr y \<longleftrightarrow> (\<exists>z. x = Inr z \<and> y = g z)"
  by (cases x) auto

lemma photosyst_parts:
  assumes "photosyst e st = Some (Inr (si, st'))"
  shows "\<exists>sb si1 ps cache d.
    photo_cpu_mem e sstat0 = Some (sb, si1) \<and>
    netdev (se_fopen e ''net/dev'') (ss_intf si1) = Some (ss_intf si) \<and>
    partitions (se_disk e) (se_fopen e ''partitions'') (sys_part_stats st) (sys_lvmcache st) (ss_dsk si1) = Some (ps, cache, d) \<and>
    diskstats (se_disk e) (se_fopen e ''diskstats'') (se_diskvars e) cache d = Some (sys_lvmcache st', ss_dsk si) \<and>
    mountstats (se_fopen e ''self/mountstats'') (se_mountvars e) (nfs_nfsmounts (ss_nfs si1)) = Some (nfs_nfsmounts (ss_nfs si)) \<and>
    containers (se_fopen e ''user_beancounters'') (se_fopen e ''vz/vestat'') (ss_cfs si1) = Some (ss_cfs si) \<and>
    getperfevents (se_perfenv e) (ss_cpu si1) (sys_perf st) = Some (Inr (ss_cpu si, sys_perf st'))"
proof -
  obtain sb si1 si2 si3 st3 si4 cfs c pf where p: "photo_cpu_mem e sstat0 = Some (sb, si1)" "photo_net e sb si1 = Some si2"
    "photo_disk e st si2 = Some (si3, st3)" "photo_nfs e si3 = Some si4"
    "containers (se_fopen e ''user_beancounters'') (se_fopen e ''vz/vestat'') (ss_cfs si4) = Some cfs"
    "getperfevents (se_perfenv e) (ss_cpu si4) (sys_perf st3) = Some (Inr (c, pf))"
    "si = si4\<lparr>ss_cfs := cfs, ss_cpu := c\<rparr>" "st' = st3\<lparr>sys_perf := pf\<rparr>"
    using assms by (auto simp: photosyst_def bind_eq_Some_conv map_sum_Inr split: if_splits)
  then show ?thesis
    using photo_net_frame [OF p(2)] photo_disk_frame [OF p(3)] photo_nfs_frame [OF p(4)] by auto
qed

lemma sstat0_ok: "sample_ok sstat0"
proof -
  have e: "\<not> cnonempty (pif_name perintf0)" "\<not> cnonempty (pdk_name perdsk0)" by (simp_all add: perintf0_def perdsk0_def cnonempty_def)
  show ?thesis
    using e by (simp add: sample_ok_def closed_table_def sstat0_def cpustat0_def intfstat0_def dskstat0_def nfsstat0_def nfsmounts0_def contstat0_def
        MAXCPU_def MAXINTF_def MAXDSK_def MAXMDD_def MAXLVM_def MAXNFSMOUNT_def MAXCONTAINER_def)
qed

text \<open>
  C12: Whatever the files below \<^verbatim>\<open>/proc\<close> contain, a sample that \<open>photosyst\<close> delivers is well formed: the tables of interfaces, disks,
  multiple devices and logical volumes are closed by an empty name behind as many entries as their counters say, the counter of mounts
  is within its table, and the counter of containers exceeds its table by at most one.
\<close>

theorem photosyst_sample_ok:
  assumes "photosyst e st = Some (Inr (si, st'))"
  shows "sample_ok si"
proof -
  obtain sb si1 ps cache d where p: "photo_cpu_mem e sstat0 = Some (sb, si1)"
    "netdev (se_fopen e ''net/dev'') (ss_intf si1) = Some (ss_intf si)"
    "partitions (se_disk e) (se_fopen e ''partitions'') (sys_part_stats st) (sys_lvmcache st) (ss_dsk si1) = Some (ps, cache, d)"
    "diskstats (se_disk e) (se_fopen e ''diskstats'') (se_diskvars e) cache d = Some (sys_lvmcache st', ss_dsk si)"
    "mountstats (se_fopen e ''self/mountstats'') (se_mountvars e) (nfs_nfsmounts (ss_nfs si1)) = Some (nfs_nfsmounts (ss_nfs si))"
    "containers (se_fopen e ''user_beancounters'') (se_fopen e ''vz/vestat'') (ss_cfs si1) = Some (ss_cfs si)"
    "getperfevents (se_perfenv e) (ss_cpu si1) (sys_perf st) = Some (Inr (ss_cpu si, sys_perf st'))"
    using photosyst_parts [OF assms] by blast
  note frame = photo_cpu_mem_frame [OF p(1)] and ok0 = sstat0_ok [unfolded sample_ok_def]
  have "closed_table MAXINTF pif_name (ifs_nrintf (ss_intf si)) (ifs_intf (ss_intf si))"
    using netdev_any [of "ss_intf si1" "se_fopen e ''net/dev''"] p(2) frame ok0 by auto
  moreover have "closed_disks (ss_dsk si)"
    using diskstats_any [OF partitions_any [OF _ p(3)] p(4)] frame ok0 by (simp add: closed_disks_def)
  moreover have "length (nmts_nfsmnt (nfs_nfsmounts (ss_nfs si))) = MAXNFSMOUNT \<and>
      0 \<le> sint (nmts_nrmounts (nfs_nfsmounts (ss_nfs si))) \<and> sint (nmts_nrmounts (nfs_nfsmounts (ss_nfs si))) < int MAXNFSMOUNT"
    using mountstats_any [OF _ p(5)] frame ok0 by simp
  moreover have "length (cts_cont (ss_cfs si)) = MAXCONTAINER \<and>
      0 \<le> sint (cts_nrcontainer (ss_cfs si)) \<and> sint (cts_nrcontainer (ss_cfs si)) \<le> int MAXCONTAINER + 1"
    using containers_any [OF _ _ _ p(6)] frame ok0 by simp
  moreover have "length (cst_cpu (ss_cpu si)) = MAXCPU" using getperfevents_length [OF p(7)] frame ok0 by simp
  ultimately show ?thesis by (simp add: sample_ok_def closed_disks_def)
qed

text \<open>A system that has nothing to read but its interfaces.\<close>

definition sysenv_ex :: "string \<Rightarrow> sysenv" where
  "sysenv_ex contents = \<lparr>se_getcwd = True, se_chdir = True, se_chdir_back = True,
     se_fopen = (\<lambda>name. if name = ''net/dev'' then Some contents else None),
     se_floats = (\<lambda>_. []), se_pagesize = 4096, se_shm = None, se_disk = diskenv_ex, se_drop = True,
     se_perfenv = \<lparr>pe_malloc = True, pe_open = (\<lambda>_ _. -1), pe_drop = True, pe_read = (\<lambda>_. None)\<rparr>,
     se_scanbuf = \<lparr>sb_nam = [], sb_cnts = replicate 64 0\<rparr>, se_diskvars = diskvars_ex,
     se_mountvars = \<lparr>mv_mountdev = [], mv_fstype = [], mv_cnt = replicate 8 0, mv_i = 0, mv_nfsmnt = []\<rparr>\<rparr>"

definition sysstatics_ex :: sysstatics where
  "sysstatics_ex = \<lparr>sys_part_stats = True, sys_lvmcache = None,
     sys_perf = \<lparr>pf_firstcall = True, pf_cpualloced = 0, pf_fdi = [], pf_fdc = []\<rparr>\<rparr>"

lemma photosyst_ex: "\<exists>si st'. photosyst (sysenv_ex contents) sysstatics_ex = Some (Inr (si, st'))"
proof -
  have "closed_table MAXINTF pif_name (ifs_nrintf (ss_intf sstat0)) (ifs_intf (ss_intf sstat0))"
    using sstat0_ok by (simp add: sample_ok_def)
  then obtain s' where n: "netdev (Some contents) (ss_intf sstat0) = Some s'"
    using netdev_any by blast
  have z: "cst_nrcpu (ss_cpu sstat0) = 0" by (simp add: sstat0_def cpustat0_def)
  show ?thesis
    using n z
    by (simp add: photosyst_def photo_cpu_mem_def photo_net_def photo_disk_def photo_nfs_def sysenv_ex_def sysstatics_ex_def proc_stat_def
        loadavg_def frequencies_def vmstat_def meminfo_def vmmemctl_def snmp_def snmp6_def partitions_def diskstats_def mountstats_def
        containers_def getperfevents_def perf_init_def Let_def)
qed

theorem photosyst_sample_ok_witness:
  "\<exists>si st'. photosyst (sysenv_ex (kernel_netdev netdev_heads netdev_ex)) sysstatics_ex = Some (Inr (si, st')) \<and> sample_ok si"
  using photosyst_ex photosyst_sample_ok [of "sysenv_ex (kernel_netdev netdev_heads netdev_ex)" sysstatics_ex] by blast

section \<open>The boot time\<close>

lemma directives_boot:
  "directives boot_fmt = [Num True False, Blank, Lit CHR ''('', Until 0 CHR '')'' False, Lit CHR '')'', Blank, SkipChr, Blank] @
     numbers (replicate 18 False) @ [Num False True]"
  by code_simp

lemma scan_suppressed:
  assumes "n < length xs"
  shows "scan (numbers (replicate n False) @ ds) (columns xs @ rest) = scan ds (columns (drop n xs) @ rest)"
  using assms
proof (induction n arbitrary: xs)
  case (Suc n)
  then obtain i ys where xs: "xs = i # ys" "n < length ys" by (cases xs) auto
  then obtain j zs where ys: "ys = j # zs" by (cases ys) auto
  have "number_end ('' '' @ columns ys @ rest)" by simp
  from read_number_decz_strto [OF this, of True i] show ?case
    using Suc.IH [OF xs(2)] by (simp add: xs ys)
qed simp

text \<open>
  The boot time.  If the line of the child in \<^verbatim>\<open>/proc\<close> has 19 numbers behind its state (the name of the program without a closing
  parenthesis), the boot time is the present time in ticks less the ticks at which the child was started.
\<close>

theorem getbootlinux_start:
  assumes "be_fopen e (''/proc/'' @ decz (sint (be_fork e)) @ ''/stat'') = Some (kernel_stat pid name st xs tail)"
    and "name \<noteq> []" "CHR '')'' \<notin> set name" "\<not> isspace st" "19 \<le> length xs" "0 \<le> xs ! 18" "xs ! 18 < 2 ^ 64"
  shows "fst (getbootlinux e hz) = be_sec e * hz + cdiv (be_nsec e * hz) 1000000000 - word_of_int (xs ! 18)"
proof -
  have d: "drop 18 xs = xs ! 18 # drop 19 xs" using assms(5) Cons_nth_drop_Suc [of 18 xs] by simp
  have nat_lt: "\<not> 2 ^ 64 \<le> nat (xs ! 18)" using assms(6,7) by (simp add: not_le nat_less_iff)
  have "number_end ('' '' @ columns (drop 19 xs) @ tail)" by simp
  from read_number_decz_strto [OF this, of False "xs ! 18"]
  have "read_number False (decz (xs ! 18) @ '' '' @ columns (drop 19 xs) @ tail) = Some (word_of_int (xs ! 18), '' '' @ columns (drop 19 xs) @ tail)"
    using assms(6) nat_lt by (simp add: strto_def)
  then have last_num: "scan [Num False True] (columns (drop 18 xs) @ tail) = [VNum (word_of_int (xs ! 18))]" by (simp add: d)
  obtain i ys where xs: "xs = i # ys" using assms(5) by (cases xs) auto
  have "number_end ('' ('' @ name @ '') '' @ [st] @ '' '' @ columns xs @ tail)" by simp
  note pid = read_number_decz_strto [OF this, of True pid]
  have "takeWhile (\<lambda>d. d \<noteq> CHR '')'') (name @ CHR '')'' # s) = name" for s using assms(3) by (simp add: takeWhile_append)
  moreover have "\<not> isspace CHR ''(''" by (simp add: isspace_def)
  ultimately have "sscanf (kernel_stat pid name st xs tail) boot_fmt = scan (numbers (replicate 18 False) @ [Num False True]) (columns xs @ tail)"
    using pid assms(2,4) unfolding sscanf_def directives_boot kernel_stat_def by (simp add: xs)
  also have "\<dots> = [VNum (word_of_int (xs ! 18))]" using scan_suppressed [of 18 xs] assms(5) last_num by simp
  finally show ?thesis using assms(1) by (simp add: getbootlinux_def Let_def)
qed

definition bootenv_ex :: bootenv where
  "bootenv_ex = \<lparr>be_fork = 7, be_sec = 1000, be_nsec = 500000000,
     be_fopen = (\<lambda>name. if name = ''/proc/7/stat'' then Some (kernel_stat 7 ''atop'' CHR ''S'' (replicate 18 0 @ [90050]) []) else None)\<rparr>"

theorem getbootlinux_start_witness: "fst (getbootlinux bootenv_ex 100) = 10000"
proof -
  have "decz 7 = ''7''" by code_simp
  then have "be_fopen bootenv_ex (''/proc/'' @ decz (sint (be_fork bootenv_ex)) @ ''/stat'') =
      Some (kernel_stat 7 ''atop'' CHR ''S'' (replicate 18 0 @ [90050]) [])"
    by (simp add: bootenv_ex_def)
  moreover have "(replicate 18 0 @ [90050 :: int]) ! 18 = 90050" by (simp add: nth_append)
  ultimately have "fst (getbootlinux bootenv_ex 100) = be_sec bootenv_ex * 100 + cdiv (be_nsec bootenv_ex * 100) 1000000000 - word_of_int 90050"
    using getbootlinux_start [of bootenv_ex 7 "''atop''" "CHR ''S''" "replicate 18 0 @ [90050]" "[]" 100] by (simp add: isspace_def)
  then show ?thesis by (simp add: bootenv_ex_def cdiv_def)
qed

text \<open>If \<open>fork\<close> fails, the signal meant for the child goes to every process that may be killed.\<close>

lemma getbootlinux_no_child:
  "be_fork e = -1 \<Longrightarrow> snd (getbootlinux e hz) = -1"
  by (simp add: getbootlinux_def Let_def)

end
