(* ===== verification/Spec2Isabelle.thy ===== *)
theory Spec2Isabelle
  imports Deviate_Sample Netatop Task_Sampler Total_Syst Addr_Parser Prg_Cache Various Cumulate Acctproc Zprocess Raw_Browse Photosyst
begin

text \<open>
  Verification library of the monitoring programs under \<^verbatim>\<open>src/Qt\<close>.

  \<^bold>\<open>The program.\<close>  \<^verbatim>\<open>FakeAtop\<close> is a process and system monitor.  At the end of every interval a sampler fills the structures
  \<open>tstat\<close> (one per task) and \<open>sstat\<close> (the system) with running counters.  \<open>deviattask\<close> and \<open>deviatsyst\<close> turn them into the
  consumption of the interval: the former looks every task up in the process database, which holds the counters of the
  previous sample, and takes the traffic of exited tasks from the netatop store; the latter matches devices by name with the
  previous sample.  \<open>totalsyst\<close> adds up several intervals.  Exited processes come from process accounting
  (\<open>acctprocnt\<close>, \<open>acctphotoproc\<close>).  A sample is then selected, accumulated per user, program or container, sorted and
  formatted for display, or written to a raw log from which it can be shown again.  \<^verbatim>\<open>ZMonitor\<close> holds
  smaller monitors: owners of sockets, socket addresses, traffic per flow from captured packets, processor time of processes.

  \<^bold>\<open>Conventions.\<close>  A C integer is a word of its LP64 width, signed comparison is \<open><s\<close>, arithmetic wraps.  A character array is
  the list of its bytes, \<open>cstr\<close> the string in it.  The result \<open>None\<close> of an operation is undefined behaviour (a bad
  pointer, an index outside an array, an uninitialised value that matters) or a loop that does not end; \<open>Inl\<close> is the exit
  code of a program that stops.  What the sources do not contain is a parameter: \<open>malloc\<close> and what it leaves in memory,
  answers of system calls, contents of files, \<open>qsort\<close>, the \<open>regexec\<close> of a filter, zlib, \<open>localtime\<close>, the images of large structures.

  \<^bold>\<open>Theories and sources.\<close>
  \<^item> \<open>Prelude\<close>, \<open>Decimal\<close>: words, character arrays, arrays with bounds, decimal notation.
  \<^item> \<open>Task_Types\<close>, \<open>Sysstat\<close>: the structures of \<^verbatim>\<open>photoproc.h\<close>, \<^verbatim>\<open>photosyst.h\<close> and \<^verbatim>\<open>netstats.h\<close>.
  \<^item> \<open>Procdbase\<close> (\<^verbatim>\<open>procdbase.c\<close>): the six operations on a heap of linked nodes; \<open>Procdbase_Rep\<close>: buckets and
    residue ring as lists, kept by every operation; \<open>Task_Map\<close>: refinement of a map from task keys to counters;
    \<open>Task_Database\<close>: the protocol of the client as the locale \<open>residue_protocol\<close>, round trips, error cases.
  \<^item> \<open>Scanf\<close>: \<open>fgets\<close> and \<open>sscanf\<close> as the samplers use them, and the reading back of printed numbers; \<open>Photoproc\<close>
    (\<^verbatim>\<open>photoproc.c\<close>): the files of one task; \<open>Task_Sampler\<close> (\<^verbatim>\<open>photoproc.c\<close>): the walk over processes and threads.
  \<^item> \<open>Sys_Lines\<close>: loops over the lines of a file and the rows the kernel writes; \<open>Sys_Cpu\<close>, \<open>Sys_Mem\<close>, \<open>Sys_Net\<close>, \<open>Sys_Disk\<close>,
    \<open>Sys_Nfs\<close>, \<open>Disk_Names\<close> (\<^verbatim>\<open>photosyst.c\<close>): the files with the counters of the system, the recognition of disks and the names
    of logical volumes; every file as the kernel writes it is stored by name, whatever the order and number of its lines;
    \<open>Photosyst\<close>: the sampler as a whole, processor events, the boot time; a sample has closed tables whatever the files contain.
  \<^item> \<open>Netatop\<close> (\<^verbatim>\<open>netatopif.c\<close>): counters of running tasks, the stream of records of exited tasks, their hash table;
    \<open>Netatop_Probe\<close>: the connection to the kernel module and its daemon.
  \<^item> \<open>Deviate_Task\<close>, \<open>Deviate_Sample\<close> (\<^verbatim>\<open>deviate.c\<close>): \<open>subcount\<close>, \<open>calcdiff\<close>, \<open>deviattask\<close>; what a run does to
    the database, the pointer lists and the differences.
  \<^item> \<open>Deviate_Syst\<close>, \<open>Device_Match\<close>, \<open>Total_Syst\<close> (\<^verbatim>\<open>deviate.c\<close>): \<open>deviatsyst\<close> with the matching of interfaces, disks and
    containers, \<open>totalsyst\<close>; totals of successive differences telescope (locale \<open>named_table\<close>).
  \<^item> \<open>Ifprop\<close> (\<^verbatim>\<open>ifprop.c\<close>): the table of interface properties.
  \<^item> \<open>Acctproc\<close> (\<^verbatim>\<open>acctproc.c\<close>): compressed numbers, counting and reading of records across shadow files.
  \<^item> \<open>Task_Order\<close> (\<^verbatim>\<open>showlinux.c\<close>, \<^verbatim>\<open>showgeneric.c\<close>): comparison functions as instances of the locale \<open>three_way\<close>, sorting of
    the resource tables; \<open>Cumulate\<close> (\<^verbatim>\<open>showgeneric.c\<close>): selection and accumulation (locale \<open>ordered_grouping\<close>).
  \<^item> \<open>Various\<close> (\<^verbatim>\<open>various.c\<close>): conversions to text and back, widths.
  \<^item> \<open>Raw_Image\<close>, \<open>Rawlog\<close> (\<^verbatim>\<open>rawlog.c\<close>): images of header and record, \<open>rawwrite\<close>, \<open>rawread\<close>; \<open>Raw_Sample\<close>: one
    sample is read back; \<open>Raw_Browse\<close>: whole logs, movement of the user, failed writes.
  \<^item> \<open>Bandwidth\<close> (\<^verbatim>\<open>packetcap.c\<close>, locale \<open>flow_counter\<close>), \<open>Addr_Parser\<close> (\<^verbatim>\<open>zsocket.c\<close>, \<^verbatim>\<open>ultis.c\<close>), \<open>Prg_Cache\<close>
    (\<^verbatim>\<open>zsocket.c\<close>, locale \<open>name_cache\<close>), \<open>Zprocess\<close> (\<^verbatim>\<open>zprocess.c\<close>): the smaller monitors.

  \<^bold>\<open>Bounds and termination.\<close>  No definition has fuel.  Loops over arrays and lists are structural or have a measure; loops over
  linked nodes and the loops of \<open>rawread\<close> are \<^verbatim>\<open>partial_function (option)\<close>, and the theorems about them state that a result
  exists, or, for a log without samples, that none does.  Sizes are bounded only where the code has a bound: counts and
  compressed blocks of a raw log below 2 GiB, as the \<open>int\<close> parameters of its functions demand.

  \<^bold>\<open>Not modelled.\<close>  The HTTP counters of \<^verbatim>\<open>photosyst.c\<close> (not compiled; the conversion \<^verbatim>\<open>%f\<close> is a parameter); the curses display and
  the keyboard of \<^verbatim>\<open>showgeneric.c\<close>, the print functions of \<^verbatim>\<open>showsys.c\<close>, \<^verbatim>\<open>showprocs.c\<close>, \<^verbatim>\<open>showlinux.c\<close>,
  \<^verbatim>\<open>parseable.c\<close> and \<^verbatim>\<open>atopsar.c\<close> (output); switching accounting on and off, and \<^verbatim>\<open>atopacctd.c\<close>, \<^verbatim>\<open>netlink.c\<close>
  (sequences of system calls on semaphores, sockets and files); \<open>val2Hzstr\<close> (a quotient in floating point); C++ windows and generated code.
\<close>

section \<open>From the sampler to the deviations\<close>

text \<open>A sample in which no task occurs twice and no task id was reused since the tasks in \<open>M\<close> were seen.\<close>

definition new_sample :: "(task_key \<rightharpoonup> tstat) \<Rightarrow> tstat list \<Rightarrow> bool" where
  "new_sample M pres \<longleftrightarrow> distinct (map tkey pres) \<and>
     (\<forall>t\<in>set pres. \<forall>u. M (tkey t) = Some u \<longrightarrow> btime_near (gen_btime (t_gen u)) (gen_btime (t_gen t)))"

lemma groups_fit:
  assumes "new_sample M pres" "\<forall>t\<in>set pres. slot_ok t" "pres = concat gs" "\<forall>g\<in>set gs. group_ok g"
  shows "fits M pres"
proof -
  have "is_proc (hd pres)" if "pres \<noteq> []"
  proof -
    have ne: "\<forall>g\<in>set gs. g \<noteq> []" using assms(4) by (auto simp: group_ok_def)
    with that assms(3) obtain g gs' where gs: "gs = g # gs'" by (cases gs) auto
    then obtain h ts where "g = h # ts" "gen_isproc (t_gen h) = 1" using assms(4) by (auto simp: group_ok_def)
    then show ?thesis using assms(3) gs by simp
  qed
  then show ?thesis using assms(1,2) by (simp add: fits_def new_sample_def slot_ok_def)
qed

text \<open>
  C5: From the sampler to the database.  What \<open>photoproc\<close> delivers can be given to \<open>deviattask\<close>: if no task occurs twice and no task id was
  reused, \<open>deviattask\<close> ends without undefined behaviour and the database then holds exactly the sampled tasks.
\<close>

theorem photoproc_then_deviattask:
  assumes "calls_ok c" "hertz e \<noteq> 0" "sint maxtask \<le> int (length tasklist)" "\<forall>t\<in>set tasklist. slot_ok t"
    and "task_db d M" "alloc_total al" "fresh_nodes al" "\<And>n ts. al_tasks al n = Some ts \<Longrightarrow> length ts = n"
    "\<And>n ps. al_ptrs al n = Some ps \<Longrightarrow> length ps = n" "supportflags net AND NETATOPD = 0"
  shows "\<exists>sys tsk n. photoproc e c maxtask st s conn tasklist = Some (Inr (sys, tsk, n)) \<and> int (unat n) \<le> max 0 (sint maxtask) \<and>
    (new_sample M (take (unat n) tsk) \<longrightarrow>
      (\<exists>t. deviattask al pretime tot junk (take (unat n) tsk) [] d net = Some (Inr t) \<and> task_db (dt_pdb t) (tasks (take (unat n) tsk))))"
proof -
  obtain sys tsk n gs where p: "photoproc e c maxtask st s conn tasklist = Some (Inr (sys, tsk, n))" "\<forall>t\<in>set tsk. slot_ok t"
    "int (unat n) \<le> max 0 (sint maxtask)" "take (unat n) tsk = concat gs" "\<forall>g\<in>set gs. group_ok g"
    using photoproc_sample [OF assms(1-4), of st s conn] by (metis (no_types))
  have "\<exists>t. deviattask al pretime tot junk (take (unat n) tsk) [] d net = Some (Inr t) \<and> task_db (dt_pdb t) (tasks (take (unat n) tsk))"
    if new: "new_sample M (take (unat n) tsk)"
  proof -
    have "\<forall>t\<in>set (take (unat n) tsk). slot_ok t" using p(2) by (auto dest: in_set_takeD)
    then have "fits M (take (unat n) tsk)" using groups_fit [OF new _ p(4,5)] by simp
    moreover have "length (take (unat n) tsk) < 2 ^ 64"
      using unsigned_less [of n, where ?'a = nat] by simp
    ultimately have "sample_ready al d M (take (unat n) tsk) [] net"
      using assms(5-10) by (simp add: sample_ready_def)
    then show ?thesis
      using deviattask_sampled assms(6) task_abs_db unfolding sampled_def by blast
  qed
  with p(1,3) show ?thesis by blast
qed

text \<open>The database at the start, and a sample of the only process that there is room for.\<close>

definition pdb_start :: pdb where
  "pdb_start = \<lparr>pheap = [presidue \<mapsto> mk_node 0 0 0], phash = (\<lambda>_. None)\<rparr>"

lemma task_db_start: "task_db pdb_start Map.empty"
proof -
  have "hash_ok pdb_start (\<lambda>_. [])" by (simp add: hash_ok_def pdb_start_def)
  moreover have "task_view (pdb_peek pdb_start) (nodes (\<lambda>_. [])) Map.empty" by (simp add: task_view_def nodes_def)
  moreover have "Map.empty = view_map (pdb_peek pdb_start) Map.empty" by (simp add: view_map_def fun_eq_iff)
  ultimately show ?thesis unfolding task_db_def by (auto simp: pdb_start_def)
qed

theorem photoproc_then_deviattask_witness:
  "\<exists>sys tsk n t. photoproc photoenv_ex calls_ex 1 \<lparr>firstcall = True, bootepoch = 0\<rparr> net_ex netconn0 (replicate 2 tstat0) = Some (Inr (sys, tsk, n)) \<and>
     deviattask ex_alloc 0 100 tstat0 (take (unat n) tsk) [] pdb_start net_ex = Some (Inr t) \<and> task_db (dt_pdb t) (tasks (take (unat n) tsk))"
proof -
  have hyps: "\<forall>t\<in>set (replicate 2 tstat0). slot_ok t" "hertz photoenv_ex \<noteq> 0" "supportflags net_ex AND NETATOPD = 0"
    by (simp_all add: slot_ok_def tstat0_def gen0_def photoenv_ex_def net_ex_def)
  obtain sys tsk n where p: "photoproc photoenv_ex calls_ex 1 \<lparr>firstcall = True, bootepoch = 0\<rparr> net_ex netconn0 (replicate 2 tstat0) = Some (Inr (sys, tsk, n))"
    "int (unat n) \<le> 1" and dev: "new_sample Map.empty (take (unat n) tsk) \<Longrightarrow>
      \<exists>t. deviattask ex_alloc 0 100 tstat0 (take (unat n) tsk) [] pdb_start net_ex = Some (Inr t) \<and> task_db (dt_pdb t) (tasks (take (unat n) tsk))"
    using photoproc_then_deviattask [OF calls_ok_ex hyps(2) _ hyps(1) task_db_start alloc_ex _ _ hyps(3), of 1 "\<lparr>firstcall = True, bootepoch = 0\<rparr>" net_ex netconn0 0 100 tstat0]
    by (auto simp: ex_alloc_def)
  have "unat n \<le> 1" using p(2) by linarith
  then have "length (take (unat n) tsk) \<le> 1" by simp
  then have "new_sample Map.empty (take (unat n) tsk)"
    by (cases "take (unat n) tsk") (auto simp: new_sample_def)
  then show ?thesis using p(1) dev by blast
qed

section \<open>From the sample to the log and back\<close>

lemma sampled_dev_ok:
  assumes "sampled M tot ts0 pres ex s" "length pres + length ex < 2 ^ 31"
  shows "dev_ok (dt_dev s)"
proof -
  have unat_count: "w = of_nat n" if "unat w = n" for w :: u64 and n
    using that by auto
  have "nprocall (dt_dev s) = of_nat (length (procall (dt_dev s)))"
    "nprocactive (dt_dev s) = of_nat (length (procactive (dt_dev s)))"
    using assms(1) unfolding sampled_def by (simp_all add: unat_count)
  then show ?thesis
    using assms by (simp add: dev_ok_def sampled_def Let_def)
qed

text \<open>A layout and a compression with which the sample can be written, and system calls that do their work.\<close>

definition writable :: "layout \<Rightarrow> zlib \<Rightarrow> rawenv \<Rightarrow> wcalls \<Rightarrow> wsample \<Rightarrow> bool" where
  "writable L z g c ws \<longleftrightarrow> has_image L ws \<and> sizeof_sstat L < 2 ^ 31 \<and> sizeof_tstat L < 2 ^ 31 \<and>
     length (task_image L ws) < 2 ^ 31 \<and> fst (sys_comp L z ws) = 0 \<and> fst (task_comp L z ws) = 0 \<and>
     length (g_utsname g) = sizeof_utsname \<and> complete L z c ws"

text \<open>
  C4: A sample survives the log.  \<open>deviattask\<close> leaves lists and counts that agree with its tasks; when the result is written with
  \<open>rawwrite\<close> and the log is read with \<open>rawread\<close>, the display gets exactly the deviations that were computed, with the same
  lists of all and of active processes and the same counts; only the totals of running and sleeping threads are cut to 32 bits.
\<close>

theorem sample_survives_log:
  assumes "sample_ready al d M pres ex net" "alloc_total al" "length pres + length ex < 2 ^ 31" "zlib_ok z"
  shows "\<exists>s. deviattask al pretime tot junk pres ex d net = Some (Inr s) \<and>
    (\<forall>L g cw ws c sstat. ws_dev ws = dt_dev s \<and> writable L z g cw ws \<and> length sstat = sizeof_sstat L \<and>
      memory_ok c \<and> raw_name c rawname = Inr rawname \<longrightarrow>
      (\<exists>bs. rawwrite L z g cw ws (Unopened None) = Some (Inr (Opened bs (length bs))) \<and>
        (r_open c rawname = Some (Some bs) \<longrightarrow>
          (\<exists>g' st sh. rawread L z c scripted rawname 0 0 g sstat ([], []) = Some (Inr (g', st)) \<and>
             snd (st_vis st) = [sh] \<and> sh_dev sh = log_dev (dt_dev s) \<and> sh_sstat sh = ws_sstat ws \<and> sh_curtime sh = ws_curtime ws))))"
proof -
  obtain s ts0 where s: "deviattask al pretime tot junk pres ex d net = Some (Inr s)" "sampled M tot ts0 pres ex s"
    using deviattask_sampled [OF assms(1), of pretime tot junk] assms(2) by auto
  have "\<exists>bs. rawwrite L z g cw ws (Unopened None) = Some (Inr (Opened bs (length bs))) \<and>
      (r_open c rawname = Some (Some bs) \<longrightarrow>
        (\<exists>g' st sh. rawread L z c scripted rawname 0 0 g sstat ([], []) = Some (Inr (g', st)) \<and>
           snd (st_vis st) = [sh] \<and> sh_dev sh = log_dev (dt_dev s) \<and> sh_sstat sh = ws_sstat ws \<and> sh_curtime sh = ws_curtime ws))"
    if ws: "ws_dev ws = dt_dev s" and w: "writable L z g cw ws"
      and c: "length sstat = sizeof_sstat L" "memory_ok c" "raw_name c rawname = Inr rawname" for L g cw ws c sstat
  proof -
    let ?x = "(g_supportflags g, ws)"
    have ok: "entry_ok L z ?x"
      using sampled_dev_ok [OF s(2) assms(3)] ws w by (simp add: entry_ok_def writable_def)
    have wr: "writes_ok L z [(g, cw, ws)]" "length (g_utsname g) = sizeof_utsname"
      using ok w by (simp_all add: writes_ok_def writable_def)
    have lok: "log_ok L z c g [?x]"
      using ok w c(2) assms(4) by (simp add: log_ok_def writable_def)
    have "rawwrite L z g cw ws (Unopened None) = Some (Inr (Opened (log_image L z g [?x]) (length (log_image L z g [?x]))))"
      using rawwrite_all_creates [OF wr]
      by (cases "rawwrite L z g cw ws (Unopened None)") (auto simp: Let_def entries_def split: sum.splits)
    moreover have "\<exists>g' st sh. rawread L z c scripted rawname 0 0 g sstat ([], []) = Some (Inr (g', st)) \<and>
        snd (st_vis st) = [sh] \<and> sh_dev sh = log_dev (dt_dev s) \<and> sh_sstat sh = ws_sstat ws \<and> sh_curtime sh = ws_curtime ws"
      if "r_open c rawname = Some (Some (log_image L z g [?x]))"
      using rawread_log [OF lok _ _ c(3) that c(1), of "[]" 0 0 g] browse_all [of "[entry_secs c ?x]"] ws
      by (auto simp: keys_ok_def shown_entry_def)
    ultimately show ?thesis by blast
  qed
  with s(1) show ?thesis by (intro exI [of _ s]) blast
qed

text \<open>A layout that keeps the place of a task in a given list.\<close>

definition layout_of :: "tstat list \<Rightarrow> layout" where
  "layout_of ts = layout_ex\<lparr>
     tstat_image := (\<lambda>t. word_le (of_nat (length (takeWhile (\<lambda>u. u \<noteq> t) ts)) :: u32) @ padding 12),
     tstat_value := (\<lambda>bs. ts ! unat (field_at bs 0 :: u32))\<rparr>"

lemma stripped_tail: "length (stripped (xs @ replicate n 0)) \<le> length xs"
proof -
  have "dropWhile (\<lambda>b. b = 0) (replicate n 0 @ rev xs) = dropWhile (\<lambda>b. b = 0) (rev xs)"
    by (rule dropWhile_append2) simp
  then show ?thesis
    using length_dropWhile_le [of "\<lambda>b. b = 0" "rev xs"] by (simp add: stripped_def)
qed

lemma layout_of_writable:
  assumes "0 < length ts" "length ts < 2 ^ 27" "taskall (ws_dev ws) = ts" "ws_sstat ws = sstat0"
    and "complete (layout_of ts) zlib_ex c ws"
  shows "writable (layout_of ts) zlib_ex env_ex c ws"
proof -
  let ?L = "layout_of ts"
  have place: "ts ! length (takeWhile (\<lambda>u. u \<noteq> t) ts) = t" "length (takeWhile (\<lambda>u. u \<noteq> t) ts) < length ts" if "t \<in> set ts" for t
    using that by (induction ts) auto
  have "unat (of_nat (length (takeWhile (\<lambda>u. u \<noteq> t) ts)) :: u32) = length (takeWhile (\<lambda>u. u \<noteq> t) ts)" if "t \<in> set ts" for t
    using place(2) [OF that] assms(2) by (intro ucast_of_nat_32(2)) simp
  then have im: "has_image ?L ws"
    using assms(3,4) place by (simp add: has_image_def layout_of_def layout_ex_def)
  have len: "length (task_image ?L ws) = 16 * length ts"
    by (simp add: length_task_image im assms(3)) (simp add: layout_of_def layout_ex_def)
  obtain us t where ts: "ts = us @ [t]"
    using assms(1) by (metis length_greater_0_conv rev_exhaust)
  have "length (stripped (task_image ?L ws)) \<le> 16 * length ts - 12"
  proof -
    have "task_image ?L ws = (concat (map (tstat_image ?L) us) @ word_le (of_nat (length (takeWhile (\<lambda>u. u \<noteq> t) ts)) :: u32)) @ replicate 12 0"
      unfolding task_image_def assms(3) by (subst (2) ts) (simp add: layout_of_def padding_def)
    then show ?thesis
      using stripped_tail len by (metis add_diff_cancel_right' length_append length_replicate)
  qed
  then have "4 + length (stripped (task_image ?L ws)) \<le> 16 * length ts"
    using assms(1) by linarith
  then have "fst (task_comp ?L zlib_ex ws) = 0"
    using assms(2) len by (simp add: task_comp_def zlib_ex_def)
  moreover have "fst (sys_comp ?L zlib_ex ws) = 0"
    by (simp add: sys_comp_def layout_of_def layout_ex_def zlib_ex_def stripped_def assms(4))
  ultimately show ?thesis
    using im len assms(2,5) sizes_ex(3) by (simp add: writable_def) (simp add: layout_of_def layout_ex_def)
qed

theorem sample_survives_log_witness:
  "\<exists>s L cw ws bs g' st sh. deviattask ex_alloc 0 100 tstat0 ex_pres ex_exit ex_pdb ex_netatop = Some (Inr s) \<and>
    rawwrite L zlib_ex env_ex cw ws (Unopened None) = Some (Inr (Opened bs (length bs))) \<and>
    rawread L zlib_ex (rcalls_ex bs) scripted ''log'' 0 0 env_ex (replicate 16 0) ([], []) = Some (Inr (g', st)) \<and>
    snd (st_vis st) = [sh] \<and> sh_dev sh = log_dev (dt_dev s) \<and> length (taskall (sh_dev sh)) = 3"
proof -
  have n: "length ex_pres + length ex_exit < 2 ^ 31" "length ex_pres + length ex_exit = 3"
    by (simp_all add: ex_pres_def ex_exit_def)
  from sample_survives_log [OF sample_ready_ex alloc_ex(1) n(1) zlib_ok_ex, of 0 100 tstat0 "''log''"] obtain s where
    s: "deviattask ex_alloc 0 100 tstat0 ex_pres ex_exit ex_pdb ex_netatop = Some (Inr s)" and
    log: "\<And>L g cw ws c sstat. ws_dev ws = dt_dev s \<Longrightarrow> writable L zlib_ex g cw ws \<Longrightarrow> length sstat = sizeof_sstat L \<Longrightarrow>
      memory_ok c \<Longrightarrow> raw_name c ''log'' = Inr ''log'' \<Longrightarrow>
      \<exists>bs. rawwrite L zlib_ex g cw ws (Unopened None) = Some (Inr (Opened bs (length bs))) \<and>
        (r_open c ''log'' = Some (Some bs) \<longrightarrow>
          (\<exists>g' st sh. rawread L zlib_ex c scripted ''log'' 0 0 g sstat ([], []) = Some (Inr (g', st)) \<and>
             snd (st_vis st) = [sh] \<and> sh_dev sh = log_dev (dt_dev s) \<and> sh_sstat sh = ws_sstat ws \<and> sh_curtime sh = ws_curtime ws))"
    by blast
  obtain ts0 where "sampled ex_tasks 100 ts0 ex_pres ex_exit s"
    using deviattask_sampled [OF sample_ready_ex, of 0 100 tstat0] s alloc_ex(1) by auto
  then have len: "length (taskall (dt_dev s)) = 3"
    using n(2) by (simp add: sampled_def)
  define ws where "ws = (ws_ex 1 0)\<lparr>ws_dev := dt_dev s\<rparr>"
  define L where "L = layout_of (taskall (dt_dev s))"
  define cw where "cw = (wcalls_ex ws)\<lparr>w_sstat := int (length (snd (sys_comp L zlib_ex ws))),
    w_tstat := int (length (snd (task_comp L zlib_ex ws)))\<rparr>"
  have ws: "ws_dev ws = dt_dev s" "writable L zlib_ex env_ex cw ws"
    unfolding L_def
    by (simp add: ws_def, rule layout_of_writable)
      (simp_all add: len ws_def ws_ex_def cw_def wcalls_ex_def complete_def sizeof_rawheader_def sizeof_rawrecord_def L_def)
  have size: "length (replicate 16 (0 :: byte)) = sizeof_sstat L"
    by (simp add: L_def layout_of_def layout_ex_def)
  obtain bs where bs: "rawwrite L zlib_ex env_ex cw ws (Unopened None) = Some (Inr (Opened bs (length bs)))"
    using log [OF ws size memory_ok_ex sizes_ex(4), of "[]"] by blast
  then obtain g' st sh where "rawread L zlib_ex (rcalls_ex bs) scripted ''log'' 0 0 env_ex (replicate 16 0) ([], []) = Some (Inr (g', st))"
    "snd (st_vis st) = [sh]" "sh_dev sh = log_dev (dt_dev s)"
    using log [OF ws size memory_ok_ex sizes_ex(4), of bs] sizes_ex(5) [of bs "''log''"] by auto
  then show ?thesis
    using s bs len by (fastforce simp: log_dev_def)
qed

section \<open>From the files of the kernel to the deviations of the interfaces\<close>

text \<open>The counters of an interface of a file.\<close>

definition kcounts :: "(nat \<times> int) list \<Rightarrow> count_t list" where
  "kcounts ps = map word_of_int (take 16 (map snd ps))"

lemma photosyst_netdev:
  assumes "photosyst e st = Some (Inr (si, st'))" "se_fopen e ''net/dev'' = Some (kernel_netdev hs ks)"
    and "\<forall>h\<in>set hs. heading_ok h" "\<forall>k\<in>set ks. kintf_ok k" "length ks < MAXINTF"
  shows "\<exists>is z rest. ifs_intf (ss_intf si) = is @ z # rest \<and> \<not> cnonempty (pif_name z) \<and> length is = length ks \<and>
    (\<forall>i < length ks. cstr (pif_name (is ! i)) = fst (ks ! i) \<and> intf_columns (is ! i) = kcounts (snd (ks ! i)))"
proof -
  obtain sb si1 where p: "photo_cpu_mem e sstat0 = Some (sb, si1)" "netdev (se_fopen e ''net/dev'') (ss_intf si1) = Some (ss_intf si)"
    using photosyst_parts [OF assms(1)] by blast
  have len: "length (ifs_intf (ss_intf si1)) = MAXINTF"
    using photo_cpu_mem_frame [OF p(1)] by (simp add: sstat0_def intfstat0_def MAXINTF_def)
  have n: "min (length ks) (MAXINTF - 1) = length ks" using assms(5) by simp
  obtain intf where i: "ifs_intf (ss_intf si) = intf" "length intf = MAXINTF" "\<not> cnonempty (pif_name (intf ! length ks))"
    and t: "map (\<lambda>p. (cstr (pif_name p), intf_columns p)) (take (length ks) intf) =
      map (\<lambda>(name, ps). (name, map word_of_int (take 16 (map snd ps)))) ks"
    using netdev_kernel [OF assms(3,4) len] p(2) unfolding assms(2) n by auto
  have "intf = take (length ks) intf @ intf ! length ks # drop (Suc (length ks)) intf"
    using i(2) assms(5) by (simp add: id_take_nth_drop)
  moreover have "cstr (pif_name (take (length ks) intf ! j)) = fst (ks ! j) \<and>
      intf_columns (take (length ks) intf ! j) = kcounts (snd (ks ! j))" if "j < length ks" for j
    using arg_cong [OF t, of "\<lambda>xs. xs ! j"] that i(2) assms(5) by (simp add: split_beta kcounts_def)
  ultimately show ?thesis
    using i assms(5) by (intro exI [of _ "take (length ks) intf"] exI [of _ "intf ! length ks"] exI [of _ "drop (Suc (length ks)) intf"]) auto
qed

lemma kernel_in_use:
  assumes "length is = length ks" "\<forall>i < length ks. cstr (pif_name (is ! i)) = fst (ks ! i)" "\<forall>k\<in>set ks. kintf_ok k"
  shows "in_use pif_name is"
  unfolding in_use_def
proof
  fix x assume "x \<in> set is"
  then obtain i where i: "i < length ks" "x = is ! i" using assms(1) by (metis in_set_conv_nth)
  then have "kintf_ok (ks ! i)" "cstr (pif_name x) = fst (ks ! i)" using assms(2,3) by simp_all
  then show "cnonempty (pif_name x)" by (cases "ks ! i") (simp add: kintf_ok_def word_ok_def cnonempty_def)
qed

lemma columns_with_props [simp]:
  "intf_columns (with_props ifprops c) = intf_columns c" "pif_name (with_props ifprops c) = pif_name c"
  by (simp_all add: with_props_def intf_columns_def split: option.split)

lemma columns_diff [simp]:
  "intf_columns (intf_diff c p d) = map2 subcount (intf_columns c) (intf_columns p)" "cstr (pif_name (intf_diff c p d)) = cstr (pif_name c)"
  by (simp_all add: intf_diff_def intf_columns_def)

text \<open>The traffic of an interface since an earlier file.\<close>

definition traffic :: "kintf list \<Rightarrow> kintf \<Rightarrow> count_t list" where
  "traffic old k =
     (case map_of old (fst k) of None \<Rightarrow> kcounts (snd k) | Some ps \<Rightarrow> map2 subcount (kcounts (snd k)) (kcounts ps))"

lemma find_map_of:
  assumes "length ps = length ks" "\<forall>i < length ks. cstr (pif_name (ps ! i)) = fst (ks ! i) \<and> intf_columns (ps ! i) = kcounts (snd (ks ! i))"
  shows "map_option intf_columns (List.find (same_name pif_name c) ps) = map_option kcounts (map_of ks (cstr (pif_name c)))"
  using assms
proof (induction ps ks rule: list_induct2)
  case (Cons p ps k ks)
  then have "cstr (pif_name p) = fst k \<and> intf_columns p = kcounts (snd k)" by force
  moreover have "map_option intf_columns (List.find (same_name pif_name c) ps) = map_option kcounts (map_of ks (cstr (pif_name c)))"
    using Cons.prems by (intro Cons.IH) (metis Suc_mono length_Cons nth_Cons_Suc)
  ultimately show ?case by (cases k) (auto simp: streq_def)
qed simp

text \<open>
  C6: From the files of the kernel to the deviations.  If two samples saw a \<^verbatim>\<open>/proc/net/dev\<close> as the kernel writes it, however interfaces
  came, went or changed places in between, \<open>deviatsyst\<close> shows for every interface of the second file, in the order of the file and under
  its name, all sixteen counters less those of the interface of that name in the first file; a new interface shows its counters.
\<close>

theorem interface_traffic:
  assumes "photosyst e1 st1 = Some (Inr (pre, st1'))" "se_fopen e1 ''net/dev'' = Some (kernel_netdev hs1 old)"
    and "photosyst e2 st2 = Some (Inr (cur, st2'))" "se_fopen e2 ''net/dev'' = Some (kernel_netdev hs2 new)"
    and "\<forall>h\<in>set (hs1 @ hs2). heading_ok h" "\<forall>k\<in>set (old @ new). kintf_ok k" "length old < MAXINTF" "length new < MAXINTF"
    and "old \<noteq> []" "distinct (map fst old)" "length (ifs_intf dev) = MAXINTF" "\<exists>p\<in>set ifprops. \<not> cnonempty (ifp_name p)"
  shows "\<exists>cur' dev'. deviat_intf ifprops junk (ss_intf cur) (ss_intf pre) dev = Some (cur', ss_intf pre, dev') \<and>
    ifs_nrintf dev' = of_nat (length new) \<and>
    (\<forall>i < length new. cstr (pif_name (ifs_intf dev' ! i)) = fst (new ! i) \<and> intf_columns (ifs_intf dev' ! i) = traffic old (new ! i))"
proof -
  have h: "\<forall>h\<in>set hs1. heading_ok h" "\<forall>h\<in>set hs2. heading_ok h"
    and k: "\<forall>k\<in>set old. kintf_ok k" "\<forall>k\<in>set new. kintf_ok k" using assms(5,6) by simp_all
  obtain ps z rest where ps: "ifs_intf (ss_intf pre) = ps @ z # rest" "\<not> cnonempty (pif_name z)" "length ps = length old"
    "\<forall>i < length old. cstr (pif_name (ps ! i)) = fst (old ! i) \<and> intf_columns (ps ! i) = kcounts (snd (old ! i))"
    using photosyst_netdev [OF assms(1,2) h(1) k(1) assms(7)] by blast
  obtain cs z' rest' where cs: "ifs_intf (ss_intf cur) = cs @ z' # rest'" "\<not> cnonempty (pif_name z')" "length cs = length new"
    "\<forall>i < length new. cstr (pif_name (cs ! i)) = fst (new ! i) \<and> intf_columns (cs ! i) = kcounts (snd (new ! i))"
    using photosyst_netdev [OF assms(3,4) h(2) k(2) assms(8)] by blast
  have names: "names pif_name ps = map fst old"
    using ps(3,4) by (intro nth_equalityI) auto
  have use: "in_use pif_name ps" "in_use pif_name cs"
    using kernel_in_use [OF ps(3) _ k(1)] kernel_in_use [OF cs(3) _ k(2)] ps(4) cs(4) by simp_all
  have "ps \<noteq> []" "distinct (names pif_name ps)" "length cs < length (ifs_intf dev)" using ps(3) cs(3) names assms(8-11) by auto
  from deviat_intf_entries [OF cs(1) use(2) cs(2) ps(1) use(1) this(2,1) ps(2) this(3) assms(12)]
  obtain cur' dev' where d: "deviat_intf ifprops junk (ss_intf cur) (ss_intf pre) dev = Some (cur', ss_intf pre, dev')"
    "ifs_nrintf dev' = of_nat (length cs)"
    and e: "\<forall>i < length cs. ifs_intf dev' ! i = (let c = with_props ifprops (cs ! i) in
        case List.find (same_name pif_name c) ps of None \<Rightarrow> c | Some p \<Rightarrow> intf_diff c p (ifs_intf dev ! i))"
    by blast
  have "cstr (pif_name (ifs_intf dev' ! i)) = fst (new ! i) \<and> intf_columns (ifs_intf dev' ! i) = traffic old (new ! i)" if "i < length new" for i
    using e that cs(3,4) find_map_of [OF ps(3,4), of "cs ! i"]
    by (auto simp: traffic_def Let_def split: option.splits)
  with d cs(3) show ?thesis by metis
qed

definition netdev_ex2 :: "kintf list" where
  "netdev_ex2 = [(''wlan0'', map (Pair 7) [30, 2, 0, 0, 0, 0, 0, 0, 4, 1, 0, 0, 0, 0, 0, 0]),
     (''eth0'', map (Pair 7) [100, 9, 0, 1, 0, 0, 0, 2, 75, 7, 0, 0, 0, 0, 0, 0])]"

theorem interface_traffic_witness:
  "\<exists>pre st1 cur st2 cur' dev'.
     photosyst (sysenv_ex (kernel_netdev netdev_heads netdev_ex)) sysstatics_ex = Some (Inr (pre, st1)) \<and>
     photosyst (sysenv_ex (kernel_netdev netdev_heads netdev_ex2)) sysstatics_ex = Some (Inr (cur, st2)) \<and>
     deviat_intf [ifprop0] ifprop0 (ss_intf cur) (ss_intf pre) intfstat0 = Some (cur', ss_intf pre, dev') \<and> ifs_nrintf dev' = 2 \<and>
     cstr (pif_name (ifs_intf dev' ! 0)) = ''wlan0'' \<and> pif_rbyte (ifs_intf dev' ! 0) = 30 \<and>
     cstr (pif_name (ifs_intf dev' ! 1)) = ''eth0'' \<and> pif_rbyte (ifs_intf dev' ! 1) = 10"
proof -
  let ?e1 = "sysenv_ex (kernel_netdev netdev_heads netdev_ex)" and ?e2 = "sysenv_ex (kernel_netdev netdev_heads netdev_ex2)"
  obtain pre st1 where p: "photosyst ?e1 sysstatics_ex = Some (Inr (pre, st1))" using photosyst_ex by blast
  obtain cur st2 where c: "photosyst ?e2 sysstatics_ex = Some (Inr (cur, st2))" using photosyst_ex by blast
  have "list_all (\<lambda>h. length (sscanf (no_colon (h @ [CHR 0x0A])) netdev_fmt) = 1) netdev_heads" by code_simp
  then have h: "\<forall>h\<in>set (netdev_heads @ netdev_heads). heading_ok h" by (simp add: netdev_heads_def heading_ok_def)
  have "list_all (\<lambda>k. length (kernel_intf k) < 1000) (netdev_ex @ netdev_ex2)" by code_simp
  then have k: "\<forall>k\<in>set (netdev_ex @ netdev_ex2). kintf_ok k"
    by (simp add: netdev_ex_def netdev_ex2_def kintf_ok_def word_ok_def isspace_def i64_range_def)
  have f: "se_fopen ?e1 ''net/dev'' = Some (kernel_netdev netdev_heads netdev_ex)" "se_fopen ?e2 ''net/dev'' = Some (kernel_netdev netdev_heads netdev_ex2)"
    by (simp_all add: sysenv_ex_def)
  have n: "length netdev_ex < MAXINTF" "length netdev_ex2 < MAXINTF" "netdev_ex \<noteq> []" "distinct (map fst netdev_ex)"
    "length (ifs_intf intfstat0) = MAXINTF" "\<exists>p\<in>set [ifprop0]. \<not> cnonempty (ifp_name p)" "length netdev_ex2 = 2"
    by (simp_all add: netdev_ex_def netdev_ex2_def MAXINTF_def intfstat0_def ifprop0_def cnonempty_def)
  obtain cur' dev' where d: "deviat_intf [ifprop0] ifprop0 (ss_intf cur) (ss_intf pre) intfstat0 = Some (cur', ss_intf pre, dev')"
    "ifs_nrintf dev' = of_nat 2"
    and t: "\<forall>i < 2. cstr (pif_name (ifs_intf dev' ! i)) = fst (netdev_ex2 ! i) \<and> intf_columns (ifs_intf dev' ! i) = traffic netdev_ex (netdev_ex2 ! i)"
    using interface_traffic [OF p f(1) c f(2) h k n(1-6), of ifprop0] unfolding n(7) by blast
  have "hd (traffic netdev_ex (netdev_ex2 ! 0)) = 30" "hd (traffic netdev_ex (netdev_ex2 ! 1)) = 10"
    by (simp_all add: traffic_def netdev_ex_def netdev_ex2_def kcounts_def subcount_def word_sle_eq)
  moreover have "hd (intf_columns x) = pif_rbyte x" for x by (simp add: intf_columns_def)
  ultimately have "pif_rbyte (ifs_intf dev' ! 0) = 30" "pif_rbyte (ifs_intf dev' ! 1) = 10"
    using t by (metis one_less_numeral_iff semiring_norm(76) zero_less_numeral)+
  then show ?thesis using p c d t by (auto simp: netdev_ex2_def)
qed

end
